(* ===== verification/Prelude.thy ===== *)
theory Prelude
  imports Main "HOL-Library.Word" "HOL-Library.Sublist" "HOL-Library.Multiset"
begin

text \<open>
  Shared vocabulary of the development: bytes, Go's fixed-width integers, the
  little-endian codec of \<open>encoding/binary\<close>, positional file access
  (\<open>io.ReaderAt\<close>), the binary search of \<open>sort.Search\<close>, truncating integer
  remainder, decimal rendering and parsing of unsigned integers
  (\<open>fmt.Sprintf("%0wd")\<close>, \<open>strconv.ParseUint\<close>), the outcomes of
  system calls, and the generic list lemmas the components use.
\<close>

unbundle bit_operations_syntax

named_theorems codec_simps \<open>round-trip and length facts of the binary codecs\<close>

section \<open>Types\<close>

type_synonym byte = "8 word"
type_synonym u32 = "32 word"
type_synonym u64 = "64 word"

text \<open>A Go string used as bytes, e.g. a file magic.\<close>

definition str_bytes :: "string \<Rightarrow> byte list" where
  "str_bytes s = map of_char s"

lemma length_str_bytes [simp]: "length (str_bytes s) = length s"
  by (simp add: str_bytes_def)

section \<open>Little-endian codec\<close>

text \<open>\<open>binary.LittleEndian.PutUint32/64\<close> and \<open>Uint32/64\<close>, on any word width.\<close>

definition put_le :: "nat \<Rightarrow> 'a::len word \<Rightarrow> byte list" where
  "put_le n x = map (\<lambda>i. ucast (drop_bit (8 * i) x)) [0..<n]"

fun get_le :: "byte list \<Rightarrow> 'a::len word" where
  "get_le [] = 0"
| "get_le (b # bs) = ucast b OR push_bit 8 (get_le bs)"

lemma length_put_le [simp, codec_simps]: "length (put_le n x) = n"
  by (simp add: put_le_def)

lemma bit_get_le:
  "bit (get_le bs :: 'a::len word) n \<longleftrightarrow>
     n < LENGTH('a) \<and> n div 8 < length bs \<and> bit (bs ! (n div 8)) (n mod 8)"
proof (induction bs arbitrary: n)
  case Nil
  then show ?case by simp
next
  case (Cons b bs)
  have b: "bit (get_le (b # bs) :: 'a word) n \<longleftrightarrow>
      n < LENGTH('a) \<and> (bit b n \<or> 8 \<le> n \<and> bit (get_le bs :: 'a word) (n - 8))"
    by (auto simp: bit_or_iff bit_ucast_iff bit_push_bit_iff)
  show ?case
  proof (cases "n < 8")
    case True
    then show ?thesis unfolding b by simp
  next
    case False
    then have "n div 8 = Suc ((n - 8) div 8)" and "n mod 8 = (n - 8) mod 8"
      by (simp_all add: div_if mod_if)
    moreover have "\<not> bit b n" using False bit_imp_le_length [of b n] by auto
    ultimately show ?thesis unfolding b Cons.IH using False by auto
  qed
qed
lemma get_le_put_le [simp, codec_simps]:
  assumes "LENGTH('a) \<le> 8 * n"
  shows "get_le (put_le n (x :: 'a::len word)) = x"
proof (rule bit_word_eqI)
  fix k
  assume k: "k < LENGTH('a)"
  with assms have "k div 8 < n" by linarith
  moreover have "8 * (k div 8) + k mod 8 = k" by simp
  ultimately show "bit (get_le (put_le n x) :: 'a word) k \<longleftrightarrow> bit x k"
    using k by (simp add: bit_get_le put_le_def bit_ucast_iff bit_drop_bit_eq)
qed

lemma put_le_get_le [codec_simps]:
  assumes "LENGTH('a) = 8 * n" and "length bs = n"
  shows "put_le n (get_le bs :: 'a::len word) = bs"
proof (rule nth_equalityI)
  show "length (put_le n (get_le bs :: 'a word)) = length bs" using assms by simp
  fix i
  assume "i < length (put_le n (get_le bs :: 'a word))"
  then have i: "i < n" by simp
  show "put_le n (get_le bs :: 'a word) ! i = bs ! i"
  proof (rule bit_word_eqI)
    fix k
    assume "k < LENGTH(8)"
    then have k: "k < 8" by simp
    then have "(8 * i + k) div 8 = i" and "(8 * i + k) mod 8 = k" and "8 * i + k < 8 * n"
      using i by auto
    with i k assms show "bit (put_le n (get_le bs :: 'a word) ! i) k \<longleftrightarrow> bit (bs ! i) k"
      by (simp add: put_le_def bit_ucast_iff bit_drop_bit_eq bit_get_le)
  qed
qed

lemma unat_of_nat_small: "n < 2 ^ LENGTH('a) \<Longrightarrow> unat (of_nat n :: 'a::len word) = n"
  by (simp add: unat_of_nat)

section \<open>Positional reads and writes\<close>

text \<open>
  \<open>io.ReaderAt.ReadAt\<close> with a full buffer: an error (\<open>None\<close>) unless all the
  bytes are there.
\<close>

definition readAt :: "byte list \<Rightarrow> nat \<Rightarrow> nat \<Rightarrow> byte list option" where
  "readAt f pos n = (if pos + n \<le> length f then Some (take n (drop pos f)) else None)"

lemma readAt_app [simp]:
  "length pre = pos \<Longrightarrow> length mid = n \<Longrightarrow> readAt (pre @ mid @ post) pos n = Some mid"
  by (auto simp: readAt_def)

lemma readAt_Some_length: "readAt f pos n = Some b \<Longrightarrow> length b = n \<and> pos + n \<le> length f"
  by (auto simp: readAt_def split: if_splits)

lemma readAt_cong_take:
  "take m f = take m g \<Longrightarrow> pos + n \<le> m \<Longrightarrow> m \<le> length f \<Longrightarrow> m \<le> length g \<Longrightarrow>
   readAt f pos n = readAt g pos n"
proof -
  assume *: "take m f = take m g" "pos + n \<le> m" "m \<le> length f" "m \<le> length g"
  have "take n (drop pos h) = take n (drop pos (take m h))" for h :: "byte list"
    using *(2) by (simp add: drop_take)
  then have "take n (drop pos f) = take n (drop pos g)" using *(1) by metis
  with * show ?thesis by (simp add: readAt_def)
qed

section \<open>Binary search\<close>

text \<open>
  \<open>sort.Search(n, f)\<close>: the loop keeps \<open>f(i-1) = false\<close> and
  \<open>f(j) = true\<close>, halving \<open>[i, j)\<close>.
\<close>

function search_loop :: "(nat \<Rightarrow> bool) \<Rightarrow> nat \<Rightarrow> nat \<Rightarrow> nat" where
  "search_loop f i j =
     (if i < j
      then (let h = (i + j) div 2 in if \<not> f h then search_loop f (h + 1) j else search_loop f i h)
      else i)"
  by pat_completeness auto
termination
  by (relation "measure (\<lambda>(f, i, j). j - i)") auto

declare search_loop.simps [simp del]

definition sort_Search :: "nat \<Rightarrow> (nat \<Rightarrow> bool) \<Rightarrow> nat" where
  "sort_Search n f = search_loop f 0 n"

lemma search_loop_stop [simp]: "search_loop f i i = i"
  by (simp add: search_loop.simps [of f i i])

lemma search_loop_step:
  "i < j \<Longrightarrow> search_loop f i j =
     (if f ((i + j) div 2) then search_loop f i ((i + j) div 2) else search_loop f (Suc ((i + j) div 2)) j)"
  by (simp add: search_loop.simps [of f i j] Let_def)

lemma search_loop_spec:
  assumes "i \<le> j" and "\<And>a b. a \<le> b \<Longrightarrow> b < n \<Longrightarrow> f a \<Longrightarrow> f b"
    and "\<And>k. k < i \<Longrightarrow> \<not> f k" and "\<And>k. j \<le> k \<Longrightarrow> k < n \<Longrightarrow> f k" and "j \<le> n"
  shows "search_loop f i j \<le> n \<and> (\<forall>k < search_loop f i j. \<not> f k) \<and>
         (\<forall>k. search_loop f i j \<le> k \<longrightarrow> k < n \<longrightarrow> f k)"
  using assms
proof (induction "j - i" arbitrary: i j rule: less_induct)
  case less
  show ?case
  proof (cases "i < j")
    case False
    with less.prems have "i = j" by simp
    with less.prems show ?thesis by auto
  next
    case lt: True
    obtain h where h_def: "h = (i + j) div 2" by blast
    then have h: "h < j" "i \<le> h" "h < n" using lt less.prems(5) by linarith+
    have step: "search_loop f i j = (if f h then search_loop f i h else search_loop f (Suc h) j)"
      using lt unfolding h_def by (rule search_loop_step)
    show ?thesis
    proof (cases "f h")
      case False
      then have below: "\<not> f k" if "k < Suc h" for k
        using that less.prems(2) [OF _ h(3)] by (auto simp: less_Suc_eq_le)
      have "j - Suc h < j - i" and "Suc h \<le> j" using h lt by linarith+
      from less.hyps [OF this less.prems(2) below less.prems(4,5)] False step
      show ?thesis by simp
    next
      case True
      then have above: "f k" if "h \<le> k" "k < n" for k using less.prems(2) that by blast
      have "h - i < j - i" and "i \<le> h" and "h \<le> n" using h by linarith+
      from less.hyps [OF this(1,2) less.prems(2,3) above this(3)] True step
      show ?thesis by simp
    qed
  qed
qed

text \<open>On a monotone predicate the search returns the least index that satisfies it, or \<open>n\<close>.\<close>

lemma sort_Search_least:
  assumes "\<And>a b. a \<le> b \<Longrightarrow> b < n \<Longrightarrow> f a \<Longrightarrow> f b"
  shows "sort_Search n f \<le> n \<and> (\<forall>k < sort_Search n f. \<not> f k) \<and>
         (sort_Search n f < n \<longrightarrow> f (sort_Search n f))"
  using search_loop_spec [of 0 n n f] assms by (auto simp: sort_Search_def)

section \<open>Decimal numbers\<close>

text \<open>
  \<open>strconv.FormatUint(n, 10)\<close>, its zero-padded form
  (\<open>fmt.Sprintf("%0wd", n)\<close>) and \<open>strconv.ParseUint(s, 10, 64)\<close>: digits only,
  at least one, and the value in range.
\<close>

definition digit_char :: "nat \<Rightarrow> char" where
  "digit_char d = char_of (48 + d)"

fun dec_str :: "nat \<Rightarrow> string" where
  "dec_str n = (if n < 10 then [digit_char n] else dec_str (n div 10) @ [digit_char (n mod 10)])"

declare dec_str.simps [simp del]

definition pad_dec :: "nat \<Rightarrow> nat \<Rightarrow> string" where
  "pad_dec w n = replicate (w - length (dec_str n)) (CHR ''0'') @ dec_str n"

definition is_digit :: "char \<Rightarrow> bool" where
  "is_digit c \<longleftrightarrow> 48 \<le> (of_char c :: nat) \<and> (of_char c :: nat) \<le> 57"

definition digit_val :: "char \<Rightarrow> nat" where
  "digit_val c = of_char c - 48"

definition dec_val :: "string \<Rightarrow> nat" where
  "dec_val s = foldl (\<lambda>acc c. 10 * acc + digit_val c) 0 s"

definition parseUint64 :: "string \<Rightarrow> nat option" where
  "parseUint64 s =
     (if s \<noteq> [] \<and> list_all is_digit s \<and> dec_val s < 2 ^ 64 then Some (dec_val s) else None)"

lemma digit_char_props:
  assumes "d < 10"
  shows "is_digit (digit_char d)" and "digit_val (digit_char d) = d"
  using assms by (simp_all add: is_digit_def digit_val_def digit_char_def)

lemma dec_val_snoc: "dec_val (s @ [c]) = 10 * dec_val s + digit_val c"
  by (simp add: dec_val_def)

lemma dec_val_zeros: "dec_val (replicate k (CHR ''0'') @ s) = dec_val s"
  by (induction k) (simp_all add: dec_val_def digit_val_def)

lemma dec_str_digits: "list_all is_digit (dec_str n)"
proof (induction n rule: dec_str.induct)
  case (1 n)
  then show ?case by (cases "n < 10") (simp_all add: dec_str.simps [of n] digit_char_props)
qed

lemma dec_val_dec_str [simp]: "dec_val (dec_str n) = n"
proof (induction n rule: dec_str.induct)
  case (1 n)
  show ?case
  proof (cases "n < 10")
    case True
    then show ?thesis by (simp add: dec_str.simps [of n] dec_val_def digit_char_props)
  next
    case False
    with 1 show ?thesis by (simp add: dec_str.simps [of n] dec_val_snoc digit_char_props)
  qed
qed

lemma dec_str_nonempty [simp]: "dec_str n \<noteq> []"
  by (simp add: dec_str.simps [of n])

lemma length_dec_str: "n < 10 ^ w \<Longrightarrow> 0 < w \<Longrightarrow> length (dec_str n) \<le> w"
proof (induction w arbitrary: n)
  case 0
  then show ?case by simp
next
  case (Suc w)
  show ?case
  proof (cases "n < 10")
    case True
    then show ?thesis by (simp add: dec_str.simps [of n])
  next
    case False
    then have "w \<noteq> 0" using Suc.prems by (cases w) auto
    moreover have "n div 10 < 10 ^ w" using Suc.prems by (simp add: less_mult_imp_div_less mult.commute)
    ultimately show ?thesis using Suc.IH [of "n div 10"] False by (simp add: dec_str.simps [of n])
  qed
qed

lemma zeros_digits: "list_all is_digit (replicate k (CHR ''0''))"
  by (induction k) (simp_all add: is_digit_def)

lemma pad_dec_props:
  shows "list_all is_digit (pad_dec w n)" and "dec_val (pad_dec w n) = n" and "pad_dec w n \<noteq> []"
    and "n < 10 ^ w \<Longrightarrow> 0 < w \<Longrightarrow> length (pad_dec w n) = w"
  using length_dec_str [of n w]
  by (simp_all add: pad_dec_def dec_str_digits dec_val_zeros zeros_digits)

lemma digit_val_less: "is_digit c \<Longrightarrow> digit_val c < 10"
  unfolding is_digit_def digit_val_def by linarith

lemma digit_val_inj:
  assumes "is_digit c" "is_digit d" "digit_val c = digit_val d"
  shows "c = d"
proof -
  have "(of_char c :: nat) = of_char d" using assms unfolding is_digit_def digit_val_def by linarith
  then show ?thesis by simp
qed

text \<open>A zero-padded numeral is determined by its width and value.\<close>

lemma pad_dec_unique:
  "list_all is_digit s \<Longrightarrow> list_all is_digit t \<Longrightarrow> length s = length t \<Longrightarrow> dec_val s = dec_val t \<Longrightarrow> s = t"
proof (induction s arbitrary: t rule: rev_induct)
  case Nil
  then show ?case by simp
next
  case (snoc c s)
  from snoc.prems(3) obtain d u where t: "t = u @ [d]" by (cases t rule: rev_cases) auto
  have dig: "is_digit c" "is_digit d" using snoc.prems by (simp_all add: t)
  then have lt: "digit_val c < 10" "digit_val d < 10" by (simp_all add: digit_val_less)
  have "10 * dec_val s + digit_val c = 10 * dec_val u + digit_val d"
    using snoc.prems(4) by (simp add: t dec_val_snoc)
  moreover from this lt have eq: "dec_val s = dec_val u" by linarith
  ultimately have eq': "digit_val c = digit_val d" by linarith
  from eq snoc have "s = u" by (simp add: t)
  moreover from dig eq' have "c = d" by (rule digit_val_inj)
  ultimately show ?case by (simp add: t)
qed

text \<open>Integers as \<open>fmt.Sprintf("%d")\<close> prints them.\<close>

definition int_str :: "int \<Rightarrow> string" where
  "int_str n = (if n < 0 then CHR ''-'' # dec_str (nat (- n)) else dec_str (nat n))"

lemma dec_str_inj: "dec_str m = dec_str n \<Longrightarrow> m = n"
  by (metis dec_val_dec_str)

lemma dec_str_chars: "c \<in> set (dec_str n) \<Longrightarrow> is_digit c"
  using dec_str_digits [of n] by (simp add: list_all_iff)

lemma int_str_chars: "c \<in> set (int_str n) \<Longrightarrow> c = CHR ''-'' \<or> is_digit c"
  by (auto simp: int_str_def dest: dec_str_chars split: if_splits)

lemma int_str_inj: "int_str m = int_str n \<Longrightarrow> m = n"
proof -
  have minus: "dec_str k \<noteq> CHR ''-'' # s" for k s
    using dec_str_chars [of "CHR ''-''" k] by (auto simp: is_digit_def)
  assume "int_str m = int_str n"
  then show ?thesis
    using minus minus [symmetric] by (auto simp: int_str_def dest!: dec_str_inj split: if_splits)
qed

text \<open>\<open>strconv.ParseInt(s, 10, 64)\<close>: an optional sign, digits, and the value in range.\<close>

definition parseInt64 :: "string \<Rightarrow> int option" where
  "parseInt64 s =
     (let neg = (s \<noteq> [] \<and> hd s = CHR ''-'');
          ds = (if s \<noteq> [] \<and> (hd s = CHR ''-'' \<or> hd s = CHR ''+'') then List.tl s else s);
          v = (if neg then - int (dec_val ds) else int (dec_val ds))
      in if ds \<noteq> [] \<and> list_all is_digit ds \<and> - (2 ^ 63) \<le> v \<and> v < 2 ^ 63 then Some v else None)"

lemma parseInt64_int_str:
  assumes "- (2 ^ 63) \<le> n" "n < 2 ^ 63"
  shows "parseInt64 (int_str n) = Some n"
proof (cases "n < 0")
  case True
  then show ?thesis using assms by (simp add: int_str_def parseInt64_def Let_def dec_str_digits)
next
  case False
  have "hd (dec_str (nat n)) \<in> set (dec_str (nat n))" by simp
  then have "is_digit (hd (dec_str (nat n)))" by (rule dec_str_chars)
  then have "hd (dec_str (nat n)) \<noteq> CHR ''-''" "hd (dec_str (nat n)) \<noteq> CHR ''+''" by (auto simp: is_digit_def)
  then show ?thesis using assms False by (simp add: int_str_def parseInt64_def Let_def dec_str_digits)
qed

section \<open>Truncating remainder\<close>

text \<open>Go's \<open>%\<close> takes the sign of the dividend.\<close>

definition go_rem :: "int \<Rightarrow> int \<Rightarrow> int" where
  "go_rem a b = sgn a * (\<bar>a\<bar> mod \<bar>b\<bar>)"

section \<open>Text\<close>

text \<open>ASCII lower case, as \<open>strings.ToLower\<close> and SQLite's \<open>LIKE\<close> use it.\<close>

definition to_lower_char :: "char \<Rightarrow> char" where
  "to_lower_char c = (if of_char c \<ge> (65 :: nat) \<and> of_char c \<le> (90 :: nat) then char_of ((of_char c :: nat) + 32) else c)"

definition to_lower :: "string \<Rightarrow> string" where
  "to_lower s = map to_lower_char s"

section \<open>Durations\<close>

text \<open>\<open>time.Time.Sub\<close> in nanoseconds; it saturates at the range of an \<open>int64\<close>.\<close>

definition time_sub :: "int \<Rightarrow> int \<Rightarrow> int" where
  "time_sub a b = max (- (2 ^ 63)) (min (2 ^ 63 - 1) (a - b))"

section \<open>Go maps\<close>

text \<open>A map whose size and iteration matter: an association list with one entry per key.\<close>

fun map_put :: "'k \<Rightarrow> 'v \<Rightarrow> ('k \<times> 'v) list \<Rightarrow> ('k \<times> 'v) list" where
  "map_put k v [] = [(k, v)]"
| "map_put k v ((k', v') # m) = (if k' = k then (k, v) # m else (k', v') # map_put k v m)"

lemma map_of_map_put [simp]: "map_of (map_put k v m) = (map_of m)(k \<mapsto> v)"
  by (induction m) auto

lemma length_map_put: "length (map_put k v m) = (if map_of m k = None then Suc (length m) else length m)"
  by (induction m) auto

lemma fst_map_put: "fst ` set (map_put k v m) = insert k (fst ` set m)"
  by (induction k v m rule: map_put.induct) (simp_all add: insert_commute)

lemma distinct_map_put: "distinct (map fst m) \<Longrightarrow> distinct (map fst (map_put k v m))"
  by (induction k v m rule: map_put.induct) (simp_all add: fst_map_put, blast)

section \<open>Outcomes of system calls\<close>

text \<open>
  A run is given the outcomes of its system calls as a list, consumed from the front; a
  call past its end succeeds. \<open>Fail k\<close> is a call that returned an error; for a write,
  after \<open>k\<close> of its bytes had reached the file.
\<close>

datatype io_res = Done | Fail nat

type_synonym io = "io_res list"

fun io_next :: "io \<Rightarrow> io_res \<times> io" where
  "io_next [] = (Done, [])"
| "io_next (r # rs) = (r, rs)"

end
