(* ===== verification/Wal_Segment.thy ===== *)
theory Wal_Segment
  imports Prelude
begin

text \<open>
  The on-disk segment format of the write-ahead log (\<open>internal/wal/segment.go\<close>): file
  names, the 20-byte header, the record codec with its CRC-32C, and the forward scan that
  recovery and every reader rely on. The main results: a file name and a record are read
  back as they were written, and a segment cut at any byte is read as exactly the records
  that are complete.
\<close>

section \<open>Constants and data\<close>

definition segMagic :: "byte list" where
  "segMagic = str_bytes ''LESRWAL1''"

definition segVersion :: u32 where
  "segVersion = 1"

definition segHeaderLen :: nat where
  "segHeaderLen = 8 + 4 + 8"

definition recHeaderLen :: nat where
  "recHeaderLen = 4 + 4"

definition bodyFixedLen :: nat where
  "bodyFixedLen = 8 + 1"

lemmas seg_consts = segHeaderLen_def recHeaderLen_def bodyFixedLen_def

text \<open>\<open>Record\<close>: the time is the bit pattern of an \<open>int64\<close>.\<close>

record wal_record =
  Offset :: nat
  Time :: u64
  Typ :: byte
  Payload :: "byte list"

text \<open>The two ways a scan and a header check refuse their input.\<close>

datatype header_err = HeaderShort | BadMagic | UnsupportedVersion u32

section \<open>CRC-32C\<close>

text \<open>\<open>crc32.Checksum(_, castagnoli)\<close>: the reflected polynomial, one bit at a time.\<close>

definition crc_bit :: "u32 \<Rightarrow> u32" where
  "crc_bit c = (if bit c 0 then drop_bit 1 c XOR 0x82F63B78 else drop_bit 1 c)"

definition crc_byte :: "u32 \<Rightarrow> byte \<Rightarrow> u32" where
  "crc_byte c b = (crc_bit ^^ 8) (c XOR ucast b)"

definition crc32c :: "byte list \<Rightarrow> u32" where
  "crc32c bs = NOT (foldl crc_byte (NOT 0) bs)"

section \<open>File names\<close>

definition segmentName :: "nat \<Rightarrow> string" where
  "segmentName base = pad_dec 20 base @ ''.seg''"

definition parseSegmentName :: "string \<Rightarrow> nat option" where
  "parseSegmentName name =
     (if \<not> suffix ''.seg'' name \<or> length name \<noteq> 24 then None
      else parseUint64 (take 20 name))"

section \<open>Header\<close>

definition segment_header :: "nat \<Rightarrow> byte list" where
  "segment_header base = segMagic @ put_le 4 segVersion @ put_le 8 (of_nat base :: u64)"

definition readSegmentHeader :: "byte list \<Rightarrow> header_err + nat" where
  "readSegmentHeader f =
     (case readAt f 0 segHeaderLen of
        None \<Rightarrow> Inl HeaderShort
      | Some hdr \<Rightarrow>
          if take 8 hdr \<noteq> segMagic then Inl BadMagic
          else let v = get_le (take 4 (drop 8 hdr)) in
            if v \<noteq> segVersion then Inl (UnsupportedVersion v)
            else Inr (unat (get_le (take 8 (drop 12 hdr)) :: u64)))"

section \<open>Records\<close>

definition record_body :: "u64 \<Rightarrow> byte \<Rightarrow> byte list \<Rightarrow> byte list" where
  "record_body ts ty payload = put_le 8 ts @ [ty] @ payload"

definition appendRecord :: "u64 \<Rightarrow> byte \<Rightarrow> byte list \<Rightarrow> byte list" where
  "appendRecord ts ty payload =
     (let bodyLen = bodyFixedLen + length payload; body = record_body ts ty payload
      in put_le 4 (of_nat bodyLen :: u32) @ put_le 4 (crc32c body) @ body)"

text \<open>\<open>None\<close> is \<open>errTorn\<close>.\<close>

definition scanRecord :: "byte list \<Rightarrow> nat \<Rightarrow> nat \<Rightarrow> nat \<Rightarrow> nat \<Rightarrow> (wal_record \<times> nat) option" where
  "scanRecord r pos sz maxRecord offset =
     (if sz < pos + recHeaderLen then None
      else case readAt r pos recHeaderLen of
        None \<Rightarrow> None
      | Some hdr \<Rightarrow>
          let bodyLen = unat (get_le (take 4 hdr) :: u32) in
          if bodyLen < bodyFixedLen \<or> maxRecord < bodyLen then None
          else let end' = pos + recHeaderLen + bodyLen in
          if sz < end' then None
          else case readAt r (pos + recHeaderLen) bodyLen of
            None \<Rightarrow> None
          | Some body \<Rightarrow>
              if crc32c body \<noteq> get_le (drop 4 hdr) then None
              else Some (\<lparr>Offset = offset, Time = get_le (take 8 body),
                          Typ = body ! 8, Payload = drop 9 body\<rparr>, end'))"

lemma scanRecord_next:
  assumes "scanRecord r pos sz mx off = Some (rec, nxt)"
  shows "pos < nxt" and "nxt \<le> sz" and "nxt \<le> length r"
  using assms
  by (auto simp: scanRecord_def Let_def seg_consts dest!: readAt_Some_length split: if_splits option.splits)

lemma scanRecord_shrinks: "scanRecord r pos sz mx off = Some (rec, nxt) \<Longrightarrow> sz - nxt < sz - pos"
  using scanRecord_next [of r pos sz mx off rec nxt] by linarith

text \<open>The loop of \<open>scanSegment\<close>, from a byte position, counting the valid records.\<close>

function scan_loop :: "byte list \<Rightarrow> nat \<Rightarrow> nat \<Rightarrow> nat \<Rightarrow> nat \<Rightarrow> nat \<times> nat" where
  "scan_loop f sz maxRecord records pos =
     (case scanRecord f pos sz maxRecord 0 of
        None \<Rightarrow> (records, pos)
      | Some (_, nxt) \<Rightarrow> scan_loop f sz maxRecord (records + 1) nxt)"
  by pat_completeness auto
termination
  by (relation "measure (\<lambda>(f, sz, mx, n, pos). sz - pos)")
     (auto simp: scanRecord_shrinks)

declare scan_loop.simps [simp del]

definition scanSegment :: "byte list \<Rightarrow> nat \<Rightarrow> nat \<times> nat" where
  "scanSegment f maxRecord = scan_loop f (length f) maxRecord 0 segHeaderLen"

section \<open>File names are read back\<close>

lemma parseSegmentName_segmentName [simp, codec_simps]:
  assumes "base < 2 ^ 64"
  shows "parseSegmentName (segmentName base) = Some base"
proof -
  from assms have "base < 10 ^ 20" by simp
  then have "length (pad_dec 20 base) = 20" by (rule pad_dec_props) simp
  with assms show ?thesis
    by (simp add: parseSegmentName_def segmentName_def suffix_def parseUint64_def pad_dec_props)
qed

lemma parseSegmentName_bound: "parseSegmentName name = Some b \<Longrightarrow> b < 2 ^ 64"
  by (auto simp: parseSegmentName_def parseUint64_def split: if_splits)

lemma parseSegmentName_Some:
  assumes "parseSegmentName name = Some b"
  shows "name = segmentName b"
proof -
  have suf: "suffix ''.seg'' name" and len: "length name = 24" and dig: "list_all is_digit (take 20 name)"
    and b: "b = dec_val (take 20 name)" and lt: "b < 2 ^ 64"
    using assms by (auto simp: parseSegmentName_def parseUint64_def split: if_splits)
  from suf obtain pre where pre: "name = pre @ ''.seg''" by (auto simp: suffix_def)
  with len have p20: "take 20 name = pre" "length pre = 20" by auto
  from lt have "b < 10 ^ 20" by simp
  then have "length (pad_dec 20 b) = 20" by (rule pad_dec_props) simp
  with p20 dig b have "pre = pad_dec 20 b"
    by (intro pad_dec_unique) (simp_all add: pad_dec_props)
  with pre show ?thesis by (simp add: segmentName_def)
qed

lemma segmentName_eq_iff [simp]:
  "a < 2 ^ 64 \<Longrightarrow> b < 2 ^ 64 \<Longrightarrow> segmentName a = segmentName b \<longleftrightarrow> a = b"
  by (metis option.inject parseSegmentName_segmentName)

section \<open>Header round trip\<close>

lemma length_segment_header [simp, codec_simps]: "length (segment_header base) = segHeaderLen"
  by (simp add: segment_header_def segMagic_def segHeaderLen_def)

lemma readSegmentHeader_app:
  "base < 2 ^ 64 \<Longrightarrow> readSegmentHeader (segment_header base @ rest) = Inr base"
  by (simp add: readSegmentHeader_def readAt_def segment_header_def segMagic_def segHeaderLen_def
      unat_of_nat_small)

lemma readSegmentHeader_short:
  "length f < segHeaderLen \<Longrightarrow> readSegmentHeader f = Inl HeaderShort"
  by (simp add: readSegmentHeader_def readAt_def)

section \<open>What a scan reads\<close>

text \<open>
  What a producer appended: the time the batch was written, the record type and the payload.
  \<open>enc_entries\<close> is the byte image of a run of appends; \<open>number_entries\<close> the
  records a reader must get back, with their logical offsets.
\<close>

type_synonym entry = "u64 \<times> byte \<times> byte list"

definition enc_entry :: "entry \<Rightarrow> byte list" where
  "enc_entry e = (case e of (ts, ty, p) \<Rightarrow> appendRecord ts ty p)"

definition enc_entries :: "entry list \<Rightarrow> byte list" where
  "enc_entries es = concat (map enc_entry es)"

definition entry_fits :: "nat \<Rightarrow> entry \<Rightarrow> bool" where
  "entry_fits mx e \<longleftrightarrow> length (snd (snd e)) + bodyFixedLen \<le> mx"

definition entry_record :: "nat \<Rightarrow> entry \<Rightarrow> wal_record" where
  "entry_record off e =
     (case e of (ts, ty, p) \<Rightarrow> \<lparr>Offset = off, Time = ts, Typ = ty, Payload = p\<rparr>)"

fun number_entries :: "nat \<Rightarrow> entry list \<Rightarrow> wal_record list" where
  "number_entries off [] = []"
| "number_entries off (e # es) = entry_record off e # number_entries (Suc off) es"

lemma length_number_entries [simp]: "length (number_entries off es) = length es"
  by (induction es arbitrary: off) auto

lemma number_entries_append:
  "number_entries off (es @ fs) = number_entries off es @ number_entries (off + length es) fs"
  by (induction es arbitrary: off) auto

lemma number_entries_nth:
  "i < length es \<Longrightarrow> number_entries off es ! i = entry_record (off + i) (es ! i)"
proof (induction es arbitrary: off i)
  case Nil
  then show ?case by simp
next
  case (Cons e es)
  then show ?case by (cases i) auto
qed

lemma enc_entries_simps [simp, codec_simps]:
  "enc_entries [] = []" "enc_entries (e # es) = enc_entry e @ enc_entries es"
  "enc_entries (es @ fs) = enc_entries es @ enc_entries fs"
  by (simp_all add: enc_entries_def)

lemma length_enc_entry [codec_simps]:
  "length (enc_entry (ts, ty, p)) = recHeaderLen + bodyFixedLen + length p"
  by (simp add: enc_entry_def appendRecord_def record_body_def seg_consts Let_def)

lemma enc_entry_pos: "0 < length (enc_entry e)"
  by (cases e) (simp add: length_enc_entry seg_consts)

text \<open>The reading loop, with the records it passes.\<close>

function scan_records :: "byte list \<Rightarrow> nat \<Rightarrow> nat \<Rightarrow> nat \<Rightarrow> nat \<Rightarrow> wal_record list \<times> nat" where
  "scan_records f sz mx pos off =
     (case scanRecord f pos sz mx off of
        None \<Rightarrow> ([], pos)
      | Some (rec, nxt) \<Rightarrow>
          (let (rs, e) = scan_records f sz mx nxt (Suc off) in (rec # rs, e)))"
  by pat_completeness auto
termination
  by (relation "measure (\<lambda>(f, sz, mx, pos, off). sz - pos)") (auto simp: scanRecord_shrinks)

declare scan_records.simps [simp del]

lemma scanRecord_offset:
  "scanRecord f pos sz mx off = map_option (\<lambda>(r, n). (r\<lparr>Offset := off\<rparr>, n)) (scanRecord f pos sz mx off')"
  by (simp add: scanRecord_def Let_def split: option.splits)

text \<open>The counting scan of the code is the length and end of the reading scan.\<close>

lemma scan_loop_records:
  "scan_loop f sz mx n pos =
     (n + length (fst (scan_records f sz mx pos off)), snd (scan_records f sz mx pos off))"
proof (induction f sz mx n pos arbitrary: off rule: scan_loop.induct)
  case (1 f sz mx n pos)
  show ?case
  proof (cases "scanRecord f pos sz mx 0")
    case None
    then show ?thesis
      by (simp add: scan_loop.simps [of f] scan_records.simps [of f sz mx pos] scanRecord_offset [of f pos sz mx off 0])
  next
    case (Some a)
    obtain r nxt where a: "a = (r, nxt)" by (cases a)
    with Some "1.IH" [OF Some a [symmetric]] show ?thesis
      by (simp add: scan_loop.simps [of f sz mx n pos] scan_records.simps [of f sz mx pos off]
          scanRecord_offset [of f pos sz mx off 0] split_beta)
  qed
qed

text \<open>A record is read back at the place it was written, whatever follows it.\<close>

lemma scanRecord_enc:
  assumes "length pre = pos" and "entry_fits mx e" and "mx < 2 ^ 32"
    and "pos + length (enc_entry e) \<le> sz"
  shows "scanRecord (pre @ enc_entry e @ post) pos sz mx off =
     Some (entry_record off e, pos + length (enc_entry e))"
proof -
  obtain ts ty p where e: "e = (ts, ty, p)" by (cases e)
  let ?n = "bodyFixedLen + length p"
  let ?b = "record_body ts ty p"
  let ?h = "put_le 4 (of_nat ?n :: u32) @ put_le 4 (crc32c ?b)"
  have lb: "length ?b = ?n" by (simp add: record_body_def seg_consts)
  have fits: "?n \<le> mx" "?n < 2 ^ 32" using assms(2,3) by (simp_all add: entry_fits_def e)
  then have un: "unat (of_nat ?n :: u32) = ?n" by (intro unat_of_nat_small) simp
  have enc: "enc_entry e = ?h @ ?b" by (simp add: e enc_entry_def appendRecord_def Let_def)
  have h: "readAt (pre @ enc_entry e @ post) pos recHeaderLen = Some ?h"
    using assms(1) readAt_app [of pre pos ?h recHeaderLen "?b @ post"] by (simp add: enc seg_consts)
  have b: "readAt (pre @ enc_entry e @ post) (pos + recHeaderLen) ?n = Some ?b"
    using assms(1) readAt_app [of "pre @ ?h" "pos + recHeaderLen" ?b ?n post] lb
    by (simp add: enc seg_consts)
  have len: "length (enc_entry e) = recHeaderLen + ?n" by (simp add: e length_enc_entry)
  from assms(4) have sz: "\<not> sz < pos + recHeaderLen + ?n" "\<not> sz < pos + recHeaderLen" using len by simp_all
  have g: "(get_le (take 4 ?h) :: u32) = of_nat ?n" "get_le (drop 4 ?h) = crc32c ?b" by simp_all
  show ?thesis
    unfolding scanRecord_def h option.case Let_def g un b
    using sz fits len
    by (simp add: entry_record_def e record_body_def bodyFixedLen_def nth_append)
qed

lemma scan_records_stop:
  "scanRecord f pos sz mx off = None \<Longrightarrow> scan_records f sz mx pos off = ([], pos)"
  by (simp add: scan_records.simps [of f sz mx pos off])

lemma scan_records_step:
  "scanRecord f pos sz mx off = Some (r, nxt) \<Longrightarrow>
   scan_records f sz mx pos off =
     (r # fst (scan_records f sz mx nxt (Suc off)), snd (scan_records f sz mx nxt (Suc off)))"
  by (simp add: scan_records.simps [of f sz mx pos off] split_beta)

text \<open>A run of records is read back, and the scan goes on right after it.\<close>

lemma scan_records_enc:
  assumes "length pre = pos" and "list_all (entry_fits mx) es" and "mx < 2 ^ 32"
    and "pos + length (enc_entries es) \<le> sz"
  shows "scan_records (pre @ enc_entries es @ post) sz mx pos off =
     (let r = scan_records (pre @ enc_entries es @ post) sz mx
                (pos + length (enc_entries es)) (off + length es)
      in (number_entries off es @ fst r, snd r))"
  using assms
proof (induction es arbitrary: pre pos off)
  case Nil
  then show ?case by (simp add: Let_def)
next
  case (Cons e es)
  let ?f = "pre @ enc_entries (e # es) @ post"
  have f: "?f = pre @ enc_entry e @ (enc_entries es @ post)" by simp
  have f': "?f = (pre @ enc_entry e) @ enc_entries es @ post" by simp
  have "scanRecord ?f pos sz mx off = Some (entry_record off e, pos + length (enc_entry e))"
    unfolding f using Cons.prems by (intro scanRecord_enc) auto
  from scan_records_step [OF this] have "scan_records ?f sz mx pos off =
      (let r = scan_records ?f sz mx (pos + length (enc_entry e)) (Suc off)
       in (entry_record off e # fst r, snd r))"
    by (simp only: Let_def)
  also have "scan_records ?f sz mx (pos + length (enc_entry e)) (Suc off) =
      (let r = scan_records ?f sz mx (pos + length (enc_entry e) + length (enc_entries es)) (Suc off + length es)
       in (number_entries (Suc off) es @ fst r, snd r))"
    unfolding f' using Cons.prems by (intro Cons.IH) auto
  finally show ?case by (simp add: Let_def add.assoc)
qed

text \<open>A record that is cut short is torn: its length field says so, or is itself cut.\<close>

lemma scanRecord_torn:
  assumes "length pre = pos" and "entry_fits mx e" and "mx < 2 ^ 32" and "k < length (enc_entry e)"
  shows "scanRecord (pre @ take k (enc_entry e)) pos (pos + k) mx off = None"
proof (cases "k < recHeaderLen")
  case True
  then show ?thesis by (simp add: scanRecord_def)
next
  case False
  obtain ts ty p where e: "e = (ts, ty, p)" by (cases e)
  let ?n = "bodyFixedLen + length p"
  have "?n < 2 ^ 32" using assms(2,3) by (simp add: entry_fits_def e)
  then have un: "unat (of_nat ?n :: u32) = ?n" by (intro unat_of_nat_small) simp
  have len: "length (enc_entry e) = recHeaderLen + ?n" by (simp add: e length_enc_entry)
  have "take recHeaderLen (take k (enc_entry e)) = put_le 4 (of_nat ?n :: u32) @ put_le 4 (crc32c (record_body ts ty p))"
    using False by (simp add: e enc_entry_def appendRecord_def Let_def recHeaderLen_def)
  then have h: "readAt (pre @ take k (enc_entry e)) pos recHeaderLen =
      Some (put_le 4 (of_nat ?n :: u32) @ put_le 4 (crc32c (record_body ts ty p)))"
    using assms(1,4) False by (simp add: readAt_def)
  have g: "(get_le (take 4 (put_le 4 (of_nat ?n :: u32) @ put_le 4 (crc32c (record_body ts ty p)))) :: u32) = of_nat ?n"
    by simp
  show ?thesis
    unfolding scanRecord_def h option.case Let_def g un using assms(4) len by simp
qed

text \<open>
  A segment file whose tail was cut inside a record, or exactly between two: the scan
  returns the complete records and the byte position after them.
\<close>

lemma scanSegment_cut:
  assumes "list_all (entry_fits mx) es" and "entry_fits mx e" and "mx < 2 ^ 32" and "k < length (enc_entry e)"
  shows "scanSegment (segment_header b @ enc_entries es @ take k (enc_entry e)) mx =
     (length es, segHeaderLen + length (enc_entries es))"
proof -
  let ?f = "segment_header b @ enc_entries es @ take k (enc_entry e)"
  let ?p = "segHeaderLen + length (enc_entries es)"
  have sz: "length ?f = ?p + k" using assms(4) by simp
  have "scanRecord ?f ?p (length ?f) mx (0 + length es) = None"
    using scanRecord_torn [of "segment_header b @ enc_entries es" ?p mx e k] assms unfolding sz by simp
  note stop = scan_records_stop [OF this]
  have "scan_records ?f (length ?f) mx segHeaderLen 0 = (number_entries 0 es, ?p)"
    using scan_records_enc [of "segment_header b" segHeaderLen mx es "length ?f" "take k (enc_entry e)" 0] assms
    unfolding stop Let_def by simp
  then show ?thesis
    by (simp add: scanSegment_def scan_loop_records [of _ _ _ _ _ 0])
qed

lemma scanSegment_whole:
  assumes "list_all (entry_fits mx) es" and "mx < 2 ^ 32"
  shows "scanSegment (segment_header b @ enc_entries es) mx =
     (length es, segHeaderLen + length (enc_entries es))"
proof -
  let ?f = "segment_header b @ enc_entries es"
  let ?p = "segHeaderLen + length (enc_entries es)"
  have "scanRecord ?f ?p (length ?f) mx (0 + length es) = None" by (simp add: scanRecord_def seg_consts)
  note stop = scan_records_stop [OF this]
  have "scan_records ?f (length ?f) mx segHeaderLen 0 = (number_entries 0 es, ?p)"
    using scan_records_enc [of "segment_header b" segHeaderLen mx es "length ?f" "[]" 0] assms
    unfolding append_Nil2 stop Let_def by simp
  then show ?thesis
    by (simp add: scanSegment_def scan_loop_records [of _ _ _ _ _ 0])
qed

section \<open>Whatever a scan accepts was encoded\<close>

text \<open>
  The converse direction: the bytes a scan steps over are the encoding of the record it
  returns, so no byte of a valid prefix is lost or reinterpreted.
\<close>

lemma scanRecord_decode:
  assumes "scanRecord f pos sz mx off = Some (r, nxt)"
  shows "\<exists>e. r = entry_record off e \<and> entry_fits mx e \<and>
             take (nxt - pos) (drop pos f) = enc_entry e \<and> nxt = pos + length (enc_entry e)"
proof -
  from assms obtain hdr body where
    h: "readAt f pos recHeaderLen = Some hdr"
    and n: "bodyFixedLen \<le> unat (get_le (take 4 hdr) :: u32)" "unat (get_le (take 4 hdr) :: u32) \<le> mx"
    and b: "readAt f (pos + recHeaderLen) (unat (get_le (take 4 hdr) :: u32)) = Some body"
    and crc: "crc32c body = get_le (drop 4 hdr)"
    and nxt: "nxt = pos + recHeaderLen + unat (get_le (take 4 hdr) :: u32)"
    and r: "r = \<lparr>Offset = off, Time = get_le (take 8 body), Typ = body ! 8, Payload = drop 9 body\<rparr>"
    by (auto simp: scanRecord_def Let_def split: if_splits option.splits)
  let ?n = "unat (get_le (take 4 hdr) :: u32)"
  let ?e = "(get_le (take 8 body) :: u64, body ! 8, drop 9 body)"
  have lh: "length hdr = 8" using readAt_Some_length [OF h] by (simp add: recHeaderLen_def)
  have lb: "length body = ?n" "9 \<le> length body"
    using readAt_Some_length [OF b] n(1) by (simp_all add: bodyFixedLen_def)
  then have "drop 8 body = body ! 8 # drop 9 body"
    using Cons_nth_drop_Suc [of 8 body] by simp
  moreover have "put_le 8 (get_le (take 8 body) :: u64) = take 8 body"
    using lb(2) by (intro put_le_get_le) simp_all
  ultimately have body: "record_body (get_le (take 8 body)) (body ! 8) (drop 9 body) = body"
    by (metis append_take_drop_id append_Cons append_Nil record_body_def)
  have len: "bodyFixedLen + length (drop 9 body) = ?n" using lb by (simp add: bodyFixedLen_def)
  have "put_le 4 (of_nat ?n :: u32) = take 4 hdr"
    using put_le_get_le [of 4 "take 4 hdr", where 'a = 32] lh by simp
  moreover have "put_le 4 (get_le (drop 4 hdr) :: u32) = drop 4 hdr"
    using lh by (intro put_le_get_le) simp_all
  ultimately have enc: "enc_entry ?e = hdr @ body"
    unfolding enc_entry_def prod.case appendRecord_def Let_def len body crc
    by (metis append_assoc append_take_drop_id)
  have "take (nxt - pos) (drop pos f) = take recHeaderLen (drop pos f) @ take ?n (drop (pos + recHeaderLen) f)"
    using take_add [of recHeaderLen ?n "drop pos f"] by (simp add: nxt add.commute)
  also have "\<dots> = hdr @ body" using h b by (simp add: readAt_def split: if_splits)
  finally have "take (nxt - pos) (drop pos f) = enc_entry ?e" by (simp only: enc)
  moreover have "nxt = pos + length (enc_entry ?e)" unfolding enc using lh lb nxt by (simp add: recHeaderLen_def)
  moreover have "entry_fits mx ?e" using n(2) lb by (simp add: entry_fits_def bodyFixedLen_def)
  moreover have "r = entry_record off ?e" by (simp add: r entry_record_def)
  ultimately show ?thesis by blast
qed

lemma scan_records_decode:
  assumes "scan_records f sz mx pos off = (rs, v)"
  shows "\<exists>es. rs = number_entries off es \<and> list_all (entry_fits mx) es \<and>
             take (v - pos) (drop pos f) = enc_entries es \<and> v = pos + length (enc_entries es)"
  using assms
proof (induction f sz mx pos off arbitrary: rs rule: scan_records.induct)
  case (1 f sz mx pos off)
  show ?case
  proof (cases "scanRecord f pos sz mx off")
    case None
    with "1.prems" show ?thesis by (intro exI [of _ "[]"]) (simp add: scan_records_stop)
  next
    case (Some a)
    obtain r nxt where a: "a = (r, nxt)" by (cases a)
    obtain e where e: "r = entry_record off e" "entry_fits mx e"
      "take (nxt - pos) (drop pos f) = enc_entry e" "nxt = pos + length (enc_entry e)"
      using scanRecord_decode Some a by blast
    obtain rs' where rest: "scan_records f sz mx nxt (Suc off) = (rs', v)" and rs: "rs = r # rs'"
      using "1.prems" scan_records_step [OF Some [unfolded a]]
      by (cases "scan_records f sz mx nxt (Suc off)") auto
    from "1.IH" [OF Some a [symmetric] rest] obtain es where es: "rs' = number_entries (Suc off) es"
      "list_all (entry_fits mx) es" "take (v - nxt) (drop nxt f) = enc_entries es"
      "v = nxt + length (enc_entries es)" by blast
    have "take (v - pos) (drop pos f) = enc_entries (e # es)"
      using e(3,4) es(3,4) take_add [of "nxt - pos" "v - nxt" "drop pos f"] by (simp add: add.commute)
    with e es rs show ?thesis by (intro exI [of _ "e # es"]) simp
  qed
qed

text \<open>Cutting a file right after its valid prefix does not change what is read.\<close>

lemma scanRecord_take:
  assumes "scanRecord f pos sz mx off = Some (r, nxt)" and "nxt \<le> v" and "v \<le> length f"
  shows "scanRecord (take v f) pos v mx off = Some (r, nxt)"
proof -
  obtain e where e: "r = entry_record off e" "take (nxt - pos) (drop pos f) = enc_entry e"
    "nxt = pos + length (enc_entry e)" "entry_fits mx e" using scanRecord_decode [OF assms(1)] by blast
  have "readAt (take v f) p k = readAt f p k" if "p + k \<le> v" for p k
    by (rule readAt_cong_take [of v]) (use that assms(3) in simp_all)
  with assms show ?thesis
    by (auto simp: scanRecord_def Let_def seg_consts split: if_splits option.splits)
qed

lemma scan_records_take:
  assumes "scan_records f sz mx pos off = (rs, v)" and "v \<le> length f" and "pos \<le> v"
  shows "scan_records (take v f) v mx pos off = (rs, v)"
  using assms
proof (induction f sz mx pos off arbitrary: rs rule: scan_records.induct)
  case (1 f sz mx pos off)
  show ?case
  proof (cases "scanRecord f pos sz mx off")
    case None
    with "1.prems" have "v = pos" "rs = []" by (simp_all add: scan_records_stop)
    then show ?thesis by (simp add: scan_records_stop scanRecord_def recHeaderLen_def)
  next
    case (Some a)
    obtain r nxt where a: "a = (r, nxt)" by (cases a)
    obtain rs' where rest: "scan_records f sz mx nxt (Suc off) = (rs', v)" and rs: "rs = r # rs'"
      using "1.prems" scan_records_step [OF Some [unfolded a]]
      by (cases "scan_records f sz mx nxt (Suc off)") auto
    have nv: "nxt \<le> v" using scan_records_decode [OF rest] by auto
    with "1.IH" [OF Some a [symmetric] rest "1.prems"(2)] have
      "scan_records (take v f) v mx nxt (Suc off) = (rs', v)" by blast
    with scan_records_step [OF scanRecord_take [OF Some [unfolded a] nv "1.prems"(2)]] rs
    show ?thesis by simp
  qed
qed

section \<open>Properties\<close>

lemma enc_entries_cut:
  assumes "m \<le> length (enc_entries es)"
  obtains n k where "n \<le> length es" and "n < length es \<longrightarrow> k < length (enc_entry (es ! n))"
    and "take m (enc_entries es) = enc_entries (take n es) @ (if n < length es then take k (enc_entry (es ! n)) else [])"
    and "length (enc_entries (take n es)) \<le> m"
    and "n < length es \<longrightarrow> m < length (enc_entries (take (Suc n) es))"
proof -
  have "\<exists>n k. n \<le> length es \<and> (n < length es \<longrightarrow> k < length (enc_entry (es ! n))) \<and>
    take m (enc_entries es) = enc_entries (take n es) @ (if n < length es then take k (enc_entry (es ! n)) else []) \<and>
    length (enc_entries (take n es)) \<le> m \<and> (n < length es \<longrightarrow> m < length (enc_entries (take (Suc n) es)))"
    using assms
  proof (induction es arbitrary: m)
    case Nil
    then show ?case by simp
  next
    case (Cons e es)
    show ?case
    proof (cases "m < length (enc_entry e)")
      case True
      then show ?thesis by (intro exI [of _ 0] exI [of _ m]) simp
    next
      case False
      with Cons.prems have "m - length (enc_entry e) \<le> length (enc_entries es)" by simp
      from Cons.IH [OF this] obtain n k where nk: "n \<le> length es"
        "n < length es \<longrightarrow> k < length (enc_entry (es ! n))"
        "take (m - length (enc_entry e)) (enc_entries es) =
           enc_entries (take n es) @ (if n < length es then take k (enc_entry (es ! n)) else [])"
        "length (enc_entries (take n es)) \<le> m - length (enc_entry e)"
        "n < length es \<longrightarrow> m - length (enc_entry e) < length (enc_entries (take (Suc n) es))" by blast
      with False show ?thesis by (intro exI [of _ "Suc n"] exI [of _ k]) auto
    qed
  qed
  with that show thesis by blast
qed

text \<open>Crash-only recovery: a segment file cut at any byte at or after its header is scanned as
  exactly the records that are complete in the cut file, and the valid size ends right after
  the last of them (the next record would not fit in the cut).\<close>

theorem scanSegment_cut_anywhere:
  assumes "list_all (entry_fits mx) es" and "mx < 2 ^ 32" and "segHeaderLen \<le> m"
    and "m \<le> segHeaderLen + length (enc_entries es)"
  shows "\<exists>n \<le> length es.
     scanSegment (take m (segment_header b @ enc_entries es)) mx = (n, segHeaderLen + length (enc_entries (take n es))) \<and>
     segHeaderLen + length (enc_entries (take n es)) \<le> m \<and>
     (n < length es \<longrightarrow> m < segHeaderLen + length (enc_entries (take (Suc n) es)))"
proof -
  from assms(3,4) have "m - segHeaderLen \<le> length (enc_entries es)" by simp
  then obtain n k where nk: "n \<le> length es" "n < length es \<longrightarrow> k < length (enc_entry (es ! n))"
    "take (m - segHeaderLen) (enc_entries es) =
       enc_entries (take n es) @ (if n < length es then take k (enc_entry (es ! n)) else [])"
    "length (enc_entries (take n es)) \<le> m - segHeaderLen"
    "n < length es \<longrightarrow> m - segHeaderLen < length (enc_entries (take (Suc n) es))"
    by (rule enc_entries_cut)
  have fit: "list_all (entry_fits mx) (take n es)" and "n < length es \<Longrightarrow> entry_fits mx (es ! n)"
    using assms(1) by (auto simp: list_all_iff dest: in_set_takeD)
  then have "scanSegment (take m (segment_header b @ enc_entries es)) mx =
      (length (take n es), segHeaderLen + length (enc_entries (take n es)))"
    using scanSegment_cut [OF fit _ assms(2), of "es ! n" k b] scanSegment_whole [OF fit assms(2), of b] nk(2,3) assms(3)
    by (cases "n < length es") simp_all
  with nk assms(3) show ?thesis by (intro exI [of _ n]) auto
qed

theorem scanSegment_cut_anywhere_witness:
  "\<exists>n \<le> 1. scanSegment (take 25 (segment_header 0 @ enc_entries [(0, 1, [7])])) 100 =
     (n, segHeaderLen + length (enc_entries (take n [(0, 1, [7])]))) \<and> n = 0"
  using scanSegment_cut_anywhere [of 100 "[(0, 1, [7])]" 25 0]
  by (auto simp: entry_fits_def length_enc_entry seg_consts take_Cons' split: if_splits)

end
