(* ===== verification/Wal_Log.thy ===== *)
theory Wal_Log
  imports Wal_Segment
begin

text \<open>
  The segmented log of \<open>internal/wal/wal.go\<close>: options, the log directory and the open
  segment file, rolling, batched writes with the three sync policies, the writer loop, the
  recovery that runs on every open, the read-only attachment, and the offset queries.

  The directory is an association list from file names to contents. \<open>synced\<close> records, per
  file, how many bytes a successful \<open>fsync\<close> has made durable; no operation reads it, and
  only the crash model of \<open>Wal_Recovery\<close> uses it. System calls take their outcomes from an
  explicit list (\<open>io\<close>), so every error return of the code is a branch here.
\<close>

section \<open>Options\<close>

datatype SyncPolicy = SyncBatched | SyncAlways | SyncInterval

record wal_opts =
  SegmentBytes :: int
  MaxRecordBytes :: int
  MaxBatchBytes :: int
  MaxPending :: int
  Policy :: SyncPolicy
  BatchWindow :: int
  ReadOnly :: bool
  RefreshInterval :: int

definition wal_defaults :: "wal_opts \<Rightarrow> wal_opts" where
  "wal_defaults opt =
     (let o1 = (if SegmentBytes opt \<le> 0 then opt\<lparr>SegmentBytes := 128 * 2 ^ 20\<rparr> else opt);
          o2 = (if MaxRecordBytes o1 \<le> 0 then o1\<lparr>MaxRecordBytes := 16 * 2 ^ 20\<rparr> else o1);
          o3 = (if MaxBatchBytes o2 \<le> 0 then o2\<lparr>MaxBatchBytes := 4 * 2 ^ 20\<rparr> else o2);
          o4 = (if MaxPending o3 \<le> 0 then o3\<lparr>MaxPending := 4096\<rparr> else o3);
          o5 = (if BatchWindow o4 \<le> 0 then o4\<lparr>BatchWindow := 2 * 1000000\<rparr> else o4)
      in (if RefreshInterval o5 \<le> 0 then o5\<lparr>RefreshInterval := 25 * 1000000\<rparr> else o5))"

section \<open>State\<close>

record seg_meta =
  seg_base :: nat
  seg_records :: nat
  seg_bytes :: nat

definition seg_end :: "seg_meta \<Rightarrow> nat" where
  "seg_end s = seg_base s + seg_records s"

type_synonym wal_dir = "(string \<times> byte list) list"

text \<open>The open \<open>*os.File\<close>: its name, its cursor, and whether it has been closed.\<close>

record handle =
  h_name :: string
  h_pos :: nat
  h_open :: bool

record wal_log =
  lopts :: wal_opts
  dir :: wal_dir
  synced :: "string \<Rightarrow> nat"
  segs :: "seg_meta list"
  active :: handle
  next_off :: nat
  closed :: bool
  lastSync :: int

datatype wal_err =
    ErrReadOnly | ErrTooLarge | ErrClosed | ErrCtx
  | ErrIO | ErrExist | ErrNotExist | ErrSegmentNotReady
  | ErrHeader nat header_err
  | ErrBaseMismatch nat nat
  | ErrCorrupt nat nat nat
  | ErrUnexpectedSegment nat nat
  | ErrConsumerName
  | ErrNoRecord
  | ErrNotOnDisk nat
  | ErrCorruptScan nat nat
  | ErrOffsetFile

definition file_of :: "wal_dir \<Rightarrow> string \<Rightarrow> byte list" where
  "file_of d name = (case map_of d name of Some f \<Rightarrow> f | None \<Rightarrow> [])"

text \<open>Replace or create one file; remove one.\<close>

fun put_file :: "string \<Rightarrow> byte list \<Rightarrow> wal_dir \<Rightarrow> wal_dir" where
  "put_file n f [] = [(n, f)]"
| "put_file n f ((m, g) # d) = (if m = n then (n, f) # d else (m, g) # put_file n f d)"

definition del_file :: "string \<Rightarrow> wal_dir \<Rightarrow> wal_dir" where
  "del_file n d = filter (\<lambda>e. fst e \<noteq> n) d"

section \<open>File operations on the active segment\<close>

text \<open>A write that returns an error has written fewer bytes than it was given.\<close>

definition f_write :: "wal_log \<Rightarrow> io \<Rightarrow> byte list \<Rightarrow> wal_log \<times> io \<times> (wal_err + unit)" where
  "f_write l io data =
     (let h = active l; (r, io') = io_next io in
      if \<not> h_open h then (l, io, Inl ErrIO)
      else
        let k = (case r of Done \<Rightarrow> length data | Fail k \<Rightarrow> min k (length data - 1));
            f = file_of (dir l) (h_name h);
            f' = take (h_pos h) f @ take k data @ drop (h_pos h + k) f;
            l' = l\<lparr>dir := put_file (h_name h) f' (dir l), active := h\<lparr>h_pos := h_pos h + k\<rparr>\<rparr>
        in (l', io', (case r of Done \<Rightarrow> Inr () | Fail _ \<Rightarrow> Inl ErrIO)))"

definition f_sync :: "wal_log \<Rightarrow> io \<Rightarrow> wal_log \<times> io \<times> (wal_err + unit)" where
  "f_sync l io =
     (let h = active l; (r, io') = io_next io in
      if \<not> h_open h then (l, io, Inl ErrIO)
      else case r of
        Done \<Rightarrow> (l\<lparr>synced := (synced l)(h_name h := length (file_of (dir l) (h_name h)))\<rparr>, io', Inr ())
      | Fail _ \<Rightarrow> (l, io', Inl ErrIO))"

definition f_close :: "wal_log \<Rightarrow> io \<Rightarrow> wal_log \<times> io \<times> (wal_err + unit)" where
  "f_close l io =
     (let h = active l; (r, io') = io_next io in
      if \<not> h_open h then (l, io, Inl ErrIO)
      else (l\<lparr>active := h\<lparr>h_open := False\<rparr>\<rparr>, io',
            (case r of Done \<Rightarrow> Inr () | Fail _ \<Rightarrow> Inl ErrIO)))"

text \<open>
  \<open>createSegment\<close>: open exclusively, write the header. A failed header write leaves the
  partial file behind (the handle is closed and dropped).
\<close>

definition createSegment :: "wal_dir \<Rightarrow> (string \<Rightarrow> nat) \<Rightarrow> nat \<Rightarrow> io \<Rightarrow>
    wal_dir \<times> (string \<Rightarrow> nat) \<times> io \<times> (wal_err + handle)" where
  "createSegment d sy base io =
     (let name = segmentName base; (r, io1) = io_next io in
      case r of
        Fail _ \<Rightarrow> (d, sy, io1, Inl ErrIO)
      | Done \<Rightarrow>
          if map_of d name \<noteq> None then (d, sy, io1, Inl ErrExist)
          else
            let (r2, io2) = io_next io1; hdr = segment_header base in
            case r2 of
              Done \<Rightarrow> (put_file name hdr d, sy(name := 0), io2,
                       Inr \<lparr>h_name = name, h_pos = segHeaderLen, h_open = True\<rparr>)
            | Fail k \<Rightarrow> (put_file name (take (min k (length hdr - 1)) hdr) d, sy(name := 0), io2, Inl ErrIO))"

section \<open>Writing\<close>

definition roll :: "wal_log \<Rightarrow> io \<Rightarrow> wal_log \<times> io \<times> (wal_err + unit)" where
  "roll l io =
     (case f_sync l io of
        (l1, io1, Inl e) \<Rightarrow> (l1, io1, Inl e)
      | (l1, io1, Inr _) \<Rightarrow>
          (case f_close l1 io1 of
             (l2, io2, Inl e) \<Rightarrow> (l2, io2, Inl e)
           | (l2, io2, Inr _) \<Rightarrow>
               (case createSegment (dir l2) (synced l2) (next_off l2) io2 of
                  (d, sy, io3, Inl e) \<Rightarrow> (l2\<lparr>dir := d, synced := sy\<rparr>, io3, Inl e)
                | (d, sy, io3, Inr h) \<Rightarrow>
                    (l2\<lparr>dir := d, synced := sy, active := h,
                        segs := segs l2 @ [\<lparr>seg_base = next_off l2, seg_records = 0, seg_bytes = segHeaderLen\<rparr>]\<rparr>,
                     io3, Inr ()))))"

text \<open>The metadata update after one record reached the file.\<close>

definition count_record :: "wal_log \<Rightarrow> nat \<Rightarrow> wal_log" where
  "count_record l n =
     (let a = last (segs l) in
      l\<lparr>segs := butlast (segs l) @ [a\<lparr>seg_bytes := seg_bytes a + n, seg_records := seg_records a + 1\<rparr>],
        next_off := next_off l + 1\<rparr>)"

text \<open>
  The record loop of \<open>writeBatch\<close> and its body: roll when the record would overflow a
  segment that already has records, write, count, and sync at once under \<open>SyncAlways\<close>.
\<close>

definition write_record :: "wal_log \<Rightarrow> io \<Rightarrow> u64 \<Rightarrow> byte \<Rightarrow> byte list \<Rightarrow> wal_log \<times> io \<times> (wal_err + nat)" where
  "write_record l io now ty payload =
     (let rec = appendRecord now ty payload; a = last (segs l) in
      case (if SegmentBytes (lopts l) < int (seg_bytes a + length rec) \<and> 0 < seg_records a
            then roll l io else (l, io, Inr ())) of
        (l1, io1, Inl e) \<Rightarrow> (l1, io1, Inl e)
      | (l1, io1, Inr _) \<Rightarrow>
          (case f_write l1 io1 rec of
             (l2, io2, Inl e) \<Rightarrow> (l2, io2, Inl e)
           | (l2, io2, Inr _) \<Rightarrow>
               let l3 = count_record l2 (length rec) in
               (case (if Policy (lopts l) = SyncAlways then f_sync l3 io2 else (l3, io2, Inr ())) of
                  (l4, io4, Inl e) \<Rightarrow> (l4, io4, Inl e)
                | (l4, io4, Inr _) \<Rightarrow> (l4, io4, Inr (next_off l2)))))"

fun write_records :: "wal_log \<Rightarrow> io \<Rightarrow> u64 \<Rightarrow> (byte \<times> byte list) list \<Rightarrow> wal_log \<times> io \<times> (wal_err + nat list)" where
  "write_records l io now [] = (l, io, Inr [])"
| "write_records l io now ((ty, payload) # batch) =
     (case write_record l io now ty payload of
        (l1, io1, Inl e) \<Rightarrow> (l1, io1, Inl e)
      | (l1, io1, Inr off) \<Rightarrow>
          (case write_records l1 io1 now batch of
             (l2, io2, Inl e) \<Rightarrow> (l2, io2, Inl e)
           | (l2, io2, Inr offs) \<Rightarrow> (l2, io2, Inr (off # offs))))"

text \<open>
  \<open>writeBatch\<close>. \<open>now\<close> is the \<open>UnixNano\<close> stamped into the records; \<open>tsince\<close> and
  \<open>tsync\<close> are the clock readings of \<open>time.Since\<close> and of the new \<open>lastSync\<close>.
\<close>

definition writeBatch :: "wal_log \<Rightarrow> io \<Rightarrow> u64 \<Rightarrow> int \<Rightarrow> int \<Rightarrow> (byte \<times> byte list) list \<Rightarrow>
    wal_log \<times> io \<times> (wal_err + nat list)" where
  "writeBatch l io now tsince tsync batch =
     (case write_records l io now batch of
        (l1, io1, Inl e) \<Rightarrow> (l1, io1, Inl e)
      | (l1, io1, Inr offs) \<Rightarrow>
          (case Policy (lopts l) of
             SyncBatched \<Rightarrow>
               (case f_sync l1 io1 of
                  (l2, io2, Inl e) \<Rightarrow> (l2, io2, Inl e)
                | (l2, io2, Inr _) \<Rightarrow> (l2, io2, Inr offs))
           | SyncInterval \<Rightarrow>
               if BatchWindow (lopts l) \<le> tsince - lastSync l1 then
                 (case f_sync l1 io1 of
                    (l2, io2, Inl e) \<Rightarrow> (l2, io2, Inl e)
                  | (l2, io2, Inr _) \<Rightarrow> (l2\<lparr>lastSync := tsync\<rparr>, io2, Inr offs))
               else (l1, io1, Inr offs)
           | SyncAlways \<Rightarrow> (l1, io1, Inr offs)))"

text \<open>
  The guards of \<open>Append\<close> before the request is queued, and one turn of \<open>writeLoop\<close>:
  the first request opens a batch, further requests join it while the batch is below
  \<open>MaxBatchBytes\<close> and before the deadline (\<open>arrived\<close> are the requests that come in
  before it fires), then the batch is written and each request answered.
\<close>

definition append_check :: "wal_log \<Rightarrow> byte list \<Rightarrow> wal_err option" where
  "append_check l payload =
     (if ReadOnly (lopts l) then Some ErrReadOnly
      else if MaxRecordBytes (lopts l) < int (length payload + bodyFixedLen) then Some ErrTooLarge
      else if closed l then Some ErrClosed
      else None)"

fun collect :: "int \<Rightarrow> int \<Rightarrow> (byte \<times> byte list) list \<Rightarrow> (byte \<times> byte list) list" where
  "collect maxBatch batchBytes [] = []"
| "collect maxBatch batchBytes (r # arrived) =
     (if batchBytes < maxBatch
      then r # collect maxBatch (batchBytes + int (recHeaderLen + bodyFixedLen + length (snd r))) arrived
      else [])"

definition writeLoop_turn :: "wal_log \<Rightarrow> io \<Rightarrow> u64 \<Rightarrow> int \<Rightarrow> int \<Rightarrow> byte \<times> byte list \<Rightarrow> (byte \<times> byte list) list \<Rightarrow>
    wal_log \<times> io \<times> (wal_err + nat) list" where
  "writeLoop_turn l io now tsince tsync req arrived =
     (let batch = req #
            (if Policy (lopts l) = SyncBatched \<or> Policy (lopts l) = SyncInterval
             then collect (MaxBatchBytes (lopts l)) (int (recHeaderLen + bodyFixedLen + length (snd req))) arrived
             else [])
      in case writeBatch l io now tsince tsync batch of
           (l', io', Inl e) \<Rightarrow> (l', io', map (\<lambda>_. Inl e) batch)
         | (l', io', Inr offs) \<Rightarrow> (l', io', map Inr offs))"

section \<open>Offsets\<close>

definition LatestOffset :: "wal_log \<Rightarrow> nat" where
  "LatestOffset l = next_off l"

definition OldestOffset :: "wal_log \<Rightarrow> nat" where
  "OldestOffset l = (if segs l = [] then 0 else seg_base (hd (segs l)))"

definition segmentFor :: "wal_log \<Rightarrow> nat \<Rightarrow> seg_meta option" where
  "segmentFor l offset =
     (let i = sort_Search (length (segs l)) (\<lambda>i. offset < seg_end (segs l ! i)) in
      if i = length (segs l) \<or> offset < seg_base (segs l ! i) then None
      else Some (segs l ! i))"

section \<open>Opening\<close>

definition listSegments :: "wal_dir \<Rightarrow> nat list" where
  "listSegments d = sort (List.map_filter (\<lambda>e. parseSegmentName (fst e)) d)"

text \<open>
  The scan of \<open>load\<close> over the listed segments: a header that cannot be read is removed
  when it belongs to the last segment and is an error otherwise.
\<close>

fun load_segs :: "nat \<Rightarrow> wal_dir \<Rightarrow> io \<Rightarrow> nat list \<Rightarrow> seg_meta list \<Rightarrow> wal_dir \<times> io \<times> (wal_err + seg_meta list)" where
  "load_segs mx d io [] acc = (d, io, Inr acc)"
| "load_segs mx d io (b # bs) acc =
     (let (r, io1) = io_next io in
      case (r, map_of d (segmentName b)) of
        (Done, Some f) \<Rightarrow>
          (case readSegmentHeader f of
             Inl he \<Rightarrow>
               (if bs = [] then
                  (case io_next io1 of
                     (Done, io2) \<Rightarrow> (del_file (segmentName b) d, io2, Inr acc)
                   | (Fail _, io2) \<Rightarrow> (d, io2, Inl ErrIO))
                else (d, io1, Inl (ErrHeader b he)))
           | Inr hb \<Rightarrow>
               if hb \<noteq> b then (d, io1, Inl (ErrBaseMismatch b hb))
               else
                 let (n, v) = scanSegment f mx
                 in load_segs mx d io1 bs (acc @ [\<lparr>seg_base = b, seg_records = n, seg_bytes = v\<rparr>]))
      | (_, None) \<Rightarrow> (d, io1, Inl ErrNotExist)
      | (Fail _, _) \<Rightarrow> (d, io1, Inl ErrIO))"

text \<open>The offset chain: the first hand-off that does not match, if any.\<close>

fun chain_err :: "seg_meta list \<Rightarrow> wal_err option" where
  "chain_err (s # t # ss) =
     (if seg_end s \<noteq> seg_base t then Some (ErrCorrupt (seg_base s) (seg_end s) (seg_base t))
      else chain_err (t # ss))"
| "chain_err _ = None"

definition fresh_log :: "wal_opts \<Rightarrow> wal_dir \<Rightarrow> (string \<Rightarrow> nat) \<Rightarrow> io \<Rightarrow> wal_dir \<times> io \<times> (wal_err + wal_log)" where
  "fresh_log opts d sy io =
     (case createSegment d sy 0 io of
        (d', sy', io', Inl e) \<Rightarrow> (d', io', Inl e)
      | (d', sy', io', Inr h) \<Rightarrow>
          (d', io', Inr \<lparr>lopts = opts, dir = d', synced = sy',
             segs = [\<lparr>seg_base = 0, seg_records = 0, seg_bytes = segHeaderLen\<rparr>],
             active = h, next_off = 0, closed = False, lastSync = 0\<rparr>))"

text \<open>Reopen the last segment writable, truncate a torn tail, seek to the end.\<close>

definition open_last :: "wal_opts \<Rightarrow> wal_dir \<Rightarrow> (string \<Rightarrow> nat) \<Rightarrow> io \<Rightarrow> seg_meta list \<Rightarrow> wal_dir \<times> io \<times> (wal_err + wal_log)" where
  "open_last opts d sy io ss =
     (let lst = last ss; name = segmentName (seg_base lst); f = file_of d name; (r, io1) = io_next io in
      case r of
        Fail _ \<Rightarrow> (d, io1, Inl ErrIO)
      | Done \<Rightarrow>
          (let (r2, io2) = (if seg_bytes lst < length f then io_next io1 else (Done, io1)) in
           case r2 of
             Fail _ \<Rightarrow> (d, io2, Inl ErrIO)
           | Done \<Rightarrow>
               let d' = (if seg_bytes lst < length f then put_file name (take (seg_bytes lst) f) d else d);
                   sy' = sy(name := min (sy name) (length (file_of d' name)));
                   (r3, io3) = io_next io2
               in case r3 of
                    Fail _ \<Rightarrow> (d', io3, Inl ErrIO)
                  | Done \<Rightarrow> (d', io3, Inr \<lparr>lopts = opts, dir = d', synced = sy', segs = ss,
                      active = \<lparr>h_name = name, h_pos = seg_bytes lst, h_open = True\<rparr>,
                      next_off = seg_end lst, closed = False, lastSync = 0\<rparr>)))"

definition load :: "wal_opts \<Rightarrow> wal_dir \<Rightarrow> (string \<Rightarrow> nat) \<Rightarrow> io \<Rightarrow> wal_dir \<times> io \<times> (wal_err + wal_log)" where
  "load opts d sy io =
     (let (r, io0) = io_next io; bases = listSegments d in
      case r of
        Fail _ \<Rightarrow> (d, io0, Inl ErrIO)
      | Done \<Rightarrow>
          if bases = [] then fresh_log opts d sy io0
          else case load_segs (nat (MaxRecordBytes opts)) d io0 bases [] of
            (d1, io1, Inl e) \<Rightarrow> (d1, io1, Inl e)
          | (d1, io1, Inr ss) \<Rightarrow>
              if ss = [] then fresh_log opts d1 sy io1
              else case chain_err ss of
                Some e \<Rightarrow> (d1, io1, Inl e)
              | None \<Rightarrow> open_last opts d1 sy io1 ss)"

section \<open>Closing\<close>

text \<open>\<open>Close\<close>, after the writer goroutine has stopped: sync and close the active file.\<close>

definition wal_Close :: "wal_log \<Rightarrow> io \<Rightarrow> wal_log \<times> io \<times> (wal_err + unit)" where
  "wal_Close l io =
     (if closed l then (l, io, Inr ())
      else
        let l0 = l\<lparr>closed := True\<rparr> in
        if ReadOnly (lopts l) then (l0, io, Inr ())
        else case f_sync l0 io of
          (l1, io1, Inl e) \<Rightarrow> (fst (f_close l1 io1), fst (snd (f_close l1 io1)), Inl e)
        | (l1, io1, Inr _) \<Rightarrow> f_close l1 io1)"

section \<open>Read-only attachment\<close>

definition readSegmentProbe :: "wal_dir \<Rightarrow> nat \<Rightarrow> nat \<Rightarrow> io \<Rightarrow> io \<times> (wal_err + seg_meta)" where
  "readSegmentProbe d base mx io =
     (let (r, io1) = io_next io in
      case (r, map_of d (segmentName base)) of
        (_, None) \<Rightarrow> (io1, Inl ErrSegmentNotReady)
      | (Fail _, _) \<Rightarrow> (io1, Inl ErrIO)
      | (Done, Some f) \<Rightarrow>
          (case readSegmentHeader f of
             Inl _ \<Rightarrow> (io1, Inl ErrSegmentNotReady)
           | Inr hb \<Rightarrow>
               if hb \<noteq> base then (io1, Inl (ErrBaseMismatch base hb))
               else let (n, v) = scanSegment f mx
                    in (io1, Inr \<lparr>seg_base = base, seg_records = n, seg_bytes = v\<rparr>)))"

text \<open>The two loops of \<open>Refresh\<close>; the segments found before an error stay in the view.\<close>

fun refresh_first :: "wal_dir \<Rightarrow> nat \<Rightarrow> io \<Rightarrow> nat list \<Rightarrow> seg_meta list \<Rightarrow> seg_meta list \<times> io \<times> wal_err option" where
  "refresh_first d mx io [] acc = (acc, io, None)"
| "refresh_first d mx io (b # bs) acc =
     (case readSegmentProbe d b mx io of
        (io1, Inl e) \<Rightarrow> (acc, io1, if e = ErrSegmentNotReady then None else Some e)
      | (io1, Inr m) \<Rightarrow> refresh_first d mx io1 bs (acc @ [m]))"

fun refresh_more :: "wal_dir \<Rightarrow> nat \<Rightarrow> io \<Rightarrow> nat \<Rightarrow> nat list \<Rightarrow> seg_meta list \<Rightarrow> seg_meta list \<times> io \<times> wal_err option" where
  "refresh_more d mx io expect [] acc = (acc, io, None)"
| "refresh_more d mx io expect (b # bs) acc =
     (if b < expect then refresh_more d mx io expect bs acc
      else if b \<noteq> expect then (acc, io, Some (ErrUnexpectedSegment expect b))
      else case readSegmentProbe d b mx io of
        (io1, Inl e) \<Rightarrow> (acc, io1, if e = ErrSegmentNotReady then None else Some e)
      | (io1, Inr m) \<Rightarrow> refresh_more d mx io1 (seg_end m) bs (acc @ [m]))"

definition Refresh :: "wal_log \<Rightarrow> io \<Rightarrow> wal_log \<times> io \<times> wal_err option" where
  "Refresh l io =
     (let (r, io1) = io_next io; bases = listSegments (dir l); mx = nat (MaxRecordBytes (lopts l)) in
      case r of
        Fail _ \<Rightarrow> (l, io1, Some ErrIO)
      | Done \<Rightarrow>
          if bases = [] then (l, io1, None)
          else
            let (ss, io2, err) =
              (if segs l = [] then refresh_first (dir l) mx io1 bases []
               else
                 (case readSegmentProbe (dir l) (seg_base (last (segs l))) mx io1 of
                    (io', Inl e) \<Rightarrow>
                      if e = ErrSegmentNotReady
                      then refresh_more (dir l) mx io' (seg_end (last (segs l))) bases (segs l)
                      else (segs l, io', Some e)
                  | (io', Inr m) \<Rightarrow>
                      refresh_more (dir l) mx io' (seg_end m) bases (butlast (segs l) @ [m])))
            in case err of
                 Some e \<Rightarrow> (l\<lparr>segs := ss\<rparr>, io2, Some e)
               | None \<Rightarrow> (l\<lparr>segs := ss, next_off := (if ss = [] then next_off l else seg_end (last ss))\<rparr>, io2, None))"

text \<open>\<open>Open\<close>: the owner recovers, a read-only log attaches to whatever is there.\<close>

definition wal_Open :: "wal_opts \<Rightarrow> wal_dir \<Rightarrow> (string \<Rightarrow> nat) \<Rightarrow> io \<Rightarrow> wal_dir \<times> io \<times> (wal_err + wal_log)" where
  "wal_Open opt d sy io =
     (let opts = wal_defaults opt; (r, io1) = io_next io in
      case r of
        Fail _ \<Rightarrow> (d, io1, Inl ErrIO)
      | Done \<Rightarrow>
          if ReadOnly opts then
            let l0 = \<lparr>lopts = opts, dir = d, synced = sy, segs = [],
                      active = \<lparr>h_name = [], h_pos = 0, h_open = False\<rparr>,
                      next_off = 0, closed = False, lastSync = 0\<rparr>
            in (case Refresh l0 io1 of
                  (l1, io2, Some e) \<Rightarrow> (d, io2, Inl e)
                | (l1, io2, None) \<Rightarrow> (d, io2, Inr l1))
          else load opts d sy io1)"

end
