(* ===== verification/Wal_Inv.thy ===== *)
theory Wal_Inv
  imports Wal_Log
begin

text \<open>
  The invariant of an open log. \<open>log_inv l ess\<close>
  relates the state of the code (segment metadata, file contents, open handle, next
  offset) to the abstract log: \<open>ess\<close> lists, segment by segment, the entries that were
  appended.
\<close>

section \<open>Directory lemmas\<close>

lemma map_of_put_file [simp]: "map_of (put_file n f d) = (map_of d)(n \<mapsto> f)"
  by (induction d) auto

lemma map_of_del_file [simp]: "map_of (del_file n d) = (map_of d)(n := None)"
  by (induction d) (auto simp: del_file_def)

lemma fst_put_file: "fst ` set (put_file n f d) = insert n (fst ` set d)"
  by (induction n f d rule: put_file.induct) auto

lemma distinct_put_file: "distinct (map fst d) \<Longrightarrow> distinct (map fst (put_file n f d))"
proof (induction d)
  case Nil
  then show ?case by simp
next
  case (Cons e d)
  then show ?case using fst_put_file [of n f d] by (cases e) (auto simp: image_iff)
qed

lemma distinct_del_file: "distinct (map fst d) \<Longrightarrow> distinct (map fst (del_file n d))"
  by (induction d) (auto simp: del_file_def)

lemma set_map_filter: "set (List.map_filter g xs) = {y. \<exists>x \<in> set xs. g x = Some y}"
  by (induction xs) (auto simp: List.map_filter_simps split: option.splits)

definition seg_files :: "wal_dir \<Rightarrow> nat set" where
  "seg_files d = {b. \<exists>n. map_of d n \<noteq> None \<and> parseSegmentName n = Some b}"

lemma set_listSegments: "set (listSegments d) = seg_files d"
  by (force simp: listSegments_def set_map_filter seg_files_def map_of_eq_None_iff)

lemma seg_files_alt: "seg_files d = {b. b < 2 ^ 64 \<and> map_of d (segmentName b) \<noteq> None}"
  by (auto simp: seg_files_def dest: parseSegmentName_Some parseSegmentName_bound
      intro!: exI [of _ "segmentName _"])

lemma distinct_listSegments:
  assumes "distinct (map fst d)"
  shows "distinct (listSegments d)"
proof -
  have "distinct (List.map_filter (\<lambda>e. parseSegmentName (fst e)) d)"
    using assms
  proof (induction d)
    case Nil
    then show ?case by (simp add: List.map_filter_simps)
  next
    case (Cons e d)
    have "b \<notin> set (List.map_filter (\<lambda>e. parseSegmentName (fst e)) d)"
      if "parseSegmentName (fst e) = Some b" for b
    proof
      assume "b \<in> set (List.map_filter (\<lambda>e. parseSegmentName (fst e)) d)"
      then obtain x where "x \<in> set d" "parseSegmentName (fst x) = Some b" by (auto simp: set_map_filter)
      with that have "fst e \<in> fst ` set d" using parseSegmentName_Some by (metis image_eqI)
      with Cons.prems show False by simp
    qed
    with Cons show ?case by (auto simp: List.map_filter_simps split: option.splits)
  qed
  then show ?thesis by (simp add: listSegments_def)
qed

lemma listSegments_eq:
  assumes "distinct (map fst d)" and "sorted_wrt (<) bs" and "seg_files d = set bs"
  shows "listSegments d = bs"
proof (rule sorted_distinct_set_unique)
  show "sorted (listSegments d)" by (simp add: listSegments_def)
  show "distinct (listSegments d)" using assms(1) by (rule distinct_listSegments)
  show "sorted bs" using assms(2) by (rule strict_sorted_imp_sorted)
  show "distinct bs" using assms(2) by (simp add: strict_sorted_iff)
  show "set (listSegments d) = set bs" using assms(3) by (simp add: set_listSegments)
qed

section \<open>The invariant\<close>

abbreviation mxr :: "wal_log \<Rightarrow> nat" where
  "mxr l \<equiv> nat (MaxRecordBytes (lopts l))"

abbreviation seg_file :: "wal_dir \<Rightarrow> seg_meta \<Rightarrow> byte list" where
  "seg_file d s \<equiv> file_of d (segmentName (seg_base s))"

definition seg_holds :: "wal_dir \<Rightarrow> nat \<Rightarrow> seg_meta \<Rightarrow> entry list \<Rightarrow> bool" where
  "seg_holds d mx s es \<longleftrightarrow>
     map_of d (segmentName (seg_base s)) \<noteq> None \<and>
     prefix (segment_header (seg_base s) @ enc_entries es) (seg_file d s) \<and>
     list_all (entry_fits mx) es \<and>
     seg_records s = length es \<and> seg_bytes s = segHeaderLen + length (enc_entries es) \<and>
     scanSegment (seg_file d s) mx = (seg_records s, seg_bytes s)"

text \<open>Every segment hands over to the next, and only the last may be empty.\<close>

fun chained :: "seg_meta list \<Rightarrow> bool" where
  "chained (s # t # ss) \<longleftrightarrow> seg_end s = seg_base t \<and> 0 < seg_records s \<and> chained (t # ss)"
| "chained _ \<longleftrightarrow> True"

definition log_inv :: "wal_log \<Rightarrow> entry list list \<Rightarrow> bool" where
  "log_inv l ess \<longleftrightarrow>
     segs l \<noteq> [] \<and> chained (segs l) \<and> list_all2 (seg_holds (dir l) (mxr l)) (segs l) ess \<and>
     next_off l = seg_end (last (segs l)) \<and>
     active l = \<lparr>h_name = segmentName (seg_base (last (segs l))), h_pos = seg_bytes (last (segs l)), h_open = True\<rparr> \<and>
     length (seg_file (dir l) (last (segs l))) = seg_bytes (last (segs l)) \<and>
     distinct (map fst (dir l)) \<and> seg_files (dir l) = seg_base ` set (segs l) \<and>
     mxr l < 2 ^ 32 \<and> seg_base (last (segs l)) < 2 ^ 64"

text \<open>The abstract log: what a consumer may read, with logical offsets.\<close>

definition log_records :: "wal_log \<Rightarrow> entry list list \<Rightarrow> wal_record list" where
  "log_records l ess = number_entries (OldestOffset l) (concat ess)"

lemma chained_append:
  "chained (ss @ [t]) \<longleftrightarrow> (ss = [] \<or> chained ss \<and> seg_end (last ss) = seg_base t \<and> 0 < seg_records (last ss))"
  by (induction ss rule: chained.induct) auto

lemma chained_update_last:
  "ss \<noteq> [] \<Longrightarrow> seg_base t = seg_base (last ss) \<Longrightarrow> chained ss \<Longrightarrow> chained (butlast ss @ [t])"
  by (induction ss rule: chained.induct) auto

lemma chained_sorted: "chained ss \<Longrightarrow> sorted_wrt (<) (map seg_base ss)"
proof (induction ss rule: chained.induct)
  case (1 s t ss)
  then have "seg_base s < seg_base t" by (auto simp: seg_end_def)
  with 1 show ?case by auto
qed auto

lemma chained_le_last:
  assumes "chained ss" and "s \<in> set ss"
  shows "seg_base s \<le> seg_base (last ss)"
proof (cases ss rule: rev_cases)
  case Nil
  with assms show ?thesis by simp
next
  case (snoc xs t)
  with chained_sorted [OF assms(1)] assms(2) show ?thesis
    by (auto simp: sorted_wrt_append intro: less_imp_le)
qed

lemma chained_offsets:
  "chained ss \<Longrightarrow> list_all2 (\<lambda>s es. seg_records s = length es) ss ess \<Longrightarrow> ss \<noteq> [] \<Longrightarrow>
   seg_end (last ss) = seg_base (hd ss) + length (concat ess)"
proof (induction ss arbitrary: ess rule: chained.induct)
  case (1 s t ss)
  from "1.prems"(2) obtain es ess' where ess: "ess = es # ess'" "seg_records s = length es"
    "list_all2 (\<lambda>s es. seg_records s = length es) (t # ss) ess'" by (auto simp: list_all2_Cons1)
  with 1 show ?case by (auto simp: seg_end_def)
qed (auto simp: list_all2_Cons1 seg_end_def)

lemma log_inv_next:
  assumes "log_inv l ess"
  shows "next_off l = OldestOffset l + length (concat ess)"
proof -
  have "list_all2 (\<lambda>s es. seg_records s = length es) (segs l) ess"
    using assms by (auto simp: log_inv_def seg_holds_def elim: list_all2_mono)
  then show ?thesis
    using assms chained_offsets [of "segs l" ess] by (simp add: log_inv_def OldestOffset_def)
qed

end
