(* ===== verification/Wal_Write.thy ===== *)
theory Wal_Write
  imports Wal_Inv
begin

text \<open>
  The writer of \<open>internal/wal/wal.go\<close> against its invariant. \<open>durable l ess N\<close>
  says that the log is well formed, holds the entries \<open>ess\<close>, and that its first
  \<open>N\<close> entries survive a power cut; \<open>disk_safe\<close> says the same of the files alone,
  which is what remains meaningful after an I/O error. There is one lemma per step of the
  code (\<open>f_sync_step\<close>, \<open>f_write_step\<close>, \<open>roll_step\<close>,
  \<open>write_record_step\<close>), and \<open>writeBatch_outcome\<close> composes them for every
  outcome of every system call.
\<close>

section \<open>Durability\<close>

text \<open>
  Sealed segments \<open>sealed\<close> with their entries \<open>sess\<close>, all synced; then the
  segment with base \<open>b\<close>, whose file is a prefix of the image of \<open>es\<close>. The first
  \<open>N\<close> entries lie in the sealed segments and in the synced part of the last one. A
  sole segment either starts at offset zero or has its header synced.
\<close>

definition disk_ok :: "wal_dir \<Rightarrow> (string \<Rightarrow> nat) \<Rightarrow> nat \<Rightarrow> seg_meta list \<Rightarrow> entry list list \<Rightarrow> nat \<Rightarrow> entry list \<Rightarrow> nat \<Rightarrow> bool" where
  "disk_ok d sy mx sealed sess b es N \<longleftrightarrow>
     distinct (map fst d) \<and> mx < 2 ^ 32 \<and> b < 2 ^ 64 \<and>
     chained (sealed @ [\<lparr>seg_base = b, seg_records = 0, seg_bytes = 0\<rparr>]) \<and>
     seg_files d = insert b (seg_base ` set sealed) \<and>
     list_all2 (seg_holds d mx) sealed sess \<and>
     (\<forall>s \<in> set sealed. length (seg_file d s) \<le> sy (segmentName (seg_base s))) \<and>
     list_all (entry_fits mx) es \<and>
     prefix (file_of d (segmentName b)) (segment_header b @ enc_entries es) \<and>
     sy (segmentName b) \<le> length (file_of d (segmentName b)) \<and>
     N - length (concat sess) \<le> length es \<and>
     (length (concat sess) < N \<longrightarrow>
        segHeaderLen + length (enc_entries (take (N - length (concat sess)) es)) \<le> sy (segmentName b)) \<and>
     (sealed = [] \<longrightarrow> b = 0 \<or> segHeaderLen \<le> sy (segmentName b))"

definition durable :: "wal_log \<Rightarrow> entry list list \<Rightarrow> nat \<Rightarrow> bool" where
  "durable l ess N \<longleftrightarrow> log_inv l ess \<and>
     disk_ok (dir l) (synced l) (mxr l) (butlast (segs l)) (butlast ess) (seg_base (last (segs l))) (last ess) N"

text \<open>
  The same for the disk alone: it starts at offset \<open>b0\<close>, holds at most the entries
  \<open>es\<close>, and the first \<open>N\<close> of them are durable.
\<close>

definition disk_safe :: "wal_dir \<Rightarrow> (string \<Rightarrow> nat) \<Rightarrow> nat \<Rightarrow> nat \<Rightarrow> entry list \<Rightarrow> nat \<Rightarrow> bool" where
  "disk_safe d sy mx b0 es N \<longleftrightarrow>
     (\<exists>sealed sess b es'. disk_ok d sy mx sealed sess b es' N \<and> concat sess @ es' = es \<and>
        hd (map seg_base sealed @ [b]) = b0)"

lemma seg_holds_cong:
  "map_of d (segmentName (seg_base s)) = map_of d' (segmentName (seg_base s)) \<Longrightarrow>
   seg_holds d mx s es = seg_holds d' mx s es"
  by (simp add: seg_holds_def file_of_def)

lemma seg_holds_others:
  assumes "list_all2 (seg_holds d mx) ss ess" and "\<forall>s \<in> set ss. segmentName (seg_base s) \<noteq> n"
  shows "list_all2 (seg_holds (put_file n f d) mx) ss ess"
proof -
  have "list_all2 (\<lambda>s es. seg_holds (put_file n f d) mx s es) ss ess \<longleftrightarrow> list_all2 (\<lambda>s es. seg_holds d mx s es) ss ess"
    using assms(2) by (intro list.rel_cong refl seg_holds_cong) auto
  with assms(1) show ?thesis by simp
qed

lemma file_of_put_file [simp]: "file_of (put_file n f d) m = (if m = n then f else file_of d m)"
  by (simp add: file_of_def)

lemma seg_files_put_file [simp]:
  "b < 2 ^ 64 \<Longrightarrow> seg_files (put_file (segmentName b) f d) = insert b (seg_files d)"
  by (auto simp: seg_files_alt)

lemma list_all2_snoc: "list_all2 P (xs @ [x]) (ys @ [y]) \<longleftrightarrow> list_all2 P xs ys \<and> P x y"
  using list_all2_rev [of P "xs @ [x]" "ys @ [y]"] list_all2_rev [of P xs ys] by auto

text \<open>The invariant with the open segment split off: it holds exactly its header and entries.\<close>

lemma log_inv_snoc:
  assumes "segs l = ss @ [a]" and "ess = ess0 @ [es]"
  shows "log_inv l ess \<longleftrightarrow> chained (ss @ [a]) \<and> list_all2 (seg_holds (dir l) (mxr l)) ss ess0 \<and>
     map_of (dir l) (segmentName (seg_base a)) = Some (segment_header (seg_base a) @ enc_entries es) \<and>
     list_all (entry_fits (mxr l)) es \<and> seg_records a = length es \<and>
     seg_bytes a = segHeaderLen + length (enc_entries es) \<and> next_off l = seg_base a + length es \<and>
     active l = \<lparr>h_name = segmentName (seg_base a), h_pos = segHeaderLen + length (enc_entries es), h_open = True\<rparr> \<and>
     distinct (map fst (dir l)) \<and> seg_files (dir l) = insert (seg_base a) (seg_base ` set ss) \<and>
     mxr l < 2 ^ 32 \<and> seg_base a < 2 ^ 64"
proof -
  let ?f = "segment_header (seg_base a) @ enc_entries es"
  have *: "seg_holds (dir l) (mxr l) a es \<and> length (seg_file (dir l) a) = seg_bytes a \<longleftrightarrow>
    map_of (dir l) (segmentName (seg_base a)) = Some ?f \<and> list_all (entry_fits (mxr l)) es \<and>
    seg_records a = length es \<and> seg_bytes a = segHeaderLen + length (enc_entries es)" (is "?L \<longleftrightarrow> ?R")
    if "mxr l < 2 ^ 32"
  proof
    assume L: ?L
    then have "prefix ?f (seg_file (dir l) a)" "length ?f = length (seg_file (dir l) a)"
      by (simp_all add: seg_holds_def)
    then have "seg_file (dir l) a = ?f" by (auto simp: prefix_def)
    moreover from L obtain g where "map_of (dir l) (segmentName (seg_base a)) = Some g"
      by (auto simp: seg_holds_def)
    ultimately have "map_of (dir l) (segmentName (seg_base a)) = Some ?f" by (simp add: file_of_def)
    with L show ?R by (simp add: seg_holds_def)
  next
    assume ?R
    with that scanSegment_whole [of "mxr l" es "seg_base a"] show ?L
      by (simp add: seg_holds_def file_of_def)
  qed
  have "log_inv l ess \<longleftrightarrow> chained (ss @ [a]) \<and> list_all2 (seg_holds (dir l) (mxr l)) ss ess0 \<and>
     (seg_holds (dir l) (mxr l) a es \<and> length (seg_file (dir l) a) = seg_bytes a) \<and>
     next_off l = seg_end a \<and>
     active l = \<lparr>h_name = segmentName (seg_base a), h_pos = seg_bytes a, h_open = True\<rparr> \<and>
     distinct (map fst (dir l)) \<and> seg_files (dir l) = insert (seg_base a) (seg_base ` set ss) \<and>
     mxr l < 2 ^ 32 \<and> seg_base a < 2 ^ 64"
    unfolding log_inv_def assms list_all2_snoc by simp blast
  note inv = this
  show ?thesis
  proof (cases "mxr l < 2 ^ 32")
    case True
    show ?thesis unfolding inv * [OF True] seg_end_def by (intro iffI; elim conjE; intro conjI; simp only:)
  qed (simp add: inv)
qed

lemma log_inv_split:
  assumes "log_inv l ess"
  obtains ss a ess0 es where "segs l = ss @ [a]" and "ess = ess0 @ [es]"
proof -
  from assms have "segs l \<noteq> []" "ess \<noteq> []" by (auto simp: log_inv_def)
  with that show thesis by (metis append_butlast_last_id)
qed

lemma chained_names:
  assumes "chained (ss @ [a])" and "seg_base a < 2 ^ 64"
  shows "\<forall>s \<in> set ss. seg_base s < seg_base a \<and> segmentName (seg_base s) \<noteq> segmentName (seg_base a)"
proof
  fix s assume "s \<in> set ss"
  with chained_sorted [OF assms(1)] have "seg_base s < seg_base a" by (auto simp: sorted_wrt_append)
  with assms(2) show "seg_base s < seg_base a \<and> segmentName (seg_base s) \<noteq> segmentName (seg_base a)"
    by (metis nat_less_le order_less_trans segmentName_eq_iff)
qed

text \<open>The durable state of an open log, with the open segment split off.\<close>

lemma durable_snoc:
  assumes "segs l = ss @ [a]" and "ess = ess0 @ [es]"
  shows "durable l ess N \<longleftrightarrow> log_inv l ess \<and>
     (\<forall>s \<in> set ss. length (seg_file (dir l) s) \<le> synced l (segmentName (seg_base s))) \<and>
     synced l (segmentName (seg_base a)) \<le> segHeaderLen + length (enc_entries es) \<and>
     N - length (concat ess0) \<le> length es \<and>
     (length (concat ess0) < N \<longrightarrow>
        segHeaderLen + length (enc_entries (take (N - length (concat ess0)) es)) \<le> synced l (segmentName (seg_base a))) \<and>
     (ss = [] \<longrightarrow> seg_base a = 0 \<or> segHeaderLen \<le> synced l (segmentName (seg_base a)))"
proof (cases "log_inv l ess")
  case True
  note i = True [unfolded log_inv_snoc [OF assms]]
  have ch: "chained (ss @ [\<lparr>seg_base = seg_base a, seg_records = 0, seg_bytes = 0\<rparr>])"
    using i chained_update_last [of "ss @ [a]" "\<lparr>seg_base = seg_base a, seg_records = 0, seg_bytes = 0\<rparr>"] by simp
  have f: "file_of (dir l) (segmentName (seg_base a)) = segment_header (seg_base a) @ enc_entries es"
    using i by (simp add: file_of_def)
  have "distinct (map fst (dir l))" "list_all (entry_fits (mxr l)) es" "mxr l < 2 ^ 32" "seg_base a < 2 ^ 64"
    "seg_files (dir l) = insert (seg_base a) (seg_base ` set ss)" "list_all2 (seg_holds (dir l) (mxr l)) ss ess0"
    using i by blast+
  with True ch f show ?thesis
    by (simp add: durable_def disk_ok_def assms)
qed (simp add: durable_def)

lemma butlast_last_parts:
  assumes "log_inv l ess"
  shows "hd (map seg_base (butlast (segs l)) @ [seg_base (last (segs l))]) = OldestOffset l"
    and "concat (butlast ess) @ last ess = concat ess"
  using assms by (cases "segs l" rule: rev_cases; cases ess rule: rev_cases;
      auto simp: OldestOffset_def log_inv_def hd_append hd_map)+

lemma durable_safe:
  assumes "durable l ess N"
  shows "disk_safe (dir l) (synced l) (mxr l) (OldestOffset l) (concat ess) N"
  using assms butlast_last_parts [of l ess] unfolding durable_def disk_safe_def by metis

text \<open>A successful sync makes everything durable; a failed one changes nothing.\<close>

lemma f_sync_step:
  assumes "durable l ess N" and "f_sync l io = (l', io', r)"
  shows "case r of Inr _ \<Rightarrow> durable l' ess (length (concat ess)) | Inl _ \<Rightarrow> l' = l"
    and "lopts l' = lopts l" and "segs l' = segs l" and "next_off l' = next_off l"
    and "log_inv l' ess" and "dir l' = dir l"
proof -
  from assms(1) have inv: "log_inv l ess" by (simp add: durable_def)
  then obtain ss a ess0 es where se: "segs l = ss @ [a]" "ess = ess0 @ [es]" by (rule log_inv_split)
  note inv' = inv [unfolded log_inv_snoc [OF se]]
  from inv' have nm: "\<forall>s \<in> set ss. segmentName (seg_base s) \<noteq> segmentName (seg_base a)"
    using chained_names [of ss a] by blast
  have act: "active l = \<lparr>h_name = segmentName (seg_base a), h_pos = segHeaderLen + length (enc_entries es), h_open = True\<rparr>"
    using inv' by blast
  have f: "file_of (dir l) (segmentName (seg_base a)) = segment_header (seg_base a) @ enc_entries es"
    using inv' by (simp add: file_of_def)
  have r: "(r = Inr () \<and> l' = l\<lparr>synced := (synced l)(segmentName (seg_base a) := segHeaderLen + length (enc_entries es))\<rparr>) \<or>
     (\<exists>e. r = Inl e \<and> l' = l)"
    using assms(2) act by (auto simp: f_sync_def Let_def split_beta f split: io_res.splits)
  then show keep: "lopts l' = lopts l" "segs l' = segs l" "next_off l' = next_off l" "dir l' = dir l" by auto
  from r inv show "log_inv l' ess" by (auto simp: log_inv_def)
  moreover have "segs l' = ss @ [a]" using keep se by simp
  ultimately show "case r of Inr _ \<Rightarrow> durable l' ess (length (concat ess)) | Inl _ \<Rightarrow> l' = l"
  using r
  proof (elim disjE exE conjE)
    assume l: "log_inv l' ess" "segs l' = ss @ [a]" "r = Inr ()"
      "l' = l\<lparr>synced := (synced l)(segmentName (seg_base a) := segHeaderLen + length (enc_entries es))\<rparr>"
    have "\<forall>s \<in> set ss. length (seg_file (dir l) s) \<le> synced l (segmentName (seg_base s))"
      using assms(1) unfolding durable_snoc [OF se] by blast
    with l nm have "durable l' ess (length (concat ess))"
      unfolding durable_snoc [OF l(2) se(2)] by (simp add: se(2))
    with l(3) show ?thesis by simp
  qed simp
qed

text \<open>One record appended at the cursor.\<close>

lemma f_write_cases:
  assumes "f_write l io data = (l', io', r)" and "active l = \<lparr>h_name = n, h_pos = length f, h_open = True\<rparr>"
    and "file_of (dir l) n = f"
  obtains k where "k \<le> length data" and "r = Inr () \<Longrightarrow> k = length data"
    and "l' = l\<lparr>dir := put_file n (f @ take k data) (dir l), active := (active l)\<lparr>h_pos := length f + k\<rparr>\<rparr>"
proof (rule that [of "case fst (io_next io) of Done \<Rightarrow> length data | Fail k \<Rightarrow> min k (length data - 1)"])
qed (use assms in \<open>auto simp: f_write_def Let_def split_beta split: io_res.splits\<close>)

lemma f_write_step:
  assumes "durable l ess N" and "entry_fits (mxr l) e"
    and "f_write l io (enc_entry e) = (l', io', r)"
  shows "case r of
      Inr _ \<Rightarrow> durable (count_record l' (length (enc_entry e))) (butlast ess @ [last ess @ [e]]) N
    | Inl _ \<Rightarrow> disk_safe (dir l') (synced l') (mxr l) (OldestOffset l) (concat ess @ [e]) N"
    and "lopts l' = lopts l" and "segs l' = segs l" and "next_off l' = next_off l"
proof -
  from assms(1) have inv: "log_inv l ess" by (simp add: durable_def)
  then obtain ss a ess0 es where se: "segs l = ss @ [a]" "ess = ess0 @ [es]" by (rule log_inv_split)
  note inv' = inv [unfolded log_inv_snoc [OF se]]
  note dur' = assms(1) [unfolded durable_snoc [OF se]]
  let ?n = "segmentName (seg_base a)" and ?f = "segment_header (seg_base a) @ enc_entries es"
  from inv' have nm: "\<forall>s \<in> set ss. segmentName (seg_base s) \<noteq> ?n" using chained_names [of ss a] by blast
  have f: "file_of (dir l) ?n = ?f" using inv' by (simp add: file_of_def)
  have act: "active l = \<lparr>h_name = ?n, h_pos = length ?f, h_open = True\<rparr>" using inv' by simp
  obtain k where k: "k \<le> length (enc_entry e)" "r = Inr () \<Longrightarrow> k = length (enc_entry e)"
    "l' = l\<lparr>dir := put_file ?n (?f @ take k (enc_entry e)) (dir l),
             active := (active l)\<lparr>h_pos := segHeaderLen + length (enc_entries es) + k\<rparr>\<rparr>"
    using f_write_cases [OF assms(3), of "segmentName (seg_base a)" ?f] act f by auto
  then show keep: "lopts l' = lopts l" "segs l' = segs l" "next_off l' = next_off l" by auto
  have oth: "list_all2 (seg_holds (dir l') (mxr l)) ss ess0"
    using inv' k(3) nm by (auto intro: seg_holds_others)
  have sf: "\<forall>s \<in> set ss. seg_file (dir l') s = seg_file (dir l) s" using k(3) nm by auto
  have fs: "seg_files (dir l') = seg_files (dir l)" using inv' k(3) by auto
  have ch: "chained (ss @ [\<lparr>seg_base = seg_base a, seg_records = m, seg_bytes = v\<rparr>])" for m v
    using chained_update_last [of "ss @ [a]" "\<lparr>seg_base = seg_base a, seg_records = m, seg_bytes = v\<rparr>"] inv' by simp
  have tk: "take (N - length (concat ess0)) (es @ [e]) = take (N - length (concat ess0)) es"
  proof -
    have "N - length (concat ess0) \<le> length es" using dur' by blast
    then show ?thesis by simp
  qed
  show "case r of
      Inr _ \<Rightarrow> durable (count_record l' (length (enc_entry e))) (butlast ess @ [last ess @ [e]]) N
    | Inl _ \<Rightarrow> disk_safe (dir l') (synced l') (mxr l) (OldestOffset l) (concat ess @ [e]) N"
  proof (cases r)
    case (Inl x)
    have "disk_ok (dir l') (synced l') (mxr l) ss ess0 (seg_base a) (es @ [e]) N"
      unfolding disk_ok_def fs tk
      using inv' dur' oth sf ch k(1,3) nm assms(2) by (auto simp: distinct_put_file take_is_prefix)
    moreover have "hd (map seg_base ss @ [seg_base a]) = OldestOffset l" "concat ess0 @ es @ [e] = concat ess @ [e]"
      using butlast_last_parts [OF inv] by (simp_all add: se)
    ultimately have "disk_safe (dir l') (synced l') (mxr l) (OldestOffset l) (concat ess @ [e]) N"
      unfolding disk_safe_def by blast
    with Inl show ?thesis by simp
  next
    case (Inr u)
    let ?l = "count_record l' (length (enc_entry e))"
    let ?a = "a\<lparr>seg_bytes := seg_bytes a + length (enc_entry e), seg_records := seg_records a + 1\<rparr>"
    have sl: "segs ?l = ss @ [?a]" using keep se by (simp add: count_record_def Let_def)
    have ch': "chained (ss @ [?a])" using chained_update_last [of "ss @ [a]" ?a] inv' by simp
    have l: "dir ?l = dir l'" "synced ?l = synced l" "mxr ?l = mxr l" "next_off ?l = next_off l + 1" "active ?l = active l'"
      using k(3) by (simp_all add: count_record_def Let_def)
    have "log_inv ?l (ess0 @ [es @ [e]])"
      unfolding log_inv_snoc [OF sl refl] l fs
      using inv' k(2,3) Inr oth ch' assms(2) by (simp add: distinct_put_file)
    with sl dur' sf l have "durable ?l (ess0 @ [es @ [e]]) N"
      unfolding durable_snoc [OF sl refl] tk by auto
    with Inr se show ?thesis by simp
  qed
qed

text \<open>A new segment file, complete or with a cut header, beside a log that is durable throughout.\<close>

lemma new_segment_disk:
  assumes "durable l ess (length (concat ess))" and "0 < seg_records (last (segs l))"
    and "next_off l < 2 ^ 64" and "map_of (dir l) (segmentName (next_off l)) = None"
    and "prefix f (segment_header (next_off l))" and "N \<le> length (concat ess)"
  shows "disk_ok (put_file (segmentName (next_off l)) f (dir l)) ((synced l)(segmentName (next_off l) := 0)) (mxr l)
     (segs l) ess (next_off l) [] N"
proof -
  from assms(1) have inv: "log_inv l ess" by (simp add: durable_def)
  then obtain ss a ess0 es where se: "segs l = ss @ [a]" "ess = ess0 @ [es]" by (rule log_inv_split)
  note inv' = inv [unfolded log_inv_snoc [OF se]]
  note dur' = assms(1) [unfolded durable_snoc [OF se]]
  let ?n = "segmentName (next_off l)"
  have "es \<noteq> []" using assms(2) inv' se by auto
  then have sya: "segHeaderLen + length (enc_entries es) \<le> synced l (segmentName (seg_base a))"
    using dur' by (simp add: se)
  have all2: "list_all2 (seg_holds (dir l) (mxr l)) (segs l) ess" using inv by (simp add: log_inv_def)
  have nm: "\<forall>s \<in> set (segs l). segmentName (seg_base s) \<noteq> ?n"
  proof
    fix s assume "s \<in> set (segs l)"
    with all2 have "map_of (dir l) (segmentName (seg_base s)) \<noteq> None"
      by (auto simp: list_all2_conv_all_nth in_set_conv_nth seg_holds_def)
    with assms(4) show "segmentName (seg_base s) \<noteq> ?n" by auto
  qed
  have ch: "chained (segs l @ [\<lparr>seg_base = next_off l, seg_records = 0, seg_bytes = 0\<rparr>])"
    using inv assms(2) by (simp add: log_inv_def chained_append)
  have "\<forall>s \<in> set (segs l). length (seg_file (dir l) s) \<le> synced l (segmentName (seg_base s))"
    using dur' sya inv' by (auto simp: se file_of_def)
  with nm have sy: "\<forall>s \<in> set (segs l). length (seg_file (put_file ?n f (dir l)) s) \<le>
     ((synced l)(?n := 0)) (segmentName (seg_base s))" by simp
  have fs: "seg_files (put_file ?n f (dir l)) = insert (next_off l) (seg_base ` set (segs l))"
    using inv assms(3) by (simp add: log_inv_def)
  have "distinct (map fst (put_file ?n f (dir l)))" "mxr l < 2 ^ 32"
    using inv by (simp_all add: log_inv_def distinct_put_file)
  with assms(3,5,6) ch sy fs seg_holds_others [OF all2 nm] se show ?thesis
    by (simp add: disk_ok_def)
qed

lemma new_segment_log:
  assumes "disk_ok (put_file (segmentName (next_off l)) (segment_header (next_off l)) (dir l))
      ((synced l)(segmentName (next_off l) := 0)) (mxr l) (segs l) ess (next_off l) [] N"
    and "l' = l\<lparr>dir := put_file (segmentName (next_off l)) (segment_header (next_off l)) (dir l),
               synced := (synced l)(segmentName (next_off l) := 0),
               active := \<lparr>h_name = segmentName (next_off l), h_pos = segHeaderLen, h_open = True\<rparr>,
               segs := segs l @ [\<lparr>seg_base = next_off l, seg_records = 0, seg_bytes = segHeaderLen\<rparr>]\<rparr>"
  shows "durable l' (ess @ [[]]) N"
proof -
  let ?a = "\<lparr>seg_base = next_off l, seg_records = 0, seg_bytes = segHeaderLen\<rparr>"
  have sl: "segs l' = segs l @ [?a]" by (simp add: assms(2))
  have "chained (segs l @ [?a])" using assms(1) by (simp add: disk_ok_def chained_append)
  with assms(1) have "log_inv l' (ess @ [[]])"
    unfolding log_inv_snoc [OF sl refl] by (simp add: assms(2) disk_ok_def)
  with assms(1) show ?thesis by (simp add: durable_def sl) (simp add: assms(2))
qed

lemma createSegment_cases:
  assumes "createSegment d sy base io = (d', sy', io', r)"
  obtains (same) e where "r = Inl e" and "d' = d" and "sy' = sy"
  | (cut) e f where "r = Inl e" and "map_of d (segmentName base) = None" and "prefix f (segment_header base)"
      and "d' = put_file (segmentName base) f d" and "sy' = sy(segmentName base := 0)"
  | (made) "r = Inr \<lparr>h_name = segmentName base, h_pos = segHeaderLen, h_open = True\<rparr>"
      and "map_of d (segmentName base) = None"
      and "d' = put_file (segmentName base) (segment_header base) d" and "sy' = sy(segmentName base := 0)"
proof -
  let ?n = "segmentName base" and ?h = "segment_header base"
  show thesis
  proof (cases "fst (io_next io)")
    case Done
    note d1 = this
    show thesis
    proof (cases "map_of d ?n")
      case None
      with d1 assms show thesis
        using cut [of ErrIO "take (min k (length ?h - 1)) ?h" for k] made
        by (cases "fst (io_next (snd (io_next io)))") (auto simp: createSegment_def Let_def split_beta take_is_prefix)
    next
      case (Some f)
      with d1 assms show thesis by (intro same [of ErrExist]) (simp_all add: createSegment_def Let_def split_beta)
    qed
  next
    case (Fail k)
    with assms show thesis by (intro same [of ErrIO]) (simp_all add: createSegment_def Let_def split_beta)
  qed
qed

lemma disk_ok_mono: "disk_ok d sy mx sealed sess b es M \<Longrightarrow> N \<le> M \<Longrightarrow> disk_ok d sy mx sealed sess b es N"
proof -
  assume a: "disk_ok d sy mx sealed sess b es M" "N \<le> M"
  let ?k = "N - length (concat sess)" and ?m = "M - length (concat sess)"
  have "take ?m es = take ?k es @ take (?m - ?k) (drop ?k es)" using a(2) by (metis diff_le_mono le_add_diff_inverse take_add)
  then have "length (enc_entries (take ?k es)) \<le> length (enc_entries (take ?m es))" by simp
  moreover have "M - length (concat sess) \<le> length es" using a(1) unfolding disk_ok_def by blast
  then have "?k \<le> length es" using a(2) by linarith
  moreover have "length (concat sess) < N \<Longrightarrow> length (concat sess) < M"
    using a(2) by linarith
  ultimately show ?thesis using a(1) unfolding disk_ok_def by fastforce
qed

lemma durable_mono: "durable l ess M \<Longrightarrow> N \<le> M \<Longrightarrow> durable l ess N"
  by (auto simp: durable_def intro: disk_ok_mono)

text \<open>
  Rolling: on success an empty segment is open; on any failure the disk still holds every
  entry, whether the sync, the close or the creation of the next file failed.
\<close>

lemma roll_step:
  assumes "durable l ess N" and "0 < seg_records (last (segs l))" and "next_off l < 2 ^ 64"
    and "N \<le> length (concat ess)" and "roll l io = (l', io', r)"
  shows "case r of Inr _ \<Rightarrow> durable l' (ess @ [[]]) N
    | Inl _ \<Rightarrow> disk_safe (dir l') (synced l') (mxr l) (OldestOffset l) (concat ess) N"
    and "lopts l' = lopts l" and "next_off l' = next_off l"
    and "r = Inr () \<Longrightarrow> segs l' = segs l @ [\<lparr>seg_base = next_off l, seg_records = 0, seg_bytes = segHeaderLen\<rparr>]"
proof -
  obtain l1 io1 r1 where s: "f_sync l io = (l1, io1, r1)" by (metis prod_cases3)
  obtain l2 io2 r2 where c: "f_close l1 io1 = (l2, io2, r2)" by (metis prod_cases3)
  note st = f_sync_step [OF assms(1) s]
  have "l2 = l1 \<or> l2 = l1\<lparr>active := (active l1)\<lparr>h_open := False\<rparr>\<rparr>"
    using c by (auto simp: f_close_def Let_def split_beta split: if_splits)
  with st have k2: "dir l2 = dir l" "synced l2 = synced l1" "segs l2 = segs l" "next_off l2 = next_off l" "lopts l2 = lopts l"
    by auto
  obtain d sy io3 r3 where m: "createSegment (dir l) (synced l1) (next_off l) io2 = (d, sy, io3, r3)" by (metis prod_cases4)
  show "lopts l' = lopts l" "next_off l' = next_off l"
    "r = Inr () \<Longrightarrow> segs l' = segs l @ [\<lparr>seg_base = next_off l, seg_records = 0, seg_bytes = segHeaderLen\<rparr>]"
    using assms(5) st(2-4,6) k2 by (auto simp: roll_def s c m split: sum.splits)
  let ?safe = "\<lambda>d sy. disk_safe d sy (mxr l) (OldestOffset l) (concat ess) N"
  have safe1: "?safe (dir l) (synced l1)" if "durable l1 ess N"
  proof -
    have "OldestOffset l1 = OldestOffset l" using st(3) by (simp only: OldestOffset_def)
    with durable_safe [OF that] st(2,6) show ?thesis by simp
  qed
  show "case r of Inr _ \<Rightarrow> durable l' (ess @ [[]]) N | Inl _ \<Rightarrow> ?safe (dir l') (synced l')"
  proof (cases r1)
    case (Inl e)
    with assms(5) have "r = Inl e" "l' = l1" by (simp_all add: roll_def s)
    moreover from Inl st(1) have "l1 = l" by simp
    ultimately show ?thesis using safe1 assms(1) by simp
  next
    case (Inr u)
    with st(1) have d1: "durable l1 ess (length (concat ess))" by simp
    have dN: "durable l1 ess N" using d1 assms(4) by (rule durable_mono)
    show ?thesis
    proof (cases r2)
      case (Inl e)
      with assms(5) Inr k2 safe1 [OF dN] show ?thesis by (auto simp: roll_def s c)
    next
      case (Inr v)
      note l' = assms(5) [unfolded roll_def s c \<open>r1 = Inr u\<close> Inr prod.case sum.case k2 m]
      note nd = new_segment_disk [OF d1, unfolded st(2-4,6), OF assms(2,3) _ _ assms(4)]
      from m show ?thesis
      proof (cases rule: createSegment_cases)
        case (same e)
        with l' safe1 [OF dN] show ?thesis by auto
      next
        case (cut e f)
        have "?safe d sy" using nd [OF cut(2,3)] assms(1) unfolding disk_safe_def cut(4,5)
          by (intro exI [of _ "segs l"] exI [of _ ess] exI [of _ "next_off l"] exI [of _ "[]"])
             (simp add: OldestOffset_def durable_def log_inv_def hd_append hd_map)
        with l' cut(1) show ?thesis by auto
      next
        case made
        have "durable l' (ess @ [[]]) N"
          by (rule new_segment_log [of l2])
             (use nd [OF made(2) prefix_order.refl] l' made k2 in auto)
        with l' made(1) show ?thesis by auto
      qed
    qed
  qed
qed


section \<open>The writer\<close>

definition stamp :: "u64 \<Rightarrow> (byte \<times> byte list) list \<Rightarrow> entry list" where
  "stamp now batch = map (\<lambda>(ty, p). (now, ty, p)) batch"

lemma stamp_simps [simp]: "stamp now [] = []" "stamp now ((ty, p) # batch) = (now, ty, p) # stamp now batch"
  "length (stamp now batch) = length batch"
  by (simp_all add: stamp_def)

lemma roll_if_step:
  assumes "durable l ess N" and "c \<Longrightarrow> 0 < seg_records (last (segs l))" and "next_off l < 2 ^ 64"
    and "N \<le> length (concat ess)" and "(if c then roll l io else (l, io, Inr ())) = (l', io', r)"
  shows "case r of Inr _ \<Rightarrow> \<exists>ess'. durable l' ess' N \<and> concat ess' = concat ess
    | Inl _ \<Rightarrow> disk_safe (dir l') (synced l') (mxr l) (OldestOffset l) (concat ess) N"
    and "lopts l' = lopts l" and "next_off l' = next_off l" and "r = Inr () \<Longrightarrow> OldestOffset l' = OldestOffset l"
proof -
  have ne: "segs l \<noteq> []" using assms(1) by (simp add: durable_def log_inv_def)
  have "(case r of Inr _ \<Rightarrow> \<exists>ess'. durable l' ess' N \<and> concat ess' = concat ess
    | Inl _ \<Rightarrow> disk_safe (dir l') (synced l') (mxr l) (OldestOffset l) (concat ess) N) \<and>
    lopts l' = lopts l \<and> next_off l' = next_off l \<and> (r = Inr () \<longrightarrow> OldestOffset l' = OldestOffset l)"
  proof (cases c)
    case True
    with assms(5) have "roll l io = (l', io', r)" by simp
    note st = roll_step [OF assms(1) assms(2) [OF True] assms(3,4) this]
    have "\<exists>ess'. durable l' ess' N \<and> concat ess' = concat ess" if "durable l' (ess @ [[]]) N"
      using that by (intro exI [of _ "ess @ [[]]"]) simp
    with st ne show ?thesis by (cases r) (auto simp: OldestOffset_def)
  next
    case False
    with assms(1,5) show ?thesis by auto
  qed
  then show "case r of Inr _ \<Rightarrow> \<exists>ess'. durable l' ess' N \<and> concat ess' = concat ess
    | Inl _ \<Rightarrow> disk_safe (dir l') (synced l') (mxr l) (OldestOffset l) (concat ess) N"
    "lopts l' = lopts l" "next_off l' = next_off l" "r = Inr () \<Longrightarrow> OldestOffset l' = OldestOffset l" by blast+
qed

lemma sync_if_step:
  assumes "durable l ess N" and "(if c then f_sync l io else (l, io, Inr ())) = (l', io', r)"
    and "N \<le> length (concat ess)"
  shows "durable l' ess N" and "r = Inr () \<Longrightarrow> c \<Longrightarrow> durable l' ess (length (concat ess))"
    and "lopts l' = lopts l" and "next_off l' = next_off l" and "OldestOffset l' = OldestOffset l"
proof -
  have "durable l' ess N \<and> (r = Inr () \<longrightarrow> c \<longrightarrow> durable l' ess (length (concat ess))) \<and> lopts l' = lopts l \<and>
    next_off l' = next_off l \<and> OldestOffset l' = OldestOffset l"
  proof (cases c)
    case True
    with assms(2) have s: "f_sync l io = (l', io', r)" by simp
    note st = f_sync_step [OF assms(1) s]
    have "OldestOffset l' = OldestOffset l" using st(3) by (simp only: OldestOffset_def)
    with st assms(1,3) show ?thesis by (cases r) (auto intro: durable_mono)
  next
    case False
    with assms(1,2) show ?thesis by auto
  qed
  then show "durable l' ess N" "r = Inr () \<Longrightarrow> c \<Longrightarrow> durable l' ess (length (concat ess))"
    "lopts l' = lopts l" "next_off l' = next_off l" "OldestOffset l' = OldestOffset l" by blast+
qed

text \<open>
  What a run of the record loop leaves: on success the batch at consecutive offsets, on
  failure a disk that still has every durable entry and nothing but entries of the batch
  after the old ones.
\<close>

definition batch_outcome :: "wal_log \<Rightarrow> entry list list \<Rightarrow> nat \<Rightarrow> entry list \<Rightarrow> wal_log \<Rightarrow> wal_err + nat list \<Rightarrow> bool" where
  "batch_outcome l ess N es l' r \<longleftrightarrow> lopts l' = lopts l \<and>
     (case r of
        Inr offs \<Rightarrow> (\<exists>ess'. durable l' ess' N \<and> concat ess' = concat ess @ es \<and>
            (Policy (lopts l) = SyncAlways \<longrightarrow> es \<noteq> [] \<longrightarrow> durable l' ess' (length (concat ess')))) \<and>
          offs = [next_off l..<next_off l + length es] \<and> OldestOffset l' = OldestOffset l
      | Inl _ \<Rightarrow> \<exists>k \<le> length es. disk_safe (dir l') (synced l') (mxr l) (OldestOffset l) (concat ess @ take k es) N)"

lemma count_record_keeps:
  "lopts (count_record l n) = lopts l" "next_off (count_record l n) = Suc (next_off l)"
  "segs l \<noteq> [] \<Longrightarrow> OldestOffset (count_record l n) = OldestOffset l"
  by (cases "segs l" rule: rev_cases; simp add: count_record_def Let_def OldestOffset_def hd_append)+

lemma write_record_step:
  assumes "durable l ess N" and "N \<le> length (concat ess)"
    and "entry_fits (mxr l) (now, ty, p)" and "next_off l < 2 ^ 64"
    and "write_record l io now ty p = (l', io', r)"
  shows "batch_outcome l ess N [(now, ty, p)] l' (map_sum id (\<lambda>off. [off]) r)"
    and "r = Inr off \<Longrightarrow> next_off l' = Suc (next_off l)"
proof -
  let ?e = "(now, ty, p) :: entry" and ?rec = "appendRecord now ty p"
  let ?c = "SegmentBytes (lopts l) < int (seg_bytes (last (segs l)) + length ?rec) \<and> 0 < seg_records (last (segs l))"
  have enc: "enc_entry ?e = ?rec" by (simp add: enc_entry_def)
  obtain l1 io1 r1 where s1: "(if ?c then roll l io else (l, io, Inr ())) = (l1, io1, r1)" by (metis prod_cases3)
  note st1 = roll_if_step [OF assms(1) _ assms(4,2) s1]
  note run = assms(5) [unfolded write_record_def Let_def s1 prod.case]
  have "batch_outcome l ess N [?e] l' (map_sum id (\<lambda>off. [off]) r) \<and> (r = Inr off \<longrightarrow> next_off l' = Suc (next_off l))"
  proof (cases r1)
    case (Inl e)
    with run st1 show ?thesis by (auto simp: batch_outcome_def intro!: exI [of _ 0])
  next
    case (Inr u)
    with st1 obtain ess1 where e1: "durable l1 ess1 N" "concat ess1 = concat ess" by auto
    have k1: "lopts l1 = lopts l" "next_off l1 = next_off l" "OldestOffset l1 = OldestOffset l"
      using st1 Inr by auto
    obtain l2 io2 r2 where s2: "f_write l1 io1 ?rec = (l2, io2, r2)" by (metis prod_cases3)
    have "entry_fits (mxr l1) ?e" using assms(3) k1 by simp
    note st2 = f_write_step [OF e1(1) this s2 [folded enc], unfolded enc k1]
    show ?thesis
    proof (cases r2)
      case (Inl e)
      with run \<open>r1 = Inr u\<close> s2 st2 k1 e1 show ?thesis
        by (auto simp: batch_outcome_def intro!: exI [of _ 1])
    next
      case (Inr v)
      let ?l3 = "count_record l2 (length ?rec)" and ?ess3 = "butlast ess1 @ [last ess1 @ [?e]]"
      have d3: "durable ?l3 ?ess3 N" using st2(1) Inr by simp
      have c3: "concat ?ess3 = concat ess @ [?e]"
        using butlast_last_parts(2) [of l1 ess1] e1 by (simp add: durable_def)
      have "segs l2 \<noteq> []" "OldestOffset l2 = OldestOffset l1"
        using e1(1) st2(3) by (simp_all add: durable_def log_inv_def OldestOffset_def)
      with st2 k1 have k3: "lopts ?l3 = lopts l" "next_off ?l3 = Suc (next_off l)" "OldestOffset ?l3 = OldestOffset l"
        by (simp_all add: count_record_keeps)
      obtain l4 io4 r4 where s4: "(if Policy (lopts l) = SyncAlways then f_sync ?l3 io2 else (?l3, io2, Inr ())) = (l4, io4, r4)"
        by (metis prod_cases3)
      have le: "N \<le> length (concat ?ess3)" using assms(2) unfolding c3 by simp
      note st4 = sync_if_step [OF d3 s4 le, unfolded k3]
      have "disk_safe (dir l4) (synced l4) (mxr l) (OldestOffset l) (concat ess @ [?e]) N"
        using durable_safe [OF st4(1)] st4(3,5) unfolding c3 by simp
      with st4 c3 run \<open>r1 = Inr u\<close> Inr s2 s4 st2(4) show ?thesis
        by (cases r4) (auto simp: batch_outcome_def simp del: concat_append intro!: exI [of _ 1] exI [of _ ?ess3])
    qed
  qed
  then show "batch_outcome l ess N [?e] l' (map_sum id (\<lambda>off. [off]) r)"
    "r = Inr off \<Longrightarrow> next_off l' = Suc (next_off l)" by blast+
qed

lemma batch_outcome_Cons:
  assumes "batch_outcome l ess N [e] l1 (Inr [off])" and "next_off l1 = Suc (next_off l)"
    and "\<And>ess1. durable l1 ess1 N \<Longrightarrow> concat ess1 = concat ess @ [e] \<Longrightarrow> batch_outcome l1 ess1 N es l' r"
    and "es = [] \<Longrightarrow> l' = l1"
  shows "batch_outcome l ess N (e # es) l' (map_sum id (\<lambda>offs. off # offs) r)"
proof -
  from assms(1) obtain ess1 where e1: "durable l1 ess1 N" "concat ess1 = concat ess @ [e]"
    "Policy (lopts l) = SyncAlways \<longrightarrow> durable l1 ess1 (length (concat ess1))"
    and k: "lopts l1 = lopts l" "OldestOffset l1 = OldestOffset l" "off = next_off l"
    by (auto simp: batch_outcome_def)
  note b = assms(3) [OF e1(1,2), unfolded batch_outcome_def]
  show ?thesis
  proof (cases r)
    case (Inl x)
    with b obtain m where "m \<le> length es"
      "disk_safe (dir l') (synced l') (mxr l1) (OldestOffset l1) (concat ess1 @ take m es) N" "lopts l' = lopts l1" by auto
    with Inl k e1 show ?thesis
      by (auto simp: batch_outcome_def intro!: exI [of _ "Suc m"])
  next
    case (Inr offs)
    with b obtain ess' where e': "durable l' ess' N" "concat ess' = concat ess1 @ es"
      "Policy (lopts l1) = SyncAlways \<longrightarrow> es \<noteq> [] \<longrightarrow> durable l' ess' (length (concat ess'))"
      and offs: "offs = [next_off l1..<next_off l1 + length es]" and k': "OldestOffset l' = OldestOffset l1" "lopts l' = lopts l1"
      by auto
    have "\<exists>ess'. durable l' ess' N \<and> concat ess' = concat ess @ e # es \<and>
      (Policy (lopts l) = SyncAlways \<longrightarrow> durable l' ess' (length (concat ess')))"
    proof (cases "es = []")
      case True
      with assms(4) e1 show ?thesis by (intro exI [of _ ess1]) simp
    next
      case False
      with e' e1 k show ?thesis by (intro exI [of _ ess']) simp
    qed
    moreover have "off # offs = [next_off l..<next_off l + length (e # es)]"
      by (simp add: offs k(3) assms(2) upt_rec [of "next_off l"] del: upt_Suc)
    ultimately show ?thesis using Inr k k' by (simp add: batch_outcome_def)
  qed
qed

lemma write_records_outcome:
  assumes "durable l ess N" and "N \<le> length (concat ess)"
    and "list_all (entry_fits (mxr l)) (stamp now batch)" and "next_off l + length batch \<le> 2 ^ 64"
    and "write_records l io now batch = (l', io', r)"
  shows "batch_outcome l ess N (stamp now batch) l' r"
  using assms
proof (induction batch arbitrary: l io ess l' io' r)
  case Nil
  then show ?case by (auto simp: batch_outcome_def)
next
  case (Cons b batch)
  obtain ty p where b: "b = (ty, p)" by (cases b)
  obtain l1 io1 r1 where s1: "write_record l io now ty p = (l1, io1, r1)" by (metis prod_cases3)
  obtain l2 io2 r2 where s2: "write_records l1 io1 now batch = (l2, io2, r2)" by (metis prod_cases3)
  have fit: "entry_fits (mxr l) (now, ty, p)" "next_off l < 2 ^ 64"
    and fits: "list_all (entry_fits (mxr l)) (stamp now batch)" using Cons.prems(3,4) by (simp_all add: b)
  note st = write_record_step [OF Cons.prems(1,2) fit s1]
  show ?case
  proof (cases r1)
    case (Inl e)
    with Cons.prems(5) have "l' = l1" "r = Inl e" by (simp_all add: b s1)
    moreover from st(1) Inl obtain k where "k \<le> 1" "lopts l1 = lopts l"
      "disk_safe (dir l1) (synced l1) (mxr l) (OldestOffset l) (concat ess @ take k [(now, ty, p)]) N"
      by (auto simp: batch_outcome_def)
    ultimately show ?thesis
      by (cases k) (auto simp: batch_outcome_def b intro: exI [of _ 0] exI [of _ 1])
  next
    case (Inr off)
    have nx: "next_off l1 = Suc (next_off l)" using st(2) Inr by blast
    have k: "lopts l1 = lopts l" using st(1) by (simp add: batch_outcome_def)
    have "batch_outcome l ess N ((now, ty, p) # stamp now batch) l2 (map_sum id (\<lambda>offs. off # offs) r2)"
    proof (rule batch_outcome_Cons)
      fix ess1 assume "durable l1 ess1 N" "concat ess1 = concat ess @ [(now, ty, p)]"
      then show "batch_outcome l1 ess1 N (stamp now batch) l2 r2"
        using Cons.IH [OF _ _ _ _ s2] Cons.prems(2,4) fits k nx by simp
    next
      assume "stamp now batch = []"
      then show "l2 = l1" using s2 by (simp add: stamp_def)
    qed (use st(1) Inr nx in auto)
    moreover have "l' = l2" "r = map_sum id (\<lambda>offs. off # offs) r2"
      using Cons.prems(5) unfolding b write_records.simps s1 s2 Inr prod.case sum.case
      by (cases r2; auto)+
    ultimately show ?thesis by (simp add: b)
  qed
qed

text \<open>
  The whole batch: the policies \<open>SyncBatched\<close> and \<open>SyncAlways\<close> acknowledge only
  durable records, and a failure never takes away what was durable.
\<close>

definition acked :: "wal_log \<Rightarrow> entry list list \<Rightarrow> nat \<Rightarrow> entry list \<Rightarrow> nat" where
  "acked l ess N es = (if Policy (lopts l) = SyncInterval \<or> es = [] then N else length (concat ess) + length es)"

lemma writeBatch_outcome:
  assumes "durable l ess N" and "N \<le> length (concat ess)"
    and "list_all (entry_fits (mxr l)) (stamp now batch)" and "next_off l + length batch \<le> 2 ^ 64"
    and "writeBatch l io now tsince tsync batch = (l', io', r)"
  shows "lopts l' = lopts l"
    and "case r of
        Inr offs \<Rightarrow> \<exists>ess'. durable l' ess' (acked l ess N (stamp now batch)) \<and> concat ess' = concat ess @ stamp now batch \<and>
          offs = [next_off l..<next_off l + length batch] \<and> OldestOffset l' = OldestOffset l
      | Inl _ \<Rightarrow> \<exists>k \<le> length batch. disk_safe (dir l') (synced l') (mxr l) (OldestOffset l)
          (concat ess @ take k (stamp now batch)) N"
proof -
  obtain l1 io1 r1 where s1: "write_records l io now batch = (l1, io1, r1)" by (metis prod_cases3)
  note b = write_records_outcome [OF assms(1-4) s1, unfolded batch_outcome_def]
  obtain l2 io2 r2 where s2: "f_sync l1 io1 = (l2, io2, r2)" by (metis prod_cases3)
  let ?es = "stamp now batch"
  have "lopts l' = lopts l \<and> (case r of
        Inr offs \<Rightarrow> \<exists>ess'. durable l' ess' (acked l ess N ?es) \<and> concat ess' = concat ess @ ?es \<and>
          offs = [next_off l..<next_off l + length batch] \<and> OldestOffset l' = OldestOffset l
      | Inl _ \<Rightarrow> \<exists>k \<le> length batch. disk_safe (dir l') (synced l') (mxr l) (OldestOffset l) (concat ess @ take k ?es) N)"
  proof (cases r1)
    case (Inl e)
    with assms(5) have "l' = l1" "r = Inl e" by (simp_all add: writeBatch_def s1)
    with Inl b show ?thesis by simp
  next
    case (Inr offs)
    with b obtain ess1 where e1: "durable l1 ess1 N" "concat ess1 = concat ess @ ?es"
      "Policy (lopts l) = SyncAlways \<longrightarrow> ?es \<noteq> [] \<longrightarrow> durable l1 ess1 (length (concat ess1))"
      and offs: "offs = [next_off l..<next_off l + length batch]" and k: "OldestOffset l1 = OldestOffset l" "lopts l1 = lopts l"
      by auto
    note st = f_sync_step [OF e1(1) s2]
    have kk: "OldestOffset l2 = OldestOffset l" using st(3) k(1) by (simp only: OldestOffset_def)
    have full: "durable l2 ess1 M" if "r2 = Inr u" "M \<le> length (concat ess1)" for u M
      using st(1) that by (auto intro: durable_mono)
    have ak: "acked l ess N ?es \<le> length (concat ess1)" "Policy (lopts l) = SyncInterval \<Longrightarrow> acked l ess N ?es = N"
      "Policy (lopts l) = SyncAlways \<Longrightarrow> durable l1 ess1 (acked l ess N ?es)"
      using assms(2) e1 by (auto simp: acked_def)
    have fail: "\<exists>k \<le> length batch. disk_safe (dir l1) (synced l1) (mxr l) (OldestOffset l) (concat ess @ take k ?es) N"
      using durable_safe [OF e1(1)] k e1(2) by (intro exI [of _ "length batch"]) (simp add: stamp_def)
    have run: "(l' = l1 \<and> r = Inr offs \<and> Policy (lopts l) \<noteq> SyncBatched) \<or> (\<exists>e. l' = l2 \<and> r = Inl e \<and> r2 = Inl e) \<or>
      ((l' = l2 \<or> l' = l2\<lparr>lastSync := tsync\<rparr>) \<and> r = Inr offs \<and> r2 = Inr ())"
      using assms(5) unfolding writeBatch_def s1 s2 Inr prod.case sum.case
      by (auto split: SyncPolicy.splits if_splits sum.splits)
    then consider (skip) "l' = l1" "r = Inr offs" "Policy (lopts l) \<noteq> SyncBatched"
      | (bad) e where "l' = l2" "r = Inl e" "r2 = Inl e"
      | (good) "l' = l2 \<or> l' = l2\<lparr>lastSync := tsync\<rparr>" "r = Inr offs" "r2 = Inr ()"
      by blast
    then show ?thesis
    proof cases
      case skip
      with e1 offs k ak show ?thesis by (cases "Policy (lopts l)") auto
    next
      case bad
      with st(1,2) k fail show ?thesis by simp
    next
      case good
      with full [OF good(3) ak(1)] have "durable l' ess1 (acked l ess N ?es)"
        by (auto simp: durable_def log_inv_def)
      moreover have "OldestOffset l' = OldestOffset l" "lopts l' = lopts l"
        using good(1) kk st(2) k by (auto simp: OldestOffset_def)
      ultimately show ?thesis using good(2) e1 offs by auto
    qed
  qed
  then show "lopts l' = lopts l" "case r of
        Inr offs \<Rightarrow> \<exists>ess'. durable l' ess' (acked l ess N ?es) \<and> concat ess' = concat ess @ ?es \<and>
          offs = [next_off l..<next_off l + length batch] \<and> OldestOffset l' = OldestOffset l
      | Inl _ \<Rightarrow> \<exists>k \<le> length batch. disk_safe (dir l') (synced l') (mxr l) (OldestOffset l) (concat ess @ take k ?es) N"
    by blast+
qed

end
