(* ===== verification/Wal_Recovery.thy ===== *)
theory Wal_Recovery
  imports Wal_Write
begin

text \<open>
  Recovery: \<open>load\<close> of \<open>internal/wal/wal.go\<close> on whatever a power cut left behind.
  \<open>load_cases\<close> says what any directory that opens turns into; \<open>crash\<close> is the disk
  after a power cut; \<open>disk_safe_recovers\<close> says that opening then succeeds and keeps
  every durable entry at its offset. \<open>wal_run\<close> puts batches, power cuts and reopenings
  into one transition system, whose invariant is that no acknowledged record is lost.
\<close>

section \<open>What a segment file holds\<close>

definition seg_entries :: "nat \<Rightarrow> byte list \<Rightarrow> entry list" where
  "seg_entries mx f = map (\<lambda>r. (Time r, Typ r, Payload r)) (fst (scan_records f (length f) mx segHeaderLen 0))"

definition log_content :: "wal_log \<Rightarrow> entry list list" where
  "log_content l = map (\<lambda>s. seg_entries (mxr l) (seg_file (dir l) s)) (segs l)"

lemma map_number_entries: "map (\<lambda>r. (Time r, Typ r, Payload r)) (number_entries off es) = es"
  by (induction es arbitrary: off) (auto simp: entry_record_def)

lemma seg_entries_scan:
  shows "list_all (entry_fits mx) (seg_entries mx f)"
    and "scanSegment f mx = (length (seg_entries mx f), segHeaderLen + length (enc_entries (seg_entries mx f)))"
    and "segHeaderLen \<le> length f \<Longrightarrow> prefix (enc_entries (seg_entries mx f)) (drop segHeaderLen f)"
proof -
  obtain rs v where s: "scan_records f (length f) mx segHeaderLen 0 = (rs, v)" by fastforce
  from scan_records_decode [OF s] obtain es where es: "rs = number_entries 0 es" "list_all (entry_fits mx) es"
    "take (v - segHeaderLen) (drop segHeaderLen f) = enc_entries es" "v = segHeaderLen + length (enc_entries es)" by blast
  have e: "seg_entries mx f = es" by (simp add: seg_entries_def s es(1) map_number_entries)
  from es e show "list_all (entry_fits mx) (seg_entries mx f)" by simp
  show "scanSegment f mx = (length (seg_entries mx f), segHeaderLen + length (enc_entries (seg_entries mx f)))"
    using scan_loop_records [of f "length f" mx 0 segHeaderLen 0] s es e by (simp add: scanSegment_def)
  show "prefix (enc_entries (seg_entries mx f)) (drop segHeaderLen f)"
    using es(3) e take_is_prefix by metis
qed

lemma seg_entries_app:
  assumes "list_all (entry_fits mx) es" and "mx < 2 ^ 32"
  shows "prefix es (seg_entries mx (segment_header b @ enc_entries es @ post))"
  using scan_records_enc [of "segment_header b" segHeaderLen mx es "length (segment_header b @ enc_entries es @ post)" post 0] assms
  by (simp add: seg_entries_def Let_def map_number_entries)

lemma readSegmentHeader_decode:
  assumes "readSegmentHeader f = Inr b"
  shows "b < 2 ^ 64" and "prefix (segment_header b) f"
proof -
  let ?h = "take segHeaderLen f"
  from assms have len: "segHeaderLen \<le> length f" and m: "take 8 ?h = segMagic"
    and v: "(get_le (take 4 (drop 8 ?h)) :: u32) = segVersion" and b: "b = unat (get_le (take 8 (drop 12 ?h)) :: u64)"
    by (auto simp: readSegmentHeader_def readAt_def Let_def split: if_splits)
  show "b < 2 ^ 64" unfolding b using unsigned_less [of "get_le (take 8 (drop 12 ?h)) :: u64"] by simp
  have l: "length ?h = 20" using len by (simp add: segHeaderLen_def)
  have "put_le 4 segVersion = take 4 (drop 8 ?h)"
    unfolding v [symmetric] using l by (intro put_le_get_le) simp_all
  moreover have "put_le 8 (of_nat b :: u64) = take 8 (drop 12 ?h)"
  proof -
    have "(of_nat b :: u64) = get_le (take 8 (drop 12 ?h))" by (simp add: b)
    moreover have "put_le 8 (get_le (take 8 (drop 12 ?h)) :: u64) = take 8 (drop 12 ?h)"
      using l by (intro put_le_get_le) simp_all
    ultimately show ?thesis by simp
  qed
  moreover have "?h = take 8 ?h @ take 4 (drop 8 ?h) @ take 8 (drop 12 ?h)"
  proof -
    have "drop 8 ?h = take 4 (drop 8 ?h) @ drop 4 (drop 8 ?h)" by (rule append_take_drop_id [symmetric])
    also have "drop 4 (drop 8 ?h) = take 8 (drop 12 ?h)" using l by simp
    finally show ?thesis by (metis append_take_drop_id)
  qed
  ultimately have "segment_header b = ?h" using m by (simp add: segment_header_def)
  then show "prefix (segment_header b) f" by (metis take_is_prefix)
qed


section \<open>Loading\<close>

definition seg_of :: "wal_dir \<Rightarrow> nat \<Rightarrow> nat \<Rightarrow> seg_meta" where
  "seg_of d mx b = (let (n, v) = scanSegment (file_of d (segmentName b)) mx in \<lparr>seg_base = b, seg_records = n, seg_bytes = v\<rparr>)"

definition good_header :: "wal_dir \<Rightarrow> nat \<Rightarrow> bool" where
  "good_header d b \<longleftrightarrow> (\<exists>f. map_of d (segmentName b) = Some f \<and> readSegmentHeader f = Inr b)"

lemma seg_base_seg_of [simp]: "seg_base (seg_of d mx b) = b"
  by (simp add: seg_of_def split_beta)

lemma map_seg_base_seg_of: "map seg_base (map (seg_of d mx) bs) = bs"
  by (induction bs) auto

lemma seg_of_cong:
  "map_of d (segmentName b) = map_of d' (segmentName b) \<Longrightarrow> seg_of d mx b = seg_of d' mx b"
  by (simp add: seg_of_def file_of_def)

lemma seg_holds_seg_of:
  assumes "good_header d b"
  shows "seg_holds d mx (seg_of d mx b) (seg_entries mx (file_of d (segmentName b)))"
proof -
  from assms obtain f where f: "map_of d (segmentName b) = Some f" and h: "readSegmentHeader f = Inr b"
    by (auto simp: good_header_def)
  have ff: "file_of d (segmentName b) = f" by (simp add: file_of_def f)
  from readSegmentHeader_decode(2) [OF h] obtain r where r: "f = segment_header b @ r" by (auto simp: prefix_def)
  have "prefix (enc_entries (seg_entries mx f)) (drop segHeaderLen f)"
    by (rule seg_entries_scan) (simp add: r)
  then have "prefix (segment_header b @ enc_entries (seg_entries mx f)) f" by (simp add: r)
  then show ?thesis
    using seg_entries_scan(1,2) [where mx = mx and f = f] f by (simp add: seg_holds_def seg_of_def ff)
qed

text \<open>The two ways the scan of the listed segments succeeds.\<close>

lemma load_segs_Inr:
  assumes "load_segs mx d io bs acc = (d', io', Inr ss)"
  shows "(list_all (good_header d) bs \<and> d' = d \<and> ss = acc @ map (seg_of d mx) bs) \<or>
     (\<exists>bs' b. bs = bs' @ [b] \<and> list_all (good_header d) bs' \<and> d' = del_file (segmentName b) d \<and>
        ss = acc @ map (seg_of d mx) bs')"
  using assms
proof (induction bs arbitrary: io acc)
  case Nil
  then show ?case by simp
next
  case (Cons b bs)
  obtain r io1 where io: "io_next io = (r, io1)" by fastforce
  from Cons.prems obtain f where f: "r = Done" "map_of d (segmentName b) = Some f"
    by (auto simp: io split: io_res.splits option.splits)
  show ?case
  proof (cases "readSegmentHeader f")
    case (Inl he)
    with Cons.prems f have "bs = []" "d' = del_file (segmentName b) d" "ss = acc"
      by (auto simp: io split: if_splits io_res.splits prod.splits)
    then show ?thesis by (intro disjI2 exI [of _ "[]"] exI [of _ b]) simp
  next
    case (Inr hb)
    with Cons.prems f have hb: "hb = b" by (auto simp: io split: if_splits)
    with Inr f have g: "good_header d b" by (simp add: good_header_def)
    have "load_segs mx d io1 bs (acc @ [seg_of d mx b]) = (d', io', Inr ss)"
      using Cons.prems f Inr hb by (simp add: io seg_of_def file_of_def split_beta Let_def)
    from Cons.IH [OF this] g show ?thesis
    proof (elim disjE exE conjE)
      fix bs' b' assume "bs = bs' @ [b']" "list_all (good_header d) bs'" "d' = del_file (segmentName b') d"
        "ss = (acc @ [seg_of d mx b]) @ map (seg_of d mx) bs'"
      with g show ?thesis by (intro disjI2 exI [of _ "b # bs'"] exI [of _ b']) simp
    qed simp
  qed
qed

lemma load_segs_ok:
  assumes "list_all (good_header d) bs"
  shows "load_segs mx d [] (bs @ cs) acc = load_segs mx d [] cs (acc @ map (seg_of d mx) bs)"
  using assms by (induction bs arbitrary: acc) (auto simp: good_header_def seg_of_def file_of_def split_beta Let_def)

lemma chained_chain_err:
  assumes "sorted_wrt (<) (map seg_base ss)"
  shows "chain_err ss = None \<longleftrightarrow> chained ss"
  using assms by (induction ss rule: chained.induct) (auto simp: seg_end_def)

text \<open>Reopening the last segment: the torn tail is cut off and the invariant holds.\<close>

lemma open_last_inv:
  assumes "open_last opts d sy io ss = (d', io', Inr l)"
    and "ss = map (seg_of d mx) bs" and "bs \<noteq> []" and "mx = nat (MaxRecordBytes opts)" and "mx < 2 ^ 32"
    and "list_all (good_header d) bs" and "chained ss" and "distinct (map fst d)" and "seg_files d = set bs"
  shows "log_inv l (map (\<lambda>b. seg_entries mx (file_of d (segmentName b))) bs)" and "segs l = ss" and "lopts l = opts"
proof -
  obtain bs0 b where bs: "bs = bs0 @ [b]" using assms(3) by (metis append_butlast_last_id)
  let ?f = "file_of d (segmentName b)" and ?a = "seg_of d mx b"
  let ?es = "seg_entries mx ?f"
  from assms(6) bs have gb: "good_header d b" by simp
  then have "seg_holds d mx ?a ?es" by (rule seg_holds_seg_of)
  then have hold: "prefix (segment_header b @ enc_entries ?es) ?f" "seg_bytes ?a = segHeaderLen + length (enc_entries ?es)"
    "seg_records ?a = length ?es" "list_all (entry_fits mx) ?es" "map_of d (segmentName b) \<noteq> None"
    by (simp_all add: seg_holds_def)
  let ?d = "if seg_bytes ?a < length ?f then put_file (segmentName b) (take (seg_bytes ?a) ?f) d else d"
  have "segs l = ss \<and> lopts l = opts \<and> dir l = ?d \<and>
      active l = \<lparr>h_name = segmentName b, h_pos = seg_bytes ?a, h_open = True\<rparr> \<and> next_off l = seg_end ?a"
    using assms(1) by (auto simp: open_last_def Let_def split_beta assms(2) bs split: io_res.splits if_splits)
  then have sl: "segs l = ss" and lo: "lopts l = opts" and dl: "dir l = ?d"
    and al: "active l = \<lparr>h_name = segmentName b, h_pos = seg_bytes ?a, h_open = True\<rparr>" "next_off l = seg_end ?a"
    by blast+
  from sl lo show "segs l = ss" "lopts l = opts" .
  have blt: "b < 2 ^ 64" using assms(9) bs by (auto simp: seg_files_alt)
  have tk: "take (seg_bytes ?a) ?f = segment_header b @ enc_entries ?es"
    using hold(1,2) by (metis append_eq_conv_conj length_append length_segment_header prefixE)
  have mb: "map_of ?d (segmentName b) = Some (segment_header b @ enc_entries ?es)"
    using tk hold(5) by (auto simp: file_of_def split: option.splits)
  have nm: "\<forall>s \<in> set (map (seg_of d mx) bs0). segmentName (seg_base s) \<noteq> segmentName b"
    using chained_names [of "map (seg_of d mx) bs0" ?a] assms(2,7) bs blt by simp
  have "list_all2 (seg_holds d mx) (map (seg_of d mx) bs0) (map (\<lambda>b. seg_entries mx (file_of d (segmentName b))) bs0)"
    using assms(6) bs by (auto simp: list_all2_conv_all_nth list_all_iff intro: seg_holds_seg_of)
  then have "list_all2 (seg_holds ?d mx) (map (seg_of d mx) bs0) (map (\<lambda>b. seg_entries mx (file_of d (segmentName b))) bs0)"
    using seg_holds_others [OF _ nm] by simp
  moreover have "seg_files ?d = set bs" using assms(9) blt bs by auto
  moreover have "distinct (map fst ?d)" using assms(8) by (simp add: distinct_put_file)
  ultimately show "log_inv l (map (\<lambda>b. seg_entries mx (file_of d (segmentName b))) bs)"
    using hold(2-4) mb assms(2,4,5,7) blt al dl bs
    by (subst log_inv_snoc [OF sl [unfolded assms(2) bs map_append list.map]])
       (simp_all add: lo seg_end_def image_image insert_commute)
qed

lemma fresh_log_inv:
  assumes "fresh_log opts d sy io = (d', io', Inr l)" and "seg_files d = {}" and "distinct (map fst d)"
    and "nat (MaxRecordBytes opts) < 2 ^ 32"
  shows "log_inv l [[]]" and "OldestOffset l = 0" and "lopts l = opts"
proof -
  let ?a = "\<lparr>seg_base = 0, seg_records = 0, seg_bytes = segHeaderLen\<rparr>"
  obtain d1 sy1 io1 r1 where c: "createSegment d sy 0 io = (d1, sy1, io1, r1)" by (metis prod_cases4)
  with assms(1) obtain h where h: "r1 = Inr h" by (auto simp: fresh_log_def split: sum.splits)
  from c h have d1: "d1 = put_file (segmentName 0) (segment_header 0) d"
      "h = \<lparr>h_name = segmentName 0, h_pos = segHeaderLen, h_open = True\<rparr>"
    by (auto elim: createSegment_cases)
  with assms(1) c h have l: "l = \<lparr>lopts = opts, dir = d1, synced = sy1, segs = [?a], active = h,
      next_off = 0, closed = False, lastSync = 0\<rparr>" by (auto simp: fresh_log_def)
  have sl: "segs l = [] @ [?a]" by (simp add: l)
  show "log_inv l [[]]"
    using assms(2-4) by (subst log_inv_snoc [OF sl, of _ "[]" "[]"]) (simp_all add: l d1 distinct_put_file)
  show "OldestOffset l = 0" "lopts l = opts" by (simp_all add: l OldestOffset_def)
qed

lemma fresh_log_ok:
  "map_of d (segmentName 0) = None \<Longrightarrow> \<exists>d' l. fresh_log opts d sy [] = (d', [], Inr l)"
  by (simp add: fresh_log_def createSegment_def Let_def)

lemma open_last_ok: "\<exists>d' l. open_last opts d sy [] ss = (d', [], Inr l)"
  by (simp add: open_last_def Let_def)

lemma seg_files_del_file: "b < 2 ^ 64 \<Longrightarrow> seg_files (del_file (segmentName b) d) = seg_files d - {b}"
  by (auto simp: seg_files_alt)

lemma good_header_cong: "map_of d (segmentName b) = map_of d' (segmentName b) \<Longrightarrow> good_header d b = good_header d' b"
  by (simp add: good_header_def)

lemma open_last_scanned:
  assumes "open_last opts d1 sy io ss = (d', io', Inr l)" and "chain_err ss = None"
    and "ss = map (seg_of d mx) bs" and "bs \<noteq> []" and "sorted_wrt (<) bs" and "list_all (good_header d) bs"
    and "\<forall>b \<in> set bs. map_of d1 (segmentName b) = map_of d (segmentName b)"
    and "seg_files d1 = set bs" and "distinct (map fst d1)" and "mx = nat (MaxRecordBytes opts)" and "mx < 2 ^ 32"
  shows "log_inv l (map (\<lambda>b. seg_entries mx (file_of d (segmentName b))) bs)" and "segs l = ss" and "lopts l = opts"
proof -
  have ss: "ss = map (seg_of d1 mx) bs" using assms(3,7) seg_of_cong [of d1 _ d] by auto
  have g: "list_all (good_header d1) bs" using assms(6,7) good_header_cong [of d1 _ d] by (auto simp: list_all_iff)
  have "sorted_wrt (<) (map seg_base ss)" using assms(5) by (simp add: ss comp_def)
  with assms(2) have ch: "chained ss" by (simp add: chained_chain_err)
  note o = open_last_inv [OF assms(1) ss assms(4,10,11) g ch assms(9,8)]
  have "map (\<lambda>b. seg_entries mx (file_of d1 (segmentName b))) bs = map (\<lambda>b. seg_entries mx (file_of d (segmentName b))) bs"
    using assms(7) by (simp add: file_of_def)
  with o show "log_inv l (map (\<lambda>b. seg_entries mx (file_of d (segmentName b))) bs)" "segs l = ss" "lopts l = opts"
    by simp_all
qed

lemma scanned_files:
  assumes "(list_all (good_header d) B \<and> d' = d \<and> ss = map (seg_of d mx) B) \<or>
     (\<exists>bs' b. B = bs' @ [b] \<and> list_all (good_header d) bs' \<and> d' = del_file (segmentName b) d \<and> ss = map (seg_of d mx) bs')"
    and "sorted_wrt (<) B" and "distinct (map fst d)" and "B = listSegments d"
  obtains bs where "B = bs \<or> (\<exists>b. B = bs @ [b])" and "list_all (good_header d) bs" and "ss = map (seg_of d mx) bs"
    and "\<forall>b \<in> set bs. map_of d' (segmentName b) = map_of d (segmentName b)"
    and "seg_files d' = set bs" and "distinct (map fst d')"
  using assms(1)
proof (elim disjE exE conjE)
  assume "list_all (good_header d) B" "d' = d" "ss = map (seg_of d mx) B"
  then show thesis using assms by (intro that [of B]) (simp_all add: set_listSegments)
next
  fix bs b assume a: "B = bs @ [b]" "list_all (good_header d) bs" "d' = del_file (segmentName b) d" "ss = map (seg_of d mx) bs"
  have f: "seg_files d = insert b (set bs)" using assms(4) a(1) set_listSegments [of d] by (metis list.simps(15) rotate1.simps(2) set_rotate1)
  then have lt: "b < 2 ^ 64" "\<forall>c \<in> set bs. c < 2 ^ 64" by (auto simp: seg_files_alt)
  have ni: "b \<notin> set bs" using assms(2) a(1) by (auto simp: sorted_wrt_append)
  then show thesis using a f lt assms(3) seg_files_del_file [OF lt(1), of d]
    by (intro that [of bs]) (auto intro: distinct_del_file)
qed

text \<open>
  Every directory that loads becomes a well-formed log: the segments listed in order, each
  with the entries its scan finds; a last segment without a whole header is dropped.
\<close>

lemma load_cases:
  assumes "load opts d sy io = (d', io', Inr l)" and "distinct (map fst d)"
    and "mx = nat (MaxRecordBytes opts)" and "mx < 2 ^ 32"
  obtains (fresh) "log_inv l [[]]" "OldestOffset l = 0" "lopts l = opts" "length (listSegments d) \<le> 1"
  | (segs) bs where "bs \<noteq> []" "listSegments d = bs \<or> (\<exists>b. listSegments d = bs @ [b])" "segs l = map (seg_of d mx) bs"
      "log_inv l (map (\<lambda>b. seg_entries mx (file_of d (segmentName b))) bs)" "lopts l = opts"
proof -
  obtain r io0 where io: "io_next io = (r, io0)" by fastforce
  from assms(1) have r: "r = Done" by (auto simp: load_def io Let_def split: io_res.splits)
  let ?bs = "listSegments d"
  have sorted: "sorted_wrt (<) ?bs"
    using distinct_listSegments [OF assms(2)] by (simp add: strict_sorted_iff listSegments_def)
  show thesis
  proof (cases "?bs = []")
    case True
    then have "seg_files d = {}" by (simp flip: set_listSegments)
    moreover from assms(1) True r have "fresh_log opts d sy io0 = (d', io', Inr l)" by (simp add: load_def io Let_def)
    ultimately show thesis using fresh_log_inv [of opts d sy io0 d' io' l] assms(2-4) True by (intro fresh) auto
  next
    case False
    obtain d1 io1 r1 where ls: "load_segs mx d io0 ?bs [] = (d1, io1, r1)" by (metis prod_cases3)
    from assms(1) False r ls obtain ss where r1: "r1 = Inr ss" by (cases r1) (auto simp: load_def io Let_def assms(3))
    note run = assms(1) [unfolded load_def io Let_def prod.case r io_res.case if_not_P [OF False] assms(3) [symmetric] ls r1 sum.case]
    note res = load_segs_Inr [OF ls [unfolded r1], unfolded append_Nil]
    show thesis
    proof (cases "ss = []")
      case True
      with res False obtain b where b: "?bs = [b]" "d1 = del_file (segmentName b) d" by auto
      then have sf: "seg_files d = {b}" by (simp flip: set_listSegments)
      then have "b \<in> seg_files d" by simp
      then have "b < 2 ^ 64" by (simp add: seg_files_alt)
      then have "seg_files d1 = {}" using b(2) sf seg_files_del_file [of b d] by simp
      moreover from run True have "fresh_log opts d1 sy io1 = (d', io', Inr l)" by simp
      ultimately show thesis
        using fresh_log_inv [of opts d1 sy io1 d' io' l] assms(2-4) b by (intro fresh) (auto intro: distinct_del_file)
    next
      case ne: False
      with run have ce: "chain_err ss = None" and ol: "open_last opts d1 sy io1 ss = (d', io', Inr l)"
        by (auto split: option.splits)
      from res obtain bs where bs: "?bs = bs \<or> (\<exists>b. ?bs = bs @ [b])" "list_all (good_header d) bs" "ss = map (seg_of d mx) bs"
        and d1: "\<forall>b \<in> set bs. map_of d1 (segmentName b) = map_of d (segmentName b)"
          "seg_files d1 = set bs" "distinct (map fst d1)"
        by (rule scanned_files [OF _ sorted assms(2) refl])
      have "sorted_wrt (<) bs" using sorted bs(1) by (auto simp: sorted_wrt_append)
      with open_last_scanned [OF ol ce bs(3) _ _ bs(2) d1 assms(3,4)] ne bs show thesis by (intro segs) auto
    qed
  qed
qed


section \<open>Power cuts\<close>

text \<open>
  What a file may look like after power is lost: never shorter than what was synced, never
  longer than what was written, the synced bytes intact, and a header that is at most cut.
  Bytes after the header that were not synced may be anything. A file that was never synced
  may be gone.
\<close>

definition crash_file :: "nat \<Rightarrow> byte list \<Rightarrow> byte list \<Rightarrow> bool" where
  "crash_file n f f' \<longleftrightarrow> min n (length f) \<le> length f' \<and> length f' \<le> length f \<and> prefix (take (max n segHeaderLen) f') f"

definition crash :: "wal_dir \<Rightarrow> (string \<Rightarrow> nat) \<Rightarrow> wal_dir \<Rightarrow> bool" where
  "crash d sy d' \<longleftrightarrow> distinct (map fst d') \<and>
     (\<forall>n. case map_of d' n of
        None \<Rightarrow> map_of d n = None \<or> sy n = 0
      | Some f' \<Rightarrow> (\<exists>f. map_of d n = Some f \<and> crash_file (sy n) f f'))"

lemma crash_Some:
  assumes "crash d sy d'" and "map_of d' n = Some f'"
  obtains f where "map_of d n = Some f" and "crash_file (sy n) f f'"
proof -
  from assms(1) have "case map_of d' n of None \<Rightarrow> map_of d n = None \<or> sy n = 0
      | Some f' \<Rightarrow> (\<exists>f. map_of d n = Some f \<and> crash_file (sy n) f f')" unfolding crash_def by blast
  with assms(2) that show thesis by auto
qed

lemma crash_None:
  assumes "crash d sy d'" and "map_of d' n = None"
  shows "map_of d n = None \<or> sy n = 0"
proof -
  from assms(1) have "case map_of d' n of None \<Rightarrow> map_of d n = None \<or> sy n = 0
      | Some f' \<Rightarrow> (\<exists>f. map_of d n = Some f \<and> crash_file (sy n) f f')" unfolding crash_def by blast
  with assms(2) show ?thesis by auto
qed

lemma crash_synced:
  assumes "crash d sy d'" and "map_of d n = Some f" and "length f \<le> sy n" and "0 < sy n"
  shows "map_of d' n = Some f"
proof (cases "map_of d' n")
  case None
  with crash_None [OF assms(1) None] assms show ?thesis by auto
next
  case (Some f')
  with assms(2) crash_Some [OF assms(1) Some] have "crash_file (sy n) f f'" by auto
  then have p: "prefix (take (max (sy n) segHeaderLen) f') f" and len: "length f' = length f"
    using assms(3) by (simp_all add: crash_file_def)
  have "take (max (sy n) segHeaderLen) f' = f'" using len assms(3) by simp
  with p have "prefix f' f" by simp
  with len Some show ?thesis by (auto simp: prefix_def)
qed

text \<open>The bytes that are kept are the bytes that were written.\<close>

lemma crash_file_take:
  assumes "crash_file n f f'" and "prefix f h" and "k \<le> max n segHeaderLen" and "k \<le> length f'"
  shows "take k f' = take k h"
proof -
  have "prefix (take (max n segHeaderLen) f') h"
    using assms(1,2) unfolding crash_file_def by (meson prefix_order.trans)
  then obtain r where "h = take (max n segHeaderLen) f' @ r" by (auto simp: prefix_def)
  with assms(3,4) show ?thesis by simp
qed

lemma crash_durable:
  assumes "crash_file n f f'" and "prefix f (segment_header b @ enc_entries es)" and "segHeaderLen \<le> length f'"
    and "0 < k \<longrightarrow> segHeaderLen + length (enc_entries (take k es)) \<le> n" and "n \<le> length f"
  obtains post where "f' = segment_header b @ enc_entries (take k es) @ post"
proof -
  let ?m = "segHeaderLen + length (enc_entries (take k es))"
  have m: "?m \<le> max n segHeaderLen" "?m \<le> length f'"
    using assms(1,3-5) by (cases "k = 0"; simp add: crash_file_def)+
  have "enc_entries es = enc_entries (take k es) @ enc_entries (drop k es)"
    by (metis append_take_drop_id enc_entries_simps(3))
  then have "take ?m (segment_header b @ enc_entries es) = segment_header b @ enc_entries (take k es)" by simp
  with crash_file_take [OF assms(1,2) m] have "f' = (segment_header b @ enc_entries (take k es)) @ drop ?m f'"
    by (metis append_take_drop_id)
  with that show thesis by simp
qed

section \<open>Loading succeeds\<close>

definition cut_header :: "wal_dir \<Rightarrow> nat list \<Rightarrow> bool" where
  "cut_header d cs \<longleftrightarrow> cs = [] \<or> (\<exists>b f he. cs = [b] \<and> map_of d (segmentName b) = Some f \<and> readSegmentHeader f = Inl he)"

lemma load_segs_run:
  assumes "list_all (good_header d) gs" and "cut_header d cs"
  shows "load_segs mx d [] (gs @ cs) [] =
    (case cs of [] \<Rightarrow> d | b # _ \<Rightarrow> del_file (segmentName b) d, [], Inr (map (seg_of d mx) gs))"
  unfolding load_segs_ok [OF assms(1)] using assms(2) by (auto simp: cut_header_def)

lemma load_run:
  assumes "listSegments d = gs @ cs" and "cut_header d cs" and "list_all (good_header d) gs"
    and "chained (map (seg_of d mx) gs)" and "distinct (map fst d)"
    and "mx = nat (MaxRecordBytes opts)" and "mx < 2 ^ 32"
  shows "\<exists>d' l. load opts d sy [] = (d', [], Inr l) \<and> lopts l = opts \<and>
     (if gs = [] then log_inv l [[]] \<and> OldestOffset l = 0
      else log_inv l (map (\<lambda>b. seg_entries mx (file_of d (segmentName b))) gs) \<and> segs l = map (seg_of d mx) gs)"
proof -
  have sorted: "sorted_wrt (<) (gs @ cs)"
    using distinct_listSegments [OF assms(5)] unfolding assms(1) [symmetric]
    by (simp add: strict_sorted_iff listSegments_def)
  let ?d = "case cs of [] \<Rightarrow> d | b # _ \<Rightarrow> del_file (segmentName b) d"
  note ls = load_segs_run [OF assms(3,2), of mx]
  have "(list_all (good_header d) (gs @ cs) \<and> ?d = d \<and> map (seg_of d mx) gs = map (seg_of d mx) (gs @ cs)) \<or>
     (\<exists>bs' b. gs @ cs = bs' @ [b] \<and> list_all (good_header d) bs' \<and> ?d = del_file (segmentName b) d \<and> map (seg_of d mx) gs = map (seg_of d mx) bs')"
    using assms(2,3) by (auto simp: cut_header_def)
  then obtain bs where bs: "map (seg_of d mx) gs = map (seg_of d mx) bs"
    and d1: "\<forall>b \<in> set bs. map_of ?d (segmentName b) = map_of d (segmentName b)" "seg_files ?d = set bs" "distinct (map fst ?d)"
    by (rule scanned_files [OF _ sorted assms(5) assms(1) [symmetric]])
  from bs have gb: "bs = gs" by (metis map_seg_base_seg_of)
  note d1 = d1 [unfolded gb]
  show ?thesis
  proof (cases "gs = []")
    case True
    then have "map_of ?d (segmentName 0) = None" using d1(2) by (auto simp: seg_files_alt)
    then obtain d' l where f: "fresh_log opts ?d sy [] = (d', [], Inr l)" using fresh_log_ok by blast
    have "load opts d sy [] = fresh_log opts ?d sy []"
      using ls True assms(1,6) by (cases cs) (simp_all add: load_def)
    with f fresh_log_inv [OF f _ d1(3)] d1(2) True assms(6,7) show ?thesis by auto
  next
    case False
    obtain d' l where o: "open_last opts ?d sy [] (map (seg_of d mx) gs) = (d', [], Inr l)" using open_last_ok by blast
    have sg: "sorted_wrt (<) gs" using sorted by (simp add: sorted_wrt_append)
    then have ce: "chain_err (map (seg_of d mx) gs) = None"
      using assms(4) by (simp add: chained_chain_err comp_def)
    have "load opts d sy [] = open_last opts ?d sy [] (map (seg_of d mx) gs)"
      using ls False assms(1,6) ce by (simp add: load_def)
    with o open_last_scanned [OF o ce refl False sg assms(3) d1 assms(6,7)] False show ?thesis by auto
  qed
qed


section \<open>Recovery\<close>

lemma seg_holds_entries:
  assumes "seg_holds d mx s es" and "mx < 2 ^ 32"
  shows "seg_entries mx (seg_file d s) = es" and "seg_of d mx (seg_base s) = s"
proof -
  from assms(1) obtain post where f: "seg_file d s = segment_header (seg_base s) @ enc_entries es @ post"
    and fit: "list_all (entry_fits mx) es"
    and sc: "scanSegment (seg_file d s) mx = (seg_records s, seg_bytes s)" and len: "seg_records s = length es"
    by (auto simp: seg_holds_def prefix_def)
  have "prefix es (seg_entries mx (seg_file d s))" unfolding f using fit assms(2) by (rule seg_entries_app)
  moreover have "length (seg_entries mx (seg_file d s)) = length es"
    using seg_entries_scan(2) [of "seg_file d s" mx] sc len by simp
  ultimately show "seg_entries mx (seg_file d s) = es" by (auto simp: prefix_def)
  show "seg_of d mx (seg_base s) = s" using sc by (simp add: seg_of_def)
qed

lemma sealed_after_crash:
  assumes "disk_ok d sy mx sealed sess b es N" and "crash d sy d'"
  shows "list_all (good_header d') (map seg_base sealed)"
    and "map (\<lambda>b. seg_entries mx (file_of d' (segmentName b))) (map seg_base sealed) = sess"
    and "map (seg_of d' mx) (map seg_base sealed) = sealed"
proof -
  have ch: "\<forall>s \<in> set sealed. seg_base s < b"
    using assms(1) chained_names [of sealed "\<lparr>seg_base = b, seg_records = 0, seg_bytes = 0\<rparr>"]
    by (simp add: disk_ok_def)
  have *: "good_header d' (seg_base s) \<and> seg_entries mx (seg_file d' s) = es \<and> seg_of d' mx (seg_base s) = s"
    if s: "s \<in> set sealed" and h: "seg_holds d mx s es" for s es
  proof -
    from h obtain f r where f: "map_of d (segmentName (seg_base s)) = Some f" "f = segment_header (seg_base s) @ r"
      by (auto simp: seg_holds_def file_of_def prefix_def)
    have "length f \<le> sy (segmentName (seg_base s))" using assms(1) s f by (auto simp: disk_ok_def file_of_def)
    moreover have "0 < length f" using f(2) by (simp add: segHeaderLen_def)
    ultimately have "0 < sy (segmentName (seg_base s))" by linarith
    with crash_synced [OF assms(2) f(1)] \<open>length f \<le> _\<close>
    have f': "map_of d' (segmentName (seg_base s)) = Some f" by blast
    have "seg_base s < 2 ^ 64" using ch s assms(1) by (force simp: disk_ok_def)
    then have "good_header d' (seg_base s)" by (simp add: good_header_def f' f(2) readSegmentHeader_app)
    moreover have "seg_holds d' mx s es" using h seg_holds_cong [of d s d'] f f' by simp
    ultimately show ?thesis using seg_holds_entries [of d' mx s es] assms(1) by (simp add: disk_ok_def)
  qed
  have all2: "list_all2 (seg_holds d mx) sealed sess" using assms(1) by (simp add: disk_ok_def)
  then have "list_all2 (\<lambda>s es. good_header d' (seg_base s) \<and> seg_entries mx (seg_file d' s) = es \<and> seg_of d' mx (seg_base s) = s) sealed sess"
    by (rule list.rel_mono_strong) (use * in blast)
  then show "list_all (good_header d') (map seg_base sealed)"
    "map (\<lambda>b. seg_entries mx (file_of d' (segmentName b))) (map seg_base sealed) = sess"
    "map (seg_of d' mx) (map seg_base sealed) = sealed"
    by (induction rule: list_all2_induct) auto
qed

text \<open>Which segments are listed, and which of the two shapes the last one has.\<close>

lemma segments_after_crash:
  assumes "disk_ok d sy mx sealed sess b es N" and "crash d sy d'"
  shows "listSegments d' = map seg_base sealed @ (if map_of d' (segmentName b) = None then [] else [b])"
proof (rule listSegments_eq)
  have ch: "chained (sealed @ [\<lparr>seg_base = b, seg_records = 0, seg_bytes = 0\<rparr>])" and b: "b < 2 ^ 64"
    and sf: "seg_files d = insert b (seg_base ` set sealed)" using assms(1) by (simp_all add: disk_ok_def)
  show "distinct (map fst d')" using assms(2) by (simp add: crash_def)
  show "sorted_wrt (<) (map seg_base sealed @ (if map_of d' (segmentName b) = None then [] else [b]))"
    using chained_sorted [OF ch] by (auto simp: sorted_wrt_append)
  have "set (map seg_base sealed) \<subseteq> seg_files d'"
    using sealed_after_crash(1) [OF assms] sf b by (auto simp: list_all_iff good_header_def seg_files_alt)
  moreover have "seg_files d' \<subseteq> seg_files d"
    using crash_Some [OF assms(2)] by (force simp: seg_files_alt)
  moreover have "b \<in> seg_files d' \<longleftrightarrow> map_of d' (segmentName b) \<noteq> None" using b by (simp add: seg_files_alt)
  ultimately show "seg_files d' = set (map seg_base sealed @ (if map_of d' (segmentName b) = None then [] else [b]))"
    using sf by auto
qed

lemma recovers_without_last:
  assumes "disk_ok d sy mx sealed sess b es N" and "crash d sy d'" and "mx = nat (MaxRecordBytes opts)"
    and "\<forall>f. map_of d' (segmentName b) = Some f \<longrightarrow> length f < segHeaderLen"
  shows "\<exists>d'' l ess. load opts d' sy' [] = (d'', [], Inr l) \<and> lopts l = opts \<and> log_inv l ess \<and>
     OldestOffset l = hd (map seg_base sealed @ [b]) \<and> prefix (take N (concat sess @ es)) (concat ess)"
proof -
  let ?bs = "map seg_base sealed" and ?n = "segmentName b"
  note sc = sealed_after_crash [OF assms(1,2)]
  let ?cs = "if map_of d' ?n = None then [] else [b]"
  have "\<not> segHeaderLen \<le> sy ?n"
  proof
    assume h: "segHeaderLen \<le> sy ?n"
    from assms(1) obtain f where f: "map_of d ?n = Some f" unfolding disk_ok_def seg_files_alt by blast
    with assms(1) have "sy ?n \<le> length f" by (simp add: disk_ok_def file_of_def)
    moreover have "map_of d' ?n \<noteq> None" using crash_None [OF assms(2), of ?n] f h by (auto simp: segHeaderLen_def)
    ultimately show False
      using crash_Some [OF assms(2), of ?n] assms(4) f h by (force simp: crash_file_def)
  qed
  then have N: "N \<le> length (concat sess)" and b0: "sealed = [] \<Longrightarrow> b = 0" using assms(1) by (auto simp: disk_ok_def)
  have "cut_header d' ?cs" using assms(4) readSegmentHeader_short by (auto simp: cut_header_def)
  moreover have "chained (map (seg_of d' mx) ?bs)" using assms(1) unfolding sc(3) by (auto simp: disk_ok_def chained_append)
  moreover have "distinct (map fst d')" "mx < 2 ^ 32" using assms(1,2) by (simp_all add: crash_def disk_ok_def)
  ultimately obtain d'' l where l: "load opts d' sy' [] = (d'', [], Inr l)" "lopts l = opts"
    "if ?bs = [] then log_inv l [[]] \<and> OldestOffset l = 0 else log_inv l sess \<and> segs l = sealed"
    using load_run [OF segments_after_crash [OF assms(1,2)] _ sc(1) _ _ assms(3), of sy'] unfolding sc(2,3) by blast
  show ?thesis
  proof (cases "sealed = []")
    case True
    with N assms(1) have "N = 0" by (auto simp: disk_ok_def)
    with l True b0 show ?thesis by (intro exI [of _ d''] exI [of _ l] exI [of _ "[[]]"]) simp
  next
    case False
    with l N show ?thesis
      by (intro exI [of _ d''] exI [of _ l] exI [of _ sess]) (simp add: OldestOffset_def hd_append hd_map take_is_prefix)
  qed
qed

lemma recovers_with_last:
  assumes "disk_ok d sy mx sealed sess b es N" and "crash d sy d'" and "mx = nat (MaxRecordBytes opts)"
    and "map_of d' (segmentName b) = Some f'" and "segHeaderLen \<le> length f'"
  shows "\<exists>d'' l ess. load opts d' sy' [] = (d'', [], Inr l) \<and> lopts l = opts \<and> log_inv l ess \<and>
     OldestOffset l = hd (map seg_base sealed @ [b]) \<and> prefix (take N (concat sess @ es)) (concat ess)"
proof -
  let ?bs = "map seg_base sealed" and ?n = "segmentName b" and ?k = "N - length (concat sess)"
  note sc = sealed_after_crash [OF assms(1,2)]
  obtain f where f: "map_of d ?n = Some f" and cf: "crash_file (sy ?n) f f'"
    using crash_Some [OF assms(2,4)] by blast
  have ok: "prefix f (segment_header b @ enc_entries es)" "0 < ?k \<longrightarrow> segHeaderLen + length (enc_entries (take ?k es)) \<le> sy ?n"
    "sy ?n \<le> length f" "list_all (entry_fits mx) (take ?k es)" "mx < 2 ^ 32" "b < 2 ^ 64" "distinct (map fst d')"
    using assms(1,2) f by (auto simp: disk_ok_def crash_def file_of_def list_all_iff dest: in_set_takeD)
  obtain post where post: "f' = segment_header b @ enc_entries (take ?k es) @ post"
    by (rule crash_durable [OF cf ok(1) assms(5) ok(2,3)])
  have fb: "file_of d' ?n = f'" using assms(4) by (simp add: file_of_def)
  have pre: "prefix (take ?k es) (seg_entries mx f')" unfolding post using ok(4,5) by (rule seg_entries_app)
  have "good_header d' b" using ok(6) by (simp add: good_header_def assms(4) post readSegmentHeader_app)
  with sc(1) have good: "list_all (good_header d') (?bs @ [b])" by simp
  have "chained (map (seg_of d' mx) (?bs @ [b]))"
    using assms(1) unfolding map_append sc(3) by (simp add: disk_ok_def chained_append)
  moreover have "listSegments d' = (?bs @ [b]) @ []" using segments_after_crash [OF assms(1,2)] assms(4) by simp
  ultimately obtain d'' l where l: "load opts d' sy' [] = (d'', [], Inr l)" "lopts l = opts"
    "log_inv l (sess @ [seg_entries mx f'])" "segs l = sealed @ [seg_of d' mx b]"
    using load_run [OF _ _ good _ ok(7) assms(3) ok(5), of "[]" sy'] sc(2,3) fb
    by (auto simp: cut_header_def)
  moreover have "prefix (take N (concat sess @ es)) (concat (sess @ [seg_entries mx f']))"
  proof (cases "N \<le> length (concat sess)")
    case True
    then show ?thesis by (simp add: prefix_append take_is_prefix)
  next
    case False
    with pre show ?thesis by simp
  qed
  moreover have "OldestOffset l = hd (?bs @ [b])" using l(4) by (simp add: OldestOffset_def hd_append hd_map)
  ultimately show ?thesis by blast
qed

text \<open>Recovery after a power cut keeps every durable entry, at its offset.\<close>

lemma disk_safe_recovers:
  assumes "disk_safe d sy mx b0 es N" and "crash d sy d'" and "mx = nat (MaxRecordBytes opts)"
  shows "\<exists>d'' l ess. load opts d' sy' [] = (d'', [], Inr l) \<and> lopts l = opts \<and> log_inv l ess \<and>
     OldestOffset l = b0 \<and> prefix (take N es) (concat ess)"
proof -
  from assms(1) obtain sealed sess b es' where ok: "disk_ok d sy mx sealed sess b es' N"
    and es: "concat sess @ es' = es" "hd (map seg_base sealed @ [b]) = b0" by (auto simp: disk_safe_def)
  show ?thesis
  proof (cases "\<forall>f. map_of d' (segmentName b) = Some f \<longrightarrow> length f < segHeaderLen")
    case True
    with recovers_without_last [OF ok assms(2,3)] es show ?thesis by simp
  next
    case False
    then obtain f' where "map_of d' (segmentName b) = Some f'" "segHeaderLen \<le> length f'" by (auto simp: not_less)
    with recovers_with_last [OF ok assms(2,3)] es show ?thesis by simp
  qed
qed

section \<open>After recovery everything found is durable\<close>

lemma open_last_synced:
  assumes "open_last opts d sy io ss = (d', io', Inr l)" and "n = segmentName (seg_base (last ss))"
  shows "segs l = ss" and "synced l = sy(n := min (sy n) (length (file_of (dir l) n)))"
    and "m \<noteq> n \<Longrightarrow> file_of (dir l) m = file_of d m" and "length (file_of (dir l) n) \<le> length (file_of d n)"
  using assms by (auto simp: open_last_def Let_def split_beta split: io_res.splits if_splits)

lemma load_ends:
  assumes "load opts d sy io = (d', io', Inr l)"
  obtains (fresh) d1 io1 where "fresh_log opts d1 sy io1 = (d', io', Inr l)"
  | (reopen) d1 io1 ss where "open_last opts d1 sy io1 ss = (d', io', Inr l)"
      and "\<forall>n. length (file_of d1 n) \<le> length (file_of d n)"
proof -
  let ?mx = "nat (MaxRecordBytes opts)"
  obtain r io0 where io: "io_next io = (r, io0)" by fastforce
  from assms have r: "r = Done" by (auto simp: load_def io Let_def split: io_res.splits)
  show thesis
  proof (cases "listSegments d = []")
    case True
    with assms r show thesis by (intro fresh [of d io0]) (simp add: load_def io Let_def)
  next
    case False
    obtain d1 io1 r1 where ls: "load_segs ?mx d io0 (listSegments d) [] = (d1, io1, r1)" by (metis prod_cases3)
    from assms False r ls obtain ss where r1: "r1 = Inr ss" by (cases r1) (auto simp: load_def io Let_def)
    note run = assms [unfolded load_def io Let_def prod.case r io_res.case if_not_P [OF False] ls r1 sum.case]
    have "d1 = d \<or> (\<exists>b. d1 = del_file (segmentName b) d)" using load_segs_Inr [OF ls [unfolded r1]] by blast
    then have "\<forall>n. length (file_of d1 n) \<le> length (file_of d n)" by (auto simp: file_of_def)
    with run show thesis
      by (cases "ss = []"; cases "chain_err ss") (auto intro: fresh reopen)
  qed
qed

lemma load_synced:
  assumes "load opts d sy io = (d', io', Inr l)" and "\<forall>n. length (file_of d n) \<le> sy n" and "log_inv l ess"
  shows "durable l ess (length (concat ess))"
proof -
  from assms(3) obtain ss a ess0 es where se: "segs l = ss @ [a]" "ess = ess0 @ [es]" by (rule log_inv_split)
  note inv = assms(3) [unfolded log_inv_snoc [OF se]]
  from assms(1) show ?thesis
  proof (cases rule: load_ends)
    case (fresh d1 io1)
    then have "segs l = [\<lparr>seg_base = 0, seg_records = 0, seg_bytes = segHeaderLen\<rparr>]" "synced l (segmentName 0) = 0"
      by (auto simp: fresh_log_def elim: createSegment_cases split: sum.splits prod.splits)
    with se have a: "ss = []" "a = \<lparr>seg_base = 0, seg_records = 0, seg_bytes = segHeaderLen\<rparr>" "ess0 = []" "synced l (segmentName 0) = 0"
      using inv by auto
    then have "es = []" using inv by simp
    with a assms(3) show ?thesis unfolding durable_snoc [OF se] by (simp add: se(2))
  next
    case (reopen d1 io1 ss1)
    let ?n = "segmentName (seg_base a)"
    have n: "?n = segmentName (seg_base (last ss1))" using open_last_synced(1) [OF reopen(1) refl] se by auto
    note o = open_last_synced [OF reopen(1) n]
    have sy: "length (file_of d1 m) \<le> sy m" for m using reopen(2) assms(2) by (meson le_trans)
    have f: "file_of (dir l) ?n = segment_header (seg_base a) @ enc_entries es" using inv by (simp add: file_of_def)
    have la: "synced l ?n = segHeaderLen + length (enc_entries es)"
      using o(2,4) sy [of ?n] f by simp
    have "\<forall>s \<in> set ss. length (seg_file (dir l) s) \<le> synced l (segmentName (seg_base s))"
      using chained_names [of ss a] inv o(2,3) sy by auto
    with la show ?thesis by (simp add: durable_snoc [OF se] assms(3)) (simp add: se)
  qed
qed

section \<open>Runs of the log\<close>

text \<open>
  The life of a log under \<open>SyncBatched\<close> or \<open>SyncAlways\<close>: it is opened on an empty
  directory, batches are acknowledged, and at any moment, also in the middle of a batch
  (any prefix of its system calls has happened), power may be lost and the log reopened.
  \<open>A\<close> collects every acknowledged record with its offset.
\<close>

inductive wal_run :: "wal_opts \<Rightarrow> wal_log \<Rightarrow> (nat \<times> entry) set \<Rightarrow> bool" for opts where
  opened: "load opts [] (\<lambda>_. 0) [] = (d, [], Inr l) \<Longrightarrow> wal_run opts l {}"
| batch: "wal_run opts l A \<Longrightarrow> list_all (entry_fits (mxr l)) (stamp now reqs) \<Longrightarrow>
    next_off l + length reqs \<le> 2 ^ 64 \<Longrightarrow> writeBatch l io now t1 t2 reqs = (l', io', Inr offs) \<Longrightarrow>
    wal_run opts l' (A \<union> set (zip offs (stamp now reqs)))"
| power_cut: "wal_run opts l A \<Longrightarrow> list_all (entry_fits (mxr l)) (stamp now reqs) \<Longrightarrow>
    next_off l + length reqs \<le> 2 ^ 64 \<Longrightarrow> writeBatch l io now t1 t2 reqs = (l', io', res) \<Longrightarrow>
    crash (dir l') (synced l') d' \<Longrightarrow> load opts d' (\<lambda>n. length (file_of d' n)) [] = (d'', [], Inr l'') \<Longrightarrow>
    wal_run opts l'' A"

definition keeps_all :: "wal_log \<Rightarrow> entry list list \<Rightarrow> (nat \<times> entry) set \<Rightarrow> bool" where
  "keeps_all l ess A \<longleftrightarrow> (\<forall>p \<in> A. OldestOffset l \<le> fst p \<and> fst p < OldestOffset l + length (concat ess) \<and>
      concat ess ! (fst p - OldestOffset l) = snd p)"

lemma keeps_all_prefix:
  assumes "keeps_all l ess A" and "prefix (concat ess) (concat ess')" and "OldestOffset l' = OldestOffset l"
  shows "keeps_all l' ess' A"
proof -
  from assms(2) obtain r where "concat ess' = concat ess @ r" by (auto simp: prefix_def)
  with assms(1,3) show ?thesis by (fastforce simp: keeps_all_def nth_append)
qed

lemma keeps_all_batch:
  assumes "keeps_all l ess A" and "log_inv l ess" and "concat ess' = concat ess @ es" and "OldestOffset l' = OldestOffset l"
    and "offs = [next_off l..<next_off l + length es]"
  shows "keeps_all l' ess' (A \<union> set (zip offs es))"
proof -
  have "keeps_all l' ess' A" by (rule keeps_all_prefix [OF assms(1)]) (simp_all add: assms(3,4))
  moreover have "keeps_all l' ess' (set (zip offs es))"
    using log_inv_next [OF assms(2)] by (auto simp: keeps_all_def assms(3-5) set_zip nth_append)
  ultimately show ?thesis by (auto simp: keeps_all_def)
qed

lemma batch_disk_safe:
  assumes "durable l ess (length (concat ess))" and "list_all (entry_fits (mxr l)) (stamp now reqs)"
    and "next_off l + length reqs \<le> 2 ^ 64" and "writeBatch l io now t1 t2 reqs = (l', io', res)"
  shows "\<exists>es. disk_safe (dir l') (synced l') (mxr l) (OldestOffset l) (concat ess @ es) (length (concat ess))"
proof -
  note o = writeBatch_outcome [OF assms(1) le_refl assms(2-4)]
  show ?thesis
  proof (cases res)
    case (Inl e)
    with o show ?thesis by auto
  next
    case (Inr offs)
    with o obtain ess' where e': "durable l' ess' (acked l ess (length (concat ess)) (stamp now reqs))"
      "concat ess' = concat ess @ stamp now reqs" "OldestOffset l' = OldestOffset l" "lopts l' = lopts l" by auto
    have "length (concat ess) \<le> acked l ess (length (concat ess)) (stamp now reqs)" by (simp add: acked_def)
    with e'(1) have "durable l' ess' (length (concat ess))" by (rule durable_mono)
    from durable_safe [OF this] e'(2-4) show ?thesis by auto
  qed
qed

lemma wal_run_inv:
  assumes "wal_run opts l A" and "Policy opts \<noteq> SyncInterval" and "nat (MaxRecordBytes opts) < 2 ^ 32"
  shows "lopts l = opts \<and> (\<exists>ess. durable l ess (length (concat ess)) \<and> keeps_all l ess A)"
  using assms(1)
proof induction
  case (opened d l)
  from opened have "log_inv l [[]]" "lopts l = opts"
    by (rule load_cases; use assms(3) in \<open>auto simp: listSegments_def List.map_filter_simps\<close>)+
  moreover from this(1) have "durable l [[]] (length (concat [[]] :: entry list))"
    by (intro load_synced [OF opened]) (simp_all add: file_of_def)
  ultimately show ?case by (intro conjI exI [of _ "[[]]"]) (simp_all add: keeps_all_def)
next
  case (batch l A now reqs io t1 t2 l' io' offs)
  then obtain ess where e: "lopts l = opts" "durable l ess (length (concat ess))" "keeps_all l ess A" by blast
  note o = writeBatch_outcome [OF e(2) le_refl batch.hyps(2-4)]
  from o(2) obtain ess' where e': "durable l' ess' (acked l ess (length (concat ess)) (stamp now reqs))"
    "concat ess' = concat ess @ stamp now reqs" "OldestOffset l' = OldestOffset l"
    "offs = [next_off l..<next_off l + length (stamp now reqs)]" by auto
  have "acked l ess (length (concat ess)) (stamp now reqs) = length (concat ess')"
    using assms(2) e(1) unfolding e'(2) by (auto simp: acked_def stamp_def)
  moreover have "log_inv l ess" using e(2) by (simp add: durable_def)
  ultimately show ?case
    using e'(1) keeps_all_batch [OF e(3) _ e'(2-4)] o(1) e(1) by auto
next
  case (power_cut l A now reqs io t1 t2 l' io' res d' d'' l'')
  then obtain ess where e: "lopts l = opts" "durable l ess (length (concat ess))" "keeps_all l ess A" by blast
  from batch_disk_safe [OF e(2) power_cut.hyps(2-4)] obtain es where
    "disk_safe (dir l') (synced l') (mxr l) (OldestOffset l) (concat ess @ es) (length (concat ess))" by blast
  from disk_safe_recovers [OF this power_cut.hyps(5), of opts "\<lambda>n. length (file_of d' n)"] e(1) power_cut.hyps(6)
  obtain ess' where e': "log_inv l'' ess'" "lopts l'' = opts" "OldestOffset l'' = OldestOffset l"
    "prefix (concat ess) (concat ess')" by auto
  then show ?case
    using load_synced [OF power_cut.hyps(6) _ e'(1)] keeps_all_prefix [OF e(3) e'(4,3)] by auto
qed

section \<open>Without I/O errors every batch succeeds\<close>

lemma f_sync_clean: "log_inv l ess \<Longrightarrow> \<exists>l'. f_sync l [] = (l', [], Inr ())"
  by (simp add: f_sync_def Let_def log_inv_def)

lemma roll_clean:
  assumes "log_inv l ess" and "0 < seg_records (last (segs l))" and "next_off l < 2 ^ 64"
  shows "\<exists>l'. roll l [] = (l', [], Inr ())"
proof -
  have "next_off l \<notin> seg_base ` set (segs l)"
  proof
    assume "next_off l \<in> seg_base ` set (segs l)"
    then obtain s where "s \<in> set (segs l)" "seg_base s = next_off l" by auto
    with assms(1,2) chained_le_last [of "segs l" s] show False by (simp add: log_inv_def seg_end_def)
  qed
  with assms(1,3) have "map_of (dir l) (segmentName (next_off l)) = None"
    by (auto simp: log_inv_def seg_files_alt)
  with assms(1) show ?thesis
    by (simp add: roll_def f_sync_def f_close_def createSegment_def Let_def log_inv_def)
qed

lemma write_record_clean:
  assumes "durable l ess N" and "N \<le> length (concat ess)" and "entry_fits (mxr l) (now, ty, p)" and "next_off l < 2 ^ 64"
  shows "\<exists>l' off. write_record l [] now ty p = (l', [], Inr off)"
proof -
  let ?e = "(now, ty, p) :: entry" and ?rec = "appendRecord now ty p"
  let ?c = "SegmentBytes (lopts l) < int (seg_bytes (last (segs l)) + length ?rec) \<and> 0 < seg_records (last (segs l))"
  have enc: "enc_entry ?e = ?rec" by (simp add: enc_entry_def)
  have "log_inv l ess" using assms(1) by (simp add: durable_def)
  then obtain l1 where s1: "(if ?c then roll l [] else (l, [], Inr ())) = (l1, [], Inr ())"
    using roll_clean assms(4) by (metis (mono_tags, lifting))
  note st1 = roll_if_step [OF assms(1) _ assms(4,2) s1]
  then obtain ess1 where e1: "durable l1 ess1 N" and k1: "lopts l1 = lopts l" by auto
  obtain l2 where s2: "f_write l1 [] ?rec = (l2, [], Inr ())"
    using e1 by (simp add: f_write_def Let_def durable_def log_inv_def)
  from f_write_step(1) [OF e1 _ s2 [folded enc]] assms(3) k1
  have "log_inv (count_record l2 (length ?rec)) (butlast ess1 @ [last ess1 @ [?e]])" by (simp add: durable_def enc)
  then obtain l3 where s3: "f_sync (count_record l2 (length ?rec)) [] = (l3, [], Inr ())" using f_sync_clean by blast
  show ?thesis
    unfolding write_record_def Let_def s1 prod.case sum.case s2 s3 by (cases "Policy (lopts l) = SyncAlways") simp_all
qed

lemma writeBatch_clean:
  assumes "durable l ess N" and "N \<le> length (concat ess)"
    and "list_all (entry_fits (mxr l)) (stamp now batch)" and "next_off l + length batch \<le> 2 ^ 64"
  shows "\<exists>l' offs. writeBatch l [] now t1 t2 batch = (l', [], Inr offs)"
proof -
  have "\<exists>l' offs. write_records l [] now batch = (l', [], Inr offs)" using assms
  proof (induction batch arbitrary: l ess)
    case (Cons b batch)
    obtain ty p where b: "b = (ty, p)" by (cases b)
    from Cons.prems obtain l1 off where s1: "write_record l [] now ty p = (l1, [], Inr off)"
      using write_record_clean [of l ess N now ty p] by (auto simp: b)
    have "entry_fits (mxr l) (now, ty, p)" "next_off l < 2 ^ 64" using Cons.prems by (simp_all add: b)
    note st = write_record_step [OF Cons.prems(1,2) this s1]
    from st obtain ess1 where e1: "durable l1 ess1 N" "concat ess1 = concat ess @ [(now, ty, p)]" "lopts l1 = lopts l"
      "next_off l1 = Suc (next_off l)" by (auto simp: batch_outcome_def)
    with Cons.IH [OF e1(1)] Cons.prems s1 show ?case by (auto simp: b)
  qed simp
  then obtain l1 offs where s1: "write_records l [] now batch = (l1, [], Inr offs)" by blast
  from write_records_outcome [OF assms s1] obtain ess1 where "log_inv l1 ess1"
    by (auto simp: batch_outcome_def durable_def)
  then obtain l2 where "f_sync l1 [] = (l2, [], Inr ())" using f_sync_clean by blast
  then show ?thesis unfolding writeBatch_def s1 by (cases "Policy (lopts l)") (simp_all split: if_splits)
qed

section \<open>Properties\<close>

text \<open>C3. No acknowledged record is ever lost: in every life of a log under the batched or the
  always policy, with power cuts at any moment (between batches or after any number of the
  system calls of a batch), every record that was acknowledged is still in the log, at the
  offset that was acknowledged, with its time, type and payload.\<close>

theorem acknowledged_never_lost:
  assumes "wal_run opts l A" and "Policy opts \<noteq> SyncInterval" and "nat (MaxRecordBytes opts) < 2 ^ 32"
    and "(off, e) \<in> A"
  shows "\<exists>ess. log_inv l ess \<and> off < LatestOffset l \<and> log_records l ess ! (off - OldestOffset l) = entry_record off e"
proof -
  from wal_run_inv [OF assms(1-3)] obtain ess where inv: "log_inv l ess" and k: "keeps_all l ess A"
    by (auto simp: durable_def)
  from k assms(4) have "OldestOffset l \<le> off" "off < OldestOffset l + length (concat ess)"
    "concat ess ! (off - OldestOffset l) = e" by (auto simp: keeps_all_def)
  with inv log_inv_next [OF inv] show ?thesis
    by (intro exI [of _ ess]) (simp add: LatestOffset_def log_records_def number_entries_nth)
qed

definition sample_opts :: wal_opts where
  "sample_opts = wal_defaults \<lparr>SegmentBytes = 0, MaxRecordBytes = 0, MaxBatchBytes = 0, MaxPending = 0,
     Policy = SyncBatched, BatchWindow = 0, ReadOnly = False, RefreshInterval = 0\<rparr>"

lemma sample_opts_simps [simp]:
  "SegmentBytes sample_opts = 134217728" "MaxRecordBytes sample_opts = 16777216" "Policy sample_opts = SyncBatched"
  by (simp_all add: sample_opts_def wal_defaults_def Let_def)

definition sample_log :: wal_log where
  "sample_log = (case load sample_opts [] (\<lambda>_. 0) [] of (_, _, Inr l) \<Rightarrow> l)"

lemma sample_load: "\<exists>d. load sample_opts [] (\<lambda>_. 0) [] = (d, [], Inr sample_log)"
  by (simp add: sample_log_def load_def listSegments_def List.map_filter_simps fresh_log_def createSegment_def Let_def)

lemma sample_run: "wal_run sample_opts sample_log {}"
  using sample_load wal_run.opened by blast

lemma sample_durable: "\<exists>ess. durable sample_log ess (length (concat ess))" and sample_lopts: "lopts sample_log = sample_opts"
  using wal_run_inv [OF sample_run] by auto

lemma sample_log_eq:
  "sample_log = \<lparr>lopts = sample_opts, dir = [(segmentName 0, segment_header 0)], synced = (\<lambda>_. 0),
     segs = [\<lparr>seg_base = 0, seg_records = 0, seg_bytes = segHeaderLen\<rparr>],
     active = \<lparr>h_name = segmentName 0, h_pos = segHeaderLen, h_open = True\<rparr>,
     next_off = 0, closed = False, lastSync = 0\<rparr>"
  by (simp add: sample_log_def load_def listSegments_def List.map_filter_simps fresh_log_def createSegment_def Let_def fun_upd_idem)

lemma sample_fits:
  "list_all (entry_fits (mxr sample_log)) (stamp 5 [(1, [7])])"
  "next_off sample_log + length [(1 :: byte, [7 :: byte])] \<le> 2 ^ 64"
  by (simp_all add: sample_log_eq entry_fits_def seg_consts)

text \<open>The sample log after one acknowledged batch.\<close>

lemma sample_write:
  obtains ess l where "durable sample_log ess (length (concat ess))"
    and "writeBatch sample_log [] 5 0 0 [(1, [7])] = (l, [], Inr [0])"
proof -
  obtain ess where d: "durable sample_log ess (length (concat ess))" using sample_durable by blast
  obtain l offs where w: "writeBatch sample_log [] 5 0 0 [(1, [7])] = (l, [], Inr offs)"
    using writeBatch_clean [OF d le_refl sample_fits] by blast
  have "offs = [0]" using writeBatch_outcome(2) [OF d le_refl sample_fits w] by (auto simp: sample_log_eq)
  with that d w show thesis by blast
qed

theorem acknowledged_never_lost_witness:
  "\<exists>l ess. wal_run sample_opts l {(0, (5, 1, [7]))} \<and> log_inv l ess \<and> log_records l ess ! (0 - OldestOffset l) = entry_record 0 (5, 1, [7])"
proof -
  obtain ess l where w: "writeBatch sample_log [] 5 0 0 [(1, [7])] = (l, [], Inr [0])" by (rule sample_write)
  from wal_run.batch [OF sample_run sample_fits w] have run: "wal_run sample_opts l {(0, (5, 1, [7]))}" by simp
  from acknowledged_never_lost [OF run, of 0 "(5, 1, [7])"] run show ?thesis by auto
qed

text \<open>A batch that succeeds appends exactly its requests: the log keeps its invariant, holds the old
  entries followed by the batch with its time stamp, hands out consecutive offsets from the
  latest one, and moves the latest offset by the size of the batch; rolls in between do not
  show.\<close>

theorem writeBatch_appends:
  assumes "durable l ess N" and "N \<le> length (concat ess)"
    and "list_all (entry_fits (mxr l)) (stamp now batch)" and "next_off l + length batch \<le> 2 ^ 64"
    and "writeBatch l io now tsince tsync batch = (l', io', Inr offs)"
  shows "\<exists>ess'. log_inv l' ess' \<and> concat ess' = concat ess @ stamp now batch \<and>
     offs = [LatestOffset l..<LatestOffset l + length batch] \<and>
     LatestOffset l' = LatestOffset l + length batch \<and> OldestOffset l' = OldestOffset l"
proof -
  from writeBatch_outcome(2) [OF assms] obtain ess' where e: "log_inv l' ess'" "concat ess' = concat ess @ stamp now batch"
    "offs = [next_off l..<next_off l + length batch]" "OldestOffset l' = OldestOffset l" by (auto simp: durable_def)
  moreover have "next_off l' = next_off l + length batch"
    using log_inv_next [OF e(1)] log_inv_next [of l ess] assms(1) e(2,4) by (simp add: durable_def)
  ultimately show ?thesis by (auto simp: LatestOffset_def)
qed

theorem writeBatch_appends_witness:
  "\<exists>l' ess ess'. writeBatch sample_log [] 5 0 0 [(1, [7])] = (l', [], Inr [0]) \<and> log_inv l' ess' \<and>
     concat ess' = concat ess @ [(5, 1, [7])] \<and> LatestOffset l' = 1"
proof -
  obtain ess l where d: "durable sample_log ess (length (concat ess))"
    and w: "writeBatch sample_log [] 5 0 0 [(1, [7])] = (l, [], Inr [0])" by (rule sample_write)
  from writeBatch_appends [OF d le_refl sample_fits w] w show ?thesis by (auto simp: LatestOffset_def sample_log_eq)
qed

text \<open>C4. Opening after a power cut always succeeds, whatever the moment: from a durable log, run any part
  of a batch (any outcome of its system calls), lose power, and reopen. The log comes back
  well formed, starts at the same oldest offset, and has every old entry in its place.\<close>

theorem power_cut_reopens:
  assumes "durable l ess (length (concat ess))" and "list_all (entry_fits (mxr l)) (stamp now reqs)"
    and "next_off l + length reqs \<le> 2 ^ 64" and "writeBatch l io now t1 t2 reqs = (l', io', res)"
    and "crash (dir l') (synced l') d'"
  shows "\<exists>d'' l'' ess'. load (lopts l) d' sy' [] = (d'', [], Inr l'') \<and> log_inv l'' ess' \<and>
     OldestOffset l'' = OldestOffset l \<and> prefix (log_records l ess) (log_records l'' ess')"
proof -
  from batch_disk_safe [OF assms(1-4)] obtain es where
    "disk_safe (dir l') (synced l') (mxr l) (OldestOffset l) (concat ess @ es) (length (concat ess))" by blast
  from disk_safe_recovers [OF this assms(5) refl, of sy'] obtain d'' l'' ess' where
    "load (lopts l) d' sy' [] = (d'', [], Inr l'')" "log_inv l'' ess'" "OldestOffset l'' = OldestOffset l"
    "prefix (concat ess) (concat ess')" by auto
  moreover from this have "prefix (log_records l ess) (log_records l'' ess')"
    by (auto simp: log_records_def prefix_def number_entries_append)
  ultimately show ?thesis by blast
qed

theorem power_cut_reopens_witness:
  "\<exists>l' d'' l'' ess ess'. writeBatch sample_log [] 5 0 0 [(1, [7])] = (l', [], Inr [0]) \<and>
     load sample_opts (dir l') (\<lambda>_. 0) [] = (d'', [], Inr l'') \<and> log_inv l'' ess' \<and>
     prefix (log_records sample_log ess) (log_records l'' ess')"
proof -
  obtain ess l where d: "durable sample_log ess (length (concat ess))"
    and w: "writeBatch sample_log [] 5 0 0 [(1, [7])] = (l, [], Inr [0])" by (rule sample_write)
  have "distinct (map fst (dir l))"
    using writeBatch_outcome(2) [OF d le_refl sample_fits w] by (auto simp: durable_def log_inv_def)
  then have "crash (dir l) (synced l) (dir l)"
    by (simp add: crash_def crash_file_def take_is_prefix split: option.splits)
  from power_cut_reopens [OF d sample_fits w this, of "\<lambda>_. 0"] w show ?thesis
    unfolding sample_lopts by blast
qed

text \<open>With no I/O error every batch of acceptable requests succeeds, rolls included.\<close>

theorem writeBatch_succeeds:
  assumes "durable l ess N" and "N \<le> length (concat ess)"
    and "list_all (entry_fits (mxr l)) (stamp now batch)" and "next_off l + length batch \<le> 2 ^ 64"
  shows "\<exists>l' offs. writeBatch l [] now tsince tsync batch = (l', [], Inr offs) \<and> length offs = length batch"
  using writeBatch_clean [OF assms] writeBatch_outcome(2) [OF assms] by fastforce

theorem writeBatch_succeeds_witness:
  "\<exists>l' offs. writeBatch sample_log [] 5 0 0 [(1, [7])] = (l', [], Inr offs) \<and> length offs = 1"
  using writeBatch_succeeds [OF _ le_refl sample_fits] sample_durable by force

text \<open>Every directory that \<open>load\<close> accepts becomes a well-formed log: segments chained without a gap,
  metadata equal to what the files hold, the torn tail cut off, the cursor at the end.\<close>

theorem load_well_formed:
  assumes "load opts d sy io = (d', io', Inr l)" and "distinct (map fst d)" and "nat (MaxRecordBytes opts) < 2 ^ 32"
  shows "\<exists>ess. log_inv l ess \<and> lopts l = opts"
  using assms(1,2) refl assms(3) by (rule load_cases) auto

theorem load_well_formed_witness: "\<exists>d. load sample_opts [] (\<lambda>_. 0) [] = (d, [], Inr sample_log) \<and> (\<exists>ess. log_inv sample_log ess)"
  using sample_load load_well_formed [of sample_opts "[]" "\<lambda>_. 0" "[]" _ "[]" sample_log] by fastforce

text \<open>The log of one failed and one acknowledged batch.\<close>

definition sample_batch1 :: "wal_log \<times> io \<times> (wal_err + nat list)" where
  "sample_batch1 = writeBatch sample_log [Fail 3] 5 0 0 [(1, [7])]"

definition sample_batch2 :: "wal_log \<times> io \<times> (wal_err + nat list)" where
  "sample_batch2 = writeBatch (fst sample_batch1) [] 6 0 0 [(1, [8])]"

lemma put_le_10: "put_le 4 (10 :: u32) = [10, 0, 0, 0]"
  by code_simp

lemma get_le_torn: "(get_le [10, 0, 0, 10] :: u32) = 167772170"
  by code_simp

lemma appendRecord_small: "\<exists>r. appendRecord ts ty [b] = [10, 0, 0, 0] @ r \<and> 4 \<le> length r"
  by (simp add: appendRecord_def Let_def bodyFixedLen_def put_le_10)

lemma scan_torn_length:
  assumes "4 \<le> length r"
  shows "scanSegment (segment_header b @ [10, 0, 0, 10] @ r) 16777216 = (0, segHeaderLen)"
proof -
  let ?f = "segment_header b @ [10, 0, 0, 10] @ r"
  have "readAt ?f segHeaderLen recHeaderLen = Some ([10, 0, 0, 10] @ take 4 r)"
    using assms by (simp add: readAt_def recHeaderLen_def)
  then have "scanRecord ?f segHeaderLen (length ?f) 16777216 0 = None"
    by (simp add: scanRecord_def get_le_torn seg_consts)
  then show ?thesis unfolding scanSegment_def by (subst scan_loop.simps) simp
qed

lemma sample_batches:
  shows "snd (snd sample_batch1) = Inl ErrIO" and "snd (snd sample_batch2) = Inr [0]"
    and "dir (fst sample_batch2) = [(segmentName 0, segment_header 0 @ take 3 (appendRecord 5 1 [7]) @ appendRecord 6 1 [8])]"
  by (simp_all add: sample_batch2_def sample_batch1_def writeBatch_def write_record_def f_write_def f_sync_def
      count_record_def Let_def sample_log_eq file_of_def appendRecord_def record_body_def)

text \<open>C23. A failed write does not stop the writer: the next batch is written behind the torn bytes and
  acknowledged, and the next recovery drops it (offset 0 was acknowledged, and the reopened
  log has no record at all).\<close>

theorem failed_write_then_ack_is_lost:
  "snd (snd sample_batch1) = Inl ErrIO \<and> snd (snd sample_batch2) = Inr [0] \<and>
   (\<exists>d l. load sample_opts (dir (fst sample_batch2)) (synced (fst sample_batch2)) [] = (d, [], Inr l) \<and> LatestOffset l = 0)"
proof -
  obtain r1 where r1: "appendRecord 5 1 [7] = [10, 0, 0, 0] @ r1" using appendRecord_small by blast
  obtain r2 where r2: "appendRecord 6 1 [8] = [10, 0, 0, 0] @ r2" "4 \<le> length r2" using appendRecord_small by blast
  have d: "dir (fst sample_batch2) = [(segmentName 0, segment_header 0 @ [10, 0, 0, 10] @ [0, 0, 0] @ r2)]"
    by (simp add: sample_batches(3) r1 r2)
  have h: "readSegmentHeader (segment_header 0 @ [10, 0, 0, 10] @ [0, 0, 0] @ r2) = Inr 0"
    by (rule readSegmentHeader_app) simp
  have sc: "scanSegment (segment_header 0 @ [10, 0, 0, 10] @ [0, 0, 0] @ r2) 16777216 = (0, segHeaderLen)"
    by (rule scan_torn_length) (use r2(2) in simp)
  show ?thesis
    using h sc by (simp add: sample_batches(1,2) d load_def listSegments_def List.map_filter_simps open_last_def
        Let_def LatestOffset_def seg_end_def file_of_def)
qed

end
