(* ===== verification/Wal_Reader.thy ===== *)
theory Wal_Reader
  imports Wal_Recovery
begin

text \<open>
  Consumers and retention: \<open>internal/wal/reader.go\<close> and \<open>internal/wal/retention.go\<close>.
  A reader keeps a position, a committed position and a cursor into one open segment file;
  its committed position lives in a small checksummed file that is replaced atomically. The
  results: a reader delivers exactly the records of the log in offset order, a commit is
  all-or-nothing, and retention never removes a record a consumer still needs.

  The open file of a reader is identified by its segment: the code only reads through a
  handle whose segment is still listed, and the files of listed segments are never replaced.
\<close>

section \<open>Offset files\<close>

definition offMagic :: "byte list" where
  "offMagic = str_bytes ''LESROFF1''"

definition offset_bytes :: "nat \<Rightarrow> byte list" where
  "offset_bytes off = (let b = put_le 8 (of_nat off :: u64) in offMagic @ b @ put_le 4 (crc32c b))"

text \<open>Temporary file, write, sync, close, rename; every step may fail.\<close>

definition writeOffsetFile :: "wal_dir \<Rightarrow> string \<Rightarrow> nat \<Rightarrow> io \<Rightarrow> wal_dir \<times> io \<times> (wal_err + unit)" where
  "writeOffsetFile d path off io =
     (let b = offset_bytes off; tmp = path @ ''.tmp''; (r1, io1) = io_next io in
      case r1 of
        Fail _ \<Rightarrow> (d, io1, Inl ErrIO)
      | Done \<Rightarrow>
          (let (r2, io2) = io_next io1 in
           case r2 of
             Fail k \<Rightarrow> (put_file tmp (take (min k (length b - 1)) b) d, snd (io_next io2), Inl ErrIO)
           | Done \<Rightarrow>
               (let d2 = put_file tmp b d; (r3, io3) = io_next io2 in
                case r3 of
                  Fail _ \<Rightarrow> (d2, snd (io_next io3), Inl ErrIO)
                | Done \<Rightarrow>
                    (let (r4, io4) = io_next io3 in
                     case r4 of
                       Fail _ \<Rightarrow> (d2, io4, Inl ErrIO)
                     | Done \<Rightarrow>
                         (let (r5, io5) = io_next io4 in
                          case r5 of
                            Fail _ \<Rightarrow> (d2, io5, Inl ErrIO)
                          | Done \<Rightarrow> (put_file path b (del_file tmp d2), io5, Inr ()))))))"

definition readOffsetFile :: "wal_dir \<Rightarrow> string \<Rightarrow> io \<Rightarrow> io \<times> (wal_err + nat)" where
  "readOffsetFile d path io =
     (let (r, io1) = io_next io in
      case (r, map_of d path) of
        (_, None) \<Rightarrow> (io1, Inl ErrNotExist)
      | (Fail _, _) \<Rightarrow> (io1, Inl ErrIO)
      | (Done, Some b) \<Rightarrow>
          if length b \<noteq> 20 \<or> take 8 b \<noteq> offMagic then (io1, Inl ErrOffsetFile)
          else
            let off = take 8 (drop 8 b) in
            if crc32c off \<noteq> get_le (take 4 (drop 16 b)) then (io1, Inl ErrOffsetFile)
            else (io1, Inr (unat (get_le off :: u64))))"

section \<open>Readers\<close>

record wal_reader =
  rd_name :: string
  rd_pos :: nat
  rd_committed :: nat
  rd_open :: bool
  rd_base :: nat
  rd_off :: nat
  rd_byte :: nat

definition offset_path :: "string \<Rightarrow> string" where
  "offset_path name = name @ ''.offset''"

definition NewReader :: "wal_log \<Rightarrow> wal_dir \<Rightarrow> string \<Rightarrow> io \<Rightarrow> io \<times> (wal_err + wal_reader)" where
  "NewReader l cd name io =
     (if name = [] \<or> list_ex (\<lambda>c. c = CHR ''/'' \<or> c = CHR 0x5C) name then (io, Inl ErrConsumerName)
      else
        let (r, io1) = io_next io in
        case r of
          Fail _ \<Rightarrow> (io1, Inl ErrIO)
        | Done \<Rightarrow>
            (let (io2, res) = readOffsetFile cd (offset_path name) io1;
                 mk = (\<lambda>pos. \<lparr>rd_name = name, rd_pos = max pos (OldestOffset l), rd_committed = pos,
                            rd_open = False, rd_base = 0, rd_off = 0, rd_byte = 0\<rparr>)
             in case res of
                  Inr off \<Rightarrow> (io2, Inr (mk off))
                | Inl e \<Rightarrow> if e = ErrNotExist then (io2, Inr (mk (OldestOffset l))) else (io2, Inl e)))"

text \<open>The loop of \<open>skipTo\<close>; the last component says whether the target was reached.\<close>

function skip_loop :: "byte list \<Rightarrow> nat \<Rightarrow> nat \<Rightarrow> nat \<Rightarrow> nat \<Rightarrow> nat \<Rightarrow> nat \<times> nat \<times> bool" where
  "skip_loop f sz mx fOffset bytePos offset =
     (if fOffset < offset then
        (case scanRecord f bytePos sz mx fOffset of
           None \<Rightarrow> (fOffset, bytePos, False)
         | Some (_, nxt) \<Rightarrow> skip_loop f sz mx (Suc fOffset) nxt offset)
      else (fOffset, bytePos, True))"
  by pat_completeness auto
termination
  by (relation "measure (\<lambda>(f, sz, mx, o1, b, o2). o2 - o1)") auto

declare skip_loop.simps [simp del]

abbreviation rd_file :: "wal_log \<Rightarrow> wal_reader \<Rightarrow> byte list" where
  "rd_file l r \<equiv> file_of (dir l) (segmentName (rd_base r))"

definition skipTo :: "wal_log \<Rightarrow> wal_reader \<Rightarrow> io \<Rightarrow> nat \<Rightarrow> wal_reader \<times> io \<times> (wal_err + unit)" where
  "skipTo l r io offset =
     (let (s, io1) = io_next io in
      case s of
        Fail _ \<Rightarrow> (r, io1, Inl ErrIO)
      | Done \<Rightarrow>
          (let f = rd_file l r; (o', b', ok) = skip_loop f (length f) (mxr l) (rd_off r) (rd_byte r) offset
           in (r\<lparr>rd_off := o', rd_byte := b'\<rparr>, io1,
               if ok then Inr () else Inl (ErrCorruptScan offset (rd_base r)))))"

definition position :: "wal_log \<Rightarrow> wal_reader \<Rightarrow> io \<Rightarrow> nat \<Rightarrow> wal_reader \<times> io \<times> (wal_err + unit)" where
  "position l r io offset =
     (case segmentFor l offset of
        None \<Rightarrow> (r, io, Inl (ErrNotOnDisk offset))
      | Some seg \<Rightarrow>
          if rd_open r \<and> rd_base r = seg_base seg \<and> rd_off r \<le> offset then skipTo l r io offset
          else
            let r1 = r\<lparr>rd_open := False\<rparr>; (s, io1) = io_next io in
            case (s, map_of (dir l) (segmentName (seg_base seg))) of
              (Fail _, _) \<Rightarrow> (r1, io1, Inl ErrIO)
            | (Done, None) \<Rightarrow> (r1, io1, Inl ErrNotExist)
            | (Done, Some f) \<Rightarrow>
                (case readSegmentHeader f of
                   Inl he \<Rightarrow> (r1, io1, Inl (ErrHeader (seg_base seg) he))
                 | Inr b \<Rightarrow>
                     if b \<noteq> seg_base seg then (r1, io1, Inl (ErrBaseMismatch (seg_base seg) b))
                     else skipTo l (r1\<lparr>rd_open := True, rd_base := seg_base seg, rd_off := seg_base seg,
                                     rd_byte := segHeaderLen\<rparr>) io1 offset))"

definition Next :: "wal_log \<Rightarrow> wal_reader \<Rightarrow> io \<Rightarrow> wal_reader \<times> io \<times> (wal_err + wal_record)" where
  "Next l r io =
     (if LatestOffset l \<le> rd_pos r then (r, io, Inl ErrNoRecord)
      else case position l r io (rd_pos r) of
        (r1, io1, Inl e) \<Rightarrow> (r1, io1, Inl e)
      | (r1, io1, Inr _) \<Rightarrow>
          (let (s, io2) = io_next io1 in
           case s of
             Fail _ \<Rightarrow> (r1, io2, Inl ErrIO)
           | Done \<Rightarrow>
               (let f = rd_file l r1 in
                case scanRecord f (rd_byte r1) (length f) (mxr l) (rd_off r1) of
                  None \<Rightarrow> (r1, io2, Inl ErrNoRecord)
                | Some (rec, nxt) \<Rightarrow>
                    (r1\<lparr>rd_byte := nxt, rd_off := rd_off r1 + 1, rd_pos := rd_pos r1 + 1\<rparr>, io2, Inr rec))))"

definition ConsumerOffset :: "wal_dir \<Rightarrow> string \<Rightarrow> io \<Rightarrow> io \<times> (wal_err + nat option)" where
  "ConsumerOffset cd name io =
     (case readOffsetFile cd (offset_path name) io of
        (io1, Inr off) \<Rightarrow> (io1, Inr (Some off))
      | (io1, Inl e) \<Rightarrow> if e = ErrNotExist then (io1, Inr None) else (io1, Inl e))"

definition Commit :: "wal_dir \<Rightarrow> wal_reader \<Rightarrow> io \<Rightarrow> wal_dir \<times> wal_reader \<times> io \<times> (wal_err + unit)" where
  "Commit cd r io =
     (case writeOffsetFile cd (offset_path (rd_name r)) (rd_pos r) io of
        (cd1, io1, Inl e) \<Rightarrow> (cd1, r, io1, Inl e)
      | (cd1, io1, Inr _) \<Rightarrow> (cd1, r\<lparr>rd_committed := rd_pos r\<rparr>, io1, Inr ()))"

definition Lag :: "wal_log \<Rightarrow> wal_reader \<Rightarrow> nat" where
  "Lag l r = (if LatestOffset l \<le> rd_pos r then 0 else LatestOffset l - rd_pos r)"

definition rd_Close :: "wal_reader \<Rightarrow> wal_reader" where
  "rd_Close r = r\<lparr>rd_open := False\<rparr>"

section \<open>Retention\<close>

record retention_policy =
  MaxBytes :: int
  MaxAge :: int
  MinRetainOffset :: nat

text \<open>The time of the last record of a segment; \<open>None\<close> when the file cannot be opened.\<close>

definition segmentNewestTime :: "wal_log \<Rightarrow> seg_meta \<Rightarrow> io \<Rightarrow> io \<times> int option" where
  "segmentNewestTime l s io =
     (let (r1, io1) = io_next io in
      case (r1, map_of (dir l) (segmentName (seg_base s))) of
        (Done, Some f) \<Rightarrow>
          (let (r2, io2) = io_next io1 in
           case r2 of
             Fail _ \<Rightarrow> (io2, None)
           | Done \<Rightarrow>
               (let rs = fst (scan_records f (length f) (mxr l) segHeaderLen (seg_base s))
                in (io2, Some (if rs = [] then 0 else sint (Time (last rs))))))
      | _ \<Rightarrow> (io1, None))"

fun retain_loop :: "retention_policy \<Rightarrow> int \<Rightarrow> wal_log \<Rightarrow> io \<Rightarrow> int \<Rightarrow> seg_meta list \<Rightarrow> nat \<Rightarrow> wal_log \<times> io \<times> nat \<times> wal_err option" where
  "retain_loop p now l io tot (s # t # ss) deleted =
     (if MinRetainOffset p < seg_end s then (l, io, deleted, None)
      else
        let overSize = (0 < MaxBytes p \<and> MaxBytes p < tot);
            (io1, newest) = (if 0 < MaxAge p then segmentNewestTime l s io else (io, None));
            overAge = (case newest of Some t0 \<Rightarrow> MaxAge p < time_sub now t0 | None \<Rightarrow> False)
        in if \<not> overSize \<and> \<not> overAge then (l, io1, deleted, None)
           else (case io_next io1 of
                   (Fail _, io2) \<Rightarrow> (l, io2, deleted, Some ErrIO)
                 | (Done, io2) \<Rightarrow>
                     retain_loop p now (l\<lparr>dir := del_file (segmentName (seg_base s)) (dir l), segs := t # ss\<rparr>)
                       io2 (tot - int (seg_bytes s)) (t # ss) (deleted + 1)))"
| "retain_loop p now l io tot _ deleted = (l, io, deleted, None)"

definition Retain :: "wal_log \<Rightarrow> retention_policy \<Rightarrow> int \<Rightarrow> io \<Rightarrow> wal_log \<times> io \<times> nat \<times> wal_err option" where
  "Retain l p now io = retain_loop p now l io (sum_list (map (\<lambda>s. int (seg_bytes s)) (segs l))) (segs l) 0"

section \<open>Which segment holds an offset\<close>

lemma chained_nth:
  "chained ss \<Longrightarrow> Suc i < length ss \<Longrightarrow> seg_end (ss ! i) = seg_base (ss ! Suc i)"
proof (induction ss arbitrary: i rule: chained.induct)
  case (1 s t ss)
  then show ?case by (cases i) auto
qed auto

lemma chained_ends_sorted: "chained ss \<Longrightarrow> sorted (map seg_end ss)"
proof (induction ss rule: chained.induct)
  case (1 s t ss)
  then have "seg_end s \<le> seg_end t" by (simp add: seg_end_def)
  with 1 show ?case by auto
qed auto

lemma chained_base:
  assumes "chained ss" and "list_all2 (\<lambda>s es. seg_records s = length es) ss ess" and "i < length ss"
  shows "seg_base (ss ! i) = seg_base (hd ss) + length (concat (take i ess))"
  using assms(3)
proof (induction i)
  case 0
  then show ?case by (simp add: hd_conv_nth)
next
  case (Suc i)
  have len: "length ess = length ss" "seg_records (ss ! i) = length (ess ! i)"
    using assms(2) Suc.prems by (auto simp: list_all2_conv_all_nth)
  have "seg_base (ss ! Suc i) = seg_end (ss ! i)" using chained_nth [OF assms(1) Suc.prems] by simp
  also have "\<dots> = seg_base (hd ss) + length (concat (take i ess)) + length (ess ! i)"
    using Suc by (simp add: seg_end_def len)
  finally show ?case using Suc.prems len by (simp add: take_Suc_conv_app_nth)
qed

lemma log_inv_records: "log_inv l ess \<Longrightarrow> list_all2 (\<lambda>s es. seg_records s = length es) (segs l) ess"
  by (auto simp: log_inv_def seg_holds_def elim: list_all2_mono)

lemma segmentFor_Some:
  assumes "log_inv l ess" and "OldestOffset l \<le> off" and "off < LatestOffset l"
  obtains i where "i < length (segs l)" and "segmentFor l off = Some (segs l ! i)"
    and "seg_base (segs l ! i) \<le> off" and "off < seg_end (segs l ! i)"
proof -
  let ?ss = "segs l" and ?f = "\<lambda>i. off < seg_end (segs l ! i)"
  let ?i = "sort_Search (length ?ss) ?f"
  from assms(1) have ne: "?ss \<noteq> []" and ch: "chained ?ss" and nx: "next_off l = seg_end (last ?ss)" by (auto simp: log_inv_def)
  have mono: "?f a \<Longrightarrow> ?f b" if "a \<le> b" "b < length ?ss" for a b
    using sorted_nth_mono [OF chained_ends_sorted [OF ch], of a b] that by simp
  have least: "?i \<le> length ?ss \<and> (\<forall>k < ?i. \<not> ?f k) \<and> (?i < length ?ss \<longrightarrow> ?f ?i)"
    by (rule sort_Search_least) (use mono in blast)
  have "?f (length ?ss - 1)" using assms(3) nx ne by (simp add: LatestOffset_def last_conv_nth)
  moreover have "length ?ss - 1 < length ?ss" using ne by simp
  ultimately have i: "?i < length ?ss" using least by (meson leD le_less_linear less_le_trans)
  have "seg_base (?ss ! ?i) \<le> off"
  proof (cases ?i)
    case 0
    with assms(2) ne show ?thesis by (simp add: OldestOffset_def hd_conv_nth)
  next
    case (Suc j)
    with least have "\<not> ?f j" by simp
    with chained_nth [OF ch, of j] Suc i show ?thesis by simp
  qed
  with i least that show thesis by (simp add: segmentFor_def Let_def)
qed

lemma log_entry_nth:
  assumes "log_inv l ess" and "i < length (segs l)" and "seg_base (segs l ! i) \<le> off" and "off < seg_end (segs l ! i)"
  shows "concat ess ! (off - OldestOffset l) = ess ! i ! (off - seg_base (segs l ! i))"
    and "off - seg_base (segs l ! i) < length (ess ! i)" and "OldestOffset l \<le> off"
proof -
  let ?b = "seg_base (segs l ! i)"
  have ne: "segs l \<noteq> []" using assms(2) by auto
  have rec: "seg_records (segs l ! i) = length (ess ! i)" "length ess = length (segs l)"
    using log_inv_records [OF assms(1)] assms(2) by (auto simp: list_all2_conv_all_nth)
  show lt: "off - ?b < length (ess ! i)" using assms(3,4) rec by (simp add: seg_end_def)
  have base: "?b = OldestOffset l + length (concat (take i ess))"
    using chained_base [OF _ log_inv_records [OF assms(1)] assms(2)] assms(1) ne by (simp add: log_inv_def OldestOffset_def)
  then show "OldestOffset l \<le> off" using assms(3) by simp
  have "ess = take i ess @ ess ! i # drop (Suc i) ess" using assms(2) rec by (simp add: id_take_nth_drop)
  then have "concat ess = concat (take i ess) @ ess ! i @ concat (drop (Suc i) ess)"
    by (metis concat.simps(2) concat_append)
  moreover have "off - OldestOffset l = length (concat (take i ess)) + (off - ?b)" using base assms(3) by simp
  ultimately show "concat ess ! (off - OldestOffset l) = ess ! i ! (off - ?b)" using lt by (simp add: nth_append)
qed

section \<open>The cursor\<close>

text \<open>The cursor stands right before record \<open>rd_off\<close> of its segment, if that is still listed.\<close>

definition cursor_at :: "nat \<Rightarrow> entry list \<Rightarrow> nat \<Rightarrow> nat \<Rightarrow> bool" where
  "cursor_at base es off byte \<longleftrightarrow> base \<le> off \<and> off \<le> base + length es \<and>
     byte = segHeaderLen + length (enc_entries (take (off - base) es))"

definition rd_inv :: "wal_log \<Rightarrow> entry list list \<Rightarrow> wal_reader \<Rightarrow> bool" where
  "rd_inv l ess r \<longleftrightarrow> (rd_open r \<longrightarrow>
     (\<forall>i < length (segs l). seg_base (segs l ! i) = rd_base r \<longrightarrow> cursor_at (rd_base r) (ess ! i) (rd_off r) (rd_byte r)))"

lemma scanRecord_at_cursor:
  assumes "cursor_at base es off byte" and "off < base + length es" and "list_all (entry_fits mx) es" and "mx < 2 ^ 32"
    and "prefix (segment_header base @ enc_entries es) f"
  obtains nxt where "scanRecord f byte (length f) mx n = Some (entry_record n (es ! (off - base)), nxt)"
    and "cursor_at base es (Suc off) nxt"
proof -
  let ?k = "off - base" and ?e = "es ! (off - base)"
  from assms(5) obtain post where f: "f = segment_header base @ enc_entries es @ post" by (auto simp: prefix_def)
  have k: "?k < length es" using assms(1,2) by (auto simp: cursor_at_def)
  then have "es = take ?k es @ ?e # drop (Suc ?k) es" by (simp add: id_take_nth_drop)
  then have enc: "enc_entries es = enc_entries (take ?k es) @ enc_entry ?e @ enc_entries (drop (Suc ?k) es)"
    by (metis enc_entries_simps(2,3))
  let ?pre = "segment_header base @ enc_entries (take ?k es)" and ?post = "enc_entries (drop (Suc ?k) es) @ post"
  have f': "f = ?pre @ enc_entry ?e @ ?post" using f by (simp add: enc)
  have byte: "length ?pre = byte" using assms(1) by (simp add: cursor_at_def)
  have fit: "entry_fits mx ?e" using assms(3) k by (simp add: list_all_length)
  have "scanRecord f byte (length f) mx n = Some (entry_record n ?e, byte + length (enc_entry ?e))"
    unfolding f' by (rule scanRecord_enc [OF byte fit assms(4)]) (simp add: byte [symmetric])
  moreover have "cursor_at base es (Suc off) (byte + length (enc_entry ?e))"
    using assms(1) k by (auto simp: cursor_at_def Suc_diff_le take_Suc_conv_app_nth)
  ultimately show thesis by (rule that)
qed

lemma skip_loop_reaches:
  assumes "list_all (entry_fits mx) es" and "mx < 2 ^ 32" and "prefix (segment_header base @ enc_entries es) f"
    and "cursor_at base es off byte" and "off \<le> target" and "target \<le> base + length es"
  shows "\<exists>b. skip_loop f (length f) mx off byte target = (target, b, True) \<and> cursor_at base es target b"
  using assms(4,5)
proof (induction "target - off" arbitrary: off byte)
  case 0
  then show ?case by (simp add: skip_loop.simps [of f])
next
  case (Suc n)
  then have lt: "off < target" by simp
  with assms(6) have "off < base + length es" by simp
  then obtain nxt where s: "scanRecord f byte (length f) mx off = Some (entry_record off (es ! (off - base)), nxt)"
    and c: "cursor_at base es (Suc off) nxt"
    by (rule scanRecord_at_cursor [OF Suc.prems(1) _ assms(1-3)])
  have "n = target - Suc off" using Suc.hyps(2) by simp
  from Suc.hyps(1) [OF this c] lt obtain b where
    "skip_loop f (length f) mx (Suc off) nxt target = (target, b, True)" "cursor_at base es target b" by auto
  with s lt show ?case by (simp add: skip_loop.simps [of f "length f" mx off])
qed

section \<open>Reading\<close>

lemma log_seg_file:
  assumes "log_inv l ess" and "i < length (segs l)" and "seg_base (segs l ! i) = b"
  shows "prefix (segment_header b @ enc_entries (ess ! i)) (file_of (dir l) (segmentName b))"
    and "list_all (entry_fits (mxr l)) (ess ! i)" and "mxr l < 2 ^ 32" and "seg_end (segs l ! i) = b + length (ess ! i)"
    and "map_of (dir l) (segmentName b) = Some (file_of (dir l) (segmentName b))"
    and "readSegmentHeader (file_of (dir l) (segmentName b)) = Inr b"
proof -
  have h: "seg_holds (dir l) (mxr l) (segs l ! i) (ess ! i)" and mx: "mxr l < 2 ^ 32"
    using assms(1,2) by (auto simp: log_inv_def list_all2_conv_all_nth)
  from h assms(3) show p: "prefix (segment_header b @ enc_entries (ess ! i)) (file_of (dir l) (segmentName b))"
    and "list_all (entry_fits (mxr l)) (ess ! i)" and "seg_end (segs l ! i) = b + length (ess ! i)"
    and "map_of (dir l) (segmentName b) = Some (file_of (dir l) (segmentName b))"
    by (auto simp: seg_holds_def seg_end_def file_of_def)
  show "mxr l < 2 ^ 32" by (rule mx)
  have "b < 2 ^ 64"
    using assms chained_le_last [of "segs l" "segs l ! i"] by (auto simp: log_inv_def)
  with p show "readSegmentHeader (file_of (dir l) (segmentName b)) = Inr b"
    by (auto simp: prefix_def readSegmentHeader_app)
qed

lemma chained_distinct: "chained ss \<Longrightarrow> i < length ss \<Longrightarrow> j < length ss \<Longrightarrow> seg_base (ss ! i) = seg_base (ss ! j) \<Longrightarrow> i = j"
  using chained_sorted [of ss] by (metis length_map nth_eq_iff_index_eq nth_map strict_sorted_iff)

text \<open>With the cursor in the segment of the target at or before it, \<open>skipTo\<close> gets there.\<close>

lemma skipTo_step:
  assumes "log_inv l ess" and "i < length (segs l)" and "seg_base (segs l ! i) = rd_base r"
    and "cursor_at (rd_base r) (ess ! i) (rd_off r) (rd_byte r)" and "rd_off r \<le> off" and "off < seg_end (segs l ! i)"
    and "rd_open r" and "skipTo l r io off = (r', io', res)"
  shows "rd_inv l ess r'" and "rd_pos r' = rd_pos r" and "rd_committed r' = rd_committed r" and "rd_name r' = rd_name r"
    and "res = Inl ErrIO \<and> io \<noteq> [] \<or> res = Inr () \<and> rd_base r' = rd_base r \<and> rd_off r' = off \<and> rd_open r' \<and>
       cursor_at (rd_base r) (ess ! i) off (rd_byte r') \<and> (io = [] \<longrightarrow> io' = [])"
proof -
  note f = log_seg_file [OF assms(1-3)]
  obtain b where b: "skip_loop (rd_file l r) (length (rd_file l r)) (mxr l) (rd_off r) (rd_byte r) off = (off, b, True)"
    "cursor_at (rd_base r) (ess ! i) off b"
    using skip_loop_reaches [OF f(2,3,1) assms(4,5)] assms(6) f(4) by auto
  have r': "(r' = r \<and> res = Inl ErrIO \<and> io \<noteq> []) \<or>
     (r' = r\<lparr>rd_off := off, rd_byte := b\<rparr> \<and> res = Inr () \<and> (io = [] \<longrightarrow> io' = []))"
    using assms(8) b(1) by (cases io) (auto simp: skipTo_def Let_def split: io_res.splits)
  have "cursor_at (rd_base r) (ess ! j) o' b'" if "j < length (segs l)" "seg_base (segs l ! j) = rd_base r"
    "cursor_at (rd_base r) (ess ! i) o' b'" for j o' b'
    using that chained_distinct [of "segs l" i j] assms(1,2,3) by (auto simp: log_inv_def)
  with r' b(2) assms(4) show "rd_inv l ess r'" by (auto simp: rd_inv_def)
  from r' b(2) assms(7) show "rd_pos r' = rd_pos r" "rd_committed r' = rd_committed r" "rd_name r' = rd_name r"
    "res = Inl ErrIO \<and> io \<noteq> [] \<or> res = Inr () \<and> rd_base r' = rd_base r \<and> rd_off r' = off \<and> rd_open r' \<and>
       cursor_at (rd_base r) (ess ! i) off (rd_byte r') \<and> (io = [] \<longrightarrow> io' = [])" by auto
qed

text \<open>What positioning leaves: an I/O error, or the cursor right before the wanted record.\<close>

definition positioned :: "wal_log \<Rightarrow> entry list list \<Rightarrow> nat \<Rightarrow> io \<Rightarrow> wal_reader \<Rightarrow> wal_reader \<Rightarrow> io \<Rightarrow> wal_err + unit \<Rightarrow> bool" where
  "positioned l ess off io r r' io' res \<longleftrightarrow>
     rd_inv l ess r' \<and> rd_pos r' = rd_pos r \<and> rd_committed r' = rd_committed r \<and> rd_name r' = rd_name r \<and>
     (res = Inl ErrIO \<and> io \<noteq> [] \<or> (\<exists>i < length (segs l). res = Inr () \<and> seg_base (segs l ! i) = rd_base r' \<and>
        rd_base r' \<le> off \<and> off < seg_end (segs l ! i) \<and> rd_off r' = off \<and> rd_open r' \<and>
        cursor_at (rd_base r') (ess ! i) off (rd_byte r') \<and> (io = [] \<longrightarrow> io' = [])))"

lemma position_step:
  assumes "log_inv l ess" and "rd_inv l ess r" and "OldestOffset l \<le> off" and "off < LatestOffset l"
    and "position l r io off = (r', io', res)"
  shows "positioned l ess off io r r' io' res"
proof -
  obtain i where i: "i < length (segs l)" "segmentFor l off = Some (segs l ! i)" "seg_base (segs l ! i) \<le> off" "off < seg_end (segs l ! i)"
    by (rule segmentFor_Some [OF assms(1,3,4)])
  let ?b = "seg_base (segs l ! i)"
  let ?r1 = "r\<lparr>rd_open := True, rd_base := ?b, rd_off := ?b, rd_byte := segHeaderLen\<rparr>"
  note f = log_seg_file [OF assms(1) i(1) refl]
  show ?thesis
  proof (cases "rd_open r \<and> rd_base r = ?b \<and> rd_off r \<le> off")
    case True
    with assms(5) i(2) have s: "skipTo l r io off = (r', io', res)" by (simp add: position_def)
    have "cursor_at (rd_base r) (ess ! i) (rd_off r) (rd_byte r)" using assms(2) True i(1) by (auto simp: rd_inv_def)
    from skipTo_step [OF assms(1) i(1) _ this _ i(4) _ s] True i show ?thesis by (auto simp: positioned_def)
  next
    case False
    then have pos: "position l r io off = (case io_next io of (Fail _, io1) \<Rightarrow> (r\<lparr>rd_open := False\<rparr>, io1, Inl ErrIO)
      | (Done, io1) \<Rightarrow> skipTo l ?r1 io1 off)"
      using i(2) f(5,6) by (cases "io_next io") (auto simp: position_def Let_def split: io_res.splits)
    show ?thesis
    proof (cases "io_next io")
      case (Pair s io1)
      show ?thesis
      proof (cases s)
        case (Fail k)
        with pos Pair assms(5) have "r' = r\<lparr>rd_open := False\<rparr>" "res = Inl ErrIO" "io \<noteq> []" by (auto split: io_res.splits)
        then show ?thesis by (simp add: rd_inv_def positioned_def)
      next
        case Done
        with pos Pair assms(5) have s: "skipTo l ?r1 io1 off = (r', io', res)" by simp
        have c: "cursor_at (rd_base ?r1) (ess ! i) (rd_off ?r1) (rd_byte ?r1)" by (simp add: cursor_at_def)
        have prem: "?b = rd_base ?r1" "rd_off ?r1 \<le> off" "rd_open ?r1" using i by simp_all
        have io1: "io1 \<noteq> [] \<longrightarrow> io \<noteq> []" "io = [] \<longrightarrow> io1 = []" using Pair by auto
        note st = skipTo_step [OF assms(1) i(1) prem(1) c prem(2) i(4) prem(3) s]
        from st(5) have "res = Inl ErrIO \<and> io \<noteq> [] \<or> (\<exists>i < length (segs l). res = Inr () \<and> seg_base (segs l ! i) = rd_base r' \<and>
          rd_base r' \<le> off \<and> off < seg_end (segs l ! i) \<and> rd_off r' = off \<and> rd_open r' \<and>
          cursor_at (rd_base r') (ess ! i) off (rd_byte r') \<and> (io = [] \<longrightarrow> io' = []))"
        proof (elim disjE conjE)
          assume "res = Inr ()" "rd_base r' = rd_base ?r1" "rd_off r' = off" "rd_open r'"
            "cursor_at (rd_base ?r1) (ess ! i) off (rd_byte r')" "io1 = [] \<longrightarrow> io' = []"
          with i io1(2) show ?thesis by (intro disjI2 exI [of _ i]) simp
        qed (use io1(1) in simp)
        with st(1-4) show ?thesis by (simp add: positioned_def)
      qed
    qed
  qed
qed

lemma Next_step:
  assumes "log_inv l ess" and "rd_inv l ess r" and "OldestOffset l \<le> rd_pos r" and "rd_pos r < LatestOffset l"
    and "Next l r io = (r', io', res)"
  shows "rd_inv l ess r' \<and> rd_committed r' = rd_committed r \<and> rd_name r' = rd_name r \<and>
     (res = Inl ErrIO \<and> io \<noteq> [] \<and> rd_pos r' = rd_pos r \<or>
      res = Inr (log_records l ess ! (rd_pos r - OldestOffset l)) \<and> rd_pos r' = Suc (rd_pos r) \<and> (io = [] \<longrightarrow> io' = []))"
proof -
  obtain r1 io1 res1 where p: "position l r io (rd_pos r) = (r1, io1, res1)" by (metis prod_cases3)
  note st = position_step [OF assms(1-4) p, unfolded positioned_def]
  from st consider (err) "res1 = Inl ErrIO" "io \<noteq> []"
    | (ok) i where "i < length (segs l)" "res1 = Inr ()" "seg_base (segs l ! i) = rd_base r1" "rd_base r1 \<le> rd_pos r"
      "rd_pos r < seg_end (segs l ! i)" "rd_off r1 = rd_pos r" "rd_open r1"
      "cursor_at (rd_base r1) (ess ! i) (rd_pos r) (rd_byte r1)" "io = [] \<longrightarrow> io1 = []" by blast
  then show ?thesis
  proof cases
    case err
    with assms(4,5) p have "r' = r1" "res = Inl ErrIO" by (auto simp: Next_def)
    with err st show ?thesis by simp
  next
    case (ok i)
    note f = log_seg_file [OF assms(1) ok(1,3)]
    have lt: "rd_pos r < rd_base r1 + length (ess ! i)" using ok(5) f(4) by simp
    obtain nxt where s: "scanRecord (rd_file l r1) (rd_byte r1) (length (rd_file l r1)) (mxr l) (rd_pos r) =
        Some (entry_record (rd_pos r) (ess ! i ! (rd_pos r - rd_base r1)), nxt)"
      and c: "cursor_at (rd_base r1) (ess ! i) (Suc (rd_pos r)) nxt"
      by (rule scanRecord_at_cursor [OF ok(8) lt f(2,3,1)])
    note nth = log_entry_nth [OF assms(1) ok(1) ok(4) [folded ok(3)] ok(5)]
    have rec: "entry_record (rd_pos r) (ess ! i ! (rd_pos r - rd_base r1)) = log_records l ess ! (rd_pos r - OldestOffset l)"
      using nth(1) assms(3,4) log_inv_next [OF assms(1)]
      by (simp add: ok(3) log_records_def number_entries_nth LatestOffset_def)
    let ?r2 = "r1\<lparr>rd_byte := nxt, rd_off := Suc (rd_pos r), rd_pos := Suc (rd_pos r)\<rparr>"
    have "rd_pos r1 = rd_pos r" using st by blast
    with s assms(4) have nx: "Next l r io = (case io_next io1 of (Fail _, io2) \<Rightarrow> (r1, io2, Inl ErrIO)
      | (Done, io2) \<Rightarrow> (?r2, io2, Inr (log_records l ess ! (rd_pos r - OldestOffset l))))"
      unfolding rec by (simp add: Next_def p ok(2,6) Let_def split: prod.splits io_res.splits)
    have run: "(r' = r1 \<and> res = Inl ErrIO \<and> io \<noteq> []) \<or>
      (r' = ?r2 \<and> res = Inr (log_records l ess ! (rd_pos r - OldestOffset l)) \<and> (io = [] \<longrightarrow> io' = []))"
      using ok(9) nx assms(5) by (cases io1) (auto split: io_res.splits)
    have "rd_inv l ess (r1\<lparr>rd_byte := nxt, rd_off := Suc (rd_pos r), rd_pos := Suc (rd_pos r)\<rparr>)"
    proof -
      have "j = i" if "j < length (segs l)" "seg_base (segs l ! j) = rd_base r1" for j
        using that chained_distinct [of "segs l" j i] assms(1) ok(1,3) by (simp add: log_inv_def)
      with c show ?thesis by (fastforce simp: rd_inv_def)
    qed
    with run st show ?thesis by (elim disjE) simp_all
  qed
qed

text \<open>A consumer that reads \<open>n\<close> records.\<close>

fun read_n :: "nat \<Rightarrow> wal_log \<Rightarrow> wal_reader \<Rightarrow> wal_reader \<times> wal_record list" where
  "read_n 0 l r = (r, [])"
| "read_n (Suc n) l r =
     (case Next l r [] of
        (r1, _, Inl e) \<Rightarrow> (r1, [])
      | (r1, _, Inr rec) \<Rightarrow> (let (r2, rs) = read_n n l r1 in (r2, rec # rs)))"

lemma length_log_records: "log_inv l ess \<Longrightarrow> length (log_records l ess) = LatestOffset l - OldestOffset l"
  using log_inv_next [of l ess] by (simp add: log_records_def LatestOffset_def)

lemma read_n_records:
  assumes "log_inv l ess" and "rd_inv l ess r" and "OldestOffset l \<le> rd_pos r" and "rd_pos r + n \<le> LatestOffset l"
  shows "\<exists>r'. read_n n l r = (r', take n (drop (rd_pos r - OldestOffset l) (log_records l ess))) \<and>
     rd_pos r' = rd_pos r + n \<and> rd_inv l ess r' \<and> rd_committed r' = rd_committed r \<and> rd_name r' = rd_name r"
  using assms(2-4)
proof (induction n arbitrary: r)
  case (Suc n)
  let ?k = "rd_pos r - OldestOffset l"
  obtain r1 io1 res where nx: "Next l r [] = (r1, io1, res)" by (metis prod_cases3)
  have lt: "rd_pos r < LatestOffset l" using Suc.prems(3) by simp
  from Next_step [OF assms(1) Suc.prems(1,2) lt nx] have
    st: "res = Inr (log_records l ess ! ?k)" "rd_pos r1 = Suc (rd_pos r)" "rd_inv l ess r1"
      "rd_committed r1 = rd_committed r" "rd_name r1 = rd_name r" by auto
  have "OldestOffset l \<le> rd_pos r1" "rd_pos r1 + n \<le> LatestOffset l" using st(2) Suc.prems by simp_all
  from Suc.IH [OF st(3) this] obtain r' where r': "read_n n l r1 = (r', take n (drop (rd_pos r1 - OldestOffset l) (log_records l ess)))"
    "rd_pos r' = rd_pos r1 + n" "rd_inv l ess r'" "rd_committed r' = rd_committed r1" "rd_name r' = rd_name r1" by blast
  have "?k < length (log_records l ess)" using lt Suc.prems(2) length_log_records [OF assms(1)] by simp
  then have "drop ?k (log_records l ess) = log_records l ess ! ?k # drop (Suc ?k) (log_records l ess)"
    by (simp add: Cons_nth_drop_Suc)
  moreover have "rd_pos r1 - OldestOffset l = Suc ?k" using st(2) Suc.prems(2) by simp
  ultimately show ?case using r' st nx by simp
qed simp

section \<open>Commits\<close>

lemma readOffsetFile_bytes:
  assumes "off < 2 ^ 64" and "map_of d path = Some (offset_bytes off)"
  shows "readOffsetFile d path [] = ([], Inr off)"
  using assms by (simp add: readOffsetFile_def offset_bytes_def Let_def offMagic_def unat_of_nat_small)

lemma writeOffsetFile_cases:
  assumes "writeOffsetFile d path off io = (d', io', res)"
  shows "(\<exists>e. res = Inl e \<and> map_of d' path = map_of d path) \<or> (res = Inr () \<and> map_of d' path = Some (offset_bytes off))"
    and "n \<noteq> path \<Longrightarrow> n \<noteq> path @ ''.tmp'' \<Longrightarrow> map_of d' n = map_of d n"
  using assms by (auto simp: writeOffsetFile_def Let_def split_beta split: io_res.splits)

section \<open>Readers beside the writer\<close>

text \<open>Writing only grows the last segment and adds new ones.\<close>

definition segs_grow :: "seg_meta list \<Rightarrow> seg_meta list \<Rightarrow> bool" where
  "segs_grow ss ss' \<longleftrightarrow> length ss \<le> length ss' \<and>
     (\<forall>i < length ss. seg_base (ss' ! i) = seg_base (ss ! i) \<and> seg_records (ss ! i) \<le> seg_records (ss' ! i))"

lemma segs_grow_refl [simp]: "segs_grow ss ss"
  by (simp add: segs_grow_def)

lemma segs_grow_trans: "segs_grow a b \<Longrightarrow> segs_grow b c \<Longrightarrow> segs_grow a c"
  unfolding segs_grow_def by (metis le_trans less_le_trans)

lemma segs_grow_nonempty: "segs_grow a b \<Longrightarrow> a \<noteq> [] \<Longrightarrow> b \<noteq> []"
  by (auto simp: segs_grow_def)

lemma segs_grow_append [simp]: "segs_grow ss (ss @ ts)"
  by (simp add: segs_grow_def nth_append)

lemma segs_grow_count: "segs l \<noteq> [] \<Longrightarrow> segs_grow (segs l) (segs (count_record l n))"
  by (cases "segs l" rule: rev_cases) (auto simp: count_record_def Let_def segs_grow_def nth_append less_Suc_eq)

lemma segs_keep:
  "segs (fst (f_sync l io)) = segs l" "segs (fst (f_close l io)) = segs l" "segs (fst (f_write l io data)) = segs l"
  by (auto simp: f_sync_def f_close_def f_write_def Let_def split_beta split: io_res.splits)

lemma segs_grow_roll: "segs_grow (segs l) (segs (fst (roll l io)))"
proof -
  obtain l1 io1 r1 where s: "f_sync l io = (l1, io1, r1)" by (metis prod_cases3)
  obtain l2 io2 r2 where c: "f_close l1 io1 = (l2, io2, r2)" by (metis prod_cases3)
  obtain d sy io3 r3 where m: "createSegment (dir l2) (synced l2) (next_off l2) io2 = (d, sy, io3, r3)" by (metis prod_cases4)
  have "segs l1 = segs l" "segs l2 = segs l" using segs_keep(1) [of l io] segs_keep(2) [of l1 io1] s c by auto
  then show ?thesis unfolding roll_def s prod.case c m by (cases r1; cases r2; cases r3) simp_all
qed

lemma segs_grow_write_record:
  assumes "segs l \<noteq> []"
  shows "segs_grow (segs l) (segs (fst (write_record l io now ty p)))"
proof -
  let ?rec = "appendRecord now ty p"
  let ?c = "SegmentBytes (lopts l) < int (seg_bytes (last (segs l)) + length ?rec) \<and> 0 < seg_records (last (segs l))"
  obtain l1 io1 r1 where s1: "(if ?c then roll l io else (l, io, Inr ())) = (l1, io1, r1)" by (metis prod_cases3)
  have g1: "segs_grow (segs l) (segs l1)" using segs_grow_roll [of l io] s1 by (auto split: if_splits)
  obtain l2 io2 r2 where s2: "f_write l1 io1 ?rec = (l2, io2, r2)" by (metis prod_cases3)
  have g2: "segs l2 = segs l1" using segs_keep(3) [of l1 io1 ?rec] s2 by simp
  let ?l3 = "count_record l2 (length ?rec)"
  have g3: "segs_grow (segs l) (segs ?l3)"
  proof (rule segs_grow_trans)
    show "segs_grow (segs l) (segs l2)" using g1 g2 by simp
    then show "segs_grow (segs l2) (segs ?l3)" using assms by (intro segs_grow_count) (rule segs_grow_nonempty)
  qed
  obtain l4 io4 r4 where s4: "(if Policy (lopts l) = SyncAlways then f_sync ?l3 io2 else (?l3, io2, Inr ())) = (l4, io4, r4)"
    by (metis prod_cases3)
  have "segs l4 = segs ?l3" using segs_keep(1) [of ?l3 io2] s4 by (auto split: if_splits)
  with g1 g2 g3 show ?thesis
    unfolding write_record_def Let_def s1 prod.case s2 s4 by (cases r1; cases r2; cases r4) simp_all
qed

lemma segs_grow_writeBatch:
  assumes "segs l \<noteq> []" and "writeBatch l io now t1 t2 batch = (l', io', res)"
  shows "segs_grow (segs l) (segs l')"
proof -
  have wr: "segs_grow (segs l) (segs (fst (write_records l io now batch)))"
    using assms(1)
  proof (induction batch arbitrary: l io)
    case (Cons b batch)
    obtain ty p where b: "b = (ty, p)" by (cases b)
    obtain l1 io1 r1 where s1: "write_record l io now ty p = (l1, io1, r1)" by (metis prod_cases3)
    obtain l2 io2 r2 where s2: "write_records l1 io1 now batch = (l2, io2, r2)" by (metis prod_cases3)
    have g1: "segs_grow (segs l) (segs l1)" using segs_grow_write_record [OF Cons.prems, of io now ty p] s1 by simp
    then have "segs_grow (segs l1) (segs l2)" using Cons.IH [of l1 io1] segs_grow_nonempty Cons.prems s2 by fastforce
    with g1 s1 s2 show ?case using segs_grow_trans by (cases r1; cases r2) (auto simp: b)
  qed simp
  obtain l1 io1 r1 where s1: "write_records l io now batch = (l1, io1, r1)" by (metis prod_cases3)
  obtain l2 io2 r2 where s2: "f_sync l1 io1 = (l2, io2, r2)" by (metis prod_cases3)
  have "segs l2 = segs l1" using segs_keep(1) [of l1 io1] s2 by simp
  moreover have "l' = l1 \<or> l' = l2 \<or> l' = l2\<lparr>lastSync := t2\<rparr>"
    using assms(2) unfolding writeBatch_def s1 prod.case s2
    by (auto split: SyncPolicy.splits if_splits sum.splits)
  ultimately show ?thesis using wr s1 by auto
qed

lemma seg_slice:
  assumes "log_inv l ess" and "i < length (segs l)"
  shows "ess ! i = take (seg_records (segs l ! i)) (drop (seg_base (segs l ! i) - OldestOffset l) (concat ess))"
proof -
  have rec: "seg_records (segs l ! i) = length (ess ! i)" "length ess = length (segs l)"
    using log_inv_records [OF assms(1)] assms(2) by (auto simp: list_all2_conv_all_nth)
  have ne: "segs l \<noteq> []" using assms(2) by auto
  have base: "seg_base (segs l ! i) = OldestOffset l + length (concat (take i ess))"
    using chained_base [OF _ log_inv_records [OF assms(1)] assms(2)] assms(1) ne by (simp add: log_inv_def OldestOffset_def)
  have "ess = take i ess @ ess ! i # drop (Suc i) ess" using assms(2) rec by (simp add: id_take_nth_drop)
  then have "concat ess = concat (take i ess) @ ess ! i @ concat (drop (Suc i) ess)" by (metis concat.simps(2) concat_append)
  then show ?thesis by (simp add: base rec)
qed

lemma rd_inv_grow:
  assumes "rd_inv l ess r" and "log_inv l ess" and "log_inv l' ess'" and "segs_grow (segs l) (segs l')"
    and "prefix (concat ess) (concat ess')" and "OldestOffset l' = OldestOffset l"
    and "rd_open r \<Longrightarrow> \<exists>i < length (segs l). seg_base (segs l ! i) = rd_base r"
  shows "rd_inv l' ess' r"
  unfolding rd_inv_def
proof (intro impI allI)
  fix j assume o: "rd_open r" and j: "j < length (segs l')" "seg_base (segs l' ! j) = rd_base r"
  obtain i where i: "i < length (segs l)" "seg_base (segs l ! i) = rd_base r" using assms(7) o by blast
  have g: "i < length (segs l')" "seg_base (segs l' ! i) = seg_base (segs l ! i)" "seg_records (segs l ! i) \<le> seg_records (segs l' ! i)"
    using assms(4) i(1) by (auto simp: segs_grow_def)
  have ji: "j = i" using chained_distinct [of "segs l'" j i] assms(3) j g i by (simp add: log_inv_def)
  obtain x where x: "concat ess' = concat ess @ x" using assms(5) by (auto simp: prefix_def)
  have len: "seg_records (segs l ! i) = length (ess ! i)" using log_inv_records [OF assms(2)] i(1) by (auto simp: list_all2_conv_all_nth)
  let ?d = "seg_base (segs l ! i) - OldestOffset l"
  have sl: "ess ! i = take (length (ess ! i)) (drop ?d (concat ess))" using seg_slice [OF assms(2) i(1)] len by simp
  have "ess' ! i = take (seg_records (segs l' ! i)) (drop ?d (concat ess @ x))" using seg_slice [OF assms(3) g(1)] g(2) x assms(6) by simp
  then have "take (length (ess ! i)) (ess' ! i) = take (length (ess ! i)) (drop ?d (concat ess @ x))"
    using g(3) len by (simp add: min_absorb1 del: drop_append take_append)
  also have "\<dots> = take (length (ess ! i)) (drop ?d (concat ess))"
  proof -
    have "length (ess ! i) = min (length (drop ?d (concat ess))) (length (ess ! i))"
      using arg_cong [OF sl, of length] by (simp only: length_take)
    then have "length (ess ! i) \<le> length (drop ?d (concat ess))" by linarith
    then show ?thesis by simp
  qed
  also have "\<dots> = ess ! i" by (rule sl [symmetric])
  finally have "prefix (ess ! i) (ess' ! i)" by (metis take_is_prefix)
  moreover have "cursor_at (rd_base r) (ess ! i) (rd_off r) (rd_byte r)" using assms(1) o i by (auto simp: rd_inv_def)
  ultimately show "cursor_at (rd_base r) (ess' ! j) (rd_off r) (rd_byte r)" by (auto simp: ji cursor_at_def prefix_def)
qed

section \<open>Retention\<close>

lemma drop_oldest_inv:
  assumes "log_inv l (es # ess)" and "segs l = s # t # ss"
    and "l' = l\<lparr>dir := del_file (segmentName (seg_base s)) (dir l), segs := t # ss\<rparr>"
  shows "log_inv l' ess"
proof -
  have sorted: "sorted_wrt (<) (map seg_base (segs l))" using assms(1) chained_sorted by (auto simp: log_inv_def)
  have lt: "\<forall>u \<in> set (t # ss). seg_base u < 2 ^ 64 \<and> seg_base s < 2 ^ 64 \<and> seg_base u \<noteq> seg_base s"
    using assms(1,2) sorted chained_le_last [of "segs l"] by (fastforce simp: log_inv_def)
  then have nm: "\<forall>u \<in> set (t # ss). map_of (dir l') (segmentName (seg_base u)) = map_of (dir l) (segmentName (seg_base u))"
    using assms(3) by auto
  have "list_all2 (seg_holds (dir l) (mxr l)) (t # ss) ess" using assms(1,2) by (simp add: log_inv_def)
  moreover have "list_all2 (seg_holds (dir l') (mxr l)) (t # ss) ess = list_all2 (seg_holds (dir l) (mxr l)) (t # ss) ess"
    using nm by (intro list.rel_cong refl seg_holds_cong) auto
  ultimately have "list_all2 (seg_holds (dir l') (mxr l)) (t # ss) ess" by simp
  moreover have "seg_files (dir l') = seg_base ` set (t # ss)"
    using assms lt seg_files_del_file [of "seg_base s" "dir l"] by (auto simp: log_inv_def)
  moreover have "seg_file (dir l') (last (t # ss)) = seg_file (dir l) (last (t # ss))"
    using nm last_in_set [of "t # ss"] by (simp only: file_of_def) auto
  ultimately show ?thesis using assms by (simp add: log_inv_def distinct_del_file)
qed

lemma retain_loop_spec:
  assumes "log_inv l ess" and "segs l = ss" and "retain_loop p now l io tot ss n = (l', io', n', err)"
  shows "\<exists>k < length ss. n' = n + k \<and> segs l' = drop k ss \<and> log_inv l' (drop k ess) \<and> next_off l' = next_off l \<and>
     lopts l' = lopts l \<and> (\<forall>i < k. seg_end (ss ! i) \<le> MinRetainOffset p)"
  using assms
proof (induction p now l io tot ss n arbitrary: ess rule: retain_loop.induct)
  case (1 p now l io tot s t ss n)
  let ?l = "l\<lparr>dir := del_file (segmentName (seg_base s)) (dir l), segs := t # ss\<rparr>"
  obtain io1 newest where nw: "(if 0 < MaxAge p then segmentNewestTime l s io else (io, None)) = (io1, newest)" by fastforce
  let ?c = "\<not> (0 < MaxBytes p \<and> MaxBytes p < tot) \<and> \<not> (case newest of Some t0 \<Rightarrow> MaxAge p < time_sub now t0 | None \<Rightarrow> False)"
  from "1.prems"(1,2) obtain es ess1 where ess: "ess = es # ess1" by (cases ess) (auto simp: log_inv_def)
  consider (stop) "l' = l" "n' = n"
    | (go) io2 where "seg_end s \<le> MinRetainOffset p" "\<not> ?c" "io_next io1 = (Done, io2)"
        "retain_loop p now ?l io2 (tot - int (seg_bytes s)) (t # ss) (n + 1) = (l', io', n', err)"
    using "1.prems"(3) nw by (auto split: if_splits io_res.splits prod.splits simp: Let_def)
  then show ?case
  proof cases
    case stop
    with "1.prems" show ?thesis by (intro exI [of _ 0]) simp
  next
    case (go io2)
    have inv: "log_inv ?l ess1" by (rule drop_oldest_inv [OF "1.prems"(1) [unfolded ess] "1.prems"(2) refl])
    have "\<exists>k < length (t # ss). n' = n + 1 + k \<and> segs l' = drop k (t # ss) \<and> log_inv l' (drop k ess1) \<and> next_off l' = next_off ?l \<and>
       lopts l' = lopts ?l \<and> (\<forall>i < k. seg_end ((t # ss) ! i) \<le> MinRetainOffset p)"
      by (rule "1.IH") (use go nw inv in auto)
    then obtain k where k: "k < length (t # ss)" "n' = n + 1 + k" "segs l' = drop k (t # ss)" "log_inv l' (drop k ess1)"
      "next_off l' = next_off l" "lopts l' = lopts l" "\<forall>i < k. seg_end ((t # ss) ! i) \<le> MinRetainOffset p" by auto
    with go(1) show ?thesis by (intro exI [of _ "Suc k"]) (auto simp: ess nth_Cons split: nat.splits)
  qed
qed (auto simp: log_inv_def)

section \<open>Properties\<close>

text \<open>C19. A reader delivers the log: from its position, reading as many records as its lag yields exactly the
  records of the log from there on, in offset order, each once, across segment boundaries; it
  then stands at the head.\<close>

theorem reader_delivers:
  assumes "log_inv l ess" and "rd_inv l ess r" and "OldestOffset l \<le> rd_pos r" and "rd_pos r \<le> LatestOffset l"
  shows "\<exists>r'. read_n (Lag l r) l r = (r', drop (rd_pos r - OldestOffset l) (log_records l ess)) \<and>
     rd_pos r' = LatestOffset l \<and> Next l r' [] = (r', [], Inl ErrNoRecord)"
proof -
  have lag: "Lag l r = LatestOffset l - rd_pos r" by (simp add: Lag_def)
  with assms(4) have "rd_pos r + Lag l r \<le> LatestOffset l" by simp
  from read_n_records [OF assms(1-3) this] obtain r' where
    r': "read_n (Lag l r) l r = (r', take (Lag l r) (drop (rd_pos r - OldestOffset l) (log_records l ess)))"
    "rd_pos r' = rd_pos r + Lag l r" by blast
  have "length (drop (rd_pos r - OldestOffset l) (log_records l ess)) = Lag l r"
    using assms(3,4) length_log_records [OF assms(1)] lag by simp
  with r' assms(4) lag show ?thesis by (auto simp: Next_def)
qed

definition sample_reader :: wal_reader where
  "sample_reader = \<lparr>rd_name = ''pipeline'', rd_pos = 0, rd_committed = 0, rd_open = False, rd_base = 0, rd_off = 0, rd_byte = 0\<rparr>"

lemma sample_after_write:
  obtains l ess where "log_inv l ess" and "concat ess = [(5, 1, [7])]" and "OldestOffset l = 0" and "LatestOffset l = 1"
    and "writeBatch sample_log [] 5 0 0 [(1, [7])] = (l, [], Inr [0])" and "lopts l = sample_opts"
proof -
  obtain ess0 l where d: "durable sample_log ess0 (length (concat ess0))"
    and w: "writeBatch sample_log [] 5 0 0 [(1, [7])] = (l, [], Inr [0])" by (rule sample_write)
  have inv0: "log_inv sample_log ess0" using d by (simp add: durable_def)
  have "concat ess0 = []" using log_inv_next [OF inv0] by (simp add: sample_log_eq OldestOffset_def)
  moreover from writeBatch_outcome [OF d le_refl sample_fits w] obtain ess where
    "log_inv l ess" "concat ess = concat ess0 @ [(5, 1, [7])]" "OldestOffset l = 0" "lopts l = sample_opts"
    by (auto simp: durable_def OldestOffset_def sample_log_eq)
  moreover from this have "LatestOffset l = 1" using log_inv_next [of l ess] \<open>concat ess0 = []\<close> by (simp add: LatestOffset_def)
  ultimately show thesis using that w by simp
qed

theorem reader_delivers_witness:
  "\<exists>l r'. read_n 1 l sample_reader = (r', [entry_record 0 (5, 1, [7])]) \<and> rd_pos r' = 1"
proof -
  obtain l ess where l: "log_inv l ess" "concat ess = [(5, 1, [7])]" "OldestOffset l = 0" "LatestOffset l = 1"
    by (rule sample_after_write)
  then have "rd_inv l ess sample_reader" "Lag l sample_reader = 1" by (simp_all add: rd_inv_def sample_reader_def Lag_def)
  with reader_delivers [OF l(1), of sample_reader] l show ?thesis
    by (auto simp: sample_reader_def log_records_def)
qed

text \<open>Readers and the writer do not disturb each other: after a batch, the reader's open cursor is still
  right, the records it could read before are unchanged, and the new ones follow them.\<close>

theorem reader_survives_batch:
  assumes "durable l ess N" and "N \<le> length (concat ess)" and "list_all (entry_fits (mxr l)) (stamp now batch)"
    and "next_off l + length batch \<le> 2 ^ 64" and "writeBatch l io now tsince tsync batch = (l', io', Inr offs)"
    and "rd_inv l ess r" and "rd_open r \<longrightarrow> rd_base r \<in> seg_base ` set (segs l)"
  shows "\<exists>ess'. log_inv l' ess' \<and> rd_inv l' ess' r \<and>
     log_records l' ess' = log_records l ess @ number_entries (LatestOffset l) (stamp now batch)"
proof -
  have inv: "log_inv l ess" using assms(1) by (simp add: durable_def)
  from writeBatch_outcome(2) [OF assms(1-5)] obtain ess' where e: "log_inv l' ess'" "concat ess' = concat ess @ stamp now batch"
    "OldestOffset l' = OldestOffset l" by (auto simp: durable_def)
  have "segs l \<noteq> []" using inv by (simp add: log_inv_def)
  then have g: "segs_grow (segs l) (segs l')" using assms(5) by (rule segs_grow_writeBatch)
  have "rd_open r \<Longrightarrow> \<exists>i < length (segs l). seg_base (segs l ! i) = rd_base r"
    using assms(7) by (auto simp: in_set_conv_nth)
  then have "rd_inv l' ess' r" using e by (intro rd_inv_grow [OF assms(6) inv e(1) g]) auto
  moreover have "log_records l' ess' = log_records l ess @ number_entries (LatestOffset l) (stamp now batch)"
    using log_inv_next [OF inv] by (simp add: log_records_def e number_entries_append LatestOffset_def)
  ultimately show ?thesis using e(1) by blast
qed

theorem reader_survives_batch_witness:
  "\<exists>l' ess'. writeBatch sample_log [] 5 0 0 [(1, [7])] = (l', [], Inr [0]) \<and> log_inv l' ess' \<and> rd_inv l' ess' sample_reader"
proof -
  obtain ess l where d: "durable sample_log ess (length (concat ess))"
    and w: "writeBatch sample_log [] 5 0 0 [(1, [7])] = (l, [], Inr [0])" by (rule sample_write)
  from reader_survives_batch [OF d le_refl sample_fits w, of sample_reader] w show ?thesis
    by (auto simp: rd_inv_def sample_reader_def)
qed

text \<open>A commit is all or nothing: whatever its system calls do, afterwards the consumer resumes either
  from the old committed offset (the commit returned an error) or from the new one (it
  succeeded), and no other consumer's offset changes.\<close>

theorem Commit_atomic:
  assumes "rd_pos r < 2 ^ 64" and "Commit cd r io = (cd', r', io', res)"
  shows "(case res of
       Inr _ \<Rightarrow> ConsumerOffset cd' (rd_name r) [] = ([], Inr (Some (rd_pos r))) \<and> rd_committed r' = rd_pos r
     | Inl _ \<Rightarrow> ConsumerOffset cd' (rd_name r) [] = ConsumerOffset cd (rd_name r) [] \<and> r' = r) \<and>
     (\<forall>name. name \<noteq> rd_name r \<longrightarrow> offset_path name \<noteq> offset_path (rd_name r) @ ''.tmp'' \<longrightarrow>
        ConsumerOffset cd' name [] = ConsumerOffset cd name [])"
proof -
  obtain cd1 io1 res1 where w: "writeOffsetFile cd (offset_path (rd_name r)) (rd_pos r) io = (cd1, io1, res1)" by (metis prod_cases3)
  note wc = writeOffsetFile_cases [OF w]
  from assms(2) w have cd: "cd' = cd1" by (cases res1) (auto simp: Commit_def)
  have eq: "ConsumerOffset cd' n [] = ConsumerOffset cd n []" if "map_of cd1 (offset_path n) = map_of cd (offset_path n)" for n
    using that by (simp add: ConsumerOffset_def readOffsetFile_def cd)
  have "case res of Inr _ \<Rightarrow> ConsumerOffset cd' (rd_name r) [] = ([], Inr (Some (rd_pos r))) \<and> rd_committed r' = rd_pos r
     | Inl _ \<Rightarrow> ConsumerOffset cd' (rd_name r) [] = ConsumerOffset cd (rd_name r) [] \<and> r' = r"
  proof (cases res1)
    case (Inl e)
    with assms(2) w have "res = Inl e" "r' = r" by (auto simp: Commit_def)
    with wc(1) Inl eq show ?thesis by auto
  next
    case (Inr u)
    with assms(2) w have "res = Inr ()" "rd_committed r' = rd_pos r" by (auto simp: Commit_def)
    with wc(1) Inr readOffsetFile_bytes [OF assms(1), of cd1 "offset_path (rd_name r)"] show ?thesis
      by (simp add: ConsumerOffset_def cd)
  qed
  moreover have "ConsumerOffset cd' name [] = ConsumerOffset cd name []"
    if "name \<noteq> rd_name r" "offset_path name \<noteq> offset_path (rd_name r) @ ''.tmp''" for name
    using that by (intro eq wc(2)) (simp_all add: offset_path_def)
  ultimately show ?thesis by blast
qed

theorem Commit_atomic_witness:
  "\<exists>cd' r' io'. Commit [] (sample_reader\<lparr>rd_pos := 9\<rparr>) [] = (cd', r', io', Inr ()) \<and>
     ConsumerOffset cd' ''pipeline'' [] = ([], Inr (Some 9))"
proof -
  let ?r = "sample_reader\<lparr>rd_pos := 9\<rparr>"
  obtain cd' r' io' where c: "Commit [] ?r [] = (cd', r', io', Inr ())"
    by (simp add: Commit_def writeOffsetFile_def Let_def)
  from Commit_atomic [OF _ c] c show ?thesis by (simp add: sample_reader_def)
qed

text \<open>C18. Retention is safe: it removes whole segments from the front, never the active one, only such whose
  records are all below the offset to retain, and leaves a well-formed log with the remaining
  records unchanged.\<close>

theorem Retain_safe:
  assumes "log_inv l ess" and "Retain l p now io = (l', io', n, err)"
  shows "n < length (segs l) \<and> segs l' = drop n (segs l) \<and> log_inv l' (drop n ess) \<and> LatestOffset l' = LatestOffset l \<and>
     OldestOffset l' \<le> max (OldestOffset l) (MinRetainOffset p) \<and>
     log_records l' (drop n ess) = drop (OldestOffset l' - OldestOffset l) (log_records l ess)"
proof -
  from retain_loop_spec [OF assms(1) refl assms(2) [unfolded Retain_def]] have
    k: "n < length (segs l)" "segs l' = drop n (segs l)" "log_inv l' (drop n ess)" "next_off l' = next_off l"
    "\<forall>i < n. seg_end (segs l ! i) \<le> MinRetainOffset p" by auto
  have ch: "chained (segs l)" using assms(1) by (simp add: log_inv_def)
  have old: "OldestOffset l' = seg_base (segs l ! n)" using k(1,2) by (simp add: OldestOffset_def hd_drop_conv_nth)
  have ne: "segs l \<noteq> []" using k(1) by auto
  have base: "seg_base (segs l ! n) = OldestOffset l + length (concat (take n ess))"
    using chained_base [OF ch log_inv_records [OF assms(1)] k(1)] ne by (simp add: OldestOffset_def)
  have "OldestOffset l' \<le> max (OldestOffset l) (MinRetainOffset p)"
  proof (cases n)
    case 0
    with old ne show ?thesis by (simp add: OldestOffset_def hd_conv_nth)
  next
    case (Suc m)
    with chained_nth [OF ch, of m] k(1,5) old show ?thesis by (metis lessI max.coboundedI2)
  qed
  moreover have "concat ess = concat (take n ess) @ concat (drop n ess)" by (metis append_take_drop_id concat_append)
  then have "log_records l' (drop n ess) = drop (OldestOffset l' - OldestOffset l) (log_records l ess)"
    by (simp add: log_records_def old base number_entries_append)
  ultimately show ?thesis using k by (simp add: LatestOffset_def)
qed

theorem Retain_safe_witness:
  "\<exists>l' io' n err. Retain sample_log \<lparr>MaxBytes = 1, MaxAge = 0, MinRetainOffset = 100\<rparr> 0 [] = (l', io', n, err) \<and> n = 0 \<and>
     LatestOffset l' = LatestOffset sample_log"
proof -
  obtain ess where "log_inv sample_log ess" using sample_durable by (auto simp: durable_def)
  moreover obtain l' io' n err where r: "Retain sample_log \<lparr>MaxBytes = 1, MaxAge = 0, MinRetainOffset = 100\<rparr> 0 [] = (l', io', n, err)"
    by (metis prod_cases4)
  ultimately show ?thesis using Retain_safe [OF _ r] by (auto simp: sample_log_eq)
qed

end
