(* ===== verification/Cache.thy ===== *)
theory Cache
  imports Main
begin

text \<open>
  The byte-bounded LRU of \<open>internal/cache/lru.go\<close>. The doubly linked list is a list of
  elements with identities (front = most recent) and \<open>items\<close> maps keys to identities, as
  the code keeps pointers. The results: the index and the list stay in step, the byte count
  is the sum of the entries and never exceeds the bound, an insertion evicts exactly the
  least recent entries that no longer fit, and a fresh entry is returned until it expires.
  The locale \<open>read_through\<close> states what a caching client may rely on.
\<close>

section \<open>State and operations\<close>

record 'v cache_entry =
  ce_key :: string
  ce_val :: 'v
  ce_bytes :: int
  ce_expires :: int

record 'v lru =
  maxBytes :: int
  curBytes :: int
  ttl :: int
  ll :: "(nat \<times> 'v cache_entry) list"
  items :: "string \<Rightarrow> nat option"
  fresh_id :: nat
  hits :: nat
  misses :: nat

definition lru_New :: "int \<Rightarrow> int \<Rightarrow> 'v lru" where
  "lru_New mx t = \<lparr>maxBytes = (if mx \<le> 0 then 2 ^ 20 else mx), curBytes = 0, ttl = t, ll = [],
     items = (\<lambda>_. None), fresh_id = 0, hits = 0, misses = 0\<rparr>"

text \<open>Unlink the element, forget its key, give its bytes back.\<close>

definition removeElement :: "'v lru \<Rightarrow> nat \<Rightarrow> 'v lru" where
  "removeElement c el =
     (case map_of (ll c) el of
        None \<Rightarrow> c
      | Some en \<Rightarrow> c\<lparr>ll := filter (\<lambda>x. fst x \<noteq> el) (ll c), items := (items c)(ce_key en := None),
                     curBytes := curBytes c - ce_bytes en\<rparr>)"

definition moveToFront :: "nat \<Rightarrow> (nat \<times> 'v cache_entry) list \<Rightarrow> (nat \<times> 'v cache_entry) list" where
  "moveToFront el xs =
     (case map_of xs el of None \<Rightarrow> xs | Some en \<Rightarrow> (el, en) # filter (\<lambda>x. fst x \<noteq> el) xs)"

definition lru_Get :: "'v lru \<Rightarrow> string \<Rightarrow> int \<Rightarrow> 'v lru \<times> 'v option" where
  "lru_Get c key now =
     (case items c key of
        None \<Rightarrow> (c\<lparr>misses := misses c + 1\<rparr>, None)
      | Some el \<Rightarrow>
          (case map_of (ll c) el of
             None \<Rightarrow> (c, None)
           | Some en \<Rightarrow>
               if 0 < ttl c \<and> ce_expires en < now then ((removeElement c el)\<lparr>misses := misses c + 1\<rparr>, None)
               else (c\<lparr>ll := moveToFront el (ll c), hits := hits c + 1\<rparr>, Some (ce_val en))))"

text \<open>The eviction loop of \<open>Set\<close>.\<close>

lemma removeElement_shrinks:
  "xs = ll c \<Longrightarrow> xs \<noteq> [] \<Longrightarrow> length (ll (removeElement c (fst (last xs)))) < length xs"
proof -
  assume xs: "xs = ll c" "xs \<noteq> []"
  then have "last xs \<in> set (ll c)" by simp
  then obtain en where "map_of (ll c) (fst (last xs)) = Some en"
    by (metis map_of_eq_None_iff image_eqI option.exhaust)
  moreover have "length (filter (\<lambda>x. fst x \<noteq> fst (last xs)) (ll c)) < length (ll c)"
    using \<open>last xs \<in> set (ll c)\<close> by (intro length_filter_less) auto
  ultimately show ?thesis using xs by (simp add: removeElement_def)
qed

function evict :: "'v lru \<Rightarrow> 'v lru" where
  "evict c =
     (if maxBytes c < curBytes c \<and> ll c \<noteq> [] then evict (removeElement c (fst (last (ll c)))) else c)"
  by pat_completeness auto
termination
  by (relation "measure (\<lambda>c. length (ll c))") (auto intro: removeElement_shrinks)

declare evict.simps [simp del]

definition lru_Set :: "'v lru \<Rightarrow> string \<Rightarrow> 'v \<Rightarrow> int \<Rightarrow> int \<Rightarrow> 'v lru" where
  "lru_Set c key val bytes now =
     (let b = (if bytes \<le> 0 then 1 else bytes) in
      if maxBytes c < b then c
      else
        let c1 = (case items c key of Some el \<Rightarrow> removeElement c el | None \<Rightarrow> c);
            en = \<lparr>ce_key = key, ce_val = val, ce_bytes = b, ce_expires = now + ttl c\<rparr>;
            el = fresh_id c1
        in evict (c1\<lparr>ll := (el, en) # ll c1, items := (items c1)(key \<mapsto> el), fresh_id := el + 1,
                    curBytes := curBytes c1 + b\<rparr>))"

definition lru_Delete :: "'v lru \<Rightarrow> string \<Rightarrow> 'v lru" where
  "lru_Delete c key = (case items c key of Some el \<Rightarrow> removeElement c el | None \<Rightarrow> c)"

definition lru_Stats :: "'v lru \<Rightarrow> nat \<times> nat \<times> int" where
  "lru_Stats c = (hits c, misses c, curBytes c)"

section \<open>Invariant\<close>

definition bytes_of :: "(nat \<times> 'v cache_entry) list \<Rightarrow> int" where
  "bytes_of xs = sum_list (map (\<lambda>x. ce_bytes (snd x)) xs)"

text \<open>The index and the list agree, and the byte count is exact.\<close>

definition lru_ok :: "'v lru \<Rightarrow> bool" where
  "lru_ok c \<longleftrightarrow> distinct (map fst (ll c)) \<and> distinct (map (\<lambda>x. ce_key (snd x)) (ll c)) \<and>
     (\<forall>x \<in> set (ll c). items c (ce_key (snd x)) = Some (fst x) \<and> fst x < fresh_id c \<and> 1 \<le> ce_bytes (snd x)) \<and>
     (\<forall>k el. items c k = Some el \<longrightarrow> (\<exists>en. (el, en) \<in> set (ll c) \<and> ce_key en = k)) \<and>
     curBytes c = bytes_of (ll c)"

definition lru_inv :: "'v lru \<Rightarrow> bool" where
  "lru_inv c \<longleftrightarrow> lru_ok c \<and> curBytes c \<le> maxBytes c \<and> 0 < maxBytes c"

lemma lru_okD:
  assumes "lru_ok c"
  shows "distinct (map fst (ll c))" and "distinct (map (\<lambda>x. ce_key (snd x)) (ll c))"
    and "x \<in> set (ll c) \<Longrightarrow> items c (ce_key (snd x)) = Some (fst x)"
    and "x \<in> set (ll c) \<Longrightarrow> fst x < fresh_id c" and "x \<in> set (ll c) \<Longrightarrow> 1 \<le> ce_bytes (snd x)"
    and "items c k = Some el \<Longrightarrow> \<exists>en. (el, en) \<in> set (ll c) \<and> ce_key en = k"
    and "curBytes c = bytes_of (ll c)"
  using assms by (auto simp: lru_ok_def)

lemma lru_ok_find:
  assumes "lru_ok c" and "items c k = Some el"
  obtains en where "map_of (ll c) el = Some en" and "ce_key en = k" and "(el, en) \<in> set (ll c)"
  using lru_okD(6) [OF assms] lru_okD(1) [OF assms(1)] that by (auto simp: map_of_eq_Some_iff)

lemma bytes_of_simps [simp]: "bytes_of [] = 0" "bytes_of (x # xs) = ce_bytes (snd x) + bytes_of xs"
  "bytes_of (xs @ ys) = bytes_of xs + bytes_of ys"
  by (simp_all add: bytes_of_def)

lemma filter_id: "distinct (map fst xs) \<Longrightarrow> xs = as @ (el, en) # bs \<Longrightarrow> filter (\<lambda>x. fst x \<noteq> el) xs = as @ bs"
proof -
  assume d: "distinct (map fst xs)" and xs: "xs = as @ (el, en) # bs"
  then have "el \<notin> fst ` set as" "el \<notin> fst ` set bs" by auto
  then have "\<forall>x \<in> set as. fst x \<noteq> el" "\<forall>x \<in> set bs. fst x \<noteq> el" by (metis image_eqI)+
  then show ?thesis by (simp add: xs)
qed

lemma removeElement_split:
  assumes "lru_ok c" and "ll c = as @ (el, en) # bs"
  shows "removeElement c el = c\<lparr>ll := as @ bs, items := (items c)(ce_key en := None), curBytes := curBytes c - ce_bytes en\<rparr>"
    and "lru_ok (removeElement c el)"
proof -
  note ok = lru_okD [OF assms(1)]
  have m: "map_of (ll c) el = Some en" using ok(1) assms(2) by (intro map_of_is_SomeI) simp_all
  have f: "filter (\<lambda>x. fst x \<noteq> el) (ll c) = as @ bs" using filter_id [OF ok(1) assms(2)] .
  show r: "removeElement c el = c\<lparr>ll := as @ bs, items := (items c)(ce_key en := None), curBytes := curBytes c - ce_bytes en\<rparr>"
    by (simp add: removeElement_def m f)
  have k: "ce_key (snd x) \<noteq> ce_key en" if "x \<in> set (as @ bs)" for x
    using ok(2) assms(2) that by (auto simp: image_iff)
  have mem: "x \<in> set (ll c)" if "x \<in> set (as @ bs)" for x using that assms(2) by auto
  have "\<exists>e. (i, e) \<in> set (as @ bs) \<and> ce_key e = k" if "items c k = Some i" "k \<noteq> ce_key en" for k i
    using ok(6) [OF that(1)] assms(2) that(2) by auto
  then show "lru_ok (removeElement c el)"
    unfolding r lru_ok_def using ok(1,2,7) assms(2) k mem ok(3-5) by auto
qed

lemma removeElement_ok: "lru_ok c \<Longrightarrow> lru_ok (removeElement c el)"
proof (cases "map_of (ll c) el")
  case None
  assume "lru_ok c"
  with None show ?thesis by (simp add: removeElement_def)
next
  case (Some en)
  assume ok: "lru_ok c"
  from Some have "(el, en) \<in> set (ll c)" by (rule map_of_SomeD)
  then obtain as bs where "ll c = as @ (el, en) # bs" by (meson split_list)
  with ok show ?thesis by (rule removeElement_split)
qed

lemma removeElement_keeps [simp]: "maxBytes (removeElement c el) = maxBytes c" "ttl (removeElement c el) = ttl c"
  "fresh_id (removeElement c el) = fresh_id c"
  by (simp_all add: removeElement_def split: option.splits)

text \<open>What eviction leaves: the longest prefix of the recency list that fits.\<close>

lemma evict_spec:
  assumes "lru_ok c"
  shows "lru_ok (evict c) \<and> maxBytes (evict c) = maxBytes c \<and> ttl (evict c) = ttl c \<and>
     (0 \<le> maxBytes c \<longrightarrow> curBytes (evict c) \<le> maxBytes c) \<and>
     (\<exists>k \<le> length (ll c). ll (evict c) = take k (ll c) \<and>
        (\<forall>j. k < j \<longrightarrow> j \<le> length (ll c) \<longrightarrow> maxBytes c < bytes_of (take j (ll c))))"
  using assms
proof (induction c rule: evict.induct)
  case (1 c)
  show ?case
  proof (cases "maxBytes c < curBytes c \<and> ll c \<noteq> []")
    case False
    then have e: "evict c = c" by (subst evict.simps) (rule if_not_P)
    have "ll c = [] \<longrightarrow> curBytes c = 0" using lru_okD(7) [OF "1.prems"] by simp
    with False have "0 \<le> maxBytes c \<longrightarrow> curBytes c \<le> maxBytes c" by auto
    with "1.prems" show ?thesis unfolding e by (intro conjI exI [of _ "length (ll c)"]) auto
  next
    case True
    obtain as el en where split: "ll c = as @ [(el, en)]" using True by (metis prod.collapse rev_exhaust)
    let ?c = "removeElement c el"
    note r = removeElement_split [OF "1.prems", of as el en "[]", simplified, OF split]
    have e: "evict c = evict ?c" using True split by (simp add: evict.simps [of c])
    have l: "ll ?c = as" by (simp add: r(1))
    from "1.IH" [OF True] r(2) split obtain k where ih: "lru_ok (evict ?c)" "maxBytes (evict ?c) = maxBytes c" "ttl (evict ?c) = ttl c"
      "0 \<le> maxBytes c \<longrightarrow> curBytes (evict ?c) \<le> maxBytes c" "k \<le> length as" "ll (evict ?c) = take k as"
      "\<forall>j. k < j \<longrightarrow> j \<le> length as \<longrightarrow> maxBytes c < bytes_of (take j as)" by (auto simp: l)
    have "maxBytes c < bytes_of (take j (ll c))" if "k < j" "j \<le> length (ll c)" for j
    proof (cases "j \<le> length as")
      case True
      with ih(7) that show ?thesis by (simp add: split)
    next
      case False
      with that have "take j (ll c) = ll c" by (simp add: split)
      with True lru_okD(7) [OF "1.prems"] show ?thesis by simp
    qed
    with ih show ?thesis unfolding e by (intro conjI exI [of _ k]) (auto simp: split)
  qed
qed

section \<open>Every operation keeps the invariant\<close>

lemma removeElement_inv: "lru_inv c \<Longrightarrow> lru_inv (removeElement c el)"
proof -
  assume inv: "lru_inv c"
  then have ok: "lru_ok c" by (simp add: lru_inv_def)
  have "curBytes (removeElement c el) \<le> curBytes c"
  proof (cases "map_of (ll c) el")
    case (Some en)
    from map_of_SomeD [OF this] have "1 \<le> ce_bytes en" using lru_okD(5) [OF ok] by fastforce
    with Some show ?thesis by (simp add: removeElement_def)
  qed (simp add: removeElement_def)
  with inv removeElement_ok [OF ok, of el] show ?thesis by (simp add: lru_inv_def)
qed

lemma moveToFront_ok:
  assumes "lru_ok c" and "items c k = Some el"
  shows "lru_ok (c\<lparr>ll := moveToFront el (ll c), hits := h\<rparr>)"
    and "set (moveToFront el (ll c)) = set (ll c)"
proof -
  obtain en where en: "map_of (ll c) el = Some en" "(el, en) \<in> set (ll c)" by (rule lru_ok_find [OF assms])
  then obtain as bs where split: "ll c = as @ (el, en) # bs" by (meson split_list)
  note ok = lru_okD [OF assms(1)]
  have m: "moveToFront el (ll c) = (el, en) # as @ bs"
    using en filter_id [OF ok(1) split] by (simp add: moveToFront_def)
  show s: "set (moveToFront el (ll c)) = set (ll c)" unfolding m by (auto simp: split)
  have "bytes_of (moveToFront el (ll c)) = bytes_of (ll c)" unfolding m by (simp add: split)
  moreover have "distinct (map fst (moveToFront el (ll c)))" "distinct (map (\<lambda>x. ce_key (snd x)) (moveToFront el (ll c)))"
    using ok(1,2) unfolding m by (auto simp: split)
  ultimately show "lru_ok (c\<lparr>ll := moveToFront el (ll c), hits := h\<rparr>)"
    using assms(1) s by (simp add: lru_ok_def)
qed

lemma lru_Get_inv:
  assumes "lru_inv c" and "lru_Get c k now = (c', res)"
  shows "lru_inv c'"
proof (cases "items c k")
  case None
  with assms(2) have "c' = c\<lparr>misses := misses c + 1\<rparr>" by (simp add: lru_Get_def)
  with assms(1) show ?thesis by (simp add: lru_inv_def lru_ok_def)
next
  case (Some el)
  have ok: "lru_ok c" using assms(1) by (simp add: lru_inv_def)
  obtain en where en: "map_of (ll c) el = Some en" by (rule lru_ok_find [OF ok Some])
  have "lru_inv ((removeElement c el)\<lparr>misses := m\<rparr>)" for m
    using removeElement_inv [OF assms(1), of el] by (simp add: lru_inv_def lru_ok_def)
  moreover have "lru_inv (c\<lparr>ll := moveToFront el (ll c), hits := h\<rparr>)" for h
    using moveToFront_ok(1) [OF ok Some, of h] assms(1) by (simp add: lru_inv_def)
  ultimately show ?thesis using assms(2) Some en by (auto simp: lru_Get_def split: if_splits)
qed

text \<open>The recency list an insertion starts its eviction from.\<close>

definition set_list :: "'v lru \<Rightarrow> string \<Rightarrow> 'v \<Rightarrow> int \<Rightarrow> int \<Rightarrow> (nat \<times> 'v cache_entry) list" where
  "set_list c key val b now =
     (fresh_id c, \<lparr>ce_key = key, ce_val = val, ce_bytes = b, ce_expires = now + ttl c\<rparr>) # filter (\<lambda>x. ce_key (snd x) \<noteq> key) (ll c)"

lemma lru_Delete_list:
  assumes "lru_ok c"
  shows "ll (lru_Delete c key) = filter (\<lambda>x. ce_key (snd x) \<noteq> key) (ll c)" and "lru_ok (lru_Delete c key)"
    and "items (lru_Delete c key) = (items c)(key := None)" and "maxBytes (lru_Delete c key) = maxBytes c"
    and "fresh_id (lru_Delete c key) = fresh_id c" and "ttl (lru_Delete c key) = ttl c"
proof -
  note ok = lru_okD [OF assms]
  have "ll (lru_Delete c key) = filter (\<lambda>x. ce_key (snd x) \<noteq> key) (ll c) \<and> lru_ok (lru_Delete c key) \<and>
     items (lru_Delete c key) = (items c)(key := None) \<and> maxBytes (lru_Delete c key) = maxBytes c \<and>
     fresh_id (lru_Delete c key) = fresh_id c \<and> ttl (lru_Delete c key) = ttl c"
  proof (cases "items c key")
    case None
    then have "\<forall>x \<in> set (ll c). ce_key (snd x) \<noteq> key" using ok(3) by fastforce
    with None assms show ?thesis by (auto simp: lru_Delete_def fun_upd_idem filter_id_conv)
  next
    case (Some el)
    obtain en where en: "ce_key en = key" "(el, en) \<in> set (ll c)" by (rule lru_ok_find [OF assms Some])
    then obtain as bs where split: "ll c = as @ (el, en) # bs" by (meson split_list)
    have "\<forall>x \<in> set as. ce_key (snd x) \<noteq> key" "\<forall>x \<in> set bs. ce_key (snd x) \<noteq> key"
      using ok(2) split en(1) by (auto simp: image_iff)
    with removeElement_split [OF assms split] Some en split show ?thesis by (simp add: lru_Delete_def)
  qed
  then show "ll (lru_Delete c key) = filter (\<lambda>x. ce_key (snd x) \<noteq> key) (ll c)" "lru_ok (lru_Delete c key)"
    "items (lru_Delete c key) = (items c)(key := None)" "maxBytes (lru_Delete c key) = maxBytes c"
    "fresh_id (lru_Delete c key) = fresh_id c" "ttl (lru_Delete c key) = ttl c" by blast+
qed

lemma lru_Set_evict:
  assumes "lru_ok c" and "b = (if bytes \<le> 0 then 1 else bytes)" and "b \<le> maxBytes c"
  obtains c1 where "lru_Set c key val bytes now = evict c1" and "lru_ok c1" and "ll c1 = set_list c key val b now"
    and "maxBytes c1 = maxBytes c" and "ttl c1 = ttl c"
proof -
  let ?d = "lru_Delete c key" and ?en = "\<lparr>ce_key = key, ce_val = val, ce_bytes = b, ce_expires = now + ttl c\<rparr>"
  let ?c1 = "?d\<lparr>ll := (fresh_id ?d, ?en) # ll ?d, items := (items ?d)(key \<mapsto> fresh_id ?d), fresh_id := fresh_id ?d + 1,
      curBytes := curBytes ?d + b\<rparr>"
  note d = lru_Delete_list [OF assms(1), of key]
  have "lru_Set c key val bytes now = evict ?c1"
    using assms(2,3) by (simp add: lru_Set_def lru_Delete_def Let_def)
  moreover have "lru_ok ?c1"
  proof -
    note ok = lru_okD [OF d(2)]
    have b: "1 \<le> b" using assms(2) by simp
    have k: "key \<notin> (\<lambda>x. ce_key (snd x)) ` set (ll ?d)" using d(1) by auto
    have id: "fresh_id ?d \<notin> fst ` set (ll ?d)" using ok(4) by fastforce
    have "\<exists>e. (i, e) \<in> set (ll ?d) \<and> ce_key e = k" if "items ?d k = Some i" for k i using ok(6) [OF that] .
    then show ?thesis unfolding lru_ok_def using ok(1,2,7) b k id ok(3,4,5)
      by (auto simp: less_Suc_eq)
  qed
  moreover have "ll ?c1 = set_list c key val b now" by (simp add: set_list_def d)
  ultimately show thesis using that [of ?c1] d(4,6) by simp
qed

lemma lru_Set_inv: "lru_inv c \<Longrightarrow> lru_inv (lru_Set c key val bytes now)"
proof (cases "maxBytes c < (if bytes \<le> 0 then 1 else bytes)")
  case True
  assume "lru_inv c"
  with True show ?thesis by (simp add: lru_Set_def)
next
  case False
  assume inv: "lru_inv c"
  then have "lru_ok c" by (simp add: lru_inv_def)
  then obtain c1 where "lru_Set c key val bytes now = evict c1" "lru_ok c1" "maxBytes c1 = maxBytes c"
    by (rule lru_Set_evict [OF _ refl]) (use False in \<open>simp only: not_less\<close>)
  with evict_spec [of c1] inv show ?thesis by (simp add: lru_inv_def)
qed

lemma lru_Delete_inv: "lru_inv c \<Longrightarrow> lru_inv (lru_Delete c key)"
  by (simp add: lru_Delete_def removeElement_inv split: option.splits)

section \<open>What a caching client relies on\<close>

text \<open>
  A read-through cache: a hit returns an entry that was stored, unexpired; a lookup or an
  insertion never makes other entries appear. From that alone, a client that stores only what
  its source answered gets answers at most one lifetime old.
\<close>

definition coherent :: "('c \<Rightarrow> string \<Rightarrow> ('v \<times> int) option) \<Rightarrow> int \<Rightarrow> (int \<Rightarrow> string \<Rightarrow> 'v \<Rightarrow> bool) \<Rightarrow> 'c \<Rightarrow> bool" where
  "coherent look t src c \<longleftrightarrow> (\<forall>k v ex. look c k = Some (v, ex) \<longrightarrow> (\<exists>t0. src t0 k v \<and> ex = t0 + t))"

locale read_through =
  fixes cinv :: "'c \<Rightarrow> bool"
    and cget :: "'c \<Rightarrow> string \<Rightarrow> int \<Rightarrow> 'c \<times> 'v option"
    and cset :: "'c \<Rightarrow> string \<Rightarrow> 'v \<Rightarrow> int \<Rightarrow> int \<Rightarrow> 'c"
    and look :: "'c \<Rightarrow> string \<Rightarrow> ('v \<times> int) option"
    and life :: "'c \<Rightarrow> int"
  assumes get_inv: "cinv c \<Longrightarrow> cget c k now = (c', r) \<Longrightarrow> cinv c' \<and> life c' = life c"
    and set_inv: "cinv c \<Longrightarrow> cinv (cset c k v b now) \<and> life (cset c k v b now) = life c"
    and get_hit: "cinv c \<Longrightarrow> cget c k now = (c', Some v) \<Longrightarrow> \<exists>ex. look c k = Some (v, ex) \<and> (0 < life c \<longrightarrow> now \<le> ex)"
    and get_sub: "cinv c \<Longrightarrow> cget c k now = (c', r) \<Longrightarrow> look c' k' = Some x \<Longrightarrow> look c k' = Some x"
    and set_sub: "cinv c \<Longrightarrow> look (cset c k v b now) k' = Some x \<Longrightarrow>
      k' = k \<and> x = (v, now + life c) \<or> look c k' = Some x"
begin

lemma get_coherent: "cinv c \<Longrightarrow> coherent look t src c \<Longrightarrow> cget c k now = (c', r) \<Longrightarrow> coherent look t src c'"
  using get_sub unfolding coherent_def by blast

lemma set_coherent:
  "cinv c \<Longrightarrow> coherent look (life c) src c \<Longrightarrow> src now k v \<Longrightarrow> coherent look (life c) src (cset c k v b now)"
  using set_sub unfolding coherent_def by blast

lemma hit_recent:
  assumes "cinv c" and "coherent look (life c) src c" and "cget c k now = (c', Some v)"
  shows "\<exists>t0. src t0 k v \<and> (0 < life c \<longrightarrow> now \<le> t0 + life c)"
  using get_hit [OF assms(1,3)] assms(2) unfolding coherent_def by blast

end

definition lru_look :: "'v lru \<Rightarrow> string \<Rightarrow> ('v \<times> int) option" where
  "lru_look c k = (case items c k of None \<Rightarrow> None
     | Some el \<Rightarrow> map_option (\<lambda>en. (ce_val en, ce_expires en)) (map_of (ll c) el))"

text \<open>The view of the cache is what its list holds.\<close>

lemma lru_look_Some:
  assumes "lru_ok c"
  shows "lru_look c k = Some (v, ex) \<longleftrightarrow> (\<exists>x \<in> set (ll c). ce_key (snd x) = k \<and> ce_val (snd x) = v \<and> ce_expires (snd x) = ex)"
proof
  assume l: "lru_look c k = Some (v, ex)"
  then obtain el where el: "items c k = Some el" by (auto simp: lru_look_def split: option.splits)
  obtain en where "map_of (ll c) el = Some en" "ce_key en = k" "(el, en) \<in> set (ll c)" by (rule lru_ok_find [OF assms el])
  with l el show "\<exists>x \<in> set (ll c). ce_key (snd x) = k \<and> ce_val (snd x) = v \<and> ce_expires (snd x) = ex"
    by (intro bexI [of _ "(el, en)"]) (auto simp: lru_look_def)
next
  assume "\<exists>x \<in> set (ll c). ce_key (snd x) = k \<and> ce_val (snd x) = v \<and> ce_expires (snd x) = ex"
  then obtain el en where x: "(el, en) \<in> set (ll c)" "ce_key en = k" "ce_val en = v" "ce_expires en = ex" by auto
  then have "items c k = Some el" "map_of (ll c) el = Some en"
    using lru_okD(1,3) [OF assms] by (auto intro: map_of_is_SomeI)
  with x show "lru_look c k = Some (v, ex)" by (simp add: lru_look_def)
qed

lemma lru_Get_sub:
  assumes "lru_inv c" and "lru_Get c k now = (c', r)"
  shows "set (ll c') \<subseteq> set (ll c)" and "ttl c' = ttl c"
proof -
  have ok: "lru_ok c" using assms(1) by (simp add: lru_inv_def)
  have "x \<in> set (ll c)" if "x \<in> set (ll (removeElement c el))" for x el
    using that by (auto simp: removeElement_def split: option.splits)
  then have "set (ll c') \<subseteq> set (ll c) \<and> ttl c' = ttl c"
    using assms(2) moveToFront_ok(2) [OF ok] by (auto simp: lru_Get_def split: option.splits if_splits)
  then show "set (ll c') \<subseteq> set (ll c)" "ttl c' = ttl c" by blast+
qed

lemma lru_Set_sub:
  assumes "lru_inv c"
  shows "\<forall>x \<in> set (ll (lru_Set c k v b now)). x \<in> set (ll c) \<or> (ce_key (snd x) = k \<and> ce_val (snd x) = v \<and> ce_expires (snd x) = now + ttl c)"
    and "ttl (lru_Set c k v b now) = ttl c"
proof -
  have ok: "lru_ok c" using assms by (simp add: lru_inv_def)
  have "(\<forall>x \<in> set (ll (lru_Set c k v b now)). x \<in> set (ll c) \<or> (ce_key (snd x) = k \<and> ce_val (snd x) = v \<and> ce_expires (snd x) = now + ttl c)) \<and>
    ttl (lru_Set c k v b now) = ttl c"
  proof (cases "maxBytes c < (if b \<le> 0 then 1 else b)")
    case True
    then show ?thesis by (simp add: lru_Set_def)
  next
    case False
    obtain c1 where c1: "lru_Set c k v b now = evict c1" "lru_ok c1" "ll c1 = set_list c k v (if b \<le> 0 then 1 else b) now" "ttl c1 = ttl c"
      by (rule lru_Set_evict [OF ok refl]) (use False in \<open>simp only: not_less\<close>)
    obtain n where "ll (evict c1) = take n (ll c1)" "ttl (evict c1) = ttl c1" using evict_spec [OF c1(2)] by blast
    with c1 show ?thesis by (auto simp: set_list_def dest!: in_set_takeD)
  qed
  then show "\<forall>x \<in> set (ll (lru_Set c k v b now)). x \<in> set (ll c) \<or> (ce_key (snd x) = k \<and> ce_val (snd x) = v \<and> ce_expires (snd x) = now + ttl c)"
    "ttl (lru_Set c k v b now) = ttl c" by blast+
qed

lemma lru_Get_hit:
  assumes "lru_inv c" and "lru_Get c k now = (c', Some v)"
  shows "\<exists>ex. lru_look c k = Some (v, ex) \<and> (0 < ttl c \<longrightarrow> now \<le> ex)"
  using assms(2) by (auto simp: lru_Get_def lru_look_def not_less split: option.splits if_splits)

interpretation lru: read_through lru_inv lru_Get lru_Set lru_look ttl
proof unfold_locales
  show "lru_inv c' \<and> ttl c' = ttl c" if "lru_inv c" "lru_Get c k now = (c', r)" for c :: "'a lru" and k now c' r
    using lru_Get_inv [OF that] lru_Get_sub(2) [OF that] by simp
  show "lru_inv (lru_Set c k v b now) \<and> ttl (lru_Set c k v b now) = ttl c" if "lru_inv c" for c :: "'a lru" and k v b now
    using lru_Set_inv [OF that] lru_Set_sub(2) [OF that] by simp
  show "\<exists>ex. lru_look c k = Some (v, ex) \<and> (0 < ttl c \<longrightarrow> now \<le> ex)" if "lru_inv c" "lru_Get c k now = (c', Some v)"
    for c :: "'a lru" and k now c' v using lru_Get_hit [OF that] .
  show "lru_look c k' = Some x" if "lru_inv c" "lru_Get c k now = (c', r)" "lru_look c' k' = Some x"
    for c :: "'a lru" and k now c' r k' x
  proof -
    have "lru_ok c" "lru_ok c'" using that(1) lru_Get_inv [OF that(1,2)] by (simp_all add: lru_inv_def)
    with that(3) lru_Get_sub(1) [OF that(1,2)] show ?thesis by (cases x) (auto simp: lru_look_Some)
  qed
  show "k' = k \<and> x = (v, now + ttl c) \<or> lru_look c k' = Some x" if "lru_inv c" "lru_look (lru_Set c k v b now) k' = Some x"
    for c :: "'a lru" and k v b now k' x
  proof -
    have "lru_ok c" "lru_ok (lru_Set c k v b now)" using that(1) lru_Set_inv [OF that(1)] by (auto simp: lru_inv_def)
    with that(2) lru_Set_sub(1) [OF that(1), of k v b now] show ?thesis by (cases x) (auto simp: lru_look_Some)
  qed
qed

section \<open>Properties\<close>

datatype 'v cache_op = OpGet string int | OpSet string 'v int int | OpDelete string

fun cache_step :: "'v lru \<Rightarrow> 'v cache_op \<Rightarrow> 'v lru" where
  "cache_step c (OpGet k now) = fst (lru_Get c k now)"
| "cache_step c (OpSet k v b now) = lru_Set c k v b now"
| "cache_step c (OpDelete k) = lru_Delete c k"

lemma cache_step_inv: "lru_inv c \<Longrightarrow> lru_inv (cache_step c op)"
  by (cases op) (auto intro: lru_Set_inv lru_Delete_inv lru_Get_inv [OF _ prod.collapse [symmetric]])

lemma lru_New_inv: "lru_inv (lru_New mx t)"
  by (simp add: lru_inv_def lru_ok_def lru_New_def)

text \<open>C22. The cache stays within its byte budget: after any sequence of operations on a new cache the byte
  counter equals the sum of the entries' costs, is at most the configured bound, and the key
  index and the recency list describe the same entries, one per key.\<close>

theorem cache_bounded:
  "lru_inv (foldl cache_step (lru_New mx t) ops)"
proof (induction ops rule: rev_induct)
  case Nil
  then show ?case by (simp add: lru_New_inv)
next
  case (snoc op ops)
  then show ?case by (simp add: cache_step_inv)
qed

text \<open>An insertion evicts least-recent first and no more than needed: the list after \<open>Set\<close> is the longest
  prefix, in recency order, of the new entry followed by the old entries of other keys that
  fits the byte bound.\<close>

theorem Set_evicts_least_recent:
  assumes "lru_inv c" and "b = (if bytes \<le> 0 then 1 else bytes)" and "b \<le> maxBytes c"
  shows "\<exists>n. ll (lru_Set c k v bytes now) = take n (set_list c k v b now) \<and>
     bytes_of (take n (set_list c k v b now)) \<le> maxBytes c \<and>
     (\<forall>j. n < j \<longrightarrow> j \<le> length (set_list c k v b now) \<longrightarrow> maxBytes c < bytes_of (take j (set_list c k v b now)))"
proof -
  have ok: "lru_ok c" "0 < maxBytes c" using assms(1) by (simp_all add: lru_inv_def)
  obtain c1 where c1: "lru_Set c k v bytes now = evict c1" "lru_ok c1" "ll c1 = set_list c k v b now" "maxBytes c1 = maxBytes c"
    by (rule lru_Set_evict [OF ok(1) assms(2,3)])
  note e = evict_spec [OF c1(2)]
  then obtain n where n: "ll (evict c1) = take n (ll c1)" "\<forall>j. n < j \<longrightarrow> j \<le> length (ll c1) \<longrightarrow> maxBytes c1 < bytes_of (take j (ll c1))" by blast
  have "curBytes (evict c1) = bytes_of (ll (evict c1))" using e lru_okD(7) by blast
  with e ok(2) c1(4) have "bytes_of (ll (evict c1)) \<le> maxBytes c" by simp
  with n c1 show ?thesis by (intro exI [of _ n]) simp
qed

theorem Set_evicts_least_recent_witness:
  "\<exists>n. ll (lru_Set (lru_New 10 0) ''a'' True 3 0) = take n (set_list (lru_New 10 0) ''a'' True 3 0) \<and> 3 \<le> (10::int)"
  using Set_evicts_least_recent [of "lru_New 10 0" 3 3 "''a''" True 0] lru_New_inv [of 10 0]
  by (auto simp: lru_New_def)

text \<open>What was just stored is found: if the value fits the cache at all, a lookup before its expiry
  returns it, whatever else had to be evicted for it.\<close>

theorem Set_then_Get:
  assumes "lru_inv c" and "(if bytes \<le> 0 then 1 else bytes) \<le> maxBytes c" and "ttl c \<le> 0 \<or> later \<le> now + ttl c"
  shows "snd (lru_Get (lru_Set c k v bytes now) k later) = Some v"
proof -
  let ?b = "if bytes \<le> 0 then 1 else bytes" and ?c = "lru_Set c k v bytes now"
  have ok: "lru_ok c" "0 < maxBytes c" using assms(1) by (simp_all add: lru_inv_def)
  obtain c1 where c1: "?c = evict c1" "lru_ok c1" "ll c1 = set_list c k v ?b now" "maxBytes c1 = maxBytes c" "ttl c1 = ttl c"
    by (rule lru_Set_evict [OF ok(1) refl assms(2)])
  from evict_spec [OF c1(2)] obtain n where n: "ll ?c = take n (ll c1)" "\<forall>j. n < j \<longrightarrow> j \<le> length (ll c1) \<longrightarrow> maxBytes c < bytes_of (take j (ll c1))"
    and ok2: "lru_ok ?c" "ttl ?c = ttl c" using c1 by auto
  have "n \<noteq> 0"
  proof
    assume "n = 0"
    with n(2) [rule_format, of 1] c1(3) assms(2) show False by (simp add: set_list_def split: if_splits)
  qed
  then obtain m where "n = Suc m" by (cases n) auto
  then have "hd (set_list c k v ?b now) \<in> set (ll ?c)" using n(1) c1(3) by (simp add: set_list_def)
  then obtain e where e: "e \<in> set (ll ?c)" "ce_key (snd e) = k" "ce_val (snd e) = v" "ce_expires (snd e) = now + ttl c"
    by (auto simp: set_list_def)
  then have "items ?c k = Some (fst e)" "map_of (ll ?c) (fst e) = Some (snd e)"
    using lru_okD(1,3) [OF ok2(1)] by (auto intro: map_of_is_SomeI)
  with e assms(3) ok2(2) show ?thesis by (auto simp: lru_Get_def)
qed

theorem Set_then_Get_witness: "snd (lru_Get (lru_Set (lru_New 10 60) ''a'' True 3 0) ''a'' 60) = Some True"
  using Set_then_Get [of "lru_New 10 60" 3 60 0 "''a''" True] lru_New_inv [of 10 60] by (simp add: lru_New_def)

end
