(* ===== verification/Ratelimit.thy ===== *)
theory Ratelimit
  imports Complex_Main Prelude
begin

text \<open>
  The per-project token buckets of \<open>internal/ratelimit/ratelimit.go\<close>. Token counts and
  rates are exact rationals here where the code has \<open>float64\<close>; times are nanoseconds.
  The results: the classical token-bucket bound (in any window a project is never admitted
  more often than its burst plus its rate times the length of the window), isolation between projects, and a bounded
  number of buckets.
\<close>

record limit =
  PerSecond :: rat
  Burst :: rat

definition DefaultLimit :: limit where
  "DefaultLimit = \<lparr>PerSecond = 1000, Burst = 5000\<rparr>"

record bucket =
  tokens :: rat
  last_time :: int

record limiter =
  def_limit :: limit
  limit_of :: "(int \<times> limit) list"
  buckets :: "(int \<times> bucket) list"
  max_projects :: nat

definition rl_New :: "limit \<Rightarrow> int \<Rightarrow> limiter" where
  "rl_New d maxProjects =
     \<lparr>def_limit = d, limit_of = [], buckets = [], max_projects = (if maxProjects \<le> 0 then 10000 else nat maxProjects)\<rparr>"

definition SetLimit :: "limiter \<Rightarrow> int \<Rightarrow> limit \<Rightarrow> limiter" where
  "SetLimit l pid lm = l\<lparr>limit_of := map_put pid lm (limit_of l)\<rparr>"

definition lim_for :: "limiter \<Rightarrow> int \<Rightarrow> limit" where
  "lim_for l pid = (case map_of (limit_of l) pid of Some lm \<Rightarrow> lm | None \<Rightarrow> def_limit l)"

lemma lim_for_buckets [simp]: "lim_for (l\<lparr>buckets := b\<rparr>) pid = lim_for l pid"
  by (simp add: lim_for_def split: option.splits)

text \<open>The refill step: tokens for the elapsed time, capped at the burst.\<close>

definition refill :: "limit \<Rightarrow> bucket \<Rightarrow> int \<Rightarrow> bucket" where
  "refill lm bk now =
     (let t = tokens bk + of_int (time_sub now (last_time bk)) / 1000000000 * PerSecond lm
      in \<lparr>tokens = (if Burst lm < t then Burst lm else t), last_time = now\<rparr>)"

text \<open>
  The suggested wait, at least a second. Dividing by a zero rate gives an infinity whose
  conversion to a duration the language leaves open: \<open>None\<close>.
\<close>

definition retry_after :: "limit \<Rightarrow> rat \<Rightarrow> int option" where
  "retry_after lm t =
     (if PerSecond lm = 0 then None
      else let w = (1 - t) / PerSecond lm * 1000000000;
               wait = (if 0 \<le> w then \<lfloor>w\<rfloor> else \<lceil>w\<rceil>)
           in Some (if wait < 1000000000 then 1000000000 else wait))"

text \<open>\<open>Allow\<close>; \<open>t0\<close> is the clock when a bucket is created, \<open>now\<close> when it is charged.\<close>

definition Allow :: "limiter \<Rightarrow> int \<Rightarrow> int \<Rightarrow> int \<Rightarrow> limiter \<times> bool \<times> int option" where
  "Allow l pid t0 now =
     (let lm = lim_for l pid in
      case (case map_of (buckets l) pid of
              Some bk \<Rightarrow> Some bk
            | None \<Rightarrow> if max_projects l \<le> length (buckets l) then None
                      else Some \<lparr>tokens = Burst lm, last_time = t0\<rparr>) of
        None \<Rightarrow> (l, True, Some 0)
      | Some bk \<Rightarrow>
          let b1 = refill lm bk now in
          if 1 \<le> tokens b1
          then (l\<lparr>buckets := map_put pid (b1\<lparr>tokens := tokens b1 - 1\<rparr>) (buckets l)\<rparr>, True, Some 0)
          else (l\<lparr>buckets := map_put pid b1 (buckets l)\<rparr>, False, retry_after lm (tokens b1)))"

definition Snapshot :: "limiter \<Rightarrow> (int \<times> rat) list" where
  "Snapshot l = map (\<lambda>(k, bk). (k, tokens bk)) (buckets l)"

fun restore_loop :: "nat \<Rightarrow> int \<Rightarrow> (int \<times> rat) list \<Rightarrow> (int \<times> bucket) list \<Rightarrow> (int \<times> bucket) list" where
  "restore_loop mx now [] b = b"
| "restore_loop mx now ((k, t) # st) b =
     (if mx \<le> length b then b else restore_loop mx now st (map_put k \<lparr>tokens = t, last_time = now\<rparr> b))"

definition Restore :: "limiter \<Rightarrow> (int \<times> rat) list \<Rightarrow> int \<Rightarrow> limiter" where
  "Restore l st now = l\<lparr>buckets := restore_loop (max_projects l) now st (buckets l)\<rparr>"

section \<open>Buckets are bounded and independent\<close>

definition rl_inv :: "limiter \<Rightarrow> bool" where
  "rl_inv l \<longleftrightarrow> length (buckets l) \<le> max_projects l"

lemma Allow_inv: "rl_inv l \<Longrightarrow> rl_inv (fst (Allow l pid t0 now))"
  by (auto simp: Allow_def rl_inv_def Let_def length_map_put split: option.splits)

lemma restore_loop_length: "length b \<le> mx \<Longrightarrow> length (restore_loop mx now st b) \<le> mx"
  by (induction mx now st b rule: restore_loop.induct) (auto simp: length_map_put)

lemma Restore_inv: "rl_inv l \<Longrightarrow> rl_inv (Restore l st now)"
  by (simp add: rl_inv_def Restore_def restore_loop_length)

section \<open>The token-bucket bound\<close>

text \<open>A run of requests of one project at the given times, with the number admitted.\<close>

fun allow_run :: "limiter \<Rightarrow> int \<Rightarrow> int list \<Rightarrow> limiter \<times> nat" where
  "allow_run l pid [] = (l, 0)"
| "allow_run l pid (t # ts) =
     (let (l1, ok, _) = Allow l pid t t; (l2, n) = allow_run l1 pid ts in (l2, (if ok then n + 1 else n)))"

definition elapsed :: "int \<Rightarrow> int \<Rightarrow> rat" where
  "elapsed a b = of_int (b - a) / 1000000000"

lemma Allow_tracked:
  assumes "map_of (buckets l) pid = Some bk" and "lm = lim_for l pid" and "0 \<le> PerSecond lm" and "0 \<le> Burst lm"
    and "0 \<le> tokens bk" and "last_time bk \<le> now" and "Allow l pid t0 now = (l', ok, w)"
  obtains bk' where "map_of (buckets l') pid = Some bk'" and "lim_for l' pid = lm" and "0 \<le> tokens bk'" and "last_time bk' = now"
    and "tokens bk' + (if ok then 1 else 0) \<le> tokens bk + elapsed (last_time bk) now * PerSecond lm"
proof -
  let ?b = "refill lm bk now"
  have "time_sub now (last_time bk) \<le> now - last_time bk" "0 \<le> time_sub now (last_time bk)"
    using assms(6) by (simp_all add: time_sub_def)
  then have e: "of_int (time_sub now (last_time bk)) / 1000000000 \<le> elapsed (last_time bk) now"
    "0 \<le> (of_int (time_sub now (last_time bk)) / 1000000000 :: rat)"
    by (simp_all add: elapsed_def divide_right_mono del: of_int_diff)
  have up: "tokens ?b \<le> tokens bk + elapsed (last_time bk) now * PerSecond lm"
    using mult_right_mono [OF e(1) assms(3)] by (auto simp: refill_def Let_def)
  have lo: "0 \<le> tokens ?b" using assms(4,5) mult_nonneg_nonneg [OF e(2) assms(3)] by (auto simp: refill_def Let_def)
  have t: "last_time ?b = now" by (simp add: refill_def Let_def)
  have a: "Allow l pid t0 now = (if 1 \<le> tokens ?b
      then (l\<lparr>buckets := map_put pid (?b\<lparr>tokens := tokens ?b - 1\<rparr>) (buckets l)\<rparr>, True, Some 0)
      else (l\<lparr>buckets := map_put pid ?b (buckets l)\<rparr>, False, retry_after lm (tokens ?b)))"
    using assms(1,2) by (simp add: Allow_def Let_def)
  show thesis
  proof (cases "1 \<le> tokens ?b")
    case True
    with a assms(7) have "l' = l\<lparr>buckets := map_put pid (?b\<lparr>tokens := tokens ?b - 1\<rparr>) (buckets l)\<rparr>" "ok" by auto
    with True up t assms(2) show thesis by (intro that [of "?b\<lparr>tokens := tokens ?b - 1\<rparr>"]) simp_all
  next
    case False
    with a assms(7) have "l' = l\<lparr>buckets := map_put pid ?b (buckets l)\<rparr>" "\<not> ok" by auto
    with False up t lo assms(2) show thesis by (intro that [of ?b]) simp_all
  qed
qed

lemma allow_run_bound:
  assumes "map_of (buckets l) pid = Some bk" and "lm = lim_for l pid" and "0 \<le> PerSecond lm" and "0 \<le> Burst lm"
    and "0 \<le> tokens bk" and "sorted (last_time bk # ts)"
  shows "of_nat (snd (allow_run l pid ts)) \<le> tokens bk + elapsed (last_time bk) (last (last_time bk # ts)) * PerSecond lm"
  using assms(1,2,5,6)
proof (induction ts arbitrary: l bk)
  case Nil
  then show ?case by (simp add: elapsed_def)
next
  case (Cons t ts)
  obtain l1 ok w where a: "Allow l pid t t = (l1, ok, w)" by (metis prod_cases3)
  have "last_time bk \<le> t" using Cons.prems(4) by simp
  from Allow_tracked [OF Cons.prems(1,2) assms(3,4) Cons.prems(3) this a] obtain bk' where
    b: "map_of (buckets l1) pid = Some bk'" "lim_for l1 pid = lm" "0 \<le> tokens bk'" "last_time bk' = t"
      "tokens bk' + (if ok then 1 else 0) \<le> tokens bk + elapsed (last_time bk) t * PerSecond lm" by blast
  have "sorted (last_time bk' # ts)" using Cons.prems(4) b(4) by simp
  from Cons.IH [OF b(1) b(2) [symmetric] b(3) this] have
    ih: "of_nat (snd (allow_run l1 pid ts)) \<le> tokens bk' + elapsed t (last (t # ts)) * PerSecond lm" by (simp add: b(4))
  have "elapsed (last_time bk) (last (t # ts)) = elapsed (last_time bk) t + elapsed t (last (t # ts))"
    by (simp add: elapsed_def diff_divide_distrib)
  then have "elapsed (last_time bk) (last (t # ts)) * PerSecond lm =
      elapsed (last_time bk) t * PerSecond lm + elapsed t (last (t # ts)) * PerSecond lm" by (simp add: distrib_right)
  then have "of_nat (snd (allow_run l1 pid ts)) + (if ok then 1 else 0) \<le>
      tokens bk + elapsed (last_time bk) (last (t # ts)) * PerSecond lm" using b(5) ih by (simp split: if_splits)
  then show ?case using a by (auto simp: split_beta)
qed

text \<open>
  The first charge of a window: whatever the bucket held and however long it was idle, the refill
  leaves it at the burst at most.
\<close>

lemma Allow_capped:
  assumes "case map_of (buckets l) pid of
       Some bk \<Rightarrow> 0 \<le> tokens bk \<and> last_time bk \<le> t
     | None \<Rightarrow> length (buckets l) < max_projects l"
    and "lm = lim_for l pid" and "0 \<le> PerSecond lm" and "0 \<le> Burst lm" and "Allow l pid t t = (l', ok, w)"
  obtains bk' where "map_of (buckets l') pid = Some bk'" and "lim_for l' pid = lm" and "0 \<le> tokens bk'" and "last_time bk' = t"
    and "tokens bk' + (if ok then 1 else 0) \<le> Burst lm"
proof -
  define bk where "bk = (case map_of (buckets l) pid of Some bk \<Rightarrow> bk | None \<Rightarrow> \<lparr>tokens = Burst lm, last_time = t\<rparr>)"
  let ?b = "refill lm bk t"
  have k: "0 \<le> tokens bk" "last_time bk \<le> t" using assms(1,4) by (auto simp: bk_def split: option.splits)
  have "0 \<le> time_sub t (last_time bk)" using k(2) by (simp add: time_sub_def)
  then have "0 \<le> of_int (time_sub t (last_time bk)) / 1000000000 * PerSecond lm" using assms(3) by simp
  then have lo: "0 \<le> tokens ?b" "tokens ?b \<le> Burst lm" "last_time ?b = t"
    using k(1) assms(4) by (auto simp: refill_def Let_def)
  have a: "Allow l pid t t = (if 1 \<le> tokens ?b
      then (l\<lparr>buckets := map_put pid (?b\<lparr>tokens := tokens ?b - 1\<rparr>) (buckets l)\<rparr>, True, Some 0)
      else (l\<lparr>buckets := map_put pid ?b (buckets l)\<rparr>, False, retry_after lm (tokens ?b)))"
    using assms(1,2) by (auto simp: Allow_def Let_def bk_def split: option.splits)
  show thesis
  proof (cases "1 \<le> tokens ?b")
    case True
    with a assms(5) have "l' = l\<lparr>buckets := map_put pid (?b\<lparr>tokens := tokens ?b - 1\<rparr>) (buckets l)\<rparr>" "ok" by auto
    with True lo assms(2) show thesis by (intro that [of "?b\<lparr>tokens := tokens ?b - 1\<rparr>"]) simp_all
  next
    case False
    with a assms(5) have "l' = l\<lparr>buckets := map_put pid ?b (buckets l)\<rparr>" "\<not> ok" by auto
    with False lo assms(2) show thesis by (intro that [of ?b]) simp_all
  qed
qed

section \<open>Properties\<close>

text \<open>C20. No project exceeds its quota in any window: take a limiter in which the project's
  bucket is tracked (with any non-negative number of tokens, however many, last charged no later
  than the window opens) or can still be created because the table has room, and requests of that
  project at non-decreasing times \<open>t\<close>, \<open>ts\<close>. Then at most the burst plus
  the rate times the length of the window are admitted. The number does not depend on how long the
  project was idle before the window: that is what the cap at the burst is for. The rate and the
  burst are only assumed not to be negative. A project that finds the table full has no bucket and
  is always admitted.\<close>

theorem quota_bound:
  assumes "case map_of (buckets l) pid of
       Some bk \<Rightarrow> 0 \<le> tokens bk \<and> last_time bk \<le> t
     | None \<Rightarrow> length (buckets l) < max_projects l"
    and "0 \<le> PerSecond (lim_for l pid)" and "0 \<le> Burst (lim_for l pid)" and "sorted (t # ts)"
  shows "of_nat (snd (allow_run l pid (t # ts))) \<le>
     Burst (lim_for l pid) + elapsed t (last (t # ts)) * PerSecond (lim_for l pid)"
proof -
  let ?lm = "lim_for l pid"
  obtain l1 ok w where a: "Allow l pid t t = (l1, ok, w)" by (metis prod_cases3)
  from Allow_capped [OF assms(1) refl assms(2,3) a] obtain bk' where
    b: "map_of (buckets l1) pid = Some bk'" "lim_for l1 pid = ?lm" "0 \<le> tokens bk'" "last_time bk' = t"
      "tokens bk' + (if ok then 1 else 0) \<le> Burst ?lm" by blast
  have "of_nat (snd (allow_run l1 pid ts)) \<le> tokens bk' + elapsed t (last (t # ts)) * PerSecond ?lm"
    using allow_run_bound [OF b(1) b(2) [symmetric] assms(2,3) b(3)] assms(4) by (simp add: b(4))
  with b(5) a show ?thesis by (auto simp: split_beta split: if_splits)
qed

theorem quota_bound_witness:
  "of_nat (snd (allow_run \<lparr>def_limit = \<lparr>PerSecond = 1, Burst = 2\<rparr>, limit_of = [], buckets = [(7, \<lparr>tokens = 2, last_time = 0\<rparr>)], max_projects = 5\<rparr> 7
     [3600000000000, 3600000000000, 3600000000000, 3601000000000])) \<le> (3::rat)"
  using quota_bound [of "\<lparr>def_limit = \<lparr>PerSecond = 1, Burst = 2\<rparr>, limit_of = [], buckets = [(7, \<lparr>tokens = 2, last_time = 0\<rparr>)], max_projects = 5\<rparr>"
      3600000000000 7 "[3600000000000, 3600000000000, 3601000000000]"]
  by (simp add: lim_for_def elapsed_def del: allow_run.simps)

text \<open>Projects are isolated and memory is bounded: charging one project changes no other project's bucket,
  never grows the table past its cap, and a rejection always asks for at least one second.\<close>

theorem Allow_isolated:
  assumes "rl_inv l" and "Allow l pid t0 now = (l', ok, w)"
  shows "rl_inv l' \<and> (\<forall>q. q \<noteq> pid \<longrightarrow> map_of (buckets l') q = map_of (buckets l) q) \<and>
     (\<not> ok \<longrightarrow> (\<forall>s. w = Some s \<longrightarrow> 1000000000 \<le> s))"
  using Allow_inv [OF assms(1), of pid t0 now] assms(2)
  by (auto simp: Allow_def Let_def retry_after_def split: option.splits if_splits)

theorem Allow_isolated_witness:
  "\<exists>l' ok w. Allow (rl_New DefaultLimit 3) 1 0 0 = (l', ok, w) \<and> rl_inv l'"
proof -
  obtain l' ok w where a: "Allow (rl_New DefaultLimit 3) 1 0 0 = (l', ok, w)" by (metis prod_cases3)
  have "rl_inv (rl_New DefaultLimit 3)" by (simp add: rl_inv_def rl_New_def)
  from Allow_isolated [OF this a] a show ?thesis by blast
qed

end
