(* ===== verification/Cluster.thy ===== *)
theory Cluster
  imports Prelude "HOL-Library.List_Lexorder" "HOL-Library.Char_ord"
begin

text \<open>
  Project ownership of \<open>internal/cluster\<close>: the consistent-hash ring (\<open>ring.go\<close>) and
  the routing decision of a node (\<open>membership.go\<close>). Gossip is not modelled: the member
  list and its decoded metadata are inputs of \<open>refreshRing\<close>.

  \<open>sort.Slice\<close> leaves the order of equal elements open, so the sorting of the virtual nodes
  is a parameter with its contract as a hypothesis (\<open>sorts\<close>); where two virtual nodes
  collide in their hash the owner may depend on it, and the theorems say where it does not.
\<close>

section \<open>Hashing\<close>

text \<open>\<open>fnv.New32a\<close>, then the finaliser of murmur3.\<close>

definition fnv1a32 :: "byte list \<Rightarrow> u32" where
  "fnv1a32 bs = foldl (\<lambda>h b. (h XOR ucast b) * 16777619) 2166136261 bs"

definition hashKey :: "string \<Rightarrow> u32" where
  "hashKey s =
     (let x0 = fnv1a32 (str_bytes s);
          x1 = x0 XOR drop_bit 16 x0;
          x2 = x1 * 0x85ebca6b;
          x3 = x2 XOR drop_bit 13 x2;
          x4 = x3 * 0xc2b2ae35
      in x4 XOR drop_bit 16 x4)"

section \<open>The ring\<close>

definition vnodesPerNode :: nat where
  "vnodesPerNode = 100"

record ringEntry =
  re_hash :: u32
  re_node :: string

record Ring =
  entries :: "ringEntry list"
  nodes :: "string set"

definition NewRing :: Ring where
  "NewRing = \<lparr>entries = [], nodes = {}\<rparr>"

definition vnodes :: "string \<Rightarrow> ringEntry list" where
  "vnodes n = map (\<lambda>v. \<lparr>re_hash = hashKey (n @ ''#'' @ dec_str v), re_node = n\<rparr>) [0..<vnodesPerNode]"

definition SetNodes :: "(ringEntry list \<Rightarrow> ringEntry list) \<Rightarrow> string list \<Rightarrow> Ring" where
  "SetNodes sort_slice nodeIDs =
     (let sorted = sorted_list_of_set (set nodeIDs)
      in \<lparr>entries = sort_slice (concat (map vnodes sorted)), nodes = set nodeIDs\<rparr>)"

definition OwnerFor :: "Ring \<Rightarrow> string \<Rightarrow> string option" where
  "OwnerFor r key =
     (if entries r = [] then None
      else
        let h = hashKey key;
            i = sort_Search (length (entries r)) (\<lambda>i. h \<le> re_hash (entries r ! i));
            j = (if i = length (entries r) then 0 else i)
        in Some (re_node (entries r ! j)))"

definition Nodes :: "Ring \<Rightarrow> string list" where
  "Nodes r = sorted_list_of_set (nodes r)"

text \<open>The contract of \<open>sort.Slice\<close> with the ring's comparison.\<close>

definition sorts :: "(ringEntry list \<Rightarrow> ringEntry list) \<Rightarrow> bool" where
  "sorts f \<longleftrightarrow> (\<forall>xs. mset (f xs) = mset xs \<and> sorted (map re_hash (f xs)))"

section \<open>Routing\<close>

record NodeInfo =
  NodeID :: string
  APIAddr :: string

record Membership =
  ring :: Ring
  self :: NodeInfo
  meta :: "(string \<times> NodeInfo) list"

text \<open>\<open>members\<close> is the decoded metadata of each gossip member; \<open>None\<close> does not decode.\<close>

fun collect_members :: "NodeInfo option list \<Rightarrow> string list \<Rightarrow> (string \<times> NodeInfo) list \<Rightarrow> string list \<times> (string \<times> NodeInfo) list" where
  "collect_members [] ids mt = (ids, mt)"
| "collect_members (None # ms) ids mt = collect_members ms ids mt"
| "collect_members (Some info # ms) ids mt =
     (if NodeID info = [] then collect_members ms ids mt
      else collect_members ms (ids @ [NodeID info]) ((NodeID info, info) # mt))"

definition refreshRing :: "(ringEntry list \<Rightarrow> ringEntry list) \<Rightarrow> Membership \<Rightarrow> NodeInfo option list \<Rightarrow> Membership" where
  "refreshRing sort_slice m members =
     (let (ids, mt) = collect_members members [] [] in m\<lparr>ring := SetNodes sort_slice ids, meta := mt\<rparr>)"

definition project_key :: "int \<Rightarrow> string" where
  "project_key pid = ''project-'' @ int_str pid"

definition OwnerAddr :: "Membership \<Rightarrow> int \<Rightarrow> string \<times> bool" where
  "OwnerAddr m pid =
     (case OwnerFor (ring m) (project_key pid) of
        None \<Rightarrow> ([], False)
      | Some nodeID \<Rightarrow>
          if nodeID = NodeID (self m) then ([], False)
          else (case map_of (meta m) nodeID of
                  None \<Rightarrow> ([], False)
                | Some info \<Rightarrow> (APIAddr info, True)))"

section \<open>Lookup on the ring\<close>

text \<open>
  The reference: the owner of a hash is the node of the first virtual node at or after it in
  ring order, and of the first one of all when there is none.
\<close>

definition successor_hash :: "u32 set \<Rightarrow> u32 \<Rightarrow> u32" where
  "successor_hash H h = (if \<exists>x \<in> H. h \<le> x then Min {x \<in> H. h \<le> x} else Min H)"

lemma OwnerFor_successor:
  assumes "sorted (map re_hash (entries r))" and "entries r \<noteq> []"
  obtains e where "OwnerFor r key = Some (re_node e)" and "e \<in> set (entries r)"
    and "re_hash e = successor_hash (re_hash ` set (entries r)) (hashKey key)"
proof -
  let ?es = "entries r" and ?h = "hashKey key"
  let ?f = "\<lambda>i. ?h \<le> re_hash (?es ! i)"
  let ?i = "sort_Search (length ?es) ?f"
  have mono: "re_hash (?es ! a) \<le> re_hash (?es ! b)" if "a \<le> b" "b < length ?es" for a b
    using sorted_nth_mono [OF assms(1), of a b] that by simp
  have least: "?i \<le> length ?es \<and> (\<forall>k < ?i. \<not> ?f k) \<and> (?i < length ?es \<longrightarrow> ?f ?i)"
    by (rule sort_Search_least) (meson mono order_trans)
  let ?j = "if ?i = length ?es then 0 else ?i"
  have j: "?j < length ?es" using least assms(2) by auto
  have own: "OwnerFor r key = Some (re_node (?es ! ?j))" using assms(2) by (simp add: OwnerFor_def Let_def)
  have "re_hash (?es ! ?j) = successor_hash (re_hash ` set ?es) ?h"
  proof (cases "?i = length ?es")
    case True
    then have none: "\<not> (\<exists>x \<in> re_hash ` set ?es. ?h \<le> x)" using least by (auto simp: in_set_conv_nth)
    have "Min (re_hash ` set ?es) = re_hash (?es ! 0)"
      using mono assms(2) by (intro Min_eqI) (auto simp: in_set_conv_nth intro!: imageI exI [of _ 0])
    with True none show ?thesis by (simp add: successor_hash_def)
  next
    case False
    with least have i: "?i < length ?es" "?f ?i" by auto
    then have "re_hash (?es ! ?i) \<in> {x \<in> re_hash ` set ?es. ?h \<le> x}" by auto
    moreover have "re_hash (?es ! ?i) \<le> x" if x: "x \<in> {x \<in> re_hash ` set ?es. ?h \<le> x}" for x
    proof -
      from x obtain k where k: "k < length ?es" "x = re_hash (?es ! k)" "?h \<le> x" by (auto simp: in_set_conv_nth)
      then have "\<not> k < ?i" using least by auto
      then show ?thesis using mono [of ?i k] k by simp
    qed
    ultimately have "Min {x \<in> re_hash ` set ?es. ?h \<le> x} = re_hash (?es ! ?i)" by (intro Min_eqI) auto
    moreover have "\<exists>x \<in> re_hash ` set ?es. ?h \<le> x" using i by (auto intro!: bexI [of _ "?es ! ?i"])
    ultimately show ?thesis using False by (simp add: successor_hash_def)
  qed
  with own j show thesis by (intro that [of "?es ! ?j"]) auto
qed

section \<open>Ownership depends only on the node set\<close>

text \<open>No two nodes share a position on the ring.\<close>

definition no_collision :: "string set \<Rightarrow> bool" where
  "no_collision N \<longleftrightarrow> (\<forall>a \<in> N. \<forall>b \<in> N. \<forall>x \<in> set (vnodes a). \<forall>y \<in> set (vnodes b). re_hash x = re_hash y \<longrightarrow> a = b)"

definition ring_hashes :: "string set \<Rightarrow> u32 set" where
  "ring_hashes N = (\<Union>n \<in> N. re_hash ` set (vnodes n))"

lemma re_node_vnodes: "e \<in> set (vnodes n) \<Longrightarrow> re_node e = n"
  by (auto simp: vnodes_def)

lemma vnodes_nonempty: "vnodes n \<noteq> []"
  by (simp add: vnodes_def vnodesPerNode_def)

lemma SetNodes_entries:
  assumes "sorts f"
  shows "set (entries (SetNodes f ids)) = (\<Union>n \<in> set ids. set (vnodes n))"
    and "sorted (map re_hash (entries (SetNodes f ids)))"
    and "entries (SetNodes f ids) = [] \<longleftrightarrow> ids = []"
proof -
  let ?xs = "concat (map vnodes (sorted_list_of_set (set ids)))"
  have m: "mset (f ?xs) = mset ?xs" and s: "sorted (map re_hash (f ?xs))" using assms by (simp_all add: sorts_def)
  have e: "entries (SetNodes f ids) = f ?xs" by (simp add: SetNodes_def Let_def)
  show u: "set (entries (SetNodes f ids)) = (\<Union>n \<in> set ids. set (vnodes n))"
    unfolding e using mset_eq_setD [OF m] by simp
  show "sorted (map re_hash (entries (SetNodes f ids)))" unfolding e by (rule s)
  show "entries (SetNodes f ids) = [] \<longleftrightarrow> ids = []"
  proof
    assume "entries (SetNodes f ids) = []"
    with u have "\<forall>n \<in> set ids. set (vnodes n) = {}" by auto
    with vnodes_nonempty show "ids = []" by (cases ids) auto
  next
    assume "ids = []"
    with u show "entries (SetNodes f ids) = []" by simp
  qed
qed

lemma OwnerFor_SetNodes:
  assumes "sorts f" and "ids \<noteq> []"
  obtains n where "OwnerFor (SetNodes f ids) key = Some n" and "n \<in> set ids"
    and "successor_hash (ring_hashes (set ids)) (hashKey key) \<in> re_hash ` set (vnodes n)"
proof -
  note s = SetNodes_entries [OF assms(1), of ids]
  have "re_hash ` set (entries (SetNodes f ids)) = ring_hashes (set ids)" by (auto simp: s(1) ring_hashes_def)
  moreover obtain e where e: "OwnerFor (SetNodes f ids) key = Some (re_node e)" "e \<in> set (entries (SetNodes f ids))"
    "re_hash e = successor_hash (re_hash ` set (entries (SetNodes f ids))) (hashKey key)"
    by (rule OwnerFor_successor [OF s(2)]) (use s(3) assms(2) in auto)
  moreover obtain n where "n \<in> set ids" "e \<in> set (vnodes n)" using e(2) s(1) by auto
  ultimately show thesis using that [of n] re_node_vnodes by (metis imageI)
qed

lemma OwnerFor_unique:
  assumes "no_collision N" and "set a = N" and "a \<noteq> []" and "sorts f"
    and "n \<in> N" and "successor_hash (ring_hashes N) (hashKey key) \<in> re_hash ` set (vnodes n)"
  shows "OwnerFor (SetNodes f a) key = Some n"
proof -
  obtain m where m: "OwnerFor (SetNodes f a) key = Some m" "m \<in> set a"
    "successor_hash (ring_hashes (set a)) (hashKey key) \<in> re_hash ` set (vnodes m)"
    by (rule OwnerFor_SetNodes [OF assms(4,3)])
  with assms(1,2,5,6) have "m = n" unfolding no_collision_def by (metis imageE)
  with m(1) show ?thesis by simp
qed

text \<open>Adding positions moves a key only onto one of them.\<close>

lemma successor_hash_union:
  assumes "finite H" and "finite K" and "H \<noteq> {}"
  shows "successor_hash (H \<union> K) h \<in> K \<or> successor_hash (H \<union> K) h = successor_hash H h"
proof -
  let ?A = "{x \<in> H. h \<le> x}" and ?B = "{x \<in> K. h \<le> x}"
  have ab: "{x \<in> H \<union> K. h \<le> x} = ?A \<union> ?B" by auto
  have fin: "finite ?A" "finite ?B" using assms by auto
  have mu: "Min (X \<union> Y) \<in> Y \<or> Min (X \<union> Y) = Min X" if "finite X" "finite Y" "X \<noteq> {}" for X Y :: "u32 set"
    using that Min_in [of "X \<union> Y"] by (metis Min_le Min_in Un_iff antisym finite_Un Un_empty)
  consider "?A \<noteq> {}" | "?A = {}" "?B \<noteq> {}" | "?A = {}" "?B = {}" by blast
  then show ?thesis
  proof cases
    case 1
    then have "successor_hash H h = Min ?A" "successor_hash (H \<union> K) h = Min (?A \<union> ?B)"
      unfolding successor_hash_def ab by auto
    with mu [OF fin 1] show ?thesis by auto
  next
    case 2
    then have "successor_hash (H \<union> K) h = Min (?A \<union> ?B)" unfolding successor_hash_def ab by auto
    then have "successor_hash (H \<union> K) h = Min ?B" by (simp only: 2(1) Un_empty_left)
    with Min_in [OF fin(2) 2(2)] show ?thesis by simp
  next
    case 3
    then have "successor_hash H h = Min H" "successor_hash (H \<union> K) h = Min (H \<union> K)"
      unfolding successor_hash_def by auto
    with mu [OF assms] show ?thesis by auto
  qed
qed

lemma ring_hashes_props: "finite N \<Longrightarrow> finite (ring_hashes N)" "N \<noteq> {} \<Longrightarrow> ring_hashes N \<noteq> {}"
  "ring_hashes (insert n N) = ring_hashes N \<union> re_hash ` set (vnodes n)"
  using vnodes_nonempty by (auto simp: ring_hashes_def)

section \<open>Properties\<close>

text \<open>All nodes compute the same owner: with the same member set, in whatever order and multiplicity the
  members are listed and however the sort orders equal hashes, every key has the same owner, and
  that owner is a member.\<close>

theorem ownership_agrees:
  assumes "sorts f" and "sorts g" and "set a = set b" and "a \<noteq> []" and "no_collision (set a)"
  shows "\<exists>n \<in> set a. OwnerFor (SetNodes f a) key = Some n \<and> OwnerFor (SetNodes g b) key = Some n"
proof -
  obtain n where n: "OwnerFor (SetNodes f a) key = Some n" "n \<in> set a"
    "successor_hash (ring_hashes (set a)) (hashKey key) \<in> re_hash ` set (vnodes n)"
    by (rule OwnerFor_SetNodes [OF assms(1,4)])
  have "b \<noteq> []" using assms(3,4) by auto
  from OwnerFor_unique [OF assms(5) assms(3) [symmetric] this assms(2) n(2,3)] n show ?thesis by blast
qed

lemma sorts_sort_key: "sorts (sort_key re_hash)"
  by (simp add: sorts_def)

lemma no_collision_single: "no_collision {n}"
  by (simp add: no_collision_def)

theorem ownership_agrees_witness:
  "OwnerFor (SetNodes (sort_key re_hash) [''a'', ''a'']) ''k'' = Some ''a''"
  using ownership_agrees [OF sorts_sort_key sorts_sort_key, of "[''a'', ''a'']" "[''a'']" "''k''"] no_collision_single by auto

text \<open>Adding a node moves keys only to it: after a node joins, every key keeps its owner or is now owned by
  the new node.\<close>

theorem join_moves_minimally:
  assumes "sorts f" and "ids \<noteq> []" and "no_collision (insert n (set ids))"
  shows "OwnerFor (SetNodes f (n # ids)) key = Some n \<or> OwnerFor (SetNodes f (n # ids)) key = OwnerFor (SetNodes f ids) key"
proof -
  let ?h = "hashKey key" and ?N = "set ids"
  have fin: "finite (ring_hashes ?N)" "ring_hashes ?N \<noteq> {}" using ring_hashes_props(1,2) [where N = ?N] assms(2) by auto
  have nc: "no_collision ?N" using assms(3) by (auto simp: no_collision_def)
  consider (new) "successor_hash (ring_hashes (insert n ?N)) ?h \<in> re_hash ` set (vnodes n)"
    | (old) "successor_hash (ring_hashes (insert n ?N)) ?h = successor_hash (ring_hashes ?N) ?h"
    using successor_hash_union [OF fin(1) _ fin(2), of "re_hash ` set (vnodes n)" ?h] unfolding ring_hashes_props(3) by auto
  then show ?thesis
  proof cases
    case new
    with OwnerFor_unique [OF assms(3), of "n # ids" f n key] assms(1) show ?thesis by simp
  next
    case old
    obtain m where m: "OwnerFor (SetNodes f ids) key = Some m" "m \<in> ?N"
      "successor_hash (ring_hashes ?N) ?h \<in> re_hash ` set (vnodes m)" by (rule OwnerFor_SetNodes [OF assms(1,2)])
    with old OwnerFor_unique [OF assms(3), of "n # ids" f m key] assms(1) show ?thesis by simp
  qed
qed

theorem join_moves_minimally_witness:
  "OwnerFor (SetNodes (sort_key re_hash) [''a'', ''a'']) ''k'' = Some ''a'' \<or>
   OwnerFor (SetNodes (sort_key re_hash) [''a'', ''a'']) ''k'' = OwnerFor (SetNodes (sort_key re_hash) [''a'']) ''k''"
  using join_moves_minimally [OF sorts_sort_key, of "[''a'']" "''a''" "''k''"] no_collision_single by simp

lemma collect_members_meta:
  assumes "collect_members ms ids mt = (ids', mt')" and "(n, info) \<in> set mt'"
  shows "(n, info) \<in> set mt \<or> n = NodeID info \<and> Some info \<in> set ms"
  using assms
proof (induction ms ids mt arbitrary: ids' mt' rule: collect_members.induct)
  case (3 i ms ids mt)
  show ?case
  proof (cases "NodeID i = []")
    case True
    with "3.IH"(1) [OF True, of ids' mt'] "3.prems" show ?thesis by auto
  next
    case False
    with "3.IH"(2) [of ids' mt'] "3.prems" show ?thesis by auto
  qed
qed auto

text \<open>Requests are proxied to their owner and no further: when two nodes see the same members, and one of
  them forwards a project's request, then the target is a member other than the node itself,
  and the target handles the request locally, so there are no forwarding loops.\<close>

theorem no_proxy_loop:
  assumes "sorts f" and "sorts g" and "m1 = refreshRing f m1' members" and "m2 = refreshRing g m2' members"
    and "no_collision (set (fst (collect_members members [] [])))" and "OwnerAddr m1 pid = (addr, True)"
  shows "\<exists>info. Some info \<in> set members \<and> addr = APIAddr info \<and> NodeID info \<noteq> NodeID (self m1) \<and>
     (NodeID (self m2) = NodeID info \<longrightarrow> OwnerAddr m2 pid = ([], False))"
proof -
  obtain ids mt where c: "collect_members members [] [] = (ids, mt)" by fastforce
  from assms(3,4) have r: "ring m1 = SetNodes f ids" "meta m1 = mt" "ring m2 = SetNodes g ids" by (auto simp: refreshRing_def c)
  from assms(6) obtain n info where n: "OwnerFor (SetNodes f ids) (project_key pid) = Some n" "n \<noteq> NodeID (self m1)"
    "map_of mt n = Some info" "addr = APIAddr info" by (auto simp: OwnerAddr_def r split: option.splits if_splits)
  have mem: "(n, info) \<in> set mt" using n(3) by (rule map_of_SomeD)
  from collect_members_meta [OF c mem] have info: "n = NodeID info" "Some info \<in> set members" by auto
  have ne: "ids \<noteq> []" using n(1) SetNodes_entries(3) [OF assms(1), of ids] by (auto simp: OwnerFor_def split: if_splits)
  obtain k where k: "OwnerFor (SetNodes f ids) (project_key pid) = Some k" "k \<in> set ids"
    "successor_hash (ring_hashes (set ids)) (hashKey (project_key pid)) \<in> re_hash ` set (vnodes k)"
    by (rule OwnerFor_SetNodes [OF assms(1) ne])
  have "OwnerFor (SetNodes g ids) (project_key pid) = Some k"
    using OwnerFor_unique [OF _ refl ne assms(2) k(2,3)] assms(5) c by simp
  with n k info show ?thesis by (intro exI [of _ info]) (auto simp: OwnerAddr_def r)
qed

definition sample_members :: "NodeInfo option list" where
  "sample_members = [None, Some \<lparr>NodeID = ''b'', APIAddr = ''http://b''\<rparr>]"

definition sample_node :: "string \<Rightarrow> Membership" where
  "sample_node n = \<lparr>ring = NewRing, self = \<lparr>NodeID = n, APIAddr = []\<rparr>, meta = []\<rparr>"

theorem no_proxy_loop_witness:
  "OwnerAddr (refreshRing (sort_key re_hash) (sample_node ''a'') sample_members) 7 = (''http://b'', True) \<and>
   OwnerAddr (refreshRing (sort_key re_hash) (sample_node ''b'') sample_members) 7 = ([], False)"
proof -
  have c: "collect_members sample_members [] [] = ([''b''], [(''b'', \<lparr>NodeID = ''b'', APIAddr = ''http://b''\<rparr>)])"
    by (simp add: sample_members_def)
  obtain n where n: "OwnerFor (SetNodes (sort_key re_hash) [''b'']) (project_key 7) = Some n" "n \<in> set [''b'']"
    by (rule OwnerFor_SetNodes [OF sorts_sort_key, of "[''b'']"]) auto
  then have a: "OwnerAddr (refreshRing (sort_key re_hash) (sample_node ''a'') sample_members) 7 = (''http://b'', True)"
    by (simp add: OwnerAddr_def refreshRing_def c sample_node_def)
  from no_proxy_loop [OF sorts_sort_key sorts_sort_key refl refl _ a, of "sample_node ''b''"] a show ?thesis
    by (auto simp: c sample_node_def refreshRing_def no_collision_single sample_members_def)
qed

end
