(* ===== verification/Authz.thy ===== *)
theory Authz
  imports Main
begin

text \<open>
  Authorization of \<open>internal/authz/authz.go\<close>: permissions, built-in roles, the context of
  an authenticated identity, and the checks. The decision is characterised exactly; narrowing a
  context for an API token never grants anything; the roles form a chain.
\<close>

datatype Permission =
    EventRead | EventAdmin | IssueRead | IssueWrite
  | ProjectRead | ProjectWrite | ProjectAdmin
  | MemberRead | MemberWrite | TeamWrite
  | OrgRead | OrgWrite | AlertsWrite | TokenAdmin | AuditRead | OpsRead

definition AllPermissions :: "Permission list" where
  "AllPermissions = [EventRead, EventAdmin, IssueRead, IssueWrite, ProjectRead, ProjectWrite, ProjectAdmin,
     MemberRead, MemberWrite, TeamWrite, OrgRead, OrgWrite, AlertsWrite, TokenAdmin, AuditRead, OpsRead]"

definition RoleOwner :: string where "RoleOwner = ''owner''"

definition RoleManager :: string where "RoleManager = ''manager''"

definition RoleAdmin :: string where "RoleAdmin = ''admin''"

definition RoleMember :: string where "RoleMember = ''member''"

definition RoleBilling :: string where "RoleBilling = ''billing''"

definition RoleReadOnly :: string where "RoleReadOnly = ''read_only''"

lemmas role_names = RoleOwner_def RoleManager_def RoleAdmin_def RoleMember_def RoleBilling_def RoleReadOnly_def

definition builtinRoles :: "(string \<times> Permission list) list" where
  "builtinRoles =
     [(RoleOwner, [EventRead, EventAdmin, IssueRead, IssueWrite, ProjectRead, ProjectWrite, ProjectAdmin,
                   MemberRead, MemberWrite, TeamWrite, OrgRead, OrgWrite, AlertsWrite, TokenAdmin, AuditRead, OpsRead]),
      (RoleManager, [EventRead, EventAdmin, IssueRead, IssueWrite, ProjectRead, ProjectWrite, ProjectAdmin,
                     MemberRead, MemberWrite, TeamWrite, OrgRead, AlertsWrite, OpsRead]),
      (RoleAdmin, [EventRead, IssueRead, IssueWrite, ProjectRead, ProjectWrite, MemberRead, OrgRead, AlertsWrite, OpsRead]),
      (RoleMember, [EventRead, IssueRead, IssueWrite, ProjectRead, OrgRead, OpsRead]),
      (RoleBilling, [OrgRead]),
      (RoleReadOnly, [IssueRead, ProjectRead, OrgRead, OpsRead])]"

text \<open>A missing key of a Go map reads as \<open>nil\<close>.\<close>

definition RolePermissions :: "string \<Rightarrow> Permission list" where
  "RolePermissions role = (case map_of builtinRoles role of Some ps \<Rightarrow> ps | None \<Rightarrow> [])"

record AuthContext =
  UserID :: int
  ctx_OrgID :: int
  Role :: string
  perms :: "Permission list"
  projectOK :: "(int \<Rightarrow> bool) option"

definition NewAuthContext :: "int \<Rightarrow> int \<Rightarrow> string \<Rightarrow> Permission list \<Rightarrow> (int \<Rightarrow> bool) option \<Rightarrow> AuthContext" where
  "NewAuthContext userID orgID role extraPerms ok =
     \<lparr>UserID = userID, ctx_OrgID = orgID, Role = role,
      perms = fold List.insert extraPerms (fold List.insert (RolePermissions role) []), projectOK = ok\<rparr>"

definition Restrict :: "AuthContext \<Rightarrow> Permission list \<Rightarrow> AuthContext" where
  "Restrict a allowed =
     a\<lparr>perms := fold (\<lambda>p pm. if p \<in> set (perms a) then List.insert p pm else pm) allowed []\<rparr>"

text \<open>\<open>None\<close> is the nil context.\<close>

definition Can :: "AuthContext option \<Rightarrow> Permission \<Rightarrow> bool" where
  "Can a p = (case a of None \<Rightarrow> False | Some c \<Rightarrow> p \<in> set (perms c))"

definition CanProject :: "AuthContext option \<Rightarrow> Permission \<Rightarrow> int \<Rightarrow> bool" where
  "CanProject a p projectID =
     (if \<not> Can a p then False
      else case a of
        None \<Rightarrow> False
      | Some c \<Rightarrow> (case projectOK c of None \<Rightarrow> False | Some f \<Rightarrow> f projectID))"

section \<open>Lemmas\<close>

lemma set_fold_insert: "set (fold List.insert xs ys) = set xs \<union> set ys"
  by (induction xs arbitrary: ys) auto

lemma set_restrict:
  "set (fold (\<lambda>p pm. if p \<in> S then List.insert p pm else pm) allowed pm) = {p \<in> set allowed. p \<in> S} \<union> set pm"
  by (induction allowed arbitrary: pm) auto

lemma Can_Restrict: "Can (Some (Restrict a allowed)) p \<longleftrightarrow> Can (Some a) p \<and> p \<in> set allowed"
  by (auto simp: Can_def Restrict_def set_restrict)

lemma Can_New: "Can (Some (NewAuthContext u org role extra ok)) p \<longleftrightarrow> p \<in> set (RolePermissions role) \<or> p \<in> set extra"
  by (auto simp: Can_def NewAuthContext_def set_fold_insert)

lemma projectOK_New: "projectOK (NewAuthContext u org role extra ok) = ok"
  by (simp add: NewAuthContext_def)

section \<open>Properties\<close>

text \<open>The project check is exact and denies by default: it succeeds if and only if the role or the extra
  grants carry the permission, a membership oracle is wired, and the oracle accepts the project;
  in particular an unknown role with no extra grants is denied everything.\<close>

theorem CanProject_exact:
  "CanProject (Some (NewAuthContext u org role extra ok)) p pid \<longleftrightarrow>
     ((\<exists>ps. map_of builtinRoles role = Some ps \<and> p \<in> set ps) \<or> p \<in> set extra) \<and> (\<exists>f. ok = Some f \<and> f pid)"
  by (cases "map_of builtinRoles role"; cases ok) (simp_all add: CanProject_def Can_New projectOK_New RolePermissions_def)

text \<open>Tokens never escalate: after any chain of restrictions a context can do exactly what it could before
  and every restriction allows, within the same projects.\<close>

theorem Restrict_never_escalates:
  "CanProject (Some (foldl Restrict a alloweds)) p pid \<longleftrightarrow>
     CanProject (Some a) p pid \<and> (\<forall>allowed \<in> set alloweds. p \<in> set allowed)"
proof -
  have "Can (Some (foldl Restrict a alloweds)) p \<longleftrightarrow> Can (Some a) p \<and> (\<forall>allowed \<in> set alloweds. p \<in> set allowed)"
    by (induction alloweds arbitrary: a) (auto simp: Can_Restrict)
  moreover have "projectOK (foldl Restrict a alloweds) = projectOK a"
    by (induction alloweds arbitrary: a) (auto simp: Restrict_def)
  ultimately show ?thesis by (auto simp: CanProject_def split: option.splits)
qed

theorem Restrict_never_escalates_witness:
  "\<not> CanProject (Some (foldl Restrict (NewAuthContext 1 1 ''owner'' [] (Some (\<lambda>_. True))) [[IssueRead], [EventRead]])) IssueRead 3"
  using Restrict_never_escalates [of "NewAuthContext 1 1 ''owner'' [] (Some (\<lambda>_. True))" "[[IssueRead], [EventRead]]" IssueRead 3]
  by simp

text \<open>The built-in roles form a chain of grants (owner, manager, admin, member), the owner has every defined
  permission, the token, audit and organisation-write permissions belong to the owner alone, and
  the read-only and billing roles cannot read raw events or change anything.\<close>

theorem roles_chain:
  "set (RolePermissions ''member'') \<subseteq> set (RolePermissions ''admin'') \<and>
   set (RolePermissions ''admin'') \<subseteq> set (RolePermissions ''manager'') \<and>
   set (RolePermissions ''manager'') \<subseteq> set (RolePermissions ''owner'') \<and>
   set (RolePermissions ''owner'') = set AllPermissions \<and> set AllPermissions = UNIV \<and>
   (\<forall>role. {TokenAdmin, AuditRead, OrgWrite} \<inter> set (RolePermissions role) \<noteq> {} \<longleftrightarrow> role = ''owner'') \<and>
   set (RolePermissions ''read_only'') \<inter> {EventRead, EventAdmin, IssueWrite, ProjectWrite, ProjectAdmin, MemberWrite, TeamWrite, OrgWrite, AlertsWrite, TokenAdmin} = {} \<and>
   set (RolePermissions ''billing'') = {OrgRead}"
proof -
  have univ: "set AllPermissions = UNIV"
  proof -
    have "p \<in> set AllPermissions" for p by (cases p) (simp_all add: AllPermissions_def)
    then show ?thesis by blast
  qed
  moreover have "{TokenAdmin, AuditRead, OrgWrite} \<inter> set (RolePermissions role) \<noteq> {} \<longleftrightarrow> role = ''owner''" for role
    by (auto simp: RolePermissions_def builtinRoles_def role_names split: if_splits)
  ultimately show ?thesis by (simp add: RolePermissions_def builtinRoles_def role_names AllPermissions_def)
qed

end
