(* ===== verification/Go_Text.thy ===== *)
theory Go_Text
  imports Prelude
begin

text \<open>
  What the program uses of \<open>strings\<close>, \<open>bytes\<close>, \<open>unicode/utf8\<close> and
  \<open>path\<close>: trimming white space, searching and splitting, decoding runes, and shell patterns
  (\<open>path.Match\<close>, after the algorithm of the Go library).
\<close>

section \<open>Bytes and characters\<close>

definition bytes_str :: "byte list \<Rightarrow> string" where
  "bytes_str bs = map (\<lambda>b. char_of (unat b)) bs"

lemma unat_of_char [simp]: "unat (of_char c :: byte) = of_char c"
proof -
  have "unat (of_char c :: byte) = unat (of_nat (of_char c) :: byte)" by (simp only: of_nat_of_char)
  also have "\<dots> = of_char c" by (simp add: unat_of_nat)
  finally show ?thesis .
qed

lemma bytes_str_bytes [simp]: "bytes_str (str_bytes s) = s"
  by (simp add: bytes_str_def str_bytes_def comp_def)

section \<open>UTF-8\<close>

definition cont :: "nat \<Rightarrow> bool" where
  "cont b \<longleftrightarrow> 128 \<le> b \<and> b < 192"

text \<open>The length of the encoded rune at the front, 0 when there is none (\<open>utf8.DecodeRune\<close>).\<close>

fun utf8_len :: "nat list \<Rightarrow> nat" where
  "utf8_len (a # bs) =
     (if a < 128 then 1
      else if 194 \<le> a \<and> a < 224 then (case bs of b # _ \<Rightarrow> if cont b then 2 else 0 | _ \<Rightarrow> 0)
      else if 224 \<le> a \<and> a < 240 then
        (case bs of b # c # _ \<Rightarrow> if cont b \<and> cont c \<and> (a = 224 \<longrightarrow> 160 \<le> b) \<and> (a = 237 \<longrightarrow> b < 160) then 3 else 0 | _ \<Rightarrow> 0)
      else if 240 \<le> a \<and> a < 245 then
        (case bs of b # c # d # _ \<Rightarrow>
           if cont b \<and> cont c \<and> cont d \<and> (a = 240 \<longrightarrow> 144 \<le> b) \<and> (a = 244 \<longrightarrow> b < 144) then 4 else 0 | _ \<Rightarrow> 0)
      else 0)"
| "utf8_len [] = 0"

definition utf8_enc :: "nat \<Rightarrow> string" where
  "utf8_enc r = map char_of
     (if r < 128 then [r]
      else if r < 2048 then [192 + r div 64, 128 + r mod 64]
      else if r < 65536 then [224 + r div 4096, 128 + r div 64 mod 64, 128 + r mod 64]
      else [240 + r div 262144, 128 + r div 4096 mod 64, 128 + r div 64 mod 64, 128 + r mod 64])"

definition rune_error :: string where
  "rune_error = utf8_enc 65533"

text \<open>\<open>utf8.DecodeRuneInString\<close>: the rune and its width; \<open>RuneError\<close> for what is no encoding.\<close>

definition decode_rune :: "string \<Rightarrow> nat \<times> nat" where
  "decode_rune s =
     (let bs = map of_char (take 4 s) in
      if s = [] then (65533, 0)
      else case utf8_len bs of
        0 \<Rightarrow> (65533, 1)
      | Suc 0 \<Rightarrow> (bs ! 0, 1)
      | Suc (Suc 0) \<Rightarrow> ((bs ! 0 - 192) * 64 + (bs ! 1 - 128), 2)
      | Suc (Suc (Suc 0)) \<Rightarrow> ((bs ! 0 - 224) * 4096 + (bs ! 1 - 128) * 64 + (bs ! 2 - 128), 3)
      | _ \<Rightarrow> ((bs ! 0 - 240) * 262144 + (bs ! 1 - 128) * 4096 + (bs ! 2 - 128) * 64 + (bs ! 3 - 128), 4))"

lemma decode_rune_width: "s \<noteq> [] \<Longrightarrow> 0 < snd (decode_rune s)"
  by (auto simp: decode_rune_def Let_def split: nat.splits)

section \<open>White space\<close>

text \<open>
  \<open>len(bytes.TrimSpace(line)) == 0\<close>: nothing but white space, the ASCII ones and the
  encodings of the other Unicode spaces.
\<close>

definition ascii_space :: "byte \<Rightarrow> bool" where
  "ascii_space b \<longleftrightarrow> b = 32 \<or> (9 \<le> b \<and> b \<le> 13)"

fun space_len :: "byte list \<Rightarrow> nat" where
  "space_len (a # bs) =
     (if ascii_space a then 1
      else if a = 0xC2 then (case bs of b # _ \<Rightarrow> if b = 0x85 \<or> b = 0xA0 then 2 else 0 | _ \<Rightarrow> 0)
      else case bs of
        b # c # _ \<Rightarrow>
          if a = 0xE1 \<and> b = 0x9A \<and> c = 0x80 \<or> a = 0xE2 \<and> b = 0x80 \<and> (0x80 \<le> c \<and> c \<le> 0x8A \<or> c = 0xA8 \<or> c = 0xA9 \<or> c = 0xAF) \<or>
             a = 0xE2 \<and> b = 0x81 \<and> c = 0x9F \<or> a = 0xE3 \<and> b = 0x80 \<and> c = 0x80
          then 3 else 0
      | _ \<Rightarrow> 0)"
| "space_len [] = 0"

function blank :: "byte list \<Rightarrow> bool" where
  "blank bs = (if bs = [] then True else if space_len bs = 0 then False else blank (drop (space_len bs) bs))"
  by pat_completeness auto
termination
  by (relation "measure length") auto

declare blank.simps [simp del]

lemma blank_Nil [simp]: "blank []"
  by (simp add: blank.simps)

text \<open>\<open>strings.TrimSpace\<close>: spaces off the front, then off the end.\<close>

function trim_left :: "string \<Rightarrow> string" where
  "trim_left s = (if s = [] \<or> space_len (str_bytes s) = 0 then s else trim_left (drop (space_len (str_bytes s)) s))"
  by pat_completeness auto
termination
  by (relation "measure length") auto

declare trim_left.simps [simp del]

text \<open>The width of the space encoded at the very end.\<close>

definition space_end :: "string \<Rightarrow> nat" where
  "space_end s =
     (if s = [] then 0
      else if space_len (str_bytes [last s]) = 1 then 1
      else if 2 \<le> length s \<and> space_len (str_bytes (drop (length s - 2) s)) = 2 then 2
      else if 3 \<le> length s \<and> space_len (str_bytes (drop (length s - 3) s)) = 3 then 3
      else 0)"

function trim_right :: "string \<Rightarrow> string" where
  "trim_right s = (if space_end s = 0 then s else trim_right (take (length s - space_end s) s))"
  by pat_completeness auto
termination
  by (relation "measure length") (auto simp: space_end_def split: if_splits)

declare trim_right.simps [simp del]

definition trim_space :: "string \<Rightarrow> string" where
  "trim_space s = trim_right (trim_left s)"

section \<open>Searching and splitting\<close>

fun str_index :: "string \<Rightarrow> string \<Rightarrow> nat option" where
  "str_index [] sub = (if sub = [] then Some 0 else None)"
| "str_index (c # s) sub = (if prefix sub (c # s) then Some 0 else map_option Suc (str_index s sub))"

definition str_contains :: "string \<Rightarrow> string \<Rightarrow> bool" where
  "str_contains s sub \<longleftrightarrow> str_index s sub \<noteq> None"

lemma str_index_Some:
  "str_index s sub = Some i \<Longrightarrow> prefix sub (drop i s) \<and> (\<forall>k < i. \<not> prefix sub (drop k s)) \<and> i + length sub \<le> length s"
proof (induction s arbitrary: i)
  case Nil
  then show ?case by (simp split: if_splits)
next
  case (Cons c s)
  show ?case
  proof (cases "prefix sub (c # s)")
    case True
    with Cons.prems show ?thesis by (auto dest: prefix_length_le)
  next
    case False
    with Cons.prems obtain j where j: "str_index s sub = Some j" "i = Suc j" by auto
    from Cons.IH [OF j(1)] have "prefix sub (drop j s)" "\<forall>k < j. \<not> prefix sub (drop k s)" "j + length sub \<le> length s" by auto
    moreover have "\<not> prefix sub (drop k (c # s))" if "k < Suc j" for k
      using that False calculation(2) by (cases k) auto
    ultimately show ?thesis using j(2) by auto
  qed
qed

lemma str_index_None: "str_index s sub = None \<Longrightarrow> \<not> prefix sub (drop k s)"
proof (induction s arbitrary: k)
  case Nil
  then show ?case by (simp split: if_splits)
next
  case (Cons c s)
  then show ?case by (cases k) (auto split: if_splits)
qed

text \<open>\<open>strings.Split\<close> with a non-empty separator.\<close>

function split_on :: "string \<Rightarrow> string \<Rightarrow> string list" where
  "split_on sep s =
     (if sep = [] then [s]
      else case str_index s sep of None \<Rightarrow> [s] | Some i \<Rightarrow> take i s # split_on sep (drop (i + length sep) s))"
  by pat_completeness auto
termination
proof (relation "measure (\<lambda>(sep, s). length s)")
  fix sep s i
  assume "sep \<noteq> []" "str_index s sep = Some i"
  then show "((sep, drop (i + length sep) s), sep, s) \<in> measure (\<lambda>(sep, s). length s)"
    by (cases sep) (auto dest: str_index_Some)
qed simp

declare split_on.simps [simp del]

section \<open>Shell patterns\<close>

text \<open>\<open>path.Match\<close>; \<open>None\<close> is \<open>ErrBadPattern\<close>.\<close>

definition getEsc :: "string \<Rightarrow> (nat \<times> string) option" where
  "getEsc chunk =
     (case chunk of
        [] \<Rightarrow> None
      | c # t \<Rightarrow>
          if c = CHR ''-'' \<or> c = CHR '']'' then None
          else
            let ch = (if c = CHR 0x5C then t else chunk) in
            if ch = [] then None
            else case decode_rune ch of
              (r, n) \<Rightarrow> if r = 65533 \<and> n = 1 \<or> drop n ch = [] then None else Some (r, drop n ch))"

lemma getEsc_shorter: "getEsc chunk = Some (r, t) \<Longrightarrow> length t < length chunk \<and> t \<noteq> []"
proof -
  assume g: "getEsc chunk = Some (r, t)"
  then obtain c s where c: "chunk = c # s" by (auto simp: getEsc_def split: list.splits)
  define ch where "ch = (if c = CHR 0x5C then s else chunk)"
  obtain q n where q: "decode_rune ch = (q, n)" by fastforce
  from g c q have ne: "ch \<noteq> []" "t = drop n ch" "t \<noteq> []" by (auto simp: getEsc_def ch_def split: if_splits)
  have "0 < n" using decode_rune_width [OF ne(1)] q by simp
  moreover have "length ch \<le> length chunk" by (simp add: ch_def c)
  moreover have "0 < length ch" using ne(1) by simp
  ultimately have "length t < length chunk" unfolding ne(2) length_drop by linarith
  with ne(3) show ?thesis by simp
qed

function match_ranges :: "nat \<Rightarrow> string \<Rightarrow> nat \<Rightarrow> bool \<Rightarrow> (bool \<times> string) option" where
  "match_ranges r chunk nrange matched =
     (if chunk \<noteq> [] \<and> hd chunk = CHR '']'' \<and> 0 < nrange then Some (matched, drop 1 chunk)
      else case getEsc chunk of
        None \<Rightarrow> None
      | Some (lo, c1) \<Rightarrow>
          if hd c1 = CHR ''-'' then
            (case getEsc (drop 1 c1) of
               None \<Rightarrow> None
             | Some (hi, c2) \<Rightarrow> match_ranges r c2 (Suc nrange) (matched \<or> lo \<le> r \<and> r \<le> hi))
          else match_ranges r c1 (Suc nrange) (matched \<or> r = lo))"
  by pat_completeness auto
termination
  by (relation "measure (\<lambda>(r, chunk, n, m). length chunk)") (auto dest!: getEsc_shorter)

declare match_ranges.simps [simp del]

lemma match_ranges_shorter: "match_ranges r chunk n m = Some (b, t) \<Longrightarrow> length t < length chunk"
proof (induction r chunk n m rule: match_ranges.induct)
  case (1 r chunk n m)
  show ?case
  proof (cases "chunk \<noteq> [] \<and> hd chunk = CHR '']'' \<and> 0 < n")
    case True
    with "1.prems" show ?thesis by (subst (asm) match_ranges.simps) (cases chunk, auto)
  next
    case False
    with "1.prems" obtain lo c1 where g: "getEsc chunk = Some (lo, c1)" by (subst (asm) match_ranges.simps) (auto split: option.splits)
    show ?thesis
    proof (cases "hd c1 = CHR ''-''")
      case True
      with False g "1.prems" obtain hi c2 where h: "getEsc (drop 1 c1) = Some (hi, c2)"
        "match_ranges r c2 (Suc n) (m \<or> lo \<le> r \<and> r \<le> hi) = Some (b, t)" by (subst (asm) match_ranges.simps) (auto split: option.splits)
      from "1.IH"(1) [OF False g refl True h(1) refl h(2)] getEsc_shorter [OF g] getEsc_shorter [OF h(1)] show ?thesis by (simp only: length_drop) linarith
    next
      case nd: False
      with False g "1.prems" have "match_ranges r c1 (Suc n) (m \<or> r = lo) = Some (b, t)" by (subst (asm) match_ranges.simps) auto
      from "1.IH"(2) [OF False g refl nd this] getEsc_shorter [OF g] show ?thesis by simp
    qed
  qed
qed

function matchChunk :: "string \<Rightarrow> string \<Rightarrow> bool \<Rightarrow> (string \<times> bool) option" where
  "matchChunk chunk s failed0 =
     (if chunk = [] then Some (if failed0 then ([], False) else (s, True))
      else
        let failed = (failed0 \<or> s = []); c = hd chunk; c1 = drop 1 chunk in
        if c = CHR ''['' then
          (let (r, s1) = (if failed then (0, s) else case decode_rune s of (r, n) \<Rightarrow> (r, drop n s));
               negated = (c1 \<noteq> [] \<and> hd c1 = CHR ''^'');
               c2 = (if negated then drop 1 c1 else c1)
           in case match_ranges r c2 0 False of
                None \<Rightarrow> None
              | Some (m, c3) \<Rightarrow> matchChunk c3 s1 (failed \<or> m = negated))
        else if c = CHR ''?'' then
          (if failed then matchChunk c1 s True
           else matchChunk c1 (drop (snd (decode_rune s)) s) (hd s = CHR ''/''))
        else if c = CHR 0x5C \<and> c1 = [] then None
        else
          let lit = (if c = CHR 0x5C then hd c1 else c); rest = (if c = CHR 0x5C then drop 1 c1 else c1) in
          if failed then matchChunk rest s True else matchChunk rest (drop 1 s) (lit \<noteq> hd s))"
  by pat_completeness auto
termination
proof (relation "measure (\<lambda>(chunk, s, f). length chunk)", goal_cases)
  case 1
  then show ?case by simp
next
  case (2 chunk s failed0 x xa xb xc y za zb zc zd ze)
  then show ?case by (auto dest!: match_ranges_shorter split: if_splits)
qed (auto simp: Let_def)

declare matchChunk.simps [simp del]

fun scan_len :: "bool \<Rightarrow> string \<Rightarrow> nat" where
  "scan_len inrange [] = 0"
| "scan_len inrange (c # t) =
     (if c = CHR 0x5C then (case t of [] \<Rightarrow> 1 | _ # t' \<Rightarrow> Suc (Suc (scan_len inrange t')))
      else if c = CHR ''['' then Suc (scan_len True t)
      else if c = CHR '']'' then Suc (scan_len False t)
      else if c = CHR ''*'' \<and> \<not> inrange then 0
      else Suc (scan_len inrange t))"

definition scanChunk :: "string \<Rightarrow> bool \<times> string \<times> string" where
  "scanChunk pat =
     (let p = dropWhile (\<lambda>c. c = CHR ''*'') pat; n = scan_len False p
      in (pat \<noteq> [] \<and> hd pat = CHR ''*'', take n p, drop n p))"

lemma scan_len_pos: "p \<noteq> [] \<Longrightarrow> hd p \<noteq> CHR ''*'' \<Longrightarrow> 0 < scan_len False p"
  by (cases p) (auto split: list.splits)

lemma scanChunk_shorter:
  assumes "scanChunk pat = (star, chunk, rest)" and "pat \<noteq> []"
  shows "length rest < length pat"
proof -
  let ?p = "dropWhile (\<lambda>c. c = CHR ''*'') pat"
  have rest: "rest = drop (scan_len False ?p) ?p" using assms(1) by (simp add: scanChunk_def Let_def)
  have le: "length ?p \<le> length pat" by (rule length_dropWhile_le)
  show ?thesis
  proof (cases "?p = []")
    case True
    with rest assms(2) show ?thesis by simp
  next
    case False
    then have "0 < scan_len False ?p" using hd_dropWhile [OF False] by (intro scan_len_pos) auto
    moreover have "0 < length ?p" using False by simp
    ultimately show ?thesis unfolding rest length_drop using le by linarith
  qed
qed

text \<open>Looking for the chunk after skipping bytes other than a slash.\<close>

fun skip_match :: "string \<Rightarrow> bool \<Rightarrow> string \<Rightarrow> string option option" where
  "skip_match chunk is_last [] = Some None"
| "skip_match chunk is_last (c # s) =
     (if c = CHR ''/'' then Some None
      else case matchChunk chunk s False of
        None \<Rightarrow> None
      | Some (t, ok) \<Rightarrow> if ok \<and> \<not> (is_last \<and> t \<noteq> []) then Some (Some t) else skip_match chunk is_last s)"

text \<open>The rest of a pattern that does not match must still be well-formed.\<close>

function check_rest :: "string \<Rightarrow> bool option" where
  "check_rest pat =
     (if pat = [] then Some False
      else case scanChunk pat of (_, chunk, rest) \<Rightarrow> (case matchChunk chunk [] False of None \<Rightarrow> None | Some _ \<Rightarrow> check_rest rest))"
  by pat_completeness auto
termination
  by (relation "measure length") (auto dest: scanChunk_shorter [OF sym])

declare check_rest.simps [simp del]

function path_Match :: "string \<Rightarrow> string \<Rightarrow> bool option" where
  "path_Match pat name =
     (if pat = [] then Some (name = [])
      else case scanChunk pat of
        (star, chunk, rest) \<Rightarrow>
          if star \<and> chunk = [] then Some (CHR ''/'' \<notin> set name)
          else case matchChunk chunk name False of
            None \<Rightarrow> None
          | Some (t, ok) \<Rightarrow>
              if ok \<and> (t = [] \<or> rest \<noteq> []) then path_Match rest t
              else if star then
                (case skip_match chunk (rest = []) name of
                   None \<Rightarrow> None
                 | Some (Some t') \<Rightarrow> path_Match rest t'
                 | Some None \<Rightarrow> check_rest rest)
              else check_rest rest)"
  by pat_completeness auto
termination
  by (relation "measure (\<lambda>(pat, name). length pat)") (auto dest: scanChunk_shorter [OF sym])

declare path_Match.simps [simp del]

text \<open>A pattern without special characters matches exactly itself.\<close>

definition literal :: "string \<Rightarrow> bool" where
  "literal p \<longleftrightarrow> (\<forall>c \<in> set p. c \<noteq> CHR ''*'' \<and> c \<noteq> CHR ''?'' \<and> c \<noteq> CHR ''['' \<and> c \<noteq> CHR 0x5C)"

lemma matchChunk_literal: "literal p \<Longrightarrow> matchChunk p s f = Some (if f \<or> \<not> prefix p s then ([], False) else (drop (length p) s, True))"
proof (induction p arbitrary: s f)
  case Nil
  then show ?case by (subst matchChunk.simps) simp
next
  case (Cons c p)
  then have lit: "literal p" by (simp add: literal_def)
  show ?case
    using Cons.prems Cons.IH [OF lit] by (subst matchChunk.simps) (cases s, auto simp: literal_def Let_def)
qed

lemma scan_len_literal: "literal p \<Longrightarrow> scan_len False p = length p"
  by (induction p) (auto simp: literal_def split: list.splits)

lemma path_Match_literal: "literal p \<Longrightarrow> path_Match p s = Some (s = p)"
proof (cases p)
  case Nil
  then show ?thesis by (subst path_Match.simps) simp
next
  case (Cons c t)
  assume lit: "literal p"
  then have "dropWhile (\<lambda>c. c = CHR ''*'') p = p" "hd p \<noteq> CHR ''*''" using Cons by (auto simp: literal_def)
  then have sc: "scanChunk p = (False, p, [])" using scan_len_literal [OF lit] by (simp add: scanChunk_def)
  have "path_Match [] x = Some (x = [])" "check_rest [] = Some False" for x by (subst path_Match.simps check_rest.simps, simp)+
  then show ?thesis
    using Cons sc matchChunk_literal [OF lit, of s False] by (subst path_Match.simps) (auto simp: prefix_def)
qed

section \<open>Hexadecimal\<close>

definition hex_char :: "nat \<Rightarrow> char" where
  "hex_char n = (if n < 10 then char_of (48 + n) else char_of (87 + n))"

definition hex_encode :: "byte list \<Rightarrow> string" where
  "hex_encode bs = concat (map (\<lambda>b. [hex_char (unat b div 16), hex_char (unat b mod 16)]) bs)"

lemma length_hex_encode: "length (hex_encode bs) = 2 * length bs"
  by (induction bs) (simp_all add: hex_encode_def)

lemma hex_char_inj: "m < 16 \<Longrightarrow> n < 16 \<Longrightarrow> hex_char m = hex_char n \<Longrightarrow> m = n"
  unfolding hex_char_def by (auto dest: arg_cong [of _ _ "of_char :: char \<Rightarrow> nat"] split: if_splits)

lemma hex_encode_inj: "hex_encode xs = hex_encode ys \<Longrightarrow> xs = ys"
proof (induction xs arbitrary: ys)
  case Nil
  then show ?case by (cases ys) (simp_all add: hex_encode_def)
next
  case (Cons x xs)
  from Cons.prems obtain y ys' where ys: "ys = y # ys'" by (cases ys) (simp_all add: hex_encode_def)
  have lt: "unat a < 256" for a :: byte using unsigned_less [of a] by simp
  from Cons.prems ys have "hex_char (unat x div 16) = hex_char (unat y div 16)" "hex_char (unat x mod 16) = hex_char (unat y mod 16)"
    and tl: "hex_encode xs = hex_encode ys'" by (simp_all add: hex_encode_def)
  then have "unat x div 16 = unat y div 16" "unat x mod 16 = unat y mod 16" using lt [of x] lt [of y] by (auto intro!: hex_char_inj)
  then have "unat x = unat y" by (metis div_mult_mod_eq)
  then have "x = y" by (simp add: word_unat_eq_iff)
  then show ?case using ys Cons.IH [OF tl] by simp
qed

end
