(* ===== verification/Search.thy ===== *)
theory Search
  imports Go_Text
begin

text \<open>
  The issue query language of \<open>internal/search/search.go\<close>: tokenising with quotes and
  parsing into a filter. Strings are byte strings; the tokeniser ranges over their runes and writes
  each back, so a byte that is no UTF-8 leaves it as U+FFFD. The results: a rendered filter parses
  back to itself (with such bytes replaced), and a query is accepted only if every
  \<open>key:value\<close> token has a known key and a valid status.
\<close>

section \<open>Runes\<close>

text \<open>\<open>for _, r := range s\<close>: the runes of a string; a byte that starts no encoding is \<open>RuneError\<close>.\<close>

function runes :: "string \<Rightarrow> nat list" where
  "runes s = (if s = [] then [] else case decode_rune s of (r, n) \<Rightarrow> r # runes (drop n s))"
  by pat_completeness auto
termination
proof (relation "measure length")
  fix s :: string and r n
  assume "s \<noteq> []" and "(r, n) = decode_rune s"
  then have "0 < n" using decode_rune_width [of s] by (metis snd_conv)
  with \<open>s \<noteq> []\<close> show "(drop n s, s) \<in> measure length" by simp
qed simp

declare runes.simps [simp del]

definition write_runes :: "nat list \<Rightarrow> string" where
  "write_runes rs = concat (map utf8_enc rs)"

text \<open>A string after its runes were written back one by one.\<close>

definition to_valid :: "string \<Rightarrow> string" where
  "to_valid s = write_runes (runes s)"

text \<open>
  \<open>strings.ToLower\<close> as far as an ASCII result goes: besides the ASCII capitals, two runes
  lower to an ASCII letter, the dotted capital I (U+0130) and the Kelvin sign (U+212A). Every other
  rune lowers to a rune outside ASCII and is left alone here; the keys it is compared with are ASCII.
\<close>

definition lower_rune :: "nat \<Rightarrow> nat" where
  "lower_rune r = (if 65 \<le> r \<and> r \<le> 90 then r + 32 else if r = 0x130 then 105 else if r = 0x212A then 107 else r)"

definition lower_key :: "string \<Rightarrow> string" where
  "lower_key s = write_runes (map lower_rune (runes s))"

section \<open>Tokens\<close>

fun tok_loop :: "nat list \<Rightarrow> string list \<Rightarrow> string \<Rightarrow> bool \<Rightarrow> string list" where
  "tok_loop [] out cur inQuote = (if cur \<noteq> [] then out @ [cur] else out)"
| "tok_loop (r # q) out cur inQuote =
     (if r = 0x22 then tok_loop q out (cur @ utf8_enc r) (\<not> inQuote)
      else if r = 0x20 \<and> \<not> inQuote then
        (if cur \<noteq> [] then tok_loop q (out @ [cur]) [] inQuote else tok_loop q out cur inQuote)
      else tok_loop q out (cur @ utf8_enc r) inQuote)"

definition tokenize :: "string \<Rightarrow> string list" where
  "tokenize q = tok_loop (runes q) [] [] False"

section \<open>Parsing\<close>

record search_filter =
  f_Status :: string
  f_Level :: string
  f_Release :: string
  f_Environment :: string
  f_UserID :: string
  f_Fingerprint :: string
  f_Text :: string

definition empty_filter :: search_filter where
  "empty_filter = \<lparr>f_Status = [], f_Level = [], f_Release = [], f_Environment = [], f_UserID = [], f_Fingerprint = [], f_Text = []\<rparr>"

definition NeedsEventLookup :: "search_filter \<Rightarrow> bool" where
  "NeedsEventLookup f \<longleftrightarrow> f_Release f \<noteq> [] \<or> f_Environment f \<noteq> [] \<or> f_UserID f \<noteq> []"

definition validStatus :: "string list" where
  "validStatus = [''unresolved'', ''resolved'', ''ignored'', ''regressed'']"

datatype search_err = InvalidStatus string | UnknownKey string

text \<open>\<open>strings.Cut(tok, ":")\<close>, \<open>strings.Trim(val, "\"")\<close>, \<open>strings.Join\<close>.\<close>

definition cut_colon :: "string \<Rightarrow> (string \<times> string) option" where
  "cut_colon tok =
     (if CHR '':'' \<in> set tok
      then Some (takeWhile (\<lambda>c. c \<noteq> CHR '':'') tok, tl (dropWhile (\<lambda>c. c \<noteq> CHR '':'') tok))
      else None)"

definition trim_quotes :: "string \<Rightarrow> string" where
  "trim_quotes s = rev (dropWhile (\<lambda>c. c = CHR 0x22) (rev (dropWhile (\<lambda>c. c = CHR 0x22) s)))"

fun join_with :: "string \<Rightarrow> string list \<Rightarrow> string" where
  "join_with sep [] = []"
| "join_with sep [x] = x"
| "join_with sep (x # y # xs) = x @ sep @ join_with sep (y # xs)"

definition set_key :: "search_filter \<Rightarrow> string \<Rightarrow> string \<Rightarrow> search_err + search_filter" where
  "set_key f key val =
     (let k = lower_key key in
      if k = ''is'' then (if val \<in> set validStatus then Inr (f\<lparr>f_Status := val\<rparr>) else Inl (InvalidStatus val))
      else if k = ''level'' then Inr (f\<lparr>f_Level := val\<rparr>)
      else if k = ''release'' then Inr (f\<lparr>f_Release := val\<rparr>)
      else if k = ''environment'' \<or> k = ''env'' then Inr (f\<lparr>f_Environment := val\<rparr>)
      else if k = ''user'' \<or> k = ''user.id'' then Inr (f\<lparr>f_UserID := val\<rparr>)
      else if k = ''fingerprint'' then Inr (f\<lparr>f_Fingerprint := val\<rparr>)
      else Inl (UnknownKey key))"

fun parse_tokens :: "string list \<Rightarrow> search_filter \<Rightarrow> string list \<Rightarrow> search_err + search_filter" where
  "parse_tokens [] f words = Inr (f\<lparr>f_Text := join_with '' '' words\<rparr>)"
| "parse_tokens (tok # toks) f words =
     (case cut_colon tok of
        None \<Rightarrow> parse_tokens toks f (words @ [tok])
      | Some (key, val) \<Rightarrow>
          (case set_key f key (trim_quotes val) of
             Inl e \<Rightarrow> Inl e
           | Inr f' \<Rightarrow> parse_tokens toks f' words))"

definition search_Parse :: "string \<Rightarrow> search_err + search_filter" where
  "search_Parse q = parse_tokens (tokenize q) empty_filter []"

section \<open>Runes of a string\<close>

abbreviation is_ascii :: "char \<Rightarrow> bool" where
  "is_ascii c \<equiv> of_char c < (128 :: nat)"

lemma utf8_enc_ascii: "is_ascii c \<Longrightarrow> utf8_enc (of_char c) = [c]"
  by (simp add: utf8_enc_def)

lemma utf8_error: "utf8_enc 65533 = [CHR 0xEF, CHR 0xBF, CHR 0xBD]"
proof -
  have "map char_of [239, 191, 189 :: nat] = [CHR 0xEF, CHR 0xBF, CHR 0xBD]" by code_simp
  then show ?thesis by (simp add: utf8_enc_def)
qed

lemma utf8_enc_ne [simp]: "utf8_enc r \<noteq> []"
  by (simp add: utf8_enc_def)

lemma utf8_len_bounds: "utf8_len bs \<le> length bs" "utf8_len bs \<le> 4"
  by (cases bs rule: utf8_len.cases; auto split: list.splits)+

text \<open>An ASCII character is never part of a longer encoding, so it separates the runes around it.\<close>

lemma utf8_len_append:
  assumes "a \<noteq> []" and "is_ascii c"
  shows "utf8_len (map of_char (take 4 (a @ c # b))) = utf8_len (map of_char (take 4 a))"
proof -
  have nc: "\<not> cont (of_char c)" using assms(2) by (simp add: cont_def)
  from assms(1) consider a1 where "a = [a1]" | a1 a2 where "a = [a1, a2]" | a1 a2 a3 where "a = [a1, a2, a3]"
    | a1 a2 a3 a4 t where "a = a1 # a2 # a3 # a4 # t"
    by (metis list.exhaust)
  then show ?thesis using nc by cases (auto simp: numeral_eq_Suc split: list.splits)
qed

lemma decode_rune_append:
  assumes "a \<noteq> []" and "is_ascii c"
  shows "decode_rune (a @ c # b) = decode_rune a" and "snd (decode_rune a) \<le> length a"
proof -
  let ?n = "utf8_len (map of_char (take 4 a))"
  have n: "?n \<le> length a" using utf8_len_bounds(1) [of "map of_char (take 4 a)"] by simp
  have nth: "map of_char (take 4 (a @ c # b)) ! i = map of_char (take 4 a) ! i" if "i < ?n" for i
    using that n utf8_len_bounds(2) [of "map of_char (take 4 a)"] by (simp add: nth_append)
  show "decode_rune (a @ c # b) = decode_rune a"
    unfolding decode_rune_def Let_def utf8_len_append [OF assms] using assms(1) nth
    by (auto split: nat.splits)
  show "snd (decode_rune a) \<le> length a"
    using n assms(1) utf8_len_bounds(2) [of "map of_char (take 4 a)"] by (auto simp: decode_rune_def Let_def Suc_le_eq split: nat.splits)
qed

lemma decode_rune_ascii: "is_ascii c \<Longrightarrow> decode_rune (c # s) = (of_char c, 1)"
  by (simp add: decode_rune_def Let_def)

lemma runes_Nil [simp]: "runes [] = []"
  by (simp add: runes.simps)

lemma runes_ascii [simp]: "is_ascii c \<Longrightarrow> runes (c # s) = of_char c # runes s"
  by (subst runes.simps) (simp add: decode_rune_ascii)

lemma runes_append: "is_ascii c \<Longrightarrow> runes (a @ c # b) = runes a @ of_char c # runes b"
proof (induction a rule: runes.induct)
  case (1 a)
  show ?case
  proof (cases "a = []")
    case False
    obtain r n where d: "decode_rune a = (r, n)" by fastforce
    with decode_rune_append [OF False "1.prems"(1)] have e: "decode_rune (a @ c # b) = (r, n)" "n \<le> length a" by auto
    then have "runes (a @ c # b) = r # runes (drop n a @ c # b)" by (subst runes.simps) simp
    moreover have "runes a = r # runes (drop n a)" using False d by (subst runes.simps) simp
    ultimately show ?thesis using "1.IH" [OF False d [symmetric]] "1.prems" by simp
  qed (simp add: "1.prems")
qed

lemma write_runes_simps [simp]:
  "write_runes [] = []" "write_runes (r # rs) = utf8_enc r @ write_runes rs" "write_runes (xs @ ys) = write_runes xs @ write_runes ys"
  by (simp_all add: write_runes_def)

lemma to_valid_append: "is_ascii c \<Longrightarrow> to_valid (a @ c # b) = to_valid a @ c # to_valid b"
  by (simp add: to_valid_def runes_append utf8_enc_ascii)

lemma to_valid_ascii [simp]: "to_valid [] = []" "is_ascii c \<Longrightarrow> to_valid (c # s) = c # to_valid s"
  by (simp_all add: to_valid_def utf8_enc_ascii)

lemma to_valid_bad: "to_valid (CHR 0xFF # s) = [CHR 0xEF, CHR 0xBF, CHR 0xBD] @ to_valid s"
  by (simp add: to_valid_def runes.simps [of "CHR 0xFF # s"] decode_rune_def utf8_error)

lemma to_valid_Nil_iff [simp]: "to_valid s = [] \<longleftrightarrow> s = []"
proof
  assume "to_valid s = []"
  then show "s = []" by (cases "s = []") (auto simp: to_valid_def runes.simps [of s] split: prod.splits)
qed simp

lemma decode_rune_small:
  assumes "s \<noteq> []" and "decode_rune s = (r, n)" and "r < 128"
  shows "r = of_char (hd s)"
proof -
  define bs :: "nat list" where "bs = map of_char (take 4 s)"
  have hd: "bs ! 0 = of_char (hd s)" using assms(1) by (simp add: bs_def hd_conv_nth)
  consider "utf8_len bs = 0" | "utf8_len bs = 1" | "utf8_len bs \<ge> 2" by linarith
  then show ?thesis
  proof cases
    case 3
    have "128 \<le> r" using 3 assms(1,2)
      by (cases bs rule: utf8_len.cases) (auto simp: decode_rune_def Let_def cont_def split: list.splits nat.splits if_splits simp flip: bs_def)
    with assms(3) show ?thesis by simp
  qed (use assms hd in \<open>auto simp: decode_rune_def Let_def simp flip: bs_def\<close>)
qed

lemma runes_small: "r \<in> set (runes s) \<Longrightarrow> r < 128 \<Longrightarrow> \<exists>c \<in> set s. r = of_char c"
proof (induction s rule: runes.induct)
  case (1 s)
  show ?case
  proof (cases "s = []")
    case False
    obtain q n where d: "decode_rune s = (q, n)" by fastforce
    have "runes s = q # runes (drop n s)" using False d by (subst runes.simps) simp
    with "1.prems"(1) consider "r = q" | "r \<in> set (runes (drop n s))" by auto
    then show ?thesis
    proof cases
      case 1
      with decode_rune_small [OF False d] "1.prems"(2) show ?thesis using False by (intro bexI [of _ "hd s"]) auto
    next
      case 2
      from "1.IH" [OF False d [symmetric] 2 "1.prems"(2)] show ?thesis by (meson in_set_dropD)
    qed
  qed (use "1.prems" in simp)
qed

lemma runes_not: "is_ascii c \<Longrightarrow> c \<notin> set s \<Longrightarrow> of_char c \<notin> set (runes s)"
  using runes_small [of "of_char c" s] by auto

lemma utf8_enc2:
  fixes x y :: nat
  assumes "2 \<le> x" "x < 32" "y < 64" shows "utf8_enc (x * 64 + y) = map char_of [192 + x, 128 + y]"
proof -
  have "(x * 64 + y) div 64 = x" "(x * 64 + y) mod 64 = y" "128 \<le> x * 64 + y" "x * 64 + y < 2048" using assms by simp_all
  then show ?thesis by (simp add: utf8_enc_def)
qed

lemma utf8_enc3:
  fixes x y z :: nat
  assumes "x < 16" "y < 64" "z < 64" "x = 0 \<longrightarrow> 32 \<le> y" shows "utf8_enc (x * 4096 + y * 64 + z) = map char_of [224 + x, 128 + y, 128 + z]"
proof -
  let ?r = "x * 4096 + y * 64 + z"
  have "?r = z + 64 * (x * 64 + y)" by simp
  then have q: "?r div 64 = x * 64 + y" "?r mod 64 = z" using assms(3) by (simp_all only: div_mult_self2 mod_mult_self2, simp_all)
  then have "?r div 4096 = x" "?r div 64 mod 64 = y" using assms by simp_all
  moreover have "2048 \<le> ?r" "?r < 65536" using assms by (cases "x = 0", auto)
  ultimately show ?thesis using q(2) by (simp add: utf8_enc_def)
qed

lemma utf8_enc4:
  fixes w x y z :: nat
  assumes "w < 5" "x < 64" "y < 64" "z < 64" "w = 0 \<longrightarrow> 16 \<le> x"
  shows "utf8_enc (w * 262144 + x * 4096 + y * 64 + z) = map char_of [240 + w, 128 + x, 128 + y, 128 + z]"
proof -
  let ?r = "w * 262144 + x * 4096 + y * 64 + z"
  have "?r = z + 64 * (w * 4096 + x * 64 + y)" by simp
  then have q: "?r div 64 = w * 4096 + x * 64 + y" "?r mod 64 = z" using assms(4) by (simp_all only: div_mult_self2 mod_mult_self2, simp_all)
  have "?r div 4096 = w * 64 + x" "?r div 262144 = w" using assms by simp_all
  moreover have "w * 4096 + x * 64 + y = y + 64 * (w * 64 + x)" by simp
  then have "?r div 64 mod 64 = y" unfolding q(1) using assms(3) by (simp only: mod_mult_self2) simp
  moreover have "(w * 64 + x) mod 64 = x" using assms by simp
  moreover have "65536 \<le> ?r" using assms by (cases "w = 0", auto)
  ultimately show ?thesis using q(2) by (simp add: utf8_enc_def)
qed

lemma dec_shape:
  "utf8_len bs = 2 \<Longrightarrow> \<exists>x y t. bs = (192 + x) # (128 + y) # t \<and> 2 \<le> x \<and> x < 32 \<and> y < 64"
  "utf8_len bs = 3 \<Longrightarrow> \<exists>x y z t. bs = (224 + x) # (128 + y) # (128 + z) # t \<and> x < 16 \<and> y < 64 \<and> z < 64 \<and> (x = 0 \<longrightarrow> 32 \<le> y)"
  "utf8_len bs = 4 \<Longrightarrow> \<exists>w x y z t. bs = (240 + w) # (128 + x) # (128 + y) # (128 + z) # t \<and> w < 5 \<and> x < 64 \<and> y < 64 \<and> z < 64 \<and> (w = 0 \<longrightarrow> 16 \<le> x) \<and> (w = 4 \<longrightarrow> x < 16)"
proof -
  assume "utf8_len bs = 2"
  then obtain a b t where "bs = a # b # t" "194 \<le> a" "a < 224" "128 \<le> b" "b < 192"
    by (cases bs rule: utf8_len.cases) (auto simp: cont_def split: list.splits if_splits)
  then show "\<exists>x y t. bs = (192 + x) # (128 + y) # t \<and> 2 \<le> x \<and> x < 32 \<and> y < 64"
    by (intro exI [of _ "a - 192"] exI [of _ "b - 128"] exI [of _ t]) auto
next
  assume "utf8_len bs = 3"
  then obtain a b c t where "bs = a # b # c # t" "224 \<le> a" "a < 240" "128 \<le> b" "b < 192" "128 \<le> c" "c < 192" "a = 224 \<longrightarrow> 160 \<le> b"
    by (cases bs rule: utf8_len.cases) (auto simp: cont_def split: list.splits if_splits)
  then show "\<exists>x y z t. bs = (224 + x) # (128 + y) # (128 + z) # t \<and> x < 16 \<and> y < 64 \<and> z < 64 \<and> (x = 0 \<longrightarrow> 32 \<le> y)"
    by (intro exI [of _ "a - 224"] exI [of _ "b - 128"] exI [of _ "c - 128"] exI [of _ t]) auto
next
  assume "utf8_len bs = 4"
  moreover from this utf8_len_bounds(1) [of bs] have "4 \<le> length bs" by simp
  then obtain a b c d t where bs: "bs = a # b # c # d # t" by (auto simp: numeral_eq_Suc Suc_le_length_iff)
  ultimately have u: "utf8_len (a # b # c # d # t) = 4" by simp
  have lo: "\<not> a < 128" "\<not> (194 \<le> a \<and> a < 224)" "\<not> (224 \<le> a \<and> a < 240)"
    by (rule notI, use u in \<open>simp split: if_splits\<close>)+
  have "utf8_len (a # b # c # d # t) = (if 240 \<le> a \<and> a < 245
     then if cont b \<and> cont c \<and> cont d \<and> (a = 240 \<longrightarrow> 144 \<le> b) \<and> (a = 244 \<longrightarrow> b < 144) then 4 else 0 else 0)"
    by (simp only: utf8_len.simps list.case if_not_P [OF lo(1)] if_not_P [OF lo(2)] if_not_P [OF lo(3)])
  with u have "(240 \<le> a \<and> a < 245) \<and> (cont b \<and> cont c \<and> cont d \<and> (a = 240 \<longrightarrow> 144 \<le> b) \<and> (a = 244 \<longrightarrow> b < 144))"
    by (metis zero_neq_numeral)
  then have "240 \<le> a" "a < 245" "cont b" "cont c" "cont d" "a = 240 \<longrightarrow> 144 \<le> b" "a = 244 \<longrightarrow> b < 144"
    by blast+
  moreover from this obtain w x y z where "a = 240 + w" "b = 128 + x" "c = 128 + y" "d = 128 + z"
    unfolding cont_def by (metis le_Suc_ex)
  ultimately have "bs = (240 + w) # (128 + x) # (128 + y) # (128 + z) # t" "w < 5" "x < 64" "y < 64" "z < 64" "w = 0 \<longrightarrow> 16 \<le> x" "w = 4 \<longrightarrow> x < 16"
    using bs by (simp_all add: cont_def)
  then show "\<exists>w x y z t. bs = (240 + w) # (128 + x) # (128 + y) # (128 + z) # t \<and> w < 5 \<and> x < 64 \<and> y < 64 \<and> z < 64 \<and> (w = 0 \<longrightarrow> 16 \<le> x) \<and> (w = 4 \<longrightarrow> x < 16)"
    by blast
qed

lemma decode_encode:
  assumes "s \<noteq> []" and "utf8_len (map of_char (take 4 s)) = n" and "0 < n"
  shows "snd (decode_rune s) = n \<and> utf8_enc (fst (decode_rune s)) = take n s \<and> fst (decode_rune s) < 0x110000"
proof -
  define bs :: "nat list" where "bs = map of_char (take 4 s)"
  have len: "utf8_len bs \<le> 4" by (rule utf8_len_bounds)
  have n: "utf8_len bs = n" using assms(2) by (simp add: bs_def)
  have tk: "take n s = map char_of (take n bs)" using len n by (simp add: bs_def take_map comp_def min_def)
  from n assms(3) len consider "utf8_len bs = 1" | "utf8_len bs = 2" | "utf8_len bs = 3" | "utf8_len bs = 4" by linarith
  then show ?thesis
  proof cases
    case 1
    then obtain a t where "bs = a # t" "a < 128" by (cases bs rule: utf8_len.cases) (auto split: list.splits if_splits)
    moreover from 1 this have "decode_rune s = (a, 1)" using assms(1) unfolding decode_rune_def Let_def bs_def [symmetric] by (simp del: utf8_len.simps)
    ultimately show ?thesis using 1 n unfolding tk by (auto simp: utf8_enc_def)
  next
    case 2
    from dec_shape(1) [OF this] obtain x y t where b: "bs = (192 + x) # (128 + y) # t" "2 \<le> x" "x < 32" "y < 64" by blast
    from 2 have "utf8_len bs = Suc (Suc 0)" by simp
    then have "decode_rune s = (x * 64 + y, 2)" using assms(1) unfolding decode_rune_def Let_def bs_def [symmetric] by (simp add: b(1) del: utf8_len.simps)
    moreover have "x * 64 + y < 0x110000" using b(3,4) by simp
    ultimately show ?thesis using utf8_enc2 [OF b(2-4)] 2 n b(1) unfolding tk by simp
  next
    case 3
    from dec_shape(2) [OF this] obtain x y z t where b: "bs = (224 + x) # (128 + y) # (128 + z) # t" "x < 16" "y < 64" "z < 64" "x = 0 \<longrightarrow> 32 \<le> y" by blast
    from 3 have "utf8_len bs = Suc (Suc (Suc 0))" by simp
    then have "decode_rune s = (x * 4096 + y * 64 + z, 3)" using assms(1) unfolding decode_rune_def Let_def bs_def [symmetric] by (simp add: b(1) del: utf8_len.simps)
    moreover have "x * 4096 + y * 64 + z < 0x110000" using b(2-4) by simp
    ultimately show ?thesis using utf8_enc3 [OF b(2-5)] 3 n b(1) unfolding tk by simp
  next
    case 4
    from dec_shape(3) [OF this] obtain w x y z t where b: "bs = (240 + w) # (128 + x) # (128 + y) # (128 + z) # t" "w < 5" "x < 64" "y < 64" "z < 64"
      "w = 0 \<longrightarrow> 16 \<le> x" "w = 4 \<longrightarrow> x < 16" by blast
    from 4 have "utf8_len bs = Suc (Suc (Suc (Suc 0)))" by simp
    then have "decode_rune s = (w * 262144 + x * 4096 + y * 64 + z, 4)" using assms(1) unfolding decode_rune_def Let_def bs_def [symmetric] by (simp add: b(1) del: utf8_len.simps)
    moreover have "w * 262144 + x * 4096 + y * 64 + z < 0x110000" using b(2-5,7) by (cases "w = 4") auto
    ultimately show ?thesis using utf8_enc4 [OF b(2-6)] 4 n b(1) unfolding tk by simp
  qed
qed

lemma decode_rune_range: "s \<noteq> [] \<Longrightarrow> fst (decode_rune s) < 0x110000"
  using decode_encode [of s "utf8_len (map of_char (take 4 s))"]
  by (cases "utf8_len (map of_char (take 4 s)) = 0") (auto simp: decode_rune_def Let_def)

lemma runes_range: "r \<in> set (runes s) \<Longrightarrow> r < 0x110000"
proof (induction s rule: runes.induct)
  case (1 s)
  obtain q n where d: "decode_rune s = (q, n)" by fastforce
  with 1 decode_rune_range [of s] show ?case by (cases "s = []") (auto simp: runes.simps [of s])
qed

lemma utf8_enc_high: "c \<in> set (utf8_enc r) \<Longrightarrow> is_ascii c \<Longrightarrow> r < 0x110000 \<Longrightarrow> r = of_char c"
  by (auto simp: utf8_enc_def split: if_splits)

lemma to_valid_not: "is_ascii c \<Longrightarrow> c \<notin> set s \<Longrightarrow> c \<notin> set (to_valid s)"
  using runes_not utf8_enc_high runes_range by (fastforce simp: to_valid_def write_runes_def)

section \<open>Tokenising a joined list of tokens\<close>

text \<open>A token as the tokeniser sees it: quotes balanced, spaces only inside them.\<close>

fun tok_ok :: "bool \<Rightarrow> nat list \<Rightarrow> bool" where
  "tok_ok inq [] \<longleftrightarrow> \<not> inq"
| "tok_ok inq (c # cs) \<longleftrightarrow>
     (if c = 0x22 then tok_ok (\<not> inq) cs else \<not> (c = 0x20 \<and> \<not> inq) \<and> tok_ok inq cs)"

lemma tok_loop_token: "tok_ok inq t \<Longrightarrow> tok_loop (t @ rest) out cur inq = tok_loop rest out (cur @ write_runes t) False"
proof (induction t arbitrary: cur inq)
  case (Cons c t)
  then show ?case by (cases "c = 0x22"; cases "c = 0x20"; cases inq) auto
qed simp

lemma tokenize_join:
  "sep = '' '' \<Longrightarrow> \<forall>t \<in> set ts. t \<noteq> [] \<and> tok_ok False (runes t) \<Longrightarrow>
     tok_loop (runes (join_with sep ts)) out [] False = out @ map to_valid ts"
proof (induction sep ts arbitrary: out rule: join_with.induct)
  case (2 sep x)
  then show ?case using tok_loop_token [of False "runes x" "[]" out "[]"] to_valid_Nil_iff [of x] by (simp add: to_valid_def)
next
  case (3 sep x y xs)
  have x: "write_runes (runes x) = to_valid x" "x \<noteq> []" using "3.prems" by (simp_all add: to_valid_def)
  have "runes (join_with sep (x # y # xs)) = runes x @ 0x20 # runes (join_with sep (y # xs))"
    using runes_append [of "CHR '' ''"] "3.prems"(1) by simp
  then have "tok_loop (runes (join_with sep (x # y # xs))) out [] False = tok_loop (runes (join_with sep (y # xs))) (out @ [to_valid x]) [] False"
    using 3 tok_loop_token [of False "runes x" "0x20 # runes (join_with sep (y # xs))" out "[]"] x by simp
  then show ?case using 3 by simp
qed simp

section \<open>Rendering a filter\<close>

definition render_kv :: "string \<Rightarrow> string \<Rightarrow> string list" where
  "render_kv k v = (if v = [] then [] else [k @ '':'' @ [CHR 0x22] @ v @ [CHR 0x22]])"

definition render :: "search_filter \<Rightarrow> string list \<Rightarrow> string" where
  "render f ws = join_with '' '' (render_kv ''is'' (f_Status f) @ render_kv ''level'' (f_Level f) @
     render_kv ''release'' (f_Release f) @ render_kv ''environment'' (f_Environment f) @
     render_kv ''user'' (f_UserID f) @ render_kv ''fingerprint'' (f_Fingerprint f) @ ws)"

definition plain_word :: "string \<Rightarrow> bool" where
  "plain_word w \<longleftrightarrow> w \<noteq> [] \<and> CHR '':'' \<notin> set w \<and> CHR '' '' \<notin> set w \<and> CHR 0x22 \<notin> set w"

lemma tok_ok_in_quotes: "0x22 \<notin> set v \<Longrightarrow> tok_ok True (v @ [0x22])"
  by (induction v) auto

lemma tok_ok_plain: "0x22 \<notin> set w \<Longrightarrow> 0x20 \<notin> set w \<Longrightarrow> tok_ok False (w @ rest) = tok_ok False rest"
  by (induction w) auto

lemma runes_no_quote: "CHR 0x22 \<notin> set v \<Longrightarrow> 0x22 \<notin> set (runes v)" and runes_no_space: "CHR '' '' \<notin> set v \<Longrightarrow> 0x20 \<notin> set (runes v)"
  using runes_not [of "CHR 0x22" v] runes_not [of "CHR '' ''" v] by simp_all

lemma render_kv_ok:
  assumes "CHR 0x22 \<notin> set k" and "CHR '' '' \<notin> set k" and "CHR 0x22 \<notin> set v"
  shows "\<forall>t \<in> set (render_kv k v). t \<noteq> [] \<and> tok_ok False (runes t)"
proof -
  have "runes (k @ CHR '':'' # CHR 0x22 # v @ [CHR 0x22]) = runes k @ 0x3A # 0x22 # runes v @ [0x22]"
    using runes_append [of "CHR '':''" k] runes_append [of "CHR 0x22" v "[]"] by simp
  then show ?thesis
    using tok_ok_plain [of "runes k"] runes_no_quote [OF assms(1)] runes_no_space [OF assms(2)] tok_ok_in_quotes [OF runes_no_quote [OF assms(3)]]
    by (simp add: render_kv_def)
qed

lemma plain_word_ok: "plain_word w \<Longrightarrow> w \<noteq> [] \<and> tok_ok False (runes w) \<and> cut_colon (to_valid w) = None"
  using tok_ok_plain [of "runes w" "[]"] runes_no_quote [of w] runes_no_space [of w] to_valid_not [of "CHR '':''" w]
  by (simp add: plain_word_def cut_colon_def)

lemma cut_colon_kv: "CHR '':'' \<notin> set k \<Longrightarrow> cut_colon (k @ CHR '':'' # v) = Some (k, v)"
proof -
  assume a: "CHR '':'' \<notin> set k"
  then have "takeWhile (\<lambda>c. c \<noteq> CHR '':'') (k @ CHR '':'' # v) = k" "dropWhile (\<lambda>c. c \<noteq> CHR '':'') (k @ CHR '':'' # v) = CHR '':'' # v"
    by (induction k) auto
  then show ?thesis by (simp add: cut_colon_def)
qed

lemma trim_quotes_quoted: "CHR 0x22 \<notin> set v \<Longrightarrow> trim_quotes (CHR 0x22 # v @ [CHR 0x22]) = v"
proof (cases v rule: rev_cases)
  case Nil
  then show ?thesis by (simp add: trim_quotes_def)
next
  case (snoc u z)
  assume "CHR 0x22 \<notin> set v"
  with snoc show ?thesis by (cases u) (auto simp: trim_quotes_def)
qed

text \<open>Valid UTF-8, by the lengths of its encodings: writing its runes back changes nothing.\<close>

function valid_utf8 :: "string \<Rightarrow> bool" where
  "valid_utf8 s \<longleftrightarrow> (if s = [] then True else
     if utf8_len (map of_char (take 4 s)) = 0 then False else valid_utf8 (drop (utf8_len (map of_char (take 4 s))) s))"
  by pat_completeness auto
termination
  by (relation "measure length") auto

declare valid_utf8.simps [simp del]

lemma to_valid_utf8: "valid_utf8 s \<Longrightarrow> to_valid s = s"
proof (induction s rule: valid_utf8.induct)
  case (1 s)
  show ?case
  proof (cases "s = []")
    case False
    define n where "n = utf8_len (map of_char (take 4 s))"
    have n: "0 < n" "valid_utf8 (drop n s)" using "1.prems" False by (simp_all add: n_def valid_utf8.simps [of s] split: if_splits)
    have d: "snd (decode_rune s) = n" "utf8_enc (fst (decode_rune s)) = take n s" using decode_encode [OF False n_def [symmetric] n(1)] by auto
    have "runes s = fst (decode_rune s) # runes (drop n s)" using d(1) False by (subst runes.simps) (auto split: prod.splits)
    then have "to_valid s = take n s @ to_valid (drop n s)" using d(2) by (simp add: to_valid_def)
    then show ?thesis using "1.IH" [OF False] n by (simp flip: n_def)
  qed simp
qed

definition utf8_filter :: "search_filter \<Rightarrow> bool" where
  "utf8_filter f \<longleftrightarrow> list_all valid_utf8
     [f_Status f, f_Level f, f_Release f, f_Environment f, f_UserID f, f_Fingerprint f, f_Text f]"

lemma to_valid_kv:
  "list_all is_ascii k \<Longrightarrow> to_valid (k @ CHR '':'' # CHR 0x22 # v @ [CHR 0x22]) = k @ CHR '':'' # CHR 0x22 # to_valid v @ [CHR 0x22]"
  using to_valid_append [of "CHR 0x22" v "[]"] by (induction k) simp_all

lemma parse_kv:
  assumes "CHR 0x22 \<notin> set v" and "CHR '':'' \<notin> set k" and "list_all is_ascii k"
    and "v = [] \<longrightarrow> f' = f" and "v \<noteq> [] \<longrightarrow> set_key f k (to_valid v) = Inr f'"
  shows "parse_tokens (map to_valid (render_kv k v) @ rest) f words = parse_tokens rest f' words"
proof -
  have "CHR 0x22 \<notin> set (to_valid v)" using to_valid_not [of "CHR 0x22" v] assms(1) by simp
  then show ?thesis
    using assms cut_colon_kv [of k "CHR 0x22 # to_valid v @ [CHR 0x22]"] trim_quotes_quoted [of "to_valid v"] to_valid_kv [of k v]
    by (simp add: render_kv_def)
qed

lemma parse_words:
  "list_all plain_word ws \<Longrightarrow> parse_tokens (map to_valid ws) f words = Inr (f\<lparr>f_Text := join_with '' '' (words @ map to_valid ws)\<rparr>)"
  by (induction ws arbitrary: words) (simp_all add: plain_word_ok)

lemma to_valid_join: "sep = '' '' \<Longrightarrow> to_valid (join_with sep ws) = join_with sep (map to_valid ws)"
  using to_valid_append [of "CHR '' ''"] by (induction sep ws rule: join_with.induct) simp_all

lemma lower_key_ascii: "list_all is_ascii s \<Longrightarrow> lower_key s = to_lower s"
proof (induction s)
  case (Cons c s)
  have "utf8_enc (lower_rune (of_char c)) = [to_lower_char c]"
    using Cons.prems by (auto simp: lower_rune_def to_lower_char_def utf8_enc_def)
  with Cons show ?case by (simp add: lower_key_def to_lower_def)
qed (simp add: lower_key_def to_lower_def)

lemma lower_known:
  "lower_key ''is'' = ''is''" "lower_key ''level'' = ''level''" "lower_key ''release'' = ''release''"
  "lower_key ''environment'' = ''environment''" "lower_key ''user'' = ''user''" "lower_key ''fingerprint'' = ''fingerprint''"
  by (simp_all add: lower_key_ascii to_lower_def to_lower_char_def)

lemma set_key_simps:
  "set_key f ''is'' v = (if v \<in> set validStatus then Inr (f\<lparr>f_Status := v\<rparr>) else Inl (InvalidStatus v))"
  "set_key f ''level'' v = Inr (f\<lparr>f_Level := v\<rparr>)" "set_key f ''release'' v = Inr (f\<lparr>f_Release := v\<rparr>)"
  "set_key f ''environment'' v = Inr (f\<lparr>f_Environment := v\<rparr>)" "set_key f ''user'' v = Inr (f\<lparr>f_UserID := v\<rparr>)"
  "set_key f ''fingerprint'' v = Inr (f\<lparr>f_Fingerprint := v\<rparr>)"
  by (simp_all add: set_key_def Let_def lower_known)

definition quotable :: "search_filter \<Rightarrow> bool" where
  "quotable f \<longleftrightarrow> list_all (\<lambda>v. CHR 0x22 \<notin> set v) [f_Status f, f_Level f, f_Release f, f_Environment f, f_UserID f, f_Fingerprint f] \<and>
     (f_Status f = [] \<or> f_Status f \<in> set validStatus)"

text \<open>A filter with a function applied to every string of it.\<close>

definition on_values :: "(string \<Rightarrow> string) \<Rightarrow> search_filter \<Rightarrow> search_filter" where
  "on_values g f = \<lparr>f_Status = g (f_Status f), f_Level = g (f_Level f), f_Release = g (f_Release f), f_Environment = g (f_Environment f),
     f_UserID = g (f_UserID f), f_Fingerprint = g (f_Fingerprint f), f_Text = g (f_Text f)\<rparr>"

lemma utf8_filter_valid: "utf8_filter f \<Longrightarrow> on_values to_valid f = f"
  by (simp add: utf8_filter_def on_values_def to_valid_utf8)

lemma validStatus_valid: "v \<in> set validStatus \<Longrightarrow> to_valid v = v"
  by (auto simp: validStatus_def)

lemma rendered_query:
  assumes "quotable f" and "list_all plain_word ws" and "f_Text f = join_with '' '' ws"
  shows "search_Parse (render f ws) = Inr (on_values to_valid f)"
proof -
  let ?toks = "render_kv ''is'' (f_Status f) @ render_kv ''level'' (f_Level f) @ render_kv ''release'' (f_Release f) @
    render_kv ''environment'' (f_Environment f) @ render_kv ''user'' (f_UserID f) @ render_kv ''fingerprint'' (f_Fingerprint f) @ ws"
  have q: "CHR 0x22 \<notin> set (f_Status f)" "CHR 0x22 \<notin> set (f_Level f)" "CHR 0x22 \<notin> set (f_Release f)"
    "CHR 0x22 \<notin> set (f_Environment f)" "CHR 0x22 \<notin> set (f_UserID f)" "CHR 0x22 \<notin> set (f_Fingerprint f)"
    "f_Status f \<noteq> [] \<longrightarrow> to_valid (f_Status f) \<in> set validStatus"
    using assms(1) validStatus_valid [of "f_Status f"] by (auto simp: quotable_def)
  have "\<forall>t \<in> set ?toks. t \<noteq> [] \<and> tok_ok False (runes t)"
    unfolding set_append ball_Un using assms(2) plain_word_ok
    by (intro conjI render_kv_ok q(1-6)) (auto simp: list_all_iff)
  then have tok: "tokenize (render f ws) = map to_valid ?toks"
    using tokenize_join [of "'' ''" ?toks "[]"] by (simp add: tokenize_def render_def)
  let ?g = "(on_values to_valid f)\<lparr>f_Text := []\<rparr>"
  note [simp] = on_values_def empty_filter_def set_key_simps
  have "parse_tokens (map to_valid ?toks) empty_filter [] = parse_tokens (map to_valid ws) ?g []"
    unfolding map_append
    using q(7) by (simp add: parse_kv [where k = "''is''" and f' = "empty_filter\<lparr>f_Status := to_valid (f_Status f)\<rparr>", OF q(1)]
        parse_kv [where k = "''level''" and f' = "empty_filter\<lparr>f_Status := to_valid (f_Status f), f_Level := to_valid (f_Level f)\<rparr>", OF q(2)]
        parse_kv [where k = "''release''" and f' = "?g\<lparr>f_Environment := [], f_UserID := [], f_Fingerprint := []\<rparr>", OF q(3)]
        parse_kv [where k = "''environment''" and f' = "?g\<lparr>f_UserID := [], f_Fingerprint := []\<rparr>", OF q(4)]
        parse_kv [where k = "''user''" and f' = "?g\<lparr>f_Fingerprint := []\<rparr>", OF q(5)]
        parse_kv [where k = "''fingerprint''" and f' = "?g", OF q(6)])
  then show ?thesis
    unfolding search_Parse_def tok using assms(2,3) by (simp add: parse_words to_valid_join)
qed

section \<open>Properties\<close>

text \<open>C21. Queries round-trip: take a filter whose values contain no double quote (they may contain spaces, colons and any
  other bytes) and whose status is empty or one of the four valid ones, and words without spaces, colons and quotes. The query that
  renders it with quoted values parses to exactly that filter, with every byte that is no UTF-8 replaced by U+FFFD; if all its
  strings are valid UTF-8 it parses to the filter itself.\<close>

theorem Parse_render:
  assumes "quotable f" and "list_all plain_word ws" and "f_Text f = join_with '' '' ws"
  shows "search_Parse (render f ws) = Inr (on_values to_valid f) \<and>
    (utf8_filter f \<longrightarrow> search_Parse (render f ws) = Inr f)"
  using rendered_query [OF assms] utf8_filter_valid by simp

theorem Parse_render_witness:
  "search_Parse (render \<lparr>f_Status = ''resolved'', f_Level = [], f_Release = [CHR 0xFF] @ '' beta:1'', f_Environment = [], f_UserID = [],
     f_Fingerprint = [], f_Text = ''boom bang''\<rparr> [''boom'', ''bang'']) =
   Inr \<lparr>f_Status = ''resolved'', f_Level = [], f_Release = [CHR 0xEF, CHR 0xBF, CHR 0xBD] @ '' beta:1'', f_Environment = [], f_UserID = [],
     f_Fingerprint = [], f_Text = ''boom bang''\<rparr>"
proof -
  let ?f = "\<lparr>f_Status = ''resolved'', f_Level = [], f_Release = [CHR 0xFF] @ '' beta:1'', f_Environment = [], f_UserID = [],
     f_Fingerprint = [], f_Text = ''boom bang''\<rparr>"
  have r: "to_valid ([CHR 0xFF] @ '' beta:1'') = [CHR 0xEF, CHR 0xBF, CHR 0xBD] @ '' beta:1''"
    using to_valid_bad [of "'' beta:1''"] by simp
  have "quotable ?f" "list_all plain_word [''boom'', ''bang'']" "f_Text ?f = join_with '' '' [''boom'', ''bang'']"
    by (simp_all add: quotable_def validStatus_def plain_word_def)
  from Parse_render [OF this] r show ?thesis by (simp add: on_values_def)
qed

text \<open>The keys of the query language.\<close>

definition known_keys :: "string list" where
  "known_keys = [''is'', ''level'', ''release'', ''environment'', ''env'', ''user'', ''user.id'', ''fingerprint'']"

text \<open>A typo is an error, never a silent match: if a query parses, then every token with a colon has one of
  the known keys, \<open>is:\<close> has a valid status, and the resulting status is empty or valid.\<close>

theorem Parse_strict:
  assumes "search_Parse q = Inr f"
  shows "(\<forall>tok \<in> set (tokenize q). \<forall>key val. cut_colon tok = Some (key, val) \<longrightarrow>
     lower_key key \<in> set known_keys \<and> (lower_key key = ''is'' \<longrightarrow> trim_quotes val \<in> set validStatus)) \<and>
     (f_Status f = [] \<or> f_Status f \<in> set validStatus)"
proof -
  have "(\<forall>tok \<in> set toks. \<forall>key val. cut_colon tok = Some (key, val) \<longrightarrow>
     lower_key key \<in> set known_keys \<and> (lower_key key = ''is'' \<longrightarrow> trim_quotes val \<in> set validStatus)) \<and>
     (f_Status f = [] \<or> f_Status f \<in> set validStatus)"
    if "parse_tokens toks g words = Inr f" "f_Status g = [] \<or> f_Status g \<in> set validStatus" for toks g words
    using that
  proof (induction toks arbitrary: g words)
    case (Cons tok toks)
    show ?case
    proof (cases "cut_colon tok")
      case None
      with Cons show ?thesis by auto
    next
      case (Some kv)
      obtain k v where kv: "kv = (k, v)" by (cases kv)
      with Cons.prems(1) Some obtain g' where g': "set_key g k (trim_quotes v) = Inr g'" "parse_tokens toks g' words = Inr f"
        by (auto split: sum.splits)
      have st: "f_Status g' = [] \<or> f_Status g' \<in> set validStatus" "lower_key k \<in> set known_keys"
        "lower_key k = ''is'' \<longrightarrow> trim_quotes v \<in> set validStatus"
        using g'(1) Cons.prems(2) by (auto simp: set_key_def Let_def known_keys_def split: if_splits)
      with Cons.IH [OF g'(2) st(1)] Some kv show ?thesis by auto
    qed
  qed auto
  with assms show ?thesis by (simp add: search_Parse_def empty_filter_def)
qed

theorem Parse_strict_witness: "\<exists>f. search_Parse ''IS:resolved x'' = Inr f \<and> f_Status f \<in> {[], ''resolved''}"
proof -
  have "to_lower ''IS'' = ''is''" by code_simp
  then have k: "lower_key ''IS'' = ''is''" using lower_key_ascii [of "''IS''"] by simp
  have t: "tokenize ''IS:resolved x'' = [''IS:resolved'', ''x'']" using tokenize_join [of "'' ''" "[''IS:resolved'', ''x'']" "[]"] by (simp add: tokenize_def)
  have "search_Parse ''IS:resolved x'' = Inr (empty_filter\<lparr>f_Status := ''resolved'', f_Text := ''x''\<rparr>)"
    unfolding search_Parse_def t by (simp add: cut_colon_def trim_quotes_def set_key_def k validStatus_def)
  with Parse_strict [OF this] show ?thesis by simp
qed

end
