(* ===== verification/Issues.thy ===== *)
theory Issues
  imports Prelude
begin

text \<open>
  The issue table of \<open>internal/metadata/issues.go\<close>. A table is a list of rows; each SQL
  statement is the list operation it denotes, and each function runs in one transaction: if any
  statement fails (\<open>dbok\<close> is false, or the code returns an error inside the transaction)
  nothing changes. The results: the well-formedness of the table, above all that merges are one
  hop deep, is kept by every operation; a hit is counted exactly once, in the right row;
  resolved issues regress; listing is scoped, filtered, ordered and bounded; and user text is
  escaped correctly for \<open>LIKE\<close>.
\<close>

section \<open>Rows\<close>

definition IssueUnresolved :: string where "IssueUnresolved = ''unresolved''"

definition IssueResolved :: string where "IssueResolved = ''resolved''"

definition IssueIgnored :: string where "IssueIgnored = ''ignored''"

definition IssueRegressed :: string where "IssueRegressed = ''regressed''"

lemmas status_names = IssueUnresolved_def IssueResolved_def IssueIgnored_def IssueRegressed_def

record Issue =
  ID :: int
  OrgID :: int
  ProjectID :: int
  Fingerprint :: string
  Basis :: string
  Title :: string
  Level :: string
  Status :: string
  FirstSeen :: int
  LastSeen :: int
  TimesSeen :: int
  MergedInto :: "int option"

type_synonym issue_table = "Issue list"

record IssueUpsert =
  u_OrgID :: int
  u_ProjectID :: int
  u_Fingerprint :: string
  u_Basis :: string
  u_Title :: string
  u_Level :: string
  u_SeenAt :: int

record IssueOutcome =
  o_ID :: int
  o_IsNew :: bool
  o_Regressed :: bool
  o_TimesSeen :: int
  o_Status :: string

datatype issue_err = ErrArgs | ErrDB | ErrNotFound | ErrSelfMerge int | ErrStatus string

text \<open>\<open>SELECT ... WHERE id=?\<close> and \<open>UPDATE issues SET ... WHERE ...\<close>.\<close>

definition row :: "issue_table \<Rightarrow> int \<Rightarrow> Issue option" where
  "row t i = find (\<lambda>r. ID r = i) t"

definition update_where :: "(Issue \<Rightarrow> bool) \<Rightarrow> (Issue \<Rightarrow> Issue) \<Rightarrow> issue_table \<Rightarrow> issue_table" where
  "update_where P f t = map (\<lambda>r. if P r then f r else r) t"

section \<open>Operations\<close>

text \<open>The \<open>INSERT\<close> and the \<open>UPDATE\<close> of \<open>UpsertIssue\<close>.\<close>

definition new_issue :: "int \<Rightarrow> IssueUpsert \<Rightarrow> Issue" where
  "new_issue eid u =
     \<lparr>ID = eid, OrgID = u_OrgID u, ProjectID = u_ProjectID u, Fingerprint = u_Fingerprint u, Basis = u_Basis u,
      Title = u_Title u, Level = u_Level u, Status = IssueUnresolved, FirstSeen = u_SeenAt u, LastSeen = u_SeenAt u,
      TimesSeen = 1, MergedInto = None\<rparr>"

definition count_hit :: "IssueUpsert \<Rightarrow> string \<Rightarrow> Issue \<Rightarrow> Issue" where
  "count_hit u newStatus r =
     r\<lparr>LastSeen := max (LastSeen r) (u_SeenAt u), TimesSeen := TimesSeen r + 1, Level := u_Level u, Status := newStatus\<rparr>"

text \<open>\<open>COALESCE(merged_into, 0)\<close> and the target the hit counts into, with its status.\<close>

definition merged_id :: "Issue \<Rightarrow> int" where
  "merged_id r = (case MergedInto r of None \<Rightarrow> 0 | Some m \<Rightarrow> m)"

definition hit_target :: "issue_table \<Rightarrow> Issue \<Rightarrow> (int \<times> string) option" where
  "hit_target t r =
     (if merged_id r \<noteq> 0 then map_option (\<lambda>x. (merged_id r, Status x)) (row t (merged_id r)) else Some (ID r, Status r))"

text \<open>\<open>eid\<close> is the id the database assigns to an inserted row.\<close>

definition UpsertIssue ::
  "issue_table \<Rightarrow> bool \<Rightarrow> int \<Rightarrow> IssueUpsert \<Rightarrow> issue_table \<times> (issue_err + IssueOutcome)" where
  "UpsertIssue t dbok eid u =
     (if u_ProjectID u = 0 \<or> u_Fingerprint u = [] then (t, Inl ErrArgs)
      else if \<not> dbok then (t, Inl ErrDB)
      else case find (\<lambda>r. ProjectID r = u_ProjectID u \<and> Fingerprint r = u_Fingerprint u) t of
        None \<Rightarrow>
          (t @ [new_issue eid u],
           Inr \<lparr>o_ID = eid, o_IsNew = True, o_Regressed = False, o_TimesSeen = 1, o_Status = IssueUnresolved\<rparr>)
      | Some r \<Rightarrow>
          (case hit_target t r of
             None \<Rightarrow> (t, Inl ErrDB)
           | Some (target, status) \<Rightarrow>
               let regressed = (status = IssueResolved);
                   newStatus = (if regressed then IssueRegressed else status);
                   t' = update_where (\<lambda>x. ID x = target) (count_hit u newStatus) t
               in (case row t' target of
                     None \<Rightarrow> (t, Inl ErrDB)
                   | Some tr \<Rightarrow> (t', Inr \<lparr>o_ID = target, o_IsNew = False, o_Regressed = regressed,
                                        o_TimesSeen = TimesSeen tr, o_Status = newStatus\<rparr>))))"

definition GetIssue :: "issue_table \<Rightarrow> int \<Rightarrow> int \<Rightarrow> issue_err + Issue" where
  "GetIssue t projectID issueID =
     (case find (\<lambda>r. ID r = issueID \<and> ProjectID r = projectID) t of None \<Rightarrow> Inl ErrNotFound | Some r \<Rightarrow> Inr r)"

definition SetIssueStatus :: "issue_table \<Rightarrow> bool \<Rightarrow> int \<Rightarrow> int \<Rightarrow> string \<Rightarrow> issue_table \<times> (issue_err + unit)" where
  "SetIssueStatus t dbok projectID issueID status =
     (if status \<notin> {IssueUnresolved, IssueResolved, IssueIgnored} then (t, Inl (ErrStatus status))
      else if \<not> dbok then (t, Inl ErrDB)
      else
        let P = (\<lambda>r. ID r = issueID \<and> ProjectID r = projectID) in
        if \<not> list_ex P t then (t, Inl ErrNotFound)
        else (update_where P (\<lambda>r. r\<lparr>Status := status\<rparr>) t, Inr ()))"

text \<open>One source of \<open>MergeIssues\<close>: point it at the target, flatten what points at it, add its count.\<close>

definition merge_one :: "int \<Rightarrow> int \<Rightarrow> int \<Rightarrow> int \<Rightarrow> issue_table \<Rightarrow> issue_table" where
  "merge_one projectID targetID src cnt t =
     (let t1 = update_where (\<lambda>r. ID r = src \<and> ProjectID r = projectID) (\<lambda>r. r\<lparr>MergedInto := Some targetID\<rparr>) t;
          t2 = update_where (\<lambda>r. MergedInto r = Some src \<and> ProjectID r = projectID) (\<lambda>r. r\<lparr>MergedInto := Some targetID\<rparr>) t1
      in update_where (\<lambda>r. ID r = targetID) (\<lambda>r. r\<lparr>TimesSeen := TimesSeen r + cnt\<rparr>) t2)"

fun merge_loop :: "int \<Rightarrow> int \<Rightarrow> int list \<Rightarrow> issue_table \<Rightarrow> issue_err + issue_table" where
  "merge_loop projectID targetID [] t = Inr t"
| "merge_loop projectID targetID (src # srcs) t =
     (if src = targetID then Inl (ErrSelfMerge src)
      else case find (\<lambda>r. ID r = src \<and> ProjectID r = projectID) t of
        None \<Rightarrow> Inl ErrNotFound
      | Some r \<Rightarrow> merge_loop projectID targetID srcs (merge_one projectID targetID src (TimesSeen r) t))"

definition MergeIssues :: "issue_table \<Rightarrow> bool \<Rightarrow> int \<Rightarrow> int \<Rightarrow> int list \<Rightarrow> issue_table \<times> (issue_err + unit)" where
  "MergeIssues t dbok projectID targetID sourceIDs =
     (if \<not> dbok then (t, Inl ErrDB)
      else if \<not> list_ex (\<lambda>r. ID r = targetID \<and> ProjectID r = projectID \<and> MergedInto r = None) t then (t, Inl ErrNotFound)
      else case merge_loop projectID targetID sourceIDs t of
        Inl e \<Rightarrow> (t, Inl e)
      | Inr t' \<Rightarrow> (t', Inr ()))"

definition SplitIssue :: "issue_table \<Rightarrow> bool \<Rightarrow> int \<Rightarrow> int \<Rightarrow> issue_table \<times> (issue_err + unit)" where
  "SplitIssue t dbok projectID sourceID =
     (if \<not> dbok then (t, Inl ErrDB)
      else
        let P = (\<lambda>r. ID r = sourceID \<and> ProjectID r = projectID \<and> MergedInto r \<noteq> None) in
        if \<not> list_ex P t then (t, Inl ErrNotFound)
        else (update_where P (\<lambda>r. r\<lparr>MergedInto := None, Status := IssueUnresolved\<rparr>) t, Inr ()))"

section \<open>Listing\<close>

record IssueFilter =
  fl_Status :: string
  fl_Level :: string
  fl_TitleLike :: string
  fl_Fingerprint :: string
  fl_Fingerprints :: "string list option"

definition replace_char :: "char \<Rightarrow> string \<Rightarrow> string \<Rightarrow> string" where
  "replace_char c new s = concat (map (\<lambda>x. if x = c then new else [x]) s)"

definition escapeLike :: "string \<Rightarrow> string" where
  "escapeLike s =
     replace_char (CHR ''_'') [CHR 0x5C, CHR ''_'']
       (replace_char (CHR ''%'') [CHR 0x5C, CHR ''%'']
         (replace_char (CHR 0x5C) [CHR 0x5C, CHR 0x5C] s))"

text \<open>
  SQLite's \<open>LIKE ... ESCAPE '\'\<close>: \<open>%\<close> matches any text, \<open>_\<close> one character, the
  escape character makes the next one literal; letters compare without ASCII case.
\<close>

definition ci_eq :: "char \<Rightarrow> char \<Rightarrow> bool" where
  "ci_eq a b \<longleftrightarrow> to_lower_char a = to_lower_char b"

function like :: "string \<Rightarrow> string \<Rightarrow> bool" where
  "like [] s \<longleftrightarrow> s = []"
| "like (p # ps) s \<longleftrightarrow>
     (if p = CHR 0x5C then
        (case ps of [] \<Rightarrow> False | q # qs \<Rightarrow> (case s of [] \<Rightarrow> False | c # cs \<Rightarrow> ci_eq q c \<and> like qs cs))
      else if p = CHR ''%'' then like ps s \<or> (case s of [] \<Rightarrow> False | c # cs \<Rightarrow> like (p # ps) cs)
      else case s of [] \<Rightarrow> False | c # cs \<Rightarrow> (p = CHR ''_'' \<or> ci_eq p c) \<and> like ps cs)"
  by pat_completeness auto
termination
  by (relation "measure (\<lambda>(p, s). length p + length s)") auto

definition row_matches :: "int \<Rightarrow> IssueFilter \<Rightarrow> Issue \<Rightarrow> bool" where
  "row_matches projectID f r \<longleftrightarrow>
     ProjectID r = projectID \<and> MergedInto r = None \<and>
     (fl_Status f = [] \<or> Status r = fl_Status f) \<and>
     (fl_Level f = [] \<or> Level r = fl_Level f) \<and>
     (fl_TitleLike f = [] \<or> like (''%'' @ escapeLike (fl_TitleLike f) @ ''%'') (Title r)) \<and>
     (fl_Fingerprint f = [] \<or> Fingerprint r = fl_Fingerprint f) \<and>
     (case fl_Fingerprints f of None \<Rightarrow> True | Some fps \<Rightarrow> fps = [] \<or> Fingerprint r \<in> set (take 500 fps))"

text \<open>\<open>order_by\<close> is the engine's \<open>ORDER BY last_seen DESC\<close>; ties come in any order.\<close>

definition ListIssuesFiltered :: "(issue_table \<Rightarrow> issue_table) \<Rightarrow> issue_table \<Rightarrow> int \<Rightarrow> IssueFilter \<Rightarrow> int \<Rightarrow> issue_table" where
  "ListIssuesFiltered order_by t projectID f limit =
     (let n = (if limit \<le> 0 \<or> 500 < limit then 100 else limit) in
      if fl_Fingerprints f = Some [] then []
      else take (nat n) (order_by (filter (row_matches projectID f) t)))"

definition ListIssues :: "(issue_table \<Rightarrow> issue_table) \<Rightarrow> issue_table \<Rightarrow> int \<Rightarrow> string \<Rightarrow> int \<Rightarrow> issue_table" where
  "ListIssues order_by t projectID status limit =
     ListIssuesFiltered order_by t projectID
       \<lparr>fl_Status = status, fl_Level = [], fl_TitleLike = [], fl_Fingerprint = [], fl_Fingerprints = None\<rparr> limit"

section \<open>Well-formed tables\<close>

definition row_ok :: "Issue \<Rightarrow> bool" where
  "row_ok r \<longleftrightarrow> 0 < ID r \<and> 1 \<le> TimesSeen r \<and> FirstSeen r \<le> LastSeen r \<and>
     Status r \<in> {IssueUnresolved, IssueResolved, IssueIgnored, IssueRegressed}"

text \<open>Merges are one hop deep: a merged issue points at an unmerged one of its project.\<close>

definition roots :: "issue_table \<Rightarrow> (int \<times> int) set" where
  "roots t = set (map (\<lambda>s. (ID s, ProjectID s)) (filter (\<lambda>s. MergedInto s = None) t))"

definition one_hop :: "issue_table \<Rightarrow> bool" where
  "one_hop t \<longleftrightarrow> list_all (\<lambda>r. case MergedInto r of None \<Rightarrow> True | Some m \<Rightarrow> (m, ProjectID r) \<in> roots t) t"

definition issues_inv :: "issue_table \<Rightarrow> bool" where
  "issues_inv t \<longleftrightarrow> distinct (map ID t) \<and> distinct (map (\<lambda>r. (ProjectID r, Fingerprint r)) t) \<and>
     list_all row_ok t \<and> one_hop t"

subsection \<open>Rows and updates\<close>

lemma set_update_where: "set (update_where P f t) = (\<lambda>r. if P r then f r else r) ` set t"
  by (simp add: update_where_def)

lemma map_update_where [simp]: "(\<And>r. g (f r) = g r) \<Longrightarrow> map g (update_where P f t) = map g t"
  by (simp add: update_where_def)

lemma row_Some: "row t i = Some r \<Longrightarrow> r \<in> set t \<and> ID r = i"
  by (auto simp: row_def find_Some_iff)

lemma row_exists: "r \<in> set t \<Longrightarrow> row t (ID r) \<noteq> None"
  by (auto simp: row_def find_None_iff)

lemma row_unique: "distinct (map ID t) \<Longrightarrow> r \<in> set t \<Longrightarrow> row t (ID r) = Some r"
  using row_Some row_exists by (metis (no_types, lifting) distinct_map inj_onD option.exhaust)

lemma row_update_other: "(\<And>r. ID (f r) = ID r) \<Longrightarrow> (\<And>r. ID r = i \<Longrightarrow> \<not> P r) \<Longrightarrow> row (update_where P f t) i = row t i"
  unfolding row_def update_where_def by (induction t) auto

lemma row_update_same: "(\<And>r. ID (f r) = ID r) \<Longrightarrow> row (update_where (\<lambda>x. ID x = i) f t) i = map_option f (row t i)"
  unfolding row_def update_where_def by (induction t) auto

text \<open>Updating the one row with an id changes a sum by that row's change.\<close>

lemma sum_update_where:
  "distinct (map ID t) \<Longrightarrow> row t i = Some r \<Longrightarrow>
   (\<Sum>x\<leftarrow>update_where (\<lambda>x. ID x = i) f t. g x) = (\<Sum>x\<leftarrow>t. g x) + g (f r) - (g r :: int)"
proof (induction t)
  case (Cons a t)
  show ?case
  proof (cases "ID a = i")
    case True
    then have "update_where (\<lambda>x. ID x = i) f t = t"
      using Cons.prems(1) by (auto simp: update_where_def image_iff intro!: map_idI)
    with True Cons.prems(2) show ?thesis by (simp add: row_def update_where_def)
  next
    case False
    with Cons show ?thesis by (simp add: row_def update_where_def)
  qed
qed (simp add: row_def)

subsection \<open>Every operation keeps the table well-formed\<close>

text \<open>An update that leaves the keys and the links alone needs only its new rows to be well-formed.\<close>

lemma roots_update:
  "(\<And>r. ID (f r) = ID r \<and> ProjectID (f r) = ProjectID r \<and> MergedInto (f r) = MergedInto r) \<Longrightarrow>
   roots (update_where P f t) = roots t"
  unfolding roots_def update_where_def by (induction t) auto

lemma issues_inv_update:
  assumes "issues_inv t" and "\<And>r. ID (f r) = ID r" and "\<And>r. ProjectID (f r) = ProjectID r"
    and "\<And>r. Fingerprint (f r) = Fingerprint r" and "\<And>r. MergedInto (f r) = MergedInto r"
    and "\<And>r. r \<in> set t \<Longrightarrow> P r \<Longrightarrow> row_ok (f r)"
  shows "issues_inv (update_where P f t)"
proof -
  have "roots (update_where P f t) = roots t" by (rule roots_update) (simp add: assms)
  then have "one_hop (update_where P f t)"
    using assms(1) by (auto simp: issues_inv_def one_hop_def list_all_iff set_update_where assms(2-5) split: option.splits)
  moreover have "list_all row_ok (update_where P f t)"
    using assms(1,6) by (auto simp: issues_inv_def list_all_iff set_update_where)
  ultimately show ?thesis using assms(1) by (simp add: issues_inv_def assms(2-5))
qed

lemma issues_inv_insert:
  assumes "issues_inv t" and "row_ok r" and "MergedInto r = None" and "ID r \<notin> ID ` set t"
    and "\<And>x. x \<in> set t \<Longrightarrow> \<not> (ProjectID x = ProjectID r \<and> Fingerprint x = Fingerprint r)"
  shows "issues_inv (t @ [r])"
proof -
  have "(ProjectID r, Fingerprint r) \<notin> (\<lambda>r. (ProjectID r, Fingerprint r)) ` set t" using assms(5) by force
  moreover have "one_hop (t @ [r])"
    using assms(1,3) by (auto simp: issues_inv_def one_hop_def list_all_iff roots_def split: option.splits)
  ultimately show ?thesis using assms by (simp add: issues_inv_def)
qed

text \<open>A merged issue's target is an unmerged issue, so the hit is counted in a row that exists.\<close>

lemma one_hopD:
  assumes "issues_inv t" and "r \<in> set t" and "MergedInto r = Some m"
  shows "\<exists>s \<in> set t. ID s = m \<and> MergedInto s = None \<and> ProjectID s = ProjectID r \<and> m \<noteq> 0"
  using assms by (force simp: issues_inv_def one_hop_def roots_def list_all_iff row_ok_def)

lemma hit_target_row:
  assumes "issues_inv t" and "r \<in> set t"
  shows "\<exists>x. x \<in> set t \<and> hit_target t r = Some (ID x, Status x) \<and> row t (ID x) = Some x \<and> MergedInto x = None \<and>
    ProjectID x = ProjectID r \<and> ID x = (case MergedInto r of None \<Rightarrow> ID r | Some m \<Rightarrow> m)"
proof (cases "MergedInto r")
  case None
  then show ?thesis using assms row_unique [of t r] by (auto simp: hit_target_def merged_id_def issues_inv_def)
next
  case (Some m)
  from one_hopD [OF assms Some] obtain x where x: "x \<in> set t" "ID x = m" "MergedInto x = None" "ProjectID x = ProjectID r" "m \<noteq> 0"
    by blast
  then have "row t m = Some x" using assms(1) row_unique [of t x] by (simp add: issues_inv_def)
  with x Some show ?thesis by (auto simp: hit_target_def merged_id_def)
qed

text \<open>A hit: the outcome and the table, by whether the fingerprint is known.\<close>

lemma UpsertIssue_new:
  assumes "u_ProjectID u \<noteq> 0" "u_Fingerprint u \<noteq> []"
    and "\<And>x. x \<in> set t \<Longrightarrow> \<not> (ProjectID x = u_ProjectID u \<and> Fingerprint x = u_Fingerprint u)"
  shows "UpsertIssue t True eid u = (t @ [new_issue eid u],
     Inr \<lparr>o_ID = eid, o_IsNew = True, o_Regressed = False, o_TimesSeen = 1, o_Status = IssueUnresolved\<rparr>)"
proof -
  have "find (\<lambda>r. ProjectID r = u_ProjectID u \<and> Fingerprint r = u_Fingerprint u) t = None"
    using assms(3) by (auto simp: find_None_iff)
  then show ?thesis using assms(1,2) by (simp add: UpsertIssue_def)
qed

definition hit_status :: "Issue \<Rightarrow> string" where
  "hit_status x = (if Status x = IssueResolved then IssueRegressed else Status x)"

lemma UpsertIssue_known:
  assumes "issues_inv t" and "r \<in> set t" and "ProjectID r = u_ProjectID u" "Fingerprint r = u_Fingerprint u"
    and "u_ProjectID u \<noteq> 0" "u_Fingerprint u \<noteq> []"
  shows "\<exists>x. x \<in> set t \<and> row t (ID x) = Some x \<and> MergedInto x = None \<and> ProjectID x = u_ProjectID u \<and>
    ID x = (case MergedInto r of None \<Rightarrow> ID r | Some m \<Rightarrow> m) \<and>
    UpsertIssue t True eid u = (update_where (\<lambda>y. ID y = ID x) (count_hit u (hit_status x)) t,
      Inr \<lparr>o_ID = ID x, o_IsNew = False, o_Regressed = (Status x = IssueResolved), o_TimesSeen = TimesSeen x + 1,
           o_Status = hit_status x\<rparr>)"
proof -
  have key: "y = r" if "y \<in> set t" "ProjectID y = ProjectID r" "Fingerprint y = Fingerprint r" for y
    using that assms(1,2) by (auto simp: issues_inv_def distinct_map dest: inj_onD)
  obtain y where y: "find (\<lambda>r. ProjectID r = u_ProjectID u \<and> Fingerprint r = u_Fingerprint u) t = Some y"
    using assms(2-4) by (cases "find (\<lambda>r. ProjectID r = u_ProjectID u \<and> Fingerprint r = u_Fingerprint u) t")
      (auto simp: find_None_iff)
  then have "y \<in> set t" "ProjectID y = ProjectID r" "Fingerprint y = Fingerprint r"
    using assms(3,4) by (auto simp: find_Some_iff)
  with y key have f: "find (\<lambda>r. ProjectID r = u_ProjectID u \<and> Fingerprint r = u_Fingerprint u) t = Some r" by blast
  from hit_target_row [OF assms(1,2)] obtain x where x: "x \<in> set t" "hit_target t r = Some (ID x, Status x)"
    "row t (ID x) = Some x" "MergedInto x = None" "ProjectID x = ProjectID r" "ID x = (case MergedInto r of None \<Rightarrow> ID r | Some m \<Rightarrow> m)"
    by blast
  have "row (update_where (\<lambda>y. ID y = ID x) (count_hit u (hit_status x)) t) (ID x) = Some (count_hit u (hit_status x) x)"
    by (subst row_update_same) (simp_all add: count_hit_def x(3))
  then have "UpsertIssue t True eid u = (update_where (\<lambda>y. ID y = ID x) (count_hit u (hit_status x)) t,
      Inr \<lparr>o_ID = ID x, o_IsNew = False, o_Regressed = (Status x = IssueResolved), o_TimesSeen = TimesSeen x + 1,
           o_Status = hit_status x\<rparr>)"
    using assms(5,6) f x(2) by (simp add: UpsertIssue_def Let_def hit_status_def count_hit_def)
  with x assms(3) show ?thesis by (intro exI [of _ x]) simp
qed

lemma UpsertIssue_inv:
  assumes "issues_inv t" and "0 < eid" and "eid \<notin> ID ` set t"
  shows "issues_inv (fst (UpsertIssue t dbok eid u))"
proof (cases "u_ProjectID u \<noteq> 0 \<and> u_Fingerprint u \<noteq> [] \<and> dbok")
  case False
  then show ?thesis using assms(1) by (auto simp: UpsertIssue_def)
next
  case True
  show ?thesis
  proof (cases "\<exists>r \<in> set t. ProjectID r = u_ProjectID u \<and> Fingerprint r = u_Fingerprint u")
    case False
    have "issues_inv (t @ [new_issue eid u])"
      by (rule issues_inv_insert) (use assms False in \<open>auto simp: new_issue_def row_ok_def\<close>)
    with UpsertIssue_new [of u t eid] True False show ?thesis by auto
  next
    case True': True
    then obtain r where "r \<in> set t" "ProjectID r = u_ProjectID u" "Fingerprint r = u_Fingerprint u" by blast
    from UpsertIssue_known [OF assms(1) this, of eid] True obtain x where x: "x \<in> set t"
      "fst (UpsertIssue t True eid u) = update_where (\<lambda>y. ID y = ID x) (count_hit u (hit_status x)) t" by auto
    have "row_ok y" if "y \<in> set t" for y using assms(1) that by (simp add: issues_inv_def list_all_iff)
    with x(1) have "issues_inv (update_where (\<lambda>y. ID y = ID x) (count_hit u (hit_status x)) t)"
      by (intro issues_inv_update assms(1))
        (fastforce simp: count_hit_def row_ok_def hit_status_def)+
    with x True show ?thesis by simp
  qed
qed

lemma issues_inv_rows: "issues_inv t \<Longrightarrow> r \<in> set t \<Longrightarrow> row_ok r"
  by (simp add: issues_inv_def list_all_iff)

lemma SetIssueStatus_inv:
  assumes "issues_inv t"
  shows "issues_inv (fst (SetIssueStatus t dbok pid i st))"
proof (cases "st \<in> {IssueUnresolved, IssueResolved, IssueIgnored}")
  case True
  have "issues_inv (update_where P (\<lambda>r. r\<lparr>Status := st\<rparr>) t)" for P
    by (rule issues_inv_update [OF assms]) (use True issues_inv_rows [OF assms] in \<open>auto simp: row_ok_def\<close>)
  then have "issues_inv (update_where P (Status_update (\<lambda>_. st)) t)" for P .
  with True assms show ?thesis unfolding SetIssueStatus_def Let_def by (simp only: if_True if_False simp_thms fst_conv split: if_split)
qed (simp add: SetIssueStatus_def assms)

lemma SplitIssue_inv:
  assumes "issues_inv t"
  shows "issues_inv (fst (SplitIssue t dbok pid i))"
proof -
  let ?P = "\<lambda>r. ID r = i \<and> ProjectID r = pid \<and> MergedInto r \<noteq> None"
  let ?t = "update_where ?P (\<lambda>r. r\<lparr>MergedInto := None, Status := IssueUnresolved\<rparr>) t"
  have "roots t \<subseteq> roots ?t" by (force simp: roots_def update_where_def)
  then have "one_hop ?t"
    using assms by (fastforce simp: issues_inv_def one_hop_def list_all_iff set_update_where split: option.splits)
  moreover have "list_all row_ok ?t"
    using assms by (auto simp: issues_inv_def list_all_iff set_update_where row_ok_def)
  ultimately have "issues_inv ?t" using assms by (simp add: issues_inv_def)
  with assms show ?thesis by (simp add: SplitIssue_def Let_def)
qed

subsection \<open>Merging\<close>

text \<open>What one merge does to each row.\<close>

definition merge_row :: "int \<Rightarrow> int \<Rightarrow> int \<Rightarrow> int \<Rightarrow> Issue \<Rightarrow> Issue" where
  "merge_row pid tgt src cnt r =
     r\<lparr>MergedInto := (if ProjectID r = pid \<and> (ID r = src \<or> MergedInto r = Some src) then Some tgt else MergedInto r),
       TimesSeen := (if ID r = tgt then TimesSeen r + cnt else TimesSeen r)\<rparr>"

lemma merge_one_map: "merge_one pid tgt src cnt t = map (merge_row pid tgt src cnt) t"
  unfolding merge_one_def Let_def update_where_def map_map
  by (rule map_cong [OF refl], rule Issue.equality) (simp_all add: merge_row_def, blast)

lemma merge_row_simps [simp]:
  "ID (merge_row pid tgt src cnt r) = ID r" "ProjectID (merge_row pid tgt src cnt r) = ProjectID r"
  "Fingerprint (merge_row pid tgt src cnt r) = Fingerprint r"
  by (simp_all add: merge_row_def)

text \<open>The target stays an unmerged issue of the project throughout.\<close>

definition merge_target :: "int \<Rightarrow> int \<Rightarrow> issue_table \<Rightarrow> bool" where
  "merge_target pid tgt t \<longleftrightarrow> (\<exists>r \<in> set t. ID r = tgt \<and> ProjectID r = pid \<and> MergedInto r = None)"

lemma merge_one_target: "merge_target pid tgt t \<Longrightarrow> src \<noteq> tgt \<Longrightarrow> merge_target pid tgt (merge_one pid tgt src cnt t)"
  unfolding merge_target_def merge_one_map by (force simp: merge_row_def)

lemma merge_one_roots:
  assumes "(m, p) \<in> roots t" and "(m, p) \<noteq> (src, pid)"
  shows "(m, p) \<in> roots (merge_one pid tgt src cnt t)"
proof -
  from assms(1) obtain r where r: "r \<in> set t" "ID r = m" "ProjectID r = p" "MergedInto r = None" by (auto simp: roots_def)
  then have "MergedInto (merge_row pid tgt src cnt r) = None" using assms(2) by (auto simp: merge_row_def)
  then have "merge_row pid tgt src cnt r \<in> set (filter (\<lambda>s. MergedInto s = None) (merge_one pid tgt src cnt t))"
    using r(1) by (simp add: merge_one_map)
  then have "(ID (merge_row pid tgt src cnt r), ProjectID (merge_row pid tgt src cnt r)) \<in> roots (merge_one pid tgt src cnt t)"
    unfolding roots_def by (subst set_map) (rule imageI)
  then show ?thesis using r(2,3) by simp
qed

lemma merge_one_inv:
  assumes "issues_inv t" and "merge_target pid tgt t" and "src \<noteq> tgt" and "0 \<le> cnt"
  shows "issues_inv (merge_one pid tgt src cnt t)"
proof -
  let ?t = "merge_one pid tgt src cnt t"
  have tgt: "(tgt, pid) \<in> roots ?t"
    using merge_one_target [OF assms(2,3)] by (force simp: merge_target_def roots_def)
  have "\<forall>r \<in> set t. \<forall>m. MergedInto (merge_row pid tgt src cnt r) = Some m \<longrightarrow> (m, ProjectID r) \<in> roots ?t"
  proof (intro ballI allI impI)
    fix r m
    assume r: "r \<in> set t" and m: "MergedInto (merge_row pid tgt src cnt r) = Some m"
    show "(m, ProjectID r) \<in> roots ?t"
    proof (cases "ProjectID r = pid \<and> (ID r = src \<or> MergedInto r = Some src)")
      case True
      with m tgt show ?thesis by (simp add: merge_row_def)
    next
      case False
      then have "MergedInto r = Some m" using m by (auto simp: merge_row_def)
      moreover from this False have "(m, ProjectID r) \<noteq> (src, pid)" by auto
      ultimately show ?thesis using assms(1) r
        by (intro merge_one_roots) (auto simp: issues_inv_def one_hop_def list_all_iff)
    qed
  qed
  then have "one_hop ?t" by (auto simp: one_hop_def list_all_iff merge_one_map split: option.splits)
  moreover have "list_all row_ok ?t"
    using assms(1,4) by (auto simp: issues_inv_def list_all_iff merge_one_map merge_row_def row_ok_def)
  ultimately show ?thesis using assms(1) by (simp add: issues_inv_def merge_one_map comp_def)
qed

text \<open>Redirection: a source that points at the target keeps pointing there.\<close>

definition redirected :: "int \<Rightarrow> int \<Rightarrow> issue_table \<Rightarrow> bool" where
  "redirected src tgt t \<longleftrightarrow> (\<forall>r \<in> set t. ID r = src \<longrightarrow> MergedInto r = Some tgt)"

lemma merge_loop_outcome:
  assumes "merge_loop pid tgt srcs t = Inr t'" and "issues_inv t" and "merge_target pid tgt t"
  shows "issues_inv t' \<and> merge_target pid tgt t' \<and> map ID t' = map ID t \<and>
    map (\<lambda>r. (ID r, ProjectID r, Fingerprint r)) t' = map (\<lambda>r. (ID r, ProjectID r, Fingerprint r)) t \<and>
    (\<forall>s \<in> set srcs. redirected s tgt t') \<and> (\<forall>s. s \<noteq> tgt \<longrightarrow> redirected s tgt t \<longrightarrow> redirected s tgt t')"
  using assms
proof (induction pid tgt srcs t rule: merge_loop.induct)
  case (1 pid tgt t)
  then show ?case by simp
next
  case (2 pid tgt src srcs t)
  then obtain r where ne: "src \<noteq> tgt" and r: "find (\<lambda>r. ID r = src \<and> ProjectID r = pid) t = Some r"
    and loop: "merge_loop pid tgt srcs (merge_one pid tgt src (TimesSeen r) t) = Inr t'"
    by (auto split: if_splits option.splits)
  let ?t = "merge_one pid tgt src (TimesSeen r) t"
  have mem: "r \<in> set t" "ID r = src" "ProjectID r = pid" using r by (auto simp: find_Some_iff)
  then have "0 \<le> TimesSeen r" using issues_inv_rows [OF 2(3)] by (force simp: row_ok_def)
  note inv = merge_one_inv [OF 2(3,4) ne this] and tg = merge_one_target [OF 2(4) ne, of "TimesSeen r"]
  have "inj_on ID (set t)" using 2(3) by (simp add: issues_inv_def distinct_map)
  then have only: "x = r" if "x \<in> set t" "ID x = src" for x using mem that by (metis inj_onD)
  have src: "redirected src tgt ?t"
    unfolding redirected_def
  proof (intro ballI impI)
    fix x
    assume "x \<in> set ?t" and x: "ID x = src"
    then obtain y where y: "x = merge_row pid tgt src (TimesSeen r) y" "y \<in> set t" by (auto simp: merge_one_map)
    with x have "y = r" using only [of y] by simp
    with y mem show "MergedInto x = Some tgt" by (simp add: merge_row_def)
  qed
  have keep: "redirected s tgt ?t" if "redirected s tgt t" for s
    using that by (auto simp: redirected_def merge_one_map merge_row_def)
  have keys: "map ID ?t = map ID t" "map (\<lambda>r. (ID r, ProjectID r, Fingerprint r)) ?t = map (\<lambda>r. (ID r, ProjectID r, Fingerprint r)) t"
    by (simp_all add: merge_one_map comp_def)
  from 2(1) [OF ne r loop inv tg] have ih: "issues_inv t'" "merge_target pid tgt t'" "map ID t' = map ID ?t"
    "map (\<lambda>r. (ID r, ProjectID r, Fingerprint r)) t' = map (\<lambda>r. (ID r, ProjectID r, Fingerprint r)) ?t"
    "\<forall>s \<in> set srcs. redirected s tgt t'" "\<forall>s. s \<noteq> tgt \<longrightarrow> redirected s tgt ?t \<longrightarrow> redirected s tgt t'"
    by blast+
  show ?case using ih keys src keep ne by simp
qed

lemma MergeIssues_ok:
  assumes "MergeIssues t dbok pid tgt srcs = (t', Inr ())" and "issues_inv t"
  shows "merge_loop pid tgt srcs t = Inr t'" and "merge_target pid tgt t"
  using assms by (auto simp: MergeIssues_def merge_target_def list_ex_iff split: if_splits sum.splits)

lemma MergeIssues_inv: "issues_inv t \<Longrightarrow> issues_inv (fst (MergeIssues t dbok pid tgt srcs))"
  using merge_loop_outcome [of pid tgt srcs t]
  by (auto simp: MergeIssues_def merge_target_def list_ex_iff split: sum.splits)


section \<open>Listing is what it says\<close>

text \<open>The three replacements escape each special character once.\<close>

definition esc :: "char \<Rightarrow> string" where
  "esc c = (if c \<in> {CHR 0x5C, CHR ''%'', CHR ''_''} then [CHR 0x5C, c] else [c])"

lemma escapeLike_eq: "escapeLike s = concat (map esc s)"
  unfolding escapeLike_def replace_char_def by (induction s) (auto simp: esc_def)

lemma like_literal:
  "like (concat (map esc u) @ ps) s \<longleftrightarrow>
     length u \<le> length s \<and> to_lower (take (length u) s) = to_lower u \<and> like ps (drop (length u) s)"
proof (induction u arbitrary: s)
  case (Cons c u)
  have "like (esc c @ qs) s \<longleftrightarrow> (case s of [] \<Rightarrow> False | d # ds \<Rightarrow> ci_eq c d \<and> like qs ds)" for qs
    by (cases s) (auto simp: esc_def)
  from this [of "concat (map esc u) @ ps"] show ?case
    by (cases s) (auto simp: Cons.IH to_lower_def ci_eq_def)
qed (simp add: to_lower_def)

lemma like_percent: "like (CHR ''%'' # ps) s \<longleftrightarrow> (\<exists>k \<le> length s. like ps (drop k s))"
proof (induction s)
  case (Cons c s)
  have "like (CHR ''%'' # ps) (c # s) \<longleftrightarrow> like ps (c # s) \<or> like (CHR ''%'' # ps) s" by simp
  also have "\<dots> \<longleftrightarrow> (\<exists>k \<le> length (c # s). like ps (drop k (c # s)))"
    unfolding Cons.IH using le_Suc_eq by (metis drop0 drop_Suc_Cons le0 le_SucE length_Cons not0_implies_Suc Suc_le_mono)
  finally show ?case .
qed simp

declare like.simps [simp del]

lemma like_any [simp]: "like ''%'' s"
  unfolding like_percent by (rule exI [of _ "length s"]) (simp add: like.simps)

text \<open>User text matches as a plain substring, up to ASCII case.\<close>

lemma like_escaped: "like (''%'' @ escapeLike u @ ''%'') s \<longleftrightarrow> sublist (to_lower u) (to_lower s)"
proof
  assume "like (''%'' @ escapeLike u @ ''%'') s"
  then obtain k where "to_lower (take (length u) (drop k s)) = to_lower u"
    by (auto simp: escapeLike_eq like_percent like_literal)
  then have "to_lower s = to_lower (take k s) @ to_lower u @ to_lower (drop (length u) (drop k s))"
    by (metis append_take_drop_id map_append to_lower_def)
  then show "sublist (to_lower u) (to_lower s)" by (metis sublist_appendI)
next
  assume "sublist (to_lower u) (to_lower s)"
  then obtain a c where ac: "to_lower s = a @ to_lower u @ c" by (auto simp: sublist_def)
  then have len: "length s = length a + length u + length c" by (metis add.assoc length_append length_map to_lower_def)
  have "to_lower (take (length u) (drop (length a) s)) = take (length u) (drop (length a) (to_lower s))"
    by (simp add: to_lower_def take_map drop_map)
  also have "\<dots> = to_lower u" unfolding ac by (simp add: to_lower_def)
  finally show "like (''%'' @ escapeLike u @ ''%'') s"
    using len by (auto simp: escapeLike_eq like_percent [of "concat (map esc u) @ ''%''"] like_literal intro!: exI [of _ "length a"])
qed

section \<open>Lives of the table\<close>

inductive issues_reach :: "issue_table \<Rightarrow> bool" where
  empty: "issues_reach []"
| upsert: "issues_reach t \<Longrightarrow> 0 < eid \<Longrightarrow> eid \<notin> ID ` set t \<Longrightarrow> issues_reach (fst (UpsertIssue t dbok eid u))"
| status: "issues_reach t \<Longrightarrow> issues_reach (fst (SetIssueStatus t dbok pid i st))"
| merge: "issues_reach t \<Longrightarrow> issues_reach (fst (MergeIssues t dbok pid tgt srcs))"
| split: "issues_reach t \<Longrightarrow> issues_reach (fst (SplitIssue t dbok pid src))"

lemma issues_reach_inv: "issues_reach t \<Longrightarrow> issues_inv t"
proof (induction rule: issues_reach.induct)
  case empty
  then show ?case by (simp add: issues_inv_def one_hop_def)
qed (simp_all add: UpsertIssue_inv SetIssueStatus_inv MergeIssues_inv SplitIssue_inv)

definition sample_hit :: "string \<Rightarrow> int \<Rightarrow> IssueUpsert" where
  "sample_hit fp ts = \<lparr>u_OrgID = 1, u_ProjectID = 7, u_Fingerprint = fp, u_Basis = ''b'', u_Title = ''t'', u_Level = ''error'', u_SeenAt = ts\<rparr>"

definition sample_table :: issue_table where
  "sample_table = fst (UpsertIssue (fst (UpsertIssue [] True 1 (sample_hit ''a'' 10))) True 2 (sample_hit ''b'' 20))"

lemma sample_table_eq: "sample_table = [new_issue 1 (sample_hit ''a'' 10), new_issue 2 (sample_hit ''b'' 20)]"
  by (simp add: sample_table_def UpsertIssue_def sample_hit_def new_issue_def)

lemma sample_table_reach: "issues_reach sample_table"
  unfolding sample_table_def
  by (intro issues_reach.intros) (auto simp: UpsertIssue_def sample_hit_def new_issue_def)

section \<open>Properties\<close>

text \<open>C24. Every life of the issue table keeps it well-formed, and in particular merges stay one hop deep: in every table
  reached by hits, status changes, merges and splits (failed ones included) a merged issue points at an issue
  of its own project that is not merged itself, ids and project fingerprints are unique, and every row has been
  seen at least once and last seen no earlier than first.\<close>

theorem issues_stay_well_formed:
  assumes "issues_reach t" and "r \<in> set t"
  shows "distinct (map ID t) \<and> distinct (map (\<lambda>r. (ProjectID r, Fingerprint r)) t) \<and> 1 \<le> TimesSeen r \<and> FirstSeen r \<le> LastSeen r \<and>
    (\<forall>m. MergedInto r = Some m \<longrightarrow> (\<exists>s \<in> set t. ID s = m \<and> MergedInto s = None \<and> ProjectID s = ProjectID r))"
proof -
  note inv = issues_reach_inv [OF assms(1)]
  from issues_inv_rows [OF this assms(2)] have "1 \<le> TimesSeen r \<and> FirstSeen r \<le> LastSeen r" by (simp add: row_ok_def)
  with inv one_hopD [OF inv assms(2)] show ?thesis by (auto simp: issues_inv_def)
qed

theorem issues_stay_well_formed_witness:
  "distinct (map ID sample_table) \<and> 1 \<le> TimesSeen (new_issue 1 (sample_hit ''a'' 10))"
  using issues_stay_well_formed [OF sample_table_reach, of "new_issue 1 (sample_hit ''a'' 10)"] by (simp add: sample_table_eq)

text \<open>A hit is counted exactly once, in one live issue of its project: with valid arguments and a working database the
  upsert succeeds, the total of all counts grows by one, the issue it reports is an unmerged row of the
  project whose count is the reported one, it is not resolved afterwards (a resolved issue regresses, and only then is a
  regression reported), and every other row is as before.\<close>

theorem UpsertIssue_counts_once:
  assumes "issues_reach t" and "0 < eid" and "eid \<notin> ID ` set t" and "u_ProjectID u \<noteq> 0" and "u_Fingerprint u \<noteq> []"
  shows "\<exists>t' out x. UpsertIssue t True eid u = (t', Inr out) \<and> (\<Sum>r\<leftarrow>t'. TimesSeen r) = (\<Sum>r\<leftarrow>t. TimesSeen r) + 1 \<and>
    row t' (o_ID out) = Some x \<and> MergedInto x = None \<and> ProjectID x = u_ProjectID u \<and> TimesSeen x = o_TimesSeen out \<and>
    Status x = o_Status out \<and> Status x \<noteq> IssueResolved \<and> u_SeenAt u \<le> LastSeen x \<and>
    o_Regressed out = (\<exists>y. row t (o_ID out) = Some y \<and> Status y = IssueResolved) \<and>
    (\<forall>i. i \<noteq> o_ID out \<longrightarrow> row t' i = row t i)"
proof (cases "\<exists>r \<in> set t. ProjectID r = u_ProjectID u \<and> Fingerprint r = u_Fingerprint u")
  case False
  have fresh: "row t eid = None" using assms(3) by (auto simp: row_def find_None_iff)
  have app: "row (t @ [new_issue eid u]) i = (case row t i of None \<Rightarrow> if i = eid then Some (new_issue eid u) else None | Some y \<Rightarrow> Some y)" for i
    unfolding row_def by (induction t) (auto simp: new_issue_def)
  have up: "UpsertIssue t True eid u = (t @ [new_issue eid u],
     Inr \<lparr>o_ID = eid, o_IsNew = True, o_Regressed = False, o_TimesSeen = 1, o_Status = IssueUnresolved\<rparr>)"
    by (rule UpsertIssue_new) (use assms(4,5) False in auto)
  have new: "row (t @ [new_issue eid u]) eid = Some (new_issue eid u)" by (simp add: app fresh)
  have old: "row (t @ [new_issue eid u]) i = row t i" if "i \<noteq> eid" for i using that by (simp add: app split: option.split)
  show ?thesis unfolding up by (simp add: new old fresh) (simp add: new_issue_def status_names)
next
  case True
  then obtain r where r: "r \<in> set t" "ProjectID r = u_ProjectID u" "Fingerprint r = u_Fingerprint u" by blast
  note inv = issues_reach_inv [OF assms(1)]
  from UpsertIssue_known [OF inv r assms(4,5)] obtain x where x: "x \<in> set t" "row t (ID x) = Some x" "MergedInto x = None"
    "ProjectID x = u_ProjectID u" and up: "UpsertIssue t True eid u = (update_where (\<lambda>y. ID y = ID x) (count_hit u (hit_status x)) t,
      Inr \<lparr>o_ID = ID x, o_IsNew = False, o_Regressed = (Status x = IssueResolved), o_TimesSeen = TimesSeen x + 1,
           o_Status = hit_status x\<rparr>)" by blast
  let ?t = "update_where (\<lambda>y. ID y = ID x) (count_hit u (hit_status x)) t"
  have "distinct (map ID t)" using inv by (simp add: issues_inv_def)
  from sum_update_where [OF this x(2)] have "(\<Sum>r\<leftarrow>?t. TimesSeen r) = (\<Sum>r\<leftarrow>t. TimesSeen r) + 1" by (simp add: count_hit_def)
  moreover have "row ?t (ID x) = Some (count_hit u (hit_status x) x)"
    by (subst row_update_same) (simp_all add: count_hit_def x(2))
  moreover have "row ?t i = row t i" if "i \<noteq> ID x" for i
    by (rule row_update_other) (use that in \<open>simp_all add: count_hit_def\<close>)
  ultimately show ?thesis
    unfolding up using x by (simp add: count_hit_def) (simp add: hit_status_def status_names)
qed

theorem UpsertIssue_counts_once_witness:
  "\<exists>t' out. UpsertIssue sample_table True 3 (sample_hit ''a'' 30) = (t', Inr out) \<and> (\<Sum>r\<leftarrow>t'. TimesSeen r) = 3"
proof -
  have "3 \<notin> ID ` set sample_table" "(\<Sum>r\<leftarrow>sample_table. TimesSeen r) = 2" by (simp_all add: sample_table_eq new_issue_def)
  with UpsertIssue_counts_once [OF sample_table_reach, of 3 "sample_hit ''a'' 30"] show ?thesis by (auto simp: sample_hit_def)
qed

text \<open>Merge decisions persist: after a successful merge, a hit on the fingerprint of any source issue counts into the
  target, whatever the sources were merged into before.\<close>

theorem merge_redirects:
  assumes "issues_reach t" and "MergeIssues t dbok pid tgt srcs = (t', Inr ())" and "src \<in> set srcs"
    and "r \<in> set t" and "ID r = src" and "u_ProjectID u = ProjectID r" and "u_Fingerprint u = Fingerprint r"
    and "u_ProjectID u \<noteq> 0" and "u_Fingerprint u \<noteq> []"
  shows "\<exists>t'' out. UpsertIssue t' True eid u = (t'', Inr out) \<and> o_ID out = tgt \<and> \<not> o_IsNew out"
proof -
  note inv = issues_reach_inv [OF assms(1)]
  note loop = merge_loop_outcome [OF MergeIssues_ok(1) [OF assms(2) inv] inv MergeIssues_ok(2) [OF assms(2) inv]]
  then have "(ID r, ProjectID r, Fingerprint r) \<in> set (map (\<lambda>r. (ID r, ProjectID r, Fingerprint r)) t')"
    using assms(4) by (metis (mono_tags, lifting) image_eqI list.set_map)
  then obtain r' where r': "r' \<in> set t'" "ID r' = ID r" "ProjectID r' = ProjectID r" "Fingerprint r' = Fingerprint r" by auto
  then have m: "MergedInto r' = Some tgt" using loop assms(3,5) by (auto simp: redirected_def)
  have "issues_inv t'" using loop by blast
  from UpsertIssue_known [OF this r'(1), of u eid] r' assms(6-9) m show ?thesis by auto
qed

theorem merge_redirects_witness:
  "\<exists>t' t'' out. MergeIssues sample_table True 7 1 [2] = (t', Inr ()) \<and> UpsertIssue t' True 3 (sample_hit ''b'' 30) = (t'', Inr out) \<and> o_ID out = 1"
proof -
  have "MergeIssues sample_table True 7 1 [2] = (fst (MergeIssues sample_table True 7 1 [2]), Inr ())"
    by (simp add: sample_table_eq MergeIssues_def new_issue_def sample_hit_def)
  from merge_redirects [OF sample_table_reach this, of 2 "new_issue 2 (sample_hit ''b'' 20)" "sample_hit ''b'' 30" 3] this
  show ?thesis by (auto simp: sample_table_eq new_issue_def sample_hit_def)
qed

text \<open>What a filter means, apart from the fingerprint set.\<close>

definition selected :: "int \<Rightarrow> IssueFilter \<Rightarrow> Issue \<Rightarrow> bool" where
  "selected pid f r \<longleftrightarrow> ProjectID r = pid \<and> MergedInto r = None \<and>
     (fl_Status f \<noteq> [] \<longrightarrow> Status r = fl_Status f) \<and> (fl_Level f \<noteq> [] \<longrightarrow> Level r = fl_Level f) \<and>
     sublist (to_lower (fl_TitleLike f)) (to_lower (Title r)) \<and>
     (fl_Fingerprint f \<noteq> [] \<longrightarrow> Fingerprint r = fl_Fingerprint f)"

lemma row_matches_selected:
  "row_matches pid f r \<longleftrightarrow> selected pid f r \<and>
     (case fl_Fingerprints f of None \<Rightarrow> True | Some fps \<Rightarrow> fps = [] \<or> Fingerprint r \<in> set (take 500 fps))"
  unfolding row_matches_def selected_def like_escaped by (auto simp: to_lower_def)

text \<open>Listing is scoped, filtered, ordered and bounded: given an engine that orders rows by \<open>last_seen\<close>,
  the result has at most 500 rows, all of them unmerged issues of the project that satisfy every constraint
  of the filter (the title one as a case-insensitive plain substring, whatever wildcards the user typed), newest activity
  first; and when it is shorter than the limit every such issue is in it.\<close>

theorem ListIssuesFiltered_exact:
  assumes "\<And>l. mset (order_by l) = mset l \<and> sorted_wrt (\<lambda>a b. LastSeen b \<le> LastSeen a) (order_by l)"
    and "res = ListIssuesFiltered order_by t pid f limit"
  shows "length res \<le> 500 \<and> sorted_wrt (\<lambda>a b. LastSeen b \<le> LastSeen a) res \<and>
    (\<forall>r \<in> set res. r \<in> set t \<and> selected pid f r \<and> (\<forall>fps. fl_Fingerprints f = Some fps \<longrightarrow> Fingerprint r \<in> set fps)) \<and>
    (fl_Fingerprints f = None \<and> 0 < limit \<and> limit \<le> 500 \<and> length res < nat limit \<longrightarrow>
       set res = {r \<in> set t. selected pid f r})"
proof (cases "fl_Fingerprints f = Some []")
  case True
  then show ?thesis using assms(2) by (simp add: ListIssuesFiltered_def Let_def)
next
  case False
  let ?l = "order_by (filter (row_matches pid f) t)"
  let ?n = "nat (if limit \<le> 0 \<or> 500 < limit then 100 else limit)"
  have set_l: "set ?l = {r \<in> set t. row_matches pid f r}"
    using assms(1) [of "filter (row_matches pid f) t"] by (metis set_filter set_mset_mset)
  have res: "res = take ?n ?l" using assms(2) False by (simp add: ListIssuesFiltered_def Let_def)
  have sorted: "sorted_wrt (\<lambda>a b. LastSeen b \<le> LastSeen a) res"
    unfolding res using assms(1) sorted_wrt_take by blast
  have mem: "r \<in> set t \<and> row_matches pid f r" if "r \<in> set res" for r
  proof -
    have "r \<in> set ?l" using that unfolding res by (rule in_set_takeD)
    then show ?thesis unfolding set_l by simp
  qed
  have fps: "Fingerprint r \<in> set fps" if "r \<in> set res" "fl_Fingerprints f = Some fps" for r fps
  proof -
    have "fps \<noteq> []" using False that(2) by simp
    with mem [OF that(1)] that(2) have "Fingerprint r \<in> set (take 500 fps)" by (simp add: row_matches_selected)
    then show ?thesis by (rule in_set_takeD)
  qed
  have all: "set res = {r \<in> set t. selected pid f r}" if "fl_Fingerprints f = None" "0 < limit" "limit \<le> 500" "length res < nat limit"
  proof -
    have "?n = nat limit" using that(2,3) by simp
    with that(4) have "res = ?l" unfolding res by simp
    then show ?thesis using set_l that(1) by (simp add: row_matches_selected)
  qed
  have "?n \<le> 500" by (cases "limit \<le> 0 \<or> 500 < limit") auto
  then have "length res \<le> 500" unfolding res length_take by (rule le_trans [OF min.cobounded2])
  moreover have "r \<in> set t \<and> selected pid f r" if "r \<in> set res" for r
    using mem [OF that] unfolding row_matches_selected by blast
  ultimately show ?thesis using sorted fps all by blast
qed

theorem ListIssuesFiltered_exact_witness:
  "length (ListIssuesFiltered (sort_key (\<lambda>r. - LastSeen r)) sample_table 7
     \<lparr>fl_Status = [], fl_Level = [], fl_TitleLike = ''T'', fl_Fingerprint = [], fl_Fingerprints = None\<rparr> 10) \<le> 500"
proof -
  have "mset (sort_key (\<lambda>r. - LastSeen r) l) = mset l \<and>
    sorted_wrt (\<lambda>a b. LastSeen b \<le> LastSeen a) (sort_key (\<lambda>r. - LastSeen r) (l :: issue_table))" for l
    using sorted_sort_key [of "\<lambda>r :: Issue. - LastSeen r" l] by (simp add: sorted_map)
  from ListIssuesFiltered_exact [OF this refl] show ?thesis by blast
qed

end
