(* ===== verification/Alerts.thy ===== *)
theory Alerts
  imports Prelude
begin

text \<open>
  The alert engine of \<open>internal/alerts/alerts.go\<close>. The engine's state is a record; the code
  holds its mutex for each of \<open>cooldownOK\<close>, \<open>breakerAllow\<close>, \<open>breakerRecord\<close> and
  the counter updates, so these are the atomic steps. Every reading of the clock and every answer
  of a webhook is an argument. The results: no rule alerts twice on an issue within
  the cooldown; a delivery ends in exactly one of delivered, dead-lettered or cancelled; an endpoint
  that keeps failing is left alone until the reset; all memory is bounded.
\<close>

section \<open>Data\<close>

definition CondNewIssue :: string where "CondNewIssue = ''new_issue''"

definition CondRegression :: string where "CondRegression = ''regression''"

definition CondFrequency :: string where "CondFrequency = ''frequency''"

record Rule =
  r_ID :: int
  r_OrgID :: int
  r_ProjectID :: int
  r_Name :: string
  r_Condition :: string
  r_Threshold :: int
  r_WebhookURL :: string
  r_Enabled :: bool

record IssueActivity =
  a_OrgID :: int
  a_ProjectID :: int
  a_IssueID :: int
  a_Title :: string
  a_Level :: string
  a_Status :: string
  a_TimesSeen :: int
  a_IsNew :: bool
  a_Regressed :: bool

text \<open>Durations are in nanoseconds.\<close>

record alert_opts =
  Workers :: int
  QueueDepth :: int
  Cooldown :: int
  MaxAttempts :: int
  BreakerFails :: int
  BreakerReset :: int
  HTTPTimeout :: int

definition alert_defaults :: "alert_opts \<Rightarrow> alert_opts" where
  "alert_defaults o1 =
     o1\<lparr>Workers := (if Workers o1 \<le> 0 then 4 else Workers o1),
        QueueDepth := (if QueueDepth o1 \<le> 0 then 1024 else QueueDepth o1),
        Cooldown := (if Cooldown o1 \<le> 0 then 300 * 10 ^ 9 else Cooldown o1),
        MaxAttempts := (if MaxAttempts o1 \<le> 0 then 5 else MaxAttempts o1),
        BreakerFails := (if BreakerFails o1 \<le> 0 then 5 else BreakerFails o1),
        BreakerReset := (if BreakerReset o1 \<le> 0 then 60 * 10 ^ 9 else BreakerReset o1),
        HTTPTimeout := (if HTTPTimeout o1 \<le> 0 then 10 * 10 ^ 9 else HTTPTimeout o1)\<rparr>"

record notification =
  n_rule :: Rule
  n_act :: IssueActivity

datatype post_err = BreakerOpen | PostFailed string

record DeadLetter =
  d_Rule :: Rule
  d_Activity :: IssueActivity
  d_Error :: post_err
  d_At :: int

text \<open>\<open>openUntil = None\<close> is Go's zero time, before every clock reading.\<close>

record breakerState =
  fails :: int
  openUntil :: "int option"

record engine =
  e_opts :: alert_opts
  queue :: "notification list"
  cooldown :: "(string \<times> int) list"
  breaker :: "(string \<times> breakerState) list"
  dead :: "DeadLetter list"
  Delivered :: nat
  Dropped :: nat

definition alerts_New :: "alert_opts \<Rightarrow> engine" where
  "alerts_New o1 =
     \<lparr>e_opts = alert_defaults o1, queue = [], cooldown = [], breaker = [], dead = [], Delivered = 0, Dropped = 0\<rparr>"

section \<open>Evaluation\<close>

definition rule_matches :: "Rule \<Rightarrow> IssueActivity \<Rightarrow> bool" where
  "rule_matches r act =
     (if r_Condition r = CondNewIssue then a_IsNew act
      else if r_Condition r = CondRegression then a_Regressed act
      else if r_Condition r = CondFrequency then 0 < r_Threshold r \<and> a_TimesSeen act = r_Threshold r
      else False)"

definition cooldown_key :: "int \<Rightarrow> int \<Rightarrow> string" where
  "cooldown_key ruleID issueID = int_str ruleID @ '':'' @ int_str issueID"

definition cooldownOK :: "engine \<Rightarrow> int \<Rightarrow> int \<Rightarrow> int \<Rightarrow> engine \<times> bool" where
  "cooldownOK e ruleID issueID now =
     (let key = cooldown_key ruleID issueID; window = Cooldown (e_opts e) in
      case map_of (cooldown e) key of
        Some t \<Rightarrow>
          if time_sub now t < window then (e, False)
          else (let m = (if 100000 < length (cooldown e) then filter (\<lambda>kv. \<not> window < time_sub now (snd kv)) (cooldown e)
                         else cooldown e)
                in (e\<lparr>cooldown := map_put key now m\<rparr>, True))
      | None \<Rightarrow>
          let m = (if 100000 < length (cooldown e) then filter (\<lambda>kv. \<not> window < time_sub now (snd kv)) (cooldown e)
                   else cooldown e)
          in (e\<lparr>cooldown := map_put key now m\<rparr>, True))"

text \<open>The non-blocking send on the bounded queue.\<close>

definition enqueue :: "engine \<Rightarrow> notification \<Rightarrow> engine" where
  "enqueue e n =
     (if int (length (queue e)) < QueueDepth (e_opts e) then e\<lparr>queue := queue e @ [n]\<rparr>
      else e\<lparr>Dropped := Dropped e + 1\<rparr>)"

definition eval_rule :: "engine \<Rightarrow> IssueActivity \<Rightarrow> Rule \<Rightarrow> int \<Rightarrow> engine" where
  "eval_rule e act r now =
     (if \<not> rule_matches r act then e
      else case cooldownOK e (r_ID r) (a_IssueID act) now of
        (e', False) \<Rightarrow> e'
      | (e', True) \<Rightarrow> enqueue e' \<lparr>n_rule = r, n_act = act\<rparr>)"

text \<open>
  \<open>rules\<close> is what the rule source answered (\<open>None\<close> an error), \<open>clock i\<close> the time at
  the \<open>i\<close>-th rule.
\<close>

fun eval_rules :: "engine \<Rightarrow> IssueActivity \<Rightarrow> Rule list \<Rightarrow> (nat \<Rightarrow> int) \<Rightarrow> engine" where
  "eval_rules e act [] clock = e"
| "eval_rules e act (r # rs) clock = eval_rules (eval_rule e act r (clock 0)) act rs (\<lambda>i. clock (Suc i))"

definition Evaluate :: "engine \<Rightarrow> IssueActivity \<Rightarrow> Rule list option \<Rightarrow> (nat \<Rightarrow> int) \<Rightarrow> engine" where
  "Evaluate e act rules clock = (case rules of None \<Rightarrow> e | Some rs \<Rightarrow> eval_rules e act rs clock)"

section \<open>Delivery\<close>

definition breakerAllow :: "engine \<Rightarrow> string \<Rightarrow> int \<Rightarrow> bool" where
  "breakerAllow e url now =
     (case map_of (breaker e) url of
        None \<Rightarrow> True
      | Some b \<Rightarrow> (case openUntil b of None \<Rightarrow> True | Some t \<Rightarrow> t < now))"

definition breakerRecord :: "engine \<Rightarrow> string \<Rightarrow> bool \<Rightarrow> int \<Rightarrow> engine" where
  "breakerRecord e url ok now =
     (let b = (case map_of (breaker e) url of None \<Rightarrow> \<lparr>fails = 0, openUntil = None\<rparr> | Some b \<Rightarrow> b);
          b' = (if ok then \<lparr>fails = 0, openUntil = None\<rparr>
                else if BreakerFails (e_opts e) \<le> fails b + 1
                then \<lparr>fails = 0, openUntil = Some (now + BreakerReset (e_opts e))\<rparr>
                else b\<lparr>fails := fails b + 1\<rparr>)
      in e\<lparr>breaker := map_put url b' (breaker e)\<rparr>)"

text \<open>
  One turn of the retry loop. \<open>cancelled\<close>: the context is done; \<open>t\<close>: the clock at
  \<open>breakerAllow\<close>; \<open>answer\<close>: what \<open>post\<close> returns (\<open>None\<close> for success); \<open>t'\<close>: the
  clock at \<open>breakerRecord\<close>.
\<close>

record turn_env =
  cancelled :: bool
  t_allow :: int
  answer :: "string option"
  t_record :: int

datatype turn = Cancelled | Sent | Again post_err

definition attempt :: "engine \<Rightarrow> notification \<Rightarrow> turn_env \<Rightarrow> engine \<times> turn" where
  "attempt e n v =
     (let url = r_WebhookURL (n_rule n) in
      if cancelled v then (e, Cancelled)
      else if \<not> breakerAllow e url (t_allow v) then (e, Again BreakerOpen)
      else case answer v of
        None \<Rightarrow>
          let e' = breakerRecord e url True (t_record v) in (e'\<lparr>Delivered := Delivered e' + 1\<rparr>, Sent)
      | Some err \<Rightarrow> (breakerRecord e url False (t_record v), Again (PostFailed err)))"

definition dead_letter :: "engine \<Rightarrow> notification \<Rightarrow> post_err \<Rightarrow> int \<Rightarrow> engine" where
  "dead_letter e n err now =
     (let d = dead e @ [\<lparr>d_Rule = n_rule n, d_Activity = n_act n, d_Error = err, d_At = now\<rparr>]
      in e\<lparr>dead := (if 1000 < length d then drop (length d - 1000) d else d)\<rparr>)"

text \<open>
  The worker with nobody else at work; the environments give what each turn meets, one per
  attempt. The loop ends after \<open>MaxAttempts\<close> turns.
\<close>

datatype fate = WasCancelled | WasDelivered | WasDead

fun deliver_loop :: "engine \<Rightarrow> notification \<Rightarrow> turn_env list \<Rightarrow> post_err \<Rightarrow> int \<Rightarrow> engine \<times> fate" where
  "deliver_loop e n [] lastErr now = (dead_letter e n lastErr now, WasDead)"
| "deliver_loop e n (v # vs) lastErr now =
     (case attempt e n v of
        (e', Cancelled) \<Rightarrow> (e', WasCancelled)
      | (e', Sent) \<Rightarrow> (e', WasDelivered)
      | (e', Again err) \<Rightarrow> deliver_loop e' n vs err now)"

definition deliver :: "engine \<Rightarrow> notification \<Rightarrow> (nat \<Rightarrow> turn_env) \<Rightarrow> int \<Rightarrow> engine \<times> fate" where
  "deliver e n env now = deliver_loop e n (map env [0..<nat (MaxAttempts (e_opts e))]) BreakerOpen now"

definition DeadLetters :: "engine \<Rightarrow> DeadLetter list" where
  "DeadLetters e = dead e"

section \<open>Runs of the engine\<close>

text \<open>
  Pipelines evaluate and workers deliver at the same time. A run interleaves their atomic steps in any
  order: \<open>ws\<close> are the workers' current deliveries with the turns taken and the last error;
  \<open>fired\<close> the alerts that passed the cooldown, newest first, as time, rule and issue; \<open>d\<close> and
  \<open>c\<close> count dead-lettered and cancelled deliveries; \<open>now\<close> is the latest clock reading of an evaluation.
\<close>

inductive al_run ::
  "alert_opts \<Rightarrow> engine \<Rightarrow> (notification \<times> nat \<times> post_err) list \<Rightarrow> (int \<times> int \<times> int) list \<Rightarrow> nat \<Rightarrow> nat \<Rightarrow> int \<Rightarrow> bool"
  for o1 where
  start: "al_run o1 (alerts_New o1) [] [] 0 0 now"
| skip: "al_run o1 e ws fired d c now \<Longrightarrow> now \<le> now' \<Longrightarrow>
    \<not> (rule_matches r act \<and> snd (cooldownOK e (r_ID r) (a_IssueID act) now')) \<Longrightarrow>
    al_run o1 (eval_rule e act r now') ws fired d c now'"
| fire: "al_run o1 e ws fired d c now \<Longrightarrow> now \<le> now' \<Longrightarrow>
    rule_matches r act \<Longrightarrow> snd (cooldownOK e (r_ID r) (a_IssueID act) now') \<Longrightarrow>
    al_run o1 (eval_rule e act r now') ws ((now', r_ID r, a_IssueID act) # fired) d c now'"
| take: "al_run o1 e ws fired d c now \<Longrightarrow> queue e = n # q \<Longrightarrow> int (length ws) < Workers (e_opts e) \<Longrightarrow>
    al_run o1 (e\<lparr>queue := q\<rparr>) ((n, 0, BreakerOpen) # ws) fired d c now"
| again: "al_run o1 e (xs @ (n, k, err) # ys) fired d c now \<Longrightarrow> int k < MaxAttempts (e_opts e) \<Longrightarrow>
    attempt e n v = (e', Again err') \<Longrightarrow> al_run o1 e' (xs @ (n, Suc k, err') # ys) fired d c now"
| sent: "al_run o1 e (xs @ (n, k, err) # ys) fired d c now \<Longrightarrow> int k < MaxAttempts (e_opts e) \<Longrightarrow>
    attempt e n v = (e', Sent) \<Longrightarrow> al_run o1 e' (xs @ ys) fired d c now"
| cancel: "al_run o1 e (xs @ (n, k, err) # ys) fired d c now \<Longrightarrow> int k < MaxAttempts (e_opts e) \<Longrightarrow>
    attempt e n v = (e', Cancelled) \<Longrightarrow> al_run o1 e' (xs @ ys) fired d (Suc c) now"
| bury: "al_run o1 e (xs @ (n, k, err) # ys) fired d c now \<Longrightarrow> int k = MaxAttempts (e_opts e) \<Longrightarrow>
    al_run o1 (dead_letter e n err t) (xs @ ys) fired (Suc d) c now"

subsection \<open>What each step changes\<close>

lemma cooldownOK_frame [simp]:
  "e_opts (fst (cooldownOK e r i now)) = e_opts e" "queue (fst (cooldownOK e r i now)) = queue e"
  "dead (fst (cooldownOK e r i now)) = dead e" "Delivered (fst (cooldownOK e r i now)) = Delivered e"
  "Dropped (fst (cooldownOK e r i now)) = Dropped e"
  by (auto simp: cooldownOK_def Let_def split: option.splits)

lemma eval_rule_skip:
  "\<not> (rule_matches r act \<and> snd (cooldownOK e (r_ID r) (a_IssueID act) now)) \<Longrightarrow> eval_rule e act r now = e"
  by (auto simp: eval_rule_def cooldownOK_def Let_def split: option.splits if_splits)

lemma eval_rule_fire:
  "rule_matches r act \<Longrightarrow> snd (cooldownOK e (r_ID r) (a_IssueID act) now) \<Longrightarrow>
   eval_rule e act r now = enqueue (fst (cooldownOK e (r_ID r) (a_IssueID act) now)) \<lparr>n_rule = r, n_act = act\<rparr>"
  by (auto simp: eval_rule_def split: prod.splits bool.splits)

lemma enqueue_frame [simp]:
  "cooldown (enqueue e n) = cooldown e" "e_opts (enqueue e n) = e_opts e" "dead (enqueue e n) = dead e"
  "Delivered (enqueue e n) = Delivered e"
  by (simp_all add: enqueue_def)

lemma breakerRecord_frame [simp]:
  "cooldown (breakerRecord e u ok t) = cooldown e" "e_opts (breakerRecord e u ok t) = e_opts e"
  "dead (breakerRecord e u ok t) = dead e" "Delivered (breakerRecord e u ok t) = Delivered e"
  "queue (breakerRecord e u ok t) = queue e" "Dropped (breakerRecord e u ok t) = Dropped e"
  by (simp_all add: breakerRecord_def Let_def)

lemma attempt_frame:
  assumes "attempt e n v = (e', res)"
  shows "cooldown e' = cooldown e" "e_opts e' = e_opts e" "dead e' = dead e" "queue e' = queue e" "Dropped e' = Dropped e"
    "Delivered e' = Delivered e + (if res = Sent then 1 else 0)"
  using assms by (auto simp: attempt_def Let_def split: if_splits option.splits)

lemma dead_letter_frame [simp]:
  "cooldown (dead_letter e n err t) = cooldown e" "e_opts (dead_letter e n err t) = e_opts e"
  "queue (dead_letter e n err t) = queue e" "Dropped (dead_letter e n err t) = Dropped e"
  "Delivered (dead_letter e n err t) = Delivered e"
  by (simp_all add: dead_letter_def Let_def)

lemma dead_letter_length: "length (dead e) = min d 1000 \<Longrightarrow> length (dead (dead_letter e n err t)) = min (Suc d) 1000"
  by (simp add: dead_letter_def Let_def)

lemma al_run_opts: "al_run o1 e ws fired d c now \<Longrightarrow> e_opts e = alert_defaults o1"
  by (induction rule: al_run.induct) (auto simp: alerts_New_def eval_rule_skip eval_rule_fire dest: attempt_frame(2))

subsection \<open>The cooldown\<close>

lemma time_sub_less: "0 < w \<Longrightarrow> w < 2 ^ 63 \<Longrightarrow> time_sub a b < w \<longleftrightarrow> a - b < w"
  by (auto simp: time_sub_def)

lemma time_sub_greater: "w < time_sub a b \<Longrightarrow> - (2 ^ 63) \<le> w \<Longrightarrow> w < a - b"
  by (auto simp: time_sub_def)

lemma cooldown_key_inj:
  assumes "cooldown_key r i = cooldown_key r' i'"
  shows "r = r' \<and> i = i'"
proof -
  have colon: "CHR '':'' \<notin> set (int_str n)" for n
    using int_str_chars [of "CHR '':''" n] by (auto simp: is_digit_def)
  have "takeWhile (\<lambda>c. c \<noteq> CHR '':'') (cooldown_key r i) = int_str r" for r i
    using colon [of r] by (simp add: cooldown_key_def takeWhile_append2 takeWhile_append)
  with assms have "int_str r = int_str r'" by metis
  with assms show ?thesis by (auto simp: cooldown_key_def dest: int_str_inj)
qed

text \<open>Every earlier alert is remembered, or older than the window.\<close>

definition remembered :: "engine \<Rightarrow> int \<Rightarrow> int \<times> int \<times> int \<Rightarrow> bool" where
  "remembered e now f = (case f of (t, r, i) \<Rightarrow>
     (\<exists>t' \<ge> t. map_of (cooldown e) (cooldown_key r i) = Some t') \<or> Cooldown (e_opts e) < now - t)"

lemma remembered_later: "remembered e now f \<Longrightarrow> now \<le> now' \<Longrightarrow> remembered e now' f"
  by (auto simp: remembered_def split: prod.splits)

lemma map_of_filter_keep: "map_of m k = Some v \<Longrightarrow> P (k, v) \<Longrightarrow> map_of (filter P m) k = Some v"
  by (induction m) (auto split: if_splits)

text \<open>A check that passes stores the time and forgets only what is past the window.\<close>

lemma cooldownOK_pass:
  assumes "snd (cooldownOK e r i now)" and "0 < Cooldown (e_opts e)" "Cooldown (e_opts e) < 2 ^ 63"
  shows "map_of (cooldown (fst (cooldownOK e r i now))) (cooldown_key r i) = Some now"
    and "map_of (cooldown e) (cooldown_key r i) = Some t \<Longrightarrow> Cooldown (e_opts e) \<le> now - t"
    and "k \<noteq> cooldown_key r i \<Longrightarrow> map_of (cooldown e) k = Some t \<Longrightarrow>
      map_of (cooldown (fst (cooldownOK e r i now))) k = Some t \<or> Cooldown (e_opts e) < now - t"
proof -
  let ?w = "Cooldown (e_opts e)"
  let ?m = "if 100000 < length (cooldown e) then filter (\<lambda>kv. \<not> ?w < time_sub now (snd kv)) (cooldown e) else cooldown e"
  have eq: "fst (cooldownOK e r i now) = e\<lparr>cooldown := map_put (cooldown_key r i) now ?m\<rparr>"
    using assms(1) by (auto simp: cooldownOK_def Let_def split: option.splits if_splits)
  then show "map_of (cooldown (fst (cooldownOK e r i now))) (cooldown_key r i) = Some now" by simp
  show "?w \<le> now - t" if "map_of (cooldown e) (cooldown_key r i) = Some t"
    using assms that time_sub_less [OF assms(2,3), of now t] by (auto simp: cooldownOK_def Let_def split: if_splits)
  show "map_of (cooldown (fst (cooldownOK e r i now))) k = Some t \<or> ?w < now - t"
    if "k \<noteq> cooldown_key r i" "map_of (cooldown e) k = Some t"
  proof (cases "?w < time_sub now t")
    case True
    then show ?thesis using time_sub_greater [of ?w now t] assms(2) by simp
  next
    case False
    then have "map_of ?m k = Some t" using that(2) by (simp add: map_of_filter_keep)
    then show ?thesis using that(1) by (simp add: eq)
  qed
qed

lemma remembered_fire:
  assumes "snd (cooldownOK e r i now)" and "0 < Cooldown (e_opts e)" "Cooldown (e_opts e) < 2 ^ 63"
    and "remembered e now f" and "fst f \<le> now"
  shows "remembered (fst (cooldownOK e r i now)) now f"
    and "snd f = (r, i) \<Longrightarrow> Cooldown (e_opts e) \<le> now - fst f"
proof -
  obtain t r' i' where f: "f = (t, r', i')" by (cases f)
  note pass = cooldownOK_pass [OF assms(1-3)]
  show "remembered (fst (cooldownOK e r i now)) now f"
  proof (cases "cooldown_key r' i' = cooldown_key r i")
    case True
    then show ?thesis using pass(1) assms(5) by (auto simp: remembered_def f)
  next
    case False
    with assms(4) pass(3) [OF False] show ?thesis by (fastforce simp: remembered_def f)
  qed
  show "Cooldown (e_opts e) \<le> now - fst f" if "snd f = (r, i)"
    using assms(4) that pass(2) by (force simp: remembered_def f)
qed

definition spaced :: "int \<Rightarrow> (int \<times> int \<times> int) list \<Rightarrow> bool" where
  "spaced w fired \<longleftrightarrow> sorted_wrt (\<lambda>newer older. snd newer = snd older \<longrightarrow> fst older + w \<le> fst newer) fired"

lemma al_run_spaced:
  assumes "al_run o1 e ws fired d c now" and "Cooldown o1 < 2 ^ 63"
  shows "spaced (Cooldown (e_opts e)) fired \<and> (\<forall>f \<in> set fired. remembered e now f \<and> fst f \<le> now)"
  using assms
proof (induction rule: al_run.induct)
  case (start now)
  then show ?case by (simp add: spaced_def)
next
  case (skip e ws fired d c now now' r act)
  then show ?case using remembered_later by (force simp: eval_rule_skip)
next
  case (fire e ws fired d c now now' r act)
  let ?e = "fst (cooldownOK e (r_ID r) (a_IssueID act) now')"
  have w: "0 < Cooldown (e_opts e)" "Cooldown (e_opts e) < 2 ^ 63"
    using al_run_opts [OF fire(1)] fire.prems by (auto simp: alert_defaults_def)
  have "\<forall>f \<in> set fired. remembered e now f \<and> fst f \<le> now" using fire.IH [OF fire.prems] by blast
  then have old: "remembered e now' f" "fst f \<le> now'" if "f \<in> set fired" for f
    using that fire(2) by (auto intro: remembered_later order_trans)
  have new: "remembered ?e now' f" "snd f = (r_ID r, a_IssueID act) \<Longrightarrow> fst f + Cooldown (e_opts e) \<le> now'" if "f \<in> set fired" for f
    using remembered_fire [OF fire(4) w old [OF that]] by auto
  have self: "remembered ?e now' (now', r_ID r, a_IssueID act)"
    using cooldownOK_pass(1) [OF fire(4) w] by (simp add: remembered_def)
  have rem: "remembered (eval_rule e act r now') now' f \<longleftrightarrow> remembered ?e now' f" for f
    by (simp add: eval_rule_fire [OF fire(3,4)] remembered_def)
  have opts: "e_opts (eval_rule e act r now') = e_opts e" by (simp add: eval_rule_fire [OF fire(3,4)])
  show ?case unfolding opts rem
    using new self old fire.IH fire.prems by (fastforce simp: spaced_def)
next
  case (again e xs n k err ys fired d c now v e' err')
  then show ?case using attempt_frame(1,2) [OF again(3)] by (simp add: remembered_def split: prod.splits)
next
  case (sent e xs n k err ys fired d c now v e')
  then show ?case using attempt_frame(1,2) [OF sent(3)] by (simp add: remembered_def split: prod.splits)
next
  case (cancel e xs n k err ys fired d c now v e')
  then show ?case using attempt_frame(1,2) [OF cancel(3)] by (simp add: remembered_def split: prod.splits)
qed (simp_all add: remembered_def split: prod.splits)

subsection \<open>Nothing is lost silently\<close>

definition conserved ::
  "engine \<Rightarrow> (notification \<times> nat \<times> post_err) list \<Rightarrow> (int \<times> int \<times> int) list \<Rightarrow> nat \<Rightarrow> nat \<Rightarrow> bool" where
  "conserved e ws fired d c \<longleftrightarrow>
     length fired = Dropped e + length (queue e) + length ws + Delivered e + d + c \<and>
     int (length (queue e)) \<le> QueueDepth (e_opts e) \<and> int (length ws) \<le> Workers (e_opts e) \<and>
     length (dead e) = min d 1000 \<and> (\<forall>w \<in> set ws. int (fst (snd w)) \<le> MaxAttempts (e_opts e))"

lemma al_run_conserved: "al_run o1 e ws fired d c now \<Longrightarrow> conserved e ws fired d c"
proof (induction rule: al_run.induct)
  case (start now)
  then show ?case by (simp add: conserved_def alerts_New_def alert_defaults_def)
next
  case (fire e ws fired d c now now' r act)
  then show ?case unfolding eval_rule_fire [OF fire(3,4)] by (simp add: conserved_def enqueue_def)
next
  case (take e ws fired d c now n q)
  then show ?case using al_run_opts [OF take(1)] by (simp add: conserved_def alert_defaults_def)
next
  case (again e xs n k err ys fired d c now v e' err')
  then show ?case using attempt_frame [OF again(3)] by (simp add: conserved_def)
next
  case (sent e xs n k err ys fired d c now v e')
  then show ?case using attempt_frame [OF sent(3)] by (simp add: conserved_def)
next
  case (cancel e xs n k err ys fired d c now v e')
  then show ?case using attempt_frame [OF cancel(3)] by (simp add: conserved_def)
next
  case (bury e xs n k err ys fired d c now t)
  then show ?case using dead_letter_length [of e d n err t] by (simp add: conserved_def)
qed (simp add: eval_rule_skip)

subsection \<open>The circuit breaker\<close>

definition fail_run :: "engine \<Rightarrow> string \<Rightarrow> int list \<Rightarrow> engine" where
  "fail_run e url ts = foldl (\<lambda>e t. breakerRecord e url False t) e ts"

lemma fail_run_snoc: "fail_run e url (ts @ [t]) = breakerRecord (fail_run e url ts) url False t"
  by (simp add: fail_run_def)

lemma fail_run_opts [simp]: "e_opts (fail_run e url ts) = e_opts e"
  by (induction ts rule: rev_induct) (simp_all add: fail_run_snoc, simp add: fail_run_def)

lemma breaker_other: "u \<noteq> url \<Longrightarrow> map_of (breaker (breakerRecord e url ok t)) u = map_of (breaker e) u"
  by (simp add: breakerRecord_def Let_def)

lemma fail_run_other: "u \<noteq> url \<Longrightarrow> map_of (breaker (fail_run e url ts)) u = map_of (breaker e) u"
  by (induction ts rule: rev_induct) (simp_all add: fail_run_snoc breaker_other, simp add: fail_run_def)

lemma breakerRecord_success: "map_of (breaker (breakerRecord e url True t)) url = Some \<lparr>fails = 0, openUntil = None\<rparr>"
  by (simp add: breakerRecord_def Let_def)

lemma fail_run_counts:
  assumes "map_of (breaker e) url = Some \<lparr>fails = 0, openUntil = None\<rparr>" and "int (length ts) < BreakerFails (e_opts e)"
  shows "map_of (breaker (fail_run e url ts)) url = Some \<lparr>fails = int (length ts), openUntil = None\<rparr>"
  using assms(2)
proof (induction ts rule: rev_induct)
  case Nil
  then show ?case using assms(1) by (simp add: fail_run_def)
next
  case (snoc t ts)
  then show ?case by (simp add: fail_run_snoc breakerRecord_def Let_def)
qed

lemma fail_run_trips:
  assumes "map_of (breaker e) url = Some \<lparr>fails = 0, openUntil = None\<rparr>" and "int (length ts) + 1 = BreakerFails (e_opts e)"
  shows "map_of (breaker (fail_run e url (ts @ [t]))) url = Some \<lparr>fails = 0, openUntil = Some (t + BreakerReset (e_opts e))\<rparr>"
  using fail_run_counts [OF assms(1), of ts] assms(2) by (simp add: fail_run_snoc breakerRecord_def Let_def)

subsection \<open>Delivery\<close>

lemma dead_letter_last:
  "\<exists>ds. dead (dead_letter e n err t) = ds @ [\<lparr>d_Rule = n_rule n, d_Activity = n_act n, d_Error = err, d_At = t\<rparr>]"
  by (auto simp: dead_letter_def Let_def)

text \<open>The error a turn that neither sends nor is cancelled leaves.\<close>

lemma attempt_refused:
  assumes "\<not> cancelled v" and "answer v \<noteq> None"
  shows "\<exists>e' err. attempt e n v = (e', Again err)"
  using assms by (auto simp: attempt_def Let_def)

lemma deliver_loop_outcome:
  assumes "deliver_loop e n vs err now = (e', fate)"
  shows "Delivered e' = Delivered e + (if fate = WasDelivered then 1 else 0) \<and>
    (fate \<noteq> WasDead \<longrightarrow> dead e' = dead e) \<and>
    (fate = WasDead \<longrightarrow> (\<exists>ds err. dead e' = ds @ [\<lparr>d_Rule = n_rule n, d_Activity = n_act n, d_Error = err, d_At = now\<rparr>])) \<and>
    (fate = WasCancelled \<longrightarrow> (\<exists>v \<in> set vs. cancelled v)) \<and>
    (fate = WasDelivered \<longrightarrow> (\<exists>v \<in> set vs. answer v = None \<and> \<not> cancelled v)) \<and>
    queue e' = queue e \<and> e_opts e' = e_opts e"
  using assms
proof (induction e n vs err now rule: deliver_loop.induct)
  case (1 e n err now)
  then show ?case using dead_letter_last [of e n err now] by auto
next
  case (2 e n v vs err now)
  obtain e1 res where at: "attempt e n v = (e1, res)" by (cases "attempt e n v")
  note fr = attempt_frame [OF at]
  show ?case
  proof (cases res)
    case Cancelled
    with at have "cancelled v" by (auto simp: attempt_def Let_def split: if_splits option.splits)
    with 2(2) at fr Cancelled show ?thesis by auto
  next
    case Sent
    with at have "answer v = None" "\<not> cancelled v" by (auto simp: attempt_def Let_def split: if_splits option.splits)
    with 2(2) at fr Sent show ?thesis by auto
  next
    case (Again err')
    with 2(2) at have "deliver_loop e1 n vs err' now = (e', fate)" by simp
    from 2(1) [OF at [symmetric] Again this] fr Again show ?thesis by auto
  qed
qed

section \<open>A sample run\<close>

definition sample_rule :: Rule where
  "sample_rule = \<lparr>r_ID = 1, r_OrgID = 1, r_ProjectID = 7, r_Name = ''n'', r_Condition = CondNewIssue, r_Threshold = 0,
     r_WebhookURL = ''u'', r_Enabled = True\<rparr>"

definition sample_act :: IssueActivity where
  "sample_act = \<lparr>a_OrgID = 1, a_ProjectID = 7, a_IssueID = 5, a_Title = ''t'', a_Level = ''error'', a_Status = ''unresolved'',
     a_TimesSeen = 1, a_IsNew = True, a_Regressed = False\<rparr>"

definition sample_alert_opts :: alert_opts where
  "sample_alert_opts = \<lparr>Workers = 1, QueueDepth = 1, Cooldown = 10, MaxAttempts = 2, BreakerFails = 2, BreakerReset = 5, HTTPTimeout = 1\<rparr>"

definition sample_e1 :: engine where
  "sample_e1 = eval_rule (alerts_New sample_alert_opts) sample_act sample_rule 0"

definition sample_e2 :: engine where
  "sample_e2 = eval_rule sample_e1 sample_act sample_rule 10"

lemmas sample_alert_defs = sample_rule_def sample_act_def sample_alert_opts_def alerts_New_def alert_defaults_def rule_matches_def
  CondNewIssue_def

lemma sample_e1_eq:
  "snd (cooldownOK (alerts_New sample_alert_opts) 1 5 0)"
  "sample_e1 = (alerts_New sample_alert_opts)\<lparr>cooldown := [(cooldown_key 1 5, 0)], queue := [\<lparr>n_rule = sample_rule, n_act = sample_act\<rparr>]\<rparr>"
  by (simp_all add: sample_e1_def eval_rule_def cooldownOK_def enqueue_def Let_def)
    (simp_all add: sample_alert_defs enqueue_def)

lemma sample_e2_eq:
  "snd (cooldownOK sample_e1 1 5 10)" "Dropped sample_e2 = 1" "queue sample_e2 = [\<lparr>n_rule = sample_rule, n_act = sample_act\<rparr>]"
  by (simp_all add: sample_e2_def eval_rule_def sample_e1_eq(2) cooldownOK_def enqueue_def Let_def time_sub_def)
    (simp_all add: sample_alert_defs)

lemma sample_al_run: "al_run sample_alert_opts sample_e2 [] [(10, 1, 5), (0, 1, 5)] 0 0 10"
proof -
  have m: "rule_matches sample_rule sample_act" "r_ID sample_rule = 1" "a_IssueID sample_act = 5" by (simp_all add: sample_alert_defs)
  have "al_run sample_alert_opts sample_e1 [] [(0, 1, 5)] 0 0 0"
    using al_run.fire [OF al_run.start, of 0 0 sample_rule sample_act] m sample_e1_eq(1) by (simp add: sample_e1_def)
  from al_run.fire [OF this, of 10 sample_rule sample_act] m sample_e2_eq(1) show ?thesis by (simp add: sample_e2_def)
qed

section \<open>Properties\<close>

text \<open>C25. No alert storms: in every interleaving of evaluations and deliveries, with a clock that does not go back, two
  alerts of one rule on one issue are at least the cooldown apart, whatever was swept from the cooldown map in
  between.\<close>

theorem alerts_respect_cooldown:
  assumes "al_run o1 e ws fired d c now" and "Cooldown o1 < 2 ^ 63" and "i < j" and "j < length fired"
    and "snd (fired ! i) = snd (fired ! j)"
  shows "fst (fired ! j) + Cooldown (alert_defaults o1) \<le> fst (fired ! i)"
  using al_run_spaced [OF assms(1,2)] al_run_opts [OF assms(1)] assms(3-5) by (auto simp: spaced_def sorted_wrt_iff_nth_less)

theorem alerts_respect_cooldown_witness:
  "snd ([(10, 1, 5), (0, 1, 5)] ! 0) = snd ([(10, 1, 5 :: int), (0 :: int, 1 :: int, 5)] ! 1) \<and>
   0 + Cooldown (alert_defaults sample_alert_opts) \<le> 10"
  using alerts_respect_cooldown [OF sample_al_run, of 0 1] by (simp add: sample_alert_opts_def)

text \<open>C26. No notification vanishes: at every moment of every run the alerts that passed the cooldown are accounted for
  as dropped and counted, queued, in a worker's hands, delivered, dead-lettered or cancelled; queue, workers, attempts and the
  dead-letter ring stay within their bounds, and the ring holds the latest thousand.\<close>

theorem alerts_conserved:
  assumes "al_run o1 e ws fired d c now"
  shows "length fired = Dropped e + length (queue e) + length ws + Delivered e + d + c \<and>
    int (length (queue e)) \<le> QueueDepth (alert_defaults o1) \<and> int (length ws) \<le> Workers (alert_defaults o1) \<and>
    length (DeadLetters e) = min d 1000 \<and> (\<forall>w \<in> set ws. int (fst (snd w)) \<le> MaxAttempts (alert_defaults o1))"
  using al_run_conserved [OF assms] al_run_opts [OF assms] by (simp add: conserved_def DeadLetters_def)

theorem alerts_conserved_witness:
  "Dropped sample_e2 + length (queue sample_e2) + Delivered sample_e2 = 2"
  using alerts_conserved [OF sample_al_run] by simp

text \<open>The breaker trips exactly when it should: after a success, fewer than \<open>BreakerFails\<close> failures leave the
  endpoint open to requests; as many block it until the reset time after the last failure has passed, and no other
  endpoint is affected.\<close>

theorem breaker_trips_exactly:
  assumes "0 < BreakerFails (e_opts e)" and "int (length ts) \<le> BreakerFails (e_opts e)" and "u \<noteq> url"
    and "e' = fail_run (breakerRecord e url True t0) url ts"
  shows "(breakerAllow e' url now \<longleftrightarrow>
      int (length ts) < BreakerFails (e_opts e) \<or> last ts + BreakerReset (e_opts e) < now) \<and>
    breakerAllow e' u now = breakerAllow e u now"
proof (intro conjI)
  let ?e = "breakerRecord e url True t0"
  show "breakerAllow e' url now \<longleftrightarrow> int (length ts) < BreakerFails (e_opts e) \<or> last ts + BreakerReset (e_opts e) < now"
  proof (cases "int (length ts) < BreakerFails (e_opts e)")
    case True
    with fail_run_counts [OF breakerRecord_success [of e url t0], of ts] show ?thesis by (simp add: assms(4) breakerAllow_def)
  next
    case False
    with assms(1,2) obtain us t where ts: "ts = us @ [t]" "int (length us) + 1 = BreakerFails (e_opts e)"
      by (cases ts rule: rev_cases) auto
    with fail_run_trips [OF breakerRecord_success [of e url t0], of us t] False show ?thesis by (simp add: assms(4) breakerAllow_def)
  qed
  show "breakerAllow e' u now = breakerAllow e u now"
    using fail_run_other [OF assms(3), of ?e ts] breaker_other [OF assms(3), of e True t0] by (simp add: assms(4) breakerAllow_def)
qed

theorem breaker_trips_exactly_witness:
  "\<not> breakerAllow (fail_run (breakerRecord (alerts_New sample_alert_opts) ''u'' True 0) ''u'' [1, 2]) ''u'' 7 \<and>
   breakerAllow (fail_run (breakerRecord (alerts_New sample_alert_opts) ''u'' True 0) ''u'' [1, 2]) ''u'' 8"
proof -
  have o: "e_opts (alerts_New sample_alert_opts) = sample_alert_opts" by (simp add: sample_alert_defs)
  show ?thesis
    using breaker_trips_exactly [of "alerts_New sample_alert_opts" "[1, 2]" "''v''" "''u''" _ 0 7, OF _ _ _ refl]
      breaker_trips_exactly [of "alerts_New sample_alert_opts" "[1, 2]" "''v''" "''u''" _ 0 8, OF _ _ _ refl]
    unfolding o by (simp add: sample_alert_opts_def)
qed

text \<open>C27. Every delivery has one fate: unless cancelled, a worker's delivery ends within \<open>MaxAttempts\<close> turns, and
  either the endpoint accepted a request and the delivery is counted once, or it is the newest dead letter and not counted as
  delivered; if every request is refused, it is a dead letter.\<close>

theorem deliver_fate:
  assumes "deliver e n env now = (e', fate)" and "\<And>i. \<not> cancelled (env i)"
  shows "(fate = WasDelivered \<and> Delivered e' = Delivered e + 1 \<and> DeadLetters e' = DeadLetters e \<and>
      (\<exists>i. int i < MaxAttempts (e_opts e) \<and> answer (env i) = None)) \<or>
    (fate = WasDead \<and> Delivered e' = Delivered e \<and>
      (\<exists>ds err. DeadLetters e' = ds @ [\<lparr>d_Rule = n_rule n, d_Activity = n_act n, d_Error = err, d_At = now\<rparr>]))"
proof -
  have *: "(\<exists>v \<in> set (map env [0..<nat (MaxAttempts (e_opts e))]). answer v = None \<and> \<not> cancelled v) \<Longrightarrow>
      \<exists>i. int i < MaxAttempts (e_opts e) \<and> answer (env i) = None"
    by (auto simp: zless_nat_eq_int_zless)
  from deliver_loop_outcome [OF assms(1) [unfolded deliver_def]] assms(2) * show ?thesis
    by (cases fate) (auto simp: DeadLetters_def)
qed

theorem deliver_fate_witness:
  "\<exists>e'. deliver (alerts_New sample_alert_opts) \<lparr>n_rule = sample_rule, n_act = sample_act\<rparr>
     (\<lambda>i. \<lparr>cancelled = False, t_allow = 0, answer = (if i = 0 then Some ''x'' else None), t_record = 0\<rparr>) 9 = (e', WasDelivered) \<and>
     Delivered e' = 1"
proof -
  let ?env = "\<lambda>i. \<lparr>cancelled = False, t_allow = 0, answer = (if i = (0 :: nat) then Some ''x'' else None), t_record = 0\<rparr>"
  have "snd (deliver (alerts_New sample_alert_opts) \<lparr>n_rule = sample_rule, n_act = sample_act\<rparr> ?env 9) = WasDelivered"
    by (simp add: deliver_def upt_rec alerts_New_def alert_defaults_def sample_alert_opts_def)
      (simp add: attempt_def Let_def breakerAllow_def breakerRecord_def)
  then obtain e' where e': "deliver (alerts_New sample_alert_opts) \<lparr>n_rule = sample_rule, n_act = sample_act\<rparr> ?env 9 = (e', WasDelivered)"
    by (metis prod.collapse)
  from deliver_fate [OF this] have "Delivered e' = 1" by (auto simp: alerts_New_def)
  with e' show ?thesis by blast
qed

text \<open>A drop silences its alert: when the queue is full the notification is dropped but the cooldown has already been
  charged, so an evaluation of the same rule and issue within the window does nothing, even with room in the queue.\<close>

theorem drop_suppresses_retry:
  assumes "rule_matches r act" and "snd (cooldownOK e (r_ID r) (a_IssueID act) now)" and "QueueDepth (e_opts e) \<le> int (length (queue e))"
    and "0 < Cooldown (e_opts e)" and "Cooldown (e_opts e) < 2 ^ 63" and "now' < now + Cooldown (e_opts e)"
    and "e1 = eval_rule e act r now" and "r_ID r' = r_ID r" and "a_IssueID act' = a_IssueID act"
  shows "Dropped e1 = Dropped e + 1 \<and> queue e1 = queue e \<and> eval_rule (e1\<lparr>queue := q\<rparr>) act' r' now' = e1\<lparr>queue := q\<rparr>"
proof -
  let ?e = "fst (cooldownOK e (r_ID r) (a_IssueID act) now)"
  have e1: "e1 = ?e\<lparr>Dropped := Dropped ?e + 1\<rparr>"
    using assms(3,7) eval_rule_fire [OF assms(1,2)] by (simp add: enqueue_def)
  have "map_of (cooldown e1) (cooldown_key (r_ID r) (a_IssueID act)) = Some now"
    using cooldownOK_pass(1) [OF assms(2,4,5)] by (simp add: e1)
  moreover have "e_opts e1 = e_opts e" by (simp add: e1)
  ultimately have "\<not> snd (cooldownOK (e1\<lparr>queue := q\<rparr>) (r_ID r') (a_IssueID act') now')"
    using assms(6,8,9) time_sub_less [OF assms(4,5), of now' now] by (simp add: cooldownOK_def Let_def)
  with eval_rule_skip [of r' act' "e1\<lparr>queue := q\<rparr>" now'] show ?thesis by (simp add: e1)
qed

theorem drop_suppresses_retry_witness:
  "eval_rule (sample_e2\<lparr>queue := []\<rparr>) sample_act sample_rule 15 = sample_e2\<lparr>queue := []\<rparr> \<and> Dropped sample_e2 = 1"
proof -
  have o: "e_opts sample_e1 = sample_alert_opts" "Dropped sample_e1 = 0" "length (queue sample_e1) = 1"
    by (simp_all add: sample_e1_eq(2) sample_alert_defs)
  have m: "rule_matches sample_rule sample_act" "r_ID sample_rule = 1" "a_IssueID sample_act = 5" by (simp_all add: sample_alert_defs)
  from drop_suppresses_retry [OF m(1), of sample_e1 10 15 sample_e2 sample_rule sample_act "[]"] m o sample_e2_eq(1) sample_e2_def show ?thesis
    by (simp add: sample_alert_opts_def)
qed

end
