(* ===== verification/Hll.thy ===== *)
theory Hll
  imports Prelude
begin

text \<open>
  The unique-count sketch of \<open>internal/eventstore/hll.go\<close> and the base64 codec that
  \<open>MarshalText\<close> and \<open>UnmarshalHLL\<close> take from \<open>encoding/base64\<close>. The results: a
  sketch depends only on the set of values added, merging is adding the other sketch's values, and
  a stored sketch reads back as itself. \<open>Estimate\<close> is floating-point arithmetic and is not modelled.
\<close>

section \<open>Hashing\<close>

definition fnv1a64 :: "byte list \<Rightarrow> u64" where
  "fnv1a64 bs = foldl (\<lambda>h b. (h XOR ucast b) * 0x100000001b3) 0xcbf29ce484222325 bs"

definition fmix64 :: "u64 \<Rightarrow> u64" where
  "fmix64 x0 =
     (let x1 = x0 XOR drop_bit 33 x0;
          x2 = x1 * 0xff51afd7ed558ccd;
          x3 = x2 XOR drop_bit 33 x2;
          x4 = x3 * 0xc4ceb9fe1a85ec53
      in x4 XOR drop_bit 33 x4)"

text \<open>\<open>bits.LeadingZeros64\<close>.\<close>

definition leadingZeros64 :: "u64 \<Rightarrow> nat" where
  "leadingZeros64 x = length (takeWhile (\<lambda>i. \<not> bit x i) (rev [0..<64]))"

section \<open>The sketch\<close>

type_synonym HLL = "byte list"

definition hllP :: nat where "hllP = 12"

definition hllM :: nat where "hllM = 4096"

definition NewHLL :: HLL where
  "NewHLL = replicate hllM 0"

definition hll_hash :: "string \<Rightarrow> u64" where
  "hll_hash s = fmix64 (fnv1a64 (str_bytes s))"

definition hll_idx :: "u64 \<Rightarrow> nat" where
  "hll_idx x = unat (drop_bit (64 - hllP) x)"

definition hll_rank :: "u64 \<Rightarrow> byte" where
  "hll_rank x = of_nat (leadingZeros64 (push_bit hllP x OR 1)) + 1"

definition hll_Add :: "HLL \<Rightarrow> string \<Rightarrow> HLL" where
  "hll_Add h s =
     (let x = hll_hash s; idx = hll_idx x; rank = hll_rank x
      in if h ! idx < rank then h[idx := rank] else h)"

text \<open>\<open>None\<close> is the out-of-range panic; it cannot happen between sketches of one size.\<close>

fun hll_Merge :: "HLL \<Rightarrow> HLL \<Rightarrow> HLL option" where
  "hll_Merge h [] = Some h"
| "hll_Merge [] (v # q) = None"
| "hll_Merge (r # h) (v # q) = map_option (\<lambda>m. (if r < v then v else r) # m) (hll_Merge h q)"

definition sketch :: "string list \<Rightarrow> HLL" where
  "sketch xs = foldl hll_Add NewHLL xs"

subsection \<open>Registers\<close>

lemma hll_idx_less: "hll_idx x < hllM"
proof -
  have "unat x < 2 ^ 12 * 2 ^ 52" using unsigned_less [of x, where 'a = nat] by simp
  then have "unat x div 2 ^ 52 < 2 ^ 12" by (simp add: less_mult_imp_div_less)
  moreover have "unat (drop_bit 52 x) = unat x div 2 ^ 52" unfolding unat_drop_bit_eq by (simp only: drop_bit_eq_div)
  ultimately show ?thesis by (simp add: hll_idx_def hllP_def hllM_def)
qed

lemma length_hll_Add [simp]: "length (hll_Add h s) = length h"
  by (simp add: hll_Add_def Let_def)

lemma sketch_snoc: "sketch (xs @ [x]) = hll_Add (sketch xs) x"
  by (simp add: sketch_def)

lemma length_sketch [simp]: "length (sketch xs) = hllM"
  by (induction xs rule: rev_induct) (simp_all add: sketch_snoc, simp add: sketch_def NewHLL_def)

lemma hll_Add_nth:
  "length h = hllM \<Longrightarrow> i < hllM \<Longrightarrow>
   hll_Add h s ! i = (if hll_idx (hll_hash s) = i then max (h ! i) (hll_rank (hll_hash s)) else h ! i)"
  using hll_idx_less [of "hll_hash s"] by (auto simp: hll_Add_def Let_def nth_list_update max_def)

text \<open>The reference: register \<open>i\<close> is the largest rank among the values that hash to it.\<close>

definition max_rank :: "string set \<Rightarrow> nat \<Rightarrow> byte" where
  "max_rank A i = Max (insert 0 ((\<lambda>s. hll_rank (hll_hash s)) ` {s \<in> A. hll_idx (hll_hash s) = i}))"

lemma max_rank_insert:
  "finite A \<Longrightarrow> max_rank (insert s A) i =
     (if hll_idx (hll_hash s) = i then max (max_rank A i) (hll_rank (hll_hash s)) else max_rank A i)"
proof -
  assume A: "finite A"
  have "{x \<in> insert s A. hll_idx (hll_hash x) = i} =
      (if hll_idx (hll_hash s) = i then insert s {x \<in> A. hll_idx (hll_hash x) = i} else {x \<in> A. hll_idx (hll_hash x) = i})"
    by auto
  then show ?thesis using A by (simp add: max_rank_def insert_commute [of 0] max.commute)
qed

lemma sketch_nth: "i < hllM \<Longrightarrow> sketch xs ! i = max_rank (set xs) i"
proof (induction xs rule: rev_induct)
  case Nil
  then show ?case by (simp add: sketch_def NewHLL_def max_rank_def)
next
  case (snoc x xs)
  then show ?case by (simp add: sketch_snoc hll_Add_nth max_rank_insert)
qed

lemma max_rank_union:
  assumes "finite A" "finite B"
  shows "max_rank (A \<union> B) i = max (max_rank A i) (max_rank B i)"
proof -
  have "{s \<in> A \<union> B. hll_idx (hll_hash s) = i} = {s \<in> A. hll_idx (hll_hash s) = i} \<union> {s \<in> B. hll_idx (hll_hash s) = i}" by auto
  then have "insert 0 ((\<lambda>s. hll_rank (hll_hash s)) ` {s \<in> A \<union> B. hll_idx (hll_hash s) = i}) =
      insert 0 ((\<lambda>s. hll_rank (hll_hash s)) ` {s \<in> A. hll_idx (hll_hash s) = i}) \<union>
      insert 0 ((\<lambda>s. hll_rank (hll_hash s)) ` {s \<in> B. hll_idx (hll_hash s) = i})" by auto
  then show ?thesis unfolding max_rank_def using assms by (simp del: Un_insert_left Un_insert_right add: Max_Un)
qed

lemma hll_Merge_same: "length h = length q \<Longrightarrow> hll_Merge h q = Some (map2 max h q)"
  by (induction h q rule: hll_Merge.induct) (auto simp: max_def)

lemma sketch_cong: "set xs = set ys \<Longrightarrow> sketch xs = sketch ys"
  by (rule nth_equalityI) (simp_all add: sketch_nth)

lemma sketch_merge: "hll_Merge (sketch xs) (sketch ys) = Some (sketch (xs @ ys))"
proof -
  have "map2 max (sketch xs) (sketch ys) = sketch (xs @ ys)"
    by (rule nth_equalityI) (simp_all add: sketch_nth max_rank_union)
  then show ?thesis by (simp add: hll_Merge_same)
qed

section \<open>Base64\<close>

definition b64_alphabet :: string where
  "b64_alphabet = ''ABCDEFGHIJKLMNOPQRSTUVWXYZabcdefghijklmnopqrstuvwxyz0123456789+/''"

definition b64_char :: "nat \<Rightarrow> char" where
  "b64_char n = b64_alphabet ! (n mod 64)"

definition b64_val :: "char \<Rightarrow> nat option" where
  "b64_val c = map_of (zip b64_alphabet [0..<64]) c"

definition b64_quad :: "nat \<Rightarrow> string" where
  "b64_quad v = [b64_char (v div 262144), b64_char (v div 4096), b64_char (v div 64), b64_char v]"

text \<open>\<open>base64.StdEncoding.EncodeToString\<close>.\<close>

fun b64_encode :: "byte list \<Rightarrow> string" where
  "b64_encode [] = []"
| "b64_encode [a] = take 2 (b64_quad (unat a * 65536)) @ ''==''"
| "b64_encode [a, b] = take 3 (b64_quad (unat a * 65536 + unat b * 256)) @ ''=''"
| "b64_encode (a # b # c # r) = b64_quad (unat a * 65536 + unat b * 256 + unat c) @ b64_encode r"

text \<open>\<open>DecodeString\<close>: line breaks are skipped, padding only at the end, unused bits ignored.\<close>

definition b64_bytes :: "nat \<Rightarrow> byte list" where
  "b64_bytes v = [of_nat (v div 65536), of_nat (v div 256), of_nat v]"

fun b64_groups :: "string \<Rightarrow> byte list option" where
  "b64_groups [] = Some []"
| "b64_groups (w # x # y # z # r) =
     (case (b64_val w, b64_val x) of
        (Some p, Some q) \<Rightarrow>
          (case (b64_val y, b64_val z) of
             (Some s, Some t) \<Rightarrow>
               map_option (\<lambda>bs. b64_bytes (p * 262144 + q * 4096 + s * 64 + t) @ bs) (b64_groups r)
           | (Some s, None) \<Rightarrow>
               if z = CHR ''='' \<and> r = [] then Some (take 2 (b64_bytes (p * 262144 + q * 4096 + s * 64))) else None
           | (None, _) \<Rightarrow>
               if y = CHR ''='' \<and> z = CHR ''='' \<and> r = [] then Some (take 1 (b64_bytes (p * 262144 + q * 4096))) else None)
      | _ \<Rightarrow> None)"
| "b64_groups _ = None"

definition b64_decode :: "string \<Rightarrow> byte list option" where
  "b64_decode s = b64_groups (filter (\<lambda>c. c \<noteq> CHR 0x0A \<and> c \<noteq> CHR 0x0D) s)"

definition hll_MarshalText :: "HLL \<Rightarrow> string" where
  "hll_MarshalText h = b64_encode h"

datatype hll_err = BadBase64 | BadHllSize

definition UnmarshalHLL :: "string \<Rightarrow> hll_err + HLL" where
  "UnmarshalHLL s =
     (case b64_decode s of
        None \<Rightarrow> Inl BadBase64
      | Some b \<Rightarrow> if length b \<noteq> hllM then Inl BadHllSize else Inr b)"

subsection \<open>Round trip\<close>

lemma b64_alphabet_props: "length b64_alphabet = 64" "distinct b64_alphabet" "set b64_alphabet \<inter> {CHR 0x0A, CHR 0x0D, CHR ''=''} = {}"
  by (code_simp)+

lemma b64_val_char [simp]: "b64_val (b64_char n) = Some (n mod 64)"
  using map_of_zip_nth [of b64_alphabet "[0..<64]" "n mod 64"] by (simp add: b64_val_def b64_char_def b64_alphabet_props)

lemma b64_char_plain: "b64_char n \<noteq> CHR 0x0A \<and> b64_char n \<noteq> CHR 0x0D"
proof -
  have "b64_char n \<in> set b64_alphabet" by (simp add: b64_char_def b64_alphabet_props(1))
  then show ?thesis using b64_alphabet_props(3) by auto
qed

lemma b64_val_pad [simp]: "b64_val (CHR ''='') = None"
  by (code_simp)

lemma b64_digits: "v < 16777216 \<Longrightarrow> (v div 262144) mod 64 * 262144 + (v div 4096) mod 64 * 4096 + (v div 64) mod 64 * 64 + v mod 64 = (v :: nat)"
proof -
  assume "v < 16777216"
  then have "(v div 262144) mod 64 = v div 262144" by simp
  moreover have "v div 262144 = v div 4096 div 64" "v div 4096 = v div 64 div 64" by (simp_all flip: div_mult2_eq)
  moreover have "v div 64 * 64 + v mod 64 = v" "v div 64 div 64 * 64 + (v div 64) mod 64 = v div 64"
    "v div 4096 div 64 * 64 + (v div 4096) mod 64 = v div 4096" by simp_all
  ultimately show ?thesis by linarith
qed

lemma b64_bytes_join:
  fixes a b c :: byte
  shows "b64_bytes (unat a * 65536 + unat b * 256 + unat c) = [a, b, c]"
proof -
  have "(256 :: byte) = 0" "(65536 :: byte) = 0" by code_simp+
  then have z: "x * 256 = 0" "x * 65536 = 0" for x :: byte by (metis mult_zero_right)+
  have lt: "unat b < 256" "unat c < 256" using unsigned_less [of b, where 'a = nat] unsigned_less [of c, where 'a = nat] by simp_all
  have "(unat a * 65536 + unat b * 256 + unat c) div 65536 = unat a" using lt by simp
  moreover have "(unat a * 65536 + unat b * 256 + unat c) div 256 = unat a * 256 + unat b" using lt by simp
  moreover have "(of_nat (unat a * 256 + unat b) :: byte) = b" using z(1) [of a] by simp
  moreover have "(of_nat (unat a * 65536 + unat b * 256 + unat c) :: byte) = c" using z(1) [of b] z(2) [of a] by simp
  ultimately show ?thesis by (simp add: b64_bytes_def)
qed

lemma b64_sum_less:
  fixes a b c :: byte
  shows "unat a * 65536 + unat b * 256 + unat c < 16777216"
  using unsigned_less [of a, where 'a = nat] unsigned_less [of b, where 'a = nat] unsigned_less [of c, where 'a = nat] by simp

text \<open>A padded group ends in zero digits.\<close>

lemma b64_zero_digits:
  fixes a b :: nat
  shows "(a * 65536) mod 64 = 0" "(a * 65536) div 64 mod 64 = 0" "(a * 65536 + b * 256) mod 64 = 0"
proof -
  have "a * 65536 = a * 1024 * 64" "a * 1024 = a * 16 * 64" "a * 65536 + b * 256 = (a * 1024 + b * 4) * 64" by simp_all
  then show "(a * 65536) mod 64 = 0" "(a * 65536) div 64 mod 64 = 0" "(a * 65536 + b * 256) mod 64 = 0"
    by (metis mod_mult_self2_is_0, metis mod_mult_self2_is_0 nonzero_mult_div_cancel_right zero_neq_numeral, metis mod_mult_self2_is_0)
qed

lemma b64_groups_quad:
  "b64_groups (take 2 (b64_quad v) @ ''=='') = Some (take 1 (b64_bytes ((v div 262144) mod 64 * 262144 + (v div 4096) mod 64 * 4096)))"
  "b64_groups (take 3 (b64_quad v) @ ''='') =
     Some (take 2 (b64_bytes ((v div 262144) mod 64 * 262144 + (v div 4096) mod 64 * 4096 + (v div 64) mod 64 * 64)))"
  "b64_groups (b64_quad v @ s) =
     map_option (\<lambda>bs. b64_bytes ((v div 262144) mod 64 * 262144 + (v div 4096) mod 64 * 4096 + (v div 64) mod 64 * 64 + v mod 64) @ bs)
       (b64_groups s)"
  by (simp_all add: b64_quad_def)

lemma b64_groups_encode: "b64_groups (b64_encode bs) = Some bs"
proof (induction bs rule: b64_encode.induct)
  case 1
  then show ?case by simp
next
  case (2 a)
  let ?v = "unat a * 65536"
  have "(?v div 262144) mod 64 * 262144 + (?v div 4096) mod 64 * 4096 = ?v"
    using b64_digits [of ?v] b64_sum_less [of a 0 0] b64_zero_digits(1,2) [of "unat a"] by simp
  from this show ?case unfolding b64_encode.simps b64_groups_quad by (rule ssubst) (use b64_bytes_join [of a 0 0] in simp)
next
  case (3 a b)
  let ?v = "unat a * 65536 + unat b * 256"
  have "(?v div 262144) mod 64 * 262144 + (?v div 4096) mod 64 * 4096 + (?v div 64) mod 64 * 64 = ?v"
    using b64_digits [of ?v] b64_sum_less [of a b 0] b64_zero_digits(3) [of "unat a" "unat b"] by simp
  from this show ?case unfolding b64_encode.simps b64_groups_quad by (rule ssubst) (use b64_bytes_join [of a b 0] in simp)
next
  case (4 a b c r)
  let ?v = "unat a * 65536 + unat b * 256 + unat c"
  show ?case
    unfolding b64_encode.simps b64_groups_quad b64_digits [OF b64_sum_less] b64_bytes_join 4 by simp
qed

lemma b64_encode_plain: "c \<in> set (b64_encode bs) \<Longrightarrow> c \<noteq> CHR 0x0A \<and> c \<noteq> CHR 0x0D"
  by (induction bs rule: b64_encode.induct) (auto simp: b64_quad_def b64_char_plain)

lemma b64_roundtrip: "b64_decode (b64_encode bs) = Some bs"
proof -
  have "filter (\<lambda>c. c \<noteq> CHR 0x0A \<and> c \<noteq> CHR 0x0D) (b64_encode bs) = b64_encode bs"
    using b64_encode_plain by (auto simp: filter_id_conv)
  then show ?thesis by (simp add: b64_decode_def b64_groups_encode)
qed

section \<open>Properties\<close>

text \<open>Sketches are mergeable summaries: adding values in any order and any number of times gives one sketch per set of
  values; merging two sketches gives the sketch of both sets of values (so sketches kept per segment answer for any
  union of segments, and adding the rows again changes nothing); and a stored sketch reads back as itself.\<close>

theorem sketch_mergeable:
  "(set xs = set ys \<longrightarrow> sketch xs = sketch ys) \<and> hll_Merge (sketch xs) (sketch ys) = Some (sketch (xs @ ys)) \<and>
   UnmarshalHLL (hll_MarshalText (sketch xs)) = Inr (sketch xs)"
  by (intro conjI impI sketch_merge) (erule sketch_cong, simp add: UnmarshalHLL_def hll_MarshalText_def b64_roundtrip)

theorem sketch_mergeable_witness: "sketch [''a'', ''b'', ''a''] = sketch [''b'', ''a'']"
  using sketch_mergeable [of "[''a'', ''b'', ''a'']" "[''b'', ''a'']"] by auto

end
