(* ===== verification/Eventstore.thy ===== *)
theory Eventstore
  imports Hll "HOL-Library.List_Lexorder" "HOL-Library.Char_ord" "HOL-Library.Product_Lexorder"
begin

text \<open>
  The columnar event store: \<open>internal/eventstore/store.go\<close>, \<open>query.go\<close> and
  \<open>aggregate.go\<close>. Rows live in a buffer until \<open>Flush\<close> writes one Parquet segment per
  project and hour. The Parquet library, the order \<open>sort.Slice\<close> leaves among equals and
  the order of a map iteration are parameters (the record \<open>es_env\<close>) with their documented
  behaviour as the hypothesis \<open>env_ok\<close>. Segment paths keep their components apart; their
  rendering as text is not modelled. The results: a scan returns exactly the matching rows
  in spite of all pruning, a flush moves rows without losing or duplicating any, an aggregate is the
  aggregate of the matching rows.
\<close>

section \<open>Data\<close>

definition SchemaVersion :: int where "SchemaVersion = 1"

definition hourNanos :: int where "hourNanos = 3600000000000"

record Event =
  ev_EventID :: string
  ev_ProjectID :: int
  ev_Timestamp :: int
  ev_Level :: string
  ev_Fingerprint :: string
  ev_Release :: string
  ev_Environment :: string
  ev_UserID :: string
  ev_Message :: string
  ev_Payload :: "byte list"

record es_opts =
  FlushRows :: int
  MaxBufferRows :: int
  FlushAge :: int
  QueryLimitDefault :: int

definition es_defaults :: "es_opts \<Rightarrow> es_opts" where
  "es_defaults o1 =
     (let o2 = o1\<lparr>FlushRows := (if FlushRows o1 \<le> 0 then 50000 else FlushRows o1)\<rparr>;
          o3 = o2\<lparr>MaxBufferRows := (if MaxBufferRows o2 \<le> 0 then 2 * FlushRows o2 else MaxBufferRows o2)\<rparr>;
          o4 = o3\<lparr>FlushAge := (if FlushAge o3 \<le> 0 then 10000000000 else FlushAge o3)\<rparr>
      in o4\<lparr>QueryLimitDefault := (if QueryLimitDefault o4 \<le> 0 then 10000 else QueryLimitDefault o4)\<rparr>)"

text \<open>
  A path under the store's directory: \<open>SegPath p h t k\<close> is
  \<open>p<p>/<hour h>/<t in hex>-<k>.parquet\<close>.
\<close>

datatype seg_path = SegPath int int int nat | OtherFile string

record es_seg =
  sg_path :: seg_path
  sg_project :: int
  sg_hour :: int
  minTS :: int
  maxTS :: int
  sg_rows :: int

text \<open>A Parquet file: the footer's key-value metadata and the rows by row group.\<close>

record pq_file =
  pq_meta :: "(string \<times> string) list"
  pq_groups :: "Event list list"

type_synonym es_disk = "(seg_path \<times> pq_file) list"

record Store =
  s_opts :: es_opts
  buf :: "Event list"
  bufSince :: int
  s_segs :: "es_seg list"
  known :: "seg_path set"
  flushCount :: nat
  statSegsTotal :: nat
  statSegsOpen :: nat

datatype es_err = ErrBufferFull | ErrIO | ErrTenant | ErrVersion | ErrBounds | ErrOpen seg_path | ErrCallback string | ErrPanic

text \<open>
  The environment: sorting of rows by time and of segments, the iteration order over partitions, and
  what the Parquet library does: the row groups of a written file, the per-page minimum and maximum
  of the timestamp column, the batches a reader returns, the answer of a Bloom filter (\<open>None\<close>
  when there is no filter or it cannot be read), and whether a file that is there can be opened, sized and
  recognised as a Parquet file. A reader that meets a read error inside a row group returns the batches before
  it and stops, as it does at the end of the group: the code does not tell the two apart, so such an
  environment is one whose batches end early.
\<close>

record es_env =
  sort_rows :: "Event list \<Rightarrow> Event list"
  sort_segs :: "es_seg list \<Rightarrow> es_seg list"
  iter_parts :: "(int \<times> int) list \<Rightarrow> (int \<times> int) list"
  row_groups :: "Event list \<Rightarrow> Event list list"
  ts_pages :: "Event list \<Rightarrow> (int \<times> int) list option"
  read_batches :: "Event list \<Rightarrow> Event list list"
  bloom_check :: "string \<Rightarrow> Event list \<Rightarrow> string \<Rightarrow> bool option"
  seg_opens :: "seg_path \<Rightarrow> bool"

section \<open>Writing\<close>

definition append_events :: "Store \<Rightarrow> Event list \<Rightarrow> int \<Rightarrow> Store \<times> es_err option" where
  "append_events st events now =
     (if MaxBufferRows (s_opts st) < int (length (buf st) + length events) then (st, Some ErrBufferFull)
      else
        let st1 = (if buf st = [] then st\<lparr>bufSince := now\<rparr> else st)
        in (st1\<lparr>buf := buf st @ events\<rparr>, None))"

definition NeedsFlush :: "Store \<Rightarrow> int \<Rightarrow> bool" where
  "NeedsFlush st now =
     (if FlushRows (s_opts st) \<le> int (length (buf st)) then True
      else buf st \<noteq> [] \<and> FlushAge (s_opts st) \<le> time_sub now (bufSince st))"

definition part_key :: "Event \<Rightarrow> int \<times> int" where
  "part_key e = (ev_ProjectID e, ev_Timestamp e - go_rem (ev_Timestamp e) hourNanos)"

definition group_rows :: "Event list \<Rightarrow> ((int \<times> int) \<times> Event list) list" where
  "group_rows rows =
     foldl (\<lambda>m e. map_put (part_key e) ((case map_of m (part_key e) of None \<Rightarrow> [] | Some l \<Rightarrow> l) @ [e]) m) [] rows"

definition user_ids :: "Event list \<Rightarrow> string list" where
  "user_ids evs = filter (\<lambda>u. u \<noteq> []) (map ev_UserID evs)"

definition segment_file :: "es_env \<Rightarrow> Event list \<Rightarrow> pq_file" where
  "segment_file E evs =
     \<lparr>pq_meta = [(''leser_schema_version'', int_str SchemaVersion), (''leser_min_ts'', int_str (ev_Timestamp (hd evs))),
        (''leser_max_ts'', int_str (ev_Timestamp (last evs))), (''leser_hll_users'', hll_MarshalText (sketch (user_ids evs)))],
      pq_groups = row_groups E evs\<rparr>"

text \<open>
  \<open>writeSegment\<close>: the system calls in order (directory, create, write, footer, sync, close, rename);
  an error before the rename leaves no segment file.
\<close>

fun calls_ok :: "nat \<Rightarrow> io \<Rightarrow> io \<times> bool" where
  "calls_ok 0 io = (io, True)"
| "calls_ok (Suc n) io = (case io_next io of (Done, io') \<Rightarrow> calls_ok n io' | (Fail _, io') \<Rightarrow> (io', False))"

definition writeSegment ::
  "es_env \<Rightarrow> Store \<Rightarrow> es_disk \<Rightarrow> io \<Rightarrow> int \<Rightarrow> int \<Rightarrow> Event list \<Rightarrow> Store \<times> es_disk \<times> io \<times> (es_err + es_seg)" where
  "writeSegment E st disk io proj hr evs0 =
     (let evs = sort_rows E evs0; mn = ev_Timestamp (hd evs); mx = ev_Timestamp (last evs) in
      case io_next io of
        (Fail _, io1) \<Rightarrow> (st, disk, io1, Inl ErrIO)
      | (Done, io1) \<Rightarrow>
          let st1 = st\<lparr>flushCount := flushCount st + 1\<rparr>; final = SegPath proj hr mn (flushCount st1) in
          (case calls_ok 6 io1 of
             (io2, False) \<Rightarrow> (st1, disk, io2, Inl ErrIO)
           | (io2, True) \<Rightarrow>
               (st1, map_put final (segment_file E evs) disk, io2,
                Inr \<lparr>sg_path = final, sg_project = proj, sg_hour = hr, minTS = mn, maxTS = mx, sg_rows = int (length evs)\<rparr>)))"

fun flush_parts ::
  "es_env \<Rightarrow> Store \<Rightarrow> es_disk \<Rightarrow> io \<Rightarrow> ((int \<times> int) \<Rightarrow> Event list) \<Rightarrow> (int \<times> int) list \<Rightarrow> es_seg list \<Rightarrow>
   Store \<times> es_disk \<times> io \<times> (es_err + es_seg list)" where
  "flush_parts E st disk io parts [] acc = (st, disk, io, Inr acc)"
| "flush_parts E st disk io parts (k # ks) acc =
     (case writeSegment E st disk io (fst k) (snd k) (parts k) of
        (st', disk', io', Inl err) \<Rightarrow> (st', disk', io', Inl err)
      | (st', disk', io', Inr sg) \<Rightarrow> flush_parts E st' disk' io' parts ks (acc @ [sg]))"

text \<open>\<open>Flush\<close>, with no append in between.\<close>

definition es_Flush :: "es_env \<Rightarrow> Store \<Rightarrow> es_disk \<Rightarrow> io \<Rightarrow> Store \<times> es_disk \<times> io \<times> es_err option" where
  "es_Flush E st disk io =
     (let rows = buf st; st1 = st\<lparr>buf := []\<rparr> in
      if rows = [] then (st1, disk, io, None)
      else
        let m = group_rows rows; parts = (\<lambda>k. case map_of m k of None \<Rightarrow> [] | Some l \<Rightarrow> l) in
        (case flush_parts E st1 disk io parts (iter_parts E (map fst m)) [] of
           (st2, disk', io', Inl err) \<Rightarrow> (st2\<lparr>buf := rows @ buf st2\<rparr>, disk', io', Some err)
         | (st2, disk', io', Inr newSegs) \<Rightarrow>
             (st2\<lparr>known := known st2 \<union> sg_path ` set newSegs, s_segs := sort_segs E (s_segs st2 @ newSegs)\<rparr>, disk', io', None)))"

section \<open>Opening\<close>

definition parsePartition :: "seg_path \<Rightarrow> (int \<times> int) option" where
  "parsePartition p = (case p of SegPath proj hr _ _ \<Rightarrow> Some (proj, hr) | OtherFile _ \<Rightarrow> None)"

definition readSegmentMeta :: "seg_path \<Rightarrow> pq_file \<Rightarrow> int \<Rightarrow> int \<Rightarrow> es_err + es_seg" where
  "readSegmentMeta path f proj hr =
     (if map_of (pq_meta f) ''leser_schema_version'' \<noteq> Some (int_str SchemaVersion) then Inl ErrVersion
      else case (map_of (pq_meta f) ''leser_min_ts'', map_of (pq_meta f) ''leser_max_ts'') of
        (Some minS, Some maxS) \<Rightarrow>
          (case (parseInt64 minS, parseInt64 maxS) of
             (Some mn, Some mx) \<Rightarrow>
               Inr \<lparr>sg_path = path, sg_project = proj, sg_hour = hr, minTS = mn, maxTS = mx,
                    sg_rows = int (length (concat (pq_groups f)))\<rparr>
           | _ \<Rightarrow> Inl ErrBounds)
      | _ \<Rightarrow> Inl ErrBounds)"

text \<open>The walk over the directory, skipping what \<open>skip\<close> says is known.\<close>

fun walk_segments :: "(seg_path \<Rightarrow> bool) \<Rightarrow> es_disk \<Rightarrow> es_err + es_seg list" where
  "walk_segments skip [] = Inr []"
| "walk_segments skip ((path, f) # fs) =
     (if skip path then walk_segments skip fs
      else case parsePartition path of
        None \<Rightarrow> walk_segments skip fs
      | Some (proj, hr) \<Rightarrow>
          (case readSegmentMeta path f proj hr of
             Inl err \<Rightarrow> Inl err
           | Inr m \<Rightarrow> (case walk_segments skip fs of Inl err \<Rightarrow> Inl err | Inr ms \<Rightarrow> Inr (m # ms))))"

definition es_Open :: "es_opts \<Rightarrow> es_disk \<Rightarrow> es_err + Store" where
  "es_Open o1 disk =
     (case walk_segments (\<lambda>_. False) disk of
        Inl err \<Rightarrow> Inl err
      | Inr ms \<Rightarrow> Inr \<lparr>s_opts = es_defaults o1, buf = [], bufSince = 0, s_segs = ms, known = sg_path ` set ms, flushCount = 0,
                    statSegsTotal = 0, statSegsOpen = 0\<rparr>)"

definition es_Refresh :: "es_env \<Rightarrow> Store \<Rightarrow> es_disk \<Rightarrow> Store \<times> es_err option" where
  "es_Refresh E st disk =
     (case walk_segments (\<lambda>p. p \<in> known st) disk of
        Inl err \<Rightarrow> (st, Some err)
      | Inr ms \<Rightarrow>
          if ms = [] then (st, None)
          else (st\<lparr>known := known st \<union> sg_path ` set ms, s_segs := sort_segs E (s_segs st @ ms)\<rparr>, None))"

section \<open>Queries\<close>

record Query =
  q_ProjectID :: int
  q_TimeMin :: int
  q_TimeMax :: int
  q_Level :: string
  q_Fingerprint :: string
  q_Release :: string
  q_Environment :: string
  q_UserID :: string
  q_Limit :: int

definition q_match :: "Query \<Rightarrow> Event \<Rightarrow> bool" where
  "q_match q e =
     (if ev_ProjectID e \<noteq> q_ProjectID q then False
      else if q_TimeMin q \<noteq> 0 \<and> ev_Timestamp e < q_TimeMin q then False
      else if q_TimeMax q \<noteq> 0 \<and> q_TimeMax q < ev_Timestamp e then False
      else if q_Level q \<noteq> [] \<and> ev_Level e \<noteq> q_Level q then False
      else if q_Fingerprint q \<noteq> [] \<and> ev_Fingerprint e \<noteq> q_Fingerprint q then False
      else if q_Release q \<noteq> [] \<and> ev_Release e \<noteq> q_Release q then False
      else if q_Environment q \<noteq> [] \<and> ev_Environment e \<noteq> q_Environment q then False
      else if q_UserID q \<noteq> [] \<and> ev_UserID e \<noteq> q_UserID q then False
      else True)"

definition segmentMayMatch :: "Query \<Rightarrow> es_seg \<Rightarrow> bool" where
  "segmentMayMatch q m =
     (if sg_project m \<noteq> q_ProjectID q then False
      else if q_TimeMin q \<noteq> 0 \<and> maxTS m < q_TimeMin q then False
      else if q_TimeMax q \<noteq> 0 \<and> q_TimeMax q < minTS m then False
      else True)"

text \<open>The row loop: the callback on every matching row, up to the limit.\<close>

fun emit_rows :: "Query \<Rightarrow> (Event \<Rightarrow> 's \<Rightarrow> es_err + 's) \<Rightarrow> nat \<Rightarrow> Event list \<Rightarrow> nat \<Rightarrow> 's \<Rightarrow> es_err + ('s \<times> nat)" where
  "emit_rows q fn lm [] n s = Inr (s, n)"
| "emit_rows q fn lm (e # es) n s =
     (if lm \<le> n then Inr (s, n)
      else if q_match q e then (case fn e s of Inl err \<Rightarrow> Inl err | Inr s' \<Rightarrow> emit_rows q fn lm es (Suc n) s')
      else emit_rows q fn lm es n s)"

fun emit_batches :: "Query \<Rightarrow> (Event \<Rightarrow> 's \<Rightarrow> es_err + 's) \<Rightarrow> nat \<Rightarrow> Event list list \<Rightarrow> nat \<Rightarrow> 's \<Rightarrow> es_err + ('s \<times> nat)" where
  "emit_batches q fn lm [] n s = Inr (s, n)"
| "emit_batches q fn lm (b # bs) n s =
     (if lm \<le> n then Inr (s, n)
      else case emit_rows q fn lm b n s of Inl err \<Rightarrow> Inl err | Inr (s', n') \<Rightarrow> emit_batches q fn lm bs n' s')"

text \<open>Row-group pruning by the timestamp column index, then by Bloom filters.\<close>

definition prune_time :: "es_env \<Rightarrow> Query \<Rightarrow> Event list \<Rightarrow> bool" where
  "prune_time E q g =
     ((q_TimeMin q \<noteq> 0 \<or> q_TimeMax q \<noteq> 0) \<and>
      (case ts_pages E g of
         None \<Rightarrow> False
       | Some ps \<Rightarrow>
           ps \<noteq> [] \<and>
           (let rgMin = fst (hd ps); rgMax = snd (last ps)
            in (q_TimeMax q \<noteq> 0 \<and> q_TimeMax q < rgMin) \<or> (q_TimeMin q \<noteq> 0 \<and> rgMax < q_TimeMin q))))"

definition prune_bloom :: "es_env \<Rightarrow> Query \<Rightarrow> Event list \<Rightarrow> bool" where
  "prune_bloom E q g =
     list_ex (\<lambda>(col, want). want \<noteq> [] \<and> bloom_check E col g want = Some False)
       [(''fingerprint'', q_Fingerprint q), (''release'', q_Release q), (''user_id'', q_UserID q)]"

fun scan_groups :: "es_env \<Rightarrow> Query \<Rightarrow> (Event \<Rightarrow> 's \<Rightarrow> es_err + 's) \<Rightarrow> nat \<Rightarrow> Event list list \<Rightarrow> nat \<Rightarrow> 's \<Rightarrow> es_err + ('s \<times> nat)" where
  "scan_groups E q fn lm [] n s = Inr (s, n)"
| "scan_groups E q fn lm (g # gs) n s =
     (if lm \<le> n then Inr (s, n)
      else if prune_time E q g then scan_groups E q fn lm gs n s
      else if prune_bloom E q g then scan_groups E q fn lm gs n s
      else case emit_batches q fn lm (read_batches E g) n s of
        Inl err \<Rightarrow> Inl err
      | Inr (s', n') \<Rightarrow> scan_groups E q fn lm gs n' s')"

definition es_scanSegment ::
  "es_env \<Rightarrow> es_disk \<Rightarrow> es_seg \<Rightarrow> Query \<Rightarrow> nat \<Rightarrow> (Event \<Rightarrow> 's \<Rightarrow> es_err + 's) \<Rightarrow> 's \<Rightarrow> es_err + ('s \<times> nat)" where
  "es_scanSegment E disk m q lm fn s =
     (case map_of disk (sg_path m) of
        None \<Rightarrow> Inl (ErrOpen (sg_path m))
      | Some f \<Rightarrow>
          if \<not> seg_opens E (sg_path m) then Inl (ErrOpen (sg_path m))
          else scan_groups E q fn lm (pq_groups f) 0 s)"

fun feed :: "(Event \<Rightarrow> 's \<Rightarrow> es_err + 's) \<Rightarrow> Event list \<Rightarrow> 's \<Rightarrow> es_err + 's" where
  "feed fn [] s = Inr s"
| "feed fn (e # es) s = (case fn e s of Inl err \<Rightarrow> Inl err | Inr s' \<Rightarrow> feed fn es s')"

text \<open>The warm tier: \<open>c\<close> and \<open>op\<close> count the segments considered and opened, also when an error ends the loop.\<close>

fun scan_segs ::
  "es_env \<Rightarrow> es_disk \<Rightarrow> Query \<Rightarrow> nat \<Rightarrow> (Event \<Rightarrow> 's \<Rightarrow> es_err + 's) \<Rightarrow> es_seg list \<Rightarrow> nat \<Rightarrow> 's \<Rightarrow> nat \<Rightarrow> nat \<Rightarrow> (es_err + 's) \<times> nat \<times> nat" where
  "scan_segs E disk q lm fn [] n s c op = (Inr s, c, op)"
| "scan_segs E disk q lm fn (m # ms) n s c op =
     (if \<not> segmentMayMatch q m then scan_segs E disk q lm fn ms n s (Suc c) op
      else if lm \<le> n then (Inr s, Suc c, op)
      else case es_scanSegment E disk m q (lm - n) fn s of
        Inl err \<Rightarrow> (Inl err, Suc c, Suc op)
      | Inr (s', k) \<Rightarrow> scan_segs E disk q lm fn ms (n + k) s' (Suc c) (Suc op))"

definition scan_limit :: "Store \<Rightarrow> Query \<Rightarrow> nat" where
  "scan_limit st q = nat (if q_Limit q \<le> 0 then QueryLimitDefault (s_opts st) else q_Limit q)"

definition Scan :: "es_env \<Rightarrow> es_disk \<Rightarrow> Store \<Rightarrow> Query \<Rightarrow> (Event \<Rightarrow> 's \<Rightarrow> es_err + 's) \<Rightarrow> 's \<Rightarrow> Store \<times> (es_err + 's)" where
  "Scan E disk st q fn s =
     (if q_ProjectID q = 0 then (st, Inl ErrTenant)
      else
        let lm = scan_limit st q; hot = take lm (filter (q_match q) (buf st)) in
        (case feed fn hot s of
           Inl err \<Rightarrow> (st, Inl err)
         | Inr s1 \<Rightarrow>
             (case scan_segs E disk q lm fn (s_segs st) (length hot) s1 0 0 of
                (r, c, op) \<Rightarrow> (st\<lparr>statSegsTotal := statSegsTotal st + c, statSegsOpen := statSegsOpen st + op\<rparr>, r))))"

definition PruneStats :: "Store \<Rightarrow> nat \<times> nat" where
  "PruneStats st = (statSegsTotal st, statSegsOpen st)"

definition SegmentCount :: "Store \<Rightarrow> nat" where
  "SegmentCount st = length (s_segs st)"

definition BufferLen :: "Store \<Rightarrow> nat" where
  "BufferLen st = length (buf st)"

section \<open>The contract of the environment\<close>

definition col_value :: "string \<Rightarrow> Event \<Rightarrow> string" where
  "col_value col e =
     (if col = ''fingerprint'' then ev_Fingerprint e else if col = ''release'' then ev_Release e else ev_UserID e)"

definition page_bounds :: "Event list \<Rightarrow> int \<times> int" where
  "page_bounds p = (Min (set (map ev_Timestamp p)), Max (set (map ev_Timestamp p)))"

text \<open>
  \<open>sort.Slice\<close> sorts and permutes; a map iteration visits every key once; Parquet gives back
  the rows it was given, in order, in row groups and batches of its choice; the column
  index has the bounds of consecutive non-empty pages; Bloom filters have no false negatives; a segment
  file that is there opens and is read to its end without an error.
\<close>

definition env_ok :: "es_env \<Rightarrow> bool" where
  "env_ok E \<longleftrightarrow>
     (\<forall>evs. mset (sort_rows E evs) = mset evs \<and> sorted (map ev_Timestamp (sort_rows E evs))) \<and>
     (\<forall>ms. mset (sort_segs E ms) = mset ms) \<and>
     (\<forall>ks. mset (iter_parts E ks) = mset ks) \<and>
     (\<forall>evs. concat (row_groups E evs) = evs) \<and>
     (\<forall>g. concat (read_batches E g) = g) \<and>
     (\<forall>g ps. ts_pages E g = Some ps \<longrightarrow> (\<exists>pgs. concat pgs = g \<and> [] \<notin> set pgs \<and> ps = map page_bounds pgs)) \<and>
     (\<forall>col g v. bloom_check E col g v = Some False \<longrightarrow> (\<forall>e \<in> set g. col_value col e \<noteq> v)) \<and>
     (\<forall>p. seg_opens E p)"

section \<open>Well-formed stores\<close>

definition file_rows :: "pq_file \<Rightarrow> Event list" where
  "file_rows f = concat (pq_groups f)"

definition seg_rows :: "es_disk \<Rightarrow> es_seg \<Rightarrow> Event list" where
  "seg_rows disk m = (case map_of disk (sg_path m) of None \<Rightarrow> [] | Some f \<Rightarrow> file_rows f)"

definition file_ok :: "es_seg \<Rightarrow> pq_file \<Rightarrow> bool" where
  "file_ok m f \<longleftrightarrow> file_rows f \<noteq> [] \<and> sorted (map ev_Timestamp (file_rows f)) \<and>
     (\<forall>e \<in> set (file_rows f). part_key e = (sg_project m, sg_hour m)) \<and>
     minTS m = ev_Timestamp (hd (file_rows f)) \<and> maxTS m = ev_Timestamp (last (file_rows f)) \<and>
     sg_rows m = int (length (file_rows f)) \<and>
     map_of (pq_meta f) ''leser_hll_users'' = Some (hll_MarshalText (sketch (user_ids (file_rows f))))"

definition store_ok :: "es_disk \<Rightarrow> Store \<Rightarrow> bool" where
  "store_ok disk st \<longleftrightarrow> (\<forall>m \<in> set (s_segs st). \<exists>f. map_of disk (sg_path m) = Some f \<and> file_ok m f)"

text \<open>All rows a query can see, in the order a scan meets them.\<close>

definition all_rows :: "es_disk \<Rightarrow> Store \<Rightarrow> Event list" where
  "all_rows disk st = buf st @ concat (map (seg_rows disk) (s_segs st))"

section \<open>Pruning is sound\<close>

lemma sorted_page_bounds:
  assumes "concat pgs = g" and "[] \<notin> set pgs" and "pgs \<noteq> []" and "sorted (map ev_Timestamp g)" and "e \<in> set g"
  shows "fst (page_bounds (hd pgs)) \<le> ev_Timestamp e" and "ev_Timestamp e \<le> snd (page_bounds (last pgs))"
proof -
  from assms(3) obtain p ps where hd: "pgs = p # ps" by (cases pgs) auto
  with assms(2) have "p \<noteq> []" by auto
  have g: "g = p @ concat ps" using assms(1) hd by simp
  show "fst (page_bounds (hd pgs)) \<le> ev_Timestamp e"
  proof (cases "e \<in> set p")
    case True
    then show ?thesis by (auto simp: hd page_bounds_def intro!: Min_le)
  next
    case False
    then have "e \<in> set (concat ps)" using assms(5) g by auto
    then have "\<forall>x \<in> set p. ev_Timestamp x \<le> ev_Timestamp e" using assms(4) unfolding g by (auto simp: sorted_append)
    moreover have "Min (set (map ev_Timestamp p)) \<in> set (map ev_Timestamp p)" using \<open>p \<noteq> []\<close> by (intro Min_in) auto
    ultimately show ?thesis by (auto simp: hd page_bounds_def)
  qed
  from assms(3) obtain qs l where last: "pgs = qs @ [l]" by (cases pgs rule: rev_cases) auto
  with assms(2) have "l \<noteq> []" by auto
  have g': "g = concat qs @ l" using assms(1) last by simp
  show "ev_Timestamp e \<le> snd (page_bounds (last pgs))"
  proof (cases "e \<in> set l")
    case True
    then show ?thesis by (auto simp: last page_bounds_def intro!: Max_ge)
  next
    case False
    then have "e \<in> set (concat qs)" using assms(5) g' by auto
    then have "\<forall>x \<in> set l. ev_Timestamp e \<le> ev_Timestamp x" using assms(4) unfolding g' by (auto simp: sorted_append)
    moreover have "Max (set (map ev_Timestamp l)) \<in> set (map ev_Timestamp l)" using \<open>l \<noteq> []\<close> by (intro Max_in) auto
    ultimately show ?thesis by (auto simp: last page_bounds_def)
  qed
qed

lemma env_okD:
  assumes "env_ok E"
  shows "mset (sort_rows E evs) = mset evs" "sorted (map ev_Timestamp (sort_rows E evs))" "mset (sort_segs E ms) = mset ms"
    "mset (iter_parts E ks) = mset ks" "concat (row_groups E evs) = evs" "concat (read_batches E g) = g"
    "ts_pages E g = Some ps \<Longrightarrow> \<exists>pgs. concat pgs = g \<and> [] \<notin> set pgs \<and> ps = map page_bounds pgs"
    "bloom_check E col g v = Some False \<Longrightarrow> e \<in> set g \<Longrightarrow> col_value col e \<noteq> v" "seg_opens E p"
  using assms unfolding env_ok_def by blast+

lemma prune_time_sound:
  assumes "env_ok E" and "sorted (map ev_Timestamp g)" and "prune_time E q g" and "e \<in> set g"
  shows "\<not> q_match q e"
proof -
  from assms(3) obtain ps where ps: "ts_pages E g = Some ps" "ps \<noteq> []"
    and out: "(q_TimeMax q \<noteq> 0 \<and> q_TimeMax q < fst (hd ps)) \<or> (q_TimeMin q \<noteq> 0 \<and> snd (last ps) < q_TimeMin q)"
    by (auto simp: prune_time_def Let_def split: option.splits)
  from env_okD(7) [OF assms(1) ps(1)] obtain pgs where pgs: "concat pgs = g" "[] \<notin> set pgs" "ps = map page_bounds pgs" by blast
  with ps(2) have "pgs \<noteq> []" by auto
  from sorted_page_bounds [OF pgs(1,2) this assms(2,4)] \<open>pgs \<noteq> []\<close> out show ?thesis
    by (auto simp: pgs(3) hd_map last_map q_match_def)
qed

lemma prune_bloom_sound:
  assumes "env_ok E" and "prune_bloom E q g" and "e \<in> set g"
  shows "\<not> q_match q e"
proof
  assume m: "q_match q e"
  have "col_value ''fingerprint'' e = q_Fingerprint q" if "q_Fingerprint q \<noteq> []" using m that by (simp add: q_match_def col_value_def split: if_splits)
  moreover have "col_value ''release'' e = q_Release q" if "q_Release q \<noteq> []" using m that by (simp add: q_match_def col_value_def split: if_splits)
  moreover have "col_value ''user_id'' e = q_UserID q" if "q_UserID q \<noteq> []" using m that by (simp add: q_match_def col_value_def split: if_splits)
  ultimately show False using assms(2) env_okD(8) [OF assms(1) _ assms(3)] unfolding prune_bloom_def by auto
qed

lemma sorted_ends:
  assumes "sorted (map f xs)" and "x \<in> set xs"
  shows "f (hd xs) \<le> (f x :: int)" and "f x \<le> f (last xs)"
proof -
  from assms(2) obtain a as where "xs = a # as" by (cases xs) auto
  then show "f (hd xs) \<le> f x" using assms by auto
  from assms(2) obtain bs b where "xs = bs @ [b]" by (cases xs rule: rev_cases) auto
  then show "f x \<le> f (last xs)" using assms by (auto simp: sorted_append)
qed

lemma segmentMayMatch_sound:
  assumes "file_ok m f" and "\<not> segmentMayMatch q m" and "e \<in> set (file_rows f)"
  shows "\<not> q_match q e"
proof -
  have "minTS m \<le> ev_Timestamp e \<and> ev_Timestamp e \<le> maxTS m"
    using sorted_ends [of ev_Timestamp "file_rows f" e] assms(1,3) by (simp add: file_ok_def)
  moreover have "ev_ProjectID e = sg_project m" using assms(1,3) by (auto simp: file_ok_def part_key_def)
  ultimately show ?thesis using assms(2) by (auto simp: segmentMayMatch_def q_match_def split: if_splits)
qed

section \<open>Loops feed the callback\<close>

text \<open>What the loops emit from a list of rows when \<open>n\<close> of the limit is used up.\<close>

definition emitted :: "Query \<Rightarrow> nat \<Rightarrow> nat \<Rightarrow> Event list \<Rightarrow> Event list" where
  "emitted q lm n rows = take (lm - n) (filter (q_match q) rows)"

definition feed_count :: "(Event \<Rightarrow> 's \<Rightarrow> es_err + 's) \<Rightarrow> Event list \<Rightarrow> nat \<Rightarrow> 's \<Rightarrow> es_err + ('s \<times> nat)" where
  "feed_count fn xs n s = (case feed fn xs s of Inl err \<Rightarrow> Inl err | Inr s' \<Rightarrow> Inr (s', n + length xs))"

lemma feed_append: "feed fn (xs @ ys) s = (case feed fn xs s of Inl err \<Rightarrow> Inl err | Inr s' \<Rightarrow> feed fn ys s')"
  by (induction xs arbitrary: s) (auto split: sum.splits)

lemma feed_count_append:
  "feed_count fn (xs @ ys) n s = (case feed_count fn xs n s of Inl err \<Rightarrow> Inl err | Inr (s', n') \<Rightarrow> feed_count fn ys n' s')"
  by (auto simp: feed_count_def feed_append ac_simps split: sum.splits)

lemma feed_count_Inr: "feed_count fn xs n s = Inr (s', n') \<Longrightarrow> n' = n + length xs"
  by (auto simp: feed_count_def split: sum.splits)

lemma emitted_simps [simp]:
  "emitted q lm n [] = []" "lm \<le> n \<Longrightarrow> emitted q lm n rows = []"
  by (simp_all add: emitted_def)

lemma emitted_append: "emitted q lm n (xs @ ys) = emitted q lm n xs @ emitted q lm (n + length (emitted q lm n xs)) ys"
  by (simp add: emitted_def min_def)

lemma emitted_none: "(\<And>e. e \<in> set rows \<Longrightarrow> \<not> q_match q e) \<Longrightarrow> emitted q lm n rows = []"
  by (simp add: emitted_def filter_False)

lemma emit_rows_feed: "emit_rows q fn lm rows n s = feed_count fn (emitted q lm n rows) n s"
proof (induction rows arbitrary: n s)
  case Nil
  then show ?case by (simp add: feed_count_def)
next
  case (Cons e rows)
  show ?case
  proof (cases "lm \<le> n \<or> \<not> q_match q e")
    case True
    then show ?thesis by (auto simp: Cons.IH feed_count_def emitted_def)
  next
    case False
    then have "lm - n = Suc (lm - Suc n)" using Suc_diff_Suc [of n lm] by simp
    with False show ?thesis by (auto simp: Cons.IH feed_count_def emitted_def split: sum.splits)
  qed
qed

lemma emit_batches_feed: "emit_batches q fn lm bs n s = feed_count fn (emitted q lm n (concat bs)) n s"
proof (induction bs arbitrary: n s)
  case Nil
  then show ?case by (simp add: feed_count_def)
next
  case (Cons b bs)
  show ?case
  proof (cases "lm \<le> n")
    case True
    then show ?thesis by (simp add: feed_count_def)
  next
    case False
    then show ?thesis
      by (auto simp: Cons.IH emit_rows_feed emitted_append feed_count_append dest: feed_count_Inr split: sum.splits)
  qed
qed

lemma scan_groups_feed:
  assumes "env_ok E"
  shows "sorted (map ev_Timestamp (concat gs)) \<Longrightarrow> scan_groups E q fn lm gs n s = feed_count fn (emitted q lm n (concat gs)) n s"
proof (induction gs arbitrary: n s)
  case Nil
  then show ?case by (simp add: feed_count_def)
next
  case (Cons g gs)
  then have sg: "sorted (map ev_Timestamp g)" "sorted (map ev_Timestamp (concat gs))" by (auto simp: sorted_append)
  note IH = Cons.IH [OF sg(2)]
  consider "lm \<le> n" | "\<not> lm \<le> n" "prune_time E q g \<or> prune_bloom E q g" | "\<not> lm \<le> n" "\<not> prune_time E q g" "\<not> prune_bloom E q g" by blast
  then show ?case
  proof cases
    case 1
    then show ?thesis by (simp add: feed_count_def)
  next
    case 2
    then have "\<And>e. e \<in> set g \<Longrightarrow> \<not> q_match q e"
      using prune_time_sound [OF assms sg(1)] prune_bloom_sound [OF assms] by blast
    from emitted_none [OF this] 2 show ?thesis by (auto simp: IH emitted_append)
  next
    case 3
    then show ?thesis
      by (auto simp: IH emit_batches_feed env_okD(6) [OF assms] emitted_append feed_count_append dest: feed_count_Inr split: sum.splits)
  qed
qed

lemma scan_segs_feed:
  assumes "env_ok E"
  shows "(\<And>m. m \<in> set ms \<Longrightarrow> \<exists>f. map_of disk (sg_path m) = Some f \<and> file_ok m f) \<Longrightarrow>
    fst (scan_segs E disk q lm fn ms n s c op) = feed fn (emitted q lm n (concat (map (seg_rows disk) ms))) s"
proof (induction ms arbitrary: n s c op)
  case Nil
  then show ?case by simp
next
  case (Cons m ms)
  from Cons.prems obtain f where f: "map_of disk (sg_path m) = Some f" "file_ok m f" by (meson list.set_intros(1))
  have rows: "seg_rows disk m = file_rows f" by (simp add: seg_rows_def f)
  have IH: "fst (scan_segs E disk q lm fn ms n s c op) = feed fn (emitted q lm n (concat (map (seg_rows disk) ms))) s" for n s c op
    using Cons by simp
  show ?case
  proof (cases "segmentMayMatch q m")
    case False
    then have "emitted q lm n (file_rows f) = []" using segmentMayMatch_sound [OF f(2)] by (intro emitted_none) blast
    with False show ?thesis by (simp add: IH rows emitted_append)
  next
    case True
    show ?thesis
    proof (cases "lm \<le> n")
      case True': True
      with True show ?thesis by simp
    next
      case False
      have "sorted (map ev_Timestamp (concat (pq_groups f)))" using f(2) by (simp add: file_ok_def file_rows_def)
      from scan_groups_feed [OF assms this, of q fn "lm - n" 0 s]
      have "es_scanSegment E disk m q (lm - n) fn s = feed_count fn (emitted q lm n (file_rows f)) 0 s"
        by (simp add: es_scanSegment_def f file_rows_def emitted_def env_okD(9) [OF assms])
      with True False show ?thesis
        by (auto simp: IH rows emitted_append feed_append feed_count_def split: sum.splits)
    qed
  qed
qed

lemma Scan_feed:
  assumes "env_ok E" and "store_ok disk st" and "q_ProjectID q \<noteq> 0"
  shows "snd (Scan E disk st q fn s) = feed fn (take (scan_limit st q) (filter (q_match q) (all_rows disk st))) s"
proof -
  let ?lm = "scan_limit st q"
  let ?hot = "take ?lm (filter (q_match q) (buf st))"
  have hot: "emitted q ?lm 0 (buf st) = ?hot" by (simp add: emitted_def)
  have all: "take ?lm (filter (q_match q) (all_rows disk st)) = ?hot @ emitted q ?lm (length ?hot) (concat (map (seg_rows disk) (s_segs st)))"
    using emitted_append [of q ?lm 0 "buf st" "concat (map (seg_rows disk) (s_segs st))"]
    unfolding hot by (simp add: emitted_def all_rows_def)
  have segs: "fst (scan_segs E disk q ?lm fn (s_segs st) n s1 0 0) = feed fn (emitted q ?lm n (concat (map (seg_rows disk) (s_segs st)))) s1" for n s1
    using scan_segs_feed [OF assms(1), of "s_segs st" disk] assms(2) by (simp add: store_ok_def)
  show ?thesis unfolding all feed_append segs [symmetric] using assms(3)
    by (auto simp: Scan_def Let_def split: sum.splits prod.splits)
qed

section \<open>A concrete environment\<close>

definition std_env :: es_env where
  "std_env = \<lparr>sort_rows = sort_key ev_Timestamp, sort_segs = id, iter_parts = id, row_groups = (\<lambda>evs. [evs]),
     ts_pages = (\<lambda>g. if g = [] then None else Some [page_bounds g]), read_batches = (\<lambda>g. [g]),
     bloom_check = (\<lambda>col g v. Some (\<exists>e \<in> set g. col_value col e = v)), seg_opens = (\<lambda>p. True)\<rparr>"

lemma std_env_ok: "env_ok std_env"
proof -
  have pages: "\<exists>pgs. concat pgs = g \<and> [] \<notin> set pgs \<and> [page_bounds g] = map page_bounds pgs" if "g \<noteq> []" for g
    using that by (intro exI [of _ "[g]"]) auto
  show ?thesis by (auto simp: env_ok_def std_env_def pages)
qed

definition sample_event :: "int \<Rightarrow> int \<Rightarrow> string \<Rightarrow> Event" where
  "sample_event pid ts u = \<lparr>ev_EventID = ''e'', ev_ProjectID = pid, ev_Timestamp = ts, ev_Level = ''error'', ev_Fingerprint = ''f'',
     ev_Release = [], ev_Environment = [], ev_UserID = u, ev_Message = [], ev_Payload = []\<rparr>"

definition sample_store :: Store where
  "sample_store = \<lparr>s_opts = es_defaults \<lparr>FlushRows = 0, MaxBufferRows = 0, FlushAge = 0, QueryLimitDefault = 0\<rparr>,
     buf = [sample_event 7 5 ''u'', sample_event 8 6 ''v''], bufSince = 0, s_segs = [], known = {}, flushCount = 0,
     statSegsTotal = 0, statSegsOpen = 0\<rparr>"

definition sample_query :: Query where
  "sample_query = \<lparr>q_ProjectID = 7, q_TimeMin = 1, q_TimeMax = 0, q_Level = [], q_Fingerprint = [], q_Release = [],
     q_Environment = [], q_UserID = ''u'', q_Limit = 0\<rparr>"

text \<open>C31. A scan is exact in spite of all its pruning: on a well-formed store it feeds the callback, in order, exactly the first
  \<open>limit\<close> rows that match among the buffer and all segments, whatever segments, row groups and Bloom filters let
  it skip, and stops with the callback's error if there is one; a query without a project is refused.\<close>

theorem Scan_exact:
  assumes "env_ok E" and "store_ok disk st"
  shows "snd (Scan E disk st q fn s) =
    (if q_ProjectID q = 0 then Inl ErrTenant
     else feed fn (take (scan_limit st q) (filter (q_match q) (buf st @ concat (map (seg_rows disk) (s_segs st))))) s)"
  using Scan_feed [OF assms, of q fn s] by (simp add: all_rows_def) (simp add: Scan_def)

theorem Scan_exact_witness:
  "snd (Scan std_env [] sample_store sample_query (\<lambda>e acc. Inr (acc @ [ev_UserID e])) []) = Inr [''u'']"
proof -
  have "store_ok [] sample_store" by (simp add: store_ok_def sample_store_def)
  moreover have "scan_limit sample_store sample_query = 10000"
    by (simp add: scan_limit_def sample_store_def sample_query_def es_defaults_def Let_def)
  moreover have "filter (q_match sample_query) (buf sample_store) = [sample_event 7 5 ''u'']" "s_segs sample_store = []"
    by (simp_all add: sample_store_def sample_query_def sample_event_def q_match_def)
  ultimately show ?thesis
    using Scan_exact [OF std_env_ok, of "[]" sample_store sample_query "\<lambda>e acc. Inr (acc @ [ev_UserID e])" "[]"]
    by (simp add: sample_query_def sample_event_def)
qed

text \<open>
  The error branches. A segment that the query needs and that cannot be opened ends the scan with an error, after the rows before
  it; but a read error in the middle of a row group is not reported: here the reader gives up after the first row, and
  the scan succeeds without the second.
\<close>

lemma Scan_open_fails:
  assumes "q_ProjectID q \<noteq> 0" and "feed fn (take (scan_limit st q) (filter (q_match q) (buf st))) s = Inr s1"
    and "length (filter (q_match q) (buf st)) < scan_limit st q" and "s_segs st = m # ms" and "segmentMayMatch q m"
    and "map_of disk (sg_path m) = None \<or> \<not> seg_opens E (sg_path m)"
  shows "snd (Scan E disk st q fn s) = Inl (ErrOpen (sg_path m))"
proof -
  have "es_scanSegment E disk m q k fn s1 = Inl (ErrOpen (sg_path m))" for k using assms(6) by (auto simp: es_scanSegment_def split: option.splits)
  moreover have "\<not> scan_limit st q \<le> length (take (scan_limit st q) (filter (q_match q) (buf st)))" using assms(3) by simp
  ultimately show ?thesis using assms(1,2,4,5) by (simp add: Scan_def Let_def del: length_take)
qed

lemma read_error_is_silent:
  "es_scanSegment (std_env\<lparr>read_batches := (\<lambda>g. [take 1 g])\<rparr>)
     [(SegPath 7 0 5 1, \<lparr>pq_meta = [], pq_groups = [[sample_event 7 5 ''u'', sample_event 7 6 ''u'']]\<rparr>)]
     \<lparr>sg_path = SegPath 7 0 5 1, sg_project = 7, sg_hour = 0, minTS = 5, maxTS = 6, sg_rows = 2\<rparr>
     sample_query 10 (\<lambda>e acc. Inr (acc @ [ev_Timestamp e])) [] = Inr ([5], 1)"
  by (simp add: es_scanSegment_def std_env_def prune_time_def prune_bloom_def sample_query_def sample_event_def q_match_def
    page_bounds_def col_value_def)

end
