(* ===== verification/Eventstore_Flush.thy ===== *)
theory Eventstore_Flush
  imports Eventstore
begin

text \<open>
  Flushing and reopening the event store. A flush groups the buffer by partition and writes each
  group; the lemmas follow the rows from the buffer into the files and, after a restart, back
  through the footers. Two theorems at the end show where the code falls short:
  a restarted store can overwrite a segment, and a failed flush leaves rows that a refresh shows twice.
\<close>

section \<open>Flushing moves rows\<close>

subsection \<open>Grouping\<close>

lemma group_rows_snoc:
  "group_rows (rows @ [e]) =
     map_put (part_key e) ((case map_of (group_rows rows) (part_key e) of None \<Rightarrow> [] | Some l \<Rightarrow> l) @ [e]) (group_rows rows)"
  by (simp add: group_rows_def)

lemma group_rows_distinct: "distinct (map fst (group_rows rows))"
  by (induction rows rule: rev_induct) (simp_all add: group_rows_snoc distinct_map_put, simp add: group_rows_def)

lemma map_of_group_rows:
  "map_of (group_rows rows) k = (let l = filter (\<lambda>e. part_key e = k) rows in if l = [] then None else Some l)"
proof (induction rows rule: rev_induct)
  case Nil
  then show ?case by (simp add: group_rows_def)
next
  case (snoc e rows)
  then show ?case by (auto simp: group_rows_snoc Let_def)
qed

definition part_of :: "Event list \<Rightarrow> int \<times> int \<Rightarrow> Event list" where
  "part_of rows k = filter (\<lambda>e. part_key e = k) rows"

lemma group_rows_part: "(case map_of (group_rows rows) k of None \<Rightarrow> [] | Some l \<Rightarrow> l) = part_of rows k"
  by (simp add: map_of_group_rows Let_def part_of_def)

lemma group_rows_keys: "set (map fst (group_rows rows)) = part_key ` set rows"
proof (induction rows rule: rev_induct)
  case Nil
  then show ?case by (simp add: group_rows_def)
next
  case (snoc e rows)
  then show ?case by (simp add: group_rows_snoc fst_map_put)
qed

text \<open>The partitions of the keys, each once, make up the rows.\<close>

lemma parts_cover:
  "distinct ks \<Longrightarrow> part_key ` set rows \<subseteq> set ks \<Longrightarrow> mset (concat (map (part_of rows) ks)) = mset rows"
proof (induction rows)
  case Nil
  then show ?case by (induction ks) (simp_all add: part_of_def)
next
  case (Cons e rows)
  from Cons.prems(2) obtain as bs where ks: "ks = as @ part_key e # bs" by (auto dest: split_list)
  have other: "part_of (e # rows) k = part_of rows k" if "k \<noteq> part_key e" for k using that by (auto simp: part_of_def)
  have "map (part_of (e # rows)) as = map (part_of rows) as" "map (part_of (e # rows)) bs = map (part_of rows) bs"
    using Cons.prems(1) by (auto simp: ks intro!: map_cong other)
  moreover have "part_of (e # rows) (part_key e) = e # part_of rows (part_key e)" by (simp add: part_of_def)
  moreover have "mset (concat (map (part_of rows) ks)) = mset rows" using Cons by auto
  ultimately show ?case by (simp add: ks del: map_eq_conv)
qed

subsection \<open>Segments\<close>

text \<open>
  A flush is clash-free when no buffered row can give its segment the name of a file that is already
  there: the name is made of the partition, the earliest timestamp and the counter.
\<close>

definition no_clash :: "es_disk \<Rightarrow> Store \<Rightarrow> bool" where
  "no_clash disk st \<longleftrightarrow> (\<forall>e \<in> set (buf st). \<forall>n > flushCount st.
     SegPath (fst (part_key e)) (snd (part_key e)) (ev_Timestamp e) n \<notin> fst ` set disk)"

text \<open>In a directory only this store has written to since it was empty, the counter sees to it.\<close>

definition paths_fresh :: "es_disk \<Rightarrow> Store \<Rightarrow> bool" where
  "paths_fresh disk st \<longleftrightarrow> (\<forall>p h t k. SegPath p h t k \<in> fst ` set disk \<longrightarrow> k \<le> flushCount st)"

lemma paths_fresh_no_clash: "paths_fresh disk st \<Longrightarrow> no_clash disk st"
  unfolding paths_fresh_def no_clash_def by (meson not_le)

definition flushable :: "es_disk \<Rightarrow> Store \<Rightarrow> (int \<times> int \<Rightarrow> Event list) \<Rightarrow> (int \<times> int) list \<Rightarrow> bool" where
  "flushable disk st parts ks \<longleftrightarrow> distinct ks \<and>
     (\<forall>k \<in> set ks. parts k \<noteq> [] \<and> (\<forall>e \<in> set (parts k). part_key e = k \<and>
        (\<forall>n > flushCount st. SegPath (fst k) (snd k) (ev_Timestamp e) n \<notin> fst ` set disk)))"

lemma flushable_tl: "flushable disk st parts (k # ks) \<Longrightarrow> flushable disk st parts ks"
  by (simp add: flushable_def)

lemma map_put_new: "map_of d k = None \<Longrightarrow> map_put k v d = d @ [(k, v)]"
  by (induction d) (auto split: if_splits)

text \<open>What one segment write does: nothing visible, or one more well-formed file under a new name.\<close>

definition seg_of_rows :: "seg_path \<Rightarrow> int \<times> int \<Rightarrow> Event list \<Rightarrow> es_seg" where
  "seg_of_rows p k evs = \<lparr>sg_path = p, sg_project = fst k, sg_hour = snd k, minTS = ev_Timestamp (hd evs), maxTS = ev_Timestamp (last evs),
     sg_rows = int (length evs)\<rparr>"

lemma segment_file_ok:
  assumes "env_ok E" and "evs \<noteq> []" and "\<And>e. e \<in> set evs \<Longrightarrow> part_key e = k"
  shows "file_ok (seg_of_rows p k (sort_rows E evs)) (segment_file E (sort_rows E evs))"
    and "file_rows (segment_file E (sort_rows E evs)) = sort_rows E evs"
proof -
  let ?evs = "sort_rows E evs"
  show rows: "file_rows (segment_file E ?evs) = ?evs" by (simp add: file_rows_def segment_file_def env_okD(5) [OF assms(1)])
  have "set ?evs = set evs" using env_okD(1) [OF assms(1)] by (metis set_mset_mset)
  moreover from this assms(2) have "?evs \<noteq> []" by auto
  ultimately show "file_ok (seg_of_rows p k ?evs) (segment_file E ?evs)"
    using assms(3) env_okD(2) [OF assms(1)] by (simp add: file_ok_def rows seg_of_rows_def) (simp add: segment_file_def)
qed

lemma writeSegment_step:
  assumes "env_ok E" and "flushable disk st parts (k # ks)"
    and "writeSegment E st disk io (fst k) (snd k) (parts k) = (st', disk', io', r)"
  shows "st' = st\<lparr>flushCount := flushCount st'\<rparr> \<and> flushCount st \<le> flushCount st' \<and> flushable disk' st' parts ks \<and>
    (case r of
       Inl _ \<Rightarrow> disk' = disk
     | Inr m \<Rightarrow> \<exists>p f. map_of disk p = None \<and> disk' = disk @ [(p, f)] \<and> f = segment_file E (sort_rows E (parts k)) \<and>
                 m = seg_of_rows p k (sort_rows E (parts k)) \<and> parsePartition p = Some k)"
proof -
  let ?evs = "sort_rows E (parts k)"
  let ?p = "SegPath (fst k) (snd k) (ev_Timestamp (hd ?evs)) (Suc (flushCount st))"
  have "set ?evs = set (parts k)" using env_okD(1) [OF assms(1)] by (metis set_mset_mset)
  moreover have "?evs \<noteq> []" using calculation assms(2) by (auto simp: flushable_def)
  ultimately have "hd ?evs \<in> set (parts k)" by (metis hd_in_set)
  then have "?p \<notin> fst ` set disk" using assms(2) unfolding flushable_def by (metis list.set_intros(1) lessI)
  then have none: "map_of disk ?p = None" by (simp add: map_of_eq_None_iff)
  have st': "st' = st\<lparr>flushCount := flushCount st'\<rparr>" "flushCount st \<le> flushCount st'"
    and d: "(disk' = disk \<and> (\<exists>err. r = Inl err)) \<or>
      (disk' = map_put ?p (segment_file E ?evs) disk \<and> r = Inr (seg_of_rows ?p k ?evs) \<and> flushCount st' = Suc (flushCount st))"
    using assms(3) by (auto simp: writeSegment_def Let_def seg_of_rows_def split: prod.splits io_res.splits bool.splits)
  have tl: "flushable disk st parts ks" by (rule flushable_tl [OF assms(2)])
  from d show ?thesis
  proof (elim disjE conjE)
    assume disk: "disk' = disk" and "\<exists>err. r = Inl err"
    moreover have "flushable disk' st' parts ks" using tl st'(2) unfolding flushable_def disk by (meson le_less_trans)
    ultimately show ?thesis using st' by auto
  next
    assume disk: "disk' = map_put ?p (segment_file E ?evs) disk" and r: "r = Inr (seg_of_rows ?p k ?evs)" and fc: "flushCount st' = Suc (flushCount st)"
    have "k \<notin> set ks" using assms(2) by (simp add: flushable_def)
    then have "flushable disk' st' parts ks"
      using tl unfolding flushable_def disk fst_map_put fc by (auto dest: Suc_lessD)
    then show ?thesis using st' r none disk by (auto simp: map_put_new parsePartition_def)
  qed
qed

text \<open>A run over the partitions: files are only added; if all are written they hold the partitions' rows.\<close>

lemma flush_parts_step:
  assumes "env_ok E"
  shows "flushable disk st parts ks \<Longrightarrow> flush_parts E st disk io parts ks acc = (st', disk', io', r) \<Longrightarrow>
    \<exists>ms fs. disk' = disk @ fs \<and> (\<forall>p. p \<in> fst ` set fs \<longrightarrow> map_of disk p = None) \<and> distinct (map fst fs) \<and>
      st' = st\<lparr>flushCount := flushCount st'\<rparr> \<and> length ms = length fs \<and> length fs \<le> length ks \<and>
      (\<forall>i < length fs. \<exists>p. fs ! i = (p, segment_file E (sort_rows E (parts (ks ! i)))) \<and>
         ms ! i = seg_of_rows p (ks ! i) (sort_rows E (parts (ks ! i))) \<and> parsePartition p = Some (ks ! i)) \<and>
      (case r of Inl _ \<Rightarrow> True | Inr new \<Rightarrow> new = acc @ ms \<and> length fs = length ks)"
proof (induction ks arbitrary: st disk io acc)
  case Nil
  then show ?case by (intro exI [of _ "[]"]) auto
next
  case (Cons k ks)
  obtain st1 disk1 io1 r1 where w: "writeSegment E st disk io (fst k) (snd k) (parts k) = (st1, disk1, io1, r1)"
    by (metis prod_cases4)
  note one = writeSegment_step [OF assms Cons.prems(1) w]
  show ?case
  proof (cases r1)
    case (Inl err)
    with w Cons.prems(2) one show ?thesis by (intro exI [of _ "[]"]) auto
  next
    case (Inr m)
    with one obtain p f where p: "map_of disk p = None" "disk1 = disk @ [(p, f)]" "f = segment_file E (sort_rows E (parts k))"
      "m = seg_of_rows p k (sort_rows E (parts k))" "parsePartition p = Some k" by auto
    from Inr w Cons.prems(2) have rest: "flush_parts E st1 disk1 io1 parts ks (acc @ [m]) = (st', disk', io', r)" by simp
    from Cons.IH [OF _ rest] one obtain ms fs where ms: "disk' = disk1 @ fs" "\<forall>p. p \<in> fst ` set fs \<longrightarrow> map_of disk1 p = None"
      "distinct (map fst fs)" "st' = st1\<lparr>flushCount := flushCount st'\<rparr>" "length ms = length fs" "length fs \<le> length ks"
      "\<forall>i < length fs. \<exists>p. fs ! i = (p, segment_file E (sort_rows E (parts (ks ! i)))) \<and>
         ms ! i = seg_of_rows p (ks ! i) (sort_rows E (parts (ks ! i))) \<and> parsePartition p = Some (ks ! i)"
      "case r of Inl _ \<Rightarrow> True | Inr new \<Rightarrow> new = (acc @ [m]) @ ms \<and> length fs = length ks" by blast
    have new: "p \<notin> fst ` set fs" "\<forall>q. q \<in> fst ` set fs \<longrightarrow> map_of disk q = None"
      using ms(2) p(1,2) by (auto simp: map_add_def split: option.splits if_splits)
    have st': "st' = st\<lparr>flushCount := flushCount st'\<rparr>" using one ms(4) by (metis Store.update_convs(6) Store.surjective)
    show ?thesis
    proof (rule exI [of _ "m # ms"], rule exI [of _ "(p, f) # fs"], intro conjI)
      show "\<forall>i < length ((p, f) # fs). \<exists>pa. ((p, f) # fs) ! i = (pa, segment_file E (sort_rows E (parts ((k # ks) ! i)))) \<and>
         (m # ms) ! i = seg_of_rows pa ((k # ks) ! i) (sort_rows E (parts ((k # ks) ! i))) \<and> parsePartition pa = Some ((k # ks) ! i)"
        using ms(7) p by (auto simp: nth_Cons split: nat.splits)
      show "case r of Inl _ \<Rightarrow> True | Inr new \<Rightarrow> new = acc @ m # ms \<and> length ((p, f) # fs) = length (k # ks)"
        using ms(8) by (auto split: sum.splits)
    qed (use ms p new st' in auto)
  qed
qed

subsection \<open>The whole flush\<close>

lemma mset_concat_map: "mset (concat (map f xs)) = (\<Sum>x \<in># mset xs. mset (f x))"
  by (induction xs) auto

text \<open>The files a flush adds, with their segment entries.\<close>

definition seg_written :: "es_env \<Rightarrow> es_seg \<Rightarrow> seg_path \<times> pq_file \<Rightarrow> bool" where
  "seg_written E m pf \<longleftrightarrow> file_ok m (snd pf) \<and> sg_path m = fst pf \<and> parsePartition (fst pf) = Some (sg_project m, sg_hour m) \<and>
     (\<exists>evs. evs \<noteq> [] \<and> snd pf = segment_file E (sort_rows E evs) \<and> m = seg_of_rows (fst pf) (sg_project m, sg_hour m) (sort_rows E evs))"

definition written :: "es_env \<Rightarrow> es_disk \<Rightarrow> es_seg list \<Rightarrow> es_disk \<Rightarrow> bool" where
  "written E disk ms fs \<longleftrightarrow> (\<forall>p. p \<in> fst ` set fs \<longrightarrow> map_of disk p = None) \<and> distinct (map fst fs) \<and>
     list_all2 (seg_written E) ms fs"

lemma writtenI:
  assumes "env_ok E" and "flushable disk st parts ks" and "\<forall>p. p \<in> fst ` set fs \<longrightarrow> map_of disk p = None" and "distinct (map fst fs)"
    and "length ms = length fs" and "length fs \<le> length ks"
    and "\<forall>i < length fs. \<exists>p. fs ! i = (p, segment_file E (sort_rows E (parts (ks ! i)))) \<and>
         ms ! i = seg_of_rows p (ks ! i) (sort_rows E (parts (ks ! i))) \<and> parsePartition p = Some (ks ! i)"
  shows "written E disk ms fs" and "map (\<lambda>(p, f). mset (file_rows f)) fs = map (\<lambda>k. mset (parts k)) (take (length fs) ks)"
proof -
  have k: "parts (ks ! i) \<noteq> []" "\<And>e. e \<in> set (parts (ks ! i)) \<Longrightarrow> part_key e = ks ! i" if "i < length fs" for i
    using assms(2,6) that by (auto simp: flushable_def)
  show "written E disk ms fs"
    unfolding written_def list_all2_conv_all_nth
  proof (intro conjI allI impI)
    fix i
    assume "i < length ms"
    then have i: "i < length fs" using assms(5) by simp
    with assms(7) obtain p where p: "fs ! i = (p, segment_file E (sort_rows E (parts (ks ! i))))"
      "ms ! i = seg_of_rows p (ks ! i) (sort_rows E (parts (ks ! i)))" "parsePartition p = Some (ks ! i)" by blast
    from segment_file_ok(1) [OF assms(1) k [OF i], of p] p k(1) [OF i]
    show "seg_written E (ms ! i) (fs ! i)" by (auto simp: seg_written_def seg_of_rows_def)
  qed (use assms(3-5) in auto)
  show "map (\<lambda>(p, f). mset (file_rows f)) fs = map (\<lambda>k. mset (parts k)) (take (length fs) ks)"
  proof (rule nth_equalityI)
    fix i
    assume "i < length (map (\<lambda>(p, f). mset (file_rows f)) fs)"
    then have i: "i < length fs" by simp
    with assms(7) obtain p where "fs ! i = (p, segment_file E (sort_rows E (parts (ks ! i))))" by blast
    with segment_file_ok(2) [OF assms(1) k [OF i]] i assms(6) env_okD(1) [OF assms(1)]
    show "map (\<lambda>(p, f). mset (file_rows f)) fs ! i = map (\<lambda>k. mset (parts k)) (take (length fs) ks) ! i" by simp
  qed (use assms(6) in simp)
qed

lemma written_store:
  assumes "written E disk ms fs"
  shows "\<And>m. m \<in> set ms \<Longrightarrow> \<exists>f. map_of (disk @ fs) (sg_path m) = Some f \<and> file_ok m f"
    and "map (seg_rows (disk @ fs)) ms = map (\<lambda>(p, f). file_rows f) fs"
    and "map_of disk q = Some g \<Longrightarrow> map_of (disk @ fs) q = Some g"
proof -
  have look: "map_of (disk @ fs) p = Some f" if "(p, f) \<in> set fs" for p f
  proof -
    have "map_of disk p = None" using assms that by (force simp: written_def)
    moreover have "map_of fs p = Some f" using assms that by (simp add: written_def)
    ultimately show ?thesis by (simp add: map_add_def)
  qed
  have nth: "sg_path (ms ! i) = fst (fs ! i) \<and> file_ok (ms ! i) (snd (fs ! i)) \<and> map_of (disk @ fs) (sg_path (ms ! i)) = Some (snd (fs ! i))"
    if "i < length fs" for i
  proof -
    obtain p f where pf: "fs ! i = (p, f)" by fastforce
    have "list_all2 (seg_written E) ms fs"
      using assms unfolding written_def by blast
    from list_all2_nthD2 [OF this that] have "file_ok (ms ! i) f" "sg_path (ms ! i) = p" by (simp_all add: pf seg_written_def)
    moreover have "(p, f) \<in> set fs" using that pf by (metis nth_mem)
    ultimately show ?thesis using look [of p f] by (simp add: pf)
  qed
  have len: "length ms = length fs" using assms unfolding written_def by (blast dest: list_all2_lengthD)
  show "\<exists>f. map_of (disk @ fs) (sg_path m) = Some f \<and> file_ok m f" if "m \<in> set ms" for m
    using that nth len by (metis in_set_conv_nth)
  show "map (seg_rows (disk @ fs)) ms = map (\<lambda>(p, f). file_rows f) fs"
  proof (rule nth_equalityI)
    fix i
    assume "i < length (map (seg_rows (disk @ fs)) ms)"
    then show "map (seg_rows (disk @ fs)) ms ! i = map (\<lambda>(p, f). file_rows f) fs ! i"
      using nth [of i] len by (simp add: seg_rows_def split_def del: map_of_append) (metis option.simps(5))
  qed (simp add: len)
  show "map_of (disk @ fs) q = Some g" if "map_of disk q = Some g"
    using that by simp
qed

lemma es_Flush_step:
  assumes "env_ok E" and "no_clash disk st" and "es_Flush E st disk io = (st', disk', io', r)"
  shows "\<exists>ms fs. disk' = disk @ fs \<and> written E disk ms fs \<and> s_opts st' = s_opts st \<and>
    mset (concat (map (\<lambda>(p, f). file_rows f) fs)) \<subseteq># mset (buf st) \<and>
    (if r = None then buf st' = [] \<and> mset (s_segs st') = mset (s_segs st @ ms) \<and> mset (concat (map (\<lambda>(p, f). file_rows f) fs)) = mset (buf st)
     else buf st' = buf st \<and> s_segs st' = s_segs st)"
proof (cases "buf st = []")
  case True
  with assms(3) have "st' = st\<lparr>buf := []\<rparr>" "disk' = disk" "r = None" by (auto simp: es_Flush_def Let_def)
  with True show ?thesis by (intro exI [of _ "[]"]) (simp add: written_def)
next
  case False
  let ?ks = "iter_parts E (map fst (group_rows (buf st)))"
  let ?parts = "part_of (buf st)"
  let ?st = "st\<lparr>buf := []\<rparr>"
  have "mset ?ks = mset (map fst (group_rows (buf st)))" by (rule env_okD(4) [OF assms(1)])
  then have ks: "set ?ks = part_key ` set (buf st)" "distinct ?ks"
    using group_rows_keys [of "buf st"] group_rows_distinct [of "buf st"] by (metis set_mset_mset, metis mset_eq_imp_distinct_iff)
  have fl: "flushable disk ?st ?parts ?ks"
    unfolding flushable_def
  proof (intro conjI ballI allI impI)
    show "distinct ?ks" by (rule ks(2))
  next
    fix k
    assume k: "k \<in> set ?ks"
    then obtain e where "e \<in> set (buf st)" "k = part_key e" using ks(1) by auto
    then have "e \<in> set (?parts k)" by (simp add: part_of_def)
    then show "?parts k \<noteq> []" by auto
  next
    fix k e
    assume "e \<in> set (?parts k)"
    then show "part_key e = k" by (simp add: part_of_def)
  next
    fix k e n
    assume "e \<in> set (?parts k)" and "n > flushCount ?st"
    then have "e \<in> set (buf st)" "part_key e = k" "n > flushCount st" by (simp_all add: part_of_def)
    then show "SegPath (fst k) (snd k) (ev_Timestamp e) n \<notin> fst ` set disk" using assms(2) unfolding no_clash_def by blast
  qed
  obtain st2 disk2 io2 r2 where fp: "flush_parts E ?st disk io ?parts ?ks [] = (st2, disk2, io2, r2)" by (metis prod_cases4)
  from flush_parts_step [OF assms(1) fl fp] obtain ms fs where ms: "disk2 = disk @ fs"
    "\<forall>p. p \<in> fst ` set fs \<longrightarrow> map_of disk p = None" "distinct (map fst fs)" "st2 = ?st\<lparr>flushCount := flushCount st2\<rparr>"
    "length ms = length fs" "length fs \<le> length ?ks"
    "\<forall>i < length fs. \<exists>p. fs ! i = (p, segment_file E (sort_rows E (?parts (?ks ! i)))) \<and>
         ms ! i = seg_of_rows p (?ks ! i) (sort_rows E (?parts (?ks ! i))) \<and> parsePartition p = Some (?ks ! i)"
    "case r2 of Inl _ \<Rightarrow> True | Inr new \<Rightarrow> new = [] @ ms \<and> length fs = length ?ks" by blast
  note wr = writtenI [OF assms(1) fl ms(2,3,5-7)]
  have st2: "buf st2 = []" "s_segs st2 = s_segs st" "s_opts st2 = s_opts st" by (subst ms(4), simp)+
  have cover: "mset (concat (map ?parts ?ks)) = mset (buf st)" by (rule parts_cover [OF ks(2)]) (simp add: ks(1))
  have "mset (concat (map (\<lambda>(p, f). file_rows f) fs)) = sum_list (map (\<lambda>(p, f). mset (file_rows f)) fs)"
    by (simp add: mset_concat comp_def split_def)
  also have "\<dots> = mset (concat (map ?parts (take (length fs) ?ks)))" unfolding wr(2) by (simp add: mset_concat comp_def)
  finally have rows: "mset (concat (map (\<lambda>(p, f). file_rows f) fs)) = mset (concat (map ?parts (take (length fs) ?ks)))" .
  have "mset (concat (map ?parts (take (length fs) ?ks))) \<subseteq># mset (concat (map ?parts (take (length fs) ?ks @ drop (length fs) ?ks)))"
    by (simp del: append_take_drop_id)
  then have sub: "mset (concat (map (\<lambda>(p, f). file_rows f) fs)) \<subseteq># mset (buf st)" using rows cover by simp
  show ?thesis
  proof (cases r2)
    case (Inl err)
    then have "st' = st2\<lparr>buf := buf st @ buf st2\<rparr>" "disk' = disk2" "r = Some err"
      using assms(3) False fp unfolding es_Flush_def Let_def group_rows_part by auto
    with ms(1) wr(1) st2 sub show ?thesis by auto
  next
    case (Inr new)
    then have st': "st' = st2\<lparr>known := known st2 \<union> sg_path ` set ms, s_segs := sort_segs E (s_segs st2 @ ms)\<rparr>" "disk' = disk2" "r = None"
      and all: "length fs = length ?ks"
      using assms(3) False fp ms(8) unfolding es_Flush_def Let_def group_rows_part by auto
    have "mset (s_segs st') = mset (s_segs st @ ms)" using env_okD(3) [OF assms(1)] by (simp add: st' st2)
    with ms(1) wr(1) st2 st' sub rows cover all show ?thesis by (intro exI [of _ ms] exI [of _ fs]) simp
  qed
qed

section \<open>Reopening\<close>

text \<open>A directory left by flushes: every segment file carries its own metadata.\<close>

definition disk_valid :: "es_disk \<Rightarrow> bool" where
  "disk_valid disk \<longleftrightarrow> distinct (map fst disk) \<and>
     (\<forall>(p, f) \<in> set disk. \<forall>pr h. parsePartition p = Some (pr, h) \<longrightarrow>
        (\<exists>m. readSegmentMeta p f pr h = Inr m \<and> file_ok m f))"

definition disk_rows :: "es_disk \<Rightarrow> Event list" where
  "disk_rows disk = concat (map (\<lambda>(p, f). if parsePartition p = None then [] else file_rows f) disk)"

lemma readSegmentMeta_path: "readSegmentMeta p f pr h = Inr m \<Longrightarrow> sg_path m = p"
  by (auto simp: readSegmentMeta_def split: if_splits option.splits)

lemma walk_all:
  "(\<forall>(p, f) \<in> set fs. \<forall>pr h. parsePartition p = Some (pr, h) \<longrightarrow> (\<exists>m. readSegmentMeta p f pr h = Inr m \<and> file_ok m f)) \<Longrightarrow>
   \<exists>ms. walk_segments (\<lambda>_. False) fs = Inr ms \<and>
     list_all2 (\<lambda>m (p, f). sg_path m = p \<and> file_ok m f) ms (filter (\<lambda>(p, f). parsePartition p \<noteq> None) fs)"
proof (induction fs)
  case Nil
  then show ?case by simp
next
  case (Cons a fs)
  obtain p f where a: "a = (p, f)" by (cases a)
  from Cons obtain ms where ms: "walk_segments (\<lambda>_. False) fs = Inr ms"
    "list_all2 (\<lambda>m (p, f). sg_path m = p \<and> file_ok m f) ms (filter (\<lambda>(p, f). parsePartition p \<noteq> None) fs)" by auto
  show ?case
  proof (cases "parsePartition p")
    case None
    with ms a show ?thesis by simp
  next
    case (Some ph)
    obtain pr h where "ph = (pr, h)" by (cases ph)
    moreover from this Some Cons.prems a obtain m where "readSegmentMeta p f pr h = Inr m" "file_ok m f" by auto
    ultimately show ?thesis using ms a Some readSegmentMeta_path by auto
  qed
qed

lemma es_Open_rows:
  assumes "disk_valid disk"
  shows "\<exists>st. es_Open o1 disk = Inr st \<and> store_ok disk st \<and> all_rows disk st = disk_rows disk \<and> buf st = []"
proof -
  from assms walk_all [of disk] obtain ms where ms: "walk_segments (\<lambda>_. False) disk = Inr ms"
    "list_all2 (\<lambda>m (p, f). sg_path m = p \<and> file_ok m f) ms (filter (\<lambda>(p, f). parsePartition p \<noteq> None) disk)"
    by (auto simp: disk_valid_def)
  have look: "map_of disk p = Some f" if "(p, f) \<in> set disk" for p f using assms that by (simp add: disk_valid_def)
  have all: "(\<forall>m \<in> set ms. \<exists>f. map_of disk (sg_path m) = Some f \<and> file_ok m f) \<and>
      concat (map (seg_rows disk) ms) = concat (map (\<lambda>(p, f). if parsePartition p = None then [] else file_rows f) fs)"
    if "list_all2 (\<lambda>m (p, f). sg_path m = p \<and> file_ok m f) ms (filter (\<lambda>(p, f). parsePartition p \<noteq> None) fs)" "set fs \<subseteq> set disk" for ms fs
    using that
  proof (induction fs arbitrary: ms)
    case (Cons a fs)
    obtain p f where a: "a = (p, f)" by (cases a)
    show ?case
    proof (cases "parsePartition p")
      case None
      with Cons a show ?thesis by simp
    next
      case (Some ph)
      with Cons.prems(1) a obtain m ms' where "ms = m # ms'" "sg_path m = p" "file_ok m f"
        "list_all2 (\<lambda>m (p, f). sg_path m = p \<and> file_ok m f) ms' (filter (\<lambda>(p, f). parsePartition p \<noteq> None) fs)"
        by (auto simp: list_all2_Cons2)
      with Cons a Some look [of p f] show ?thesis by (auto simp: seg_rows_def)
    qed
  qed simp
  from all [OF ms(2)] ms(1) show ?thesis
    by (auto simp: es_Open_def store_ok_def all_rows_def disk_rows_def)
qed

definition int64 :: "int \<Rightarrow> bool" where
  "int64 x \<longleftrightarrow> - (2 ^ 63) \<le> x \<and> x < 2 ^ 63"

lemma readSegmentMeta_written:
  assumes "env_ok E" and "int64 (ev_Timestamp (hd evs))" and "int64 (ev_Timestamp (last evs))"
  shows "readSegmentMeta p (segment_file E evs) pr h =
    Inr \<lparr>sg_path = p, sg_project = pr, sg_hour = h, minTS = ev_Timestamp (hd evs), maxTS = ev_Timestamp (last evs), sg_rows = int (length evs)\<rparr>"
  using assms parseInt64_int_str by (simp add: readSegmentMeta_def segment_file_def int64_def env_okD(5))


text \<open>The files of a flush are valid segments for a later open.\<close>

lemma written_valid:
  assumes "env_ok E" and "disk_valid disk" and "written E disk ms fs"
    and "\<And>e. e \<in> set (concat (map (\<lambda>(p, f). file_rows f) fs)) \<Longrightarrow> int64 (ev_Timestamp e)"
  shows "disk_valid (disk @ fs)" and "disk_rows (disk @ fs) = disk_rows disk @ concat (map (\<lambda>(p, f). file_rows f) fs)"
proof -
  have all: "list_all2 (seg_written E) ms fs" and new: "\<And>p. p \<in> fst ` set fs \<Longrightarrow> map_of disk p = None" and dist: "distinct (map fst fs)"
    using assms(3) by (simp_all add: written_def)
  have ex: "\<exists>m. seg_written E m (p, f)" if "(p, f) \<in> set fs" for p f
    using all that by (metis in_set_conv_nth list_all2_nthD2)
  have meta: "\<exists>m. readSegmentMeta p f pr h = Inr m \<and> file_ok m f"
    if pf: "(p, f) \<in> set fs" "parsePartition p = Some (pr, h)" for p f pr h
  proof -
    from ex [OF pf(1)] obtain m where m: "seg_written E m (p, f)" by blast
    then have ph: "(sg_project m, sg_hour m) = (pr, h)" "file_ok m f" using pf(2) by (auto simp: seg_written_def)
    from m [unfolded seg_written_def ph] obtain evs where
      evs: "evs \<noteq> []" "f = segment_file E (sort_rows E evs)" "m = seg_of_rows p (pr, h) (sort_rows E evs)"
      unfolding fst_conv snd_conv by blast
    have rows: "file_rows f = sort_rows E evs" by (simp add: file_rows_def segment_file_def env_okD(5) [OF assms(1)] evs(2))
    have "length (sort_rows E evs) = length evs" using env_okD(1) [OF assms(1)] by (metis size_mset)
    with evs(1) have ne: "sort_rows E evs \<noteq> []" by auto
    have i64: "int64 (ev_Timestamp e)" if "e \<in> set (sort_rows E evs)" for e
      by (rule assms(4)) (use that rows pf(1) in force)
    have "readSegmentMeta p f pr h = Inr (seg_of_rows p (pr, h) (sort_rows E evs))"
      unfolding evs(2) seg_of_rows_def fst_conv snd_conv using ne by (intro readSegmentMeta_written [OF assms(1)] i64) auto
    with ph(2) evs(3) show ?thesis by simp
  qed
  have some: "parsePartition p \<noteq> None" if "(p, f) \<in> set fs" for p f using ex [OF that] by (auto simp: seg_written_def)
  have "fst ` set disk \<inter> fst ` set fs = {}" using new by (auto simp: map_of_eq_None_iff)
  then have "distinct (map fst (disk @ fs))" using assms(2) dist by (simp add: disk_valid_def)
  with assms(2) meta show "disk_valid (disk @ fs)" unfolding disk_valid_def by (simp add: ball_Un) blast
  have "map (\<lambda>(p, f). if parsePartition p = None then [] else file_rows f) fs = map (\<lambda>(p, f). file_rows f) fs"
    by (rule map_cong) (use some in \<open>auto dest: some\<close>)
  then show "disk_rows (disk @ fs) = disk_rows disk @ concat (map (\<lambda>(p, f). file_rows f) fs)"
    by (simp add: disk_rows_def del: map_eq_conv)
qed

text \<open>What a flush, successful or not, does to the directory and to the store.\<close>

lemma es_Flush_disk:
  assumes "env_ok E" and "no_clash disk st" and "disk_valid disk" and "\<And>e. e \<in> set (buf st) \<Longrightarrow> int64 (ev_Timestamp e)"
    and "es_Flush E st disk io = (st', disk', io', r)"
  shows "disk_valid disk'" and "mset (disk_rows disk) \<subseteq># mset (disk_rows disk')"
    and "r = None \<Longrightarrow> mset (disk_rows disk') = mset (disk_rows disk) + mset (buf st)"
proof -
  from es_Flush_step [OF assms(1,2,5)] obtain ms fs where f: "disk' = disk @ fs" "written E disk ms fs"
    "mset (concat (map (\<lambda>(p, f). file_rows f) fs)) \<subseteq># mset (buf st)"
    "if r = None then buf st' = [] \<and> mset (s_segs st') = mset (s_segs st @ ms) \<and> mset (concat (map (\<lambda>(p, f). file_rows f) fs)) = mset (buf st)
     else buf st' = buf st \<and> s_segs st' = s_segs st" by blast
  have "int64 (ev_Timestamp e)" if "e \<in> set (concat (map (\<lambda>(p, f). file_rows f) fs))" for e
    using f(3) that assms(4) by (metis mset_subset_eqD set_mset_mset)
  note v = written_valid [OF assms(1,3) f(2) this]
  show "disk_valid disk'" using v(1) f(1) by simp
  show "mset (disk_rows disk) \<subseteq># mset (disk_rows disk')" using v(2) f(1) by simp
  show "mset (disk_rows disk') = mset (disk_rows disk) + mset (buf st)" if "r = None" using v(2) f(1,4) that by simp
qed

lemma mset_concat_map_cong: "mset xs = mset ys \<Longrightarrow> mset (concat (map f xs)) = mset (concat (map f ys))"
  by (simp add: mset_concat_map)

lemma es_Flush_store:
  assumes "env_ok E" and "no_clash disk st" and "store_ok disk st" and "es_Flush E st disk io = (st', disk', io', r)"
  shows "store_ok disk' st'" and "mset (all_rows disk' st') = mset (all_rows disk st)"
proof -
  from es_Flush_step [OF assms(1,2,4)] obtain ms fs where f: "disk' = disk @ fs" "written E disk ms fs"
    "if r = None then buf st' = [] \<and> mset (s_segs st') = mset (s_segs st @ ms) \<and> mset (concat (map (\<lambda>(p, f). file_rows f) fs)) = mset (buf st)
     else buf st' = buf st \<and> s_segs st' = s_segs st" by blast
  note w = written_store [OF f(2)]
  have old: "\<exists>f. map_of disk' (sg_path m) = Some f \<and> file_ok m f \<and> seg_rows disk' m = seg_rows disk m" if "m \<in> set (s_segs st)" for m
  proof -
    from assms(3) that obtain g where g: "map_of disk (sg_path m) = Some g" "file_ok m g" by (auto simp: store_ok_def)
    from w(3) [OF g(1)] have "map_of disk' (sg_path m) = Some g" by (simp only: f(1))
    with g show ?thesis by (simp add: seg_rows_def)
  qed
  have oldrows: "map (seg_rows disk') (s_segs st) = map (seg_rows disk) (s_segs st)" using old by auto
  have "store_ok disk' st' \<and> mset (all_rows disk' st') = mset (all_rows disk st)"
  proof (cases "r = None")
    case True
    with f(3) have b: "buf st' = []" and segs: "mset (s_segs st') = mset (s_segs st @ ms)"
      and rows: "mset (concat (map (\<lambda>(p, f). file_rows f) fs)) = mset (buf st)" by auto
    from segs have "set (s_segs st') = set (s_segs st) \<union> set ms" by (metis set_append set_mset_mset)
    then have ok: "store_ok disk' st'" using old w(1) unfolding store_ok_def f(1) by blast
    have "mset (concat (map (seg_rows disk') (s_segs st'))) = mset (concat (map (seg_rows disk') (s_segs st @ ms)))"
      by (rule mset_concat_map_cong [OF segs])
    also have "\<dots> = mset (concat (map (seg_rows disk) (s_segs st))) + mset (buf st)"
      using w(2) oldrows rows by (simp add: f(1) del: map_eq_conv)
    finally show ?thesis using ok b by (simp add: all_rows_def)
  next
    case False
    with f(3) have same: "buf st' = buf st" "s_segs st' = s_segs st" by auto
    have "store_ok disk' st'" using old unfolding store_ok_def same by blast
    then show ?thesis using oldrows by (simp add: all_rows_def same del: map_eq_conv)
  qed
  then show "store_ok disk' st'" "mset (all_rows disk' st') = mset (all_rows disk st)" by auto
qed

section \<open>Properties\<close>






section \<open>Where rows are lost or doubled\<close>

text \<open>One partition's flush by a store whose counter is \<open>n\<close>, and what a later open reads from it.\<close>

lemma one_row_flush:
  assumes "buf st = [e]"
  shows "es_Flush std_env st disk [] =
    (let p = SegPath (fst (part_key e)) (snd (part_key e)) (ev_Timestamp e) (Suc (flushCount st));
         m = \<lparr>sg_path = p, sg_project = fst (part_key e), sg_hour = snd (part_key e), minTS = ev_Timestamp e, maxTS = ev_Timestamp e, sg_rows = 1\<rparr>
     in (st\<lparr>buf := [], flushCount := Suc (flushCount st), known := insert p (known st), s_segs := s_segs st @ [m]\<rparr>,
         map_put p (segment_file std_env [e]) disk, [], None))"
  using assms by (simp add: es_Flush_def Let_def group_rows_def std_env_def writeSegment_def numeral_eq_Suc)

text \<open>
  C39. The counter in a segment's name starts again at every open, so a restarted store can write over a
  segment: the row that was there is gone, although the flush that wrote it had succeeded, and
  the new row is listed twice.
\<close>

theorem restart_overwrites_segment:
  "\<exists>d1 st1 st2 d2 st3. es_Flush std_env (sample_store\<lparr>buf := [sample_event 7 5 ''u'']\<rparr>) [] [] = (st1, d1, [], None) \<and>
     es_Open (s_opts sample_store) d1 = Inr st2 \<and> all_rows d1 st2 = [sample_event 7 5 ''u''] \<and>
     es_Flush std_env (fst (append_events st2 [sample_event 7 5 ''v''] 0)) d1 [] = (st3, d2, [], None) \<and>
     all_rows d2 st3 = [sample_event 7 5 ''v'', sample_event 7 5 ''v'']"
proof -
  let ?u = "sample_event 7 5 ''u''" and ?v = "sample_event 7 5 ''v''"
  let ?p = "SegPath 7 0 5 1"
  let ?m = "\<lparr>sg_path = ?p, sg_project = 7, sg_hour = 0, minTS = 5, maxTS = 5, sg_rows = 1\<rparr>"
  have key: "part_key (sample_event 7 5 x) = (7, 0)" for x by (simp add: part_key_def sample_event_def go_rem_def hourNanos_def)
  have ts: "ev_Timestamp (sample_event 7 5 x) = 5" for x by (simp add: sample_event_def)
  have rows: "file_rows (segment_file std_env [e]) = [e]" for e by (simp add: file_rows_def segment_file_def std_env_def)
  let ?d1 = "[(?p, segment_file std_env [?u])]"
  have f1: "\<exists>st1. es_Flush std_env (sample_store\<lparr>buf := [?u]\<rparr>) [] [] = (st1, ?d1, [], None)"
    by (simp add: one_row_flush key ts Let_def sample_store_def)
  have "readSegmentMeta ?p (segment_file std_env [?u]) 7 0 = Inr ?m"
    using readSegmentMeta_written [OF std_env_ok, of "[?u]"] by (simp add: ts int64_def)
  then have "walk_segments (\<lambda>_. False) ?d1 = Inr [?m]" by (simp add: parsePartition_def)
  then obtain st2 where st2: "es_Open (s_opts sample_store) ?d1 = Inr st2" "buf st2 = []" "s_segs st2 = [?m]" "flushCount st2 = 0"
    "MaxBufferRows (s_opts st2) = 100000"
    by (simp add: es_Open_def sample_store_def es_defaults_def Let_def)
  have a2: "all_rows ?d1 st2 = [?u]" by (simp add: all_rows_def st2 seg_rows_def rows)
  let ?st = "fst (append_events st2 [?v] 0)"
  have st: "buf ?st = [?v]" "s_segs ?st = [?m]" "flushCount ?st = 0" by (simp_all add: append_events_def st2 Let_def)
  obtain st3 where f2: "es_Flush std_env ?st ?d1 [] = (st3, [(?p, segment_file std_env [?v])], [], None)"
    and st3: "buf st3 = []" "s_segs st3 = [?m, ?m]"
    by (simp add: one_row_flush st key ts Let_def)
  have "all_rows [(?p, segment_file std_env [?v])] st3 = [?v, ?v]" by (simp add: all_rows_def st3 seg_rows_def rows)
  with f1 st2(1) a2 f2 show ?thesis by blast
qed

text \<open>
  A flush that fails half-way has already written some segments, and puts all its rows back into the
  buffer: the next refresh lists those segments too.
\<close>

theorem failed_flush_then_refresh_doubles:
  "\<exists>st1 d1 io st2. es_Flush std_env sample_store [] (replicate 7 Done @ [Fail 0]) = (st1, d1, io, Some ErrIO) \<and>
     es_Refresh std_env st1 d1 = (st2, None) \<and>
     all_rows d1 st2 = [sample_event 7 5 ''u'', sample_event 8 6 ''v'', sample_event 7 5 ''u'']"
proof -
  let ?u = "sample_event 7 5 ''u''"
  let ?p = "SegPath 7 0 5 (Suc 0)"
  let ?m = "\<lparr>sg_path = ?p, sg_project = 7, sg_hour = 0, minTS = 5, maxTS = 5, sg_rows = 1\<rparr>"
  let ?d1 = "[(?p, segment_file std_env [?u])]"
  have ts: "ev_Timestamp ?u = 5" by (simp add: sample_event_def)
  have meta: "readSegmentMeta ?p (segment_file std_env [?u]) 7 0 = Inr ?m"
    using readSegmentMeta_written [OF std_env_ok, of "[?u]"] by (simp add: ts int64_def)
  have rows: "file_rows (segment_file std_env [?u]) = [?u]" by (simp add: file_rows_def segment_file_def std_env_def)
  have key: "part_key (sample_event 7 5 x) = (7, 0)" "part_key (sample_event 8 6 x) = (8, 0)" for x
    by (simp_all add: part_key_def sample_event_def go_rem_def hourNanos_def)
  have ts': "ev_Timestamp (sample_event 8 6 ''v'') = 6" by (simp add: sample_event_def)
  have env: "sort_rows std_env [e] = [e]" "iter_parts std_env ks = ks" for e ks by (simp_all add: std_env_def)
  have w1: "writeSegment std_env (sample_store\<lparr>buf := []\<rparr>) [] (replicate 7 Done @ [Fail 0]) 7 0 [?u] =
      (sample_store\<lparr>buf := [], flushCount := Suc 0\<rparr>, ?d1, [Fail 0], Inr ?m)"
    by (simp add: writeSegment_def env ts Let_def numeral_eq_Suc sample_store_def)
  have w2: "writeSegment std_env (sample_store\<lparr>buf := [], flushCount := Suc 0\<rparr>) ?d1 [Fail 0] 8 0 [sample_event 8 6 ''v''] =
      (sample_store\<lparr>buf := [], flushCount := Suc 0\<rparr>, ?d1, [], Inl ErrIO)"
    by (simp add: writeSegment_def env ts' Let_def)
  have grp: "group_rows (buf sample_store) = [((7, 0), [?u]), ((8, 0), [sample_event 8 6 ''v''])]"
    by (simp add: group_rows_def sample_store_def key)
  have buf: "buf sample_store = [?u, sample_event 8 6 ''v'']" by (simp add: sample_store_def)
  have f: "es_Flush std_env sample_store [] (replicate 7 Done @ [Fail 0]) = (sample_store\<lparr>flushCount := Suc 0\<rparr>, ?d1, [], Some ErrIO)"
    unfolding es_Flush_def Let_def grp env by (simp add: w1 w2 buf)
  have k: "known sample_store = {}" "s_segs sample_store = []" by (simp_all add: sample_store_def)
  have r: "es_Refresh std_env (sample_store\<lparr>flushCount := Suc 0\<rparr>) ?d1 = (sample_store\<lparr>flushCount := Suc 0, known := {?p}, s_segs := [?m]\<rparr>, None)"
    by (simp add: es_Refresh_def k parsePartition_def meta) (simp add: std_env_def)
  have "all_rows ?d1 (sample_store\<lparr>flushCount := Suc 0, known := {?p}, s_segs := [?m]\<rparr>) = [?u, sample_event 8 6 ''v'', ?u]"
    by (simp add: all_rows_def seg_rows_def rows buf)
  with f r show ?thesis by blast
qed

end
