(* ===== verification/Eventstore_Aggregate.thy ===== *)
theory Eventstore_Aggregate
  imports Eventstore
begin

text \<open>
  Aggregation over the event store: \<open>internal/eventstore/aggregate.go\<close>. Counts per time bucket,
  the most frequent values of four columns and the sketch of users, over the rows that match a query.
  Segments that lie wholly inside the query contribute their stored sketch; the theorem says that this
  shortcut and the pruning change nothing.
\<close>

section \<open>The projection\<close>

record liteEvent =
  le_EventID :: string
  le_ProjectID :: int
  le_Timestamp :: int
  le_Level :: string
  le_Fingerprint :: string
  le_Release :: string
  le_Environment :: string
  le_UserID :: string

definition lite :: "Event \<Rightarrow> liteEvent" where
  "lite e = \<lparr>le_EventID = ev_EventID e, le_ProjectID = ev_ProjectID e, le_Timestamp = ev_Timestamp e, le_Level = ev_Level e,
     le_Fingerprint = ev_Fingerprint e, le_Release = ev_Release e, le_Environment = ev_Environment e, le_UserID = ev_UserID e\<rparr>"

definition full :: "liteEvent \<Rightarrow> Event" where
  "full e = \<lparr>ev_EventID = le_EventID e, ev_ProjectID = le_ProjectID e, ev_Timestamp = le_Timestamp e, ev_Level = le_Level e,
     ev_Fingerprint = le_Fingerprint e, ev_Release = le_Release e, ev_Environment = le_Environment e, ev_UserID = le_UserID e,
     ev_Message = [], ev_Payload = []\<rparr>"

lemma q_match_full_lite [simp]: "q_match q (full (lite e)) = q_match q e"
  by (simp add: q_match_def full_def lite_def)

section \<open>Accumulation\<close>

record agg =
  ag_total :: int
  ag_buckets :: "(int \<times> int) list"
  ag_level :: "(string \<times> int) list"
  ag_release :: "(string \<times> int) list"
  ag_environment :: "(string \<times> int) list"
  ag_fingerprint :: "(string \<times> int) list"
  ag_users :: HLL

definition agg_empty :: agg where
  "agg_empty = \<lparr>ag_total = 0, ag_buckets = [], ag_level = [], ag_release = [], ag_environment = [], ag_fingerprint = [], ag_users = NewHLL\<rparr>"

text \<open>\<open>m[k]++\<close>.\<close>

definition incr :: "'k \<Rightarrow> ('k \<times> int) list \<Rightarrow> ('k \<times> int) list" where
  "incr k m = map_put k ((case map_of m k of None \<Rightarrow> 0 | Some c \<Rightarrow> c) + 1) m"

definition bucket_of :: "int \<Rightarrow> int \<Rightarrow> int" where
  "bucket_of bn ts = ts - go_rem ts bn"

definition agg_add :: "int \<Rightarrow> agg \<Rightarrow> liteEvent \<Rightarrow> agg" where
  "agg_add bn a e =
     a\<lparr>ag_total := ag_total a + 1,
       ag_buckets := incr (bucket_of bn (le_Timestamp e)) (ag_buckets a),
       ag_level := incr (le_Level e) (ag_level a),
       ag_release := incr (le_Release e) (ag_release a),
       ag_environment := incr (le_Environment e) (ag_environment a),
       ag_fingerprint := incr (le_Fingerprint e) (ag_fingerprint a),
       ag_users := (if le_UserID e \<noteq> [] then hll_Add (ag_users a) (le_UserID e) else ag_users a)\<rparr>"

definition agg_rows :: "Query \<Rightarrow> int \<Rightarrow> agg \<Rightarrow> liteEvent list \<Rightarrow> agg" where
  "agg_rows q bn a rows = foldl (\<lambda>a e. if q_match q (full e) then agg_add bn a e else a) a rows"

definition wholeSegment :: "Query \<Rightarrow> es_seg \<Rightarrow> bool" where
  "wholeSegment q m \<longleftrightarrow> (q_TimeMin q = 0 \<or> q_TimeMin q \<le> minTS m) \<and> (q_TimeMax q = 0 \<or> maxTS m \<le> q_TimeMax q) \<and>
     q_Level q = [] \<and> q_Fingerprint q = [] \<and> q_Release q = [] \<and> q_Environment q = [] \<and> q_UserID q = []"

definition merge_footer :: "Query \<Rightarrow> es_seg \<Rightarrow> pq_file \<Rightarrow> agg \<Rightarrow> es_err + agg" where
  "merge_footer q m f a =
     (if \<not> wholeSegment q m then Inr a
      else case map_of (pq_meta f) ''leser_hll_users'' of
        None \<Rightarrow> Inr a
      | Some enc \<Rightarrow>
          (case UnmarshalHLL enc of
             Inl _ \<Rightarrow> Inr a
           | Inr h \<Rightarrow> (case hll_Merge (ag_users a) h of None \<Rightarrow> Inl ErrPanic | Some u \<Rightarrow> Inr (a\<lparr>ag_users := u\<rparr>))))"

definition aggregateSegment :: "es_env \<Rightarrow> es_disk \<Rightarrow> es_seg \<Rightarrow> Query \<Rightarrow> int \<Rightarrow> agg \<Rightarrow> es_err + agg" where
  "aggregateSegment E disk m q bn a =
     (case map_of disk (sg_path m) of
        None \<Rightarrow> Inl (ErrOpen (sg_path m))
      | Some f \<Rightarrow>
          if \<not> seg_opens E (sg_path m) then Inl (ErrOpen (sg_path m))
          else (case merge_footer q m f a of
             Inl err \<Rightarrow> Inl err
           | Inr a1 \<Rightarrow> Inr (foldl (\<lambda>a g. foldl (\<lambda>a b. agg_rows q bn a (map lite b)) a (read_batches E g)) a1 (pq_groups f))))"

fun agg_segs :: "es_env \<Rightarrow> es_disk \<Rightarrow> Query \<Rightarrow> int \<Rightarrow> es_seg list \<Rightarrow> agg \<Rightarrow> es_err + agg" where
  "agg_segs E disk q bn [] a = Inr a"
| "agg_segs E disk q bn (m # ms) a =
     (if \<not> segmentMayMatch q m then agg_segs E disk q bn ms a
      else case aggregateSegment E disk m q bn a of Inl err \<Rightarrow> Inl err | Inr a' \<Rightarrow> agg_segs E disk q bn ms a')"

record Stats =
  Total :: int
  Buckets :: "(int \<times> int) list"
  TopBy :: "(string \<times> (string \<times> int) list) list"
  UniqueUsers :: nat

text \<open>Most frequent first, ties by key; the keys are distinct, so the order is determined.\<close>

definition top_kvs :: "nat \<Rightarrow> (string \<times> int) list \<Rightarrow> (string \<times> int) list" where
  "top_kvs n m = take n (sort_key (\<lambda>(k, c). (- c, k)) (filter (\<lambda>(k, c). k \<noteq> []) m))"

text \<open>\<open>estimate\<close> is the sketch's \<open>Estimate\<close>.\<close>

definition Aggregate :: "es_env \<Rightarrow> (HLL \<Rightarrow> nat) \<Rightarrow> es_disk \<Rightarrow> Store \<Rightarrow> Query \<Rightarrow> int \<Rightarrow> int \<Rightarrow> es_err + Stats" where
  "Aggregate E estimate disk st q bucketNanos topN =
     (let bn = (if bucketNanos \<le> 0 then hourNanos else bucketNanos);
          n = nat (if topN \<le> 0 \<or> 50 < topN then 10 else topN);
          a0 = agg_rows q bn agg_empty (map lite (buf st))
      in case agg_segs E disk q bn (s_segs st) a0 of
           Inl err \<Rightarrow> Inl err
         | Inr a \<Rightarrow>
             Inr \<lparr>Total = ag_total a, Buckets = sort_key fst (ag_buckets a),
                  TopBy = [(''level'', top_kvs n (ag_level a)), (''release'', top_kvs n (ag_release a)),
                           (''environment'', top_kvs n (ag_environment a)), (''fingerprint'', top_kvs n (ag_fingerprint a))],
                  UniqueUsers = estimate (ag_users a)\<rparr>)"

section \<open>Counting\<close>

text \<open>\<open>counts key rows m\<close>: the map holds how many rows have each key, and only keys that occur.\<close>

definition counts :: "(Event \<Rightarrow> 'k) \<Rightarrow> Event list \<Rightarrow> ('k \<times> int) list \<Rightarrow> bool" where
  "counts key rows m \<longleftrightarrow> distinct (map fst m) \<and>
     (\<forall>k. map_of m k = (let c = length (filter (\<lambda>e. key e = k) rows) in if c = 0 then None else Some (int c)))"

lemma counts_empty: "counts key [] []"
  by (simp add: counts_def)

lemma counts_incr: "counts key rows m \<Longrightarrow> counts key (rows @ [e]) (incr (key e) m)"
  by (auto simp: counts_def incr_def distinct_map_put Let_def filter_empty_conv split: if_splits)

lemma counts_mem:
  assumes "counts key rows m"
  shows "(k, c) \<in> set m \<longleftrightarrow> c = int (length (filter (\<lambda>e. key e = k) rows)) \<and> 0 < c"
proof -
  have "(k, c) \<in> set m \<longleftrightarrow> map_of m k = Some c"
    using map_of_eq_Some_iff [of m k c] assms unfolding counts_def by blast
  also have "\<dots> \<longleftrightarrow> c = int (length (filter (\<lambda>e. key e = k) rows)) \<and> 0 < c"
  proof -
    have "map_of m k = (let c = length (filter (\<lambda>e. key e = k) rows) in if c = 0 then None else Some (int c))"
      using assms by (simp add: counts_def)
    then show ?thesis by (cases "length (filter (\<lambda>e. key e = k) rows) = 0") (auto simp: Let_def)
  qed
  finally show ?thesis .
qed

definition agg_ok :: "int \<Rightarrow> Event list \<Rightarrow> agg \<Rightarrow> bool" where
  "agg_ok bn rows a \<longleftrightarrow> ag_total a = int (length rows) \<and> counts (\<lambda>e. bucket_of bn (ev_Timestamp e)) rows (ag_buckets a) \<and>
     counts ev_Level rows (ag_level a) \<and> counts ev_Release rows (ag_release a) \<and>
     counts ev_Environment rows (ag_environment a) \<and> counts ev_Fingerprint rows (ag_fingerprint a)"

lemma agg_ok_empty: "agg_ok bn [] agg_empty"
  by (simp add: agg_ok_def agg_empty_def counts_empty)

lemma agg_ok_users: "agg_ok bn rows (a\<lparr>ag_users := u\<rparr>) = agg_ok bn rows a"
  by (simp add: agg_ok_def)

lemma agg_add_ok: "agg_ok bn rows a \<Longrightarrow> agg_ok bn (rows @ [e]) (agg_add bn a (lite e))"
  using counts_incr [of "\<lambda>e. bucket_of bn (ev_Timestamp e)" rows "ag_buckets a" e]
  by (simp add: agg_ok_def agg_add_def lite_def counts_incr)

lemma agg_rows_ok:
  "agg_ok bn rows a \<Longrightarrow> agg_ok bn (rows @ filter (q_match q) xs) (agg_rows q bn a (map lite xs))"
proof (induction xs arbitrary: rows a)
  case Nil
  then show ?case by (simp add: agg_rows_def)
next
  case (Cons e xs)
  show ?case
  proof (cases "q_match q e")
    case True
    from Cons.IH [OF agg_add_ok [OF Cons.prems, of e]] True show ?thesis by (simp add: agg_rows_def)
  next
    case False
    with Cons show ?thesis by (simp add: agg_rows_def)
  qed
qed

lemma user_ids_simps [simp]:
  "user_ids [] = []" "user_ids (e # es) = (if ev_UserID e = [] then user_ids es else ev_UserID e # user_ids es)"
  "user_ids (xs @ ys) = user_ids xs @ user_ids ys"
  by (simp_all add: user_ids_def)

lemma agg_rows_users:
  "ag_users a = sketch us \<Longrightarrow> ag_users (agg_rows q bn a (map lite xs)) = sketch (us @ user_ids (filter (q_match q) xs))"
proof (induction xs arbitrary: us a)
  case Nil
  then show ?case by (simp add: agg_rows_def)
next
  case (Cons e xs)
  show ?case
  proof (cases "q_match q e")
    case True
    let ?us = "if ev_UserID e = [] then us else us @ [ev_UserID e]"
    have "ag_users (agg_add bn a (lite e)) = sketch ?us" using Cons.prems by (simp add: agg_add_def lite_def sketch_snoc)
    from Cons.IH [OF this] True show ?thesis by (simp add: agg_rows_def)
  next
    case False
    with Cons show ?thesis by (simp add: agg_rows_def)
  qed
qed

section \<open>Segments\<close>

lemma concat_batches:
  "(\<And>g. concat (rb g) = g) \<Longrightarrow>
   foldl (\<lambda>a g. foldl (\<lambda>a b. agg_rows q bn a (map lite b)) a (rb g)) a gs = agg_rows q bn a (map lite (concat gs))"
proof (induction gs arbitrary: a)
  case Nil
  then show ?case by (simp add: agg_rows_def)
next
  case (Cons g gs)
  have "foldl (\<lambda>a b. agg_rows q bn a (map lite b)) a bs = agg_rows q bn a (map lite (concat bs))" for bs and a
    by (induction bs arbitrary: a) (simp_all add: agg_rows_def)
  from this [of a "rb g"] Cons show ?case by (simp add: agg_rows_def)
qed

lemma whole_matches:
  assumes "file_ok m f" and "segmentMayMatch q m" and "wholeSegment q m" and "e \<in> set (file_rows f)"
  shows "q_match q e"
proof -
  have "minTS m \<le> ev_Timestamp e" "ev_Timestamp e \<le> maxTS m"
    using sorted_ends [of ev_Timestamp "file_rows f" e] assms(1,4) by (simp_all add: file_ok_def)
  moreover have "ev_ProjectID e = sg_project m" using assms(1,4) by (auto simp: file_ok_def part_key_def)
  ultimately show ?thesis using assms(2,3) by (auto simp: segmentMayMatch_def wholeSegment_def q_match_def split: if_splits)
qed

text \<open>The footer's sketch anticipates users that the rows add again.\<close>

lemma merge_footer_ok:
  assumes "file_ok m f" and "segmentMayMatch q m" and "ag_users a = sketch us"
  shows "\<exists>us'. merge_footer q m f a = Inr (a\<lparr>ag_users := sketch us'\<rparr>) \<and>
    set (us' @ user_ids (filter (q_match q) (file_rows f))) = set (us @ user_ids (filter (q_match q) (file_rows f)))"
proof (cases "wholeSegment q m")
  case False
  then show ?thesis using assms(3) by (auto simp: merge_footer_def intro!: exI [of _ us])
next
  case True
  have all: "filter (q_match q) (file_rows f) = file_rows f" using whole_matches [OF assms(1,2) True] by (simp add: filter_id_conv)
  have "map_of (pq_meta f) ''leser_hll_users'' = Some (hll_MarshalText (sketch (user_ids (file_rows f))))"
    using assms(1) by (simp add: file_ok_def)
  moreover have "UnmarshalHLL (hll_MarshalText (sketch (user_ids (file_rows f)))) = Inr (sketch (user_ids (file_rows f)))"
    by (simp add: UnmarshalHLL_def hll_MarshalText_def b64_roundtrip)
  ultimately have "merge_footer q m f a = Inr (a\<lparr>ag_users := sketch (us @ user_ids (file_rows f))\<rparr>)"
    using True assms(3) by (simp add: merge_footer_def sketch_merge)
  then show ?thesis unfolding all by (intro exI [of _ "us @ user_ids (file_rows f)"]) auto
qed

lemma aggregateSegment_ok:
  assumes "env_ok E" and "map_of disk (sg_path m) = Some f" and "file_ok m f" and "segmentMayMatch q m"
    and "agg_ok bn rows a" and "ag_users a = sketch (user_ids rows)"
  shows "\<exists>a'. aggregateSegment E disk m q bn a = Inr a' \<and> agg_ok bn (rows @ filter (q_match q) (seg_rows disk m)) a' \<and>
    ag_users a' = sketch (user_ids (rows @ filter (q_match q) (seg_rows disk m)))"
proof -
  let ?R = "filter (q_match q) (file_rows f)"
  from merge_footer_ok [OF assms(3,4,6)] obtain us' where mf: "merge_footer q m f a = Inr (a\<lparr>ag_users := sketch us'\<rparr>)"
    and us': "set (us' @ user_ids ?R) = set (user_ids rows @ user_ids ?R)" by blast
  let ?a = "agg_rows q bn (a\<lparr>ag_users := sketch us'\<rparr>) (map lite (file_rows f))"
  have seg: "aggregateSegment E disk m q bn a = Inr ?a"
    using concat_batches [of "read_batches E" q bn "a\<lparr>ag_users := sketch us'\<rparr>" "pq_groups f"] env_okD(6) [OF assms(1)]
    by (simp add: aggregateSegment_def assms(2) mf file_rows_def env_okD(9) [OF assms(1)])
  have "agg_ok bn (rows @ ?R) ?a" using agg_rows_ok [of bn rows "a\<lparr>ag_users := sketch us'\<rparr>" q "file_rows f"] assms(5) by (simp add: agg_ok_users)
  moreover have "ag_users ?a = sketch (us' @ user_ids ?R)" by (rule agg_rows_users) simp
  then have "ag_users ?a = sketch (user_ids (rows @ ?R))" using sketch_cong [OF us'] by simp
  moreover have "seg_rows disk m = file_rows f" by (simp add: seg_rows_def assms(2))
  ultimately show ?thesis using seg by simp
qed

lemma agg_segs_ok:
  assumes "env_ok E"
  shows "(\<And>m. m \<in> set ms \<Longrightarrow> \<exists>f. map_of disk (sg_path m) = Some f \<and> file_ok m f) \<Longrightarrow> agg_ok bn rows a \<Longrightarrow>
    ag_users a = sketch (user_ids rows) \<Longrightarrow>
    \<exists>a'. agg_segs E disk q bn ms a = Inr a' \<and> agg_ok bn (rows @ filter (q_match q) (concat (map (seg_rows disk) ms))) a' \<and>
      ag_users a' = sketch (user_ids (rows @ filter (q_match q) (concat (map (seg_rows disk) ms))))"
proof (induction ms arbitrary: rows a)
  case Nil
  then show ?case by simp
next
  case (Cons m ms)
  from Cons.prems(1) obtain f where f: "map_of disk (sg_path m) = Some f" "file_ok m f" by (meson list.set_intros(1))
  show ?case
  proof (cases "segmentMayMatch q m")
    case False
    then have "filter (q_match q) (seg_rows disk m) = []"
      using segmentMayMatch_sound [OF f(2)] by (simp add: seg_rows_def f(1) filter_empty_conv)
    with False Cons.IH [OF _ Cons.prems(2,3)] Cons.prems(1) show ?thesis by simp
  next
    case True
    from aggregateSegment_ok [OF assms f True Cons.prems(2,3)] obtain a' where a': "aggregateSegment E disk m q bn a = Inr a'"
      "agg_ok bn (rows @ filter (q_match q) (seg_rows disk m)) a'"
      "ag_users a' = sketch (user_ids (rows @ filter (q_match q) (seg_rows disk m)))" by blast
    from Cons.IH [OF _ a'(2,3)] Cons.prems(1) True a'(1) show ?thesis by simp
  qed
qed

lemma Aggregate_run:
  assumes "env_ok E" and "store_ok disk st" and "bn = (if bucketNanos \<le> 0 then hourNanos else bucketNanos)"
  shows "\<exists>a. agg_segs E disk q bn (s_segs st) (agg_rows q bn agg_empty (map lite (buf st))) = Inr a \<and>
    agg_ok bn (filter (q_match q) (all_rows disk st)) a \<and> ag_users a = sketch (user_ids (filter (q_match q) (all_rows disk st)))"
proof -
  have "ag_users agg_empty = sketch []" by (simp add: agg_empty_def sketch_def)
  from agg_rows_users [OF this, of q bn "buf st"] agg_rows_ok [OF agg_ok_empty, of bn q "buf st"]
  show ?thesis using agg_segs_ok [OF assms(1), of "s_segs st" disk bn "filter (q_match q) (buf st)"] assms(2)
    by (simp add: store_ok_def all_rows_def)
qed

section \<open>Rankings\<close>

definition occurs :: "(Event \<Rightarrow> 'k) \<Rightarrow> Event list \<Rightarrow> 'k \<Rightarrow> int" where
  "occurs key rows k = int (length (filter (\<lambda>e. key e = k) rows))"

text \<open>The \<open>n\<close> most frequent non-empty values, with their counts, most frequent first.\<close>

definition top_ok :: "nat \<Rightarrow> (Event \<Rightarrow> string) \<Rightarrow> Event list \<Rightarrow> (string \<times> int) list \<Rightarrow> bool" where
  "top_ok n key rows kvs \<longleftrightarrow> length kvs \<le> n \<and> sorted_wrt (\<lambda>a b. snd b \<le> snd a) kvs \<and>
     (\<forall>(k, c) \<in> set kvs. k \<noteq> [] \<and> c = occurs key rows k \<and> 0 < c) \<and>
     (\<forall>k. k \<noteq> [] \<longrightarrow> 0 < occurs key rows k \<longrightarrow> k \<notin> fst ` set kvs \<longrightarrow>
        length kvs = n \<and> (\<forall>(k', c) \<in> set kvs. occurs key rows k \<le> c))"

lemma top_kvs_ok:
  assumes "counts key rows m"
  shows "top_ok n key rows (top_kvs n m)"
proof -
  let ?s = "sort_key (\<lambda>(k, c). (- c, k)) (filter (\<lambda>(k, c). k \<noteq> []) m)"
  have mem: "(k, c) \<in> set ?s \<longleftrightarrow> k \<noteq> [] \<and> c = occurs key rows k \<and> 0 < c" for k c
    using counts_mem [OF assms, of k c] by (auto simp: occurs_def)
  have "sorted_wrt (\<lambda>a b. (\<lambda>(k, c). (- c, k)) a \<le> (\<lambda>(k, c). (- c, k)) b) ?s"
    using sorted_sort_key [of "\<lambda>(k, c). (- c, k)" "filter (\<lambda>(k, c). k \<noteq> []) m"] by (simp add: sorted_map)
  then have sorted: "sorted_wrt (\<lambda>a b. snd b \<le> snd a) ?s"
    by (rule sorted_wrt_mono_rel [rotated]) (auto simp: less_eq_prod_def split: prod.splits)
  have "sorted_wrt (\<lambda>a b. snd b \<le> snd a) (take n ?s @ drop n ?s)" using sorted by simp
  then have sp: "sorted_wrt (\<lambda>a b. snd b \<le> snd a) (take n ?s)" "\<forall>a \<in> set (take n ?s). \<forall>b \<in> set (drop n ?s). snd b \<le> snd a"
    unfolding sorted_wrt_append by blast+
  have top: "top_kvs n m = take n ?s" by (simp add: top_kvs_def)
  have listed: "\<forall>(k, c) \<in> set (take n ?s). k \<noteq> [] \<and> c = occurs key rows k \<and> 0 < c"
    using mem by (auto dest: in_set_takeD)
  have rest: "length (take n ?s) = n \<and> (\<forall>(k', c) \<in> set (take n ?s). occurs key rows k \<le> c)"
    if "k \<noteq> []" "0 < occurs key rows k" "k \<notin> fst ` set (take n ?s)" for k
  proof -
    have "(k, occurs key rows k) \<in> set ?s" using that(1,2) mem [of k "occurs key rows k"] by blast
    moreover have "(k, occurs key rows k) \<notin> set (take n ?s)" using that(3) by force
    ultimately have d: "(k, occurs key rows k) \<in> set (drop n ?s)" by (metis Un_iff append_take_drop_id set_append)
    then have "n < length ?s" by (metis drop_eq_Nil2 empty_iff empty_set not_le)
    moreover have "occurs key rows k \<le> snd x" if "x \<in> set (take n ?s)" for x using sp(2) d that by (metis snd_conv)
    ultimately show ?thesis by (auto simp: min_def)
  qed
  have "length (take n ?s) \<le> n" by simp
  with sp(1) listed rest show ?thesis unfolding top_ok_def top by blast
qed

section \<open>Properties\<close>

text \<open>C32. An aggregate is the aggregate of the matching rows: on a well-formed store it succeeds; the total is their number; the
  buckets are in order of time, list each bucket once and count exactly the rows that fall into it; each ranking lists the most frequent
  values with their exact counts, and leaves out a value only when it is full of values at least as frequent; the
  number of users is the estimate from the sketch of exactly the users of the matching rows, whether their sketches came from
  footers or from rows.\<close>

theorem Aggregate_exact:
  assumes "env_ok E" and "store_ok disk st"
    and "R = filter (q_match q) (all_rows disk st)"
    and "bn = (if bucketNanos \<le> 0 then hourNanos else bucketNanos)" and "n = nat (if topN \<le> 0 \<or> 50 < topN then 10 else topN)"
  shows "\<exists>res lv rl en fp. Aggregate E estimate disk st q bucketNanos topN = Inr res \<and> Total res = int (length R) \<and>
    sorted (map fst (Buckets res)) \<and> distinct (map fst (Buckets res)) \<and>
    (\<forall>b c. (b, c) \<in> set (Buckets res) \<longleftrightarrow> c = occurs (\<lambda>e. bucket_of bn (ev_Timestamp e)) R b \<and> 0 < c) \<and>
    TopBy res = [(''level'', lv), (''release'', rl), (''environment'', en), (''fingerprint'', fp)] \<and>
    top_ok n ev_Level R lv \<and> top_ok n ev_Release R rl \<and> top_ok n ev_Environment R en \<and> top_ok n ev_Fingerprint R fp \<and>
    UniqueUsers res = estimate (sketch (user_ids R))"
proof -
  from Aggregate_run [OF assms(1,2,4), of q] obtain a where
    a: "agg_segs E disk q bn (s_segs st) (agg_rows q bn agg_empty (map lite (buf st))) = Inr a" "agg_ok bn R a" "ag_users a = sketch (user_ids R)"
    unfolding assms(3) by blast
  have top: "top_ok n ev_Level R (top_kvs n (ag_level a))" "top_ok n ev_Release R (top_kvs n (ag_release a))"
    "top_ok n ev_Environment R (top_kvs n (ag_environment a))" "top_ok n ev_Fingerprint R (top_kvs n (ag_fingerprint a))"
    and tot: "ag_total a = int (length R)"
    using a(2) by (simp_all add: agg_ok_def top_kvs_ok)
  have agg: "Aggregate E estimate disk st q bucketNanos topN =
      Inr \<lparr>Total = ag_total a, Buckets = sort_key fst (ag_buckets a),
           TopBy = [(''level'', top_kvs n (ag_level a)), (''release'', top_kvs n (ag_release a)),
                    (''environment'', top_kvs n (ag_environment a)), (''fingerprint'', top_kvs n (ag_fingerprint a))],
           UniqueUsers = estimate (ag_users a)\<rparr>"
    unfolding Aggregate_def Let_def assms(4) [symmetric] assms(5) [symmetric] a(1) by simp
  have b: "counts (\<lambda>e. bucket_of bn (ev_Timestamp e)) R (ag_buckets a)" using a(2) by (simp add: agg_ok_def)
  then have "distinct (map fst (ag_buckets a))" by (simp add: counts_def)
  moreover have "mset (map fst (sort_key fst (ag_buckets a))) = mset (map fst (ag_buckets a))" by simp
  ultimately have "distinct (map fst (sort_key fst (ag_buckets a)))" using mset_eq_imp_distinct_iff by blast
  moreover have "(b, c) \<in> set (sort_key fst (ag_buckets a)) \<longleftrightarrow> c = occurs (\<lambda>e. bucket_of bn (ev_Timestamp e)) R b \<and> 0 < c" for b c
    using counts_mem [OF b, of b c] by (simp add: occurs_def)
  ultimately show ?thesis
    using top unfolding agg by (simp add: a(3) tot)
qed

theorem Aggregate_exact_witness:
  "\<exists>res. Aggregate std_env length [] sample_store sample_query 10 0 = Inr res \<and> Total res = 1 \<and> UniqueUsers res = 4096"
proof -
  have "store_ok [] sample_store" by (simp add: store_ok_def sample_store_def)
  moreover have "filter (q_match sample_query) (all_rows [] sample_store) = [sample_event 7 5 ''u'']"
    by (simp add: all_rows_def sample_store_def sample_query_def sample_event_def q_match_def)
  ultimately show ?thesis
    using Aggregate_exact [OF std_env_ok, of "[]" sample_store _ sample_query 10 10 10 0 length, OF _ refl] by (auto simp: hllM_def)
qed

end
