(* ===== verification/Json.thy ===== *)
theory Json
  imports Go_Text
begin

text \<open>
  What the program uses of \<open>encoding/json\<close>: the value grammar of the scanner with its
  nesting limit, unquoting of strings (escapes, surrogate pairs, repair of invalid UTF-8), and
  decoding into structs: case-folded field names, \<open>null\<close> as no change, a type
  mismatch remembered while decoding goes on, slices reusing their old elements. A
  \<open>json.RawMessage\<close> is the value it holds. The parser takes fuel; \<open>p_value_fuel\<close>
  shows that the fuel given is enough, and \<open>p_value_print\<close> that printed values are read back.
\<close>

section \<open>Tokens\<close>

definition json_ws :: "char \<Rightarrow> bool" where
  "json_ws c \<longleftrightarrow> c = CHR '' '' \<or> c = CHR 0x09 \<or> c = CHR 0x0D \<or> c = CHR 0x0A"

definition skip_ws :: "string \<Rightarrow> string" where
  "skip_ws s = dropWhile json_ws s"

definition hex_val :: "char \<Rightarrow> nat option" where
  "hex_val c =
     (let n = of_char c in
      if 48 \<le> n \<and> n \<le> 57 then Some (n - 48)
      else if 97 \<le> n \<and> n \<le> 102 then Some (n - 87)
      else if 65 \<le> n \<and> n \<le> 70 then Some (n - 55)
      else None)"

text \<open>A string is a sequence of bytes and of \<open>\u\<close> code units.\<close>

datatype sunit = U8 char | U16 nat

definition esc_char :: "char \<Rightarrow> char option" where
  "esc_char e = map_of [(CHR 0x22, CHR 0x22), (CHR 0x5C, CHR 0x5C), (CHR ''/'', CHR ''/''), (CHR ''b'', CHR 0x08),
     (CHR ''f'', CHR 0x0C), (CHR ''n'', CHR 0x0A), (CHR ''r'', CHR 0x0D), (CHR ''t'', CHR 0x09)] e"

fun hex4 :: "string \<Rightarrow> nat option" where
  "hex4 [a, b, c, d] =
     (case (hex_val a, hex_val b, hex_val c, hex_val d) of
        (Some w, Some x, Some y, Some z) \<Rightarrow> Some (((w * 16 + x) * 16 + y) * 16 + z)
      | _ \<Rightarrow> None)"
| "hex4 _ = None"

definition cons_unit :: "sunit \<Rightarrow> (sunit list \<times> string) option \<Rightarrow> (sunit list \<times> string) option" where
  "cons_unit u r = map_option (\<lambda>(us, s). (u # us, s)) r"

function lex_str :: "string \<Rightarrow> (sunit list \<times> string) option" where
  "lex_str s =
     (case s of
        [] \<Rightarrow> None
      | c # t \<Rightarrow>
          if c = CHR 0x22 then Some ([], t)
          else if c = CHR 0x5C then
            (case t of
               [] \<Rightarrow> None
             | e # t' \<Rightarrow>
                 if e = CHR ''u'' then (case hex4 (take 4 t') of None \<Rightarrow> None | Some n \<Rightarrow> cons_unit (U16 n) (lex_str (drop 4 t')))
                 else (case esc_char e of None \<Rightarrow> None | Some c' \<Rightarrow> cons_unit (U8 c') (lex_str t')))
          else if (of_char c :: nat) < 32 then None
          else cons_unit (U8 c) (lex_str t))"
  by pat_completeness auto
termination
  by (relation "measure length") auto

declare lex_str.simps [simp del]

definition unit_bytes :: "sunit list \<Rightarrow> nat list" where
  "unit_bytes us = map (\<lambda>u. case u of U8 c \<Rightarrow> of_char c | U16 n \<Rightarrow> 0) (takeWhile (\<lambda>u. case u of U8 _ \<Rightarrow> True | U16 _ \<Rightarrow> False) us)"

function unquote :: "sunit list \<Rightarrow> string" where
  "unquote us =
     (case us of
        [] \<Rightarrow> []
      | U16 r # us1 \<Rightarrow>
          if 55296 \<le> r \<and> r < 57344 then
            (case us1 of
               U16 r2 # us2 \<Rightarrow>
                 if r < 56320 \<and> 56320 \<le> r2 \<and> r2 < 57344
                 then utf8_enc (65536 + (r - 55296) * 1024 + (r2 - 56320)) @ unquote us2
                 else rune_error @ unquote us1
             | _ \<Rightarrow> rune_error @ unquote us1)
          else utf8_enc r @ unquote us1
      | U8 c # us1 \<Rightarrow>
          if (of_char c :: nat) < 128 then c # unquote us1
          else
            let n = utf8_len (unit_bytes us) in
            if n = 0 then rune_error @ unquote us1
            else map (\<lambda>u. case u of U8 c \<Rightarrow> c | U16 _ \<Rightarrow> CHR 0x00) (take n us) @ unquote (drop n us))"
  by pat_completeness auto
termination
  by (relation "measure length") auto

declare unquote.simps [simp del]

definition p_string :: "string \<Rightarrow> (string \<times> string) option" where
  "p_string s = map_option (\<lambda>(us, rest). (unquote us, rest)) (lex_str s)"

text \<open>Numbers keep their text.\<close>

definition digits :: "string \<Rightarrow> string \<times> string" where
  "digits s = (takeWhile is_digit s, dropWhile is_digit s)"

definition num_int :: "string \<Rightarrow> (string \<times> string) option" where
  "num_int s =
     (case s of
        [] \<Rightarrow> None
      | c # t \<Rightarrow> if c = CHR ''0'' then Some ([c], t) else if is_digit c then Some (digits s) else None)"

definition num_frac :: "string \<Rightarrow> (string \<times> string) option" where
  "num_frac s =
     (case s of
        c # t \<Rightarrow> if c = CHR ''.'' then (case digits t of (ds, r) \<Rightarrow> if ds = [] then None else Some (c # ds, r)) else Some ([], s)
      | [] \<Rightarrow> Some ([], s))"

definition num_exp :: "string \<Rightarrow> (string \<times> string) option" where
  "num_exp s =
     (case s of
        c # t \<Rightarrow>
          if c = CHR ''e'' \<or> c = CHR ''E'' then
            (let sg = (case t of g # _ \<Rightarrow> if g = CHR ''+'' \<or> g = CHR ''-'' then [g] else [] | [] \<Rightarrow> []) in
             case digits (drop (length sg) t) of (ds, r) \<Rightarrow> if ds = [] then None else Some (c # sg @ ds, r))
          else Some ([], s)
      | [] \<Rightarrow> Some ([], s))"

definition p_num :: "string \<Rightarrow> (string \<times> string) option" where
  "p_num s =
     (let sg = (case s of c # _ \<Rightarrow> if c = CHR ''-'' then [c] else [] | [] \<Rightarrow> []) in
      case num_int (drop (length sg) s) of
        None \<Rightarrow> None
      | Some (i, s1) \<Rightarrow>
          (case num_frac s1 of
             None \<Rightarrow> None
           | Some (f, s2) \<Rightarrow> (case num_exp s2 of None \<Rightarrow> None | Some (e, s3) \<Rightarrow> Some (sg @ i @ f @ e, s3))))"

section \<open>Values\<close>

datatype json = JNull | JBool bool | JNum string | JStr string | JArr "json list" | JObj "(string \<times> json) list"

text \<open>Nesting deeper than \<open>maxNestingDepth\<close> is an error.\<close>

definition maxNestingDepth :: nat where "maxNestingDepth = 10000"

definition p_lit :: "string \<Rightarrow> json \<Rightarrow> string \<Rightarrow> (json \<times> string) option" where
  "p_lit w v s = (if take (length w) s = w then Some (v, drop (length w) s) else None)"

fun p_value :: "nat \<Rightarrow> nat \<Rightarrow> string \<Rightarrow> (json \<times> string) option"
and p_elems :: "nat \<Rightarrow> nat \<Rightarrow> string \<Rightarrow> (json list \<times> string) option"
and p_members :: "nat \<Rightarrow> nat \<Rightarrow> string \<Rightarrow> ((string \<times> json) list \<times> string) option" where
  "p_value 0 d s = None"
| "p_value (Suc n) d s =
     (case skip_ws s of
        [] \<Rightarrow> None
      | c # t \<Rightarrow>
          if c = CHR 0x22 then map_option (\<lambda>(x, r). (JStr x, r)) (p_string t)
          else if c = CHR ''['' then
            (if d = 0 then None
             else case skip_ws t of
               [] \<Rightarrow> None
             | c2 # t2 \<Rightarrow> if c2 = CHR '']'' then Some (JArr [], t2) else map_option (\<lambda>(vs, r). (JArr vs, r)) (p_elems n (d - 1) t))
          else if c = CHR ''{'' then
            (if d = 0 then None
             else case skip_ws t of
               [] \<Rightarrow> None
             | c2 # t2 \<Rightarrow> if c2 = CHR ''}'' then Some (JObj [], t2) else map_option (\<lambda>(ms, r). (JObj ms, r)) (p_members n (d - 1) t))
          else if c = CHR ''t'' then p_lit ''true'' (JBool True) (c # t)
          else if c = CHR ''f'' then p_lit ''false'' (JBool False) (c # t)
          else if c = CHR ''n'' then p_lit ''null'' JNull (c # t)
          else map_option (\<lambda>(x, r). (JNum x, r)) (p_num (c # t)))"
| "p_elems 0 d s = None"
| "p_elems (Suc n) d s =
     (case p_value n d s of
        None \<Rightarrow> None
      | Some (v, s1) \<Rightarrow>
          (case skip_ws s1 of
             [] \<Rightarrow> None
           | c # t \<Rightarrow>
               if c = CHR '']'' then Some ([v], t)
               else if c = CHR '','' then map_option (\<lambda>(vs, r). (v # vs, r)) (p_elems n d t)
               else None))"
| "p_members 0 d s = None"
| "p_members (Suc n) d s =
     (case skip_ws s of
        [] \<Rightarrow> None
      | q # s0 \<Rightarrow>
          if q \<noteq> CHR 0x22 then None
          else case p_string s0 of
            None \<Rightarrow> None
          | Some (k, s1) \<Rightarrow>
              (case skip_ws s1 of
                 [] \<Rightarrow> None
               | c # s2 \<Rightarrow>
                   if c \<noteq> CHR '':'' then None
                   else case p_value n d s2 of
                     None \<Rightarrow> None
                   | Some (v, s3) \<Rightarrow>
                       (case skip_ws s3 of
                          [] \<Rightarrow> None
                        | c # t \<Rightarrow>
                            if c = CHR ''}'' then Some ([(k, v)], t)
                            else if c = CHR '','' then map_option (\<lambda>(ms, r). ((k, v) # ms, r)) (p_members n d t)
                            else None)))"

definition json_parse :: "string \<Rightarrow> json option" where
  "json_parse s =
     (case p_value (2 * length s + 2) maxNestingDepth s of
        None \<Rightarrow> None
      | Some (v, r) \<Rightarrow> if skip_ws r = [] then Some v else None)"

section \<open>Decoding into Go values\<close>

text \<open>
  A decoder takes a value and what the variable held, and gives what it holds afterwards and whether
  no type error was met.
\<close>

type_synonym 'a dec = "json \<Rightarrow> 'a \<Rightarrow> 'a \<times> bool"

definition dec_string :: "string dec" where
  "dec_string j old = (case j of JStr s \<Rightarrow> (s, True) | JNull \<Rightarrow> (old, True) | _ \<Rightarrow> (old, False))"

definition ptr_new :: "'a \<Rightarrow> 'a option \<Rightarrow> 'a option" where
  "ptr_new z old = (case old of None \<Rightarrow> Some z | Some x \<Rightarrow> Some x)"

definition dec_int64_ptr :: "int option dec" where
  "dec_int64_ptr j old =
     (case j of
        JNull \<Rightarrow> (None, True)
      | JNum s \<Rightarrow> (case parseInt64 s of Some n \<Rightarrow> (Some n, True) | None \<Rightarrow> (ptr_new 0 old, False))
      | _ \<Rightarrow> (ptr_new 0 old, False))"

definition dec_bool_ptr :: "bool option dec" where
  "dec_bool_ptr j old = (case j of JNull \<Rightarrow> (None, True) | JBool b \<Rightarrow> (Some b, True) | _ \<Rightarrow> (ptr_new False old, False))"

definition dec_raw :: "json option dec" where
  "dec_raw j old = (Some j, True)"

text \<open>A slice is its length and its backing array; decoding reuses the elements that are there.\<close>

type_synonym 'a slice = "nat \<times> 'a list"

definition elems :: "'a slice \<Rightarrow> 'a list" where
  "elems s = take (fst s) (snd s)"

fun dec_elems :: "'a dec \<Rightarrow> 'a \<Rightarrow> json list \<Rightarrow> 'a list \<Rightarrow> 'a list \<times> bool" where
  "dec_elems f z [] back = (back, True)"
| "dec_elems f z (j # js) back =
     (case f j (case back of [] \<Rightarrow> z | x # _ \<Rightarrow> x) of
        (v, ok) \<Rightarrow> (case dec_elems f z js (drop 1 back) of (vs, ok') \<Rightarrow> (v # vs, ok \<and> ok')))"

definition dec_slice :: "'a dec \<Rightarrow> 'a \<Rightarrow> 'a slice dec" where
  "dec_slice f z j old =
     (case j of
        JNull \<Rightarrow> ((0, []), True)
      | JArr [] \<Rightarrow> ((0, []), True)
      | JArr js \<Rightarrow> (case dec_elems f z js (snd old) of (vs, ok) \<Rightarrow> ((length js, vs), ok))
      | _ \<Rightarrow> (old, False))"

text \<open>
  Field names match up to simple case folding; among runes that fold to ASCII letters are the long s
  and the Kelvin sign.
\<close>

definition to_upper_char :: "char \<Rightarrow> char" where
  "to_upper_char c = (if of_char c \<ge> (97 :: nat) \<and> of_char c \<le> (122 :: nat) then char_of ((of_char c :: nat) - 32) else c)"

fun fold_name :: "string \<Rightarrow> string" where
  "fold_name [] = []"
| "fold_name (a # s) =
     (if a = CHR 0xC5 \<and> take 1 s = [CHR 0xBF] then CHR ''S'' # fold_name (drop 1 s)
      else if a = CHR 0xE2 \<and> take 2 s = [CHR 0x84, CHR 0xAA] then CHR ''K'' # fold_name (drop 2 s)
      else to_upper_char a # fold_name s)"

fun dec_members :: "(string \<times> 'a dec) list \<Rightarrow> (string \<times> json) list \<Rightarrow> 'a \<Rightarrow> 'a \<times> bool" where
  "dec_members fields [] st = (st, True)"
| "dec_members fields ((k, v) # ms) st =
     (case find (\<lambda>(n, f). fold_name n = fold_name k) fields of
        None \<Rightarrow> dec_members fields ms st
      | Some (n, f) \<Rightarrow> (case f v st of (st1, ok) \<Rightarrow> (case dec_members fields ms st1 of (st2, ok') \<Rightarrow> (st2, ok \<and> ok'))))"

definition dec_struct :: "(string \<times> 'a dec) list \<Rightarrow> 'a dec" where
  "dec_struct fields j old =
     (case j of JObj ms \<Rightarrow> dec_members fields ms old | JNull \<Rightarrow> (old, True) | _ \<Rightarrow> (old, False))"

text \<open>A decoder for one field of a record.\<close>

definition at_field :: "('a \<Rightarrow> 'f) \<Rightarrow> (('f \<Rightarrow> 'f) \<Rightarrow> 'a \<Rightarrow> 'a) \<Rightarrow> 'f dec \<Rightarrow> 'a dec" where
  "at_field get upd f j st = (case f j (get st) of (v, ok) \<Rightarrow> (upd (\<lambda>_. v) st, ok))"

text \<open>\<open>json.Unmarshal\<close>: nothing is changed when the text is not valid.\<close>

definition unmarshal :: "'a dec \<Rightarrow> string \<Rightarrow> 'a \<Rightarrow> 'a \<times> bool" where
  "unmarshal f s old = (case json_parse s of None \<Rightarrow> (old, False) | Some j \<Rightarrow> f j old)"

section \<open>The parser consumes its input\<close>

lemma length_skip_ws: "length (skip_ws s) \<le> length s"
  by (simp add: skip_ws_def length_dropWhile_le)

lemma skip_ws_Cons: "skip_ws s = c # t \<Longrightarrow> length t < length s"
  using length_skip_ws [of s] by simp

lemma cons_unit_Some: "cons_unit u r = Some (us, s) \<Longrightarrow> \<exists>us'. r = Some (us', s) \<and> us = u # us'"
  by (auto simp: cons_unit_def)

lemma lex_str_shorter: "lex_str s = Some (us, r) \<Longrightarrow> length r < length s"
proof (induction s arbitrary: us rule: lex_str.induct)
  case (1 s)
  show ?case
  proof (cases s)
    case Nil
    with 1(4) show ?thesis by (simp add: lex_str.simps)
  next
    case (Cons c t)
    show ?thesis
      using 1(4) Cons 1(1) [OF Cons] 1(2) [OF Cons] 1(3) [OF Cons]
      by (subst (asm) lex_str.simps) (force split: if_splits list.splits option.splits dest!: cons_unit_Some simp: less_Suc_eq_le)
  qed
qed

lemma p_string_shorter: "p_string s = Some (x, r) \<Longrightarrow> length r < length s"
  by (auto simp: p_string_def dest: lex_str_shorter)

lemma digits_split: "digits s = (a, b) \<Longrightarrow> s = a @ b"
  by (auto simp: digits_def)

lemma num_int_split: "num_int s = Some (a, b) \<Longrightarrow> s = a @ b \<and> a \<noteq> []"
  by (auto simp: num_int_def digits_def split: list.splits if_splits)

lemma num_frac_split: "num_frac s = Some (a, b) \<Longrightarrow> s = a @ b"
  by (auto simp: num_frac_def digits_def split: list.splits if_splits)

lemma num_exp_split: "num_exp s = Some (a, b) \<Longrightarrow> s = a @ b"
  by (auto simp: num_exp_def digits_def Let_def split: list.splits if_splits)

lemma p_num_shorter: "p_num s = Some (x, r) \<Longrightarrow> length r < length s"
proof -
  assume p: "p_num s = Some (x, r)"
  let ?sg = "case s of c # _ \<Rightarrow> if c = CHR ''-'' then [c] else [] | [] \<Rightarrow> []"
  from p obtain i f e s1 s2 where "num_int (drop (length ?sg) s) = Some (i, s1)" "num_frac s1 = Some (f, s2)" "num_exp s2 = Some (e, r)"
    by (auto simp: p_num_def Let_def split: option.splits)
  then have "drop (length ?sg) s = i @ f @ e @ r" "i \<noteq> []" by (auto dest!: num_int_split num_frac_split num_exp_split)
  then have "length (drop (length ?sg) s) > length r" by simp
  then show "length r < length s" by simp
qed

lemma p_lit_shorter: "p_lit w v s = Some (x, r) \<Longrightarrow> w \<noteq> [] \<Longrightarrow> length r < length s"
  by (cases s) (auto simp: p_lit_def split: if_splits)

lemma shorter_all:
  "(\<forall>d s v r. p_value n d s = Some (v, r) \<longrightarrow> length r < length s) \<and>
   (\<forall>d s vs r. p_elems n d s = Some (vs, r) \<longrightarrow> length r < length s) \<and>
   (\<forall>d s ms r. p_members n d s = Some (ms, r) \<longrightarrow> length r < length s)"
proof (induction n)
  case (Suc n)
  then have IH: "p_value n d s = Some (v, r) \<Longrightarrow> length r < length s" "p_elems n d s = Some (vs, r) \<Longrightarrow> length r < length s"
    "p_members n d s = Some (ms, r) \<Longrightarrow> length r < length s" for d s v vs ms r by blast+
  have "length r < length s" if "p_value (Suc n) d s = Some (v, r)" for d s v r
    using that by (auto split: list.splits if_splits dest!: IH p_string_shorter skip_ws_Cons p_lit_shorter p_num_shorter)
  moreover have "length r < length s" if "p_elems (Suc n) d s = Some (vs, r)" for d s vs r
    using that by (auto split: list.splits if_splits option.splits dest!: IH skip_ws_Cons)
  moreover have "length r < length s" if "p_members (Suc n) d s = Some (ms, r)" for d s ms r
    using that by (auto split: list.splits if_splits option.splits dest!: IH skip_ws_Cons p_string_shorter)
  ultimately show ?case by blast
qed simp

lemma shorter:
  "p_value n d s = Some (v, r) \<Longrightarrow> length r < length s"
  "p_elems n d s = Some (vs, r) \<Longrightarrow> length r < length s"
  "p_members n d s = Some (ms, r) \<Longrightarrow> length r < length s"
  using shorter_all [of n] by blast+

text \<open>Fuel beyond twice the length of the input changes nothing.\<close>

lemma fuel_step:
  "(\<forall>d s. 2 * length s < n \<longrightarrow> p_value (Suc n) d s = p_value n d s) \<and>
   (\<forall>d s. 2 * length s + 1 < n \<longrightarrow> p_elems (Suc n) d s = p_elems n d s) \<and>
   (\<forall>d s. 2 * length s + 1 < n \<longrightarrow> p_members (Suc n) d s = p_members n d s)"
proof (induction n)
  case (Suc n)
  then have IH: "2 * length s < n \<Longrightarrow> p_value (Suc n) d s = p_value n d s"
    "2 * length s + 1 < n \<Longrightarrow> p_elems (Suc n) d s = p_elems n d s"
    "2 * length s + 1 < n \<Longrightarrow> p_members (Suc n) d s = p_members n d s" for d s by blast+
  have "p_value (Suc (Suc n)) d s = p_value (Suc n) d s" if "2 * length s < Suc n" for d s
    using that IH(2,3) [of "tl (skip_ws s)" "d - 1"] length_skip_ws [of s]
    unfolding p_value.simps(2) [of "Suc n"] p_value.simps(2) [of n]
    by (auto simp del: p_value.simps p_elems.simps p_members.simps split: list.splits)
  moreover have "p_elems (Suc (Suc n)) d s = p_elems (Suc n) d s" if "2 * length s + 1 < Suc n" for d s
  proof -
    have v: "p_value (Suc n) d s = p_value n d s" using that by (intro IH(1)) simp
    have "p_elems (Suc n) d t = p_elems n d t" if "p_value n d s = Some (w, s1)" "skip_ws s1 = c # t" for w s1 c t
      using that shorter(1) [OF that(1)] skip_ws_Cons [OF that(2)] \<open>2 * length s + 1 < Suc n\<close> by (intro IH(2)) linarith
    then show ?thesis unfolding p_elems.simps(2) [of "Suc n"] p_elems.simps(2) [of n]
      by (auto simp del: p_value.simps p_elems.simps p_members.simps simp: v split: option.splits list.splits)
  qed
  moreover have "p_members (Suc (Suc n)) d s = p_members (Suc n) d s" if l: "2 * length s + 1 < Suc n" for d s
  proof -
    have v: "p_value (Suc n) d s2 = p_value n d s2" if "skip_ws s = q # s0" "p_string s0 = Some (k, s1)" "skip_ws s1 = c # s2" for q s0 k s1 c s2
      using that(1) l skip_ws_Cons [OF that(1)] p_string_shorter [OF that(2)] skip_ws_Cons [OF that(3)] by (intro IH(1)) linarith
    have "p_members (Suc n) d t = p_members n d t"
      if "skip_ws s = q # s0" "p_string s0 = Some (k, s1)" "skip_ws s1 = c # s2" "p_value n d s2 = Some (w, s3)" "skip_ws s3 = c' # t" for q s0 k s1 c s2 w s3 c' t
      using l skip_ws_Cons [OF that(1)] p_string_shorter [OF that(2)] skip_ws_Cons [OF that(3)] shorter(1) [OF that(4)] skip_ws_Cons [OF that(5)]
      by (intro IH(3)) linarith
    with v show ?thesis unfolding p_members.simps(2) [of "Suc n"] p_members.simps(2) [of n]
      by (auto simp del: p_value.simps p_elems.simps p_members.simps split: option.splits list.splits)
  qed
  ultimately show ?case by blast
qed simp

lemma p_value_fuel: "2 * length s < n \<Longrightarrow> p_value n d s = p_value (2 * length s + 2) d s"
proof -
  assume n: "2 * length s < n"
  have "p_value (Suc (2 * length s) + k) d s = p_value (Suc (2 * length s)) d s" for k
  proof (induction k)
    case (Suc k)
    then show ?case using fuel_step [of "Suc (2 * length s) + k"] by simp
  qed simp
  from this [of "n - Suc (2 * length s)"] this [of 1] n show ?thesis by simp
qed

section \<open>Printing and reading back\<close>

definition hex_digit :: "nat \<Rightarrow> char" where
  "hex_digit n = (if n < 10 then char_of (48 + n) else char_of (87 + n))"

definition print_char :: "char \<Rightarrow> string" where
  "print_char c =
     (if c = CHR 0x22 \<or> c = CHR 0x5C then [CHR 0x5C, c]
      else if (of_char c :: nat) < 32 then [CHR 0x5C, CHR ''u'', CHR ''0'', CHR ''0'', hex_digit (of_char c div 16), hex_digit (of_char c mod 16)]
      else [c])"

definition print_str :: "string \<Rightarrow> string" where
  "print_str s = CHR 0x22 # concat (map print_char s) @ [CHR 0x22]"

fun print_json :: "json \<Rightarrow> string"
and print_elems :: "json list \<Rightarrow> string"
and print_members :: "(string \<times> json) list \<Rightarrow> string" where
  "print_json JNull = ''null''"
| "print_json (JBool b) = (if b then ''true'' else ''false'')"
| "print_json (JNum s) = s"
| "print_json (JStr s) = print_str s"
| "print_json (JArr vs) = CHR ''['' # print_elems vs @ [CHR '']'']"
| "print_json (JObj ms) = CHR ''{'' # print_members ms @ [CHR ''}'']"
| "print_elems [] = []"
| "print_elems (v # vs) = print_json v @ (if vs = [] then [] else CHR '','' # print_elems vs)"
| "print_members [] = []"
| "print_members ((k, v) # ms) = print_str k @ CHR '':'' # print_json v @ (if ms = [] then [] else CHR '','' # print_members ms)"

text \<open>The values printed here: ASCII strings, integers, bounded nesting.\<close>

definition ascii :: "string \<Rightarrow> bool" where
  "ascii s \<longleftrightarrow> (\<forall>c \<in> set s. (of_char c :: nat) < 128)"

fun printable :: "nat \<Rightarrow> json \<Rightarrow> bool"
and printable_members :: "nat \<Rightarrow> (string \<times> json) list \<Rightarrow> bool" where
  "printable d (JNum s) = (\<exists>n. s = int_str n)"
| "printable d (JStr s) = ascii s"
| "printable d (JArr vs) = (0 < d \<and> (\<forall>v \<in> set vs. printable (d - 1) v))"
| "printable d (JObj ms) = (0 < d \<and> printable_members (d - 1) ms)"
| "printable d _ = True"
| "printable_members d [] = True"
| "printable_members d ((k, v) # ms) = (ascii k \<and> printable d v \<and> printable_members d ms)"

lemma hex_val_digit: "n < 16 \<Longrightarrow> hex_val (hex_digit n) = Some n"
  by (auto simp: hex_val_def hex_digit_def Let_def)

definition units :: "string \<Rightarrow> sunit list" where
  "units s = map (\<lambda>c. if (of_char c :: nat) < 32 then U16 (of_char c) else U8 c) s"

lemma lex_str_print:
  assumes "ascii s"
  shows "lex_str (concat (map print_char s) @ CHR 0x22 # rest) = Some (units s, rest)"
  using assms
proof (induction s)
  case Nil
  then show ?case by (simp add: lex_str.simps units_def)
next
  case (Cons c s)
  then have IH: "lex_str (concat (map print_char s) @ CHR 0x22 # rest) = Some (units s, rest)" and c: "(of_char c :: nat) < 128"
    by (simp_all add: ascii_def)
  consider "c = CHR 0x22 \<or> c = CHR 0x5C" | "c \<noteq> CHR 0x22" "c \<noteq> CHR 0x5C" "(of_char c :: nat) < 32" | "c \<noteq> CHR 0x22" "c \<noteq> CHR 0x5C" "\<not> (of_char c :: nat) < 32"
    by blast
  then show ?case
  proof cases
    case 1
    then show ?thesis using IH by (subst lex_str.simps) (auto simp: print_char_def esc_char_def cons_unit_def units_def)
  next
    case 2
    have "hex_val (CHR ''0'') = Some 0" by (simp add: hex_val_def Let_def)
    moreover have "(of_char c :: nat) div 16 < 16" "(of_char c :: nat) mod 16 < 16" using c by auto
    moreover have "(of_char c :: nat) div 16 * 16 + of_char c mod 16 = of_char c" by simp
    ultimately have "hex4 [CHR ''0'', CHR ''0'', hex_digit (of_char c div 16), hex_digit (of_char c mod 16)] = Some (of_char c)"
      by (simp add: hex_val_digit del: mod_mult_div_eq)
    with 2 IH show ?thesis by (subst lex_str.simps) (simp add: print_char_def cons_unit_def units_def)
  next
    case 3
    then show ?thesis using IH by (subst lex_str.simps) (simp add: print_char_def cons_unit_def units_def)
  qed
qed

lemma unquote_units: "ascii s \<Longrightarrow> unquote (units s) = s"
proof (induction s)
  case Nil
  then show ?case by (simp add: units_def unquote.simps)
next
  case (Cons c s)
  then show ?case by (subst unquote.simps) (simp add: units_def ascii_def utf8_enc_def)
qed

lemma p_string_print: "ascii s \<Longrightarrow> print_str s = CHR 0x22 # t \<Longrightarrow> p_string (t @ rest) = Some (s, rest)"
  using lex_str_print [of s rest] unquote_units [of s] by (auto simp: p_string_def print_str_def)

definition num_end :: "string \<Rightarrow> bool" where
  "num_end r \<longleftrightarrow> (case r of [] \<Rightarrow> True | c # _ \<Rightarrow> \<not> is_digit c \<and> c \<noteq> CHR ''.'' \<and> c \<noteq> CHR ''e'' \<and> c \<noteq> CHR ''E'')"

lemma dec_str_no_zero: "0 < n \<Longrightarrow> hd (dec_str n) \<noteq> CHR ''0''"
proof (induction n rule: dec_str.induct)
  case (1 n)
  show ?case
  proof (cases "n < 10")
    case True
    have "digit_char n \<noteq> CHR ''0''"
    proof
      assume "digit_char n = CHR ''0''"
      then have "n = digit_val (CHR ''0'')" using digit_char_props(2) [OF True] by simp
      with 1(2) show False by (simp add: digit_val_def)
    qed
    with True show ?thesis by (simp add: dec_str.simps [of n])
  next
    case False
    then have "hd (dec_str n) = hd (dec_str (n div 10))" by (simp add: dec_str.simps [of n])
    with 1(1) [OF False] False show ?thesis by simp
  qed
qed

lemma digits_dec_str: "num_end r \<Longrightarrow> digits (dec_str n @ r) = (dec_str n, r)"
proof -
  assume "num_end r"
  then have "takeWhile is_digit r = []" "dropWhile is_digit r = r" by (auto simp: num_end_def split: list.splits)
  moreover have "\<forall>c \<in> set (dec_str n). is_digit c" using dec_str_chars by blast
  ultimately show ?thesis by (simp add: digits_def)
qed

lemma num_int_dec_str: "num_end r \<Longrightarrow> num_int (dec_str n @ r) = Some (dec_str n, r)"
proof -
  assume r: "num_end r"
  obtain c t where c: "dec_str n = c # t" using dec_str_nonempty [of n] by (cases "dec_str n") auto
  show ?thesis
  proof (cases "n = 0")
    case True
    have "digit_char 0 = CHR ''0''" by code_simp
    with True show ?thesis by (simp add: dec_str.simps [of 0] num_int_def)
  next
    case False
    then have "c \<noteq> CHR ''0''" using dec_str_no_zero [of n] c by simp
    moreover have "is_digit c" using dec_str_chars [of c n] c by simp
    ultimately show ?thesis using digits_dec_str [OF r, of n] by (simp add: num_int_def c)
  qed
qed

lemma num_end_rest: "num_end r \<Longrightarrow> num_frac r = Some ([], r)" "num_end r \<Longrightarrow> num_exp r = Some ([], r)"
  by (auto simp: num_end_def num_frac_def num_exp_def split: list.splits)

lemma p_num_int_str: "num_end r \<Longrightarrow> p_num (int_str n @ r) = Some (int_str n, r)"
proof -
  assume r: "num_end r"
  obtain c t where c: "dec_str (nat n) = c # t" using dec_str_nonempty by (cases "dec_str (nat n)") auto
  then have "c \<noteq> CHR ''-''" using dec_str_chars [of c "nat n"] by (auto simp: is_digit_def)
  then have sg: "(case dec_str (nat n) @ r of c # _ \<Rightarrow> if c = CHR ''-'' then [c] else [] | [] \<Rightarrow> []) = []" by (simp add: c)
  show ?thesis
  proof (cases "n < 0")
    case True
    then show ?thesis using num_int_dec_str [OF r] num_end_rest [OF r] by (simp add: p_num_def int_str_def)
  next
    case False
    then show ?thesis using num_int_dec_str [OF r] num_end_rest [OF r] by (simp add: p_num_def int_str_def sg)
  qed
qed

lemma skip_ws_id: "\<not> json_ws c \<Longrightarrow> skip_ws (c # s) = c # s"
  by (simp add: skip_ws_def)

lemma int_str_hd: "\<exists>c t. int_str n = c # t \<and> (c = CHR ''-'' \<or> is_digit c)"
  using int_str_chars [of "hd (int_str n)" n] by (cases "int_str n") (auto simp: int_str_def split: if_splits)

text \<open>The first character of a printed value.\<close>

lemma print_json_hd:
  assumes "printable d v"
  obtains c t where "print_json v = c # t" and "\<not> json_ws c" and "c \<noteq> CHR '']''" and "c \<noteq> CHR ''}''"
proof -
  have dig: "\<not> json_ws c \<and> c \<noteq> CHR '']'' \<and> c \<noteq> CHR ''}''" if "c = CHR ''-'' \<or> is_digit c" for c
    using that by (auto simp: is_digit_def json_ws_def)
  show thesis
  proof (cases v)
    case (JNum s)
    with assms obtain n where "s = int_str n" by auto
    with JNum int_str_hd [of n] dig that show ?thesis by auto
  next
    case (JBool b)
    then show ?thesis by (cases b) (use that in \<open>auto simp: json_ws_def\<close>)
  qed (use that in \<open>auto simp: json_ws_def print_str_def\<close>)
qed

lemma num_end_sep [simp]: "num_end (CHR '','' # r)" "num_end (CHR '']'' # r)" "num_end (CHR ''}'' # r)" "num_end []"
  by (simp_all add: num_end_def is_digit_def)

lemma ws_sep [simp]: "\<not> json_ws CHR '',''" "\<not> json_ws CHR '']''" "\<not> json_ws CHR ''}''" "\<not> json_ws CHR '':''" "\<not> json_ws CHR 0x22"
  "\<not> json_ws CHR ''[''" "\<not> json_ws CHR ''{''"
  by (simp_all add: json_ws_def)

lemma p_value_num:
  assumes "num_end r" and "0 < n"
  shows "p_value n d (int_str k @ r) = Some (JNum (int_str k), r)"
proof -
  obtain c t where c: "int_str k = c # t" "c = CHR ''-'' \<or> is_digit c" using int_str_hd by blast
  then have ne: "\<not> json_ws c" "c \<noteq> CHR 0x22" "c \<noteq> CHR ''[''" "c \<noteq> CHR ''{''" "c \<noteq> CHR ''t''" "c \<noteq> CHR ''f''" "c \<noteq> CHR ''n''"
    by (auto simp: is_digit_def json_ws_def)
  obtain m where "n = Suc m" using assms(2) by (cases n) auto
  then show ?thesis using ne p_num_int_str [OF assms(1), of k] c by (simp add: skip_ws_id)
qed

lemma p_value_print:
  "printable d v \<Longrightarrow> num_end r \<Longrightarrow> 2 * length (print_json v @ r) < n \<Longrightarrow> p_value n d (print_json v @ r) = Some (v, r)"
  "vs \<noteq> [] \<Longrightarrow> \<forall>v \<in> set vs. printable d v \<Longrightarrow> 2 * length (print_elems vs @ CHR '']'' # r) + 1 < n \<Longrightarrow>
     p_elems n d (print_elems vs @ CHR '']'' # r) = Some (vs, r)"
  "ms \<noteq> [] \<Longrightarrow> printable_members d ms \<Longrightarrow> 2 * length (print_members ms @ CHR ''}'' # r) + 1 < n \<Longrightarrow>
     p_members n d (print_members ms @ CHR ''}'' # r) = Some (ms, r)"
proof (induction v and vs and ms arbitrary: d n r and d n r and d n r rule: print_json_print_elems_print_members.induct)
  case 1
  then obtain m where "n = Suc m" by (cases n) auto
  then show ?case by (simp add: skip_ws_def json_ws_def p_lit_def)
next
  case (2 b)
  then obtain m where "n = Suc m" by (cases n) auto
  then show ?case by (simp add: skip_ws_def json_ws_def p_lit_def)
next
  case (3 s)
  then show ?case using p_value_num by auto
next
  case (4 s)
  then obtain m where "n = Suc m" by (cases n) auto
  with 4 show ?case using p_string_print [of s _ r] by (simp add: print_str_def skip_ws_id)
next
  case (5 vs)
  then obtain m where n: "n = Suc m" by (cases n) auto
  show ?case
  proof (cases vs)
    case Nil
    with 5 n show ?thesis by (simp add: skip_ws_id)
  next
    case (Cons w ws)
    have "printable (d - 1) w" using 5(2) Cons by simp
    then obtain c t where "print_json w = c # t" "\<not> json_ws c" "c \<noteq> CHR '']''" by (rule print_json_hd)
    with Cons obtain t where c: "print_elems vs = c # t" "\<not> json_ws c" "c \<noteq> CHR '']''" by simp
    have "p_elems m (d - 1) (print_elems vs @ CHR '']'' # r) = Some (vs, r)" using 5 n Cons by (intro 5(1)) auto
    with c 5(2) n show ?thesis by (simp add: skip_ws_id)
  qed
next
  case (6 ms)
  then obtain m where n: "n = Suc m" by (cases n) auto
  show ?case
  proof (cases ms)
    case Nil
    with 6 n show ?thesis by (simp add: skip_ws_id)
  next
    case (Cons w ws)
    obtain c t where c: "print_members ms = c # t" "\<not> json_ws c" "c \<noteq> CHR ''}''"
      using Cons by (cases w) (auto simp: print_str_def)
    have "p_members m (d - 1) (print_members ms @ CHR ''}'' # r) = Some (ms, r)" using 6 n Cons by (intro 6(1)) auto
    with c 6(2) n show ?thesis by (simp add: skip_ws_id)
  qed
next
  case 7
  then show ?case by simp
next
  case (8 v vs)
  then obtain m where n: "n = Suc m" by (cases n) auto
  let ?r = "if vs = [] then CHR '']'' # r else CHR '','' # print_elems vs @ CHR '']'' # r"
  have v: "p_value m d (print_json v @ ?r) = Some (v, ?r)" using 8 n by (intro 8(1)) auto
  show ?case
  proof (cases "vs = []")
    case True
    with v n show ?thesis by (simp add: skip_ws_id)
  next
    case False
    have "p_elems m d (print_elems vs @ CHR '']'' # r) = Some (vs, r)" using 8 n False by (intro 8(2)) auto
    with v n False show ?thesis by (simp add: skip_ws_id)
  qed
next
  case 9
  then show ?case by simp
next
  case (10 k v ms)
  then obtain m where n: "n = Suc m" by (cases n) auto
  let ?r = "if ms = [] then CHR ''}'' # r else CHR '','' # print_members ms @ CHR ''}'' # r"
  have v: "p_value m d (print_json v @ ?r) = Some (v, ?r)" using 10 n by (intro 10(1)) auto
  have k: "p_string (concat (map print_char k) @ CHR 0x22 # s) = Some (k, s)" for s
    using p_string_print [of k _ s] 10(4) by (simp add: print_str_def)
  show ?case
  proof (cases "ms = []")
    case True
    with v k n show ?thesis by (simp add: skip_ws_id print_str_def)
  next
    case False
    have "p_members m d (print_members ms @ CHR ''}'' # r) = Some (ms, r)" using 10 n False by (intro 10(2)) auto
    with v k n False show ?thesis by (simp add: skip_ws_id print_str_def)
  qed
qed

lemma json_parse_print: "printable maxNestingDepth v \<Longrightarrow> json_parse (print_json v) = Some v"
  using p_value_print(1) [of maxNestingDepth v "[]" "2 * length (print_json v) + 2"] by (simp add: json_parse_def skip_ws_def)

end
