(* ===== verification/Envelope.thy ===== *)
theory Envelope
  imports Json
begin

text \<open>
  Sentry envelopes: \<open>internal/ingest/envelope.go\<close>. \<open>Parse\<close> is modelled with the
  buffered, limited reader it reads through (\<open>bufio.Reader\<close> over
  \<open>io.LimitedReader\<close> over the bytes). The results: what it accepts is within all limits, the
  64 KiB buffer is invisible (the parser equals one on the plain byte sequence), and rendered
  envelopes with arbitrary payloads are read back.
\<close>

section \<open>Limits and data\<close>

record Limits =
  MaxEnvelopeBytes :: int
  MaxItems :: int
  MaxItemBytes :: int

definition lim_defaults :: "Limits \<Rightarrow> Limits" where
  "lim_defaults l =
     (let l1 = l\<lparr>MaxEnvelopeBytes := (if MaxEnvelopeBytes l \<le> 0 then 20 * 2 ^ 20 else MaxEnvelopeBytes l)\<rparr>;
          l2 = l1\<lparr>MaxItems := (if MaxItems l1 \<le> 0 then 50 else MaxItems l1)\<rparr>
      in l2\<lparr>MaxItemBytes := (if MaxItemBytes l2 \<le> 0 then 10 * 2 ^ 20 else MaxItemBytes l2)\<rparr>)"

definition acceptedTypes :: "string list" where
  "acceptedTypes = [''event'', ''transaction'', ''attachment'', ''session'', ''client_report'', ''check_in'']"

record EnvelopeHeader =
  eh_EventID :: string
  eh_DSN :: string
  eh_SentAt :: string

record ItemHeader =
  ih_Type :: string
  ih_Length :: "int option"

record Item =
  it_Header :: ItemHeader
  it_Payload :: "byte list"

record Envelope =
  env_Header :: EnvelopeHeader
  env_Items :: "Item list"

text \<open>The reasons of \<open>ErrMalformed\<close>.\<close>

datatype malformed = MissingHeader | HeaderNotJSON | EnvelopeTooLarge | TooManyItems | ItemHeaderNotJSON | ItemMissingType
  | ItemLengthBounds int | PayloadTruncated | MissingNewline | UnterminatedPayload

definition dec_EnvelopeHeader :: "EnvelopeHeader dec" where
  "dec_EnvelopeHeader = dec_struct
     [(''event_id'', at_field eh_EventID eh_EventID_update dec_string), (''dsn'', at_field eh_DSN eh_DSN_update dec_string),
      (''sent_at'', at_field eh_SentAt eh_SentAt_update dec_string)]"

definition dec_ItemHeader :: "ItemHeader dec" where
  "dec_ItemHeader = dec_struct
     [(''type'', at_field ih_Type ih_Type_update dec_string), (''length'', at_field ih_Length ih_Length_update dec_int64_ptr)]"

section \<open>The reader\<close>

text \<open>Buffered bytes, bytes not yet read, and what the limited reader still lets through (\<open>lr.N\<close>).\<close>

record reader =
  rd_buf :: "byte list"
  rd_src :: "byte list"
  rd_N :: int

definition bufSize :: nat where "bufSize = 65536"

definition newline :: byte where "newline = 10"

definition fetch :: "reader \<Rightarrow> nat \<Rightarrow> byte list \<times> reader" where
  "fetch r k =
     (let n = min k (nat (rd_N r)); chunk = take n (rd_src r)
      in (chunk, r\<lparr>rd_src := drop n (rd_src r), rd_N := rd_N r - int (length chunk)\<rparr>))"

datatype slice_end = AtNewline | BufferFull | AtEOF

text \<open>\<open>bufio.Reader.ReadSlice\<close> for a newline.\<close>

function read_slice :: "reader \<Rightarrow> byte list \<times> slice_end \<times> reader" where
  "read_slice r =
     (if newline \<in> set (rd_buf r) then
        (takeWhile (\<lambda>b. b \<noteq> newline) (rd_buf r) @ [newline], AtNewline, r\<lparr>rd_buf := drop 1 (dropWhile (\<lambda>b. b \<noteq> newline) (rd_buf r))\<rparr>)
      else if bufSize \<le> length (rd_buf r) then (rd_buf r, BufferFull, r\<lparr>rd_buf := []\<rparr>)
      else case fetch r (bufSize - length (rd_buf r)) of
        (chunk, r1) \<Rightarrow>
          if chunk = [] then (rd_buf r, AtEOF, r1\<lparr>rd_buf := []\<rparr>)
          else read_slice (r1\<lparr>rd_buf := rd_buf r @ chunk\<rparr>))"
  by pat_completeness auto
termination
  by (relation "measure (\<lambda>r. length (rd_src r))") (auto simp: fetch_def Let_def)

declare read_slice.simps [simp del]

definition stream :: "reader \<Rightarrow> byte list" where
  "stream r = rd_buf r @ rd_src r"

definition slack :: "reader \<Rightarrow> int" where
  "slack r = rd_N r - int (length (rd_src r))"

lemma fetch_spec:
  assumes "fetch r k = (c, r1)"
  shows "rd_src r = c @ rd_src r1" and "rd_buf r1 = rd_buf r" and "slack r1 = slack r"
    and "c = [] \<Longrightarrow> 0 < k \<Longrightarrow> rd_N r1 \<le> 0 \<or> rd_src r1 = []"
  using assms by (auto simp: fetch_def Let_def slack_def)

lemma read_slice_spec:
  "read_slice r = (chunk, e, r') \<Longrightarrow> chunk @ stream r' = stream r \<and> slack r' = slack r \<and>
     (case e of
        AtNewline \<Rightarrow> \<exists>l. chunk = l @ [newline] \<and> newline \<notin> set l
      | BufferFull \<Rightarrow> chunk \<noteq> [] \<and> newline \<notin> set chunk
      | AtEOF \<Rightarrow> newline \<notin> set chunk \<and> rd_buf r' = [] \<and> (rd_N r' \<le> 0 \<or> rd_src r' = []))"
proof (induction r arbitrary: chunk e r' rule: read_slice.induct)
  case (1 r)
  obtain c r1 where f: "fetch r (bufSize - length (rd_buf r)) = (c, r1)" by fastforce
  note fs = fetch_spec [OF f]
  consider "newline \<in> set (rd_buf r)" | "newline \<notin> set (rd_buf r)" "bufSize \<le> length (rd_buf r)"
    | "newline \<notin> set (rd_buf r)" "\<not> bufSize \<le> length (rd_buf r)" by blast
  then show ?case
  proof cases
    case 1
    then obtain l t where l: "rd_buf r = l @ newline # t" "newline \<notin> set l" by (metis split_list_first)
    then have "takeWhile (\<lambda>b. b \<noteq> newline) (rd_buf r) = l" "dropWhile (\<lambda>b. b \<noteq> newline) (rd_buf r) = newline # t"
      by (auto simp: takeWhile_append dropWhile_append)
    with 1 "1.prems" l show ?thesis by (subst (asm) read_slice.simps) (auto simp: stream_def slack_def)
  next
    case 2
    then have "rd_buf r \<noteq> []" by (auto simp: bufSize_def)
    with 2 "1.prems" show ?thesis by (subst (asm) read_slice.simps) (auto simp: stream_def slack_def)
  next
    case 3
    show ?thesis
    proof (cases "c = []")
      case True
      with 3 "1.prems" f have "chunk = rd_buf r" "e = AtEOF" "r' = r1\<lparr>rd_buf := []\<rparr>" by (subst (asm) read_slice.simps, auto)+
      with 3 True fs show ?thesis by (auto simp: stream_def slack_def)
    next
      case False
      with 3 "1.prems" f have "read_slice (r1\<lparr>rd_buf := rd_buf r @ c\<rparr>) = (chunk, e, r')" by (subst (asm) read_slice.simps) auto
      from "1.IH" [OF 3 f [symmetric] False this] have "chunk @ stream r' = stream (r1\<lparr>rd_buf := rd_buf r @ c\<rparr>) \<and> slack r' = slack (r1\<lparr>rd_buf := rd_buf r @ c\<rparr>) \<and>
        (case e of AtNewline \<Rightarrow> \<exists>l. chunk = l @ [newline] \<and> newline \<notin> set l
         | BufferFull \<Rightarrow> chunk \<noteq> [] \<and> newline \<notin> set chunk
         | AtEOF \<Rightarrow> newline \<notin> set chunk \<and> rd_buf r' = [] \<and> (rd_N r' \<le> 0 \<or> rd_src r' = []))" .
      moreover have "stream (r1\<lparr>rd_buf := rd_buf r @ c\<rparr>) = stream r" "slack (r1\<lparr>rd_buf := rd_buf r @ c\<rparr>) = slack r"
        using fs by (simp_all add: stream_def slack_def)
      ultimately show ?thesis by simp
    qed
  qed
qed

lemma read_slice_shrinks:
  assumes "read_slice r = (chunk, BufferFull, r1)"
  shows "length (stream r1) < length (stream r)"
proof -
  from read_slice_spec [OF assms] have "length (chunk @ stream r1) = length (stream r)" "chunk \<noteq> []" by auto
  then show ?thesis by (cases chunk) auto
qed

datatype rl_err = LineTooLong | LineEOF

function readLine_loop :: "byte list \<Rightarrow> int \<Rightarrow> reader \<Rightarrow> byte list \<times> rl_err option \<times> reader" where
  "readLine_loop out mx r =
     (case read_slice r of
        (chunk, e, r1) \<Rightarrow>
          let out1 = out @ chunk in
          if mx < int (length out1) then ([], Some LineTooLong, r1)
          else case e of
            AtNewline \<Rightarrow> (butlast out1, None, r1)
          | BufferFull \<Rightarrow> readLine_loop out1 mx r1
          | AtEOF \<Rightarrow> (out1, Some LineEOF, r1))"
  by pat_completeness auto
termination
  by (relation "measure (\<lambda>(out, mx, r). length (stream r))") (auto dest: read_slice_shrinks [OF sym])

declare readLine_loop.simps [simp del]

definition readLine :: "reader \<Rightarrow> int \<Rightarrow> byte list \<times> rl_err option \<times> reader" where
  "readLine r mx = readLine_loop [] mx r"

text \<open>\<open>io.ReadFull\<close> of \<open>n\<close> bytes and \<open>ReadByte\<close>, through the buffer; \<open>None\<close> at the end of the input.\<close>

function read_full :: "nat \<Rightarrow> reader \<Rightarrow> (byte list \<times> reader) option" where
  "read_full n r =
     (if n = 0 then Some ([], r)
      else if rd_buf r \<noteq> [] then
        (let m = min n (length (rd_buf r)) in
         map_option (\<lambda>(bs, r'). (take m (rd_buf r) @ bs, r')) (read_full (n - m) (r\<lparr>rd_buf := drop m (rd_buf r)\<rparr>)))
      else if bufSize \<le> n then
        (case fetch r n of (chunk, r1) \<Rightarrow>
           if chunk = [] then None else map_option (\<lambda>(bs, r'). (chunk @ bs, r')) (read_full (n - length chunk) r1))
      else
        (case fetch r bufSize of (chunk, r1) \<Rightarrow> if chunk = [] then None else read_full n (r1\<lparr>rd_buf := chunk\<rparr>)))"
  by pat_completeness auto
termination
  by (relation "measures [\<lambda>(n, r). n, \<lambda>(n, r). if rd_buf r = [] then 1 else 0]") (auto simp: Let_def)

declare read_full.simps [simp del]

definition read_byte :: "reader \<Rightarrow> byte option \<times> reader" where
  "read_byte r =
     (case rd_buf r of
        b # bs \<Rightarrow> (Some b, r\<lparr>rd_buf := bs\<rparr>)
      | [] \<Rightarrow> (case fetch r bufSize of (chunk, r1) \<Rightarrow> (case chunk of [] \<Rightarrow> (None, r1) | b # bs \<Rightarrow> (Some b, r1\<lparr>rd_buf := bs\<rparr>))))"

lemma readLine_loop_spec:
  "readLine_loop out mx r = (l, e, r') \<Longrightarrow> newline \<notin> set out \<Longrightarrow> slack r' = slack r \<and>
     (case e of
        None \<Rightarrow> out @ stream r = l @ newline # stream r' \<and> newline \<notin> set l \<and> int (length l) < mx
      | Some LineEOF \<Rightarrow> out @ stream r = l @ stream r' \<and> newline \<notin> set l \<and> int (length l) \<le> mx \<and> rd_buf r' = [] \<and>
          (rd_N r' \<le> 0 \<or> rd_src r' = [])
      | Some LineTooLong \<Rightarrow> l = [] \<and> (\<exists>pre. out @ stream r = pre @ stream r' \<and> mx < int (length pre) \<and> newline \<notin> set (butlast pre)))"
proof (induction out mx r arbitrary: l e r' rule: readLine_loop.induct)
  case (1 out mx r)
  obtain chunk d r1 where rs: "read_slice r = (chunk, d, r1)" by (metis prod_cases3)
  note sp = read_slice_spec [OF rs]
  show ?case
  proof (cases "mx < int (length (out @ chunk))")
    case True
    with "1.prems" rs have "l = []" "e = Some LineTooLong" "r' = r1" by (subst (asm) readLine_loop.simps, simp add: Let_def)+
    moreover have "newline \<notin> set (butlast (out @ chunk))"
      using sp "1.prems"(2) by (cases d) (auto simp: butlast_append dest: in_set_butlastD)
    moreover have "out @ stream r = (out @ chunk) @ stream r1" using sp by simp
    ultimately have "\<exists>pre. out @ stream r = pre @ stream r' \<and> mx < int (length pre) \<and> newline \<notin> set (butlast pre)"
      using True by (intro exI [of _ "out @ chunk"]) simp
    with \<open>l = []\<close> \<open>e = _\<close> \<open>r' = r1\<close> sp show ?thesis by simp
  next
    case False
    show ?thesis
    proof (cases d)
      case AtNewline
      with False "1.prems" rs sp show ?thesis by (subst (asm) readLine_loop.simps) (auto simp: Let_def butlast_append)
    next
      case BufferFull
      with False "1.prems"(1) rs have "readLine_loop (out @ chunk) mx r1 = (l, e, r')" by (subst (asm) readLine_loop.simps) (simp add: Let_def)
      from "1.IH" [OF rs [symmetric] refl refl False BufferFull this] sp BufferFull "1.prems"(2)
      have "slack r' = slack r1 \<and>
     (case e of
        None \<Rightarrow> (out @ chunk) @ stream r1 = l @ newline # stream r' \<and> newline \<notin> set l \<and> int (length l) < mx
      | Some LineEOF \<Rightarrow> (out @ chunk) @ stream r1 = l @ stream r' \<and> newline \<notin> set l \<and> int (length l) \<le> mx \<and> rd_buf r' = [] \<and>
          (rd_N r' \<le> 0 \<or> rd_src r' = [])
      | Some LineTooLong \<Rightarrow> l = [] \<and> (\<exists>pre. (out @ chunk) @ stream r1 = pre @ stream r' \<and> mx < int (length pre) \<and> newline \<notin> set (butlast pre)))"
        by simp
      moreover have "(out @ chunk) @ stream r1 = out @ stream r" "slack r1 = slack r" using sp by auto
      ultimately show ?thesis by (simp only:)
    next
      case AtEOF
      with False "1.prems" rs sp show ?thesis by (subst (asm) readLine_loop.simps) (auto simp: Let_def)
    qed
  qed
qed

lemmas readLine_spec = readLine_loop_spec [of "[]", simplified, folded readLine_def]

section \<open>Parsing\<close>

definition read_payload :: "Limits \<Rightarrow> ItemHeader \<Rightarrow> reader \<Rightarrow> malformed + (byte list \<times> reader)" where
  "read_payload lim ih r =
     (case ih_Length ih of
        Some n \<Rightarrow>
          if n < 0 \<or> MaxItemBytes lim < n then Inl (ItemLengthBounds n)
          else (case read_full (nat n) r of
                  None \<Rightarrow> Inl PayloadTruncated
                | Some (payload, r1) \<Rightarrow>
                    (case read_byte r1 of
                       (Some b, r2) \<Rightarrow> if b \<noteq> newline then Inl MissingNewline else Inr (payload, r2)
                     | (None, r2) \<Rightarrow> Inr (payload, r2)))
      | None \<Rightarrow>
          (case readLine r (MaxItemBytes lim) of
             (payload, e, r1) \<Rightarrow> if e \<noteq> None \<and> e \<noteq> Some LineEOF then Inl UnterminatedPayload else Inr (payload, r1)))"

definition no_header :: EnvelopeHeader where
  "no_header = \<lparr>eh_EventID = [], eh_DSN = [], eh_SentAt = []\<rparr>"

definition no_item :: ItemHeader where
  "no_item = \<lparr>ih_Type = [], ih_Length = None\<rparr>"

lemma read_full_spec:
  "read_full n r = Some (bs, r') \<Longrightarrow> stream r = bs @ stream r' \<and> length bs = n \<and> slack r' = slack r"
proof (induction n r arbitrary: bs r' rule: read_full.induct)
  case (1 n r)
  obtain c1 r1 where f1: "fetch r n = (c1, r1)" by fastforce
  obtain c2 r2 where f2: "fetch r bufSize = (c2, r2)" by fastforce
  consider "n = 0" | "n \<noteq> 0" "rd_buf r \<noteq> []" | "n \<noteq> 0" "rd_buf r = []" "bufSize \<le> n" | "n \<noteq> 0" "rd_buf r = []" "\<not> bufSize \<le> n" by blast
  then show ?case
  proof cases
    case 1
    with "1.prems" show ?thesis by (subst (asm) read_full.simps) simp
  next
    case 2
    let ?m = "min n (length (rd_buf r))" and ?r = "r\<lparr>rd_buf := drop (min n (length (rd_buf r))) (rd_buf r)\<rparr>"
    from 2 "1.prems" obtain bs1 where b: "read_full (n - ?m) ?r = Some (bs1, r')" "bs = take ?m (rd_buf r) @ bs1"
      by (subst (asm) read_full.simps) (auto simp: Let_def)
    from "1.IH"(1) [OF 2(1) 2(2) refl b(1)] have ih: "stream ?r = bs1 @ stream r'" "length bs1 = n - ?m" "slack r' = slack ?r" by auto
    have "stream r = take ?m (rd_buf r) @ stream ?r" by (simp add: stream_def)
    with ih b(2) show ?thesis by (simp add: slack_def)
  next
    case 3
    from 3 "1.prems" f1 obtain bs1 where b: "c1 \<noteq> []" "read_full (n - length c1) r1 = Some (bs1, r')" "bs = c1 @ bs1"
      by (subst (asm) read_full.simps) (auto split: if_splits)
    have len: "length c1 \<le> n" using f1 by (auto simp: fetch_def Let_def)
    from 3 b "1.IH"(2) [OF 3(1) _ 3(3) f1 [symmetric] b(1,2)] fetch_spec [OF f1] len show ?thesis by (simp add: stream_def slack_def)
  next
    case 4
    from 4 "1.prems" f2 have b: "c2 \<noteq> []" "read_full n (r2\<lparr>rd_buf := c2\<rparr>) = Some (bs, r')"
      by (subst (asm) read_full.simps, auto split: if_splits)+
    from 4 b "1.IH"(3) [OF 4(1) _ 4(3) f2 [symmetric] b(1,2)] fetch_spec [OF f2] show ?thesis by (simp add: stream_def slack_def)
  qed
qed

lemma read_byte_spec:
  assumes "read_byte r = (b, r')"
  shows "slack r' = slack r \<and> (case b of Some x \<Rightarrow> stream r = x # stream r' | None \<Rightarrow> stream r = stream r' \<and> rd_buf r' = [] \<and> (rd_N r' \<le> 0 \<or> rd_src r' = []))"
proof (cases "rd_buf r")
  case (Cons x xs)
  with assms show ?thesis by (auto simp: read_byte_def stream_def slack_def)
next
  case Nil
  obtain c r1 where f: "fetch r bufSize = (c, r1)" by fastforce
  with assms Nil fetch_spec [OF f] show ?thesis
    by (cases c) (auto simp: read_byte_def stream_def slack_def bufSize_def)
qed

lemma read_payload_left: "read_payload lim ih r = Inr (p, r') \<Longrightarrow> length (stream r') \<le> length (stream r)"
  by (auto simp: read_payload_def split: option.splits if_splits prod.splits rl_err.splits
    dest!: read_full_spec read_byte_spec readLine_spec)

lemma readLine_left:
  "readLine r mx = (l, e, r') \<Longrightarrow> \<not> (e \<noteq> None \<and> blank l) \<Longrightarrow> length (stream r') < length (stream r)"
  by (drule readLine_spec) (cases l, auto split: option.splits rl_err.splits)

function parse_items :: "Limits \<Rightarrow> EnvelopeHeader \<Rightarrow> Item list \<Rightarrow> reader \<Rightarrow> malformed + Envelope" where
  "parse_items lim hdr items r =
     (if rd_N r \<le> 0 then Inl EnvelopeTooLarge
      else case readLine r (MaxEnvelopeBytes lim) of
        (line, e, r1) \<Rightarrow>
          if e = Some LineEOF \<and> blank line then Inr \<lparr>env_Header = hdr, env_Items = items\<rparr>
          else if e \<noteq> None \<and> blank line then Inr \<lparr>env_Header = hdr, env_Items = items\<rparr>
          else if blank line then parse_items lim hdr items r1
          else if MaxItems lim \<le> int (length items) then Inl TooManyItems
          else case unmarshal dec_ItemHeader (bytes_str line) no_item of
            (ih, ok) \<Rightarrow>
              if \<not> ok then Inl ItemHeaderNotJSON
              else if ih_Type ih = [] then Inl ItemMissingType
              else case read_payload lim ih r1 of
                Inl err \<Rightarrow> Inl err
              | Inr (payload, r2) \<Rightarrow>
                  if ih_Type ih \<notin> set acceptedTypes then parse_items lim hdr items r2
                  else parse_items lim hdr (items @ [\<lparr>it_Header = ih, it_Payload = payload\<rparr>]) r2)"
  by pat_completeness auto
termination
proof (relation "measure (\<lambda>(lim, hdr, items, r). length (stream r))", goal_cases)
  case 1
  then show ?case by simp
next
  case 2
  then show ?case by (auto dest: readLine_left [OF sym])
next
  case 3
  then show ?case by (auto dest!: readLine_left [OF sym] read_payload_left)
next
  case 4
  then show ?case by (auto dest!: readLine_left [OF sym] read_payload_left)
qed

declare parse_items.simps [simp del]

definition Parse :: "byte list \<Rightarrow> Limits \<Rightarrow> malformed + Envelope" where
  "Parse body lim0 =
     (let lim = lim_defaults lim0; r = \<lparr>rd_buf = [], rd_src = body, rd_N = MaxEnvelopeBytes lim + 1\<rparr> in
      case readLine r (MaxEnvelopeBytes lim) of
        (headerLine, e, r1) \<Rightarrow>
          if e \<noteq> None then Inl MissingHeader
          else case unmarshal dec_EnvelopeHeader (bytes_str headerLine) no_header of
            (hdr, ok) \<Rightarrow> if \<not> ok then Inl HeaderNotJSON else parse_items lim hdr [] r1)"

section \<open>A reference parser without buffering\<close>

definition ref_line :: "int \<Rightarrow> byte list \<Rightarrow> byte list \<times> rl_err option \<times> byte list" where
  "ref_line mx s =
     (if newline \<in> set s then
        (let l = takeWhile (\<lambda>b. b \<noteq> newline) s in
         if mx \<le> int (length l) then ([], Some LineTooLong, []) else (l, None, drop (Suc (length l)) s))
      else if mx < int (length s) then ([], Some LineTooLong, [])
      else (s, Some LineEOF, []))"

definition ref_payload :: "Limits \<Rightarrow> ItemHeader \<Rightarrow> byte list \<Rightarrow> malformed + (byte list \<times> byte list)" where
  "ref_payload lim ih s =
     (case ih_Length ih of
        Some n \<Rightarrow>
          if n < 0 \<or> MaxItemBytes lim < n then Inl (ItemLengthBounds n)
          else if length s < nat n then Inl PayloadTruncated
          else (case drop (nat n) s of
                  b # rest \<Rightarrow> if b \<noteq> newline then Inl MissingNewline else Inr (take (nat n) s, rest)
                | [] \<Rightarrow> Inr (take (nat n) s, []))
      | None \<Rightarrow> (case ref_line (MaxItemBytes lim) s of (p, e, s1) \<Rightarrow> if e = Some LineTooLong then Inl UnterminatedPayload else Inr (p, s1)))"

lemma ref_line_left: "ref_line mx s = (l, e, s') \<Longrightarrow> \<not> (e \<noteq> None \<and> blank l) \<Longrightarrow> length s' < length s"
  by (cases s) (auto simp: ref_line_def Let_def split: if_splits)

lemma ref_line_le: "ref_line mx s = (l, e, s') \<Longrightarrow> length s' \<le> length s"
  by (auto simp: ref_line_def Let_def split: if_splits)

lemma ref_payload_left: "ref_payload lim ih s = Inr (p, s') \<Longrightarrow> length s' \<le> length s"
  by (auto simp: ref_payload_def split: option.splits if_splits prod.splits list.splits dest!: ref_line_le dest: arg_cong [of _ _ length])

function ref_items :: "Limits \<Rightarrow> EnvelopeHeader \<Rightarrow> Item list \<Rightarrow> byte list \<Rightarrow> malformed + Envelope" where
  "ref_items lim hdr items s =
     (case ref_line (MaxEnvelopeBytes lim) s of
        (line, e, s1) \<Rightarrow>
          if e \<noteq> None \<and> blank line then Inr \<lparr>env_Header = hdr, env_Items = items\<rparr>
          else if blank line then ref_items lim hdr items s1
          else if MaxItems lim \<le> int (length items) then Inl TooManyItems
          else case unmarshal dec_ItemHeader (bytes_str line) no_item of
            (ih, ok) \<Rightarrow>
              if \<not> ok then Inl ItemHeaderNotJSON
              else if ih_Type ih = [] then Inl ItemMissingType
              else case ref_payload lim ih s1 of
                Inl err \<Rightarrow> Inl err
              | Inr (payload, s2) \<Rightarrow>
                  if ih_Type ih \<notin> set acceptedTypes then ref_items lim hdr items s2
                  else ref_items lim hdr (items @ [\<lparr>it_Header = ih, it_Payload = payload\<rparr>]) s2)"
  by pat_completeness auto
termination
proof (relation "measure (\<lambda>(lim, hdr, items, s). length s)", goal_cases)
  case 1
  then show ?case by simp
next
  case 2
  then show ?case by (auto dest: ref_line_left [OF sym])
next
  case 3
  then show ?case by (auto dest!: ref_line_left [OF sym] ref_payload_left)
next
  case 4
  then show ?case by (auto dest!: ref_line_left [OF sym] ref_payload_left)
qed

declare ref_items.simps [simp del]

definition ref_Parse :: "byte list \<Rightarrow> Limits \<Rightarrow> malformed + Envelope" where
  "ref_Parse body lim0 =
     (let lim = lim_defaults lim0 in
      case ref_line (MaxEnvelopeBytes lim) body of
        (headerLine, e, s1) \<Rightarrow>
          if e \<noteq> None then Inl MissingHeader
          else case unmarshal dec_EnvelopeHeader (bytes_str headerLine) no_header of
            (hdr, ok) \<Rightarrow> if \<not> ok then Inl HeaderNotJSON else ref_items lim hdr [] s1)"

text \<open>With the whole input below the limit, every read of the buffered reader is the read of the stream.\<close>

lemma stream_empty: "0 < slack r \<Longrightarrow> rd_buf r = [] \<and> (rd_N r \<le> 0 \<or> rd_src r = []) \<Longrightarrow> stream r = []"
  by (auto simp: slack_def stream_def)

lemma takeWhile_first: "newline \<notin> set l \<Longrightarrow> takeWhile (\<lambda>b. b \<noteq> newline) (l @ newline # t) = l"
  by (simp add: takeWhile_append)

lemma readLine_sim:
  assumes "0 < slack r" and "readLine r mx = (l, e, r')"
  shows "\<exists>s'. ref_line mx (stream r) = (l, e, s') \<and> (e \<noteq> Some LineTooLong \<longrightarrow> s' = stream r') \<and> 0 < slack r'"
proof -
  note sp = readLine_spec [OF assms(2)]
  consider "e = None" | "e = Some LineEOF" | "e = Some LineTooLong" by (cases e) (auto, metis rl_err.exhaust)
  then show ?thesis
  proof cases
    case 1
    with sp assms(1) show ?thesis by (simp add: ref_line_def takeWhile_first)
  next
    case 2
    with sp assms(1) have "stream r' = []" by (intro stream_empty) auto
    with 2 sp assms(1) show ?thesis by (simp add: ref_line_def)
  next
    case 3
    with sp obtain pre where pre: "l = []" "stream r = pre @ stream r'" "mx < int (length pre)" "newline \<notin> set (butlast pre)" by auto
    show ?thesis
    proof (cases "newline \<in> set (stream r)")
      case True
      then obtain a t where a: "stream r = a @ newline # t" "newline \<notin> set a" by (metis split_list_first)
      have "length pre \<le> Suc (length a)"
      proof (rule ccontr)
        assume "\<not> length pre \<le> Suc (length a)"
        then have "length a < length (butlast pre)" by simp
        moreover from this have "length a < length pre" by simp
        ultimately have "butlast pre ! length a = stream r ! length a" by (simp add: pre(2) nth_append nth_butlast)
        then have "newline \<in> set (butlast pre)" using \<open>length a < length (butlast pre)\<close> a(1) by (metis nth_append_length nth_mem)
        with pre(4) show False by blast
      qed
      with pre(3) have "mx \<le> int (length a)" by simp
      with 3 a pre(1) sp assms(1) show ?thesis by (simp add: ref_line_def takeWhile_first)
    next
      case False
      with 3 pre sp assms(1) show ?thesis by (simp add: ref_line_def)
    qed
  qed
qed

lemma read_full_None: "0 < slack r \<Longrightarrow> read_full n r = None \<Longrightarrow> length (stream r) < n"
proof (induction n r rule: read_full.induct)
  case (1 n r)
  obtain c1 r1 where f1: "fetch r n = (c1, r1)" by fastforce
  obtain c2 r2 where f2: "fetch r bufSize = (c2, r2)" by fastforce
  consider "n = 0" | "n \<noteq> 0" "rd_buf r \<noteq> []" | "n \<noteq> 0" "rd_buf r = []" "bufSize \<le> n" | "n \<noteq> 0" "rd_buf r = []" "\<not> bufSize \<le> n" by blast
  then show ?case
  proof cases
    case 1
    with "1.prems" show ?thesis by (subst (asm) read_full.simps) simp
  next
    case 2
    let ?m = "min n (length (rd_buf r))" and ?r = "r\<lparr>rd_buf := drop (min n (length (rd_buf r))) (rd_buf r)\<rparr>"
    from 2 "1.prems" have "read_full (n - ?m) ?r = None" "0 < slack ?r" by (subst (asm) read_full.simps, auto simp: Let_def slack_def)
    from "1.IH"(1) [OF 2(1) 2(2) refl this(2,1)] show ?thesis by (simp add: stream_def)
  next
    case 3
    note fs = fetch_spec [OF f1]
    show ?thesis
    proof (cases "c1 = []")
      case True
      with fs 3 "1.prems" show ?thesis by (auto simp: stream_def slack_def)
    next
      case False
      have len: "length c1 \<le> n" using f1 by (auto simp: fetch_def Let_def)
      from 3 "1.prems" f1 False have "read_full (n - length c1) r1 = None" by (subst (asm) read_full.simps) auto
      with "1.IH"(2) [OF 3(1) _ 3(3) f1 [symmetric] False] 3 "1.prems" fs len show ?thesis by (simp add: stream_def)
    qed
  next
    case 4
    note fs = fetch_spec [OF f2]
    show ?thesis
    proof (cases "c2 = []")
      case True
      with fs 4 "1.prems" show ?thesis by (auto simp: stream_def slack_def bufSize_def)
    next
      case False
      from 4 "1.prems" f2 False have "read_full n (r2\<lparr>rd_buf := c2\<rparr>) = None" by (subst (asm) read_full.simps) auto
      moreover have "slack (r2\<lparr>rd_buf := c2\<rparr>) = slack r" using fs by (simp add: slack_def)
      ultimately show ?thesis using "1.IH"(3) [OF 4(1) _ 4(3) f2 [symmetric] False] 4 "1.prems" fs by (simp add: stream_def)
    qed
  qed
qed

lemma read_payload_sim:
  assumes "0 < slack r"
  shows "(case read_payload lim ih r of
      Inl err \<Rightarrow> ref_payload lim ih (stream r) = Inl err
    | Inr (p, r') \<Rightarrow> ref_payload lim ih (stream r) = Inr (p, stream r') \<and> 0 < slack r')"
proof (cases "ih_Length ih")
  case None
  obtain l e r' where rl: "readLine r (MaxItemBytes lim) = (l, e, r')" by (metis prod_cases3)
  from readLine_sim [OF assms rl] obtain s' where "ref_line (MaxItemBytes lim) (stream r) = (l, e, s')"
    "e \<noteq> Some LineTooLong \<longrightarrow> s' = stream r'" "0 < slack r'" by blast
  then show ?thesis using None rl rl_err.exhaust by (cases e) (auto simp: read_payload_def ref_payload_def)
next
  case (Some n)
  show ?thesis
  proof (cases "n < 0 \<or> MaxItemBytes lim < n")
    case True
    with Some show ?thesis by (auto simp: read_payload_def ref_payload_def)
  next
    case False
    show ?thesis
    proof (cases "read_full (nat n) r")
      case None
      with False Some read_full_None [OF assms None] show ?thesis by (simp add: read_payload_def ref_payload_def)
    next
      case (Some pr)
      then obtain p r1 where pr: "read_full (nat n) r = Some (p, r1)" by (cases pr) auto
      obtain b r2 where rb: "read_byte r1 = (b, r2)" by fastforce
      from read_full_spec [OF pr] have sp: "stream r = p @ stream r1" "length p = nat n" "0 < slack r1" using assms by auto
      from read_byte_spec [OF rb] sp(3) stream_empty [of r2] have "0 < slack r2" "case b of Some x \<Rightarrow> stream r1 = x # stream r2 | None \<Rightarrow> stream r1 = [] \<and> stream r2 = []"
        by (auto split: option.splits)
      with sp pr rb False \<open>ih_Length ih = Some n\<close> show ?thesis
        by (cases b) (simp_all add: read_payload_def ref_payload_def flip: sp(2))
    qed
  qed
qed

lemma parse_items_sim: "0 < slack r \<Longrightarrow> parse_items lim hdr items r = ref_items lim hdr items (stream r)"
proof (induction lim hdr items r rule: parse_items.induct)
  case (1 lim hdr items r)
  obtain l e r1 where rl: "readLine r (MaxEnvelopeBytes lim) = (l, e, r1)" by (metis prod_cases3)
  from readLine_sim [OF "1.prems" rl] obtain s1 where ref: "ref_line (MaxEnvelopeBytes lim) (stream r) = (l, e, s1)"
    and s1: "e \<noteq> Some LineTooLong \<longrightarrow> s1 = stream r1" and sl: "0 < slack r1" by blast
  have N: "\<not> rd_N r \<le> 0" using "1.prems" by (simp add: slack_def)
  show ?case
  proof (cases "e \<noteq> None \<and> blank l")
    case True
    then show ?thesis using rl ref N by (simp add: parse_items.simps [of lim hdr items r] ref_items.simps [of lim hdr items "stream r"])
  next
    case False
    have "e = Some LineTooLong \<Longrightarrow> l = []" using readLine_spec [OF rl] by simp
    with False have e: "s1 = stream r1" using s1 by auto
    obtain ih ok where um: "unmarshal dec_ItemHeader (bytes_str l) no_item = (ih, ok)" by fastforce
    note pl = read_payload_sim [OF sl, of lim ih]
    show ?thesis
      using False N rl ref e um pl "1.IH"(1) [OF N rl [symmetric] refl] "1.IH"(2,3) [OF N rl [symmetric] refl]  sl
      by (subst parse_items.simps, subst ref_items.simps) (auto split: sum.splits)
  qed
qed

section \<open>Limits\<close>

lemma read_payload_bounds:
  assumes "read_payload lim ih r = Inr (p, r')"
  shows "int (length p) \<le> MaxItemBytes lim" and "\<And>n. ih_Length ih = Some n \<Longrightarrow> int (length p) = n"
    and "length p + length (stream r') \<le> length (stream r)"
  using assms by (auto simp: read_payload_def split: option.splits if_splits prod.splits rl_err.splits
    dest!: read_full_spec read_byte_spec readLine_spec)

definition item_ok :: "Limits \<Rightarrow> Item \<Rightarrow> bool" where
  "item_ok lim it \<longleftrightarrow> ih_Type (it_Header it) \<in> set acceptedTypes \<and> int (length (it_Payload it)) \<le> MaxItemBytes lim \<and>
     (case ih_Length (it_Header it) of None \<Rightarrow> True | Some n \<Rightarrow> int (length (it_Payload it)) = n)"

definition payload_bytes :: "Item list \<Rightarrow> nat" where
  "payload_bytes its = sum_list (map (\<lambda>it. length (it_Payload it)) its)"

lemma parse_items_ok:
  "parse_items lim hdr items r = Inr env \<Longrightarrow> int (length items) \<le> MaxItems lim \<Longrightarrow> list_all (item_ok lim) items \<Longrightarrow>
   int (length (env_Items env)) \<le> MaxItems lim \<and> list_all (item_ok lim) (env_Items env) \<and> env_Header env = hdr \<and>
   payload_bytes (env_Items env) \<le> payload_bytes items + length (stream r)"
proof (induction lim hdr items r rule: parse_items.induct)
  case (1 lim hdr items r)
  obtain l e r1 where rl: "readLine r (MaxEnvelopeBytes lim) = (l, e, r1)" by (metis prod_cases3)
  have N: "\<not> rd_N r \<le> 0" using "1.prems"(1) by (subst (asm) parse_items.simps) auto
  show ?case
  proof (cases "e \<noteq> None \<and> blank l")
    case True
    with "1.prems" rl N show ?thesis by (subst (asm) parse_items.simps) (auto split: if_splits)
  next
    case False
    note left = readLine_left [OF rl False]
    have nb: "\<not> (e = Some LineEOF \<and> blank l)" using False by auto
    show ?thesis
    proof (cases "blank l")
      case True
      from "1.prems"(1) rl N nb False True have "parse_items lim hdr items r1 = Inr env" by (subst (asm) parse_items.simps) simp
      from "1.IH"(1) [OF N rl [symmetric] refl nb False True this "1.prems"(2,3)] left show ?thesis by simp
    next
      case nbl: False
      obtain ih ok where um: "unmarshal dec_ItemHeader (bytes_str l) no_item = (ih, ok)" by fastforce
      from "1.prems"(1) rl N nb False nbl um obtain p r2 where c: "\<not> MaxItems lim \<le> int (length items)" "\<not> \<not> ok" "ih_Type ih \<noteq> []"
        "read_payload lim ih r1 = Inr (p, r2)" by (subst (asm) parse_items.simps) (auto split: if_splits sum.splits)
      note bd = read_payload_bounds [OF c(4)]
      let ?it = "\<lparr>it_Header = ih, it_Payload = p\<rparr>"
      show ?thesis
      proof (cases "ih_Type ih \<notin> set acceptedTypes")
        case True
        from "1.prems"(1) rl N nb False nbl um c True have "parse_items lim hdr items r2 = Inr env" by (subst (asm) parse_items.simps) simp
        from "1.IH"(2) [OF N rl [symmetric] refl nb False nbl c(1) um [symmetric] c(2,3,4) refl True this "1.prems"(2,3)] left bd(3)
        show ?thesis by simp
      next
        case acc: False
        from "1.prems"(1) rl N nb False nbl um c acc have rest: "parse_items lim hdr (items @ [?it]) r2 = Inr env" by (subst (asm) parse_items.simps) simp
        have "int (length (items @ [?it])) \<le> MaxItems lim" "item_ok lim ?it"
          using c(1) acc bd(1,2) by (auto simp: item_ok_def split: option.splits)
        then have "int (length (items @ [?it])) \<le> MaxItems lim" "list_all (item_ok lim) (items @ [?it])" using "1.prems"(3) by simp_all
        from "1.IH"(3) [OF N rl [symmetric] refl nb False nbl c(1) um [symmetric] c(2,3,4) refl acc rest this] left bd(3)
        show ?thesis by (simp add: payload_bytes_def)
      qed
    qed
  qed
qed

section \<open>Rendering\<close>

definition str_line :: "string \<Rightarrow> byte list" where
  "str_line s = str_bytes s @ [newline]"

definition header_json :: "EnvelopeHeader \<Rightarrow> json" where
  "header_json h = JObj [(''event_id'', JStr (eh_EventID h)), (''dsn'', JStr (eh_DSN h)), (''sent_at'', JStr (eh_SentAt h))]"

definition item_json :: "ItemHeader \<Rightarrow> json" where
  "item_json h = JObj ((''type'', JStr (ih_Type h)) # (case ih_Length h of None \<Rightarrow> [] | Some n \<Rightarrow> [(''length'', JNum (int_str n))]))"

definition render_item :: "Item \<Rightarrow> byte list" where
  "render_item it = str_line (print_json (item_json (it_Header it))) @ it_Payload it @ [newline]"

definition render :: "Envelope \<Rightarrow> byte list" where
  "render env = str_line (print_json (header_json (env_Header env))) @ concat (map render_item (env_Items env))"

text \<open>An item is renderable without a length when its payload has no newline.\<close>

definition renderable :: "Limits \<Rightarrow> Item \<Rightarrow> bool" where
  "renderable lim it \<longleftrightarrow> item_ok lim it \<and> (case ih_Length (it_Header it) of
     Some n \<Rightarrow> n < 2 ^ 63 | None \<Rightarrow> newline \<notin> set (it_Payload it) \<and> int (length (it_Payload it)) < MaxItemBytes lim)"

lemma newline_str_bytes: "newline \<in> set (str_bytes s) \<Longrightarrow> CHR 0x0A \<in> set s"
proof -
  assume "newline \<in> set (str_bytes s)"
  then obtain c where c: "c \<in> set s" "of_char c = newline" by (auto simp: str_bytes_def)
  then have "unat (of_char c :: byte) = 10" by (simp only: newline_def) simp
  then have "(of_char c :: nat) = of_char (CHR 0x0A)" by simp
  then have "c = CHR 0x0A" by (simp only: of_char_eq_iff)
  with c(1) show ?thesis by simp
qed

lemma print_str_no_newline: "CHR 0x0A \<notin> set (print_str s)"
proof -
  have "hex_digit n \<noteq> CHR 0x0A" if "n < 16" for n
  proof
    assume "hex_digit n = CHR 0x0A"
    then have "hex_val (CHR 0x0A) = Some n" using hex_val_digit [OF that] by simp
    then show False by (simp add: hex_val_def)
  qed
  then have hex: "CHR 0x0A \<noteq> hex_digit n" if "n < 16" for n using that by metis
  have "CHR 0x0A \<notin> set (print_char c)" for c
    using hex [of "of_char c div 16"] hex [of "of_char c mod 16"] by (auto simp: print_char_def)
  then show ?thesis by (auto simp: print_str_def)
qed

lemma int_str_no_newline: "CHR 0x0A \<notin> set (int_str n)"
  using int_str_chars [of "CHR 0x0A" n] by (auto simp: is_digit_def)

lemma json_lines_no_newline:
  "CHR 0x0A \<notin> set (print_json (header_json h))" "CHR 0x0A \<notin> set (print_json (item_json ih))"
  using print_str_no_newline int_str_no_newline by (auto simp: header_json_def item_json_def split: option.splits)

lemma str_line_line:
  assumes "CHR 0x0A \<notin> set s" and "int (length s) < mx"
  shows "ref_line mx (str_line s @ rest) = (str_bytes s, None, rest)"
proof -
  have "newline \<notin> set (str_bytes s)" using newline_str_bytes assms(1) by blast
  then show ?thesis using assms(2) by (simp add: ref_line_def str_line_def takeWhile_first)
qed

lemma object_not_blank: "\<not> blank (str_bytes (CHR ''{'' # s))"
  by (subst blank.simps) (simp add: str_bytes_def ascii_space_def split: list.splits)

lemma unmarshal_header:
  assumes "ascii (eh_EventID h)" "ascii (eh_DSN h)" "ascii (eh_SentAt h)"
  shows "unmarshal dec_EnvelopeHeader (print_json (header_json h)) no_header = (h, True)"
proof -
  have "printable maxNestingDepth (header_json h)" using assms by (simp add: header_json_def maxNestingDepth_def ascii_def)
  from json_parse_print [OF this] show ?thesis
    by (simp add: unmarshal_def header_json_def dec_EnvelopeHeader_def dec_struct_def at_field_def dec_string_def to_upper_char_def no_header_def)
qed

lemma unmarshal_item:
  assumes "ascii (ih_Type ih)" and "\<And>n. ih_Length ih = Some n \<Longrightarrow> 0 \<le> n \<and> n < 2 ^ 63"
  shows "unmarshal dec_ItemHeader (print_json (item_json ih)) no_item = (ih, True)"
proof -
  have "printable maxNestingDepth (item_json ih)" using assms(1) by (auto simp: item_json_def maxNestingDepth_def ascii_def split: option.splits)
  from json_parse_print [OF this] assms(2) parseInt64_int_str show ?thesis
    by (cases "ih_Length ih") (simp_all add: unmarshal_def item_json_def dec_ItemHeader_def dec_struct_def at_field_def dec_string_def dec_int64_ptr_def
      to_upper_char_def no_item_def)
qed

lemma accepted_ascii: "t \<in> set acceptedTypes \<Longrightarrow> ascii t \<and> t \<noteq> []"
  by (auto simp: acceptedTypes_def ascii_def)

lemma ref_payload_rendered:
  assumes "renderable lim it"
  shows "ref_payload lim (it_Header it) (it_Payload it @ newline # rest) = Inr (it_Payload it, rest)"
  using assms by (cases "ih_Length (it_Header it)")
    (auto simp: renderable_def item_ok_def ref_payload_def ref_line_def takeWhile_first)

lemma item_line:
  "print_json (item_json h) = CHR ''{'' # t \<longleftrightarrow> t = print_members (case item_json h of JObj ms \<Rightarrow> ms | _ \<Rightarrow> []) @ [CHR ''}'']"
  by (auto simp: item_json_def)

lemma ref_items_rendered:
  "list_all (renderable lim) its \<Longrightarrow> int (length (acc @ its)) \<le> MaxItems lim \<Longrightarrow> 0 < MaxEnvelopeBytes lim \<Longrightarrow>
   int (length (concat (map render_item its))) \<le> MaxEnvelopeBytes lim \<Longrightarrow>
   ref_items lim hdr acc (concat (map render_item its)) = Inr \<lparr>env_Header = hdr, env_Items = acc @ its\<rparr>"
proof (induction its arbitrary: acc)
  case Nil
  then show ?case by (subst ref_items.simps) (simp add: ref_line_def)
next
  case (Cons it its)
  let ?line = "print_json (item_json (it_Header it))" and ?rest = "it_Payload it @ newline # concat (map render_item its)"
  have ok: "renderable lim it" "item_ok lim it" using Cons.prems(1) by (simp_all add: renderable_def)
  have ty: "ih_Type (it_Header it) \<in> set acceptedTypes" using ok(2) by (simp add: item_ok_def)
  have line: "ref_line (MaxEnvelopeBytes lim) (str_line ?line @ ?rest) = (str_bytes ?line, None, ?rest)"
    using json_lines_no_newline(2) Cons.prems(4) by (intro str_line_line) (auto simp: render_item_def str_line_def)
  have nb: "\<not> blank (str_bytes ?line)" using object_not_blank by (simp add: item_json_def del: str_bytes_def)
  have len: "0 \<le> n \<and> n < 2 ^ 63" if "ih_Length (it_Header it) = Some n" for n
    using ok that by (auto simp: renderable_def item_ok_def)
  have um: "unmarshal dec_ItemHeader ?line no_item = (it_Header it, True)"
    using accepted_ascii [OF ty] len by (intro unmarshal_item) auto
  have "ref_items lim hdr (acc @ [it]) (concat (map render_item its)) = Inr \<lparr>env_Header = hdr, env_Items = (acc @ [it]) @ its\<rparr>"
    using Cons.prems by (intro Cons.IH) auto
  moreover have "concat (map render_item (it # its)) = str_line ?line @ ?rest" by (simp add: render_item_def)
  moreover have "\<not> MaxItems lim \<le> int (length acc)" using Cons.prems(2) by simp
  ultimately show ?case
    using line nb um ty accepted_ascii [OF ty] ref_payload_rendered [OF ok(1)]
    by (subst ref_items.simps) (cases it, simp)
qed

lemma Parse_sim: "int (length body) \<le> MaxEnvelopeBytes (lim_defaults lim) \<Longrightarrow> Parse body lim = ref_Parse body lim"
proof -
  assume body: "int (length body) \<le> MaxEnvelopeBytes (lim_defaults lim)"
  let ?l = "lim_defaults lim" and ?r = "\<lparr>rd_buf = [], rd_src = body, rd_N = MaxEnvelopeBytes (lim_defaults lim) + 1\<rparr>"
  have r: "0 < slack ?r" "stream ?r = body" using body by (simp_all add: slack_def stream_def)
  obtain l e r1 where rl: "readLine ?r (MaxEnvelopeBytes ?l) = (l, e, r1)" by (metis prod_cases3)
  from readLine_sim [OF r(1) rl] obtain s1 where "ref_line (MaxEnvelopeBytes ?l) body = (l, e, s1)"
    "e \<noteq> Some LineTooLong \<longrightarrow> s1 = stream r1" "0 < slack r1" unfolding r(2) by blast
  then show ?thesis using rl parse_items_sim [of r1 ?l] by (auto simp: Parse_def ref_Parse_def Let_def split: prod.splits)
qed

lemma rendered_parses:
  assumes "ascii (eh_EventID (env_Header env))" and "ascii (eh_DSN (env_Header env))" and "ascii (eh_SentAt (env_Header env))"
    and "list_all (renderable (lim_defaults lim)) (env_Items env)" and "int (length (env_Items env)) \<le> MaxItems (lim_defaults lim)"
    and "int (length (render env)) \<le> MaxEnvelopeBytes (lim_defaults lim)"
  shows "Parse (render env) lim = Inr env"
proof -
  let ?l = "lim_defaults lim" and ?h = "print_json (header_json (env_Header env))" and ?its = "concat (map render_item (env_Items env))"
  have "int (length ?h) < MaxEnvelopeBytes ?l" using assms(6) by (simp add: render_def str_line_def)
  from str_line_line [OF json_lines_no_newline(1) this] have "ref_line (MaxEnvelopeBytes ?l) (render env) = (str_bytes ?h, None, ?its)"
    by (simp add: render_def)
  moreover have "ref_items ?l (env_Header env) [] ?its = Inr \<lparr>env_Header = env_Header env, env_Items = [] @ env_Items env\<rparr>"
    using assms(4-6) by (intro ref_items_rendered) (auto simp: render_def lim_defaults_def Let_def)
  ultimately show ?thesis
    using Parse_sim [OF assms(6)] unmarshal_header [OF assms(1-3)] by (simp add: ref_Parse_def Let_def)
qed

section \<open>The envelope limit\<close>

text \<open>
  The bytes the limited reader may still hand out, buffered ones included. Every read lowers it by
  exactly the bytes it consumes, and it never goes below zero.
\<close>

definition budget :: "reader \<Rightarrow> int" where
  "budget r = int (length (rd_buf r)) + rd_N r"

lemma budget_slack: "budget r = slack r + int (length (stream r))"
  by (simp add: budget_def slack_def stream_def)

definition N_drops :: "reader \<Rightarrow> reader \<Rightarrow> bool" where
  "N_drops r r' \<longleftrightarrow> (0 \<le> rd_N r \<longrightarrow> 0 \<le> rd_N r' \<and> rd_N r' \<le> rd_N r)"

lemma N_drops_trans: "N_drops a b \<Longrightarrow> N_drops b c \<Longrightarrow> N_drops a c"
  by (auto simp: N_drops_def)

lemma fetch_N: "fetch r k = (c, r1) \<Longrightarrow> N_drops r r1"
  by (auto simp: fetch_def Let_def N_drops_def)

lemma N_drops_buf [simp]: "N_drops a (b\<lparr>rd_buf := x\<rparr>) = N_drops a b" "N_drops (a\<lparr>rd_buf := x\<rparr>) b = N_drops a b" "N_drops a a"
  by (simp_all add: N_drops_def)

lemma read_slice_N: "read_slice r = (chunk, e, r') \<Longrightarrow> N_drops r r'"
proof (induction r arbitrary: chunk e r' rule: read_slice.induct)
  case (1 r)
  obtain c r1 where f: "fetch r (bufSize - length (rd_buf r)) = (c, r1)" by fastforce
  consider "newline \<in> set (rd_buf r) \<or> bufSize \<le> length (rd_buf r) \<or> c = []"
    | "newline \<notin> set (rd_buf r)" "\<not> bufSize \<le> length (rd_buf r)" "c \<noteq> []" by blast
  then show ?case
  proof cases
    case 1
    with "1.prems" f fetch_N [OF f] show ?thesis by (subst (asm) read_slice.simps) (auto split: if_splits)
  next
    case 2
    with "1.prems" f have "read_slice (r1\<lparr>rd_buf := rd_buf r @ c\<rparr>) = (chunk, e, r')" by (subst (asm) read_slice.simps) auto
    from "1.IH" [OF 2(1,2) f [symmetric] 2(3) this] fetch_N [OF f] show ?thesis by (auto intro: N_drops_trans)
  qed
qed

lemma readLine_loop_N: "readLine_loop out mx r = (l, e, r') \<Longrightarrow> N_drops r r'"
proof (induction out mx r arbitrary: l e r' rule: readLine_loop.induct)
  case (1 out mx r)
  obtain chunk d r1 where rs: "read_slice r = (chunk, d, r1)" by (metis prod_cases3)
  note N = read_slice_N [OF rs]
  show ?case
  proof (cases "mx < int (length (out @ chunk)) \<or> d \<noteq> BufferFull")
    case True
    with "1.prems" rs N show ?thesis by (subst (asm) readLine_loop.simps) (auto simp: Let_def split: slice_end.splits if_splits)
  next
    case False
    with "1.prems"(1) rs have "readLine_loop (out @ chunk) mx r1 = (l, e, r')" by (subst (asm) readLine_loop.simps) (simp add: Let_def)
    with "1.IH" [OF rs [symmetric] refl refl] False N show ?thesis by (auto intro: N_drops_trans)
  qed
qed

lemma readLine_N: "readLine r mx = (l, e, r') \<Longrightarrow> N_drops r r'"
  by (auto simp: readLine_def dest: readLine_loop_N)

lemma read_full_N: "read_full n r = Some (bs, r') \<Longrightarrow> N_drops r r'"
proof (induction n r arbitrary: bs r' rule: read_full.induct)
  case (1 n r)
  obtain c1 r1 where f1: "fetch r n = (c1, r1)" by fastforce
  obtain c2 r2 where f2: "fetch r bufSize = (c2, r2)" by fastforce
  consider "n = 0" | "n \<noteq> 0" "rd_buf r \<noteq> []" | "n \<noteq> 0" "rd_buf r = []" "bufSize \<le> n" | "n \<noteq> 0" "rd_buf r = []" "\<not> bufSize \<le> n" by blast
  then show ?case
  proof cases
    case 1
    with "1.prems" show ?thesis by (subst (asm) read_full.simps) simp
  next
    case 2
    let ?m = "min n (length (rd_buf r))" and ?r = "r\<lparr>rd_buf := drop (min n (length (rd_buf r))) (rd_buf r)\<rparr>"
    from 2 "1.prems" obtain bs1 where "read_full (n - ?m) ?r = Some (bs1, r')" by (subst (asm) read_full.simps) (auto simp: Let_def)
    from "1.IH"(1) [OF 2(1) 2(2) refl this] show ?thesis by simp
  next
    case 3
    from 3 "1.prems" f1 obtain bs1 where b: "c1 \<noteq> []" "read_full (n - length c1) r1 = Some (bs1, r')"
      by (subst (asm) read_full.simps) (auto split: if_splits)
    from 3 "1.IH"(2) [OF 3(1) _ 3(3) f1 [symmetric] b] fetch_N [OF f1] show ?thesis by (auto intro: N_drops_trans)
  next
    case 4
    from 4 "1.prems" f2 have b: "c2 \<noteq> []" "read_full n (r2\<lparr>rd_buf := c2\<rparr>) = Some (bs, r')"
      by (subst (asm) read_full.simps, auto split: if_splits)+
    from 4 "1.IH"(3) [OF 4(1) _ 4(3) f2 [symmetric] b] fetch_N [OF f2] show ?thesis by (auto intro: N_drops_trans)
  qed
qed

lemma read_byte_N: "read_byte r = (b, r') \<Longrightarrow> N_drops r r'"
  using fetch_N by (auto simp: read_byte_def split: list.splits prod.splits)

lemma read_payload_N: "read_payload lim ih r = Inr (p, r') \<Longrightarrow> N_drops r r'"
  by (auto simp: read_payload_def split: option.splits if_splits prod.splits
    dest!: readLine_N read_full_N read_byte_N intro: N_drops_trans)

text \<open>What a successful read of a payload consumed, as the reference parser sees it.\<close>

lemma read_payload_consumes:
  assumes "read_payload lim ih r = Inr (p, r')"
  obtains q where "stream r = q @ stream r'" and "slack r' = slack r" and "\<And>s. ref_payload lim ih (q @ s) = Inr (p, s)"
  | q where "stream r = q @ stream r'" and "slack r' = slack r" and "ref_payload lim ih q = Inr (p, [])"
      and "rd_buf r' = []" and "rd_N r' \<le> 0 \<or> rd_src r' = []"
proof (cases "ih_Length ih")
  case None
  obtain l e r1 where rl: "readLine r (MaxItemBytes lim) = (l, e, r1)" by (metis prod_cases3)
  with None assms have a: "p = l" "r' = r1" "e = None \<or> e = Some LineEOF" by (auto simp: read_payload_def split: if_splits)
  note sp = readLine_spec [OF rl]
  from a(3) show thesis
  proof
    assume "e = None"
    with sp a None show thesis by (intro that(1) [of "l @ [newline]"]) (auto simp: ref_payload_def ref_line_def takeWhile_first)
  next
    assume "e = Some LineEOF"
    with sp a None show thesis by (intro that(2) [of l]) (auto simp: ref_payload_def ref_line_def)
  qed
next
  case (Some n)
  with assms obtain r1 b where b: "0 \<le> n" "n \<le> MaxItemBytes lim" "read_full (nat n) r = Some (p, r1)"
    "read_byte r1 = (b, r')" "b = None \<or> b = Some newline"
    by (auto simp: read_payload_def split: option.splits if_splits prod.splits)
  note sp = read_full_spec [OF b(3)] and bs = read_byte_spec [OF b(4)]
  from b(5) show thesis
  proof
    assume "b = None"
    with sp bs b Some show thesis by (intro that(2) [of p]) (auto simp: ref_payload_def)
  next
    assume "b = Some newline"
    with sp bs b Some show thesis by (intro that(1) [of "p @ [newline]"]) (auto simp: ref_payload_def)
  qed
qed

text \<open>One round of the reference parser over an item.\<close>

lemma ref_items_item:
  assumes "ref_line (MaxEnvelopeBytes lim) s = (l, e, s1)" and "\<not> blank l" and "\<not> MaxItems lim \<le> int (length items)"
    and "unmarshal dec_ItemHeader (bytes_str l) no_item = (ih, True)" and "ih_Type ih \<noteq> []" and "ref_payload lim ih s1 = Inr (p, s2)"
  shows "ref_items lim hdr items s = ref_items lim hdr (if ih_Type ih \<notin> set acceptedTypes then items else items @ [\<lparr>it_Header = ih, it_Payload = p\<rparr>]) s2"
  using assms by (subst ref_items.simps) simp

lemma parse_items_item:
  assumes "parse_items lim hdr items r = Inr env" and "readLine r (MaxEnvelopeBytes lim) = (l, e, r1)" and "\<not> blank l"
  obtains ih p r2 where "0 < rd_N r" and "\<not> MaxItems lim \<le> int (length items)" and "unmarshal dec_ItemHeader (bytes_str l) no_item = (ih, True)"
    and "ih_Type ih \<noteq> []" and "read_payload lim ih r1 = Inr (p, r2)"
    and "parse_items lim hdr (if ih_Type ih \<notin> set acceptedTypes then items else items @ [\<lparr>it_Header = ih, it_Payload = p\<rparr>]) r2 = Inr env"
  using assms by (subst (asm) parse_items.simps) (auto split: if_splits sum.splits prod.splits)

lemma parse_items_N: "parse_items lim hdr items r = Inr env \<Longrightarrow> 0 < rd_N r"
  by (subst (asm) parse_items.simps) (auto split: if_splits)

definition within_budget :: "Limits \<Rightarrow> EnvelopeHeader \<Rightarrow> Item list \<Rightarrow> reader \<Rightarrow> Envelope \<Rightarrow> bool" where
  "within_budget lim hdr items r env \<longleftrightarrow> (\<exists>c w more. stream r = c @ w @ more \<and> int (length c) < budget r \<and>
     ref_items lim hdr items c = Inr env \<and> blank w \<and> (more = [] \<or> budget r \<le> int (length c + length w)))"

lemma within_budget_prefix:
  assumes "within_budget lim hdr items' r' env" and "stream r = p @ stream r'" and "slack r' = slack r"
    and "\<And>c. ref_items lim hdr items' c = Inr env \<Longrightarrow> (stream r' = [] \<longrightarrow> c = []) \<Longrightarrow> ref_items lim hdr items (p @ c) = Inr env"
  shows "within_budget lim hdr items r env"
proof -
  from assms(1) obtain c w more where c: "stream r' = c @ w @ more" "int (length c) < budget r'" "ref_items lim hdr items' c = Inr env" "blank w"
    "more = [] \<or> budget r' \<le> int (length c + length w)" by (auto simp: within_budget_def)
  have "budget r = int (length p) + budget r'" using assms(2,3) by (simp add: budget_slack)
  with c assms(2,4) show ?thesis
    unfolding within_budget_def by (intro exI [of _ "p @ c"] exI [of _ w] exI [of _ more]) auto
qed

lemma parse_items_budget:
  "parse_items lim hdr items r = Inr env \<Longrightarrow> budget r \<le> MaxEnvelopeBytes lim \<Longrightarrow> within_budget lim hdr items r env"
proof (induction "length (stream r)" arbitrary: items r rule: less_induct)
  case less
  obtain l e r1 where rl: "readLine r (MaxEnvelopeBytes lim) = (l, e, r1)" by (metis prod_cases3)
  note N = parse_items_N [OF less.prems(1)] and sp = readLine_spec [OF rl]
  have N1: "0 \<le> rd_N r1" using N readLine_N [OF rl] by (simp add: N_drops_def)
  have b1: "budget r = budget r1 + int (length (stream r)) - int (length (stream r1))" using sp by (simp add: budget_slack)
  have e: "e \<noteq> Some LineTooLong"
  proof
    assume "e = Some LineTooLong"
    with sp obtain pre where "stream r = pre @ stream r1" "MaxEnvelopeBytes lim < int (length pre)" by auto
    with less.prems(2) b1 N1 show False by (simp add: budget_def)
  qed
  show ?case
  proof (cases "blank l")
    case bl: True
    show ?thesis
    proof (cases e)
      case None
      with less.prems(1) rl N bl have "parse_items lim hdr items r1 = Inr env" by (subst (asm) parse_items.simps) simp
      moreover have "length (stream r1) < length (stream r)" using None readLine_left [OF rl] by simp
      ultimately have "within_budget lim hdr items r1 env" using less.hyps less.prems(2) b1 by simp
      then show ?thesis
      proof (rule within_budget_prefix [where p = "l @ [newline]"])
        fix c assume c: "ref_items lim hdr items c = Inr env"
        have "ref_line (MaxEnvelopeBytes lim) (l @ newline # c) = (l, None, c)" using None sp by (simp add: ref_line_def takeWhile_first)
        with c bl show "ref_items lim hdr items ((l @ [newline]) @ c) = Inr env" by (subst ref_items.simps) simp
      qed (use None sp in auto)
    next
      case (Some d)
      with e have d: "e = Some LineEOF" by (cases d) auto
      with less.prems(1) rl N bl have env: "env = \<lparr>env_Header = hdr, env_Items = items\<rparr>" by (subst (asm) parse_items.simps) simp
      have "ref_items lim hdr items [] = Inr env" using less.prems(2) N env
        by (subst ref_items.simps) (simp add: ref_line_def budget_def)
      moreover have "stream r1 = [] \<or> budget r \<le> int (length l)" using sp d b1 by (auto simp: stream_def budget_def)
      ultimately show ?thesis unfolding within_budget_def using sp d bl N
        by (intro exI [of _ "[]"] exI [of _ l] exI [of _ "stream r1"]) (auto simp: budget_def)
    qed
  next
    case bl: False
    from parse_items_item [OF less.prems(1) rl bl] obtain ih p r2 where
      i: "\<not> MaxItems lim \<le> int (length items)" "unmarshal dec_ItemHeader (bytes_str l) no_item = (ih, True)" "ih_Type ih \<noteq> []"
        "read_payload lim ih r1 = Inr (p, r2)"
        "parse_items lim hdr (if ih_Type ih \<notin> set acceptedTypes then items else items @ [\<lparr>it_Header = ih, it_Payload = p\<rparr>]) r2 = Inr env"
        (is "parse_items lim hdr ?items r2 = _") by metis
    have N2: "0 < rd_N r2" "0 < rd_N r1" using parse_items_N [OF i(5)] read_payload_N [OF i(4)] N1 by (auto simp: N_drops_def)
    from read_payload_consumes [OF i(4)] obtain q where q: "stream r1 = q @ stream r2" "slack r2 = slack r1"
        "\<And>s. (stream r2 = [] \<longrightarrow> s = []) \<Longrightarrow> ref_payload lim ih (q @ s) = Inr (p, s)"
    proof cases
      case (1 q)
      then show thesis by (intro that [of q]) auto
    next
      case (2 q)
      then have "stream r2 = []" using N2 by (auto simp: stream_def)
      with 2 show thesis by (intro that [of q]) auto
    qed
    define pl where "pl = (if e = None then l @ [newline] else l)"
    have line: "stream r = pl @ stream r1" "slack r1 = slack r"
      "\<And>s. (e \<noteq> None \<longrightarrow> s = []) \<Longrightarrow> ref_line (MaxEnvelopeBytes lim) (pl @ s) = (l, e, s)" "e \<noteq> None \<Longrightarrow> stream r1 = []"
      using sp e N2 by (auto simp: pl_def ref_line_def takeWhile_first stream_def split: option.splits rl_err.splits)
    have "length (stream r2) < length (stream r)" using readLine_left [OF rl] read_payload_left [OF i(4)] bl by simp
    moreover have "budget r2 \<le> budget r" using b1 line(1) q(1,2) by (simp add: budget_slack)
    ultimately have "within_budget lim hdr ?items r2 env" using less.hyps i(5) less.prems(2) by simp
    then show ?thesis
    proof (rule within_budget_prefix [where p = "pl @ q"])
      fix c assume c: "ref_items lim hdr ?items c = Inr env" "stream r2 = [] \<longrightarrow> c = []"
      have "ref_line (MaxEnvelopeBytes lim) (pl @ q @ c) = (l, e, q @ c)" using line(3,4) q(1) c(2) by auto
      from ref_items_item [OF this bl i(1-3) q(3) [OF c(2)]] c(1) show "ref_items lim hdr items ((pl @ q) @ c) = Inr env" by simp
    qed (use line(1,2) q(1,2) in auto)
  qed
qed

lemma Parse_ok:
  assumes "Parse body lim = Inr env"
  shows "int (length (env_Items env)) \<le> MaxItems (lim_defaults lim)" and "list_all (item_ok (lim_defaults lim)) (env_Items env)"
    and "payload_bytes (env_Items env) < length body"
proof -
  let ?l = "lim_defaults lim" and ?r = "\<lparr>rd_buf = [], rd_src = body, rd_N = MaxEnvelopeBytes (lim_defaults lim) + 1\<rparr>"
  obtain l e r1 where rl: "readLine ?r (MaxEnvelopeBytes ?l) = (l, e, r1)" by (metis prod_cases3)
  obtain hdr ok where um: "unmarshal dec_EnvelopeHeader (bytes_str l) no_header = (hdr, ok)" by fastforce
  from assms rl um have e: "e = None" and p: "parse_items ?l hdr [] r1 = Inr env" by (auto simp: Parse_def Let_def split: if_splits)
  have "int (length ([] :: Item list)) \<le> MaxItems ?l" by (simp add: lim_defaults_def Let_def)
  from parse_items_ok [OF p this] show "int (length (env_Items env)) \<le> MaxItems ?l" "list_all (item_ok ?l) (env_Items env)" by auto
  have "payload_bytes (env_Items env) \<le> length (stream r1)" using parse_items_ok [OF p \<open>int (length []) \<le> _\<close>] by (auto simp: payload_bytes_def)
  moreover have "length (stream r1) < length body" using readLine_spec [OF rl] e by (auto simp: stream_def dest: arg_cong [of _ _ length])
  ultimately show "payload_bytes (env_Items env) < length body" by simp
qed

lemma Parse_budget:
  assumes "Parse body lim = Inr env"
  obtains c w more where "body = c @ w @ more" and "int (length c) \<le> MaxEnvelopeBytes (lim_defaults lim)" and "Parse c lim = Inr env"
    and "blank w" and "more = [] \<or> MaxEnvelopeBytes (lim_defaults lim) < int (length c + length w)"
proof -
  let ?l = "lim_defaults lim" and ?r = "\<lparr>rd_buf = [], rd_src = body, rd_N = MaxEnvelopeBytes (lim_defaults lim) + 1\<rparr>"
  obtain l e r1 where rl: "readLine ?r (MaxEnvelopeBytes ?l) = (l, e, r1)" by (metis prod_cases3)
  obtain hdr ok where um: "unmarshal dec_EnvelopeHeader (bytes_str l) no_header = (hdr, ok)" by fastforce
  from assms rl um have e: "e = None" and ok: "ok" and p: "parse_items ?l hdr [] r1 = Inr env"
    by (auto simp: Parse_def Let_def split: if_splits)
  from readLine_spec [OF rl] e have sp: "body = l @ newline # stream r1" "newline \<notin> set l" "int (length l) < MaxEnvelopeBytes ?l"
    "slack r1 = slack ?r" by (simp_all add: stream_def)
  then have b: "budget r1 = MaxEnvelopeBytes ?l - int (length l)" by (simp add: budget_slack slack_def)
  from parse_items_budget [OF p] b obtain c w more where
    c: "stream r1 = c @ w @ more" "int (length c) < budget r1" "ref_items ?l hdr [] c = Inr env" "blank w"
      "more = [] \<or> budget r1 \<le> int (length c + length w)" by (auto simp: within_budget_def)
  let ?c = "l @ newline # c"
  have len: "int (length ?c) \<le> MaxEnvelopeBytes ?l" using c(2) b by simp
  have "ref_line (MaxEnvelopeBytes ?l) ?c = (l, None, c)" using sp(2,3) by (simp add: ref_line_def takeWhile_first)
  with um ok c(3) have "ref_Parse ?c lim = Inr env" by (simp add: ref_Parse_def Let_def)
  with Parse_sim [OF len] have "Parse ?c lim = Inr env" by simp
  with len c(1,4,5) sp(1) b show thesis by (intro that [of ?c w more]) auto
qed

text \<open>A sample: a small event with newlines in its payload, and a session without a length.\<close>

definition sample_lim :: Limits where
  "sample_lim = \<lparr>MaxEnvelopeBytes = 1000, MaxItems = 2, MaxItemBytes = 10\<rparr>"

definition sample_env :: Envelope where
  "sample_env = \<lparr>env_Header = \<lparr>eh_EventID = ''ab'', eh_DSN = [], eh_SentAt = []\<rparr>,
     env_Items = [\<lparr>it_Header = \<lparr>ih_Type = ''event'', ih_Length = Some 3\<rparr>, it_Payload = [1, 10, 255]\<rparr>,
       \<lparr>it_Header = \<lparr>ih_Type = ''session'', ih_Length = None\<rparr>, it_Payload = [1, 2]\<rparr>]\<rparr>"

lemma sample_env_ok:
  "ascii (eh_EventID (env_Header sample_env))" "ascii (eh_DSN (env_Header sample_env))" "ascii (eh_SentAt (env_Header sample_env))"
  "list_all (renderable (lim_defaults sample_lim)) (env_Items sample_env)" "int (length (env_Items sample_env)) \<le> MaxItems (lim_defaults sample_lim)"
  "int (length (render sample_env)) \<le> MaxEnvelopeBytes (lim_defaults sample_lim)"
proof -
  show "int (length (render sample_env)) \<le> MaxEnvelopeBytes (lim_defaults sample_lim)"
    by (simp add: sample_env_def sample_lim_def lim_defaults_def render_def render_item_def str_line_def header_json_def item_json_def
      print_str_def print_char_def int_str_def dec_str.simps)
qed (simp_all add: sample_env_def sample_lim_def lim_defaults_def ascii_def renderable_def item_ok_def acceptedTypes_def newline_def)

section \<open>Properties\<close>

text \<open>C33. Whatever bytes arrive, an envelope the parser accepts is within all three limits. It has at most
  \<open>MaxItems\<close> items, all of accepted types; each payload is at most \<open>MaxItemBytes\<close> long and exactly as long as its
  header announces if it does; and it was read from a prefix \<open>c\<close> of the input of at most \<open>MaxEnvelopeBytes\<close> bytes,
  which alone parses to the same envelope, so that all payloads together stay below that limit. An input longer than the limit is
  accepted only if the bytes from the end of that prefix until past the limit are blank (\<open>w\<close>); what follows them
  (\<open>more\<close>) is never looked at.\<close>

theorem Parse_within_limits:
  assumes "Parse body lim = Inr env"
  shows "int (length (env_Items env)) \<le> MaxItems (lim_defaults lim) \<and> list_all (item_ok (lim_defaults lim)) (env_Items env) \<and>
    int (payload_bytes (env_Items env)) < MaxEnvelopeBytes (lim_defaults lim) \<and>
    (\<exists>c w more. body = c @ w @ more \<and> int (length c) \<le> MaxEnvelopeBytes (lim_defaults lim) \<and> Parse c lim = Inr env \<and>
       blank w \<and> (more = [] \<or> MaxEnvelopeBytes (lim_defaults lim) < int (length c + length w)))"
proof -
  from Parse_budget [OF assms] obtain c w more where c: "body = c @ w @ more" "int (length c) \<le> MaxEnvelopeBytes (lim_defaults lim)"
    "Parse c lim = Inr env" "blank w" "more = [] \<or> MaxEnvelopeBytes (lim_defaults lim) < int (length c + length w)" .
  from Parse_ok [OF c(3)] c(2) have "int (length (env_Items env)) \<le> MaxItems (lim_defaults lim)" "list_all (item_ok (lim_defaults lim)) (env_Items env)"
    "int (payload_bytes (env_Items env)) < MaxEnvelopeBytes (lim_defaults lim)" by auto
  with c show ?thesis by blast
qed

theorem Parse_within_limits_witness:
  "Parse (render sample_env) sample_lim = Inr sample_env \<and> int (payload_bytes (env_Items sample_env)) < MaxEnvelopeBytes (lim_defaults sample_lim)"
  using Parse_within_limits [OF rendered_parses [OF sample_env_ok]] rendered_parses [OF sample_env_ok] by simp

text \<open>Buffering is invisible: on every input within the envelope limit the parser that reads through the 64 KiB buffer and the
  limited reader gives the same result, envelope or error, as a parser on the plain byte sequence.\<close>

theorem Parse_unbuffered:
  assumes "int (length body) \<le> MaxEnvelopeBytes (lim_defaults lim)"
  shows "Parse body lim = ref_Parse body lim"
  by (rule Parse_sim [OF assms])

theorem Parse_unbuffered_witness: "ref_Parse (render sample_env) sample_lim = Inr sample_env"
  using Parse_unbuffered [OF sample_env_ok(6)] rendered_parses [OF sample_env_ok] by simp

text \<open>C34. Parsing inverts rendering: an envelope with ASCII header fields and items of accepted types within the limits, with any
  payload bytes under an explicit length or newline-free payloads without one, is read back exactly.\<close>

theorem Parse_inverts_render:
  assumes "ascii (eh_EventID (env_Header env))" and "ascii (eh_DSN (env_Header env))" and "ascii (eh_SentAt (env_Header env))"
    and "list_all (renderable (lim_defaults lim)) (env_Items env)" and "int (length (env_Items env)) \<le> MaxItems (lim_defaults lim)"
    and "int (length (render env)) \<le> MaxEnvelopeBytes (lim_defaults lim)"
  shows "Parse (render env) lim = Inr env"
  by (rule rendered_parses [OF assms])

theorem Parse_inverts_render_witness: "Parse (render sample_env) sample_lim = Inr sample_env"
  by (rule Parse_inverts_render) (fact sample_env_ok)+

end
