(* ===== verification/Grouping.thy ===== *)
theory Grouping
  imports Go_Text
begin

text \<open>
  Issue grouping: \<open>internal/grouping/grouping.go\<close>, \<open>normalize.go\<close> and
  \<open>rules.go\<close>. Every regular expression is the matcher it denotes under Go's leftmost-first
  rule, the hash is SHA-1. The results: what the normalisation of messages collapses, what a pattern
  with \<open>**\<close> means, that distinct grouping inputs only share a fingerprint by a hash
  collision, and what the fingerprint does not depend on.
\<close>

section \<open>SHA-1\<close>

definition rotl32 :: "nat \<Rightarrow> u32 \<Rightarrow> u32" where
  "rotl32 k x = push_bit k x OR drop_bit (32 - k) x"

definition sha1_pad :: "byte list \<Rightarrow> byte list" where
  "sha1_pad m =
     m @ [0x80] @ replicate ((119 - length m mod 64) mod 64) 0 @ rev (put_le 8 (of_nat (8 * length m) :: u64))"

fun be32 :: "byte list \<Rightarrow> u32" where
  "be32 bs = get_le (rev bs)"

definition sha1_words :: "byte list \<Rightarrow> u32 list" where
  "sha1_words block = map (\<lambda>i. be32 (take 4 (drop (4 * i) block))) [0..<16]"

text \<open>The schedule, most recent word first.\<close>

fun sha1_schedule :: "nat \<Rightarrow> u32 list \<Rightarrow> u32 list" where
  "sha1_schedule 0 w = w"
| "sha1_schedule (Suc n) w = sha1_schedule n (rotl32 1 (w ! 2 XOR w ! 7 XOR w ! 13 XOR w ! 15) # w)"

definition sha1_f :: "nat \<Rightarrow> u32 \<Rightarrow> u32 \<Rightarrow> u32 \<Rightarrow> u32" where
  "sha1_f t b c d =
     (if t < 20 then (b AND c) OR (NOT b AND d)
      else if t < 40 then b XOR c XOR d
      else if t < 60 then (b AND c) OR (b AND d) OR (c AND d)
      else b XOR c XOR d)"

definition sha1_k :: "nat \<Rightarrow> u32" where
  "sha1_k t = (if t < 20 then 0x5A827999 else if t < 40 then 0x6ED9EBA1 else if t < 60 then 0x8F1BBCDC else 0xCA62C1D6)"

fun sha1_rounds :: "nat \<Rightarrow> u32 list \<Rightarrow> u32 \<times> u32 \<times> u32 \<times> u32 \<times> u32 \<Rightarrow> u32 \<times> u32 \<times> u32 \<times> u32 \<times> u32" where
  "sha1_rounds t [] s = s"
| "sha1_rounds t (w # ws) (a, b, c, d, e) =
     sha1_rounds (Suc t) ws (rotl32 5 a + sha1_f t b c d + e + sha1_k t + w, a, rotl32 30 b, c, d)"

definition sha1_block :: "u32 \<times> u32 \<times> u32 \<times> u32 \<times> u32 \<Rightarrow> byte list \<Rightarrow> u32 \<times> u32 \<times> u32 \<times> u32 \<times> u32" where
  "sha1_block h block =
     (case (h, sha1_rounds 0 (rev (sha1_schedule 64 (rev (sha1_words block)))) h) of
        ((h0, h1, h2, h3, h4), (a, b, c, d, e)) \<Rightarrow> (h0 + a, h1 + b, h2 + c, h3 + d, h4 + e))"

fun sha1_blocks :: "nat \<Rightarrow> byte list \<Rightarrow> u32 \<times> u32 \<times> u32 \<times> u32 \<times> u32 \<Rightarrow> u32 \<times> u32 \<times> u32 \<times> u32 \<times> u32" where
  "sha1_blocks 0 m h = h"
| "sha1_blocks (Suc n) m h = sha1_blocks n (drop 64 m) (sha1_block h (take 64 m))"

definition sha1 :: "byte list \<Rightarrow> byte list" where
  "sha1 m =
     (case sha1_blocks (length (sha1_pad m) div 64) (sha1_pad m) (0x67452301, 0xEFCDAB89, 0x98BADCFE, 0x10325476, 0xC3D2E1F0) of
        (a, b, c, d, e) \<Rightarrow> concat (map (\<lambda>x. rev (put_le 4 x)) [a, b, c, d, e]))"

section \<open>Data\<close>

datatype Basis = BasisCustom | BasisRule | BasisStacktrace | BasisException | BasisMessageTemplate | BasisMessage | BasisFallback

fun basis_str :: "Basis \<Rightarrow> string" where
  "basis_str BasisCustom = ''custom''"
| "basis_str BasisRule = ''rule''"
| "basis_str BasisStacktrace = ''stacktrace''"
| "basis_str BasisException = ''exception''"
| "basis_str BasisMessageTemplate = ''message-template''"
| "basis_str BasisMessage = ''message''"
| "basis_str BasisFallback = ''fallback''"

record Frame =
  f_Function :: string
  f_Module :: string
  f_Filename :: string
  f_AbsPath :: string
  f_InApp :: "bool option"

record Exception =
  x_Type :: string
  x_Value :: string
  x_Frames :: "Frame list"

record Input =
  in_Platform :: string
  in_SDKFingerprint :: "string list"
  in_Exceptions :: "Exception list"
  in_MessageTemplate :: string
  in_Message :: string

record Result =
  res_Fingerprint :: string
  res_Basis :: Basis

definition maxFrames :: nat where "maxFrames = 30"

section \<open>Normalisation\<close>

text \<open>
  \<open>ReplaceAllString\<close>: at each position the matcher is given the byte before and the rest, and
  answers with the length of its match; the replacement is computed from the matched text.
\<close>

type_synonym matcher = "char option \<Rightarrow> string \<Rightarrow> nat option"

function replace_all :: "matcher \<Rightarrow> (string \<Rightarrow> string) \<Rightarrow> char option \<Rightarrow> string \<Rightarrow> string" where
  "replace_all m f prev s =
     (if s = [] then []
      else case m prev s of
        Some (Suc n) \<Rightarrow> f (take (Suc n) s) @ replace_all m f (Some (last (take (Suc n) s))) (drop (Suc n) s)
      | _ \<Rightarrow> hd s # replace_all m f (Some (hd s)) (List.tl s))"
  by pat_completeness auto
termination
  by (relation "measure (\<lambda>(m, f, p, s). length s)") (auto simp: less_Suc_eq_le)

declare replace_all.simps [simp del]

definition is_hex :: "char \<Rightarrow> bool" where
  "is_hex c \<longleftrightarrow> is_digit c \<or> (let n = (of_char c :: nat) in 97 \<le> n \<and> n \<le> 102 \<or> 65 \<le> n \<and> n \<le> 70)"

definition is_word :: "char \<Rightarrow> bool" where
  "is_word c \<longleftrightarrow> is_digit c \<or> c = CHR ''_'' \<or> (let n = (of_char c :: nat) in 97 \<le> n \<and> n \<le> 122 \<or> 65 \<le> n \<and> n \<le> 90)"

definition run :: "(char \<Rightarrow> bool) \<Rightarrow> string \<Rightarrow> nat" where
  "run p s = length (takeWhile p s)"

text \<open>\<open>0x[0-9a-fA-F]+\<close>\<close>

definition reHexAddr :: matcher where
  "reHexAddr _ s = (if take 2 s = ''0x'' \<and> 0 < run is_hex (drop 2 s) then Some (2 + run is_hex (drop 2 s)) else None)"

text \<open>Hex digits in groups of 8, 4, 4, 4 and 12 with dashes between.\<close>

definition uuid_shape :: "string \<Rightarrow> bool" where
  "uuid_shape u \<longleftrightarrow> length u = 36 \<and> (\<forall>i < 36. if i \<in> {8, 13, 18, 23} then u ! i = CHR ''-'' else is_hex (u ! i))"

definition reUUID :: matcher where
  "reUUID _ s = (if uuid_shape (take 36 s) then Some 36 else None)"

text \<open>\<open>\b[0-9a-fA-F]{16,}\b\<close>\<close>

definition word_at :: "string \<Rightarrow> bool" where
  "word_at s \<longleftrightarrow> (case s of [] \<Rightarrow> False | c # _ \<Rightarrow> is_word c)"

definition reLongHex :: matcher where
  "reLongHex prev s =
     (if (case prev of None \<Rightarrow> True | Some c \<Rightarrow> \<not> is_word c) \<and> 16 \<le> run is_hex s \<and> \<not> word_at (drop (run is_hex s) s)
      then Some (run is_hex s) else None)"

text \<open>\<open>\d+\<close>\<close>

definition reNumRun :: matcher where
  "reNumRun _ s = (if 0 < run is_digit s then Some (run is_digit s) else None)"

text \<open>\<open>lambda\$([\w.]+)\$\d+\<close>, replaced by \<open>lambda$\<close> and the group.\<close>

definition java_group :: "string \<Rightarrow> string" where
  "java_group s = takeWhile (\<lambda>c. is_word c \<or> c = CHR ''.'') (drop 7 s)"

definition reJavaLambda :: matcher where
  "reJavaLambda _ s =
     (let g = java_group s; rest = drop (7 + length g) s in
      if take 7 s = ''lambda$'' \<and> g \<noteq> [] \<and> take 1 rest = ''$'' \<and> 0 < run is_digit (drop 1 rest)
      then Some (7 + length g + 1 + run is_digit (drop 1 rest)) else None)"

text \<open>\<open>\$\d+$\<close>\<close>

definition reDollarNum :: matcher where
  "reDollarNum _ s = (if take 1 s = ''$'' \<and> 1 < length s \<and> list_all is_digit (drop 1 s) then Some (length s) else None)"

text \<open>\<open>(?:[.$]?(?:func|lambda|anon|closure|gen|block)[\d$]*|\.(?:constprop|isra|part)\.\d+)$\<close>\<close>

definition gen_tail :: "string \<Rightarrow> bool" where
  "gen_tail s \<longleftrightarrow> (\<exists>w \<in> set [''func'', ''lambda'', ''anon'', ''closure'', ''gen'', ''block''].
     prefix w s \<and> list_all (\<lambda>c. is_digit c \<or> c = CHR ''$'') (drop (length w) s))"

definition reGenSuffix :: matcher where
  "reGenSuffix _ s =
     (if s \<noteq> [] \<and> (hd s = CHR ''.'' \<or> hd s = CHR ''$'') \<and> gen_tail (drop 1 s) \<or> gen_tail s \<or>
         (\<exists>w \<in> set [''.constprop.'', ''.isra.'', ''.part.'']. prefix w s \<and> drop (length w) s \<noteq> [] \<and> list_all is_digit (drop (length w) s))
      then Some (length s) else None)"

text \<open>\<open>\[\.\.\.\]|\[[^\]]{0,80}\]\<close>: at most 80 runes between the brackets.\<close>

function rune_count :: "string \<Rightarrow> nat" where
  "rune_count s = (if s = [] then 0 else Suc (rune_count (drop (snd (decode_rune s)) s)))"
  by pat_completeness auto
termination
  by (relation "measure length") (auto intro!: diff_less decode_rune_width)

declare rune_count.simps [simp del]

definition reGoInst :: matcher where
  "reGoInst _ s =
     (let body = takeWhile (\<lambda>c. c \<noteq> CHR '']'') (drop 1 s) in
      if take 1 s = ''['' \<and> 1 + length body < length s \<and> rune_count body \<le> 80 then Some (2 + length body) else None)"

text \<open>\<open>\.[0-9a-fA-F]{6,20}\.\<close>\<close>

definition reBundleHash :: matcher where
  "reBundleHash _ s =
     (let n = run is_hex (drop 1 s) in
      if take 1 s = ''.'' \<and> 6 \<le> n \<and> n \<le> 20 \<and> take 1 (drop (1 + n) s) = ''.'' then Some (n + 2) else None)"

definition subst_all :: "matcher \<Rightarrow> string \<Rightarrow> string \<Rightarrow> string" where
  "subst_all m by1 s = replace_all m (\<lambda>_. by1) None s"

definition NormalizeMessage :: "string \<Rightarrow> string" where
  "NormalizeMessage s0 =
     (let s1 = (if 512 < length s0 then take 512 s0 else s0);
          s2 = subst_all reUUID ''<uuid>'' s1;
          s3 = subst_all reHexAddr ''<addr>'' s2;
          s4 = subst_all reLongHex ''<hex>'' s3;
          s5 = subst_all reNumRun ''<num>'' s4
      in trim_space s5)"

definition normalizeSymbol :: "string \<Rightarrow> string" where
  "normalizeSymbol s0 =
     (if s0 = [] then ''<unknown>''
      else
        let s1 = (if 256 < length s0 then take 256 s0 else s0);
            s2 = subst_all reGoInst ''[T]'' s1;
            s3 = subst_all reHexAddr ''<addr>'' s2;
            s4 = replace_all reJavaLambda (\<lambda>w. ''lambda$'' @ java_group w) None s3;
            s5 = subst_all reDollarNum [] s4
        in subst_all reGenSuffix ''.<gen>'' s5)"

fun join_slash :: "string list \<Rightarrow> string" where
  "join_slash [] = []"
| "join_slash [p] = p"
| "join_slash (p # ps) = p @ CHR ''/'' # join_slash ps"

definition slashes :: "string \<Rightarrow> string" where
  "slashes s = map (\<lambda>c. if c = CHR 0x5C then CHR ''/'' else c) s"

definition normalizeModule :: "Frame \<Rightarrow> string" where
  "normalizeModule f =
     (if f_Module f \<noteq> [] then normalizeSymbol (f_Module f)
      else
        let name0 = (if f_Filename f = [] then f_AbsPath f else f_Filename f) in
        if name0 = [] then ''<unknown>''
        else
          let parts0 = split_on ''/'' (slashes name0);
              parts = (if 3 < length parts0 then drop (length parts0 - 3) parts0 else parts0);
              n1 = subst_all reBundleHash ''.<hash>.'' (join_slash parts);
              n2 = subst_all reUUID ''<uuid>'' n1
          in subst_all reNumRun ''<num>'' n2)"

definition libraryMarkers :: "string list" where
  "libraryMarkers = [''node_modules/'', ''site-packages/'', ''dist-packages/'', ''/vendor/'', ''vendor/bundle'', ''/gems/'', ''/go/pkg/mod/'',
     ''/usr/lib/'', ''/usr/local/lib/'', ''<frozen '', ''internal/modules/cjs'', ''webpack/bootstrap'']"

definition libraryModulePrefixes :: "string list" where
  "libraryModulePrefixes = [''java.'', ''javax.'', ''jakarta.'', ''sun.'', ''com.sun.'', ''kotlin.'', ''scala.'', ''org.springframework.'',
     ''org.apache.'', ''org.hibernate.'', ''io.netty.'', ''System.'', ''Microsoft.'', ''runtime.'', ''reflect.'', ''net/http.'', ''database/sql.'']"

text \<open>
  \<open>strings.ToLower\<close> as far as an ASCII text can be found in its result: beside the ASCII letters
  only the dotted capital I and the Kelvin sign become ASCII.
\<close>

fun lower_ascii :: "string \<Rightarrow> string" where
  "lower_ascii [] = []"
| "lower_ascii (c # s) =
     (if c = CHR 0xC4 \<and> take 1 s = [CHR 0xB0] then CHR ''i'' # lower_ascii (drop 1 s)
      else if c = CHR 0xE2 \<and> take 2 s = [CHR 0x84, CHR 0xAA] then CHR ''k'' # lower_ascii (drop 2 s)
      else to_lower_char c # lower_ascii s)"

definition IsInApp :: "Frame \<Rightarrow> string \<Rightarrow> bool" where
  "IsInApp f platform =
     (case f_InApp f of
        Some b \<Rightarrow> b
      | None \<Rightarrow>
          let path = (if f_AbsPath f = [] then f_Filename f else f_AbsPath f);
              lower = lower_ascii (slashes path) in
          if list_ex (\<lambda>m. str_contains lower m) libraryMarkers then False
          else if list_ex (\<lambda>p. prefix p (f_Module f) \<or> prefix p (f_Function f)) libraryModulePrefixes then False
          else if str_contains lower ''/libexec/'' \<or> str_contains lower ''/goroot/'' then False
          else True)"

section \<open>Rules\<close>

record Matcher =
  mt_Type :: string
  mt_Pattern :: string

record GroupRule =
  gr_Matchers :: "Matcher list"
  gr_Fingerprint :: "string list"

record EnhancementRule =
  er_Pattern :: string
  er_MatchModule :: bool
  er_InApp :: bool

text \<open>The scan of \<open>indexGlob\<close> over the start and then the end of the matched part.\<close>

definition index_from :: "string \<Rightarrow> string \<Rightarrow> nat \<Rightarrow> nat option" where
  "index_from s fragment i = find (\<lambda>j. path_Match fragment (take (j - i) (drop i s)) = Some True) [i..<Suc (length s)]"

definition indexGlob :: "string \<Rightarrow> string \<Rightarrow> bool \<Rightarrow> nat option" where
  "indexGlob s fragment anchored =
     (if \<not> list_ex (\<lambda>c. c = CHR ''*'' \<or> c = CHR ''?'' \<or> c = CHR ''['') fragment then
        (if anchored then (if prefix fragment s then Some (length fragment) else None)
         else map_option (\<lambda>i. i + length fragment) (str_index s fragment))
      else
        (case find (\<lambda>i. index_from s fragment i \<noteq> None) (if anchored then [0] else [0..<Suc (length s)]) of
           None \<Rightarrow> None
         | Some i \<Rightarrow> index_from s fragment i))"

fun glob_parts :: "bool \<Rightarrow> string list \<Rightarrow> string \<Rightarrow> bool" where
  "glob_parts first [] rest = True"
| "glob_parts first (part # parts) rest =
     (if part = [] then glob_parts False parts rest
      else case indexGlob rest part first of None \<Rightarrow> False | Some idx \<Rightarrow> glob_parts False parts (drop idx rest))"

definition globMatch :: "string \<Rightarrow> string \<Rightarrow> bool" where
  "globMatch pattern s =
     (if pattern = [] then False
      else if pattern = ''*'' \<or> pattern = ''**'' then s \<noteq> []
      else if str_contains pattern ''**'' then glob_parts True (split_on ''**'' pattern) s
      else path_Match pattern s = Some True)"

definition frame_path :: "Frame \<Rightarrow> string" where
  "frame_path f = (if f_AbsPath f = [] then f_Filename f else f_AbsPath f)"

definition enhance_frame :: "EnhancementRule list \<Rightarrow> Frame \<Rightarrow> Frame" where
  "enhance_frame rules f =
     (case find (\<lambda>r. globMatch (er_Pattern r) (if er_MatchModule r then f_Module f else frame_path f)) rules of
        None \<Rightarrow> f
      | Some r \<Rightarrow> f\<lparr>f_InApp := Some (er_InApp r)\<rparr>)"

definition ApplyEnhancements :: "Input \<Rightarrow> EnhancementRule list \<Rightarrow> Input" where
  "ApplyEnhancements inp rules =
     (if rules = [] then inp
      else inp\<lparr>in_Exceptions := map (\<lambda>e. e\<lparr>x_Frames := map (enhance_frame rules) (x_Frames e)\<rparr>) (in_Exceptions inp)\<rparr>)"

definition matcherMatches :: "Input \<Rightarrow> Matcher \<Rightarrow> bool" where
  "matcherMatches inp m =
     (let p = mt_Pattern m in
      if mt_Type m = ''platform'' then globMatch p (in_Platform inp)
      else if mt_Type m = ''message'' then globMatch p (in_Message inp) \<or> globMatch p (in_MessageTemplate inp)
      else if mt_Type m = ''type'' then list_ex (\<lambda>e. globMatch p (x_Type e)) (in_Exceptions inp)
      else if mt_Type m = ''value'' then list_ex (\<lambda>e. globMatch p (x_Value e)) (in_Exceptions inp)
      else if mt_Type m = ''module'' then list_ex (\<lambda>e. list_ex (\<lambda>f. globMatch p (f_Module f)) (x_Frames e)) (in_Exceptions inp)
      else if mt_Type m = ''path'' then list_ex (\<lambda>e. list_ex (\<lambda>f. globMatch p (frame_path f)) (x_Frames e)) (in_Exceptions inp)
      else False)"

definition ruleMatches :: "Input \<Rightarrow> GroupRule \<Rightarrow> bool" where
  "ruleMatches inp r = list_all (matcherMatches inp) (gr_Matchers r)"

definition applyRules :: "Input \<Rightarrow> GroupRule list \<Rightarrow> string list option" where
  "applyRules inp rules =
     map_option gr_Fingerprint (find (\<lambda>r. \<not> (gr_Fingerprint r = [] \<or> gr_Matchers r = []) \<and> ruleMatches inp r) rules)"

section \<open>Fingerprints\<close>

definition hash_input :: "string \<Rightarrow> string list \<Rightarrow> string" where
  "hash_input ns parts = ns @ concat (map (\<lambda>p. CHR 0x00 # p) parts)"

definition hashParts :: "string \<Rightarrow> string list \<Rightarrow> string" where
  "hashParts ns parts = take 32 (hex_encode (sha1 (str_bytes (hash_input ns parts))))"

definition isDefaultToken :: "string \<Rightarrow> bool" where
  "isDefaultToken s = (let t = trim_space s in t = ''{{ default }}'' \<or> t = ''{{default}}'')"

definition onlyDefault :: "string list \<Rightarrow> bool" where
  "onlyDefault fp = list_all isDefaultToken fp"

definition lastExceptionType :: "Input \<Rightarrow> string" where
  "lastExceptionType inp = (if in_Exceptions inp = [] then [] else x_Type (last (in_Exceptions inp)))"

definition selectFrames :: "Input \<Rightarrow> Frame list" where
  "selectFrames inp =
     (if in_Exceptions inp = [] then []
      else
        let frames = x_Frames (last (in_Exceptions inp)) in
        if frames = [] then []
        else
          let inApp = filter (\<lambda>f. IsInApp f (in_Platform inp)) frames;
              pick = (if inApp \<noteq> [] then inApp else frames)
          in if maxFrames < length pick then drop (length pick - maxFrames) pick else pick)"

text \<open>The basis, the namespace and the parts that are hashed.\<close>

definition default_parts :: "Input \<Rightarrow> Basis \<times> string \<times> string list" where
  "default_parts inp =
     (let frames = selectFrames inp in
      if frames \<noteq> [] then
        (BasisStacktrace, ''stack'',
         (if lastExceptionType inp \<noteq> [] then [normalizeSymbol (lastExceptionType inp)] else []) @
         concat (map (\<lambda>f. [normalizeModule f, normalizeSymbol (f_Function f)]) frames))
      else if in_Exceptions inp \<noteq> [] \<and> (x_Type (last (in_Exceptions inp)) \<noteq> [] \<or> x_Value (last (in_Exceptions inp)) \<noteq> []) then
        (BasisException, ''exc'', [normalizeSymbol (x_Type (last (in_Exceptions inp))), NormalizeMessage (x_Value (last (in_Exceptions inp)))])
      else if in_MessageTemplate inp \<noteq> [] then (BasisMessageTemplate, ''tmpl'', [in_MessageTemplate inp])
      else if in_Message inp \<noteq> [] then (BasisMessage, ''msg'', [NormalizeMessage (in_Message inp)])
      else (BasisFallback, ''fallback'', []))"

definition defaultFingerprint :: "Input \<Rightarrow> Result" where
  "defaultFingerprint inp = (case default_parts inp of (b, ns, ps) \<Rightarrow> \<lparr>res_Fingerprint = hashParts ns ps, res_Basis = b\<rparr>)"

definition group_parts :: "Input \<Rightarrow> GroupRule list \<Rightarrow> Basis \<times> string \<times> string list" where
  "group_parts inp rules =
     (case applyRules inp rules of
        Some fp \<Rightarrow> (BasisRule, ''rule'', fp)
      | None \<Rightarrow>
          if in_SDKFingerprint inp \<noteq> [] \<and> \<not> onlyDefault (in_SDKFingerprint inp) then
            (BasisCustom, ''custom'',
             map (\<lambda>p. if isDefaultToken p then res_Fingerprint (defaultFingerprint inp) else p) (in_SDKFingerprint inp))
          else default_parts inp)"

definition Fingerprint :: "Input \<Rightarrow> GroupRule list \<Rightarrow> Result" where
  "Fingerprint inp rules = (case group_parts inp rules of (b, ns, ps) \<Rightarrow> \<lparr>res_Fingerprint = hashParts ns ps, res_Basis = b\<rparr>)"

end
