(* ===== verification/Grouping_Props.thy ===== *)
theory Grouping_Props
  imports Grouping
begin

text \<open>
  Properties of grouping: what message normalisation collapses, what a \<open>**\<close> pattern
  means, the shape and the pre-image of fingerprints, and the frames and exceptions a default fingerprint does not
  depend on.
\<close>

section \<open>Replacing tokens between separators\<close>

text \<open>A separator is no word character and no dash: no token of the message patterns contains one.\<close>

definition sep :: "char \<Rightarrow> bool" where
  "sep c \<longleftrightarrow> \<not> is_word c \<and> c \<noteq> CHR ''-''"

lemma hex_word: "is_hex c \<Longrightarrow> is_word c"
  by (auto simp: is_hex_def is_word_def Let_def)

lemma sep_not: "sep c \<Longrightarrow> \<not> is_hex c" "sep c \<Longrightarrow> \<not> is_digit c" "sep c \<Longrightarrow> c \<noteq> CHR ''x''" "sep c \<Longrightarrow> c \<noteq> CHR ''0''"
  using hex_word by (auto simp: sep_def is_word_def is_digit_def Let_def)

lemma takeWhile_stop: "\<not> p b \<Longrightarrow> takeWhile p (s @ b # t) = takeWhile p s"
  by (induction s) auto

lemma run_stop: "\<not> p b \<Longrightarrow> run p (s @ b # t) = run p s"
  by (simp add: run_def takeWhile_stop)

lemma run_le: "run p s \<le> length s"
  by (simp add: run_def length_takeWhile_le)

text \<open>
  A matcher that sees nothing beyond a separator: replacing then works on the pieces between separators
  independently.
\<close>

locale token_matcher =
  fixes m :: matcher
  assumes right: "\<And>prev s b t. s \<noteq> [] \<Longrightarrow> sep b \<Longrightarrow> m prev (s @ b # t) = m prev s"
    and at_sep: "\<And>prev b t. sep b \<Longrightarrow> m prev (b # t) = None"
    and within: "\<And>prev s n. m prev s = Some n \<Longrightarrow> n \<le> length s"
    and left: "\<And>b s. sep b \<Longrightarrow> m (Some b) s = m None s"
begin

lemma after_sep: "sep b \<Longrightarrow> replace_all m f (Some b) s = replace_all m f None s"
  by (subst (1 2) replace_all.simps) (simp add: left)

lemma replace_sep: "sep b \<Longrightarrow> replace_all m f p (s @ b # t) = replace_all m f p s @ b # replace_all m f None t"
proof (induction "length s" arbitrary: p s rule: less_induct)
  case less
  show ?case
  proof (cases "s = []")
    case True
    have "replace_all m f p (b # t) = b # replace_all m f None t"
      by (subst replace_all.simps) (simp add: at_sep [OF less.prems] after_sep [OF less.prems])
    moreover have "replace_all m f p [] = []" by (subst replace_all.simps) simp
    ultimately show ?thesis using True by simp
  next
    case False
    note r = right [OF False less.prems, of p t]
    show ?thesis
    proof (cases "\<exists>n. m p s = Some (Suc n)")
      case True
      then obtain n where n: "m p s = Some (Suc n)" by blast
      have len: "Suc n \<le> length s" by (rule within [OF n])
      then have "length (drop (Suc n) s) < length s" by simp
      from less.hyps [OF this less.prems] len r n False
      show ?thesis by (subst (1 2) replace_all.simps) simp
    next
      case no: False
      then have c: "(case m p s of Some (Suc n) \<Rightarrow> X n | _ \<Rightarrow> Y) = Y" for X :: "nat \<Rightarrow> string" and Y by (auto split: option.splits nat.splits)
      obtain a s' where s: "s = a # s'" using False by (cases s) auto
      from less.hyps [of s' "Some a"] less.prems s have "replace_all m f (Some a) (s' @ b # t) = replace_all m f (Some a) s' @ b # replace_all m f None t" by simp
      with r c s show ?thesis by (subst (1 2) replace_all.simps) simp
    qed
  qed
qed

lemma subst_sep: "sep b \<Longrightarrow> subst_all m w (s @ b # t) = subst_all m w s @ b # subst_all m w t"
  by (simp add: subst_all_def replace_sep)

end

lemma reHexAddr_right: "s \<noteq> [] \<Longrightarrow> sep b \<Longrightarrow> reHexAddr p (s @ b # t) = reHexAddr p s"
proof (cases "2 \<le> length s")
  case True
  then show "sep b \<Longrightarrow> ?thesis" by (simp add: reHexAddr_def run_stop sep_not)
next
  case False
  assume "s \<noteq> []" "sep b"
  then obtain a where "s = [a]" using False by (cases s; cases "List.tl s") auto
  then show ?thesis using sep_not(3) [OF \<open>sep b\<close>] by (simp add: reHexAddr_def)
qed

interpretation addr: token_matcher reHexAddr
proof
  show "reHexAddr prev (s @ b # t) = reHexAddr prev s" if "s \<noteq> []" "sep b" for prev s b t using reHexAddr_right that by blast
  show "reHexAddr prev (b # t) = None" if "sep b" for prev b t using sep_not(4) [OF that] by (simp add: reHexAddr_def)
  show "n \<le> length s" if "reHexAddr prev s = Some n" for prev s n
  proof -
    from that have n: "n = 2 + run is_hex (drop 2 s)" "0 < run is_hex (drop 2 s)" by (auto simp: reHexAddr_def split: if_splits)
    have "run is_hex (drop 2 s) \<le> length s - 2" using run_le [of is_hex "drop 2 s"] by simp
    with n show ?thesis by linarith
  qed
  show "reHexAddr (Some b) s = reHexAddr None s" if "sep b" for b s by (simp add: reHexAddr_def)
qed

lemma uuid_shape_sep: "uuid_shape (take 36 (s @ b # t)) \<Longrightarrow> sep b \<Longrightarrow> 36 \<le> length s"
proof (rule ccontr)
  assume u: "uuid_shape (take 36 (s @ b # t))" and b: "sep b" and "\<not> 36 \<le> length s"
  then have i: "length s < 36" by simp
  then have "take 36 (s @ b # t) ! length s = b" by (simp add: nth_append del: take_append)
  moreover have "take 36 (s @ b # t) ! length s = CHR ''-'' \<or> is_hex (take 36 (s @ b # t) ! length s)"
    using u i unfolding uuid_shape_def by meson
  ultimately show False using b sep_not(1) [OF b] by (simp add: sep_def)
qed

interpretation uuid: token_matcher reUUID
proof
  show "reUUID prev (s @ b # t) = reUUID prev s" if "s \<noteq> []" "sep b" for prev s b t
  proof (cases "36 \<le> length s")
    case True
    then show ?thesis by (simp add: reUUID_def)
  next
    case False
    then have "\<not> uuid_shape (take 36 s)" by (simp add: uuid_shape_def)
    moreover have "\<not> uuid_shape (take 36 (s @ b # t))" using False uuid_shape_sep that(2) by blast
    ultimately show ?thesis by (simp only: reUUID_def if_False)
  qed
  show "reUUID prev (b # t) = None" if "sep b" for prev b t 
  proof -
    have "\<not> uuid_shape (take 36 (b # t))" using uuid_shape_sep [of "[]" b t] that by fastforce
    then show ?thesis by (simp only: reUUID_def if_False)
  qed
  show "n \<le> length s" if "reUUID prev s = Some n" for prev s n 
  proof -
    from that have "uuid_shape (take 36 s)" "n = 36" by (simp_all only: reUUID_def split: if_splits) auto
    then have "length (take 36 s) = 36" "n = 36" unfolding uuid_shape_def by blast+
    then show ?thesis by simp
  qed
  show "reUUID (Some b) s = reUUID None s" if "sep b" for b s by (simp add: reUUID_def)
qed

interpretation longhex: token_matcher reLongHex
proof
  show "reLongHex prev (s @ b # t) = reLongHex prev s" if "s \<noteq> []" "sep b" for prev s b t
  proof -
    have r: "run is_hex (s @ b # t) = run is_hex s" using sep_not(1) [OF that(2)] by (rule run_stop)
    have "word_at (drop (run is_hex s) (s @ b # t)) = word_at (drop (run is_hex s) s)"
    proof (cases "run is_hex s < length s")
      case True
      then obtain c u where "drop (run is_hex s) s = c # u" by (cases "drop (run is_hex s) s") auto
      with True show ?thesis by (simp add: word_at_def)
    next
      case False
      with run_le [of is_hex s] have "run is_hex s = length s" by simp
      with that(2) show ?thesis by (simp add: word_at_def sep_def)
    qed
    then show ?thesis by (simp only: reLongHex_def r)
  qed
  show "reLongHex prev (b # t) = None" if "sep b" for prev b t using sep_not(1) [OF that] by (simp add: reLongHex_def run_def)
  show "n \<le> length s" if "reLongHex prev s = Some n" for prev s n using that run_le [of is_hex s] by (auto simp: reLongHex_def split: if_splits)
  show "reLongHex (Some b) s = reLongHex None s" if "sep b" for b s using that by (simp add: reLongHex_def sep_def)
qed

interpretation num: token_matcher reNumRun
proof
  show "reNumRun prev (s @ b # t) = reNumRun prev s" if "s \<noteq> []" "sep b" for prev s b t
    using sep_not(2) [OF that(2)] by (simp add: reNumRun_def run_stop)
  show "reNumRun prev (b # t) = None" if "sep b" for prev b t using sep_not(2) [OF that] by (simp add: reNumRun_def run_def)
  show "n \<le> length s" if "reNumRun prev s = Some n" for prev s n using that run_le [of is_digit s] by (auto simp: reNumRun_def split: if_splits)
  show "reNumRun (Some b) s = reNumRun None s" if "sep b" for b s by (simp add: reNumRun_def)
qed

section \<open>Message normalisation\<close>

definition passes :: "string \<Rightarrow> string" where
  "passes s = subst_all reNumRun ''<num>'' (subst_all reLongHex ''<hex>'' (subst_all reHexAddr ''<addr>'' (subst_all reUUID ''<uuid>'' s)))"

lemma NormalizeMessage_passes: "NormalizeMessage s = trim_space (passes (take 512 s))"
  by (simp add: NormalizeMessage_def passes_def Let_def)

lemma passes_sep: "sep b \<Longrightarrow> passes (s @ b # t) = passes s @ b # passes t"
  by (simp add: passes_def uuid.subst_sep addr.subst_sep longhex.subst_sep num.subst_sep)

text \<open>A matcher that finds nothing anywhere leaves the text alone; one that matches all of it replaces it.\<close>

lemma replace_none: "(\<And>p u v. s = u @ v \<Longrightarrow> v \<noteq> [] \<Longrightarrow> m p v = None) \<Longrightarrow> replace_all m f p s = s"
proof (induction s arbitrary: p)
  case Nil
  then show ?case by (subst replace_all.simps) simp
next
  case (Cons a s)
  have "m p v = None" if "s = u @ v" "v \<noteq> []" for p u v using that Cons.prems [of "a # u" v p] by simp
  then have "replace_all m f (Some a) s = s" by (rule Cons.IH)
  with Cons.prems [of "[]" "a # s" p] show ?case by (subst replace_all.simps) simp
qed

lemma replace_whole: "m p s = Some (length s) \<Longrightarrow> s \<noteq> [] \<Longrightarrow> replace_all m f p s = f s"
proof -
  assume m: "m p s = Some (length s)" and s: "s \<noteq> []"
  then obtain n where n: "length s = Suc n" by (cases s) auto
  have "replace_all m f q [] = []" for q by (subst replace_all.simps) simp
  with m s n show ?thesis by (subst replace_all.simps) simp
qed

lemma no_uuid: "CHR ''-'' \<notin> set s \<Longrightarrow> subst_all reUUID w s = s"
proof -
  assume d: "CHR ''-'' \<notin> set s"
  have "reUUID p v = None" if "s = u @ v" for p u v
  proof -
    have "\<not> uuid_shape (take 36 v)"
    proof
      assume "uuid_shape (take 36 v)"
      then have len: "length (take 36 v) = 36" and all: "\<forall>i < 36. if i \<in> {8, 13, 18, 23} then take 36 v ! i = CHR ''-'' else is_hex (take 36 v ! i)"
        unfolding uuid_shape_def by blast+
      from all [rule_format, of 8] have "take 36 v ! 8 = CHR ''-''" by (simp del: nth_take)
      moreover have "8 < length (take 36 v)" unfolding len by simp
      ultimately have "CHR ''-'' \<in> set (take 36 v)" by (metis nth_mem)
      with d that show False by (auto dest: in_set_takeD)
    qed
    then show ?thesis by (simp only: reUUID_def if_False)
  qed
  then show ?thesis unfolding subst_all_def by (intro replace_none) blast
qed

lemma no_addr: "CHR ''x'' \<notin> set s \<Longrightarrow> subst_all reHexAddr w s = s"
proof -
  assume x: "CHR ''x'' \<notin> set s"
  have "reHexAddr p v = None" if "s = u @ v" for p u v
  proof -
    have "take 2 v \<noteq> ''0x''"
    proof
      assume "take 2 v = ''0x''"
      then have "CHR ''x'' \<in> set (take 2 v)" by simp
      with x that show False by (auto dest: in_set_takeD)
    qed
    then show ?thesis by (simp add: reHexAddr_def)
  qed
  then show ?thesis unfolding subst_all_def by (intro replace_none) blast
qed

lemma no_longhex: "length s < 16 \<Longrightarrow> subst_all reLongHex w s = s"
proof -
  assume l: "length s < 16"
  have "reLongHex p v = None" if "s = u @ v" for p u v
    using l that run_le [of is_hex v] by (simp add: reLongHex_def)
  then show ?thesis unfolding subst_all_def by (intro replace_none) blast
qed

lemma no_num: "\<forall>c \<in> set s. \<not> is_digit c \<Longrightarrow> subst_all reNumRun w s = s"
proof -
  assume d: "\<forall>c \<in> set s. \<not> is_digit c"
  have "reNumRun p v = None" if "s = u @ v" for p u v
    using d that by (cases v) (auto simp: reNumRun_def run_def)
  then show ?thesis unfolding subst_all_def by (intro replace_none) blast
qed

lemma run_all: "\<forall>c \<in> set s. p c \<Longrightarrow> run p s = length s"
  by (simp add: run_def takeWhile_eq_all_conv [THEN iffD2])

text \<open>The tokens that vary between occurrences of one message, with their placeholders.\<close>

definition token_class :: "string \<Rightarrow> string option" where
  "token_class t =
     (if uuid_shape t then Some ''<uuid>''
      else if take 2 t = ''0x'' \<and> 2 < length t \<and> list_all is_hex (drop 2 t) then Some ''<addr>''
      else if 16 \<le> length t \<and> list_all is_hex t then Some ''<hex>''
      else if t \<noteq> [] \<and> list_all is_digit t then Some ''<num>''
      else None)"

lemma hex_not: "is_hex c \<Longrightarrow> c \<noteq> CHR ''-''" "is_hex c \<Longrightarrow> c \<noteq> CHR ''x''" "is_digit c \<Longrightarrow> is_hex c"
  by (auto simp: is_hex_def is_digit_def Let_def)

lemma placeholder_num: "w \<in> {''<uuid>'', ''<addr>'', ''<hex>''} \<Longrightarrow> subst_all reNumRun v w = w"
  by (rule no_num) (auto simp: is_digit_def)

lemma placeholder_hex: "w \<in> {''<uuid>'', ''<addr>''} \<Longrightarrow> subst_all reLongHex v w = w"
  by (rule no_longhex) auto

lemma placeholder_addr: "subst_all reHexAddr v ''<uuid>'' = ''<uuid>''"
  by (rule no_addr) simp

lemmas placeholder_stable = placeholder_num placeholder_hex placeholder_addr

lemma passes_token: "token_class t = Some k \<Longrightarrow> passes t = k"
proof -
  assume k: "token_class t = Some k"
  consider (uuid) "uuid_shape t" "k = ''<uuid>''"
    | (addr) "take 2 t = ''0x''" "2 < length t" "list_all is_hex (drop 2 t)" "k = ''<addr>''"
    | (hex) "16 \<le> length t" "list_all is_hex t" "k = ''<hex>''"
    | (num) "t \<noteq> []" "list_all is_digit t" "length t < 16" "k = ''<num>''"
  proof -
    have digits: "list_all is_digit t \<Longrightarrow> list_all is_hex t" using hex_not(3) by (auto simp: list_all_iff)
    show thesis
    proof (cases "uuid_shape t \<or> take 2 t = ''0x'' \<and> 2 < length t \<and> list_all is_hex (drop 2 t) \<or> 16 \<le> length t \<and> list_all is_hex t")
      case True
      with k that(1-3) show ?thesis unfolding token_class_def by (metis option.inject)
    next
      case False
      then have "t \<noteq> []" "list_all is_digit t" "k = ''<num>''" using k unfolding token_class_def by (auto split: if_splits)
      with False digits that(4) show ?thesis by simp
    qed
  qed
  then show ?thesis
  proof cases
    case uuid
    then have "length t = 36" unfolding uuid_shape_def by blast
    then have "reUUID None t = Some (length t)" "t \<noteq> []" using uuid(1) by (auto simp: reUUID_def)
    then have "subst_all reUUID ''<uuid>'' t = ''<uuid>''" unfolding subst_all_def by (rule replace_whole)
    then show ?thesis using uuid by (simp add: passes_def placeholder_stable)
  next
    case addr
    have t: "t = ''0x'' @ drop 2 t" using addr(1) append_take_drop_id [of 2 t] by simp
    have nd: "CHR ''-'' \<notin> set t" by (subst t) (use addr(3) hex_not(1) in \<open>auto simp: list_all_iff\<close>)
    have "run is_hex (drop 2 t) = length t - 2" using addr(3) run_all [of "drop 2 t" is_hex] by (simp add: list_all_iff)
    then have "reHexAddr None t = Some (length t)" "t \<noteq> []" using addr(1,2) by (auto simp: reHexAddr_def)
    then have "subst_all reHexAddr ''<addr>'' t = ''<addr>''" unfolding subst_all_def by (rule replace_whole)
    then show ?thesis using addr(4) no_uuid [OF nd] by (simp add: passes_def placeholder_stable)
  next
    case hex
    then have all: "\<forall>c \<in> set t. is_hex c" by (simp add: list_all_iff)
    then have "CHR ''-'' \<notin> set t" "CHR ''x'' \<notin> set t" using hex_not by blast+
    moreover have "reLongHex None t = Some (length t)" "t \<noteq> []" using hex(1) run_all [OF all] by (auto simp: reLongHex_def word_at_def)
    then have "subst_all reLongHex ''<hex>'' t = ''<hex>''" unfolding subst_all_def by (rule replace_whole)
    ultimately show ?thesis using hex(3) by (simp add: passes_def no_uuid no_addr placeholder_stable)
  next
    case num
    then have all: "\<forall>c \<in> set t. is_digit c" by (simp add: list_all_iff)
    then have "CHR ''-'' \<notin> set t" "CHR ''x'' \<notin> set t" using hex_not by blast+
    moreover have "reNumRun None t = Some (length t)" using num(1) run_all [OF all] by (auto simp: reNumRun_def)
    then have "subst_all reNumRun ''<num>'' t = ''<num>''" unfolding subst_all_def using num(1) by (rule replace_whole)
    ultimately show ?thesis using num(3,4) by (simp add: passes_def no_uuid no_addr no_longhex)
  qed
qed

text \<open>A message as words and the separators between them.\<close>

fun message_of :: "string list \<Rightarrow> string \<Rightarrow> string" where
  "message_of (w # ws) (b # bs) = w @ b # message_of ws bs"
| "message_of (w # ws) [] = w"
| "message_of [] bs = []"

definition same_token :: "string \<Rightarrow> string \<Rightarrow> bool" where
  "same_token x y \<longleftrightarrow> x = y \<or> token_class x \<noteq> None \<and> token_class x = token_class y"

lemma passes_same: "same_token x y \<Longrightarrow> passes x = passes y"
  unfolding same_token_def by (metis option.exhaust passes_token)

lemma passes_message:
  "list_all2 same_token ws ws' \<Longrightarrow> list_all sep bs \<Longrightarrow> passes (message_of ws bs) = passes (message_of ws' bs)"
proof (induction ws bs arbitrary: ws' rule: message_of.induct)
  case (1 w ws b bs)
  then obtain w' vs where v: "ws' = w' # vs" "same_token w w'" "list_all2 same_token ws vs" by (auto simp: list_all2_Cons1)
  with 1 passes_same [OF v(2)] show ?case by (simp add: passes_sep)
next
  case (2 w ws)
  then show ?case by (auto simp: list_all2_Cons1 passes_same)
qed simp

lemma no_digits_replaced: "\<forall>c \<in> set (replace_all reNumRun (\<lambda>_. ''<num>'') p s). \<not> is_digit c"
proof (induction "length s" arbitrary: p s rule: less_induct)
  case less
  show ?case
  proof (cases s)
    case Nil
    then show ?thesis by (subst replace_all.simps) simp
  next
    case (Cons a s')
    show ?thesis
    proof (cases "is_digit a")
      case True
      then obtain n where n: "run is_digit s = Suc n" using Cons by (auto simp: run_def)
      then have "reNumRun p s = Some (Suc n)" by (simp add: reNumRun_def)
      moreover have "length (drop (Suc n) s) < length s" using Cons by simp
      ultimately show ?thesis using less [of "drop (Suc n) s"] Cons by (subst replace_all.simps) (auto simp: is_digit_def)
    next
      case False
      then have "reNumRun p s = None" using Cons by (simp add: reNumRun_def run_def)
      with less [of s'] Cons False show ?thesis by (subst replace_all.simps) auto
    qed
  qed
qed

lemma set_trim_left: "set (trim_left s) \<subseteq> set s"
proof (induction s rule: trim_left.induct)
  case (1 s)
  then show ?case using set_drop_subset [of "space_len (str_bytes s)" s] by (subst trim_left.simps) (auto split: if_splits)
qed

lemma set_trim_right: "set (trim_right s) \<subseteq> set s"
proof (induction s rule: trim_right.induct)
  case (1 s)
  then show ?case using set_take_subset [of "length s - space_end s" s] by (subst trim_right.simps) (auto split: if_splits)
qed

lemma NormalizeMessage_no_digit: "c \<in> set (NormalizeMessage s) \<Longrightarrow> \<not> is_digit c"
  using no_digits_replaced set_trim_left set_trim_right unfolding NormalizeMessage_passes passes_def trim_space_def subst_all_def by blast

text \<open>Normalisation collapses what varies between occurrences of a message: two messages with the same words and separators up
  to replacing numbers by numbers, addresses by addresses, long hex strings by long hex strings and UUIDs by UUIDs have the same
  normal form, which contains no digit.\<close>

theorem NormalizeMessage_collapses:
  assumes "list_all2 same_token ws ws'" and "list_all sep bs" and "length (message_of ws bs) \<le> 512" and "length (message_of ws' bs) \<le> 512"
  shows "NormalizeMessage (message_of ws bs) = NormalizeMessage (message_of ws' bs) \<and> (\<forall>c \<in> set (NormalizeMessage (message_of ws bs)). \<not> is_digit c)"
proof -
  have "NormalizeMessage (message_of ws bs) = NormalizeMessage (message_of ws' bs)"
    using passes_message [OF assms(1,2)] assms(3,4) by (simp add: NormalizeMessage_passes)
  then show ?thesis using NormalizeMessage_no_digit by blast
qed

theorem NormalizeMessage_collapses_witness:
  "NormalizeMessage ''timeout for user 12345 (0x7fca)'' = NormalizeMessage ''timeout for user 99 (0x1)''"
proof -
  let ?ws = "[''timeout'', ''for'', ''user'', ''12345'', '''', ''0x7fca'', '''']" and ?vs = "[''timeout'', ''for'', ''user'', ''99'', '''', ''0x1'', '''']" and ?bs = "''    ()''"
  have m: "message_of ?ws ?bs = ''timeout for user 12345 (0x7fca)''" "message_of ?vs ?bs = ''timeout for user 99 (0x1)''" by simp_all
  have "\<not> uuid_shape t" if "length t < 36" for t using that by (auto simp: uuid_shape_def)
  then have "list_all2 same_token ?ws ?vs" by (simp add: same_token_def token_class_def is_digit_def is_hex_def)
  moreover have "list_all sep ?bs" by (simp add: sep_def is_word_def is_digit_def)
  ultimately show ?thesis using NormalizeMessage_collapses [of ?ws ?vs ?bs] unfolding m by simp
qed

section \<open>Patterns with two stars\<close>

text \<open>The pieces occur in order; the first one at the start, unless the pattern starts with the stars.\<close>

fun in_order :: "bool \<Rightarrow> string list \<Rightarrow> string \<Rightarrow> bool" where
  "in_order anchored [] s = True"
| "in_order anchored (p # ps) s =
     (\<exists>u v. s = u @ p @ v \<and> (anchored \<and> p \<noteq> [] \<longrightarrow> u = []) \<and> in_order False ps v)"

lemma in_order_more: "in_order False ps v \<Longrightarrow> in_order False ps (u @ v)"
proof (cases ps)
  case (Cons p qs)
  assume "in_order False ps v"
  with Cons obtain a b where "v = a @ p @ b" "in_order False qs b" by auto
  then show ?thesis unfolding Cons in_order.simps by (intro exI [of _ "u @ a"] exI [of _ b]) simp
qed simp

definition plain_piece :: "string \<Rightarrow> bool" where
  "plain_piece p \<longleftrightarrow> (\<forall>c \<in> set p. c \<noteq> CHR ''*'' \<and> c \<noteq> CHR ''?'' \<and> c \<noteq> CHR ''['')"

lemma indexGlob_plain:
  assumes "plain_piece p"
  shows "indexGlob s p anchored = (if anchored then (if prefix p s then Some (length p) else None) else map_option (\<lambda>i. i + length p) (str_index s p))"
  using assms by (auto simp: indexGlob_def plain_piece_def list_ex_iff)

lemma first_occurrence:
  assumes "str_index s p = Some i" and "s = u @ p @ v"
  shows "\<exists>w. drop (i + length p) s = w @ v"
proof -
  have "i \<le> length u"
  proof (rule ccontr)
    assume "\<not> i \<le> length u"
    then have "\<not> prefix p (drop (length u) s)" using str_index_Some [OF assms(1)] by simp
    with assms(2) show False by (simp add: prefix_def)
  qed
  have "v = drop (length u + length p) s" using assms(2) by simp
  also have "\<dots> = drop (length u - i) (drop (i + length p) s)" using \<open>i \<le> length u\<close> by (simp add: add.commute)
  finally show ?thesis by (metis append_take_drop_id)
qed

lemma glob_parts_in_order: "list_all plain_piece ps \<Longrightarrow> glob_parts anchored ps s = in_order anchored ps s"
proof (induction ps arbitrary: anchored s)
  case (Cons p ps)
  then have IH: "glob_parts False ps r = in_order False ps r" for r by simp
  have plain: "plain_piece p" using Cons.prems by simp
  show ?case
  proof (cases "p = []")
    case True
    have "(\<exists>u v. s = u @ v \<and> in_order False ps v) = in_order False ps s" by (metis append_Nil in_order_more)
    with True IH show ?thesis by simp
  next
    case False
    show ?thesis
    proof (cases anchored)
      case True
      show ?thesis
      proof (cases "prefix p s")
        case pre: True
        then obtain v where v: "s = p @ v" by (auto simp: prefix_def)
        have "in_order True (p # ps) s = in_order False ps v" using False by (simp add: v)
        moreover have "glob_parts True (p # ps) s = in_order False ps v" using False pre IH by (simp add: indexGlob_plain [OF plain] v)
        ultimately show ?thesis using True by simp
      next
        case npre: False
        then have "\<not> in_order True (p # ps) s" using False by (auto simp: prefix_def)
        then show ?thesis using True False npre by (simp add: indexGlob_plain [OF plain])
      qed
    next
      case na: False
      show ?thesis
      proof (cases "str_index s p")
        case None
        have "\<not> (\<exists>u v. s = u @ p @ v)" using str_index_None [OF None] by (metis append_eq_conv_conj prefixI)
        with None na False plain show ?thesis by (auto simp: indexGlob_plain)
      next
        case (Some i)
        from str_index_Some [OF Some] obtain v where v: "drop i s = p @ v" by (auto simp: prefix_def)
        then have s: "s = take i s @ p @ v" by (metis append_take_drop_id)
        have dv: "drop (i + length p) s = v" using v by (metis add.commute append_eq_conv_conj drop_drop)
        have "in_order False ps v = (\<exists>u v. s = u @ p @ v \<and> in_order False ps v)"
          using s first_occurrence [OF Some] in_order_more dv by metis
        with Some na False plain IH dv show ?thesis by (simp add: indexGlob_plain)
      qed
    qed
  qed
qed simp

text \<open>A pattern with two stars whose pieces between the stars have no other wildcard matches exactly the texts in which the
  pieces occur in order without overlap, the first one at the very start; taking the leftmost occurrence of each piece misses no
  match.\<close>

theorem globMatch_double_star:
  assumes "str_contains pat ''**''" and "pat \<noteq> ''**''" and "list_all plain_piece (split_on ''**'' pat)"
  shows "globMatch pat s \<longleftrightarrow> in_order True (split_on ''**'' pat) s"
proof -
  have "pat \<noteq> []" "pat \<noteq> ''*''" using assms(1) by (auto simp: str_contains_def)
  then show ?thesis using assms glob_parts_in_order [OF assms(3)] by (simp add: globMatch_def)
qed

theorem globMatch_double_star_witness:
  "globMatch ''src/**.js'' ''src/app/main.js'' \<longleftrightarrow> in_order True [''src/'', ''.js''] ''src/app/main.js''"
proof -
  have "split_on ''**'' ''src/**.js'' = [''src/'', ''.js'']" by (subst split_on.simps, simp)+
  then show ?thesis using globMatch_double_star [of "''src/**.js''" "''src/app/main.js''"] by (simp add: str_contains_def plain_piece_def)
qed

section \<open>Fingerprints\<close>

lemma length_sha1: "length (sha1 m) = 20"
  by (simp add: sha1_def split: prod.splits)

definition lower_hex :: "char \<Rightarrow> bool" where
  "lower_hex c \<longleftrightarrow> c \<in> set ''0123456789abcdef''"

lemma hex_char_hex: "n < 16 \<Longrightarrow> lower_hex (hex_char n)"
proof -
  have "list_all (\<lambda>n. lower_hex (hex_char n)) [0..<16]" by code_simp
  then show "n < 16 \<Longrightarrow> ?thesis" by (simp add: list_all_iff)
qed

lemma hex_encode_hex: "list_all lower_hex (hex_encode bs)"
proof -
  have "unat b div 16 < 16" "unat b mod 16 < 16" for b :: byte using unsigned_less [of b, where 'a = nat] by simp_all
  then show ?thesis by (induction bs) (simp_all add: hex_encode_def hex_char_hex)
qed

lemma hashParts_shape: "length (hashParts ns ps) = 32 \<and> list_all lower_hex (hashParts ns ps)"
  using hex_encode_hex [of "sha1 (str_bytes (hash_input ns ps))"] length_hex_encode [of "sha1 (str_bytes (hash_input ns ps))"]
  by (auto simp: hashParts_def length_sha1 list_all_iff dest: in_set_takeD)

text \<open>Every fingerprint, whatever the event and the rules, is a string of exactly 32 lower-case hexadecimal digits.\<close>

theorem Fingerprint_shape:
  "length (res_Fingerprint (Fingerprint inp rules)) = 32 \<and> list_all lower_hex (res_Fingerprint (Fingerprint inp rules))"
  using hashParts_shape by (auto simp: Fingerprint_def split: prod.splits)

definition nul_free :: "string \<Rightarrow> bool" where
  "nul_free s \<longleftrightarrow> CHR 0x00 \<notin> set s"

lemma split_at_nul:
  assumes "nul_free a" "nul_free b" and "a @ u = b @ v" and "u = [] \<or> hd u = CHR 0x00" and "v = [] \<or> hd v = CHR 0x00"
  shows "a = b \<and> u = v"
proof -
  have tw: "takeWhile (\<lambda>c. c \<noteq> CHR 0x00) (x @ y) = x" if "nul_free x" "y = [] \<or> hd y = CHR 0x00" for x y :: string
  proof -
    have "\<forall>c \<in> set x. c \<noteq> CHR 0x00" using that(1) unfolding nul_free_def by metis
    then show ?thesis using that(2) by (cases y) auto
  qed
  from tw [OF assms(1,4)] tw [OF assms(2,5)] assms(3) show ?thesis by simp
qed

lemma hash_input_inj:
  "nul_free a \<Longrightarrow> nul_free b \<Longrightarrow> list_all nul_free ps \<Longrightarrow> list_all nul_free qs \<Longrightarrow> hash_input a ps = hash_input b qs \<Longrightarrow> a = b \<and> ps = qs"
proof (induction ps arbitrary: a b qs)
  case Nil
  then have "a @ [] = b @ concat (map (\<lambda>p. CHR 0x00 # p) qs)" by (simp add: hash_input_def)
  from split_at_nul [OF Nil.prems(1,2) this] have "a = b" "concat (map (\<lambda>p. CHR 0x00 # p) qs) = []" by (cases qs; auto)+
  then show ?case by auto
next
  case (Cons p ps)
  have "a @ concat (map (\<lambda>p. CHR 0x00 # p) (p # ps)) = b @ concat (map (\<lambda>p. CHR 0x00 # p) qs)" using Cons.prems(5) by (simp add: hash_input_def)
  from split_at_nul [OF Cons.prems(1,2) this] have ab: "a = b" and eq: "concat (map (\<lambda>p. CHR 0x00 # p) (p # ps)) = concat (map (\<lambda>p. CHR 0x00 # p) qs)"
    by (cases qs; auto)+
  then obtain q qs' where q: "qs = q # qs'" by (cases qs) auto
  with eq have "hash_input p ps = hash_input q qs'" by (simp add: hash_input_def)
  from Cons.IH [OF _ _ _ _ this] Cons.prems q ab show ?case by simp
qed

lemma group_parts_ns: "group_parts inp rules = (b, ns, ps) \<Longrightarrow>
  (b, ns) \<in> {(BasisRule, ''rule''), (BasisCustom, ''custom''), (BasisStacktrace, ''stack''), (BasisException, ''exc''),
    (BasisMessageTemplate, ''tmpl''), (BasisMessage, ''msg''), (BasisFallback, ''fallback'')}"
  by (auto simp: group_parts_def default_parts_def Let_def split: option.splits if_splits)

text \<open>What is hashed determines what was grouped: for parts without NUL bytes the hashed text of two events is the same only if
  they are grouped on the same basis with the same parts, so that two events of different bases or parts share a fingerprint only
  by a collision of the hash.\<close>

theorem grouping_preimage_injective:
  assumes "group_parts i1 r1 = (b1, ns1, ps1)" and "group_parts i2 r2 = (b2, ns2, ps2)" and "list_all nul_free ps1" and "list_all nul_free ps2"
  shows "hash_input ns1 ps1 = hash_input ns2 ps2 \<longleftrightarrow> (b1, ps1) = (b2, ps2)"
proof -
  note ns = group_parts_ns [OF assms(1)] group_parts_ns [OF assms(2)]
  then have "nul_free ns1" "nul_free ns2" by (auto simp: nul_free_def)
  from hash_input_inj [OF this assms(3,4)] ns show ?thesis by auto
qed

theorem grouping_preimage_injective_witness:
  "hash_input ''msg'' [''boom''] \<noteq> hash_input ''tmpl'' [''boom'']"
proof -
  define i where "i = \<lparr>in_Platform = [], in_SDKFingerprint = [], in_Exceptions = [], in_MessageTemplate = [], in_Message = ''boom''\<rparr>"
  have n: "NormalizeMessage ''boom'' = ''boom''"
    by (simp add: NormalizeMessage_def Let_def no_uuid no_addr no_longhex no_num is_digit_def)
      (simp add: trim_space_def trim_left.simps trim_right.simps space_end_def str_bytes_def ascii_space_def)
  have "group_parts i [] = (BasisMessage, ''msg'', [''boom''])" "group_parts (i\<lparr>in_MessageTemplate := ''boom''\<rparr>) [] = (BasisMessageTemplate, ''tmpl'', [''boom''])"
    by (simp_all add: i_def group_parts_def applyRules_def default_parts_def selectFrames_def n)
  from grouping_preimage_injective [OF this] show ?thesis by (simp add: nul_free_def)
qed

text \<open>
  The frames and exceptions that do not matter: with an application frame in the innermost exception, its other frames
  and all outer exceptions.
\<close>

lemma default_parts_noise:
  assumes "\<exists>f \<in> set (x_Frames e). IsInApp f (in_Platform inp)"
  shows "default_parts (inp\<lparr>in_Exceptions := outer @ [e]\<rparr>) =
    default_parts (inp\<lparr>in_Exceptions := [e\<lparr>x_Frames := filter (\<lambda>f. IsInApp f (in_Platform inp)) (x_Frames e)\<rparr>]\<rparr>)"
proof -
  have "filter (\<lambda>f. IsInApp f (in_Platform inp)) (x_Frames e) \<noteq> []" "x_Frames e \<noteq> []" using assms by (auto simp: filter_empty_conv)
  then show ?thesis by (simp add: default_parts_def selectFrames_def lastExceptionType_def Let_def)
qed

text \<open>C35. Library frames and outer exceptions are noise: when the innermost exception has an application frame, the fingerprint of
  an event without project rules is that of the event with only the innermost exception and only its application frames.\<close>

theorem Fingerprint_ignores_noise:
  assumes "\<exists>f \<in> set (x_Frames e). IsInApp f (in_Platform inp)"
  shows "Fingerprint (inp\<lparr>in_Exceptions := outer @ [e]\<rparr>) [] =
    Fingerprint (inp\<lparr>in_Exceptions := [e\<lparr>x_Frames := filter (\<lambda>f. IsInApp f (in_Platform inp)) (x_Frames e)\<rparr>]\<rparr>) []"
proof -
  note d = default_parts_noise [OF assms, of outer]
  then have "defaultFingerprint (inp\<lparr>in_Exceptions := outer @ [e]\<rparr>) =
    defaultFingerprint (inp\<lparr>in_Exceptions := [e\<lparr>x_Frames := filter (\<lambda>f. IsInApp f (in_Platform inp)) (x_Frames e)\<rparr>]\<rparr>)"
    by (simp add: defaultFingerprint_def)
  with d show ?thesis by (simp add: Fingerprint_def group_parts_def applyRules_def cong: if_cong)
qed

theorem Fingerprint_ignores_noise_witness:
  "\<exists>inp app lib. Fingerprint (inp\<lparr>in_Exceptions := [\<lparr>x_Type = ''A'', x_Value = [], x_Frames = []\<rparr>, \<lparr>x_Type = ''B'', x_Value = [], x_Frames = [lib, app]\<rparr>]\<rparr>) [] =
     Fingerprint (inp\<lparr>in_Exceptions := [\<lparr>x_Type = ''B'', x_Value = [], x_Frames = [app]\<rparr>]\<rparr>) []"
proof -
  let ?inp = "\<lparr>in_Platform = [], in_SDKFingerprint = [], in_Exceptions = [], in_MessageTemplate = [], in_Message = []\<rparr>"
  let ?app = "\<lparr>f_Function = ''f'', f_Module = ''m'', f_Filename = [], f_AbsPath = [], f_InApp = Some True\<rparr>"
  let ?lib = "\<lparr>f_Function = ''g'', f_Module = ''n'', f_Filename = [], f_AbsPath = [], f_InApp = Some False\<rparr>"
  have "IsInApp ?app []" "\<not> IsInApp ?lib []" by (simp_all add: IsInApp_def)
  then show ?thesis
    using Fingerprint_ignores_noise [of "\<lparr>x_Type = ''B'', x_Value = [], x_Frames = [?lib, ?app]\<rparr>" ?inp "[\<lparr>x_Type = ''A'', x_Value = [], x_Frames = []\<rparr>]"]
    by (intro exI [of _ ?inp] exI [of _ ?app] exI [of _ ?lib]) simp
qed

end
