(* ===== verification/Extract.thy ===== *)
theory Extract
  imports Envelope Grouping_Props
begin

text \<open>
  Projecting a Sentry event into columns: \<open>internal/ingest/event.go\<close>. The Unicode case table, the
  time layouts of \<open>time.Parse\<close> and floating-point numbers are parameters (the record
  \<open>ingest_lib\<close>). The results: both wire shapes of the exception list give the same exceptions, and what an event is
  always given: a level, a fingerprint, an id without dashes, the current time by default.
\<close>

section \<open>Parameters\<close>

text \<open>
  \<open>strings.ToLower\<close>; \<open>time.Parse(time.RFC3339Nano, s)\<close> in Unix nanoseconds;
  \<open>strconv.ParseFloat(s, 64)\<close> as whether the number is positive and
  \<open>int64(f * 1e9)\<close>.
\<close>

record ingest_lib =
  lib_ToLower :: "string \<Rightarrow> string"
  lib_ParseTime :: "string \<Rightarrow> int option"
  lib_FloatNanos :: "string \<Rightarrow> (bool \<times> int) option"

section \<open>The wire format\<close>

record sentryFrame =
  sf_Function :: string
  sf_Module :: string
  sf_Filename :: string
  sf_AbsPath :: string
  sf_InApp :: "bool option"

record sentryExcValue =
  sx_Type :: string
  sx_Value :: string
  sx_Frames :: "sentryFrame slice"

record sentryEvent =
  se_EventID :: string
  se_Timestamp :: "json option"
  se_Platform :: string
  se_Level :: string
  se_Release :: string
  se_Environment :: string
  se_Message :: string
  se_Fingerprint :: "string slice"
  se_LogFormatted :: string
  se_LogMessage :: string
  se_UserID :: string
  se_UserEmail :: string
  se_Exception :: "json option"

definition zero_frame :: sentryFrame where
  "zero_frame = \<lparr>sf_Function = [], sf_Module = [], sf_Filename = [], sf_AbsPath = [], sf_InApp = None\<rparr>"

definition zero_exc :: sentryExcValue where
  "zero_exc = \<lparr>sx_Type = [], sx_Value = [], sx_Frames = (0, [])\<rparr>"

definition zero_event :: sentryEvent where
  "zero_event = \<lparr>se_EventID = [], se_Timestamp = None, se_Platform = [], se_Level = [], se_Release = [], se_Environment = [], se_Message = [],
     se_Fingerprint = (0, []), se_LogFormatted = [], se_LogMessage = [], se_UserID = [], se_UserEmail = [], se_Exception = None\<rparr>"

definition dec_frame :: "sentryFrame dec" where
  "dec_frame = dec_struct
     [(''function'', at_field sf_Function sf_Function_update dec_string), (''module'', at_field sf_Module sf_Module_update dec_string),
      (''filename'', at_field sf_Filename sf_Filename_update dec_string), (''abs_path'', at_field sf_AbsPath sf_AbsPath_update dec_string),
      (''in_app'', at_field sf_InApp sf_InApp_update dec_bool_ptr)]"

definition dec_exc :: "sentryExcValue dec" where
  "dec_exc = dec_struct
     [(''type'', at_field sx_Type sx_Type_update dec_string), (''value'', at_field sx_Value sx_Value_update dec_string),
      (''stacktrace'', dec_struct [(''frames'', at_field sx_Frames sx_Frames_update (dec_slice dec_frame zero_frame))])]"

definition dec_event :: "sentryEvent dec" where
  "dec_event = dec_struct
     [(''event_id'', at_field se_EventID se_EventID_update dec_string), (''timestamp'', at_field se_Timestamp se_Timestamp_update dec_raw),
      (''platform'', at_field se_Platform se_Platform_update dec_string), (''level'', at_field se_Level se_Level_update dec_string),
      (''release'', at_field se_Release se_Release_update dec_string), (''environment'', at_field se_Environment se_Environment_update dec_string),
      (''message'', at_field se_Message se_Message_update dec_string),
      (''fingerprint'', at_field se_Fingerprint se_Fingerprint_update (dec_slice dec_string [])),
      (''logentry'', dec_struct [(''formatted'', at_field se_LogFormatted se_LogFormatted_update dec_string),
        (''message'', at_field se_LogMessage se_LogMessage_update dec_string)]),
      (''user'', dec_struct [(''id'', at_field se_UserID se_UserID_update dec_string), (''email'', at_field se_UserEmail se_UserEmail_update dec_string)]),
      (''exception'', at_field se_Exception se_Exception_update dec_raw)]"

text \<open>An object with a list of values, or the bare list.\<close>

definition parseExceptions :: "json option \<Rightarrow> sentryExcValue list" where
  "parseExceptions raw =
     (case raw of
        None \<Rightarrow> []
      | Some j \<Rightarrow>
          (case dec_struct [(''values'', dec_slice dec_exc zero_exc)] j (0, []) of
             (obj, ok) \<Rightarrow>
               if ok \<and> elems obj \<noteq> [] then elems obj
               else case dec_slice dec_exc zero_exc j (0, []) of (arr, ok') \<Rightarrow> if ok' then elems arr else []))"

section \<open>Extraction\<close>

record ExtractedEvent =
  ex_EventID :: string
  ex_Timestamp :: int
  ex_Level :: string
  ex_Fingerprint :: string
  ex_Basis :: string
  ex_Release :: string
  ex_Environment :: string
  ex_UserID :: string
  ex_Message :: string

definition parseSentryTime :: "ingest_lib \<Rightarrow> json option \<Rightarrow> int \<Rightarrow> int" where
  "parseSentryTime lib raw now =
     (case raw of
        None \<Rightarrow> now
      | Some j \<Rightarrow>
          (case dec_string j [] of
             (s, True) \<Rightarrow>
               (case lib_ParseTime lib s of
                  Some t \<Rightarrow> t
                | None \<Rightarrow> (case lib_FloatNanos lib s of Some (_, ns) \<Rightarrow> ns | None \<Rightarrow> now))
           | (s, False) \<Rightarrow>
               (case j of
                  JNum x \<Rightarrow> (case lib_FloatNanos lib x of Some (pos, ns) \<Rightarrow> if pos then ns else now | None \<Rightarrow> now)
                | _ \<Rightarrow> now)))"

fun firstNonEmpty :: "string list \<Rightarrow> string" where
  "firstNonEmpty [] = []"
| "firstNonEmpty (s # ss) = (if s \<noteq> [] then s else firstNonEmpty ss)"

definition joinNonEmpty :: "string \<Rightarrow> string \<Rightarrow> string" where
  "joinNonEmpty a b = (if a = [] then b else if b = [] then a else a @ '': '' @ b)"

definition group_frame :: "sentryFrame \<Rightarrow> Frame" where
  "group_frame f = \<lparr>f_Function = sf_Function f, f_Module = sf_Module f, f_Filename = sf_Filename f, f_AbsPath = sf_AbsPath f, f_InApp = sf_InApp f\<rparr>"

definition group_exc :: "sentryExcValue \<Rightarrow> Exception" where
  "group_exc v = \<lparr>x_Type = sx_Type v, x_Value = sx_Value v, x_Frames = map group_frame (elems (sx_Frames v))\<rparr>"

definition group_input :: "sentryEvent \<Rightarrow> Input" where
  "group_input se =
     \<lparr>in_Platform = se_Platform se, in_SDKFingerprint = elems (se_Fingerprint se), in_Exceptions = map group_exc (parseExceptions (se_Exception se)),
      in_MessageTemplate = se_LogMessage se, in_Message = firstNonEmpty [se_LogFormatted se, se_Message se]\<rparr>"

definition ExtractEvent :: "ingest_lib \<Rightarrow> byte list \<Rightarrow> int \<Rightarrow> ExtractedEvent option" where
  "ExtractEvent lib payload now =
     (case unmarshal dec_event (bytes_str payload) zero_event of
        (se, ok) \<Rightarrow>
          if \<not> ok then None
          else
            let values = parseExceptions (se_Exception se);
                excType = (if values = [] then [] else sx_Type (last values));
                excValue = (if values = [] then [] else sx_Value (last values));
                res = Fingerprint (group_input se) []
            in Some \<lparr>ex_EventID = lib_ToLower lib (filter (\<lambda>c. c \<noteq> CHR ''-'') (se_EventID se)),
                     ex_Timestamp = parseSentryTime lib (se_Timestamp se) now,
                     ex_Level = (if se_Level se = [] then ''error'' else se_Level se),
                     ex_Fingerprint = res_Fingerprint res,
                     ex_Basis = basis_str (res_Basis res),
                     ex_Release = se_Release se,
                     ex_Environment = se_Environment se,
                     ex_UserID = firstNonEmpty [se_UserID se, se_UserEmail se],
                     ex_Message = firstNonEmpty [joinNonEmpty excType excValue, se_LogFormatted se, se_LogMessage se, se_Message se]\<rparr>)"

section \<open>Properties\<close>

text \<open>Both wire shapes of the exception list mean the same: the object form and the bare array form of any list of values,
  well-typed or not, yield the same exceptions.\<close>

theorem exception_shapes_agree:
  "parseExceptions (Some (JObj [(''values'', JArr vs)])) = parseExceptions (Some (JArr vs))"
proof -
  obtain sl ok where d: "dec_slice dec_exc zero_exc (JArr vs) (0, []) = (sl, ok)" by fastforce
  have obj: "dec_struct [(''values'', dec_slice dec_exc zero_exc)] (JObj [(''values'', JArr vs)]) (0, []) = (sl, ok)"
    by (simp add: dec_struct_def d)
  have bad: "dec_slice dec_exc zero_exc (JObj ms) old = (old, False)" "dec_struct fs (JArr vs) old' = (old', False)" for ms old fs and old' :: "'a"
    by (simp_all add: dec_slice_def dec_struct_def)
  show ?thesis by (cases "elems sl = []") (simp_all add: parseExceptions_def obj d bad)
qed

lemma ExtractEvent_minimal:
  assumes "ascii eid"
  shows "ExtractEvent lib (str_bytes (print_json (JObj [(''event_id'', JStr eid)]))) now =
    Some \<lparr>ex_EventID = lib_ToLower lib (filter (\<lambda>c. c \<noteq> CHR ''-'') eid), ex_Timestamp = now, ex_Level = ''error'',
      ex_Fingerprint = hashParts ''fallback'' [], ex_Basis = ''fallback'', ex_Release = [], ex_Environment = [], ex_UserID = [], ex_Message = []\<rparr>"
proof -
  let ?j = "JObj [(''event_id'', JStr eid)]"
  have "printable maxNestingDepth ?j" using assms by (simp add: maxNestingDepth_def ascii_def)
  from json_parse_print [OF this] have "unmarshal dec_event (print_json ?j) zero_event = (zero_event\<lparr>se_EventID := eid\<rparr>, True)"
    unfolding unmarshal_def by (simp add: dec_event_def dec_struct_def at_field_def dec_string_def to_upper_char_def zero_event_def del: print_json.simps)
  moreover have "Fingerprint (group_input (zero_event\<lparr>se_EventID := eid\<rparr>)) [] = \<lparr>res_Fingerprint = hashParts ''fallback'' [], res_Basis = BasisFallback\<rparr>"
    by (simp add: group_input_def zero_event_def parseExceptions_def elems_def Fingerprint_def group_parts_def applyRules_def default_parts_def selectFrames_def)
  ultimately show ?thesis
    by (simp add: ExtractEvent_def Let_def parseSentryTime_def parseExceptions_def joinNonEmpty_def zero_event_def del: print_json.simps)
qed

text \<open>An event that only has an id is still storable: for every ASCII id the payload is accepted, the time is the current
  one, the level is error, and it gets the fallback fingerprint.\<close>

theorem minimal_event_extracted:
  assumes "ascii eid"
  shows "ExtractEvent lib (str_bytes (print_json (JObj [(''event_id'', JStr eid)]))) now =
    Some \<lparr>ex_EventID = lib_ToLower lib (filter (\<lambda>c. c \<noteq> CHR ''-'') eid), ex_Timestamp = now, ex_Level = ''error'',
      ex_Fingerprint = hashParts ''fallback'' [], ex_Basis = ''fallback'', ex_Release = [], ex_Environment = [], ex_UserID = [], ex_Message = []\<rparr>"
  by (rule ExtractEvent_minimal [OF assms])

theorem minimal_event_extracted_witness:
  "\<exists>ev. ExtractEvent \<lparr>lib_ToLower = to_lower, lib_ParseTime = \<lambda>_. None, lib_FloatNanos = \<lambda>_. None\<rparr>
     (str_bytes (print_json (JObj [(''event_id'', JStr ''AB-12'')]))) 7 = Some ev \<and> ex_EventID ev = ''ab12'' \<and> ex_Timestamp ev = 7"
proof -
  have "to_lower ''AB12'' = ''ab12''" by code_simp
  then show ?thesis
    using minimal_event_extracted [of "''AB-12''" "\<lparr>lib_ToLower = to_lower, lib_ParseTime = \<lambda>_. None, lib_FloatNanos = \<lambda>_. None\<rparr>" 7]
    by (simp add: ascii_def)
qed

text \<open>What every extracted event has.\<close>

lemma ExtractEvent_always:
  assumes "ExtractEvent lib payload now = Some ev"
  shows "ex_Level ev \<noteq> [] \<and> length (ex_Fingerprint ev) = 32 \<and> ex_Basis ev \<noteq> []"
proof -
  obtain se ok where u: "unmarshal dec_event (bytes_str payload) zero_event = (se, ok)" by fastforce
  have "basis_str b \<noteq> []" for b by (cases b) simp_all
  moreover have "length (res_Fingerprint (Fingerprint i [])) = 32" for i using hashParts_shape by (auto simp: Fingerprint_def split: prod.splits)
  ultimately show ?thesis using assms u by (auto simp: ExtractEvent_def Let_def split: if_splits)
qed

end
