(* ===== verification/Pipeline.thy ===== *)
theory Pipeline
  imports Extract Eventstore_Flush Wal_Reader
begin

text \<open>
  The ingest pipeline: \<open>internal/ingest/pipeline.go\<close>. \<open>Submit\<close> turns a request into a
  log record; the \<open>Run\<close> loop reads records, extracts events, drops duplicates, buffers rows in the
  event store, and commits its offset in the log after flushing the store. The log, its
  readers and the store are those of the other theories. What the scheduler, the clock and
  the system calls do is given to each turn as its input.
\<close>

section \<open>Options and state\<close>

record PipelineOptions =
  MaxLag :: nat
  AppendTimeout :: int
  DedupeCap :: int
  CommitEvery :: int

definition pl_defaults :: "PipelineOptions \<Rightarrow> PipelineOptions" where
  "pl_defaults o1 =
     (let o2 = o1\<lparr>MaxLag := (if MaxLag o1 = 0 then 100000 else MaxLag o1)\<rparr>;
          o3 = o2\<lparr>AppendTimeout := (if AppendTimeout o2 \<le> 0 then 5000000000 else AppendTimeout o2)\<rparr>;
          o4 = o3\<lparr>DedupeCap := (if DedupeCap o3 \<le> 0 then 500000 else DedupeCap o3)\<rparr>
      in o4\<lparr>CommitEvery := (if CommitEvery o4 \<le> 0 then 512 else CommitEvery o4)\<rparr>)"

definition DropMalformed :: string where "DropMalformed = ''malformed''"
definition DropDuplicate :: string where "DropDuplicate = ''duplicate''"
definition DropOverloaded :: string where "DropOverloaded = ''overloaded''"
definition DropTooLarge :: string where "DropTooLarge = ''too_large''"
definition DropAuth :: string where "DropAuth = ''auth''"

definition ConsumerName :: string where "ConsumerName = ''pipeline''"

definition recEnvelope :: byte where "recEnvelope = 1"
definition recEventJSON :: byte where "recEventJSON = 2"

record IssueHit =
  hit_OrgID :: int
  hit_ProjectID :: int
  hit_Fingerprint :: string
  hit_Basis :: string
  hit_Title :: string
  hit_Level :: string
  hit_SeenAt :: int

text \<open>Two generations of keys, the newest first.\<close>

record dedupe =
  dd_cap :: int
  dd_cur :: "string list"
  dd_prev :: "string list"

definition newDedupe :: "int \<Rightarrow> dedupe" where
  "newDedupe capacity = \<lparr>dd_cap = capacity, dd_cur = [], dd_prev = []\<rparr>"

definition firstSeen :: "dedupe \<Rightarrow> string \<Rightarrow> dedupe \<times> bool" where
  "firstSeen d key =
     (if key \<in> set (dd_cur d) then (d, False)
      else if key \<in> set (dd_prev d) then (d, False)
      else
        let d1 = (if dd_cap d \<le> int (length (dd_cur d)) then d\<lparr>dd_prev := dd_cur d, dd_cur := []\<rparr> else d)
        in (d1\<lparr>dd_cur := key # dd_cur d1\<rparr>, True))"

record pipeline =
  pl_opts :: PipelineOptions
  pl_lim :: Limits
  pl_issues :: bool
  pl_received :: u64
  pl_stored :: u64
  pl_drops :: "(string \<times> u64) list"
  pl_dedupe :: dedupe
  pl_lag :: nat

definition NewPipeline :: "bool \<Rightarrow> PipelineOptions \<Rightarrow> Limits \<Rightarrow> pipeline" where
  "NewPipeline issues opts lim =
     \<lparr>pl_opts = pl_defaults opts, pl_lim = lim_defaults lim, pl_issues = issues, pl_received = 0, pl_stored = 0, pl_drops = [],
      pl_dedupe = newDedupe (DedupeCap (pl_defaults opts)), pl_lag = 0\<rparr>"

definition DropCount :: "pipeline \<Rightarrow> string \<Rightarrow> u64" where
  "DropCount p reason = (case map_of (pl_drops p) reason of Some n \<Rightarrow> n | None \<Rightarrow> 0)"

definition pl_drop :: "pipeline \<Rightarrow> string \<Rightarrow> pipeline" where
  "pl_drop p reason = p\<lparr>pl_drops := map_put reason (DropCount p reason + 1) (pl_drops p)\<rparr>"

section \<open>Submitting\<close>

text \<open>What the append to the log answers within its deadline.\<close>

datatype append_res = Appended nat | DeadlineExceeded | AppendError

datatype submit_err = ErrOverloaded | ErrAppend

definition submit_record :: "byte \<Rightarrow> int \<Rightarrow> byte list \<Rightarrow> byte list" where
  "submit_record kind projectID body = kind # put_le 8 (word_of_int projectID :: u64) @ body"

text \<open>The result, and the request the log was given.\<close>

definition Submit :: "pipeline \<Rightarrow> byte \<Rightarrow> int \<Rightarrow> byte list \<Rightarrow> append_res \<Rightarrow> pipeline \<times> submit_err option \<times> (byte \<times> byte list) option" where
  "Submit p kind projectID body res =
     (let p1 = p\<lparr>pl_received := pl_received p + 1\<rparr> in
      if MaxLag (pl_opts p1) < pl_lag p1 then (pl_drop p1 DropOverloaded, Some ErrOverloaded, None)
      else
        let rec1 = submit_record kind projectID body in
        case res of
          Appended _ \<Rightarrow> (p1, None, Some (kind, rec1))
        | DeadlineExceeded \<Rightarrow> (pl_drop p1 DropOverloaded, Some ErrOverloaded, Some (kind, rec1))
        | AppendError \<Rightarrow> (p1, Some ErrAppend, Some (kind, rec1)))"

section \<open>Processing a record\<close>

definition projectKey :: "int \<Rightarrow> string \<Rightarrow> string" where
  "projectKey projectID eventID = bytes_str (put_le 8 (word_of_int projectID :: u64)) @ eventID"

text \<open>\<open>truncate\<close>: back from byte \<open>n\<close> to one that does not continue a rune.\<close>

fun trunc_at :: "string \<Rightarrow> nat \<Rightarrow> nat option" where
  "trunc_at s 0 = None"
| "trunc_at s (Suc i) = (if \<not> cont (of_char (s ! Suc i)) then Some (Suc i) else trunc_at s i)"

definition truncate_str :: "string \<Rightarrow> nat \<Rightarrow> string" where
  "truncate_str s n = (if length s \<le> n then s else case trunc_at s n of Some i \<Rightarrow> take i s | None \<Rightarrow> take n s)"

definition toStoreEvent :: "int \<Rightarrow> ExtractedEvent \<Rightarrow> byte list \<Rightarrow> Event" where
  "toStoreEvent projectID ev payload =
     \<lparr>ev_EventID = ex_EventID ev, ev_ProjectID = projectID, ev_Timestamp = ex_Timestamp ev, ev_Level = ex_Level ev,
      ev_Fingerprint = ex_Fingerprint ev, ev_Release = ex_Release ev, ev_Environment = ex_Environment ev, ev_UserID = ex_UserID ev,
      ev_Message = ex_Message ev, ev_Payload = payload\<rparr>"

text \<open>The items of an envelope as events; \<open>clk i\<close> is the clock when the \<open>i\<close>-th item is extracted. The number of malformed ones.\<close>

fun item_events :: "ingest_lib \<Rightarrow> string \<Rightarrow> (nat \<Rightarrow> int) \<Rightarrow> nat \<Rightarrow> Item list \<Rightarrow> (ExtractedEvent \<times> byte list) list \<times> nat" where
  "item_events lib hdrID clk i [] = ([], 0)"
| "item_events lib hdrID clk i (item # items) =
     (case item_events lib hdrID clk (Suc i) items of
        (evs, bad) \<Rightarrow>
          if ih_Type (it_Header item) \<noteq> ''event'' \<and> ih_Type (it_Header item) \<noteq> ''transaction'' then (evs, bad)
          else case ExtractEvent lib (it_Payload item) (clk i) of
            None \<Rightarrow> (evs, Suc bad)
          | Some ev \<Rightarrow>
              let ev1 = (if ex_EventID ev = [] \<and> hdrID \<noteq> [] then ev\<lparr>ex_EventID := hdrID\<rparr> else ev)
              in ((ev1, it_Payload item) # evs, bad))"

definition pending_events :: "ingest_lib \<Rightarrow> Limits \<Rightarrow> (nat \<Rightarrow> int) \<Rightarrow> byte list \<Rightarrow> (ExtractedEvent \<times> byte list) list \<times> nat" where
  "pending_events lib lim clk payload =
     (if length payload < 9 then ([], 1)
      else
        let kind = payload ! 0; body = drop 9 payload in
        if kind = recEnvelope then
          (case Parse body lim of
             Inl _ \<Rightarrow> ([], 1)
           | Inr env \<Rightarrow> item_events lib (eh_EventID (env_Header env)) clk 0 (env_Items env))
        else if kind = recEventJSON then
          (case ExtractEvent lib body (clk 0) of None \<Rightarrow> ([], 1) | Some ev \<Rightarrow> ([(ev, body)], 0))
        else ([], 1))"

definition rec_project :: "byte list \<Rightarrow> int" where
  "rec_project payload = sint (get_le (take 8 (drop 1 payload)) :: u64)"

text \<open>
  The append loop: a full buffer is flushed, then the loop waits. \<open>cs\<close> says for each wait
  whether the context ends it; past the end of the list it does. The last component tells whether the row was
  stored.
\<close>

fun append_retry :: "es_env \<Rightarrow> Store \<Rightarrow> es_disk \<Rightarrow> io \<Rightarrow> int \<Rightarrow> Event \<Rightarrow> bool list \<Rightarrow> Store \<times> es_disk \<times> io \<times> bool list \<times> bool" where
  "append_retry E st disk io now ev cs =
     (case append_events st [ev] now of
        (st1, None) \<Rightarrow> (st1, disk, io, cs, True)
      | (st1, Some _) \<Rightarrow>
          (case es_Flush E st1 disk io of
             (st2, disk2, io2, _) \<Rightarrow>
               (case cs of
                  [] \<Rightarrow> (st2, disk2, io2, [], False)
                | c # cs1 \<Rightarrow> if c then (st2, disk2, io2, cs1, False) else append_retry E st2 disk2 io2 now ev cs1)))"

declare append_retry.simps [simp del]

definition issue_hit :: "int \<Rightarrow> ExtractedEvent \<Rightarrow> IssueHit" where
  "issue_hit projectID ev =
     \<lparr>hit_OrgID = 0, hit_ProjectID = projectID, hit_Fingerprint = ex_Fingerprint ev, hit_Basis = ex_Basis ev, hit_Title = truncate_str (ex_Message ev) 200,
      hit_Level = ex_Level ev, hit_SeenAt = ex_Timestamp ev\<rparr>"

record proc =
  pr_p :: pipeline
  pr_store :: Store
  pr_disk :: es_disk
  pr_hits :: "IssueHit list"

text \<open>The event loop; the result says whether it was not cut short by the context.\<close>

fun store_events :: "es_env \<Rightarrow> int \<Rightarrow> int \<Rightarrow> (ExtractedEvent \<times> byte list) list \<Rightarrow> proc \<Rightarrow> io \<Rightarrow> bool list \<Rightarrow> proc \<times> io \<times> bool" where
  "store_events E projectID now [] s io cs = (s, io, True)"
| "store_events E projectID now ((ev, payload) # evs) s io cs =
     (let (d1, fresh) = (if ex_EventID ev \<noteq> [] then firstSeen (pl_dedupe (pr_p s)) (projectKey projectID (ex_EventID ev)) else (pl_dedupe (pr_p s), True));
          p1 = (pr_p s)\<lparr>pl_dedupe := d1\<rparr> in
      if \<not> fresh then store_events E projectID now evs (s\<lparr>pr_p := pl_drop p1 DropDuplicate\<rparr>) io cs
      else case append_retry E (pr_store s) (pr_disk s) io now (toStoreEvent projectID ev payload) cs of
        (st1, disk1, io1, cs1, True) \<Rightarrow>
          store_events E projectID now evs
            (s\<lparr>pr_p := p1\<lparr>pl_stored := pl_stored p1 + 1\<rparr>, pr_store := st1, pr_disk := disk1,
               pr_hits := pr_hits s @ (if pl_issues p1 then [issue_hit projectID ev] else [])\<rparr>) io1 cs1
      | (st1, disk1, io1, cs1, False) \<Rightarrow> (s\<lparr>pr_p := p1, pr_store := st1, pr_disk := disk1\<rparr>, io1, False))"

fun drop_n :: "nat \<Rightarrow> string \<Rightarrow> pipeline \<Rightarrow> pipeline" where
  "drop_n 0 reason p = p"
| "drop_n (Suc n) reason p = drop_n n reason (pl_drop p reason)"

definition process :: "es_env \<Rightarrow> ingest_lib \<Rightarrow> (nat \<Rightarrow> int) \<Rightarrow> int \<Rightarrow> byte list \<Rightarrow> proc \<Rightarrow> io \<Rightarrow> bool list \<Rightarrow> proc \<times> io \<times> bool" where
  "process E lib clk now payload s io cs =
     (let (evs, bad) = pending_events lib (pl_lim (pr_p s)) clk payload
      in store_events E (rec_project payload) now evs (s\<lparr>pr_p := drop_n bad DropMalformed (pr_p s)\<rparr>) io cs)"

section \<open>The consumer loop\<close>

record runner =
  rn_proc :: proc
  rn_reader :: wal_reader
  rn_cd :: wal_dir
  rn_uncommitted :: nat

datatype commit_err = FlushFailed es_err | CommitFailed wal_err

definition commit :: "es_env \<Rightarrow> runner \<Rightarrow> io \<Rightarrow> io \<Rightarrow> runner \<times> commit_err option" where
  "commit E s fio cio =
     (case es_Flush E (pr_store (rn_proc s)) (pr_disk (rn_proc s)) fio of
        (st1, disk1, _, Some err) \<Rightarrow> (s\<lparr>rn_proc := (rn_proc s)\<lparr>pr_store := st1, pr_disk := disk1\<rparr>\<rparr>, Some (FlushFailed err))
      | (st1, disk1, _, None) \<Rightarrow>
          let s1 = s\<lparr>rn_proc := (rn_proc s)\<lparr>pr_store := st1, pr_disk := disk1\<rparr>\<rparr> in
          (case Commit (rn_cd s1) (rn_reader s1) cio of
             (cd1, r1, _, Inl err) \<Rightarrow> (s1\<lparr>rn_cd := cd1, rn_reader := r1\<rparr>, Some (CommitFailed err))
           | (cd1, r1, _, Inr _) \<Rightarrow> (s1\<lparr>rn_cd := cd1, rn_reader := r1, rn_uncommitted := 0\<rparr>, None)))"

text \<open>
  One turn of the loop. The first \<open>select\<close> finds the context done, a tick, or neither; the inner one, when there
  is no record, the context done or the timer. Each commit of a turn has its own system calls.
\<close>

datatype sel = SelDone | SelTick | SelNone

record turn_in =
  ti_sel :: sel
  ti_idle_done :: bool
  ti_now :: int
  ti_clk :: "nat \<Rightarrow> int"
  ti_next_io :: io
  ti_proc_io :: io
  ti_ctx :: "bool list"
  ti_flush1 :: io
  ti_commit1 :: io
  ti_flush2 :: io
  ti_commit2 :: io

datatype turn_out = Continue | Returned "commit_err option" | ReadFailed wal_err

definition set_lag :: "runner \<Rightarrow> nat \<Rightarrow> runner" where
  "set_lag s n = s\<lparr>rn_proc := (rn_proc s)\<lparr>pr_p := (pr_p (rn_proc s))\<lparr>pl_lag := n\<rparr>\<rparr>\<rparr>"

definition tick_commit :: "es_env \<Rightarrow> turn_in \<Rightarrow> runner \<Rightarrow> runner" where
  "tick_commit E inp s =
     (if ti_sel inp = SelTick \<and> (0 < rn_uncommitted s \<or> NeedsFlush (pr_store (rn_proc s)) (ti_now inp))
      then fst (commit E s (ti_flush1 inp) (ti_commit1 inp)) else s)"

definition run_turn :: "es_env \<Rightarrow> ingest_lib \<Rightarrow> wal_log \<Rightarrow> turn_in \<Rightarrow> runner \<Rightarrow> runner \<times> turn_out" where
  "run_turn E lib l inp s =
     (if ti_sel inp = SelDone then (case commit E s (ti_flush1 inp) (ti_commit1 inp) of (s1, err) \<Rightarrow> (s1, Returned err))
      else
        let s1 = tick_commit E inp s in
        case Next l (rn_reader s1) (ti_next_io inp) of
          (r1, _, Inl err) \<Rightarrow>
            let s2 = s1\<lparr>rn_reader := r1\<rparr> in
            if err = ErrNoRecord then
              (let s3 = set_lag s2 0 in
               if ti_idle_done inp then (case commit E s3 (ti_flush2 inp) (ti_commit2 inp) of (s4, e) \<Rightarrow> (s4, Returned e))
               else (s3, Continue))
            else (s2, ReadFailed err)
        | (r1, _, Inr rec1) \<Rightarrow>
            let s2 = set_lag (s1\<lparr>rn_reader := r1\<rparr>) (Lag l r1) in
            (case process E lib (ti_clk inp) (ti_now inp) (Payload rec1) (rn_proc s2) (ti_proc_io inp) (ti_ctx inp) of
               (pr, _, _) \<Rightarrow>
                 let s3 = s2\<lparr>rn_proc := pr, rn_uncommitted := rn_uncommitted s2 + 1\<rparr> in
                 (if CommitEvery (pl_opts (pr_p pr)) \<le> int (rn_uncommitted s3)
                  then fst (commit E s3 (ti_flush2 inp) (ti_commit2 inp)) else s3, Continue)))"

text \<open>The lag an ingest-only process computes from the consumer's offset file.\<close>

definition RefreshLagFromWAL :: "pipeline \<Rightarrow> wal_log \<Rightarrow> wal_dir \<Rightarrow> string \<Rightarrow> io \<Rightarrow> pipeline" where
  "RefreshLagFromWAL p l cd name io =
     (case ConsumerOffset cd name io of
        (_, Inl _) \<Rightarrow> p
      | (_, Inr res) \<Rightarrow>
          let off = (case res of None \<Rightarrow> 0 | Some o1 \<Rightarrow> o1); latest = LatestOffset l
          in p\<lparr>pl_lag := (if off < latest then latest - off else 0)\<rparr>)"

record Status =
  stt_Received :: u64
  stt_Stored :: u64
  stt_Drops :: "(string \<times> u64) list"
  stt_ConsumerLag :: nat
  stt_WALLatest :: nat
  stt_BufferRows :: nat
  stt_Segments :: nat
  stt_SegsQueried :: nat
  stt_SegsOpened :: nat

definition pl_Status :: "pipeline \<Rightarrow> Store option \<Rightarrow> wal_log \<Rightarrow> Status" where
  "pl_Status p st l =
     (let (considered, opened, rows, sgs) =
        (case st of None \<Rightarrow> (0, 0, 0, 0) | Some s \<Rightarrow> (fst (PruneStats s), snd (PruneStats s), BufferLen s, SegmentCount s))
      in \<lparr>stt_Received = pl_received p, stt_Stored = pl_stored p, stt_Drops = pl_drops p, stt_ConsumerLag = pl_lag p,
          stt_WALLatest = LatestOffset l, stt_BufferRows = rows, stt_Segments = sgs, stt_SegsQueried = considered, stt_SegsOpened = opened\<rparr>)"

end
