(* ===== verification/Pipeline_Store.thy ===== *)
theory Pipeline_Store
  imports Pipeline
begin

text \<open>
  What the pipeline's operations do to the rows: the window of the duplicate filter, the record codec, and that processing a
  record leaves a row for every event of it. \<open>world_rows\<close> are the rows on disk and in the buffer.
\<close>

section \<open>The duplicate filter\<close>

text \<open>A run of keys, with the keys that were let through, newest first.\<close>

fun dd_run :: "dedupe \<Rightarrow> string list \<Rightarrow> string list \<Rightarrow> dedupe \<times> string list" where
  "dd_run d [] hs = (d, hs)"
| "dd_run d (k # ks) hs = (case firstSeen d k of (d1, fresh) \<Rightarrow> dd_run d1 ks (if fresh then k # hs else hs))"

definition dd_inv :: "dedupe \<Rightarrow> string list \<Rightarrow> bool" where
  "dd_inv d hs \<longleftrightarrow> 0 < dd_cap d \<and> int (length (dd_cur d)) \<le> dd_cap d \<and>
     (\<exists>old. hs = dd_cur d @ dd_prev d @ old \<and> (if dd_prev d = [] then old = [] else int (length (dd_prev d)) = dd_cap d))"

lemma firstSeen_fresh: "snd (firstSeen d k) \<longleftrightarrow> k \<notin> set (dd_cur d) \<and> k \<notin> set (dd_prev d)"
  by (simp add: firstSeen_def Let_def)

lemma dd_inv_step:
  assumes "dd_inv d hs" and "firstSeen d k = (d1, fresh)"
  shows "dd_inv d1 (if fresh then k # hs else hs)" and "dd_cap d1 = dd_cap d"
    and "set (if fresh then k # hs else hs) = insert k (set hs)"
proof -
  from assms(1) obtain old where o: "hs = dd_cur d @ dd_prev d @ old" "if dd_prev d = [] then old = [] else int (length (dd_prev d)) = dd_cap d"
    and c: "0 < dd_cap d" "int (length (dd_cur d)) \<le> dd_cap d" by (auto simp: dd_inv_def)
  have "dd_inv d1 (if fresh then k # hs else hs) \<and> dd_cap d1 = dd_cap d \<and> set (if fresh then k # hs else hs) = insert k (set hs)"
  proof (cases fresh)
    case False
    with assms(2) have "d1 = d" "k \<in> set (dd_cur d) \<union> set (dd_prev d)" by (auto simp: firstSeen_def Let_def split: if_splits)
    with assms(1) False o(1) show ?thesis by auto
  next
    case True
    show ?thesis
    proof (cases "dd_cap d \<le> int (length (dd_cur d))")
      case full: True
      with assms(2) True have d1: "d1 = d\<lparr>dd_prev := dd_cur d, dd_cur := [k]\<rparr>" by (auto simp: firstSeen_def Let_def split: if_splits)
      have "dd_cur d \<noteq> []" using full c(1) by auto
      then have "1 \<le> length (dd_cur d)" by (simp add: Suc_leI)
      with full c o(1) d1 True \<open>dd_cur d \<noteq> []\<close> show ?thesis by (auto simp: dd_inv_def)
    next
      case False
      with assms(2) True have d1: "d1 = d\<lparr>dd_cur := k # dd_cur d\<rparr>" by (auto simp: firstSeen_def Let_def split: if_splits)
      with False c o True show ?thesis by (auto simp: dd_inv_def)
    qed
  qed
  then show "dd_inv d1 (if fresh then k # hs else hs)" "dd_cap d1 = dd_cap d" "set (if fresh then k # hs else hs) = insert k (set hs)" by auto
qed

lemma dd_run_inv:
  "dd_inv d hs \<Longrightarrow> dd_run d ks hs = (d', hs') \<Longrightarrow> dd_inv d' hs' \<and> dd_cap d' = dd_cap d \<and> set hs' = set hs \<union> set ks"
proof (induction ks arbitrary: d hs)
  case (Cons k ks)
  obtain d1 fresh where f: "firstSeen d k = (d1, fresh)" by fastforce
  from Cons.IH [OF dd_inv_step(1) [OF Cons.prems(1) f]] Cons.prems(2) f dd_inv_step(2,3) [OF Cons.prems(1) f] show ?case by auto
qed simp

text \<open>The duplicate filter is bounded and remembers a full window: after any sequence of keys both generations hold at most the
  capacity; a key is refused only if it really occurred before, and each of the last capacity many distinct keys that were let
  through is refused.\<close>

theorem dedupe_window:
  assumes "0 < capacity" and "dd_run (newDedupe capacity) ks [] = (d, hs)"
  shows "int (length (dd_cur d)) \<le> capacity \<and> int (length (dd_prev d)) \<le> capacity \<and> set hs = set ks \<and>
    (\<forall>k. \<not> snd (firstSeen d k) \<longrightarrow> k \<in> set ks) \<and> (\<forall>k \<in> set (take (nat capacity) hs). \<not> snd (firstSeen d k))"
proof -
  have "dd_inv (newDedupe capacity) []" using assms(1) by (simp add: dd_inv_def newDedupe_def)
  from dd_run_inv [OF this assms(2)] have inv: "dd_inv d hs" and cap: "dd_cap d = capacity" and set: "set hs = set ks"
    by (auto simp: newDedupe_def)
  from inv obtain old where o: "hs = dd_cur d @ dd_prev d @ old" "if dd_prev d = [] then old = [] else int (length (dd_prev d)) = capacity"
    and c: "int (length (dd_cur d)) \<le> capacity" by (auto simp: dd_inv_def cap)
  have p: "int (length (dd_prev d)) \<le> capacity" using o(2) assms(1) by (auto split: if_splits)
  have "take (nat capacity) hs = take (nat capacity) (dd_cur d @ dd_prev d)" using o by (cases "dd_prev d = []") auto
  then have "k \<in> set (dd_cur d @ dd_prev d)" if "k \<in> set (take (nat capacity) hs)" for k using that by (metis in_set_takeD)
  moreover have "k \<in> set ks" if "\<not> snd (firstSeen d k)" for k using that set o(1) by (auto simp: firstSeen_fresh)
  ultimately show ?thesis using c p set by (auto simp: firstSeen_fresh)
qed

theorem dedupe_window_witness:
  "\<exists>d hs. dd_run (newDedupe 2) [''a'', ''b'', ''a'', ''c''] [] = (d, hs) \<and> hs = [''c'', ''b'', ''a''] \<and> \<not> snd (firstSeen d ''b'')"
proof -
  have r: "dd_run (newDedupe 2) [''a'', ''b'', ''a'', ''c''] [] = (\<lparr>dd_cap = 2, dd_cur = [''c''], dd_prev = [''b'', ''a'']\<rparr>, [''c'', ''b'', ''a''])"
    by (simp add: newDedupe_def firstSeen_def Let_def)
  have "\<not> snd (firstSeen \<lparr>dd_cap = 2, dd_cur = [''c''], dd_prev = [''b'', ''a'']\<rparr> ''b'')" using dedupe_window [OF _ r] by simp
  with r show ?thesis by blast
qed

section \<open>The record codec\<close>

lemma sint_word_of_int: "- (2 ^ 63) \<le> x \<Longrightarrow> x < 2 ^ 63 \<Longrightarrow> sint (word_of_int x :: u64) = x"
  by (simp add: signed_of_int signed_take_bit_int_eq_self)

lemma submit_record_parts:
  "length (submit_record kind pid body) = 9 + length body" "submit_record kind pid body ! 0 = kind" "drop 9 (submit_record kind pid body) = body"
  "- (2 ^ 63) \<le> pid \<Longrightarrow> pid < 2 ^ 63 \<Longrightarrow> rec_project (submit_record kind pid body) = pid"
  by (simp_all add: submit_record_def rec_project_def sint_word_of_int)

text \<open>What is submitted is what is processed: an accepted request becomes a log record whose processing sees the same kind,
  project and body, and yields for the legacy endpoint exactly the event of the body and for envelopes exactly the events of its
  items; a request shed by the lag never reaches the log and is counted as dropped.\<close>

theorem Submit_process:
  assumes "- (2 ^ 63) \<le> pid" and "pid < 2 ^ 63" and "Submit p kind pid body res = (p', err, req)"
  shows "(case req of
      None \<Rightarrow> err = Some ErrOverloaded \<and> MaxLag (pl_opts p) < pl_lag p \<and> DropCount p' DropOverloaded = DropCount p DropOverloaded + 1
    | Some (k, payload) \<Rightarrow> k = kind \<and> rec_project payload = pid \<and>
        fst (pending_events lib lim clk payload) =
          (if kind = recEventJSON then (case ExtractEvent lib body (clk 0) of None \<Rightarrow> [] | Some ev \<Rightarrow> [(ev, body)])
           else if kind = recEnvelope then
             (case Parse body lim of Inl _ \<Rightarrow> [] | Inr env \<Rightarrow> fst (item_events lib (eh_EventID (env_Header env)) clk 0 (env_Items env)))
           else [])) \<and> pl_received p' = pl_received p + 1"
proof -
  have "recEventJSON \<noteq> recEnvelope" by (simp add: recEventJSON_def recEnvelope_def)
  then have "fst (pending_events lib lim clk (submit_record kind pid body)) =
      (if kind = recEventJSON then (case ExtractEvent lib body (clk 0) of None \<Rightarrow> [] | Some ev \<Rightarrow> [(ev, body)])
       else if kind = recEnvelope then
         (case Parse body lim of Inl _ \<Rightarrow> [] | Inr env \<Rightarrow> fst (item_events lib (eh_EventID (env_Header env)) clk 0 (env_Items env)))
       else [])"
    by (auto simp: pending_events_def Let_def submit_record_parts split: option.splits sum.splits)
  then show ?thesis
    using assms(3) submit_record_parts(4) [OF assms(1,2)]
    by (auto simp: Submit_def Let_def pl_drop_def DropCount_def split: if_splits append_res.splits)
qed

theorem Submit_process_witness:
  "rec_project (submit_record recEventJSON (-5) [1, 2]) = -5 \<and>
   fst (snd (Submit (NewPipeline False \<lparr>MaxLag = 0, AppendTimeout = 0, DedupeCap = 0, CommitEvery = 0\<rparr> sample_lim) recEventJSON (-5) [1, 2] (Appended 0))) = None"
proof -
  let ?p = "NewPipeline False \<lparr>MaxLag = 0, AppendTimeout = 0, DedupeCap = 0, CommitEvery = 0\<rparr> sample_lim"
  obtain p' err req where s: "Submit ?p recEventJSON (-5) [1, 2] (Appended 0) = (p', err, req)" by (metis prod_cases3)
  then have "req = Some (recEventJSON, submit_record recEventJSON (-5) [1, 2])" "err = None"
    by (auto simp: Submit_def NewPipeline_def pl_defaults_def Let_def)
  with Submit_process [OF _ _ s] s show ?thesis by auto
qed

section \<open>Events of a record\<close>

text \<open>Whether and under which id an event is extracted does not depend on the clock.\<close>

definition event_ids :: "ingest_lib \<Rightarrow> Limits \<Rightarrow> byte list \<Rightarrow> (string \<times> byte list) list" where
  "event_ids lib lim payload = map (\<lambda>(ev, pl). (ex_EventID ev, pl)) (fst (pending_events lib lim (\<lambda>_. 0) payload))"

lemma ExtractEvent_clock:
  "ExtractEvent lib pl t = map_option (\<lambda>ev. ev\<lparr>ex_Timestamp := parseSentryTime lib (se_Timestamp (fst (unmarshal dec_event (bytes_str pl) zero_event))) t\<rparr>) (ExtractEvent lib pl u)"
  by (cases "unmarshal dec_event (bytes_str pl) zero_event") (simp add: ExtractEvent_def Let_def)

lemma item_events_clock:
  "map (\<lambda>(ev, pl). (ex_EventID ev, pl)) (fst (item_events lib h clk i items)) = map (\<lambda>(ev, pl). (ex_EventID ev, pl)) (fst (item_events lib h clk' i items))"
proof (induction items arbitrary: i)
  case (Cons it items)
  show ?case
    using Cons [of "Suc i"] ExtractEvent_clock [of lib "it_Payload it" "clk i" "clk' i"]
    by (cases "ExtractEvent lib (it_Payload it) (clk' i)") (auto simp: Let_def split: prod.splits)
qed simp

lemma pending_ids: "map (\<lambda>(ev, pl). (ex_EventID ev, pl)) (fst (pending_events lib lim clk payload)) = event_ids lib lim payload"
proof -
  have "map (\<lambda>(ev, pl). (ex_EventID ev, pl)) (case ExtractEvent lib b t of None \<Rightarrow> [] | Some ev \<Rightarrow> [(ev, b)]) =
    map (\<lambda>(ev, pl). (ex_EventID ev, pl)) (case ExtractEvent lib b 0 of None \<Rightarrow> [] | Some ev \<Rightarrow> [(ev, b)])" for b t
    using ExtractEvent_clock [of lib b t 0] by (cases "ExtractEvent lib b 0") auto
  note ev = this
  have one: "map (\<lambda>(ev, pl). (ex_EventID ev, pl)) (fst (case ExtractEvent lib b t of None \<Rightarrow> ([], 1::nat) | Some ev \<Rightarrow> ([(ev, b)], 0))) =
    map (\<lambda>(ev, pl). (ex_EventID ev, pl)) (fst (case ExtractEvent lib b 0 of None \<Rightarrow> ([], 1::nat) | Some ev \<Rightarrow> ([(ev, b)], 0)))" for b t
    using ev [of b t] by (cases "ExtractEvent lib b 0"; cases "ExtractEvent lib b t") simp_all
  show ?thesis
  proof (cases "Parse (drop 9 payload) lim")
    case (Inl e)
    then show ?thesis using one [of "drop 9 payload" "clk 0"] by (simp add: event_ids_def pending_events_def Let_def)
  next
    case (Inr env)
    then show ?thesis using one [of "drop 9 payload" "clk 0"] item_events_clock [of lib "eh_EventID (env_Header env)" clk 0 "env_Items env" "\<lambda>_. 0"]
      by (simp add: event_ids_def pending_events_def Let_def)
  qed
qed

text \<open>The values the parameters return are \<open>int64\<close>s.\<close>

definition lib_ok :: "ingest_lib \<Rightarrow> bool" where
  "lib_ok lib \<longleftrightarrow> (\<forall>s t. lib_ParseTime lib s = Some t \<longrightarrow> int64 t) \<and> (\<forall>s b t. lib_FloatNanos lib s = Some (b, t) \<longrightarrow> int64 t)"

lemma ExtractEvent_time: "lib_ok lib \<Longrightarrow> int64 now \<Longrightarrow> ExtractEvent lib pl now = Some ev \<Longrightarrow> int64 (ex_Timestamp ev)"
proof -
  assume l: "lib_ok lib" and n: "int64 now" and e: "ExtractEvent lib pl now = Some ev"
  obtain se ok where u: "unmarshal dec_event (bytes_str pl) zero_event = (se, ok)" by fastforce
  have "int64 (parseSentryTime lib raw now)" for raw
    using l n by (auto simp: parseSentryTime_def lib_ok_def split: option.splits prod.splits bool.splits json.splits)
  then show ?thesis using e u by (auto simp: ExtractEvent_def Let_def split: if_splits)
qed

lemma pending_time:
  assumes "lib_ok lib" and "\<And>i. int64 (clk i)" and "(ev, pl) \<in> set (fst (pending_events lib lim clk payload))"
  shows "int64 (ex_Timestamp ev)"
proof -
  have items: "int64 (ex_Timestamp ev)" if "(ev, pl) \<in> set (fst (item_events lib h clk i its))" for h i its
    using that
  proof (induction its arbitrary: i)
    case (Cons it its)
    show ?case
      using Cons.prems Cons.IH [of "Suc i"] ExtractEvent_time [OF assms(1,2), of "it_Payload it" i]
      by (cases "item_events lib h clk (Suc i) its") (auto simp: Let_def split: if_splits option.splits)
  qed simp
  show ?thesis
    using assms(3) items ExtractEvent_time [OF assms(1,2)] by (auto simp: pending_events_def Let_def split: if_splits option.splits sum.splits)
qed

end
