(* ===== verification/Pipeline_Rows.thy ===== *)
theory Pipeline_Rows
  imports Pipeline_Store
begin

text \<open>
  What processing a record does to the rows of the store: every event of a record that is processed to the end has a row on disk
  or in the buffer, because the duplicate filter only holds keys of stored events and a full buffer is flushed and tried again.
\<close>

section \<open>Names of segments\<close>

text \<open>No later flush can give the segment of this row the name of a file that is there.\<close>

definition name_free :: "es_disk \<Rightarrow> Store \<Rightarrow> Event \<Rightarrow> bool" where
  "name_free disk st e \<longleftrightarrow> (\<forall>n > flushCount st. SegPath (fst (part_key e)) (snd (part_key e)) (ev_Timestamp e) n \<notin> fst ` set disk)"

lemma no_clash_free: "no_clash disk st \<longleftrightarrow> (\<forall>e \<in> set (buf st). name_free disk st e)"
  by (simp add: no_clash_def name_free_def)

text \<open>New files carry counters up to the new flush counter.\<close>

definition counted :: "es_disk \<Rightarrow> Store \<Rightarrow> es_disk \<Rightarrow> Store \<Rightarrow> bool" where
  "counted disk st disk' st' \<longleftrightarrow> flushCount st \<le> flushCount st' \<and>
     (\<forall>p h t n. SegPath p h t n \<in> fst ` set disk' \<longrightarrow> SegPath p h t n \<in> fst ` set disk \<or> n \<le> flushCount st')"

lemma counted_refl: "flushCount st' = flushCount st \<Longrightarrow> counted disk st disk st'"
  by (simp add: counted_def)

lemma counted_trans: "counted d s d1 s1 \<Longrightarrow> counted d1 s1 d2 s2 \<Longrightarrow> counted d s d2 s2"
  unfolding counted_def by (meson order_trans)

lemma writeSegment_counted: "writeSegment E st disk io pr h evs = (st', disk', io', r) \<Longrightarrow> counted disk st disk' st'"
proof -
  assume "writeSegment E st disk io pr h evs = (st', disk', io', r)"
  then have "disk' = disk \<and> flushCount st \<le> flushCount st' \<or>
    (\<exists>p f. disk' = map_put (SegPath pr h p (Suc (flushCount st))) f disk \<and> flushCount st' = Suc (flushCount st))"
    by (auto simp: writeSegment_def Let_def split: prod.splits io_res.splits bool.splits)
  then show ?thesis by (elim disjE exE conjE) (simp_all add: counted_def fst_map_put)
qed

lemma flush_parts_counted: "flush_parts E st disk io parts ks acc = (st', disk', io', r) \<Longrightarrow> counted disk st disk' st'"
proof (induction ks arbitrary: st disk io acc)
  case (Cons k ks)
  obtain st1 disk1 io1 r1 where w: "writeSegment E st disk io (fst k) (snd k) (parts k) = (st1, disk1, io1, r1)" by (metis prod_cases4)
  note c = writeSegment_counted [OF w]
  show ?case
  proof (cases r1)
    case (Inl err)
    with Cons.prems w c show ?thesis by simp
  next
    case (Inr m)
    with Cons.prems w have "flush_parts E st1 disk1 io1 parts ks (acc @ [m]) = (st', disk', io', r)" by simp
    with c show ?thesis by (rule counted_trans [OF _ Cons.IH])
  qed
qed (simp add: counted_refl)

lemma counted_buf: "counted d s d' (s'\<lparr>buf := b\<rparr>) = counted d s d' s'" "counted d (s\<lparr>buf := b\<rparr>) d' s' = counted d s d' s'"
  "counted d s d' (s'\<lparr>known := K, s_segs := S\<rparr>) = counted d s d' s'"
  by (simp_all add: counted_def)

lemma es_Flush_counted:
  assumes "es_Flush E st disk io = (st', disk', io', r)"
  shows "counted disk st disk' st'"
proof (cases "buf st = []")
  case True
  with assms show ?thesis by (auto simp: es_Flush_def Let_def intro: counted_refl)
next
  case False
  let ?parts = "\<lambda>k. case map_of (group_rows (buf st)) k of None \<Rightarrow> [] | Some l \<Rightarrow> l"
  obtain st2 disk2 io2 r2 where f: "flush_parts E (st\<lparr>buf := []\<rparr>) disk io ?parts (iter_parts E (map fst (group_rows (buf st)))) [] = (st2, disk2, io2, r2)"
    by (metis prod_cases4)
  from flush_parts_counted [OF f] have c: "counted disk st disk2 st2" by (simp add: counted_buf)
  with False assms f show ?thesis by (cases r2) (auto simp: es_Flush_def Let_def counted_buf)
qed

lemma name_free_counted: "name_free disk st e \<Longrightarrow> counted disk st disk' st' \<Longrightarrow> name_free disk' st' e"
  unfolding name_free_def counted_def by (meson le_less_trans not_le)

section \<open>Rows\<close>

definition world_rows :: "es_disk \<Rightarrow> Store \<Rightarrow> Event set" where
  "world_rows disk st = set (disk_rows disk) \<union> set (buf st)"

definition store_sound :: "es_disk \<Rightarrow> Store \<Rightarrow> bool" where
  "store_sound disk st \<longleftrightarrow> disk_valid disk \<and> (\<forall>e \<in> set (buf st). int64 (ev_Timestamp e) \<and> name_free disk st e)"

text \<open>How the operations may change a store and its directory: nothing disappears.\<close>

definition rows_kept :: "es_disk \<Rightarrow> Store \<Rightarrow> es_disk \<Rightarrow> Store \<Rightarrow> bool" where
  "rows_kept disk st disk' st' \<longleftrightarrow> set (disk_rows disk) \<subseteq> set (disk_rows disk') \<and> world_rows disk st \<subseteq> world_rows disk' st' \<and>
     counted disk st disk' st'"

lemma rows_kept_trans: "rows_kept d s d1 s1 \<Longrightarrow> rows_kept d1 s1 d2 s2 \<Longrightarrow> rows_kept d s d2 s2"
  unfolding rows_kept_def using counted_trans by blast

lemma rows_kept_refl [simp]: "rows_kept d s d s"
  by (simp add: rows_kept_def counted_refl)

lemma es_Flush_sound:
  assumes "env_ok E" and "store_sound disk st" and "es_Flush E st disk io = (st', disk', io', r)"
  shows "store_sound disk' st'" and "rows_kept disk st disk' st'" and "r = None \<Longrightarrow> world_rows disk st \<subseteq> set (disk_rows disk')"
    and "set (buf st') \<subseteq> set (buf st)"
proof -
  have nc: "no_clash disk st" and v: "disk_valid disk" and t: "\<And>e. e \<in> set (buf st) \<Longrightarrow> int64 (ev_Timestamp e)"
    using assms(2) by (auto simp: store_sound_def no_clash_free)
  have d: "disk_valid disk'" "mset (disk_rows disk) \<subseteq># mset (disk_rows disk')" "r = None \<Longrightarrow> mset (disk_rows disk') = mset (disk_rows disk) + mset (buf st)"
    using es_Flush_disk [OF assms(1) nc v t assms(3)] by auto
  note c = es_Flush_counted [OF assms(3)]
  have b: "buf st' = (if r = None then [] else buf st)" using es_Flush_step [OF assms(1) nc assms(3)] by (auto split: if_splits)
  show sub: "set (buf st') \<subseteq> set (buf st)" by (simp add: b)
  show "store_sound disk' st'" using d(1) b assms(2) name_free_counted [OF _ c] by (auto simp: store_sound_def split: if_splits)
  have m: "set (disk_rows disk) \<subseteq> set (disk_rows disk')" using d(2) by (metis set_mset_mono set_mset_mset)
  show all: "world_rows disk st \<subseteq> set (disk_rows disk')" if "r = None"
  proof -
    have "set_mset (mset (disk_rows disk')) = set_mset (mset (disk_rows disk) + mset (buf st))" using d(3) [OF that] by (rule arg_cong)
    then show ?thesis by (simp add: world_rows_def)
  qed
  show "rows_kept disk st disk' st'"
    using m c all b by (cases "r = None") (auto simp: rows_kept_def world_rows_def)
qed

lemma append_retry_sound:
  assumes "env_ok E"
  shows "store_sound disk st \<Longrightarrow> int64 (ev_Timestamp ev) \<Longrightarrow> name_free disk st ev \<Longrightarrow>
    append_retry E st disk io now ev cs = (st', disk', io', cs', ok) \<Longrightarrow>
    store_sound disk' st' \<and> rows_kept disk st disk' st' \<and> (ok \<longrightarrow> ev \<in> world_rows disk' st')"
proof (induction cs arbitrary: st disk io)
  case Nil
  obtain st1 r1 where a: "append_events st [ev] now = (st1, r1)" by fastforce
  obtain st2 disk2 io2 r2 where f: "es_Flush E st1 disk io = (st2, disk2, io2, r2)" by (metis prod_cases4)
  from a Nil show ?case
  proof (cases r1)
    case None
    with a have st1: "buf st1 = buf st @ [ev]" "flushCount st1 = flushCount st" by (auto simp: append_events_def Let_def split: if_splits)
    with None a Nil show ?thesis by (auto simp: append_retry.simps [of E st] store_sound_def rows_kept_def world_rows_def name_free_def counted_refl)
  next
    case (Some e)
    with a have "st1 = st" by (auto simp: append_events_def Let_def split: if_splits)
    with Some a f Nil(1,4) es_Flush_sound [OF assms Nil(1), of io] show ?thesis by (simp add: append_retry.simps [of E st])
  qed
next
  case (Cons c cs)
  obtain st1 r1 where a: "append_events st [ev] now = (st1, r1)" by fastforce
  obtain st2 disk2 io2 r2 where f: "es_Flush E st1 disk io = (st2, disk2, io2, r2)" by (metis prod_cases4)
  show ?case
  proof (cases r1)
    case None
    with a have st1: "buf st1 = buf st @ [ev]" "flushCount st1 = flushCount st" by (auto simp: append_events_def Let_def split: if_splits)
    with None a Cons.prems show ?thesis by (auto simp: append_retry.simps [of E st] store_sound_def rows_kept_def world_rows_def name_free_def counted_refl)
  next
    case (Some e)
    with a have st1: "st1 = st" by (auto simp: append_events_def Let_def split: if_splits)
    note s = es_Flush_sound [OF assms Cons.prems(1) f [unfolded st1]]
    show ?thesis
    proof (cases c)
      case True
      with Some a f st1 Cons.prems(4) s show ?thesis by (simp add: append_retry.simps [of E st])
    next
      case False
      with Some a f st1 Cons.prems(4) have r: "append_retry E st2 disk2 io2 now ev cs = (st', disk', io', cs', ok)"
        by (simp add: append_retry.simps [of E st])
      have "name_free disk2 st2 ev" using s(2) Cons.prems(3) name_free_counted by (auto simp: rows_kept_def)
      from Cons.IH [OF s(1) Cons.prems(2) this r] s(2) show ?thesis using rows_kept_trans by blast
    qed
  qed
qed

section \<open>The duplicate filter and the rows\<close>

lemma projectKey_inj:
  assumes "int64 p" and "int64 q" and "projectKey p a = projectKey q b"
  shows "p = q" and "a = b"
proof -
  have len: "length (bytes_str (put_le 8 (word_of_int x :: u64))) = 8" for x by (simp add: bytes_str_def)
  from assms(3) have "bytes_str (put_le 8 (word_of_int p :: u64)) = bytes_str (put_le 8 (word_of_int q :: u64)) \<and> a = b"
    using len by (simp add: projectKey_def append_eq_append_conv)
  then have k: "bytes_str (put_le 8 (word_of_int p :: u64)) = bytes_str (put_le 8 (word_of_int q :: u64))" and "a = b" by auto
  then show "a = b" by simp
  have "inj (\<lambda>b :: byte. char_of (unat b) :: char)"
  proof (rule injI)
    fix x y :: byte
    assume "(char_of (unat x) :: char) = char_of (unat y)"
    then have "(of_char (char_of (unat x) :: char) :: nat) = of_char (char_of (unat y) :: char)" by simp
    moreover have "unat x < 256" "unat y < 256" using unsigned_less [of x] unsigned_less [of y] by simp_all
    ultimately show "x = y" by (simp add: word_unat_eq_iff)
  qed
  with k have "put_le 8 (word_of_int p :: u64) = put_le 8 (word_of_int q :: u64)" by (simp add: bytes_str_def inj_map_eq_map)
  then have "get_le (put_le 8 (word_of_int p :: u64)) = (get_le (put_le 8 (word_of_int q :: u64)) :: u64)" by simp
  then have "sint (word_of_int p :: u64) = sint (word_of_int q :: u64)" by simp
  then show "p = q" using assms(1,2) by (simp add: sint_word_of_int int64_def)
qed

text \<open>An event is stored when its project has a row with its id, or its payload when it has no id.\<close>

definition stored :: "Event set \<Rightarrow> int \<Rightarrow> string \<Rightarrow> byte list \<Rightarrow> bool" where
  "stored rows pid eid pl \<longleftrightarrow> (\<exists>e \<in> rows. ev_ProjectID e = pid \<and> ev_EventID e = eid \<and> (eid = [] \<longrightarrow> ev_Payload e = pl))"

lemma stored_mono: "stored R pid eid pl \<Longrightarrow> R \<subseteq> R' \<Longrightarrow> stored R' pid eid pl"
  by (auto simp: stored_def)

lemma stored_row: "toStoreEvent pid ev pl \<in> R \<Longrightarrow> stored R pid (ex_EventID ev) pl"
  unfolding stored_def by (rule bexI) (simp_all add: toStoreEvent_def)

definition dd_sound :: "dedupe \<Rightarrow> Event set \<Rightarrow> bool" where
  "dd_sound d rows \<longleftrightarrow> (\<forall>k \<in> set (dd_cur d) \<union> set (dd_prev d). \<exists>pid eid. int64 pid \<and> eid \<noteq> [] \<and> k = projectKey pid eid \<and> stored rows pid eid [])"

lemma dd_sound_mono: "dd_sound d R \<Longrightarrow> R \<subseteq> R' \<Longrightarrow> dd_sound d R'"
  unfolding dd_sound_def using stored_mono by blast

lemma firstSeen_keys:
  "firstSeen d k = (d1, fresh) \<Longrightarrow> set (dd_cur d1) \<union> set (dd_prev d1) \<subseteq> insert k (set (dd_cur d) \<union> set (dd_prev d))"
  "firstSeen d k = (d1, False) \<Longrightarrow> d1 = d \<and> k \<in> set (dd_cur d) \<union> set (dd_prev d)"
  by (auto simp: firstSeen_def Let_def split: if_splits)

lemma dd_sound_hit:
  assumes "dd_sound d R" and "int64 pid" and "eid \<noteq> []" and "firstSeen d (projectKey pid eid) = (d1, False)"
  shows "stored R pid eid pl"
proof -
  from firstSeen_keys(2) [OF assms(4)] assms(1) obtain p a where "int64 p" "projectKey pid eid = projectKey p a" "stored R p a []"
    unfolding dd_sound_def by meson
  with projectKey_inj [OF assms(2), of p eid a] assms(3) show ?thesis by (auto simp: stored_def)
qed

lemma dd_sound_new:
  assumes "dd_sound d R" and "int64 pid" and "eid \<noteq> []" and "firstSeen d (projectKey pid eid) = (d1, fresh)" and "stored R pid eid pl"
  shows "dd_sound d1 R"
proof -
  have "stored R pid eid []" using assms(3,5) by (auto simp: stored_def)
  with assms(1-3) firstSeen_keys(1) [OF assms(4)] show ?thesis unfolding dd_sound_def by blast
qed

section \<open>Processing\<close>

definition proc_sound :: "proc \<Rightarrow> bool" where
  "proc_sound s \<longleftrightarrow> store_sound (pr_disk s) (pr_store s) \<and> dd_sound (pl_dedupe (pr_p s)) (world_rows (pr_disk s) (pr_store s))"

definition row_ready :: "proc \<Rightarrow> int \<Rightarrow> ExtractedEvent \<times> byte list \<Rightarrow> bool" where
  "row_ready s pid ep \<longleftrightarrow> int64 (ex_Timestamp (fst ep)) \<and> name_free (pr_disk s) (pr_store s) (toStoreEvent pid (fst ep) (snd ep))"

text \<open>Nothing on disk is lost even when the loop is cut short; a complete run leaves a row for every event.\<close>

definition processed :: "int \<Rightarrow> (ExtractedEvent \<times> byte list) list \<Rightarrow> proc \<Rightarrow> proc \<Rightarrow> bool \<Rightarrow> bool" where
  "processed pid evs s s' done \<longleftrightarrow> store_sound (pr_disk s') (pr_store s') \<and> rows_kept (pr_disk s) (pr_store s) (pr_disk s') (pr_store s') \<and>
     pl_lim (pr_p s') = pl_lim (pr_p s) \<and>
     (done \<longrightarrow> proc_sound s' \<and> (\<forall>(ev, pl) \<in> set evs. stored (world_rows (pr_disk s') (pr_store s')) pid (ex_EventID ev) pl))"

lemma pl_drop_sel [simp]: "pl_dedupe (pl_drop p r) = pl_dedupe p" "pl_lim (pl_drop p r) = pl_lim p" "pl_opts (pl_drop p r) = pl_opts p"
  by (simp_all add: pl_drop_def)

lemma drop_n_sel [simp]: "pl_dedupe (drop_n n r p) = pl_dedupe p" "pl_lim (drop_n n r p) = pl_lim p" "pl_opts (drop_n n r p) = pl_opts p"
  by (induction n arbitrary: p) simp_all

lemma processed_cons:
  assumes "processed pid evs s1 s' done" and "rows_kept (pr_disk s) (pr_store s) (pr_disk s1) (pr_store s1)" and "pl_lim (pr_p s1) = pl_lim (pr_p s)"
    and "stored (world_rows (pr_disk s1) (pr_store s1)) pid (ex_EventID ev) pl"
  shows "processed pid ((ev, pl) # evs) s s' done"
proof -
  have k: "rows_kept (pr_disk s1) (pr_store s1) (pr_disk s') (pr_store s')" using assms(1) by (simp add: processed_def)
  have "stored (world_rows (pr_disk s') (pr_store s')) pid (ex_EventID ev) pl"
    using k by (intro stored_mono [OF assms(4)]) (simp add: rows_kept_def)
  with assms(1,3) rows_kept_trans [OF assms(2) k] show ?thesis by (simp add: processed_def)
qed

lemma store_events_sound:
  assumes "env_ok E" and "int64 pid"
  shows "proc_sound s \<Longrightarrow> list_all (row_ready s pid) evs \<Longrightarrow> store_events E pid now evs s io cs = (s', io', done) \<Longrightarrow> processed pid evs s s' done"
proof (induction evs arbitrary: s io cs)
  case Nil
  then show ?case by (auto simp: processed_def proc_sound_def)
next
  case (Cons ep evs)
  obtain ev pl where ep: "ep = (ev, pl)" by (cases ep)
  let ?d = "pl_dedupe (pr_p s)" and ?key = "projectKey pid (ex_EventID ev)" and ?R = "world_rows (pr_disk s) (pr_store s)"
  obtain d1 fresh where f: "(if ex_EventID ev \<noteq> [] then firstSeen ?d ?key else (?d, True)) = (d1, fresh)" by fastforce
  let ?p1 = "(pr_p s)\<lparr>pl_dedupe := d1\<rparr>"
  have ss: "store_sound (pr_disk s) (pr_store s)" and dd: "dd_sound ?d ?R" using Cons.prems(1) by (auto simp: proc_sound_def)
  have rdy: "int64 (ev_Timestamp (toStoreEvent pid ev pl))" "name_free (pr_disk s) (pr_store s) (toStoreEvent pid ev pl)"
    using Cons.prems(2) by (auto simp: ep row_ready_def toStoreEvent_def)
  show ?case
  proof (cases fresh)
    case False
    with f have nb: "ex_EventID ev \<noteq> []" "firstSeen ?d ?key = (d1, False)" by (auto split: if_splits)
    then have d1: "d1 = ?d" using firstSeen_keys(2) by blast
    let ?s1 = "s\<lparr>pr_p := pl_drop ?p1 DropDuplicate\<rparr>"
    from Cons.prems(3) f False ep have run: "store_events E pid now evs ?s1 io cs = (s', io', done)" by simp
    have "proc_sound ?s1" "list_all (row_ready ?s1 pid) evs"
      using Cons.prems(1,2) d1 by (simp add: proc_sound_def) (use Cons.prems(2) in \<open>simp add: list_all_iff row_ready_def\<close>)
    from Cons.IH [OF this run] show ?thesis
      unfolding ep by (rule processed_cons) (use dd_sound_hit [OF dd assms(2) nb] in simp_all)
  next
    case True
    obtain st1 disk1 io1 cs1 ok where a: "append_retry E (pr_store s) (pr_disk s) io now (toStoreEvent pid ev pl) cs = (st1, disk1, io1, cs1, ok)"
      by (metis prod_cases5)
    from append_retry_sound [OF assms(1) ss rdy a] have as: "store_sound disk1 st1" "rows_kept (pr_disk s) (pr_store s) disk1 st1"
      "ok \<longrightarrow> toStoreEvent pid ev pl \<in> world_rows disk1 st1" by auto
    show ?thesis
    proof (cases ok)
      case False
      with Cons.prems(3) f True ep a have "s' = s\<lparr>pr_p := ?p1, pr_store := st1, pr_disk := disk1\<rparr>" "\<not> done" by auto
      with as show ?thesis by (simp add: processed_def)
    next
      case ok: True
      let ?s1 = "s\<lparr>pr_p := ?p1\<lparr>pl_stored := pl_stored ?p1 + 1\<rparr>, pr_store := st1, pr_disk := disk1,
               pr_hits := pr_hits s @ (if pl_issues ?p1 then [issue_hit pid ev] else [])\<rparr>"
      from Cons.prems(3) f True ep a ok have run: "store_events E pid now evs ?s1 io1 cs1 = (s', io', done)" by simp
      have st: "stored (world_rows disk1 st1) pid (ex_EventID ev) pl" using as(3) ok by (simp add: stored_row)
      have dd1: "dd_sound ?d (world_rows disk1 st1)" using as(2) by (intro dd_sound_mono [OF dd]) (simp add: rows_kept_def)
      have "dd_sound d1 (world_rows disk1 st1)"
        using f dd1 dd_sound_new [OF dd1 assms(2) _ _ st] by (auto split: if_splits)
      with as(1) have "proc_sound ?s1" by (simp add: proc_sound_def)
      moreover have "list_all (row_ready ?s1 pid) evs"
        using Cons.prems(2) as(2) name_free_counted by (auto simp: list_all_iff row_ready_def rows_kept_def)
      ultimately have "processed pid evs ?s1 s' done" using run by (rule Cons.IH)
      then show ?thesis unfolding ep by (rule processed_cons) (use as st in simp_all)
    qed
  qed
qed

text \<open>The events of a record are stored.\<close>

definition record_stored :: "ingest_lib \<Rightarrow> Limits \<Rightarrow> Event set \<Rightarrow> byte list \<Rightarrow> bool" where
  "record_stored lib lim rows payload \<longleftrightarrow> (\<forall>(eid, pl) \<in> set (event_ids lib lim payload). stored rows (rec_project payload) eid pl)"

lemma record_stored_mono: "record_stored lib lim R payload \<Longrightarrow> R \<subseteq> R' \<Longrightarrow> record_stored lib lim R' payload"
  unfolding record_stored_def using stored_mono by blast

definition process_ready :: "ingest_lib \<Rightarrow> (nat \<Rightarrow> int) \<Rightarrow> byte list \<Rightarrow> proc \<Rightarrow> bool" where
  "process_ready lib clk payload s \<longleftrightarrow> (\<forall>i. int64 (clk i)) \<and>
     (\<forall>(ev, pl) \<in> set (fst (pending_events lib (pl_lim (pr_p s)) clk payload)).
        name_free (pr_disk s) (pr_store s) (toStoreEvent (rec_project payload) ev pl))"

lemma rec_project_int64: "int64 (rec_project payload)"
  using sint_ge [of "get_le (take 8 (drop 1 payload)) :: u64"] sint_lt [of "get_le (take 8 (drop 1 payload)) :: u64"]
  by (simp add: rec_project_def int64_def)

lemma process_sound:
  assumes "env_ok E" and "lib_ok lib" and "proc_sound s" and "process_ready lib clk payload s"
    and "process E lib clk now payload s io cs = (s', io', done)"
  shows "store_sound (pr_disk s') (pr_store s') \<and> rows_kept (pr_disk s) (pr_store s) (pr_disk s') (pr_store s') \<and> pl_lim (pr_p s') = pl_lim (pr_p s) \<and>
    (done \<longrightarrow> proc_sound s' \<and> record_stored lib (pl_lim (pr_p s)) (world_rows (pr_disk s') (pr_store s')) payload)"
proof -
  obtain evs bad where pe: "pending_events lib (pl_lim (pr_p s)) clk payload = (evs, bad)" by fastforce
  let ?s1 = "s\<lparr>pr_p := drop_n bad DropMalformed (pr_p s)\<rparr>"
  have clk: "\<And>i. int64 (clk i)" using assms(4) by (simp add: process_ready_def)
  have "list_all (row_ready ?s1 (rec_project payload)) evs"
    unfolding list_all_iff
  proof
    fix ep
    assume "ep \<in> set evs"
    moreover obtain ev pl where "ep = (ev, pl)" by (cases ep)
    ultimately have m: "(ev, pl) \<in> set (fst (pending_events lib (pl_lim (pr_p s)) clk payload))" "ep = (ev, pl)" by (simp_all add: pe)
    have "int64 (ex_Timestamp ev)" by (rule pending_time [OF assms(2) _ m(1)]) (rule clk)
    moreover have "name_free (pr_disk s) (pr_store s) (toStoreEvent (rec_project payload) ev pl)"
      using assms(4) m(1) unfolding process_ready_def by blast
    ultimately show "row_ready ?s1 (rec_project payload) ep" by (simp add: row_ready_def m(2))
  qed
  moreover have "proc_sound ?s1" using assms(3) by (simp add: proc_sound_def)
  moreover have "store_events E (rec_project payload) now evs ?s1 io cs = (s', io', done)" using assms(5) pe by (simp add: process_def)
  ultimately have p: "processed (rec_project payload) evs ?s1 s' done" by (intro store_events_sound [OF assms(1) rec_project_int64])
  have "record_stored lib (pl_lim (pr_p s)) (world_rows (pr_disk s') (pr_store s')) payload" if "done"
    using p that pending_ids [of lib "pl_lim (pr_p s)" clk payload, symmetric] by (fastforce simp: record_stored_def processed_def pe)
  with p show ?thesis by (simp add: processed_def)
qed

end
