(* ===== verification/Pipeline_Run.thy ===== *)
theory Pipeline_Run
  imports Pipeline_Rows
begin

text \<open>
  The consumer's life: turns of its loop beside a growing log, crashes in the middle of a record, of a flush or of a commit, and
  restarts from what is on disk. The result is at-least-once delivery: whatever offset is committed, the events of
  all records before it are in the segment files.
\<close>

section \<open>Commits\<close>

text \<open>What a commit does: the rows stay, and the offset file is as before or holds the reader's position, the latter only with all rows on disk.\<close>

definition committed_step :: "runner \<Rightarrow> runner \<Rightarrow> bool" where
  "committed_step s s' \<longleftrightarrow>
     (let d = pr_disk (rn_proc s); st = pr_store (rn_proc s); d' = pr_disk (rn_proc s'); st' = pr_store (rn_proc s') in
      proc_sound (rn_proc s') \<and> rows_kept d st d' st' \<and> pr_p (rn_proc s') = pr_p (rn_proc s) \<and>
      rd_pos (rn_reader s') = rd_pos (rn_reader s) \<and> rd_name (rn_reader s') = rd_name (rn_reader s) \<and>
      (\<forall>l ess. rd_inv l ess (rn_reader s) \<longrightarrow> rd_inv l ess (rn_reader s')) \<and>
      (let f = map_of (rn_cd s) (offset_path (rd_name (rn_reader s))); f' = map_of (rn_cd s') (offset_path (rd_name (rn_reader s))) in
       f' = f \<or> f' = Some (offset_bytes (rd_pos (rn_reader s))) \<and> world_rows d st \<subseteq> set (disk_rows d')))"

lemma commit_sound:
  assumes "env_ok E" and "proc_sound (rn_proc s)" and "commit E s fio cio = (s', err)"
  shows "committed_step s s'"
proof -
  let ?d = "pr_disk (rn_proc s)" and ?st = "pr_store (rn_proc s)"
  obtain st1 disk1 io1 r1 where f: "es_Flush E ?st ?d fio = (st1, disk1, io1, r1)" by (metis prod_cases4)
  have ss: "store_sound ?d ?st" and dd: "dd_sound (pl_dedupe (pr_p (rn_proc s))) (world_rows ?d ?st)" using assms(2) by (auto simp: proc_sound_def)
  note fl = es_Flush_sound [OF assms(1) ss f]
  have dd1: "dd_sound (pl_dedupe (pr_p (rn_proc s))) (world_rows disk1 st1)" using fl(2) by (intro dd_sound_mono [OF dd]) (simp add: rows_kept_def)
  let ?s1 = "s\<lparr>rn_proc := (rn_proc s)\<lparr>pr_store := st1, pr_disk := disk1\<rparr>\<rparr>"
  obtain cd1 rd1 io2 r2 where c: "Commit (rn_cd s) (rn_reader s) cio = (cd1, rd1, io2, r2)" by (metis prod_cases4)
  obtain cd2 io3 r3 where w: "writeOffsetFile (rn_cd s) (offset_path (rd_name (rn_reader s))) (rd_pos (rn_reader s)) cio = (cd2, io3, r3)" by (metis prod_cases3)
  have cc: "cd1 = cd2" "rd1 = rn_reader s \<or> rd1 = (rn_reader s)\<lparr>rd_committed := rd_pos (rn_reader s)\<rparr>"
    using c w by (cases r3; auto simp: Commit_def)+
  show ?thesis
  proof (cases r1)
    case (Some e)
    with assms(3) f have "s' = ?s1" by (simp add: commit_def)
    with fl dd1 show ?thesis by (simp add: committed_step_def proc_sound_def)
  next
    case None
    have "rn_proc s' = rn_proc ?s1" "rn_cd s' = cd1" "rn_reader s' = rd1"
      using assms(3) f c None by (cases r2; auto simp: commit_def)+
    with fl fl(3) [OF None] dd1 cc writeOffsetFile_cases(1) [OF w] show ?thesis
      by (auto simp: committed_step_def proc_sound_def rd_inv_def Let_def)
  qed
qed

section \<open>The invariant\<close>

definition payload_at :: "wal_log \<Rightarrow> entry list list \<Rightarrow> nat \<Rightarrow> byte list" where
  "payload_at l ess off = Payload (log_records l ess ! (off - OldestOffset l))"

definition stored_below :: "ingest_lib \<Rightarrow> Limits \<Rightarrow> wal_log \<Rightarrow> entry list list \<Rightarrow> nat \<Rightarrow> Event set \<Rightarrow> bool" where
  "stored_below lib lim l ess c rows \<longleftrightarrow> (\<forall>off. OldestOffset l \<le> off \<longrightarrow> off < c \<longrightarrow> record_stored lib lim rows (payload_at l ess off))"

lemma stored_below_mono: "stored_below lib lim l ess c R \<Longrightarrow> R \<subseteq> R' \<Longrightarrow> stored_below lib lim l ess c R'"
  unfolding stored_below_def using record_stored_mono by blast

definition offset_sound :: "ingest_lib \<Rightarrow> Limits \<Rightarrow> wal_log \<Rightarrow> entry list list \<Rightarrow> wal_dir \<Rightarrow> es_disk \<Rightarrow> bool" where
  "offset_sound lib lim l ess cd disk \<longleftrightarrow> (\<forall>b. map_of cd (offset_path ConsumerName) = Some b \<longrightarrow>
     (\<exists>c. b = offset_bytes c \<and> c \<le> LatestOffset l \<and> stored_below lib lim l ess c (set (disk_rows disk))))"

definition log_sound :: "wal_log \<Rightarrow> entry list list \<Rightarrow> wal_reader \<Rightarrow> bool" where
  "log_sound l ess r \<longleftrightarrow> log_inv l ess \<and> LatestOffset l < 2 ^ 64 \<and> rd_inv l ess r \<and> OldestOffset l \<le> rd_pos r \<and> rd_pos r \<le> LatestOffset l \<and>
     rd_name r = ConsumerName"

definition run_inv :: "ingest_lib \<Rightarrow> Limits \<Rightarrow> wal_log \<Rightarrow> entry list list \<Rightarrow> runner \<Rightarrow> bool" where
  "run_inv lib lim l ess s \<longleftrightarrow> log_sound l ess (rn_reader s) \<and> proc_sound (rn_proc s) \<and> pl_lim (pr_p (rn_proc s)) = lim \<and>
     stored_below lib lim l ess (rd_pos (rn_reader s)) (world_rows (pr_disk (rn_proc s)) (pr_store (rn_proc s))) \<and>
     offset_sound lib lim l ess (rn_cd s) (pr_disk (rn_proc s))"

lemma offset_sound_disk:
  "offset_sound lib lim l ess cd disk \<Longrightarrow> set (disk_rows disk) \<subseteq> set (disk_rows disk') \<Longrightarrow> offset_sound lib lim l ess cd disk'"
  unfolding offset_sound_def using stored_below_mono by blast

lemma committed_step_inv:
  assumes "run_inv lib lim l ess s" and "committed_step s s'"
  shows "run_inv lib lim l ess s'"
proof -
  let ?d = "pr_disk (rn_proc s)" and ?st = "pr_store (rn_proc s)" and ?d' = "pr_disk (rn_proc s')" and ?st' = "pr_store (rn_proc s')"
  have k: "rows_kept ?d ?st ?d' ?st'" "proc_sound (rn_proc s')" "pr_p (rn_proc s') = pr_p (rn_proc s)" "rd_pos (rn_reader s') = rd_pos (rn_reader s)"
    "rd_name (rn_reader s') = rd_name (rn_reader s)" "rd_inv l ess (rn_reader s) \<longrightarrow> rd_inv l ess (rn_reader s')"
    and f: "map_of (rn_cd s') (offset_path (rd_name (rn_reader s))) = map_of (rn_cd s) (offset_path (rd_name (rn_reader s))) \<or>
      map_of (rn_cd s') (offset_path (rd_name (rn_reader s))) = Some (offset_bytes (rd_pos (rn_reader s))) \<and> world_rows ?d ?st \<subseteq> set (disk_rows ?d')"
    using assms(2) by (auto simp: committed_step_def Let_def)
  from assms(1) have i: "log_sound l ess (rn_reader s)" "stored_below lib lim l ess (rd_pos (rn_reader s)) (world_rows ?d ?st)"
    "offset_sound lib lim l ess (rn_cd s) ?d" "pl_lim (pr_p (rn_proc s)) = lim" by (auto simp: run_inv_def)
  have w: "world_rows ?d ?st \<subseteq> world_rows ?d' ?st'" "set (disk_rows ?d) \<subseteq> set (disk_rows ?d')" using k(1) by (auto simp: rows_kept_def)
  have name: "rd_name (rn_reader s) = ConsumerName" and pos: "rd_pos (rn_reader s) \<le> LatestOffset l" using i(1) by (auto simp: log_sound_def)
  have "offset_sound lib lim l ess (rn_cd s') ?d'"
    using f
  proof (elim disjE conjE)
    assume "map_of (rn_cd s') (offset_path (rd_name (rn_reader s))) = map_of (rn_cd s) (offset_path (rd_name (rn_reader s)))"
    with offset_sound_disk [OF i(3) w(2)] show ?thesis by (simp add: offset_sound_def name)
  next
    assume "map_of (rn_cd s') (offset_path (rd_name (rn_reader s))) = Some (offset_bytes (rd_pos (rn_reader s)))" "world_rows ?d ?st \<subseteq> set (disk_rows ?d')"
    with stored_below_mono [OF i(2)] pos show ?thesis by (auto simp: offset_sound_def name)
  qed
  with i k w stored_below_mono [OF i(2) w(1)] show ?thesis by (simp add: run_inv_def log_sound_def)
qed

section \<open>Turns\<close>

text \<open>
  The turns the results below are about. A turn that reads a record processes it to the end, at clock values that are \<open>int64\<close>
  nanoseconds, and the segments its rows may go to have names that are free. The code does not see to either: it also commits past a
  record whose processing was cut short by the end of the context (\<open>process\<close> returns early and \<open>Run\<close> goes on, \<open>pipeline.go\<close>), and a segment overwrites
  one of the same name (\<open>writeSegment\<close>, \<open>store.go\<close>), which can happen once the counter of a restarted store has
  begun again. Where they fail events are lost; the last theorem here and the last of \<open>Eventstore_Flush\<close> are such runs.
\<close>

definition turn_process :: "es_env \<Rightarrow> ingest_lib \<Rightarrow> wal_log \<Rightarrow> turn_in \<Rightarrow> runner \<Rightarrow> wal_reader \<Rightarrow> wal_record \<Rightarrow> proc \<times> io \<times> bool" where
  "turn_process E lib l inp s1 r1 rec1 =
     process E lib (ti_clk inp) (ti_now inp) (Payload rec1) (rn_proc (set_lag (s1\<lparr>rn_reader := r1\<rparr>) (Lag l r1))) (ti_proc_io inp) (ti_ctx inp)"

definition turn_ready :: "es_env \<Rightarrow> ingest_lib \<Rightarrow> wal_log \<Rightarrow> turn_in \<Rightarrow> runner \<Rightarrow> bool" where
  "turn_ready E lib l inp s \<longleftrightarrow> ti_sel inp = SelDone \<or>
     (let s1 = tick_commit E inp s in
      case Next l (rn_reader s1) (ti_next_io inp) of
        (_, _, Inl _) \<Rightarrow> True
      | (r1, _, Inr rec1) \<Rightarrow> process_ready lib (ti_clk inp) (Payload rec1) (rn_proc s1) \<and> snd (snd (turn_process E lib l inp s1 r1 rec1)))"

lemma commit_inv: "env_ok E \<Longrightarrow> run_inv lib lim l ess s \<Longrightarrow> run_inv lib lim l ess (fst (commit E s fio cio))"
  using commit_sound [of E s fio cio] committed_step_inv [of lib lim l ess s] by (cases "commit E s fio cio") (auto simp: run_inv_def)

lemma tick_commit_inv: "env_ok E \<Longrightarrow> run_inv lib lim l ess s \<Longrightarrow> run_inv lib lim l ess (tick_commit E inp s)"
  by (simp add: tick_commit_def commit_inv)

text \<open>Whatever reading answers, the reader stays valid; a record is the one at the reader's position.\<close>

lemma Next_sound:
  assumes "log_sound l ess r" and "Next l r io = (r', io', res)"
  shows "log_sound l ess r' \<and> (case res of Inl _ \<Rightarrow> rd_pos r' = rd_pos r | Inr rec1 \<Rightarrow> Payload rec1 = payload_at l ess (rd_pos r) \<and> rd_pos r' = Suc (rd_pos r))"
proof (cases "rd_pos r < LatestOffset l")
  case True
  have "log_inv l ess" "rd_inv l ess r" "OldestOffset l \<le> rd_pos r" using assms(1) by (auto simp: log_sound_def)
  from Next_step [OF this True assms(2)] assms(1) True show ?thesis by (auto simp: log_sound_def payload_at_def)
next
  case False
  with assms show ?thesis by (auto simp: Next_def)
qed

lemma stored_below_Suc:
  "stored_below lib lim l ess c R \<Longrightarrow> record_stored lib lim R (payload_at l ess c) \<Longrightarrow> stored_below lib lim l ess (Suc c) R"
  unfolding stored_below_def by (metis less_SucE)

lemma proc_sound_lag: "proc_sound (p\<lparr>pr_p := (pr_p p)\<lparr>pl_lag := n\<rparr>\<rparr>) = proc_sound p" "process_ready lib clk pl (p\<lparr>pr_p := (pr_p p)\<lparr>pl_lag := n\<rparr>\<rparr>) = process_ready lib clk pl p"
  by (simp_all add: proc_sound_def process_ready_def)

lemma set_lag_inv: "run_inv lib lim l ess (set_lag s n) = run_inv lib lim l ess s"
  by (simp add: run_inv_def set_lag_def proc_sound_lag)

lemma run_turn_inv:
  assumes "env_ok E" and "lib_ok lib" and "run_inv lib lim l ess s" and "turn_ready E lib l inp s" and "run_turn E lib l inp s = (s', out)"
  shows "run_inv lib lim l ess s'"
proof (cases "ti_sel inp = SelDone")
  case True
  with assms(5) have "s' = fst (commit E s (ti_flush1 inp) (ti_commit1 inp))" by (auto simp: run_turn_def split: prod.splits)
  with commit_inv [OF assms(1,3)] show ?thesis by simp
next
  case False
  let ?s1 = "tick_commit E inp s"
  have i: "run_inv lib lim l ess ?s1" by (rule tick_commit_inv [OF assms(1,3)])
  obtain r1 io1 res where nx: "Next l (rn_reader ?s1) (ti_next_io inp) = (r1, io1, res)" by (metis prod_cases3)
  have "log_sound l ess (rn_reader ?s1)" using i by (simp add: run_inv_def)
  note ns = Next_sound [OF this nx]
  show ?thesis
  proof (cases res)
    case (Inl e)
    then have "run_inv lib lim l ess (?s1\<lparr>rn_reader := r1\<rparr>)" using i ns by (simp add: run_inv_def)
    with Inl False assms(1,5) nx commit_inv [OF assms(1)] set_lag_inv show ?thesis
      by (auto simp: run_turn_def Let_def split: if_splits prod.splits) (metis fst_conv)
  next
    case (Inr rec1)
    let ?s2 = "set_lag (?s1\<lparr>rn_reader := r1\<rparr>) (Lag l r1)"
    obtain pr io2 fin where p: "turn_process E lib l inp ?s1 r1 rec1 = (pr, io2, fin)" by (metis prod_cases3)
    let ?s3 = "?s2\<lparr>rn_proc := pr, rn_uncommitted := rn_uncommitted ?s2 + 1\<rparr>"
    from False Inr assms(5) nx p have s': "s' = (if CommitEvery (pl_opts (pr_p pr)) \<le> int (rn_uncommitted ?s3)
        then fst (commit E ?s3 (ti_flush2 inp) (ti_commit2 inp)) else ?s3)"
      by (auto simp: run_turn_def turn_process_def Let_def split: if_splits)
    from False Inr assms(4) nx p have rdy: "process_ready lib (ti_clk inp) (Payload rec1) (rn_proc ?s1)" "fin" by (auto simp: turn_ready_def Let_def)
    have ps: "proc_sound (rn_proc ?s1)" and lm: "pl_lim (pr_p (rn_proc ?s1)) = lim" using i by (simp_all add: run_inv_def)
    let ?d1 = "pr_disk (rn_proc ?s1)" and ?st1 = "pr_store (rn_proc ?s1)"
    have "process E lib (ti_clk inp) (ti_now inp) (Payload rec1) (rn_proc ?s2) (ti_proc_io inp) (ti_ctx inp) = (pr, io2, fin)"
      using p by (simp add: turn_process_def)
    from process_sound [OF assms(1,2) _ _ this] ps rdy lm have pr: "rows_kept ?d1 ?st1 (pr_disk pr) (pr_store pr)" "pl_lim (pr_p pr) = lim" "proc_sound pr"
      "record_stored lib lim (world_rows (pr_disk pr) (pr_store pr)) (Payload rec1)"
      by (simp_all add: set_lag_def proc_sound_lag)
    have w: "world_rows ?d1 ?st1 \<subseteq> world_rows (pr_disk pr) (pr_store pr)" "set (disk_rows ?d1) \<subseteq> set (disk_rows (pr_disk pr))"
      using pr(1) by (auto simp: rows_kept_def)
    from i have "stored_below lib lim l ess (rd_pos (rn_reader ?s1)) (world_rows ?d1 ?st1)" "offset_sound lib lim l ess (rn_cd ?s1) ?d1"
      by (simp_all add: run_inv_def)
    note b = stored_below_mono [OF this(1) w(1)] offset_sound_disk [OF this(2) w(2)]
    have "stored_below lib lim l ess (rd_pos r1) (world_rows (pr_disk pr) (pr_store pr))"
      using stored_below_Suc [OF b(1)] pr(4) ns Inr by simp
    with b(2) ns pr have "run_inv lib lim l ess ?s3" by (simp add: run_inv_def set_lag_def)
    with s' commit_inv [OF assms(1)] show ?thesis by simp
  qed
qed

section \<open>Lives\<close>

text \<open>
  What a crash leaves in the store's directory: the files before, or those some flush in the middle of a record has added; \<open>C\<close>
  says which records may be in hand.
\<close>

definition left_behind :: "es_env \<Rightarrow> ingest_lib \<Rightarrow> ((nat \<Rightarrow> int) \<Rightarrow> byte list \<Rightarrow> proc \<Rightarrow> bool) \<Rightarrow> runner \<Rightarrow> es_disk \<Rightarrow> bool" where
  "left_behind E lib C s disk \<longleftrightarrow> disk = pr_disk (rn_proc s) \<or>
     (\<exists>clk payload now io cs. C clk payload (rn_proc s) \<and> disk = pr_disk (fst (process E lib clk now payload (rn_proc s) io cs)))"

definition fresh_run :: "bool \<Rightarrow> PipelineOptions \<Rightarrow> Limits \<Rightarrow> Store \<Rightarrow> es_disk \<Rightarrow> wal_reader \<Rightarrow> wal_dir \<Rightarrow> runner" where
  "fresh_run issues opts lim st disk r cd =
     \<lparr>rn_proc = \<lparr>pr_p = NewPipeline issues opts lim, pr_store = st, pr_disk = disk, pr_hits = []\<rparr>, rn_reader = r, rn_cd = cd, rn_uncommitted = 0\<rparr>"

text \<open>
  A life whose turns satisfy \<open>T\<close> and whose crashes in the middle of a record satisfy \<open>C\<close>: with both always true
  these are all the lives of the code, and a theorem names the conditions it needs. The log may grow at any time. A restart may find a log that lost records (those a power cut took), but none that the offset
  file says is consumed.
\<close>

inductive pipeline_life :: "es_env \<Rightarrow> ingest_lib \<Rightarrow> Limits \<Rightarrow> (wal_log \<Rightarrow> turn_in \<Rightarrow> runner \<Rightarrow> bool) \<Rightarrow>
    ((nat \<Rightarrow> int) \<Rightarrow> byte list \<Rightarrow> proc \<Rightarrow> bool) \<Rightarrow> wal_log \<Rightarrow> entry list list \<Rightarrow> runner \<Rightarrow> bool"
  for E lib lim T C where
  first: "log_inv l ess \<Longrightarrow> LatestOffset l < 2 ^ 64 \<Longrightarrow> es_Open o1 [] = Inr st \<Longrightarrow> NewReader l [] ConsumerName io = (io', Inr r) \<Longrightarrow>
    pipeline_life E lib lim T C l ess (fresh_run issues opts lim st [] r [])"
| turn: "pipeline_life E lib lim T C l ess s \<Longrightarrow> T l inp s \<Longrightarrow> run_turn E lib l inp s = (s', out) \<Longrightarrow> pipeline_life E lib lim T C l ess s'"
| grow: "pipeline_life E lib lim T C l ess s \<Longrightarrow> log_inv l' ess' \<Longrightarrow> LatestOffset l' < 2 ^ 64 \<Longrightarrow> OldestOffset l' = OldestOffset l \<Longrightarrow>
    prefix (log_records l ess) (log_records l' ess') \<Longrightarrow> rd_inv l' ess' (rn_reader s) \<Longrightarrow> pipeline_life E lib lim T C l' ess' s"
| restart: "pipeline_life E lib lim T C l ess s \<Longrightarrow> left_behind E lib C s disk \<Longrightarrow> log_inv l' ess' \<Longrightarrow> LatestOffset l' < 2 ^ 64 \<Longrightarrow>
    OldestOffset l' = OldestOffset l \<Longrightarrow>
    (\<And>c. ConsumerOffset (rn_cd s) ConsumerName [] = ([], Inr (Some c)) \<Longrightarrow>
       c \<le> LatestOffset l' \<and> take (c - OldestOffset l) (log_records l' ess') = take (c - OldestOffset l) (log_records l ess)) \<Longrightarrow>
    es_Open o1 disk = Inr st \<Longrightarrow> NewReader l' (rn_cd s) ConsumerName io = (io', Inr r) \<Longrightarrow>
    pipeline_life E lib lim T C l' ess' (fresh_run issues opts lim st disk r (rn_cd s))"

lemma fresh_run_inv:
  assumes "log_inv l ess" and "LatestOffset l < 2 ^ 64" and "disk_valid disk" and "es_Open o1 disk = Inr st"
    and "NewReader l cd ConsumerName io = (io', Inr r)" and "offset_sound lib (lim_defaults lim) l ess cd disk"
  shows "run_inv lib (lim_defaults lim) l ess (fresh_run issues opts lim st disk r cd)"
proof -
  have st: "buf st = []" using es_Open_rows [OF assms(3), of o1] assms(4) by auto
  have old: "OldestOffset l \<le> LatestOffset l" using log_inv_next [OF assms(1)] by (simp add: LatestOffset_def)
  have ps: "proc_sound (rn_proc (fresh_run issues opts lim st disk r cd))"
    using assms(3) st by (simp add: fresh_run_def proc_sound_def store_sound_def dd_sound_def NewPipeline_def newDedupe_def)
  let ?disk = "set (disk_rows disk)"
  have r: "rd_name r = ConsumerName \<and> \<not> rd_open r \<and> (rd_pos r = OldestOffset l \<or>
      (\<exists>c. c \<le> LatestOffset l \<and> stored_below lib (lim_defaults lim) l ess c ?disk \<and> rd_pos r = max c (OldestOffset l)))"
  proof (cases "map_of cd (offset_path ConsumerName)")
    case None
    with assms(5) show ?thesis by (auto simp: NewReader_def readOffsetFile_def ConsumerName_def Let_def split: prod.splits io_res.splits if_splits)
  next
    case (Some b)
    with assms(6) obtain c where c: "b = offset_bytes c" "c \<le> LatestOffset l" "stored_below lib (lim_defaults lim) l ess c ?disk" by (auto simp: offset_sound_def)
    have "readOffsetFile cd (offset_path ConsumerName) [] = ([], Inr c)" using readOffsetFile_bytes [of c cd] c Some assms(2) by simp
    then have "readOffsetFile cd (offset_path ConsumerName) io = (snd (io_next io), Inr c) \<or> readOffsetFile cd (offset_path ConsumerName) io = (snd (io_next io), Inl ErrIO)" for io
      by (cases io) (auto simp: readOffsetFile_def Some Let_def split: io_res.splits if_splits)
    then have ro: "snd (readOffsetFile cd (offset_path ConsumerName) io) \<in> {Inr c, Inl ErrIO}" for io by (metis insertCI snd_conv)
    obtain s io1 where n: "io_next io = (s, io1)" by fastforce
    obtain io2 res where o: "readOffsetFile cd (offset_path ConsumerName) io1 = (io2, res)" by fastforce
    with ro [of io1] have "res = Inr c \<or> res = Inl ErrIO" by simp
    with assms(5) n o have "rd_name r = ConsumerName" "\<not> rd_open r" "rd_pos r = max c (OldestOffset l)"
      by (auto simp: NewReader_def ConsumerName_def Let_def split: io_res.splits)
    with c show ?thesis by blast
  qed
  then have "log_sound l ess r" using assms(1,2) old by (auto simp: log_sound_def rd_inv_def)
  moreover have "stored_below lib (lim_defaults lim) l ess (rd_pos r) (world_rows disk st)"
  proof -
    have "stored_below lib (lim_defaults lim) l ess (rd_pos r) ?disk" using r by (auto simp: stored_below_def)
    then show ?thesis by (rule stored_below_mono) (simp add: world_rows_def)
  qed
  ultimately show ?thesis using assms(6) ps by (simp add: run_inv_def fresh_run_def NewPipeline_def)
qed

lemma payload_at_prefix:
  assumes "log_inv l ess" and "OldestOffset l' = OldestOffset l" and "take (c - OldestOffset l) (log_records l' ess') = take (c - OldestOffset l) (log_records l ess)"
    and "OldestOffset l \<le> off" and "off < c" 
  shows "payload_at l' ess' off = payload_at l ess off"
  using arg_cong [OF assms(3), of "\<lambda>rs. rs ! (off - OldestOffset l)"] assms(2,4,5) by (simp add: payload_at_def)

lemma stored_below_log:
  assumes "log_inv l ess" and "OldestOffset l' = OldestOffset l" and "take (c - OldestOffset l) (log_records l' ess') = take (c - OldestOffset l) (log_records l ess)"
    and "stored_below lib lim l ess c R"
  shows "stored_below lib lim l' ess' c R"
  using assms(4) payload_at_prefix [OF assms(1-3)] by (simp add: stored_below_def assms(2))

lemma left_behind_sound:
  assumes "env_ok E" and "lib_ok lib" and "proc_sound (rn_proc s)" and "left_behind E lib (process_ready lib) s disk"
  shows "disk_valid disk" and "set (disk_rows (pr_disk (rn_proc s))) \<subseteq> set (disk_rows disk)"
proof -
  have "disk_valid disk \<and> set (disk_rows (pr_disk (rn_proc s))) \<subseteq> set (disk_rows disk)"
    using assms(4) unfolding left_behind_def
  proof (elim disjE exE conjE)
    assume "disk = pr_disk (rn_proc s)"
    with assms(3) show ?thesis by (simp add: proc_sound_def store_sound_def)
  next
    fix clk payload now io cs
    assume r: "process_ready lib clk payload (rn_proc s)" and d: "disk = pr_disk (fst (process E lib clk now payload (rn_proc s) io cs))"
    obtain pr io2 fin where p: "process E lib clk now payload (rn_proc s) io cs = (pr, io2, fin)" by (metis prod_cases3)
    from process_sound [OF assms(1-3) r p] d p show ?thesis by (auto simp: store_sound_def rows_kept_def)
  qed
  then show "disk_valid disk" "set (disk_rows (pr_disk (rn_proc s))) \<subseteq> set (disk_rows disk)" by auto
qed

lemma offset_sound_ConsumerOffset:
  assumes "offset_sound lib lim l ess cd disk" and "LatestOffset l < 2 ^ 64"
  shows "map_of cd (offset_path ConsumerName) = Some b \<Longrightarrow>
      \<exists>c. ConsumerOffset cd ConsumerName [] = ([], Inr (Some c)) \<and> b = offset_bytes c \<and> stored_below lib lim l ess c (set (disk_rows disk))"
    and "ConsumerOffset cd ConsumerName [] = ([], Inr (Some c)) \<Longrightarrow> stored_below lib lim l ess c (set (disk_rows disk))"
proof -
  show *: "\<exists>c. ConsumerOffset cd ConsumerName [] = ([], Inr (Some c)) \<and> b = offset_bytes c \<and> stored_below lib lim l ess c (set (disk_rows disk))"
    if "map_of cd (offset_path ConsumerName) = Some b" for b
  proof -
    from assms(1) that obtain c where c: "b = offset_bytes c" "c \<le> LatestOffset l" "stored_below lib lim l ess c (set (disk_rows disk))"
      by (auto simp: offset_sound_def)
    with readOffsetFile_bytes [of c cd "offset_path ConsumerName"] that assms(2) show ?thesis by (auto simp: ConsumerOffset_def)
  qed
  assume co: "ConsumerOffset cd ConsumerName [] = ([], Inr (Some c))"
  then have "map_of cd (offset_path ConsumerName) \<noteq> None"
    by (cases "map_of cd (offset_path ConsumerName)") (auto simp: ConsumerOffset_def readOffsetFile_def)
  with * co show "stored_below lib lim l ess c (set (disk_rows disk))" by fastforce
qed

lemma pipeline_life_inv:
  assumes "env_ok E" and "lib_ok lib"
  shows "pipeline_life E lib lim (turn_ready E lib) (process_ready lib) l ess s \<Longrightarrow> run_inv lib (lim_defaults lim) l ess s"
proof (induction rule: pipeline_life.induct)
  case (first l ess o1 st io io' r issues opts)
  show ?case by (rule fresh_run_inv [OF first(1,2) _ first(3,4)]) (simp_all add: disk_valid_def offset_sound_def)
next
  case (turn l ess s inp s' out)
  then show ?case using run_turn_inv [OF assms] by blast
next
  case (grow l ess s l' ess')
  let ?c = "rd_pos (rn_reader s)"
  have i: "log_inv l ess" "rd_pos (rn_reader s) \<le> LatestOffset l" using grow.IH by (auto simp: run_inv_def log_sound_def)
  have len: "length (log_records l ess) = LatestOffset l - OldestOffset l" by (rule length_log_records [OF i(1)])
  have tk: "take (c - OldestOffset l) (log_records l' ess') = take (c - OldestOffset l) (log_records l ess)" if "c \<le> LatestOffset l" for c
    using grow(5) that len by (auto simp: prefix_def)
  have "LatestOffset l \<le> LatestOffset l'"
    using prefix_length_le [OF grow(5)] length_log_records [OF grow(2)] len grow(4) log_inv_next [OF i(1)] log_inv_next [OF grow(2)] by (simp add: LatestOffset_def)
  with grow.IH grow(2-4,6) stored_below_log [OF i(1) grow(4) tk] i(2) show ?case
    unfolding run_inv_def log_sound_def offset_sound_def by (metis order_trans)
next
  case (restart l ess s disk l' ess' o1 st io io' r issues opts)
  have i: "log_inv l ess" "LatestOffset l < 2 ^ 64" "proc_sound (rn_proc s)" "offset_sound lib (lim_defaults lim) l ess (rn_cd s) (pr_disk (rn_proc s))"
    using restart.IH by (auto simp: run_inv_def log_sound_def)
  note d = left_behind_sound [OF assms i(3) restart(2)]
  have "offset_sound lib (lim_defaults lim) l' ess' (rn_cd s) disk"
    unfolding offset_sound_def
  proof (intro allI impI)
    fix b
    assume "map_of (rn_cd s) (offset_path ConsumerName) = Some b"
    from offset_sound_ConsumerOffset(1) [OF i(4,2) this] obtain c where c: "ConsumerOffset (rn_cd s) ConsumerName [] = ([], Inr (Some c))"
      "b = offset_bytes c" "stored_below lib (lim_defaults lim) l ess c (set (disk_rows (pr_disk (rn_proc s))))" by blast
    from restart(6) [OF c(1)] stored_below_log [OF i(1) restart(5) _ stored_below_mono [OF c(3) d(2)]] c(2)
    show "\<exists>c. b = offset_bytes c \<and> c \<le> LatestOffset l' \<and> stored_below lib (lim_defaults lim) l' ess' c (set (disk_rows disk))" by blast
  qed
  then show ?case by (rule fresh_run_inv [OF restart(3,4) d(1) restart(7,8)])
qed

section \<open>Properties\<close>


subsection \<open>A small life\<close>

definition sample_lib :: ingest_lib where
  "sample_lib = \<lparr>lib_ToLower = to_lower, lib_ParseTime = \<lambda>_. None, lib_FloatNanos = \<lambda>_. None\<rparr>"

definition sample_body :: "byte list" where
  "sample_body = str_bytes (print_json (JObj [(''event_id'', JStr ''e1'')]))"

definition sample_payload :: "byte list" where
  "sample_payload = submit_record recEventJSON 3 sample_body"

lemma sample_extract: "\<exists>ev. ExtractEvent sample_lib sample_body now = Some ev \<and> ex_EventID ev = ''e1'' \<and> ex_Timestamp ev = now"
proof -
  have "to_lower ''e1'' = ''e1''" by code_simp
  then show ?thesis
    unfolding sample_body_def using ExtractEvent_minimal [of "''e1''" sample_lib now] by (simp add: ascii_def sample_lib_def del: print_json.simps)
qed

lemma sample_pending:
  obtains ev where "pending_events sample_lib lim clk sample_payload = ([(ev, sample_body)], 0)" and "ex_EventID ev = ''e1''" and "ex_Timestamp ev = clk 0"
proof -
  obtain ev where ev: "ExtractEvent sample_lib sample_body (clk 0) = Some ev" "ex_EventID ev = ''e1''" "ex_Timestamp ev = clk 0" using sample_extract by blast
  have "pending_events sample_lib lim clk sample_payload = ([(ev, sample_body)], 0)"
    unfolding sample_payload_def pending_events_def Let_def submit_record_parts by (simp add: ev recEventJSON_def recEnvelope_def)
  with ev that show thesis by blast
qed

lemma sample_project: "rec_project sample_payload = 3"
  unfolding sample_payload_def by (rule submit_record_parts(4)) simp_all

lemma sample_ids: "event_ids sample_lib lim sample_payload = [(''e1'', sample_body)]"
  by (rule sample_pending [of lim "\<lambda>_. 0"]) (simp add: event_ids_def)

text \<open>The sample log with the record.\<close>

lemma sample_record_log:
  obtains ess0 l ess where "log_inv sample_log ess0" and "concat ess0 = []" and "log_inv l ess" and "concat ess = [(5, 2, sample_payload)]"
    and "OldestOffset l = 0" and "LatestOffset l = 1" and "wal_run sample_opts l {(0, (5, 2, sample_payload))}"
proof -
  obtain ess0 where d: "durable sample_log ess0 (length (concat ess0))" using sample_durable by blast
  have inv0: "log_inv sample_log ess0" using d by (simp add: durable_def)
  have c0: "concat ess0 = []" using log_inv_next [OF inv0] by (simp add: sample_log_eq OldestOffset_def)
  have "length sample_body < 900" unfolding sample_body_def by code_simp
  then have "length sample_payload < 1000" unfolding sample_payload_def submit_record_parts by simp
  then have f: "list_all (entry_fits (mxr sample_log)) (stamp 5 [(2, sample_payload)])" "next_off sample_log + length [(2 :: byte, sample_payload)] \<le> 2 ^ 64"
    by (simp_all add: sample_log_eq entry_fits_def seg_consts)
  obtain l offs where w: "writeBatch sample_log [] 5 0 0 [(2, sample_payload)] = (l, [], Inr offs)" using writeBatch_clean [OF d le_refl f] by blast
  from writeBatch_outcome [OF d le_refl f w] obtain ess where e: "log_inv l ess" "concat ess = [(5, 2, sample_payload)]" "OldestOffset l = 0" "offs = [0]"
    by (auto simp: durable_def OldestOffset_def sample_log_eq c0)
  moreover from this have "LatestOffset l = 1" using log_inv_next [of l ess] by (simp add: LatestOffset_def)
  moreover have "wal_run sample_opts l {(0, (5, 2, sample_payload))}" using wal_run.batch [OF sample_run f w] e(4) by simp
  ultimately show thesis using that inv0 c0 by blast
qed

definition quiet_turn :: "sel \<Rightarrow> turn_in" where
  "quiet_turn x = \<lparr>ti_sel = x, ti_idle_done = False, ti_now = 9, ti_clk = (\<lambda>_. 9), ti_next_io = [], ti_proc_io = [], ti_ctx = [], ti_flush1 = [], ti_commit1 = [],
     ti_flush2 = [], ti_commit2 = []\<rparr>"

lemma sample_reader_eq: "OldestOffset l = 0 \<Longrightarrow> NewReader l [] ConsumerName [] = ([], Inr sample_reader)"
  by (simp add: NewReader_def ConsumerName_def readOffsetFile_def sample_reader_def Let_def)

lemma sample_next:
  assumes "log_inv l ess" and "concat ess = [(5, 2, sample_payload)]" and "OldestOffset l = 0" and "LatestOffset l = 1"
  obtains r1 rec1 where "Next l sample_reader [] = (r1, [], Inr rec1)" and "Payload rec1 = sample_payload" and "rd_pos r1 = 1" and "rd_name r1 = ''pipeline''"
proof -
  obtain r1 io1 res where nx: "Next l sample_reader [] = (r1, io1, res)" by (metis prod_cases3)
  have "rd_inv l ess sample_reader" by (simp add: rd_inv_def sample_reader_def)
  from Next_step [OF assms(1) this _ _ nx] assms
  have "res = Inr (entry_record 0 (5, 2, sample_payload))" "io1 = []" "rd_pos r1 = 1" "rd_name r1 = ''pipeline''"
    by (auto simp: sample_reader_def log_records_def)
  with nx that show thesis by (simp add: entry_record_def)
qed

text \<open>The first turn buffers the row, the second, when the context is done, flushes and commits.\<close>

definition sample_start :: runner where
  "sample_start = fresh_run False \<lparr>MaxLag = 0, AppendTimeout = 0, DedupeCap = 0, CommitEvery = 0\<rparr> sample_lim (sample_store\<lparr>buf := []\<rparr>) [] sample_reader []"

lemma sample_open: "es_Open \<lparr>FlushRows = 0, MaxBufferRows = 0, FlushAge = 0, QueryLimitDefault = 0\<rparr> [] = Inr (sample_store\<lparr>buf := []\<rparr>)"
  by (simp add: es_Open_def sample_store_def)

lemma sample_turn:
  assumes "Next l sample_reader [] = (r1, [], Inr rec1)" and "Payload rec1 = sample_payload"
  obtains s1 ev where "run_turn std_env sample_lib l (quiet_turn SelNone) sample_start = (s1, Continue)"
    and "turn_ready std_env sample_lib l (quiet_turn SelNone) sample_start"
    and "rn_reader s1 = r1" and "buf (pr_store (rn_proc s1)) = [toStoreEvent 3 ev sample_body]" and "pr_disk (rn_proc s1) = []" and "rn_cd s1 = []"
proof -
  let ?inp = "quiet_turn SelNone"
  have tick: "tick_commit std_env ?inp sample_start = sample_start" by (simp add: tick_commit_def quiet_turn_def)
  let ?s2 = "set_lag (sample_start\<lparr>rn_reader := r1\<rparr>) (Lag l r1)"
  obtain ev where ev: "pending_events sample_lib (lim_defaults sample_lim) (\<lambda>_. 9) sample_payload = ([(ev, sample_body)], 0)" "ex_EventID ev = ''e1''"
    by (rule sample_pending)
  obtain pr where p: "process std_env sample_lib (\<lambda>_. 9) 9 sample_payload (rn_proc ?s2) [] [] = (pr, [], True)"
    and b: "buf (pr_store pr) = [toStoreEvent 3 ev sample_body]" "pr_disk pr = []" "CommitEvery (pl_opts (pr_p pr)) = 512"
    using ev by (simp add: process_def set_lag_def sample_start_def fresh_run_def NewPipeline_def pl_defaults_def newDedupe_def firstSeen_def
        append_retry.simps append_events_def sample_store_def es_defaults_def sample_project Let_def)
  let ?s3 = "?s2\<lparr>rn_proc := pr, rn_uncommitted := rn_uncommitted ?s2 + 1\<rparr>"
  have sel: "rn_reader sample_start = sample_reader" "rn_uncommitted sample_start = 0" "rn_cd sample_start = []" by (simp_all add: sample_start_def fresh_run_def)
  have "run_turn std_env sample_lib l ?inp sample_start = (?s3, Continue)"
    using assms p b(3) by (simp add: run_turn_def tick Let_def sel) (simp add: quiet_turn_def set_lag_def sel)
  moreover have "turn_ready std_env sample_lib l ?inp sample_start"
    using assms p by (simp add: turn_ready_def tick Let_def sel turn_process_def)
      (simp add: quiet_turn_def process_ready_def int64_def name_free_def sample_start_def fresh_run_def)
  ultimately show thesis by (rule that) (use b sel in \<open>simp_all add: set_lag_def\<close>)
qed

lemma one_row_commit:
  assumes "buf (pr_store (rn_proc s)) = [e]" and "run_turn std_env lib l (quiet_turn SelDone) s = (s', out)" and "rd_pos (rn_reader s) < 2 ^ 64"
    and "rd_name (rn_reader s) = ConsumerName"
  shows "ConsumerOffset (rn_cd s') ConsumerName [] = ([], Inr (Some (rd_pos (rn_reader s))))"
    and "pr_disk (rn_proc s') = map_put (SegPath (fst (part_key e)) (snd (part_key e)) (ev_Timestamp e) (Suc (flushCount (pr_store (rn_proc s))))) (segment_file std_env [e]) (pr_disk (rn_proc s))"
proof -
  obtain cd1 rd1 where c: "Commit (rn_cd s) (rn_reader s) [] = (cd1, rd1, [], Inr ())" by (simp add: Commit_def writeOffsetFile_def Let_def)
  then obtain w: "writeOffsetFile (rn_cd s) (offset_path ConsumerName) (rd_pos (rn_reader s)) [] = (cd1, [], Inr ())"
    using assms(4) by (auto simp: Commit_def split: prod.splits sum.splits)
  from writeOffsetFile_cases(1) [OF w] have "map_of cd1 (offset_path ConsumerName) = Some (offset_bytes (rd_pos (rn_reader s)))" by simp
  from readOffsetFile_bytes [OF assms(3) this] have "ConsumerOffset cd1 ConsumerName [] = ([], Inr (Some (rd_pos (rn_reader s))))" by (simp add: ConsumerOffset_def)
  with assms(2) c one_row_flush [OF assms(1), of "pr_disk (rn_proc s)"]
  show "ConsumerOffset (rn_cd s') ConsumerName [] = ([], Inr (Some (rd_pos (rn_reader s))))"
    "pr_disk (rn_proc s') = map_put (SegPath (fst (part_key e)) (snd (part_key e)) (ev_Timestamp e) (Suc (flushCount (pr_store (rn_proc s))))) (segment_file std_env [e]) (pr_disk (rn_proc s))"
    by (auto simp: run_turn_def quiet_turn_def commit_def Let_def)
qed

lemma sample_lib_ok: "lib_ok sample_lib"
  by (simp add: lib_ok_def sample_lib_def)

text \<open>A life in which the one record of a log is stored and committed.\<close>

lemma sample_life:
  obtains l ess s where "wal_run sample_opts l {(0, (5, 2, sample_payload))}" and "pipeline_life std_env sample_lib sample_lim (turn_ready std_env sample_lib) (process_ready sample_lib) l ess s" and "OldestOffset l = 0"
    and "ConsumerOffset (rn_cd s) ConsumerName [] = ([], Inr (Some 1))" and "Payload (log_records l ess ! 0) = sample_payload"
    and "length (disk_rows (pr_disk (rn_proc s))) \<le> 1"
proof -
  obtain ess0 l ess where l: "log_inv sample_log ess0" "concat ess0 = []" "log_inv l ess" "concat ess = [(5, 2, sample_payload)]" "OldestOffset l = 0" "LatestOffset l = 1"
    "wal_run sample_opts l {(0, (5, 2, sample_payload))}" by (rule sample_record_log)
  have old: "OldestOffset sample_log = 0" "LatestOffset sample_log = 0" by (simp_all add: sample_log_eq OldestOffset_def LatestOffset_def)
  have none: "log_records sample_log ess0 = []" unfolding log_records_def l(2) by simp
  have rd: "rn_reader sample_start = sample_reader" by (simp add: sample_start_def fresh_run_def)
  have "pipeline_life std_env sample_lib sample_lim (turn_ready std_env sample_lib) (process_ready sample_lib) sample_log ess0 sample_start"
    unfolding sample_start_def by (rule pipeline_life.first [OF l(1) _ sample_open sample_reader_eq]) (simp_all add: old)
  then have life: "pipeline_life std_env sample_lib sample_lim (turn_ready std_env sample_lib) (process_ready sample_lib) l ess sample_start"
    by (rule pipeline_life.grow [OF _ l(3)]) (use l(3-6) old rd none in \<open>simp_all add: log_records_def rd_inv_def sample_reader_def\<close>)
  obtain r1 rec1 where r1: "Next l sample_reader [] = (r1, [], Inr rec1)" "Payload rec1 = sample_payload" "rd_pos r1 = 1" "rd_name r1 = ''pipeline''"
    by (rule sample_next [OF l(3-6)])
  obtain s1 ev where s1: "run_turn std_env sample_lib l (quiet_turn SelNone) sample_start = (s1, Continue)" "turn_ready std_env sample_lib l (quiet_turn SelNone) sample_start"
    "rn_reader s1 = r1" "buf (pr_store (rn_proc s1)) = [toStoreEvent 3 ev sample_body]" "pr_disk (rn_proc s1) = []" by (rule sample_turn [OF r1(1,2)])
  obtain s2 out where s2: "run_turn std_env sample_lib l (quiet_turn SelDone) s1 = (s2, out)" by fastforce
  have "pipeline_life std_env sample_lib sample_lim (turn_ready std_env sample_lib) (process_ready sample_lib) l ess s2"
    by (rule pipeline_life.turn [OF pipeline_life.turn [OF life s1(2,1)] _ s2]) (simp add: turn_ready_def quiet_turn_def)
  moreover have "ConsumerOffset (rn_cd s2) ConsumerName [] = ([], Inr (Some 1))"
    using one_row_commit(1) [OF s1(4) s2] s1(3) r1(3,4) by (simp add: ConsumerName_def)
  moreover have "length (disk_rows (pr_disk (rn_proc s2))) \<le> 1"
    using one_row_commit(2) [OF s1(4) s2] s1(3,5) r1(3,4) by (simp add: ConsumerName_def disk_rows_def segment_file_def std_env_def file_rows_def)
  moreover have "Payload (log_records l ess ! 0) = sample_payload" by (simp add: log_records_def l entry_record_def)
  ultimately show thesis using that l(5,7) by blast
qed


section \<open>Where an event is lost\<close>

definition full_start :: runner where
  "full_start = fresh_run False \<lparr>MaxLag = 0, AppendTimeout = 0, DedupeCap = 0, CommitEvery = 0\<rparr> sample_lim
     (sample_store\<lparr>s_opts := es_defaults \<lparr>FlushRows = 1, MaxBufferRows = 1, FlushAge = 0, QueryLimitDefault = 0\<rparr>, buf := [sample_event 7 5 ''u'']\<rparr>) [] sample_reader []"

text \<open>C38. The condition that a record is processed to the end is needed: when the context ends while a full buffer cannot be flushed, the
  event in hand is given up, but the loop then commits past its record. The record was acknowledged and is in the log, and the
  consumer will not read it again.\<close>

theorem cut_short_record_is_lost:
  "\<exists>l ess s1 s2 out. log_inv l ess \<and> Payload (log_records l ess ! 0) = sample_payload \<and> event_ids sample_lib (lim_defaults sample_lim) sample_payload = [(''e1'', sample_body)] \<and>
     run_turn std_env sample_lib l ((quiet_turn SelNone)\<lparr>ti_proc_io := [Fail 0], ti_ctx := [True]\<rparr>) full_start = (s1, Continue) \<and>
     run_turn std_env sample_lib l (quiet_turn SelDone) s1 = (s2, out) \<and>
     ConsumerOffset (rn_cd s2) ConsumerName [] = ([], Inr (Some 1)) \<and>
     \<not> stored (world_rows (pr_disk (rn_proc s2)) (pr_store (rn_proc s2))) 3 ''e1'' sample_body"
proof -
  obtain ess0 l ess where l: "log_inv sample_log ess0" "concat ess0 = []" "log_inv l ess" "concat ess = [(5, 2, sample_payload)]" "OldestOffset l = 0" "LatestOffset l = 1"
    by (rule sample_record_log)
  obtain r1 rec1 where r1: "Next l sample_reader [] = (r1, [], Inr rec1)" "Payload rec1 = sample_payload" "rd_pos r1 = 1" "rd_name r1 = ''pipeline''"
    by (rule sample_next [OF l(3-6)])
  let ?inp = "(quiet_turn SelNone)\<lparr>ti_proc_io := [Fail 0], ti_ctx := [True]\<rparr>"
  have tick: "tick_commit std_env ?inp full_start = full_start" by (simp add: tick_commit_def quiet_turn_def)
  let ?s2 = "set_lag (full_start\<lparr>rn_reader := r1\<rparr>) (Lag l r1)"
  obtain ev where ev: "pending_events sample_lib (lim_defaults sample_lim) (\<lambda>_. 9) sample_payload = ([(ev, sample_body)], 0)" "ex_EventID ev = ''e1''"
    by (rule sample_pending)
  obtain pr where p: "process std_env sample_lib (\<lambda>_. 9) 9 sample_payload (rn_proc ?s2) [Fail 0] [True] = (pr, [], False)"
    and b: "buf (pr_store pr) = [sample_event 7 5 ''u'']" "pr_disk pr = []" "CommitEvery (pl_opts (pr_p pr)) = 512"
    using ev by (simp add: process_def set_lag_def full_start_def fresh_run_def NewPipeline_def pl_defaults_def newDedupe_def firstSeen_def
        append_retry.simps append_events_def sample_store_def es_defaults_def sample_project Let_def es_Flush_def group_rows_def std_env_def writeSegment_def)
  let ?s3 = "?s2\<lparr>rn_proc := pr, rn_uncommitted := rn_uncommitted ?s2 + 1\<rparr>"
  have sel: "rn_reader full_start = sample_reader" "rn_uncommitted full_start = 0" "rn_cd full_start = []" by (simp_all add: full_start_def fresh_run_def)
  have t1: "run_turn std_env sample_lib l ?inp full_start = (?s3, Continue)"
    using r1 p b(3) by (simp add: run_turn_def tick Let_def sel) (simp add: quiet_turn_def set_lag_def sel)
  obtain s2 out where t2: "run_turn std_env sample_lib l (quiet_turn SelDone) ?s3 = (s2, out)" by fastforce
  have buf3: "buf (pr_store (rn_proc ?s3)) = [sample_event 7 5 ''u'']" and rd3: "rn_reader ?s3 = r1" using b by (simp_all add: set_lag_def)
  have c: "ConsumerOffset (rn_cd s2) ConsumerName [] = ([], Inr (Some 1))"
    using one_row_commit(1) [OF buf3 t2] r1(3,4) rd3 by (simp add: ConsumerName_def)
  have d: "disk_rows (pr_disk (rn_proc s2)) = [sample_event 7 5 ''u'']"
    using one_row_commit(2) [OF buf3 t2] r1(3,4) rd3 b(2)
    by (simp add: ConsumerName_def disk_rows_def parsePartition_def file_rows_def segment_file_def std_env_def)
  have "buf (pr_store (rn_proc s2)) = []"
    using t2 one_row_flush [OF buf3, of "pr_disk (rn_proc ?s3)"]
    by (auto simp: run_turn_def quiet_turn_def commit_def Let_def split: prod.splits sum.splits)
  with d have "\<not> stored (world_rows (pr_disk (rn_proc s2)) (pr_store (rn_proc s2))) 3 ''e1'' sample_body"
    by (simp add: stored_def world_rows_def sample_event_def)
  moreover have "Payload (log_records l ess ! 0) = sample_payload" unfolding log_records_def l(4,5) by (simp add: entry_record_def)
  ultimately show ?thesis using t1 t2 c l(3) sample_ids by blast
qed

end
