(* ===== verification/Metadata.thy ===== *)
theory Metadata
  imports Issues Alerts Go_Text Ratelimit
begin

text \<open>
  The metadata store: \<open>internal/metadata/db.go\<close>, \<open>auth.go\<close> and \<open>alerts.go\<close> (the issue
  table is the theory \<open>Issues\<close>). A table is the list of its rows; each SQL statement is the list operation it denotes, and the
  \<open>UNIQUE\<close>, \<open>PRIMARY KEY\<close> and \<open>REFERENCES\<close> clauses of the migrations are the conditions under
  which an \<open>INSERT\<close> fails. Columns that are written and never read (\<open>created_at\<close>, \<open>saved_at\<close>) are left
  out. The SQL engine is the parameter record \<open>sql_env\<close>: the row ids it picks and the order it gives to rows the
  statement leaves unordered; Unicode lower-casing is a parameter too.
\<close>

section \<open>Rows\<close>

record Org =
  og_ID :: int
  og_Slug :: string
  og_Name :: string

record Project =
  pj_ID :: int
  pj_OrgID :: int
  pj_Slug :: string
  pj_Name :: string
  pj_Platform :: string

record ProjectKey =
  pk_ID :: int
  pk_ProjectID :: int
  pk_OrgID :: int
  pk_PublicKey :: string
  pk_Active :: bool

record User =
  us_ID :: int
  us_OrgID :: int
  us_Email :: string
  us_PasswordHash :: string
  us_Role :: string

record session_row =
  ss_ID :: string
  ss_UserID :: int
  ss_ExpiresAt :: int
  ss_Revoked :: bool

record APIToken =
  tk_ID :: int
  tk_OrgID :: int
  tk_UserID :: int
  tk_Name :: string
  tk_Permissions :: "string list"
  tk_ExpiresAt :: int

record token_row =
  tr_ID :: int
  tr_OrgID :: int
  tr_UserID :: int
  tr_Name :: string
  tr_Hash :: string
  tr_Permissions :: string
  tr_ExpiresAt :: int
  tr_Revoked :: bool

record AuditEntry =
  ae_OrgID :: int
  ae_ActorID :: int
  ae_Action :: string
  ae_Target :: string
  ae_Detail :: string
  ae_IP :: string
  ae_UserAgent :: string
  ae_At :: int

record meta_db =
  db_orgs :: "Org list"
  db_projects :: "Project list"
  db_keys :: "ProjectKey list"
  db_users :: "User list"
  db_sessions :: "session_row list"
  db_tokens :: "token_row list"
  db_audit :: "AuditEntry list"
  db_limits :: "(int \<times> rat) list"
  db_rules :: "Rule list"
  db_issues :: issue_table

definition empty_db :: meta_db where
  "empty_db = \<lparr>db_orgs = [], db_projects = [], db_keys = [], db_users = [], db_sessions = [], db_tokens = [], db_audit = [],
     db_limits = [], db_rules = [], db_issues = []\<rparr>"

record sql_env =
  sq_new_id :: "int list \<Rightarrow> int"
  sq_by_time :: "AuditEntry list \<Rightarrow> AuditEntry list"
  sq_any_order :: "Rule list \<Rightarrow> Rule list"
  sq_ToLower :: "string \<Rightarrow> string"

section \<open>Transactions\<close>

datatype meta_err = NotFound | Constraint | Invalid string | DBFailed | WriteCancelled

text \<open>What happens to one write: it runs, or the context ends before the writer takes it or before it answers, or \<open>BEGIN\<close> or \<open>COMMIT\<close> fails.\<close>

datatype tx_fate = Runs | CancelledBefore | CancelledAfter | BeginFails | CommitFails

definition execTx :: "tx_fate \<Rightarrow> (meta_db \<Rightarrow> meta_err + (meta_db \<times> 'a)) \<Rightarrow> meta_db \<Rightarrow> meta_db \<times> (meta_err + 'a)" where
  "execTx ft fn db =
     (if ft = BeginFails then (db, Inl DBFailed)
      else case fn db of
        Inl err \<Rightarrow> (db, Inl err)
      | Inr (db', x) \<Rightarrow> if ft = CommitFails then (db, Inl DBFailed) else (db', Inr x))"

text \<open>\<open>Write\<close> gives up waiting when the context ends; an operation already queued is still executed.\<close>

definition db_Write :: "tx_fate \<Rightarrow> (meta_db \<Rightarrow> meta_err + (meta_db \<times> 'a)) \<Rightarrow> meta_db \<Rightarrow> meta_db \<times> (meta_err + 'a)" where
  "db_Write ft fn db =
     (if ft = CancelledBefore then (db, Inl WriteCancelled)
      else case execTx ft fn db of (db', res) \<Rightarrow> (db', if ft = CancelledAfter then Inl WriteCancelled else res))"

section \<open>Migrations\<close>

definition meta_SchemaVersion :: nat where "meta_SchemaVersion = 5"

text \<open>
  The tables and indexes each version creates, by name. Their columns are the fields of the records above, and their \<open>UNIQUE\<close>, \<open>PRIMARY KEY\<close> and
  \<open>REFERENCES\<close> clauses are the conditions of the inserts below.
\<close>

definition migrations :: "(nat \<times> string list) list" where
  "migrations =
     [(1, [''organizations'', ''projects'', ''project_keys'', ''idx_project_keys_lookup'']), (2, [''issues'', ''idx_issues_stream'']),
      (3, [''users'', ''sessions'', ''api_tokens'', ''audit_log'', ''idx_audit_org_time'']), (4, [''rate_limit_state'']),
      (5, [''alert_rules'', ''idx_alert_rules_project''])]"

text \<open>The loop from the version after the current one; a failed version is rolled back and ends it. The schema is the recorded versions and the objects.\<close>

fun migrate_loop :: "(nat \<Rightarrow> bool) \<Rightarrow> nat \<Rightarrow> nat \<Rightarrow> nat list \<times> string list \<Rightarrow> (nat list \<times> string list) \<times> bool" where
  "migrate_loop stmts_ok 0 v s = (s, True)"
| "migrate_loop stmts_ok (Suc n) v (vs, objs) =
     (case map_of migrations v of
        None \<Rightarrow> ((vs, objs), False)
      | Some created \<Rightarrow> if stmts_ok v then migrate_loop stmts_ok n (Suc v) (vs @ [v], objs @ created) else ((vs, objs), False))"

definition migrate :: "(nat \<Rightarrow> bool) \<Rightarrow> nat list \<times> string list \<Rightarrow> (nat list \<times> string list) \<times> bool" where
  "migrate stmts_ok s = (let current = fold max (fst s) 0 in migrate_loop stmts_ok (meta_SchemaVersion - current) (Suc current) s)"

section \<open>Inserts\<close>

definition insert_org :: "sql_env \<Rightarrow> string \<Rightarrow> string \<Rightarrow> meta_db \<Rightarrow> meta_err + (meta_db \<times> int)" where
  "insert_org E slug name db =
     (if slug \<in> og_Slug ` set (db_orgs db) then Inl Constraint
      else let i = sq_new_id E (map og_ID (db_orgs db))
           in Inr (db\<lparr>db_orgs := db_orgs db @ [\<lparr>og_ID = i, og_Slug = slug, og_Name = name\<rparr>]\<rparr>, i))"

definition insert_project :: "sql_env \<Rightarrow> int \<Rightarrow> string \<Rightarrow> string \<Rightarrow> string \<Rightarrow> meta_db \<Rightarrow> meta_err + (meta_db \<times> int)" where
  "insert_project E orgID slug name platform db =
     (if orgID \<notin> og_ID ` set (db_orgs db) \<or> (orgID, slug) \<in> (\<lambda>p. (pj_OrgID p, pj_Slug p)) ` set (db_projects db) then Inl Constraint
      else let i = sq_new_id E (map pj_ID (db_projects db))
           in Inr (db\<lparr>db_projects := db_projects db @ [\<lparr>pj_ID = i, pj_OrgID = orgID, pj_Slug = slug, pj_Name = name, pj_Platform = platform\<rparr>]\<rparr>, i))"

definition insert_key :: "sql_env \<Rightarrow> int \<Rightarrow> int \<Rightarrow> string \<Rightarrow> meta_db \<Rightarrow> meta_err + (meta_db \<times> int)" where
  "insert_key E projectID orgID pub db =
     (if projectID \<notin> pj_ID ` set (db_projects db) \<or> orgID \<notin> og_ID ` set (db_orgs db) \<or> pub \<in> pk_PublicKey ` set (db_keys db) then Inl Constraint
      else let i = sq_new_id E (map pk_ID (db_keys db))
           in Inr (db\<lparr>db_keys := db_keys db @ [\<lparr>pk_ID = i, pk_ProjectID = projectID, pk_OrgID = orgID, pk_PublicKey = pub, pk_Active = True\<rparr>]\<rparr>, i))"

definition insert_user :: "sql_env \<Rightarrow> int \<Rightarrow> string \<Rightarrow> string \<Rightarrow> string \<Rightarrow> meta_db \<Rightarrow> meta_err + (meta_db \<times> int)" where
  "insert_user E orgID email hash role db =
     (if orgID \<notin> og_ID ` set (db_orgs db) \<or> email \<in> us_Email ` set (db_users db) then Inl Constraint
      else let i = sq_new_id E (map us_ID (db_users db))
           in Inr (db\<lparr>db_users := db_users db @ [\<lparr>us_ID = i, us_OrgID = orgID, us_Email = email, us_PasswordHash = hash, us_Role = role\<rparr>]\<rparr>, i))"

definition insert_session :: "string \<Rightarrow> int \<Rightarrow> int \<Rightarrow> meta_db \<Rightarrow> meta_err + (meta_db \<times> unit)" where
  "insert_session sid userID expires db =
     (if sid \<in> ss_ID ` set (db_sessions db) \<or> userID \<notin> us_ID ` set (db_users db) then Inl Constraint
      else Inr (db\<lparr>db_sessions := db_sessions db @ [\<lparr>ss_ID = sid, ss_UserID = userID, ss_ExpiresAt = expires, ss_Revoked = False\<rparr>]\<rparr>, ()))"

definition insert_token :: "sql_env \<Rightarrow> int \<Rightarrow> int \<Rightarrow> string \<Rightarrow> string \<Rightarrow> string \<Rightarrow> int \<Rightarrow> meta_db \<Rightarrow> meta_err + (meta_db \<times> int)" where
  "insert_token E orgID userID name hash permissions expires db =
     (if orgID \<notin> og_ID ` set (db_orgs db) \<or> userID \<notin> us_ID ` set (db_users db) \<or> hash \<in> tr_Hash ` set (db_tokens db) then Inl Constraint
      else let i = sq_new_id E (map tr_ID (db_tokens db))
           in Inr (db\<lparr>db_tokens := db_tokens db @ [\<lparr>tr_ID = i, tr_OrgID = orgID, tr_UserID = userID, tr_Name = name, tr_Hash = hash,
                tr_Permissions = permissions, tr_ExpiresAt = expires, tr_Revoked = False\<rparr>]\<rparr>, i))"

definition insert_rule :: "sql_env \<Rightarrow> Rule \<Rightarrow> meta_db \<Rightarrow> meta_err + (meta_db \<times> int)" where
  "insert_rule E r db =
     (if r_OrgID r \<notin> og_ID ` set (db_orgs db) \<or> r_ProjectID r \<notin> pj_ID ` set (db_projects db) then Inl Constraint
      else let i = sq_new_id E (map r_ID (db_rules db)) in Inr (db\<lparr>db_rules := db_rules db @ [r\<lparr>r_ID := i\<rparr>]\<rparr>, i))"

section \<open>Rate-limit checkpoints\<close>

fun insert_limits :: "(int \<times> rat) list \<Rightarrow> meta_db \<Rightarrow> meta_err + (meta_db \<times> unit)" where
  "insert_limits [] db = Inr (db, ())"
| "insert_limits ((k, t) # st) db =
     (if k \<in> fst ` set (db_limits db) then Inl Constraint else insert_limits st (db\<lparr>db_limits := db_limits db @ [(k, t)]\<rparr>))"

definition RateLimitSave :: "tx_fate \<Rightarrow> (int \<times> rat) list \<Rightarrow> meta_db \<Rightarrow> meta_db \<times> (meta_err + unit)" where
  "RateLimitSave ft st db = db_Write ft (\<lambda>db. insert_limits st (db\<lparr>db_limits := []\<rparr>)) db"

definition RateLimitLoad :: "meta_db \<Rightarrow> (int \<times> rat) list" where
  "RateLimitLoad db = fold (\<lambda>(k, t). map_put k t) (db_limits db) []"

section \<open>Organisations, projects and keys\<close>

fun slug_char :: "char \<Rightarrow> string" where
  "slug_char c =
     (let n = (of_char c :: nat) in
      if 97 \<le> n \<and> n \<le> 122 \<or> 48 \<le> n \<and> n \<le> 57 then [c]
      else if 65 \<le> n \<and> n \<le> 90 then [char_of (n + 32)]
      else if c = CHR '' '' \<or> c = CHR ''-'' \<or> c = CHR ''_'' then ''-''
      else [])"

text \<open>The runes that are kept are single bytes, so the bytes can be taken one by one.\<close>

definition slugify :: "string \<Rightarrow> string" where
  "slugify s = (let out = concat (map slug_char s) in if out = [] then ''default'' else out)"

text \<open>\<open>rnd\<close> are the sixteen bytes \<open>rand.Read\<close> fills in.\<close>

definition newPublicKey :: "byte list \<Rightarrow> string" where
  "newPublicKey rnd = hex_encode rnd"

text \<open>\<open>ORDER BY id LIMIT 1\<close>.\<close>

definition first_by :: "('r \<Rightarrow> int) \<Rightarrow> 'r list \<Rightarrow> 'r option" where
  "first_by key rows = (case sort_key key rows of [] \<Rightarrow> None | r # _ \<Rightarrow> Some r)"

definition boot_org :: "sql_env \<Rightarrow> string \<Rightarrow> meta_db \<Rightarrow> meta_err + (meta_db \<times> int)" where
  "boot_org E orgName db =
     (case first_by og_ID (db_orgs db) of None \<Rightarrow> insert_org E (slugify orgName) orgName db | Some o1 \<Rightarrow> Inr (db, og_ID o1))"

definition boot_project :: "sql_env \<Rightarrow> int \<Rightarrow> string \<Rightarrow> meta_db \<Rightarrow> meta_err + (meta_db \<times> Project)" where
  "boot_project E orgID projectName db =
     (case first_by pj_ID (filter (\<lambda>p. pj_OrgID p = orgID) (db_projects db)) of
        None \<Rightarrow>
          (case insert_project E orgID (slugify projectName) projectName [] db of
             Inl err \<Rightarrow> Inl err
           | Inr (db', i) \<Rightarrow> Inr (db', \<lparr>pj_ID = i, pj_OrgID = orgID, pj_Slug = slugify projectName, pj_Name = projectName, pj_Platform = []\<rparr>))
      | Some p \<Rightarrow> Inr (db, p))"

definition boot_key :: "sql_env \<Rightarrow> byte list \<Rightarrow> int \<Rightarrow> int \<Rightarrow> meta_db \<Rightarrow> meta_err + (meta_db \<times> ProjectKey)" where
  "boot_key E rnd projectID orgID db =
     (case first_by pk_ID (filter (\<lambda>k. pk_ProjectID k = projectID \<and> pk_Active k) (db_keys db)) of
        None \<Rightarrow>
          (case insert_key E projectID orgID (newPublicKey rnd) db of
             Inl err \<Rightarrow> Inl err
           | Inr (db', i) \<Rightarrow> Inr (db', \<lparr>pk_ID = i, pk_ProjectID = projectID, pk_OrgID = orgID, pk_PublicKey = newPublicKey rnd, pk_Active = True\<rparr>))
      | Some k \<Rightarrow> Inr (db, k))"

definition Bootstrap :: "sql_env \<Rightarrow> tx_fate \<Rightarrow> byte list \<Rightarrow> string \<Rightarrow> string \<Rightarrow> meta_db \<Rightarrow> meta_db \<times> (meta_err + (Project \<times> ProjectKey))" where
  "Bootstrap E ft rnd orgName projectName db =
     db_Write ft
       (\<lambda>db. case boot_org E orgName db of
          Inl err \<Rightarrow> Inl err
        | Inr (db1, orgID) \<Rightarrow>
            (case boot_project E orgID projectName db1 of
               Inl err \<Rightarrow> Inl err
             | Inr (db2, proj) \<Rightarrow>
                 (case boot_key E rnd (pj_ID proj) orgID db2 of
                    Inl err \<Rightarrow> Inl err
                  | Inr (db3, key) \<Rightarrow> Inr (db3, proj, key)))) db"

text \<open>Reads fail when the database does; \<open>ok\<close> is false then.\<close>

definition LookupKey :: "bool \<Rightarrow> meta_db \<Rightarrow> string \<Rightarrow> meta_err + ProjectKey" where
  "LookupKey ok db pub =
     (if \<not> ok then Inl DBFailed
      else case find (\<lambda>k. pk_PublicKey k = pub \<and> pk_Active k) (db_keys db) of None \<Rightarrow> Inl NotFound | Some k \<Rightarrow> Inr k)"

definition CreateOrg :: "sql_env \<Rightarrow> tx_fate \<Rightarrow> string \<Rightarrow> meta_db \<Rightarrow> meta_db \<times> (meta_err + int)" where
  "CreateOrg E ft name db = db_Write ft (insert_org E (slugify name) name) db"

definition CreateProject :: "sql_env \<Rightarrow> tx_fate \<Rightarrow> byte list \<Rightarrow> int \<Rightarrow> string \<Rightarrow> string \<Rightarrow> meta_db \<Rightarrow> meta_db \<times> (meta_err + (Project \<times> ProjectKey))" where
  "CreateProject E ft rnd orgID name platform db =
     db_Write ft
       (\<lambda>db. case insert_project E orgID (slugify name) name platform db of
          Inl err \<Rightarrow> Inl err
        | Inr (db1, pid) \<Rightarrow>
            (case insert_key E pid orgID (newPublicKey rnd) db1 of
               Inl err \<Rightarrow> Inl err
             | Inr (db2, kid) \<Rightarrow>
                 Inr (db2, \<lparr>pj_ID = pid, pj_OrgID = orgID, pj_Slug = slugify name, pj_Name = name, pj_Platform = platform\<rparr>,
                      \<lparr>pk_ID = kid, pk_ProjectID = pid, pk_OrgID = orgID, pk_PublicKey = newPublicKey rnd, pk_Active = True\<rparr>))) db"

text \<open>A project with its first active key; no key reads as the empty string.\<close>

record ProjectInfo =
  pi_Project :: Project
  pi_PublicKey :: string

definition ListProjects :: "bool \<Rightarrow> meta_db \<Rightarrow> meta_err + ProjectInfo list" where
  "ListProjects ok db =
     (if \<not> ok then Inl DBFailed
      else Inr (map (\<lambda>p. \<lparr>pi_Project = p, pi_PublicKey =
                   (case first_by pk_ID (filter (\<lambda>k. pk_ProjectID k = pj_ID p \<and> pk_Active k) (db_keys db)) of None \<Rightarrow> [] | Some k \<Rightarrow> pk_PublicKey k)\<rparr>)
                (take 200 (sort_key pj_ID (db_projects db)))))"

definition ProjectOrg :: "bool \<Rightarrow> meta_db \<Rightarrow> int \<Rightarrow> meta_err + int" where
  "ProjectOrg ok db projectID =
     (if \<not> ok then Inl DBFailed
      else case find (\<lambda>p. pj_ID p = projectID) (db_projects db) of None \<Rightarrow> Inl NotFound | Some p \<Rightarrow> Inr (pj_OrgID p))"

definition ProjectInOrg :: "bool \<Rightarrow> meta_db \<Rightarrow> int \<Rightarrow> int \<Rightarrow> bool" where
  "ProjectInOrg ok db orgID projectID = (ok \<and> 0 < length (filter (\<lambda>p. pj_ID p = projectID \<and> pj_OrgID p = orgID) (db_projects db)))"

section \<open>Users and sessions\<close>

definition CreateUser :: "sql_env \<Rightarrow> tx_fate \<Rightarrow> int \<Rightarrow> string \<Rightarrow> string \<Rightarrow> string \<Rightarrow> meta_db \<Rightarrow> meta_db \<times> (meta_err + int)" where
  "CreateUser E ft orgID email hash role db =
     (let email1 = sq_ToLower E (trim_space email) in
      if email1 = [] \<or> hash = [] then (db, Inl (Invalid ''email and password hash required''))
      else db_Write ft (insert_user E orgID email1 hash role) db)"

definition UserByEmail :: "sql_env \<Rightarrow> bool \<Rightarrow> meta_db \<Rightarrow> string \<Rightarrow> meta_err + User" where
  "UserByEmail E ok db email =
     (if \<not> ok then Inl DBFailed
      else case find (\<lambda>u. us_Email u = sq_ToLower E (trim_space email)) (db_users db) of None \<Rightarrow> Inl NotFound | Some u \<Rightarrow> Inr u)"

definition UserByID :: "bool \<Rightarrow> meta_db \<Rightarrow> int \<Rightarrow> meta_err + User" where
  "UserByID ok db i =
     (if \<not> ok then Inl DBFailed else case find (\<lambda>u. us_ID u = i) (db_users db) of None \<Rightarrow> Inl NotFound | Some u \<Rightarrow> Inr u)"

definition CountUsers :: "bool \<Rightarrow> meta_db \<Rightarrow> meta_err + nat" where
  "CountUsers ok db = (if \<not> ok then Inl DBFailed else Inr (length (db_users db)))"

definition CreateSession :: "tx_fate \<Rightarrow> string \<Rightarrow> int \<Rightarrow> int \<Rightarrow> int \<Rightarrow> meta_db \<Rightarrow> meta_db \<times> (meta_err + unit)" where
  "CreateSession ft sid userID ttl now db = db_Write ft (insert_session sid userID (now + ttl)) db"

text \<open>\<open>JOIN users u ON u.id = s.user_id\<close>.\<close>

definition SessionUser :: "bool \<Rightarrow> meta_db \<Rightarrow> string \<Rightarrow> int \<Rightarrow> meta_err + User" where
  "SessionUser ok db sid now =
     (if \<not> ok then Inl DBFailed
      else case concat (map (\<lambda>s. filter (\<lambda>u. us_ID u = ss_UserID s) (db_users db))
                  (filter (\<lambda>s. ss_ID s = sid \<and> \<not> ss_Revoked s \<and> now < ss_ExpiresAt s) (db_sessions db))) of
        [] \<Rightarrow> Inl NotFound
      | u # _ \<Rightarrow> Inr u)"

definition RevokeSession :: "tx_fate \<Rightarrow> string \<Rightarrow> meta_db \<Rightarrow> meta_db \<times> (meta_err + unit)" where
  "RevokeSession ft sid db =
     db_Write ft (\<lambda>db. Inr (db\<lparr>db_sessions := map (\<lambda>s. if ss_ID s = sid then s\<lparr>ss_Revoked := True\<rparr> else s) (db_sessions db)\<rparr>, ())) db"

definition RevokeUserSessions :: "tx_fate \<Rightarrow> int \<Rightarrow> meta_db \<Rightarrow> meta_db \<times> (meta_err + unit)" where
  "RevokeUserSessions ft userID db =
     db_Write ft (\<lambda>db. Inr (db\<lparr>db_sessions := map (\<lambda>s. if ss_UserID s = userID then s\<lparr>ss_Revoked := True\<rparr> else s) (db_sessions db)\<rparr>, ())) db"

section \<open>Tokens\<close>

fun join_comma :: "string list \<Rightarrow> string" where
  "join_comma [] = []"
| "join_comma [p] = p"
| "join_comma (p # q # ps) = p @ '','' @ join_comma (q # ps)"

definition CreateToken :: "sql_env \<Rightarrow> tx_fate \<Rightarrow> APIToken \<Rightarrow> string \<Rightarrow> meta_db \<Rightarrow> meta_db \<times> (meta_err + int)" where
  "CreateToken E ft t hash db =
     db_Write ft (insert_token E (tk_OrgID t) (tk_UserID t) (tk_Name t) hash (join_comma (tk_Permissions t)) (tk_ExpiresAt t)) db"

definition TokenByHash :: "bool \<Rightarrow> meta_db \<Rightarrow> string \<Rightarrow> int \<Rightarrow> meta_err + (APIToken \<times> User)" where
  "TokenByHash ok db hash now =
     (if \<not> ok then Inl DBFailed
      else case concat (map (\<lambda>t. map (\<lambda>u. (t, u)) (filter (\<lambda>u. us_ID u = tr_UserID t) (db_users db)))
                  (filter (\<lambda>t. tr_Hash t = hash \<and> \<not> tr_Revoked t \<and> (tr_ExpiresAt t = 0 \<or> now < tr_ExpiresAt t)) (db_tokens db))) of
        [] \<Rightarrow> Inl NotFound
      | (t, u) # _ \<Rightarrow>
          Inr (\<lparr>tk_ID = tr_ID t, tk_OrgID = tr_OrgID t, tk_UserID = tr_UserID t, tk_Name = tr_Name t,
                tk_Permissions = (if tr_Permissions t \<noteq> [] then split_on '','' (tr_Permissions t) else []), tk_ExpiresAt = tr_ExpiresAt t\<rparr>, u))"

definition RevokeToken :: "tx_fate \<Rightarrow> int \<Rightarrow> int \<Rightarrow> meta_db \<Rightarrow> meta_db \<times> (meta_err + unit)" where
  "RevokeToken ft orgID tokenID db =
     db_Write ft
       (\<lambda>db. let P = (\<lambda>t. tr_ID t = tokenID \<and> tr_OrgID t = orgID) in
          if \<not> list_ex P (db_tokens db) then Inl NotFound
          else Inr (db\<lparr>db_tokens := map (\<lambda>t. if P t then t\<lparr>tr_Revoked := True\<rparr> else t) (db_tokens db)\<rparr>, ())) db"

section \<open>The audit log\<close>

definition Audit :: "tx_fate \<Rightarrow> AuditEntry \<Rightarrow> int \<Rightarrow> meta_db \<Rightarrow> meta_db \<times> (meta_err + unit)" where
  "Audit ft e now db =
     (let e1 = (if ae_At e = 0 then e\<lparr>ae_At := now\<rparr> else e)
      in db_Write ft (\<lambda>db. Inr (db\<lparr>db_audit := db_audit db @ [e1]\<rparr>, ())) db)"

definition AuditList :: "sql_env \<Rightarrow> bool \<Rightarrow> meta_db \<Rightarrow> int \<Rightarrow> int \<Rightarrow> meta_err + AuditEntry list" where
  "AuditList E ok db orgID limit =
     (let n = (if limit \<le> 0 \<or> 1000 < limit then 200 else limit) in
      if \<not> ok then Inl DBFailed
      else Inr (take (nat n) (sq_by_time E (filter (\<lambda>e. ae_OrgID e = orgID) (db_audit db)))))"

section \<open>Alert rules\<close>

definition CreateAlertRule :: "sql_env \<Rightarrow> tx_fate \<Rightarrow> Rule \<Rightarrow> meta_db \<Rightarrow> meta_db \<times> (meta_err + int)" where
  "CreateAlertRule E ft r db =
     (if r_Condition r \<noteq> CondNewIssue \<and> r_Condition r \<noteq> CondRegression \<and> r_Condition r \<noteq> CondFrequency then (db, Inl (Invalid ''invalid alert condition''))
      else if r_WebhookURL r = [] \<or> r_Name r = [] then (db, Inl (Invalid ''alert rule needs name and webhook_url''))
      else db_Write ft (insert_rule E r) db)"

definition EnabledRules :: "sql_env \<Rightarrow> bool \<Rightarrow> meta_db \<Rightarrow> int \<Rightarrow> meta_err + Rule list" where
  "EnabledRules E ok db projectID =
     (if \<not> ok then Inl DBFailed
      else Inr (take 100 (sq_any_order E (filter (\<lambda>r. r_ProjectID r = projectID \<and> r_Enabled r) (db_rules db)))))"

definition ListAlertRules :: "bool \<Rightarrow> meta_db \<Rightarrow> int \<Rightarrow> meta_err + Rule list" where
  "ListAlertRules ok db projectID =
     (if \<not> ok then Inl DBFailed else Inr (take 200 (sort_key r_ID (filter (\<lambda>r. r_ProjectID r = projectID) (db_rules db)))))"

definition DeleteAlertRule :: "tx_fate \<Rightarrow> int \<Rightarrow> int \<Rightarrow> meta_db \<Rightarrow> meta_db \<times> (meta_err + unit)" where
  "DeleteAlertRule ft projectID ruleID db =
     db_Write ft
       (\<lambda>db. let P = (\<lambda>r. r_ID r = ruleID \<and> r_ProjectID r = projectID) in
          if \<not> list_ex P (db_rules db) then Inl NotFound
          else Inr (db\<lparr>db_rules := filter (\<lambda>r. \<not> P r) (db_rules db)\<rparr>, ())) db"

section \<open>Issues\<close>

text \<open>The operations of the issue table as writes of the database; an inserted issue must name an existing organisation and project.\<close>

definition db_Issue :: "tx_fate \<Rightarrow> (issue_table \<Rightarrow> bool \<Rightarrow> issue_table \<times> (issue_err + 'a)) \<Rightarrow> meta_db \<Rightarrow> meta_db \<times> (issue_err + 'a)" where
  "db_Issue ft f db =
     (case f (db_issues db) (ft = Runs \<or> ft = CancelledAfter) of
        (t', res) \<Rightarrow>
          (db\<lparr>db_issues := t'\<rparr>,
           if ft = CancelledAfter \<and> (case res of Inl ErrArgs \<Rightarrow> False | Inl (ErrStatus _) \<Rightarrow> False | _ \<Rightarrow> True) then Inl ErrDB else res))"

definition db_UpsertIssue :: "sql_env \<Rightarrow> tx_fate \<Rightarrow> IssueUpsert \<Rightarrow> meta_db \<Rightarrow> meta_db \<times> (issue_err + IssueOutcome)" where
  "db_UpsertIssue E ft u db =
     (let refs = (u_OrgID u \<in> og_ID ` set (db_orgs db) \<and> u_ProjectID u \<in> pj_ID ` set (db_projects db));
          old = list_ex (\<lambda>r. ProjectID r = u_ProjectID u \<and> Fingerprint r = u_Fingerprint u) (db_issues db)
      in db_Issue ft (\<lambda>t ok. UpsertIssue t (ok \<and> (old \<or> refs)) (sq_new_id E (map ID t)) u) db)"

end
