(* ===== verification/Metadata_Props.thy ===== *)
theory Metadata_Props
  imports Metadata
begin

text \<open>
  Properties of the metadata store: every sequence of operations keeps the tables consistent, the first-boot setup is idempotent, a
  session lives exactly until it expires or is revoked, and a token gives back the permissions it was created with (with one
  exception that the last theorem shows).
\<close>

section \<open>The engine\<close>

definition sql_ok :: "sql_env \<Rightarrow> bool" where
  "sql_ok E \<longleftrightarrow> (\<forall>ids. sq_new_id E ids \<notin> set ids \<and> 0 < sq_new_id E ids) \<and>
     (\<forall>es. mset (sq_by_time E es) = mset es \<and> sorted (rev (map ae_At (sq_by_time E es)))) \<and> (\<forall>rs. mset (sq_any_order E rs) = mset rs)"

lemma sql_okD: "sql_ok E \<Longrightarrow> sq_new_id E ids \<notin> set ids" "sql_ok E \<Longrightarrow> 0 < sq_new_id E ids"
  by (simp_all add: sql_ok_def)

definition std_sql :: sql_env where
  "std_sql = \<lparr>sq_new_id = (\<lambda>ids. fold max ids 0 + 1), sq_by_time = (\<lambda>es. rev (sort_key ae_At es)), sq_any_order = id, sq_ToLower = to_lower\<rparr>"

lemma fold_max_ge: "(x \<in> set ids \<longrightarrow> x \<le> fold max ids (m :: int)) \<and> m \<le> fold max ids m"
proof (induction ids arbitrary: m)
  case (Cons a ids)
  from this [of "max a m"] show ?case by auto
qed simp

lemma std_sql_ok: "sql_ok std_sql"
proof -
  have "fold max ids 0 + 1 \<notin> set ids" "0 < fold max ids 0 + (1 :: int)" for ids :: "int list"
    using fold_max_ge [of "fold max ids 0 + 1" ids 0] by auto
  then show ?thesis by (simp add: sql_ok_def std_sql_def rev_map)
qed

section \<open>Consistency\<close>

definition org_ids :: "meta_db \<Rightarrow> int set" where "org_ids db = og_ID ` set (db_orgs db)"

definition project_ids :: "meta_db \<Rightarrow> int set" where "project_ids db = pj_ID ` set (db_projects db)"

definition usr_ids :: "meta_db \<Rightarrow> int set" where "usr_ids db = us_ID ` set (db_users db)"

definition tenants_ok :: "meta_db \<Rightarrow> bool" where
  "tenants_ok db \<longleftrightarrow> distinct (map og_ID (db_orgs db)) \<and> distinct (map og_Slug (db_orgs db)) \<and>
     distinct (map pj_ID (db_projects db)) \<and> distinct (map (\<lambda>p. (pj_OrgID p, pj_Slug p)) (db_projects db)) \<and>
     (\<forall>p \<in> set (db_projects db). pj_OrgID p \<in> org_ids db)"

definition keys_ok :: "meta_db \<Rightarrow> bool" where
  "keys_ok db \<longleftrightarrow> distinct (map pk_ID (db_keys db)) \<and> distinct (map pk_PublicKey (db_keys db)) \<and>
     (\<forall>k \<in> set (db_keys db). \<exists>p \<in> set (db_projects db). pj_ID p = pk_ProjectID k \<and> pj_OrgID p = pk_OrgID k)"

definition accounts_ok :: "meta_db \<Rightarrow> bool" where
  "accounts_ok db \<longleftrightarrow> distinct (map us_ID (db_users db)) \<and> distinct (map us_Email (db_users db)) \<and> (\<forall>u \<in> set (db_users db). us_OrgID u \<in> org_ids db) \<and>
     distinct (map ss_ID (db_sessions db)) \<and> (\<forall>s \<in> set (db_sessions db). ss_UserID s \<in> usr_ids db) \<and>
     distinct (map tr_ID (db_tokens db)) \<and> distinct (map tr_Hash (db_tokens db)) \<and>
     (\<forall>t \<in> set (db_tokens db). tr_UserID t \<in> usr_ids db \<and> tr_OrgID t \<in> org_ids db)"

definition scoped_ok :: "meta_db \<Rightarrow> bool" where
  "scoped_ok db \<longleftrightarrow> distinct (map fst (db_limits db)) \<and> distinct (map r_ID (db_rules db)) \<and>
     (\<forall>r \<in> set (db_rules db). r_OrgID r \<in> org_ids db \<and> r_ProjectID r \<in> project_ids db) \<and>
     issues_inv (db_issues db) \<and> (\<forall>i \<in> set (db_issues db). OrgID i \<in> org_ids db \<and> ProjectID i \<in> project_ids db)"

definition meta_inv :: "meta_db \<Rightarrow> bool" where
  "meta_inv db \<longleftrightarrow> tenants_ok db \<and> keys_ok db \<and> accounts_ok db \<and> scoped_ok db"

lemmas id_sets = org_ids_def project_ids_def usr_ids_def
lemmas meta_inv_defs = meta_inv_def tenants_ok_def keys_ok_def accounts_ok_def scoped_ok_def

text \<open>A write keeps what its transaction keeps.\<close>

lemma db_Write_keeps:
  assumes "P db" and "\<And>db' x. fn db = Inr (db', x) \<Longrightarrow> P db'"
  shows "P (fst (db_Write ft fn db))"
  using assms by (auto simp: db_Write_def execTx_def split: sum.splits)

lemma new_id_fresh: "sql_ok E \<Longrightarrow> sq_new_id E (map f rows) \<notin> f ` set rows"
  using sql_okD(1) [of E "map f rows"] by simp

lemma insert_org_inv:
  assumes "sql_ok E" and "meta_inv db" and "insert_org E slug name db = Inr (db', i)"
  shows "meta_inv db' \<and> i \<in> org_ids db'"
proof -
  have "db' = db\<lparr>db_orgs := db_orgs db @ [\<lparr>og_ID = i, og_Slug = slug, og_Name = name\<rparr>]\<rparr>" "i \<notin> og_ID ` set (db_orgs db)" "slug \<notin> og_Slug ` set (db_orgs db)"
    using assms new_id_fresh [OF assms(1), of og_ID "db_orgs db"] by (auto simp: insert_org_def Let_def split: if_splits)
  with assms(2) show ?thesis by (simp add: meta_inv_defs id_sets)
qed

lemma insert_project_inv:
  assumes "sql_ok E" and "meta_inv db" and "insert_project E orgID slug name plat db = Inr (db', i)"
  shows "meta_inv db' \<and> (\<exists>p \<in> set (db_projects db'). pj_ID p = i \<and> pj_OrgID p = orgID)"
proof -
  have "db' = db\<lparr>db_projects := db_projects db @ [\<lparr>pj_ID = i, pj_OrgID = orgID, pj_Slug = slug, pj_Name = name, pj_Platform = plat\<rparr>]\<rparr>" "i \<notin> pj_ID ` set (db_projects db)" "orgID \<in> og_ID ` set (db_orgs db)" "(orgID, slug) \<notin> (\<lambda>p. (pj_OrgID p, pj_Slug p)) ` set (db_projects db)"
    using assms new_id_fresh [OF assms(1), of pj_ID "db_projects db"] by (auto simp: insert_project_def Let_def split: if_splits)
  with assms(2) show ?thesis by (simp add: meta_inv_defs id_sets)
qed

lemma insert_key_inv:
  assumes "sql_ok E" and "meta_inv db" and p: "\<exists>p \<in> set (db_projects db). pj_ID p = pid \<and> pj_OrgID p = orgID" and "insert_key E pid orgID pub db = Inr (db', i)"
  shows "meta_inv db'"
proof -
  have "db' = db\<lparr>db_keys := db_keys db @ [\<lparr>pk_ID = i, pk_ProjectID = pid, pk_OrgID = orgID, pk_PublicKey = pub, pk_Active = True\<rparr>]\<rparr>" "i \<notin> pk_ID ` set (db_keys db)" "pub \<notin> pk_PublicKey ` set (db_keys db)"
    using assms new_id_fresh [OF assms(1), of pk_ID "db_keys db"] by (auto simp: insert_key_def Let_def split: if_splits)
  with assms(2) p show ?thesis by (simp add: meta_inv_defs id_sets)
qed

lemma insert_user_inv:
  assumes "sql_ok E" and "meta_inv db" and "insert_user E orgID email hash role db = Inr (db', i)"
  shows "meta_inv db'"
proof -
  have "db' = db\<lparr>db_users := db_users db @ [\<lparr>us_ID = i, us_OrgID = orgID, us_Email = email, us_PasswordHash = hash, us_Role = role\<rparr>]\<rparr>" "i \<notin> us_ID ` set (db_users db)" "email \<notin> us_Email ` set (db_users db)" "orgID \<in> og_ID ` set (db_orgs db)"
    using assms new_id_fresh [OF assms(1), of us_ID "db_users db"] by (auto simp: insert_user_def Let_def split: if_splits)
  with assms(2) show ?thesis by (simp add: meta_inv_defs id_sets)
qed

lemma insert_session_inv:
  assumes "meta_inv db" and "insert_session sid uid ex db = Inr (db', i)"
  shows "meta_inv db'"
proof -
  have "db' = db\<lparr>db_sessions := db_sessions db @ [\<lparr>ss_ID = sid, ss_UserID = uid, ss_ExpiresAt = ex, ss_Revoked = False\<rparr>]\<rparr>" "sid \<notin> ss_ID ` set (db_sessions db)" "uid \<in> us_ID ` set (db_users db)"
    using assms  by (auto simp: insert_session_def Let_def split: if_splits)
  with assms(1) show ?thesis by (simp add: meta_inv_defs id_sets)
qed

lemma insert_token_inv:
  assumes "sql_ok E" and "meta_inv db" and "insert_token E orgID uid name hash perms ex db = Inr (db', i)"
  shows "meta_inv db'"
proof -
  have "db' = db\<lparr>db_tokens := db_tokens db @ [\<lparr>tr_ID = i, tr_OrgID = orgID, tr_UserID = uid, tr_Name = name, tr_Hash = hash, tr_Permissions = perms, tr_ExpiresAt = ex, tr_Revoked = False\<rparr>]\<rparr>" "i \<notin> tr_ID ` set (db_tokens db)" "hash \<notin> tr_Hash ` set (db_tokens db)" "orgID \<in> og_ID ` set (db_orgs db)" "uid \<in> us_ID ` set (db_users db)"
    using assms new_id_fresh [OF assms(1), of tr_ID "db_tokens db"] by (auto simp: insert_token_def Let_def split: if_splits)
  with assms(2) show ?thesis by (simp add: meta_inv_defs id_sets)
qed

lemma insert_rule_inv:
  assumes "sql_ok E" and "meta_inv db" and "insert_rule E r db = Inr (db', i)"
  shows "meta_inv db'"
proof -
  have "db' = db\<lparr>db_rules := db_rules db @ [r\<lparr>r_ID := i\<rparr>]\<rparr>" "i \<notin> r_ID ` set (db_rules db)" "r_OrgID r \<in> og_ID ` set (db_orgs db)" "r_ProjectID r \<in> pj_ID ` set (db_projects db)"
    using assms new_id_fresh [OF assms(1), of r_ID "db_rules db"] by (auto simp: insert_rule_def Let_def split: if_splits)
  with assms(2) show ?thesis by (simp add: meta_inv_defs id_sets)
qed

lemma insert_limits_inv: "meta_inv db \<Longrightarrow> insert_limits st db = Inr (db', x) \<Longrightarrow> meta_inv db'"
proof (induction st arbitrary: db)
  case (Cons kt st)
  obtain k t where kt: "kt = (k, t)" by (cases kt)
  with Cons.prems(2) have k: "k \<notin> fst ` set (db_limits db)" "insert_limits st (db\<lparr>db_limits := db_limits db @ [(k, t)]\<rparr>) = Inr (db', x)"
    by (auto split: if_splits)
  have "meta_inv (db\<lparr>db_limits := db_limits db @ [(k, t)]\<rparr>)" using Cons.prems(1) k(1) by (simp add: meta_inv_defs id_sets)
  from Cons.IH [OF this k(2)] show ?case .
qed simp

text \<open>The first-boot transaction finds or creates a project with an active key.\<close>

lemma first_by_Some: "first_by key rows = Some r \<Longrightarrow> r \<in> set rows"
  unfolding first_by_def by (metis list.case_eq_if list.set_sel(1) list.sel(1) option.inject option.distinct(1) set_sort list.exhaust)

lemma boot_org_inv:
  assumes "sql_ok E" and "meta_inv db" and "boot_org E name db = Inr (db', orgID)"
  shows "meta_inv db' \<and> orgID \<in> org_ids db'"
proof (cases "first_by og_ID (db_orgs db)")
  case None
  with insert_org_inv [OF assms(1,2)] assms(3) show ?thesis by (simp add: boot_org_def)
next
  case (Some o1)
  with first_by_Some [OF Some] assms(2,3) show ?thesis by (auto simp: boot_org_def org_ids_def)
qed

lemma boot_project_inv:
  assumes "sql_ok E" and "meta_inv db" and "boot_project E orgID name db = Inr (db', proj)"
  shows "meta_inv db' \<and> (\<exists>p \<in> set (db_projects db'). pj_ID p = pj_ID proj \<and> pj_OrgID p = orgID)"
proof (cases "first_by pj_ID (filter (\<lambda>p. pj_OrgID p = orgID) (db_projects db))")
  case None
  with insert_project_inv [OF assms(1,2), of orgID "slugify name" name "[]"] assms(3) show ?thesis
    by (auto simp: boot_project_def split: sum.splits)
next
  case (Some p)
  with first_by_Some [OF Some] assms(2,3) show ?thesis by (auto simp: boot_project_def)
qed

lemma boot_key_inv:
  assumes "sql_ok E" and "meta_inv db" and "\<exists>p \<in> set (db_projects db). pj_ID p = pid \<and> pj_OrgID p = orgID" and "boot_key E rnd pid orgID db = Inr (db', key)"
  shows "meta_inv db'"
  using insert_key_inv [OF assms(1-3)] assms(2,4) by (auto simp: boot_key_def split: option.splits sum.splits)

lemma Bootstrap_inv:
  assumes "sql_ok E" and "meta_inv db"
  shows "meta_inv (fst (Bootstrap E ft rnd oname pname db))"
  unfolding Bootstrap_def
proof (rule db_Write_keeps [where P = meta_inv, OF assms(2)])
  fix db' x
  assume b: "(case boot_org E oname db of Inl err \<Rightarrow> Inl err | Inr (db1, orgID) \<Rightarrow> (case boot_project E orgID pname db1 of Inl err \<Rightarrow> Inl err
    | Inr (db2, proj) \<Rightarrow> (case boot_key E rnd (pj_ID proj) orgID db2 of Inl err \<Rightarrow> Inl err | Inr (db3, key) \<Rightarrow> Inr (db3, proj, key)))) = Inr (db', x)"
  then obtain db1 orgID where 1: "boot_org E oname db = Inr (db1, orgID)" by (auto split: sum.splits)
  with b obtain db2 proj where 2: "boot_project E orgID pname db1 = Inr (db2, proj)" by (auto split: sum.splits)
  with 1 b obtain key where 3: "boot_key E rnd (pj_ID proj) orgID db2 = Inr (db', key)" by (auto split: sum.splits)
  have "meta_inv db1" using boot_org_inv [OF assms 1] by blast
  from boot_project_inv [OF assms(1) this 2] boot_key_inv [OF assms(1) _ _ 3] show "meta_inv db'" by blast
qed

lemma CreateProject_inv:
  assumes "sql_ok E" and "meta_inv db"
  shows "meta_inv (fst (CreateProject E ft rnd orgID name plat db))"
  unfolding CreateProject_def
proof (rule db_Write_keeps [where P = meta_inv, OF assms(2)])
  fix db' x
  assume c: "(case insert_project E orgID (slugify name) name plat db of Inl err \<Rightarrow> Inl err
    | Inr (db1, pid) \<Rightarrow> (case insert_key E pid orgID (newPublicKey rnd) db1 of Inl err \<Rightarrow> Inl err
      | Inr (db2, kid) \<Rightarrow> Inr (db2, \<lparr>pj_ID = pid, pj_OrgID = orgID, pj_Slug = slugify name, pj_Name = name, pj_Platform = plat\<rparr>,
          \<lparr>pk_ID = kid, pk_ProjectID = pid, pk_OrgID = orgID, pk_PublicKey = newPublicKey rnd, pk_Active = True\<rparr>))) = Inr (db', x)"
  then obtain db1 pid where 1: "insert_project E orgID (slugify name) name plat db = Inr (db1, pid)" by (auto split: sum.splits)
  with c obtain kid where 2: "insert_key E pid orgID (newPublicKey rnd) db1 = Inr (db', kid)" by (auto split: sum.splits)
  from insert_project_inv [OF assms 1] insert_key_inv [OF assms(1) _ _ 2] show "meta_inv db'" by blast
qed

text \<open>Changing flags of rows, or deleting rules, breaks nothing.\<close>

lemma sessions_map_inv:
  assumes "meta_inv db" and "\<And>s. ss_ID (f s) = ss_ID s" and "\<And>s. ss_UserID (f s) = ss_UserID s"
  shows "meta_inv (db\<lparr>db_sessions := map f (db_sessions db)\<rparr>)"
proof -
  have "map ss_ID (map f (db_sessions db)) = map ss_ID (db_sessions db)" by (simp add: assms(2))
  then show ?thesis using assms(1,3) by (auto simp: meta_inv_defs id_sets simp del: map_map)
qed

lemma tokens_map_inv:
  assumes "meta_inv db" and "\<And>t. tr_ID (f t) = tr_ID t \<and> tr_Hash (f t) = tr_Hash t \<and> tr_UserID (f t) = tr_UserID t \<and> tr_OrgID (f t) = tr_OrgID t"
  shows "meta_inv (db\<lparr>db_tokens := map f (db_tokens db)\<rparr>)"
proof -
  have "map tr_ID (map f (db_tokens db)) = map tr_ID (db_tokens db)" "map tr_Hash (map f (db_tokens db)) = map tr_Hash (db_tokens db)" by (simp_all add: assms(2))
  then show ?thesis using assms by (auto simp: meta_inv_defs id_sets simp del: map_map)
qed

lemma rules_filter_inv: "meta_inv db \<Longrightarrow> meta_inv (db\<lparr>db_rules := filter P (db_rules db)\<rparr>)"
  by (auto simp: meta_inv_defs id_sets distinct_map_filter)

lemma audit_inv: "meta_inv (db\<lparr>db_audit := es\<rparr>) = meta_inv db"
  by (simp add: meta_inv_defs id_sets)

text \<open>The issue operations keep the organisation and project of every row.\<close>

definition tenants_of :: "issue_table \<Rightarrow> (int \<times> int) list" where "tenants_of t = map (\<lambda>r. (OrgID r, ProjectID r)) t"

lemma tenants_update [simp]: "(\<And>r. OrgID (f r) = OrgID r \<and> ProjectID (f r) = ProjectID r) \<Longrightarrow> tenants_of (update_where P f t) = tenants_of t"
  unfolding tenants_of_def by (rule map_update_where) simp

lemma merge_loop_tenants: "merge_loop pid tgt srcs t = Inr t' \<Longrightarrow> tenants_of t' = tenants_of t"
proof (induction srcs arbitrary: t)
  case (Cons s srcs)
  then obtain n where "merge_loop pid tgt srcs (merge_one pid tgt s n t) = Inr t'" by (auto split: if_splits option.splits)
  from Cons.IH [OF this] show ?case by (simp add: merge_one_def)
qed simp

lemma status_tenants [simp]: "tenants_of (fst (SetIssueStatus t b pid i st)) = tenants_of t"
  by (simp add: SetIssueStatus_def Let_def)

lemma merge_tenants [simp]: "tenants_of (fst (MergeIssues t b pid tgt srcs)) = tenants_of t"
  by (simp add: MergeIssues_def merge_loop_tenants split: sum.split)

lemma split_tenants [simp]: "tenants_of (fst (SplitIssue t b pid src)) = tenants_of t"
  by (simp add: SplitIssue_def Let_def)

lemma upsert_tenants:
  assumes "x \<in> set (tenants_of (fst (UpsertIssue t b eid u)))"
  shows "x \<in> set (tenants_of t) \<or>
    b \<and> \<not> list_ex (\<lambda>r. ProjectID r = u_ProjectID u \<and> Fingerprint r = u_Fingerprint u) t \<and> x = (u_OrgID u, u_ProjectID u)"
proof (cases "find (\<lambda>r. ProjectID r = u_ProjectID u \<and> Fingerprint r = u_Fingerprint u) t")
  case None
  then have "\<not> list_ex (\<lambda>r. ProjectID r = u_ProjectID u \<and> Fingerprint r = u_Fingerprint u) t" by (auto simp: find_None_iff list_ex_iff)
  with None assms show ?thesis by (auto simp: UpsertIssue_def tenants_of_def new_issue_def split: if_splits)
next
  case (Some r)
  have "tenants_of (fst (UpsertIssue t b eid u)) = tenants_of t"
    by (simp add: UpsertIssue_def Some Let_def count_hit_def split: option.split)
  with assms show ?thesis by simp
qed

definition tenants_known :: "meta_db \<Rightarrow> issue_table \<Rightarrow> bool" where
  "tenants_known db t \<longleftrightarrow> (\<forall>(og, pj) \<in> set (tenants_of t). og \<in> org_ids db \<and> pj \<in> project_ids db)"

lemma issues_inv_db:
  assumes "meta_inv db" and "issues_inv t" and "tenants_known db t"
  shows "meta_inv (db\<lparr>db_issues := t\<rparr>)"
  using assms by (auto simp: meta_inv_defs id_sets tenants_of_def tenants_known_def)

lemma meta_inv_issues: "meta_inv db \<Longrightarrow> issues_inv (db_issues db) \<and> tenants_known db (db_issues db)"
  by (auto simp: meta_inv_defs tenants_of_def tenants_known_def)

lemma db_Issue_fst: "fst (db_Issue ft f db) = db\<lparr>db_issues := fst (f (db_issues db) (ft = Runs \<or> ft = CancelledAfter))\<rparr>"
  by (simp add: db_Issue_def split_beta)

lemma db_Issue_inv:
  assumes "meta_inv db" and "\<And>b. issues_inv (fst (f (db_issues db) b))" and "\<And>b. tenants_known db (fst (f (db_issues db) b))"
  shows "meta_inv (fst (db_Issue ft f db))"
  unfolding db_Issue_fst by (intro issues_inv_db assms)

lemma db_UpsertIssue_inv:
  assumes "sql_ok E" and "meta_inv db"
  shows "meta_inv (fst (db_UpsertIssue E ft u db))"
  unfolding db_UpsertIssue_def Let_def
proof (rule db_Issue_inv [OF assms(2)])
  fix b
  show "issues_inv (fst (UpsertIssue (db_issues db) (b \<and> ((list_ex (\<lambda>r. ProjectID r = u_ProjectID u \<and> Fingerprint r = u_Fingerprint u) (db_issues db)) \<or>
      u_OrgID u \<in> og_ID ` set (db_orgs db) \<and> u_ProjectID u \<in> pj_ID ` set (db_projects db))) (sq_new_id E (map ID (db_issues db))) u))"
    using meta_inv_issues [OF assms(2)] sql_okD(2) [OF assms(1)] new_id_fresh [OF assms(1)] by (intro UpsertIssue_inv) simp_all
  show "tenants_known db (fst (UpsertIssue (db_issues db) (b \<and> ((list_ex (\<lambda>r. ProjectID r = u_ProjectID u \<and> Fingerprint r = u_Fingerprint u) (db_issues db)) \<or>
      u_OrgID u \<in> og_ID ` set (db_orgs db) \<and> u_ProjectID u \<in> pj_ID ` set (db_projects db))) (sq_new_id E (map ID (db_issues db))) u))"
    unfolding tenants_known_def
  proof
    fix x
    assume "x \<in> set (tenants_of (fst (UpsertIssue (db_issues db) (b \<and> ((list_ex (\<lambda>r. ProjectID r = u_ProjectID u \<and> Fingerprint r = u_Fingerprint u) (db_issues db)) \<or>
      u_OrgID u \<in> og_ID ` set (db_orgs db) \<and> u_ProjectID u \<in> pj_ID ` set (db_projects db))) (sq_new_id E (map ID (db_issues db))) u)))"
    from upsert_tenants [OF this] meta_inv_issues [OF assms(2)] show "case x of (og, pj) \<Rightarrow> og \<in> org_ids db \<and> pj \<in> project_ids db"
      by (auto simp: tenants_known_def id_sets)
  qed
qed

section \<open>Sequences of operations\<close>

datatype meta_op =
    Op_Bootstrap tx_fate "byte list" string string
  | Op_CreateOrg tx_fate string
  | Op_CreateProject tx_fate "byte list" int string string
  | Op_CreateUser tx_fate int string string string
  | Op_CreateSession tx_fate string int int int
  | Op_RevokeSession tx_fate string
  | Op_RevokeUserSessions tx_fate int
  | Op_CreateToken tx_fate APIToken string
  | Op_RevokeToken tx_fate int int
  | Op_Audit tx_fate AuditEntry int
  | Op_RateLimitSave tx_fate "(int \<times> rat) list"
  | Op_CreateAlertRule tx_fate Rule
  | Op_DeleteAlertRule tx_fate int int
  | Op_UpsertIssue tx_fate IssueUpsert
  | Op_SetIssueStatus tx_fate int int string
  | Op_MergeIssues tx_fate int int "int list"
  | Op_SplitIssue tx_fate int int

fun meta_apply :: "sql_env \<Rightarrow> meta_op \<Rightarrow> meta_db \<Rightarrow> meta_db" where
  "meta_apply E (Op_Bootstrap ft rnd on pn) db = fst (Bootstrap E ft rnd on pn db)"
| "meta_apply E (Op_CreateOrg ft name) db = fst (CreateOrg E ft name db)"
| "meta_apply E (Op_CreateProject ft rnd og name plat) db = fst (CreateProject E ft rnd og name plat db)"
| "meta_apply E (Op_CreateUser ft og email hash role) db = fst (CreateUser E ft og email hash role db)"
| "meta_apply E (Op_CreateSession ft sid uid ttl now) db = fst (CreateSession ft sid uid ttl now db)"
| "meta_apply E (Op_RevokeSession ft sid) db = fst (RevokeSession ft sid db)"
| "meta_apply E (Op_RevokeUserSessions ft uid) db = fst (RevokeUserSessions ft uid db)"
| "meta_apply E (Op_CreateToken ft t hash) db = fst (CreateToken E ft t hash db)"
| "meta_apply E (Op_RevokeToken ft og i) db = fst (RevokeToken ft og i db)"
| "meta_apply E (Op_Audit ft e now) db = fst (Audit ft e now db)"
| "meta_apply E (Op_RateLimitSave ft st) db = fst (RateLimitSave ft st db)"
| "meta_apply E (Op_CreateAlertRule ft r) db = fst (CreateAlertRule E ft r db)"
| "meta_apply E (Op_DeleteAlertRule ft pid rid) db = fst (DeleteAlertRule ft pid rid db)"
| "meta_apply E (Op_UpsertIssue ft u) db = fst (db_UpsertIssue E ft u db)"
| "meta_apply E (Op_SetIssueStatus ft pid i st) db = fst (db_Issue ft (\<lambda>t ok. SetIssueStatus t ok pid i st) db)"
| "meta_apply E (Op_MergeIssues ft pid tgt srcs) db = fst (db_Issue ft (\<lambda>t ok. MergeIssues t ok pid tgt srcs) db)"
| "meta_apply E (Op_SplitIssue ft pid src) db = fst (db_Issue ft (\<lambda>t ok. SplitIssue t ok pid src) db)"

definition meta_run :: "sql_env \<Rightarrow> meta_op list \<Rightarrow> meta_db \<Rightarrow> meta_db" where
  "meta_run E ops db = fold (meta_apply E) ops db"

lemma limits_reset_inv: "meta_inv db \<Longrightarrow> meta_inv (db\<lparr>db_limits := []\<rparr>)"
  by (simp add: meta_inv_defs id_sets)

lemmas write_inv = db_Write_keeps [where P = meta_inv]

lemma meta_apply_inv:
  assumes "sql_ok E" and "meta_inv db"
  shows "meta_inv (meta_apply E op db)"
proof (cases op)
  case (Op_CreateOrg ft name)
  then show ?thesis using insert_org_inv [OF assms] by (auto simp: CreateOrg_def intro!: write_inv assms(2))
next
  case (Op_CreateUser ft og email hash role)
  then show ?thesis using insert_user_inv [OF assms] by (auto simp: CreateUser_def Let_def intro!: write_inv assms(2))
next
  case (Op_CreateSession ft sid uid ttl now)
  then show ?thesis using insert_session_inv [OF assms(2)] by (auto simp: CreateSession_def intro!: write_inv assms(2))
next
  case (Op_RevokeSession ft sid)
  then show ?thesis by (auto simp: RevokeSession_def intro!: write_inv assms(2) sessions_map_inv)
next
  case (Op_RevokeUserSessions ft uid)
  then show ?thesis by (auto simp: RevokeUserSessions_def intro!: write_inv assms(2) sessions_map_inv)
next
  case (Op_CreateToken ft t hash)
  then show ?thesis using insert_token_inv [OF assms] by (auto simp: CreateToken_def intro!: write_inv assms(2))
next
  case (Op_RevokeToken ft og i)
  then show ?thesis by (auto simp: RevokeToken_def Let_def split: if_splits intro!: write_inv assms(2) tokens_map_inv)
next
  case (Op_Audit ft e now)
  then show ?thesis by (auto simp: Audit_def Let_def audit_inv intro!: write_inv assms(2))
next
  case (Op_RateLimitSave ft st)
  then show ?thesis using insert_limits_inv [OF limits_reset_inv [OF assms(2)]] by (auto simp: RateLimitSave_def intro!: write_inv assms(2))
next
  case (Op_CreateAlertRule ft r)
  then show ?thesis using insert_rule_inv [OF assms] by (auto simp: CreateAlertRule_def assms(2) intro!: write_inv)
next
  case (Op_DeleteAlertRule ft pid rid)
  then show ?thesis by (auto simp: DeleteAlertRule_def Let_def split: if_splits intro!: write_inv assms(2) rules_filter_inv)
next
  case (Op_SetIssueStatus ft pid i st)
  then show ?thesis using meta_inv_issues [OF assms(2)]
    by (auto simp: tenants_known_def intro!: db_Issue_inv assms(2) SetIssueStatus_inv)
next
  case (Op_MergeIssues ft pid tgt srcs)
  then show ?thesis using meta_inv_issues [OF assms(2)]
    by (auto simp: tenants_known_def intro!: db_Issue_inv assms(2) MergeIssues_inv)
next
  case (Op_SplitIssue ft pid src)
  then show ?thesis using meta_inv_issues [OF assms(2)]
    by (auto simp: tenants_known_def intro!: db_Issue_inv assms(2) SplitIssue_inv)
qed (simp_all add: Bootstrap_inv CreateProject_inv db_UpsertIssue_inv assms)

lemma meta_run_inv: "sql_ok E \<Longrightarrow> meta_inv db \<Longrightarrow> meta_inv (meta_run E ops db)"
  unfolding meta_run_def by (induction ops arbitrary: db) (simp_all add: meta_apply_inv)

lemma empty_db_inv: "meta_inv empty_db"
  by (simp add: meta_inv_defs empty_db_def issues_inv_def one_hop_def)

lemma find_distinct:
  assumes "distinct (map f rows)" and "r \<in> set rows" and "P r" and "\<And>x. x \<in> set rows \<Longrightarrow> P x \<Longrightarrow> f x = f r"
  shows "find P rows = Some r"
proof (cases "find P rows")
  case None
  with assms(2,3) show ?thesis by (auto simp: find_None_iff)
next
  case (Some x)
  then have "x \<in> set rows" "P x" by (auto simp: find_Some_iff)
  with assms Some show ?thesis by (auto simp: distinct_map dest: inj_onD)
qed

text \<open>
  C7. Whatever sequence of operations runs on a new database, whichever of them fail, and whichever row ids the engine picks, the tables
  stay consistent, and so a project key always leads to one project and to the organisation that owns it.
\<close>
theorem metadata_stays_consistent:
  assumes "sql_ok E"
  shows "meta_inv (meta_run E ops empty_db) \<and>
    (\<forall>pub key. LookupKey True (meta_run E ops empty_db) pub = Inr key \<longrightarrow>
       pk_Active key \<and> ProjectOrg True (meta_run E ops empty_db) (pk_ProjectID key) = Inr (pk_OrgID key))"
proof -
  let ?db = "meta_run E ops empty_db"
  have inv: "meta_inv ?db" by (rule meta_run_inv [OF assms empty_db_inv])
  have "pk_Active key \<and> ProjectOrg True ?db (pk_ProjectID key) = Inr (pk_OrgID key)" if "LookupKey True ?db pub = Inr key" for pub key
  proof -
    from that have k: "key \<in> set (db_keys ?db)" "pk_Active key" by (auto simp: LookupKey_def find_Some_iff split: option.splits)
    with inv obtain p where p: "p \<in> set (db_projects ?db)" "pj_ID p = pk_ProjectID key" "pj_OrgID p = pk_OrgID key"
      unfolding meta_inv_def keys_ok_def by blast
    have "find (\<lambda>x. pj_ID x = pk_ProjectID key) (db_projects ?db) = Some p"
      by (rule find_distinct [where f = pj_ID]) (use inv p in \<open>simp_all add: meta_inv_def tenants_ok_def\<close>)
    with p k show ?thesis by (simp add: ProjectOrg_def)
  qed
  with inv show ?thesis by blast
qed

definition sample_ops :: "meta_op list" where
  "sample_ops = [Op_Bootstrap Runs [1, 2] ''My Org'' ''Web'', Op_CreateUser Runs 1 '' Ann@x.io '' ''h'' ''admin'', Op_CreateSession Runs ''s1'' 1 100 50]"

definition sample_db :: meta_db where
  "sample_db = empty_db\<lparr>db_orgs := [\<lparr>og_ID = 1, og_Slug = ''my-org'', og_Name = ''My Org''\<rparr>],
     db_projects := [\<lparr>pj_ID = 1, pj_OrgID = 1, pj_Slug = ''web'', pj_Name = ''Web'', pj_Platform = []\<rparr>],
     db_keys := [\<lparr>pk_ID = 1, pk_ProjectID = 1, pk_OrgID = 1, pk_PublicKey = ''0102'', pk_Active = True\<rparr>],
     db_users := [\<lparr>us_ID = 1, us_OrgID = 1, us_Email = ''ann@x.io'', us_PasswordHash = ''h'', us_Role = ''admin''\<rparr>],
     db_sessions := [\<lparr>ss_ID = ''s1'', ss_UserID = 1, ss_ExpiresAt = 150, ss_Revoked = False\<rparr>]\<rparr>"

lemma sample_meta_run: "meta_run std_sql sample_ops empty_db = sample_db"
  by code_simp

theorem metadata_stays_consistent_witness:
  "meta_inv sample_db \<and> ProjectOrg True sample_db 1 = Inr 1"
proof -
  have "LookupKey True sample_db ''0102'' = Inr \<lparr>pk_ID = 1, pk_ProjectID = 1, pk_OrgID = 1, pk_PublicKey = ''0102'', pk_Active = True\<rparr>"
    by code_simp
  moreover note w = metadata_stays_consistent [OF std_sql_ok, of sample_ops, unfolded sample_meta_run]
  ultimately have "ProjectOrg True sample_db 1 = Inr 1" using w [THEN conjunct2, rule_format, of "''0102''"] by simp
  with w show ?thesis by blast
qed

section \<open>Sessions\<close>

text \<open>A write is executed although its caller has stopped waiting.\<close>

definition executes :: "tx_fate \<Rightarrow> bool" where "executes ft \<longleftrightarrow> ft = Runs \<or> ft = CancelledAfter"

fun revokes :: "string \<Rightarrow> int \<Rightarrow> meta_op \<Rightarrow> bool" where
  "revokes sid uid (Op_RevokeSession ft sid') = (executes ft \<and> sid = sid')"
| "revokes sid uid (Op_RevokeUserSessions ft uid') = (executes ft \<and> uid = uid')"
| "revokes sid uid _ = False"

definition session_is :: "session_row \<Rightarrow> User \<Rightarrow> meta_db \<Rightarrow> bool" where
  "session_is s u db \<longleftrightarrow> s \<in> set (db_sessions db) \<and> u \<in> set (db_users db) \<and> us_ID u = ss_UserID s"

lemma db_Write_total: "fst (db_Write ft (\<lambda>db. Inr (g db, x)) db) = (if executes ft then g db else db)"
  by (cases ft) (simp_all add: db_Write_def execTx_def executes_def)

lemma revoke_where:
  assumes "session_is s u db"
  shows "session_is (s\<lparr>ss_Revoked := (ss_Revoked s \<or> executes ft \<and> P s)\<rparr>) u
    (if executes ft then db\<lparr>db_sessions := map (\<lambda>s. if P s then s\<lparr>ss_Revoked := True\<rparr> else s) (db_sessions db)\<rparr> else db)"
proof -
  let ?f = "\<lambda>s :: session_row. if P s then s\<lparr>ss_Revoked := True\<rparr> else s"
  have "?f s \<in> set (map ?f (db_sessions db))" using assms unfolding session_is_def set_map by blast
  then have "session_is (?f s) u (db\<lparr>db_sessions := map ?f (db_sessions db)\<rparr>)" using assms by (simp add: session_is_def del: set_map)
  with assms show ?thesis by (cases "P s"; cases "executes ft") simp_all
qed

text \<open>Only the two revocations change sessions; no operation changes or removes a user.\<close>

lemma insert_grows:
  "insert_org E slug name db = Inr (db', i) \<Longrightarrow> session_is s u db \<Longrightarrow> session_is s u db'"
  "insert_project E og slug name plat db = Inr (db', i) \<Longrightarrow> session_is s u db \<Longrightarrow> session_is s u db'"
  "insert_key E pid og pub db = Inr (db', i) \<Longrightarrow> session_is s u db \<Longrightarrow> session_is s u db'"
  "insert_user E og email hash role db = Inr (db', i) \<Longrightarrow> session_is s u db \<Longrightarrow> session_is s u db'"
  "insert_session sid uid ex db = Inr (db', n) \<Longrightarrow> session_is s u db \<Longrightarrow> session_is s u db'"
  "insert_token E og uid name hash perms ex db = Inr (db', i) \<Longrightarrow> session_is s u db \<Longrightarrow> session_is s u db'"
  "insert_rule E r db = Inr (db', i) \<Longrightarrow> session_is s u db \<Longrightarrow> session_is s u db'"
  by (auto simp: insert_org_def insert_project_def insert_key_def insert_user_def insert_session_def insert_token_def insert_rule_def Let_def session_is_def
      split: if_splits)

lemma insert_limits_grows: "insert_limits st db = Inr (db', n) \<Longrightarrow> session_is s u db \<Longrightarrow> session_is s u db'"
  by (induction st db rule: insert_limits.induct) (auto simp: session_is_def split: if_splits)

lemma Bootstrap_grows: "session_is s u db \<Longrightarrow> session_is s u (fst (Bootstrap E ft rnd oname pname db))"
  unfolding Bootstrap_def
  by (rule db_Write_keeps [where P = "session_is s u"])
    (auto simp: boot_org_def boot_project_def boot_key_def insert_grows split: sum.splits option.splits prod.splits)

lemma CreateProject_grows: "session_is s u db \<Longrightarrow> session_is s u (fst (CreateProject E ft rnd og name plat db))"
  unfolding CreateProject_def
  by (rule db_Write_keeps [where P = "session_is s u"]) (auto simp: insert_grows split: sum.splits prod.splits)

lemma write_grows:
  assumes "session_is s u db" and "\<And>db' x. fn db = Inr (db', x) \<Longrightarrow> session_is s u db'"
  shows "session_is s u (fst (db_Write ft fn db))"
  by (rule db_Write_keeps [where P = "session_is s u"]) (use assms in auto)

lemma session_step:
  assumes "session_is s u db"
  shows "session_is (s\<lparr>ss_Revoked := (ss_Revoked s \<or> revokes (ss_ID s) (ss_UserID s) op)\<rparr>) u (meta_apply E op db)"
proof (cases op)
  case (Op_RevokeSession ft sid)
  then show ?thesis using revoke_where [OF assms, of ft "\<lambda>s. ss_ID s = sid"] by (simp add: RevokeSession_def db_Write_total split del: if_split)
next
  case (Op_RevokeUserSessions ft uid)
  then show ?thesis using revoke_where [OF assms, of ft "\<lambda>s. ss_UserID s = uid"] by (simp add: RevokeUserSessions_def db_Write_total split del: if_split)
next
  case (Op_RateLimitSave ft st)
  have "session_is s u (db\<lparr>db_limits := []\<rparr>)" using assms by (simp add: session_is_def)
  from insert_limits_grows [OF _ this] have "session_is s u (fst (RateLimitSave ft st db))" unfolding RateLimitSave_def by (blast intro: write_grows assms)
  with Op_RateLimitSave show ?thesis by simp
next
  case (Op_CreateSession ft sid uid ttl now)
  have "session_is s u (fst (CreateSession ft sid uid ttl now db))" unfolding CreateSession_def by (blast intro: write_grows assms insert_grows(5))
  with Op_CreateSession show ?thesis by simp
next
  case (Op_RevokeToken ft og i)
  have "session_is s u (fst (RevokeToken ft og i db))" unfolding RevokeToken_def Let_def
    by (rule write_grows [OF assms]) (use assms in \<open>auto simp: session_is_def split: if_splits\<close>)
  with Op_RevokeToken show ?thesis by simp
next
  case (Op_DeleteAlertRule ft pid i)
  have "session_is s u (fst (DeleteAlertRule ft pid i db))" unfolding DeleteAlertRule_def Let_def
    by (rule write_grows [OF assms]) (use assms in \<open>auto simp: session_is_def split: if_splits\<close>)
  with Op_DeleteAlertRule show ?thesis by simp
next
  case (Op_Audit ft e now)
  then show ?thesis using assms by (simp add: Audit_def Let_def db_Write_total) (simp add: session_is_def)
qed (use assms in \<open>simp_all add: Bootstrap_grows CreateProject_grows CreateUser_def CreateAlertRule_def CreateOrg_def CreateSession_def CreateToken_def
       Let_def write_grows insert_grows\<close>, simp_all add: db_UpsertIssue_def db_Issue_fst Let_def session_is_def)

lemma session_run:
  "session_is s u db \<Longrightarrow> session_is (s\<lparr>ss_Revoked := (ss_Revoked s \<or> list_ex (revokes (ss_ID s) (ss_UserID s)) ops)\<rparr>) u (meta_run E ops db)"
proof (induction ops arbitrary: s db)
  case (Cons op ops)
  from Cons.IH [OF session_step [OF Cons.prems, of op E]] show ?case by (simp add: meta_run_def disj_assoc)
qed (simp add: meta_run_def)

lemma filter_distinct:
  assumes "distinct (map f rows)" and "r \<in> set rows" and "\<And>x. P x \<longleftrightarrow> f x = f r \<and> Q x"
  shows "filter P rows = (if Q r then [r] else [])"
  using assms(1,2)
proof (induction rows)
  case (Cons a rows)
  have none: "filter P rows = []" if "f r \<notin> f ` set rows" unfolding filter_empty_conv assms(3) using that by (metis image_eqI)
  have pa: "P a \<longleftrightarrow> f a = f r \<and> Q a" by (rule assms(3))
  show ?case
  proof (cases "r = a")
    case True
    with Cons.prems none show ?thesis by (simp add: pa)
  next
    case False
    with Cons.prems have "f a \<noteq> f r" "r \<in> set rows" by auto
    with Cons.IH Cons.prems(1) show ?thesis by (simp add: pa)
  qed
qed simp

lemma SessionUser_is:
  assumes "meta_inv db" and "session_is s u db"
  shows "SessionUser True db (ss_ID s) now = (if \<not> ss_Revoked s \<and> now < ss_ExpiresAt s then Inr u else Inl NotFound)"
proof -
  have "filter (\<lambda>x. ss_ID x = ss_ID s \<and> \<not> ss_Revoked x \<and> now < ss_ExpiresAt x) (db_sessions db) = (if \<not> ss_Revoked s \<and> now < ss_ExpiresAt s then [s] else [])"
    by (rule filter_distinct [where f = ss_ID]) (use assms in \<open>simp_all add: meta_inv_def accounts_ok_def session_is_def\<close>)
  moreover have "filter (\<lambda>x. us_ID x = ss_UserID s) (db_users db) = (if True then [u] else [])"
    by (rule filter_distinct [where f = us_ID]) (use assms in \<open>simp_all add: meta_inv_def accounts_ok_def session_is_def\<close>)
  ultimately show ?thesis by (simp add: SessionUser_def)
qed

text \<open>
  C8. A session lives exactly until it expires or is revoked. Create one for a user, then run any operations: looking it up at time \<open>now\<close>
  gives that user if \<open>now\<close> is before the expiry and no revocation of the session, or of all sessions of the user, was executed
  since, and nothing otherwise. A revocation whose caller gave up waiting counts as well.
\<close>
theorem session_lives:
  assumes "sql_ok E" and "meta_inv db" and "UserByID True db uid = Inr u" and "CreateSession Runs sid uid ttl t0 db = (db1, Inr ())"
  shows "SessionUser True (meta_run E ops db1) sid now =
    (if now < t0 + ttl \<and> \<not> list_ex (revokes sid uid) ops then Inr u else Inl NotFound)"
proof -
  have u: "u \<in> set (db_users db)" "us_ID u = uid" using assms(3) by (auto simp: UserByID_def find_Some_iff split: option.splits)
  have c: "insert_session sid uid (t0 + ttl) db = Inr (db1, ())"
    using assms(4) by (auto simp: CreateSession_def db_Write_def execTx_def split: sum.splits)
  define s where "s = \<lparr>ss_ID = sid, ss_UserID = uid, ss_ExpiresAt = t0 + ttl, ss_Revoked = False\<rparr>"
  have s: "session_is s u db1" using c u by (auto simp: insert_session_def session_is_def s_def split: if_splits)
  have "meta_inv (meta_run E ops db1)" by (rule meta_run_inv [OF assms(1) insert_session_inv [OF assms(2) c]])
  from SessionUser_is [OF this session_run [OF s]] show ?thesis by (simp add: s_def)
qed

theorem session_lives_witness:
  "SessionUser True (meta_run std_sql [Op_RevokeSession CancelledAfter ''s1''] sample_db) ''s1'' 60 = Inl NotFound \<and>
   SessionUser True (meta_run std_sql [Op_RevokeSession CancelledBefore ''s1''] sample_db) ''s1'' 60 =
     Inr \<lparr>us_ID = 1, us_OrgID = 1, us_Email = ''ann@x.io'', us_PasswordHash = ''h'', us_Role = ''admin''\<rparr>"
proof -
  define db where "db = sample_db\<lparr>db_sessions := []\<rparr>"
  define u where "u = \<lparr>us_ID = 1, us_OrgID = 1, us_Email = ''ann@x.io'', us_PasswordHash = ''h'', us_Role = ''admin''\<rparr>"
  have inv: "meta_inv db"
    using meta_run_inv [OF std_sql_ok empty_db_inv, of sample_ops] unfolding sample_meta_run by (auto simp: db_def meta_inv_defs id_sets)
  have u: "UserByID True db 1 = Inr u" by (simp add: db_def sample_db_def UserByID_def u_def)
  have c: "CreateSession Runs ''s1'' 1 100 50 db = (sample_db, Inr ())"
    by (simp add: db_def sample_db_def CreateSession_def db_Write_def execTx_def insert_session_def)
  note l = session_lives [OF std_sql_ok inv u c]
  show ?thesis unfolding l by (simp add: executes_def u_def)
qed

section \<open>Tokens\<close>

text \<open>Splitting at commas undoes joining with them.\<close>

lemma str_index_comma: "CHR '','' \<notin> set p \<Longrightarrow> str_index (p @ CHR '','' # r) '','' = Some (length p)"
  by (induction p) simp_all

lemma str_index_no_comma: "CHR '','' \<notin> set p \<Longrightarrow> str_index p '','' = None"
  by (induction p) simp_all

lemma split_join_comma:
  "ps \<noteq> [] \<Longrightarrow> \<forall>p \<in> set ps. CHR '','' \<notin> set p \<Longrightarrow> split_on '','' (join_comma ps) = ps"
proof (induction ps rule: join_comma.induct)
  case (2 p)
  then show ?case by (subst split_on.simps) (simp add: str_index_no_comma)
next
  case (3 p q ps)
  then show ?case by (subst split_on.simps) (simp add: str_index_comma)
qed simp

lemma join_comma_Nil: "join_comma ps = [] \<longleftrightarrow> ps = [] \<or> ps = [[]]"
  by (cases ps rule: join_comma.cases) auto

lemma TokenByHash_is:
  assumes "meta_inv db" and "t \<in> set (db_tokens db)" and "u \<in> set (db_users db)" and "us_ID u = tr_UserID t"
  shows "TokenByHash True db (tr_Hash t) now =
    (if \<not> tr_Revoked t \<and> (tr_ExpiresAt t = 0 \<or> now < tr_ExpiresAt t)
     then Inr (\<lparr>tk_ID = tr_ID t, tk_OrgID = tr_OrgID t, tk_UserID = tr_UserID t, tk_Name = tr_Name t,
       tk_Permissions = (if tr_Permissions t \<noteq> [] then split_on '','' (tr_Permissions t) else []), tk_ExpiresAt = tr_ExpiresAt t\<rparr>, u)
     else Inl NotFound)"
proof -
  have "filter (\<lambda>x. tr_Hash x = tr_Hash t \<and> \<not> tr_Revoked x \<and> (tr_ExpiresAt x = 0 \<or> now < tr_ExpiresAt x)) (db_tokens db) =
      (if \<not> tr_Revoked t \<and> (tr_ExpiresAt t = 0 \<or> now < tr_ExpiresAt t) then [t] else [])"
    by (rule filter_distinct [where f = tr_Hash]) (use assms in \<open>simp_all add: meta_inv_def accounts_ok_def\<close>)
  moreover have "filter (\<lambda>x. us_ID x = tr_UserID t) (db_users db) = (if True then [u] else [])"
    by (rule filter_distinct [where f = us_ID]) (use assms in \<open>simp_all add: meta_inv_def accounts_ok_def\<close>)
  ultimately show ?thesis by (simp add: TokenByHash_def)
qed

lemma token_back:
  assumes "sql_ok E" and "meta_inv db" and "UserByID True db (tk_UserID t) = Inr u"
    and "CreateToken E Runs t hash db = (db1, Inr i)" and "\<forall>p \<in> set (tk_Permissions t). CHR '','' \<notin> set p"
  shows "TokenByHash True db1 hash now =
    (if tk_ExpiresAt t = 0 \<or> now < tk_ExpiresAt t
     then Inr (t\<lparr>tk_ID := i, tk_Permissions := (if tk_Permissions t = [[]] then [] else tk_Permissions t)\<rparr>, u)
     else Inl NotFound)"
proof -
  have u: "u \<in> set (db_users db)" "us_ID u = tk_UserID t" using assms(3) by (auto simp: UserByID_def find_Some_iff split: option.splits)
  have c: "insert_token E (tk_OrgID t) (tk_UserID t) (tk_Name t) hash (join_comma (tk_Permissions t)) (tk_ExpiresAt t) db = Inr (db1, i)"
    using assms(4) by (auto simp: CreateToken_def db_Write_def execTx_def split: sum.splits)
  define r where "r = \<lparr>tr_ID = i, tr_OrgID = tk_OrgID t, tr_UserID = tk_UserID t, tr_Name = tk_Name t, tr_Hash = hash,
    tr_Permissions = join_comma (tk_Permissions t), tr_ExpiresAt = tk_ExpiresAt t, tr_Revoked = False\<rparr>"
  have r: "r \<in> set (db_tokens db1)" "u \<in> set (db_users db1)" using c u by (auto simp: insert_token_def Let_def r_def split: if_splits)
  have split: "(if join_comma (tk_Permissions t) \<noteq> [] then split_on '','' (join_comma (tk_Permissions t)) else []) =
      (if tk_Permissions t = [[]] then [] else tk_Permissions t)"
    using split_join_comma [OF _ assms(5)] by (auto simp: join_comma_Nil)
  have eq: "\<lparr>tk_ID = tr_ID r, tk_OrgID = tr_OrgID r, tk_UserID = tr_UserID r, tk_Name = tr_Name r,
      tk_Permissions = (if tr_Permissions r \<noteq> [] then split_on '','' (tr_Permissions r) else []), tk_ExpiresAt = tr_ExpiresAt r\<rparr> =
    t\<lparr>tk_ID := i, tk_Permissions := (if tk_Permissions t = [[]] then [] else tk_Permissions t)\<rparr>"
    unfolding r_def token_row.simps split by (rule APIToken.equality) simp_all
  have "us_ID u = tr_UserID r" using u by (simp add: r_def)
  from TokenByHash_is [OF insert_token_inv [OF assms(1,2) c] r this, of now] show ?thesis unfolding eq by (simp add: r_def)
qed

text \<open>What becomes of a permission list in its comma-separated column.\<close>

definition perms_back :: "string list \<Rightarrow> string list" where
  "perms_back ps = (if ps = [] \<or> ps = [[]] then [] else concat (map (split_on '','') ps))"

lemma str_index_append: "str_index (a @ b) '','' = (case str_index a '','' of Some i \<Rightarrow> Some i | None \<Rightarrow> map_option (\<lambda>j. length a + j) (str_index b '',''))"
  by (induction a) (cases "str_index b '',''"; auto split: option.splits)+

lemma split_on_append: "split_on '','' (a @ CHR '','' # b) = split_on '','' a @ split_on '','' b"
proof (induction "length a" arbitrary: a rule: less_induct)
  case less
  show ?case
  proof (cases "str_index a '',''")
    case None
    then have i: "str_index (a @ CHR '','' # b) '','' = Some (length a)" by (simp add: str_index_append)
    show ?thesis by (subst split_on.simps, subst (2) split_on.simps) (simp add: i None)
  next
    case (Some k)
    then have i: "str_index (a @ CHR '','' # b) '','' = Some k" by (simp add: str_index_append)
    from str_index_Some [OF Some] have k: "k < length a" by (auto simp: prefix_def dest: arg_cong [of _ _ length])
    then have "split_on '','' (drop (Suc k) a @ CHR '','' # b) = split_on '','' (drop (Suc k) a) @ split_on '','' b" by (intro less) simp
    with k show ?thesis by (subst split_on.simps, subst (2) split_on.simps) (simp add: i Some)
  qed
qed

lemma perms_back_stored: "(if join_comma ps \<noteq> [] then split_on '','' (join_comma ps) else []) = perms_back ps"
proof -
  have "ps \<noteq> [] \<Longrightarrow> split_on '','' (join_comma ps) = concat (map (split_on '','') ps)"
    by (induction ps rule: join_comma.induct) (simp_all add: split_on_append)
  then show ?thesis by (auto simp: perms_back_def join_comma_Nil)
qed

lemma perms_back_plain:
  assumes "\<forall>p \<in> set ps. CHR '','' \<notin> set p"
  shows "perms_back ps = (if ps = [[]] then [] else ps)"
proof (cases "ps = []")
  case False
  then show ?thesis using split_join_comma [OF False assms] perms_back_stored [of ps] by (auto simp: join_comma_Nil)
qed (simp add: perms_back_def)

text \<open>Only the revocation of a token changes its row; no operation removes it or its user.\<close>

fun revokes_token :: "int \<Rightarrow> int \<Rightarrow> meta_op \<Rightarrow> bool" where
  "revokes_token og i (Op_RevokeToken ft og' i') = (executes ft \<and> og = og' \<and> i = i')"
| "revokes_token og i _ = False"

definition token_is :: "token_row \<Rightarrow> User \<Rightarrow> meta_db \<Rightarrow> bool" where
  "token_is t u db \<longleftrightarrow> t \<in> set (db_tokens db) \<and> u \<in> set (db_users db) \<and> us_ID u = tr_UserID t"

lemma insert_keeps_token:
  "insert_org E slug name db = Inr (db', i) \<Longrightarrow> token_is t u db \<Longrightarrow> token_is t u db'"
  "insert_project E og slug name plat db = Inr (db', i) \<Longrightarrow> token_is t u db \<Longrightarrow> token_is t u db'"
  "insert_key E pid og pub db = Inr (db', i) \<Longrightarrow> token_is t u db \<Longrightarrow> token_is t u db'"
  "insert_user E og email hash role db = Inr (db', i) \<Longrightarrow> token_is t u db \<Longrightarrow> token_is t u db'"
  "insert_session sid uid ex db = Inr (db', n) \<Longrightarrow> token_is t u db \<Longrightarrow> token_is t u db'"
  "insert_token E og uid name hash perms ex db = Inr (db', i) \<Longrightarrow> token_is t u db \<Longrightarrow> token_is t u db'"
  "insert_rule E r db = Inr (db', i) \<Longrightarrow> token_is t u db \<Longrightarrow> token_is t u db'"
  by (auto simp: insert_org_def insert_project_def insert_key_def insert_user_def insert_session_def insert_token_def insert_rule_def Let_def token_is_def
      split: if_splits)

lemma insert_limits_keeps_token: "insert_limits st db = Inr (db', n) \<Longrightarrow> token_is t u db \<Longrightarrow> token_is t u db'"
  by (induction st db rule: insert_limits.induct) (auto simp: token_is_def split: if_splits)

lemma write_keeps_token:
  assumes "token_is t u db" and "\<And>db' x. fn db = Inr (db', x) \<Longrightarrow> token_is t u db'"
  shows "token_is t u (fst (db_Write ft fn db))"
  by (rule db_Write_keeps [where P = "token_is t u"]) (use assms in auto)

lemma boots_keep_token:
  assumes "token_is t u db"
  shows "token_is t u (fst (Bootstrap E ft rnd on pn db))" and "token_is t u (fst (CreateProject E ft rnd og name plat db))"
proof -
  show "token_is t u (fst (Bootstrap E ft rnd on pn db))" unfolding Bootstrap_def
    by (rule write_keeps_token [OF assms])
      (use assms in \<open>auto simp: boot_org_def boot_project_def boot_key_def insert_keeps_token split: sum.splits option.splits prod.splits\<close>)
  show "token_is t u (fst (CreateProject E ft rnd og name plat db))" unfolding CreateProject_def
    by (rule write_keeps_token [OF assms]) (use assms in \<open>auto simp: insert_keeps_token split: sum.splits prod.splits\<close>)
qed

lemma RevokeToken_marks:
  assumes "token_is t u db"
  shows "token_is (t\<lparr>tr_Revoked := (tr_Revoked t \<or> executes ft \<and> tr_OrgID t = og \<and> tr_ID t = i)\<rparr>) u (fst (RevokeToken ft og i db))"
proof -
  let ?P = "\<lambda>t. tr_ID t = i \<and> tr_OrgID t = og"
  let ?f = "\<lambda>t :: token_row. if ?P t then t\<lparr>tr_Revoked := True\<rparr> else t"
  have t: "t \<in> set (db_tokens db)" using assms by (simp add: token_is_def)
  have m: "token_is (?f t) u (db\<lparr>db_tokens := map ?f (db_tokens db)\<rparr>)"
    using assms t imageI [OF t, of ?f] by (auto simp: token_is_def)
  have "fst (RevokeToken ft og i db) =
      (if executes ft \<and> list_ex ?P (db_tokens db) then db\<lparr>db_tokens := map ?f (db_tokens db)\<rparr> else db)"
    by (cases ft) (simp_all add: RevokeToken_def Let_def db_Write_def execTx_def executes_def)
  moreover have "?P t \<Longrightarrow> list_ex ?P (db_tokens db)" using t by (auto simp: list_ex_iff)
  moreover have "tr_Revoked t \<Longrightarrow> t\<lparr>tr_Revoked := True\<rparr> = t" by simp
  ultimately show ?thesis using m assms by (cases "?P t"; cases "executes ft") (auto split: if_splits)
qed

lemma token_step:
  assumes "token_is t u db"
  shows "token_is (t\<lparr>tr_Revoked := (tr_Revoked t \<or> revokes_token (tr_OrgID t) (tr_ID t) op)\<rparr>) u (meta_apply E op db)"
proof (cases op)
  case (Op_RevokeToken ft og i)
  then show ?thesis using RevokeToken_marks [OF assms, of ft og i] by simp
next
  case (Op_RateLimitSave ft st)
  have "token_is t u (db\<lparr>db_limits := []\<rparr>)" using assms by (simp add: token_is_def)
  from insert_limits_keeps_token [OF _ this] have "token_is t u (fst (RateLimitSave ft st db))"
    unfolding RateLimitSave_def by (blast intro: write_keeps_token assms)
  with Op_RateLimitSave show ?thesis by simp
next
  case (Op_CreateSession ft sid uid ttl now)
  have "token_is t u (fst (CreateSession ft sid uid ttl now db))" unfolding CreateSession_def by (blast intro: write_keeps_token assms insert_keeps_token(5))
  with Op_CreateSession show ?thesis by simp
next
  case (Op_DeleteAlertRule ft pid i)
  have "token_is t u (fst (DeleteAlertRule ft pid i db))" unfolding DeleteAlertRule_def Let_def
    by (rule write_keeps_token [OF assms]) (use assms in \<open>auto simp: token_is_def split: if_splits\<close>)
  with Op_DeleteAlertRule show ?thesis by simp
next
  case (Op_RevokeSession ft sid)
  then show ?thesis using assms by (simp add: RevokeSession_def db_Write_total) (simp add: token_is_def)
next
  case (Op_RevokeUserSessions ft uid)
  then show ?thesis using assms by (simp add: RevokeUserSessions_def db_Write_total) (simp add: token_is_def)
next
  case (Op_Audit ft e now)
  then show ?thesis using assms by (simp add: Audit_def Let_def db_Write_total) (simp add: token_is_def)
qed (use assms in \<open>simp_all add: boots_keep_token CreateUser_def CreateAlertRule_def CreateOrg_def CreateToken_def
       Let_def write_keeps_token insert_keeps_token\<close>, simp_all add: db_UpsertIssue_def db_Issue_fst Let_def token_is_def)

lemma token_run:
  "token_is t u db \<Longrightarrow> token_is (t\<lparr>tr_Revoked := (tr_Revoked t \<or> list_ex (revokes_token (tr_OrgID t) (tr_ID t)) ops)\<rparr>) u (meta_run E ops db)"
proof (induction ops arbitrary: t db)
  case (Cons op ops)
  from Cons.IH [OF token_step [OF Cons.prems, of op E]] show ?case by (simp add: meta_run_def disj_assoc)
qed (simp add: meta_run_def)


definition sample_token :: "string list \<Rightarrow> APIToken" where
  "sample_token perms = \<lparr>tk_ID = 0, tk_OrgID = 1, tk_UserID = 1, tk_Name = ''ci'', tk_Permissions = perms, tk_ExpiresAt = 0\<rparr>"

lemma sample_db_inv: "meta_inv sample_db"
  using meta_run_inv [OF std_sql_ok empty_db_inv, of sample_ops] unfolding sample_meta_run .


section \<open>First boot\<close>

lemma first_by_single [simp]: "first_by key [r] = Some r" "first_by key [] = None"
  by (simp_all add: first_by_def)

lemma first_by_None: "first_by key rows = None \<longleftrightarrow> rows = []"
  by (auto simp: first_by_def split: list.splits) (metis length_sort list.size(3) length_0_conv)

lemma boot_org_found: "boot_org E on db = Inr (db1, og) \<Longrightarrow> \<exists>o1. first_by og_ID (db_orgs db1) = Some o1 \<and> og_ID o1 = og"
  by (auto simp: boot_org_def insert_org_def first_by_None Let_def split: option.splits if_splits)

lemma boot_project_found:
  assumes "boot_project E og pn db = Inr (db1, p)"
  shows "first_by pj_ID (filter (\<lambda>p. pj_OrgID p = og) (db_projects db1)) = Some p \<and> db_orgs db1 = db_orgs db"
  using assms by (auto simp: boot_project_def insert_project_def first_by_None Let_def split: option.splits if_splits)

lemma boot_key_found:
  assumes "boot_key E rnd pid og db = Inr (db1, k)"
  shows "first_by pk_ID (filter (\<lambda>k. pk_ProjectID k = pid \<and> pk_Active k) (db_keys db1)) = Some k \<and>
    db_orgs db1 = db_orgs db \<and> db_projects db1 = db_projects db"
  using assms by (auto simp: boot_key_def insert_key_def first_by_None Let_def split: option.splits if_splits)

lemma db_Write_Runs: "db_Write Runs fn db = (case fn db of Inl err \<Rightarrow> (db, Inl err) | Inr (db', x) \<Rightarrow> (db', Inr x))"
  by (simp add: db_Write_def execTx_def split: sum.split prod.split)

text \<open>
  The first-boot setup is idempotent: once it has succeeded, a restart, whatever names it is given and whatever random bytes it would
  use for a key, changes nothing and returns the same project and the same key.
\<close>
theorem Bootstrap_idempotent:
  assumes "Bootstrap E Runs rnd oname pname db = (db1, Inr (proj, key))"
  shows "Bootstrap E Runs rnd' oname' pname' db1 = (db1, Inr (proj, key))"
proof -
  from assms obtain a og where a: "boot_org E oname db = Inr (a, og)" by (auto simp: Bootstrap_def db_Write_Runs split: sum.splits)
  with assms obtain b where b: "boot_project E og pname a = Inr (b, proj)" by (auto simp: Bootstrap_def db_Write_Runs split: sum.splits)
  with a assms have k: "boot_key E rnd (pj_ID proj) og b = Inr (db1, key)" by (auto simp: Bootstrap_def db_Write_Runs split: sum.splits)
  from boot_key_found [OF k] boot_project_found [OF b] boot_org_found [OF a] show ?thesis
    by (auto simp: Bootstrap_def db_Write_Runs boot_org_def boot_project_def boot_key_def)
qed

theorem Bootstrap_idempotent_witness:
  "\<exists>db1 proj key. Bootstrap std_sql Runs [1, 2] ''My Org'' ''Web'' empty_db = (db1, Inr (proj, key)) \<and> pk_PublicKey key = ''0102'' \<and>
     Bootstrap std_sql Runs [9] ''Other'' ''App'' db1 = (db1, Inr (proj, key))"
proof -
  define db1 where "db1 = sample_db\<lparr>db_users := [], db_sessions := []\<rparr>"
  define p where "p = \<lparr>pj_ID = 1, pj_OrgID = 1, pj_Slug = ''web'', pj_Name = ''Web'', pj_Platform = []\<rparr>"
  define k where "k = \<lparr>pk_ID = 1, pk_ProjectID = 1, pk_OrgID = 1, pk_PublicKey = ''0102'', pk_Active = True\<rparr>"
  have b: "Bootstrap std_sql Runs [1, 2] ''My Org'' ''Web'' empty_db = (db1, Inr (p, k))" unfolding db1_def p_def k_def by code_simp
  have "pk_PublicKey k = ''0102''" by (simp add: k_def)
  with b Bootstrap_idempotent [OF b, of "[9]" "''Other''" "''App''"] show ?thesis by blast
qed

end
