(* ===== verification/Ingest_Http.thy ===== *)
theory Ingest_Http
  imports Pipeline Cache Metadata
begin

text \<open>
  The ingest endpoints: \<open>internal/ingest/http.go\<close>. One request is one step: the handler's state, the request and
  what the outside world answers (the clock, the key store, the log) give the new state, the response and the record handed to the log.
  The decompressors are a parameter, as is Unicode lower-casing; a response body is the JSON value that is encoded.
\<close>

section \<open>Requests and responses\<close>

record HttpRequest =
  rq_ProjectID :: string
  rq_SentryAuth :: string
  rq_QueryKey :: string
  rq_BasicUser :: "string option"
  rq_Encoding :: string
  rq_Body :: "byte list"
  rq_BodyOK :: bool

record HttpResponse =
  rs_Status :: nat
  rs_Headers :: "(string \<times> string) list"
  rs_JSON :: json

definition writeJSON :: "(string \<times> string) list \<Rightarrow> nat \<Rightarrow> json \<Rightarrow> HttpResponse" where
  "writeJSON hdrs status v = \<lparr>rs_Status = status, rs_Headers = map_put ''Content-Type'' ''application/json'' hdrs, rs_JSON = v\<rparr>"

definition jsonError :: "(string \<times> string) list \<Rightarrow> nat \<Rightarrow> string \<Rightarrow> HttpResponse" where
  "jsonError hdrs status msg = writeJSON hdrs status (JObj [(''detail'', JStr msg)])"

section \<open>Bodies\<close>

text \<open>
  A reader is the bytes it delivers and how it ends; \<open>bs_joint\<close> says that the end is reported together with the last bytes and
  not by a read of its own.
\<close>

datatype stream_end = StreamEOF | StreamTooLarge | StreamError

record byte_stream =
  bs_bytes :: "byte list"
  bs_end :: stream_end
  bs_joint :: bool

definition MaxBytesReader :: "int \<Rightarrow> byte_stream \<Rightarrow> byte_stream" where
  "MaxBytesReader n s =
     (if int (length (bs_bytes s)) \<le> n then s else \<lparr>bs_bytes = take (nat n) (bs_bytes s), bs_end = StreamTooLarge, bs_joint = True\<rparr>)"

text \<open>\<open>io.ReadAll(io.LimitReader(rd, n))\<close>: an end past the limit is not seen.\<close>

definition read_limited :: "int \<Rightarrow> byte_stream \<Rightarrow> byte list \<times> stream_end" where
  "read_limited n s =
     (if int (length (bs_bytes s)) < n \<or> int (length (bs_bytes s)) = n \<and> bs_joint s then (bs_bytes s, bs_end s)
      else (take (nat n) (bs_bytes s), StreamEOF))"

text \<open>A decompressor opened on a stream gives the decompressed one, or fails on its header.\<close>

record http_lib =
  hl_ToLower :: "string \<Rightarrow> string"
  hl_gzip :: "byte_stream \<Rightarrow> byte_stream option"
  hl_zlib :: "byte_stream \<Rightarrow> byte_stream option"
  hl_zstd :: "int \<Rightarrow> byte_stream \<Rightarrow> byte_stream option"
  hl_int_of_inf :: int

datatype body_err = BodyMalformed string | BodyTooLarge

definition open_body :: "http_lib \<Rightarrow> Limits \<Rightarrow> string \<Rightarrow> byte_stream \<Rightarrow> body_err + byte_stream" where
  "open_body lib lm enc raw =
     (let opened = (\<lambda>s msg. case s of None \<Rightarrow> Inl (BodyMalformed msg) | Some rd \<Rightarrow> Inr rd) in
      if enc = [] \<or> enc = ''identity'' then Inr raw
      else if enc = ''gzip'' then opened (hl_gzip lib raw) ''bad gzip stream''
      else if enc = ''deflate'' then opened (hl_zlib lib raw) ''bad deflate stream''
      else if enc = ''zstd'' then opened (hl_zstd lib (MaxEnvelopeBytes lm) raw) ''bad zstd stream''
      else Inl (BodyMalformed ''unsupported content-encoding''))"

definition readBody :: "http_lib \<Rightarrow> Limits \<Rightarrow> HttpRequest \<Rightarrow> body_err + byte list" where
  "readBody lib lm r =
     (let raw = MaxBytesReader (MaxEnvelopeBytes lm)
            \<lparr>bs_bytes = rq_Body r, bs_end = (if rq_BodyOK r then StreamEOF else StreamError), bs_joint = False\<rparr> in
      case open_body lib lm (hl_ToLower lib (rq_Encoding r)) raw of
        Inl e \<Rightarrow> Inl e
      | Inr rd \<Rightarrow>
          (case read_limited (MaxEnvelopeBytes lm + 1) rd of
             (body, StreamTooLarge) \<Rightarrow> Inl BodyTooLarge
           | (body, StreamError) \<Rightarrow> Inl (BodyMalformed ''truncated body'')
           | (body, StreamEOF) \<Rightarrow> if MaxEnvelopeBytes lm < int (length body) then Inl BodyTooLarge else Inr body))"

section \<open>Keys\<close>

text \<open>\<open>SplitN(s, "=", 2)\<close> with both parts present.\<close>

definition split_eq :: "string \<Rightarrow> (string \<times> string) option" where
  "split_eq s = (case str_index s ''='' of None \<Rightarrow> None | Some i \<Rightarrow> Some (take i s, drop (i + 1) s))"

fun auth_parts :: "string list \<Rightarrow> string option" where
  "auth_parts [] = None"
| "auth_parts (part # parts) =
     (case split_eq (trim_space part) of
        Some (k, v) \<Rightarrow> if k = ''sentry_key'' then Some (trim_space v) else auth_parts parts
      | None \<Rightarrow> auth_parts parts)"

definition trim_prefix :: "string \<Rightarrow> string \<Rightarrow> string" where
  "trim_prefix p s = (if prefix p s then drop (length p) s else s)"

definition sentryAuthKey :: "HttpRequest \<Rightarrow> string" where
  "sentryAuthKey r =
     (case (if rq_SentryAuth r \<noteq> [] then auth_parts (split_on '','' (trim_prefix ''Sentry '' (rq_SentryAuth r))) else None) of
        Some k \<Rightarrow> k
      | None \<Rightarrow>
          if rq_QueryKey r \<noteq> [] then rq_QueryKey r
          else case rq_BasicUser r of Some user \<Rightarrow> user | None \<Rightarrow> [])"

section \<open>The handler\<close>

record Handler =
  h_pipe :: pipeline
  h_lim :: Limits
  h_keyLRU :: "ProjectKey lru"
  h_limiter :: limiter

definition NewHandler :: "pipeline \<Rightarrow> Limits \<Rightarrow> Handler" where
  "NewHandler pipe lm =
     \<lparr>h_pipe = pipe, h_lim = lim_defaults lm, h_keyLRU = lru_New (4 * 2 ^ 20) (60 * 1000000000), h_limiter = rl_New DefaultLimit 10000\<rparr>"

text \<open>What the clock, the key store and the log answer during one request.\<close>

record http_io =
  hi_get_time :: int
  hi_set_time :: int
  hi_bucket_time :: int
  hi_allow_time :: int
  hi_keys :: "string \<Rightarrow> meta_err + ProjectKey"
  hi_append :: append_res

definition lookupKey :: "Handler \<Rightarrow> http_io \<Rightarrow> string \<Rightarrow> Handler \<times> (meta_err + ProjectKey)" where
  "lookupKey h x pub =
     (case lru_Get (h_keyLRU h) pub (hi_get_time x) of
        (c1, Some k) \<Rightarrow> (h\<lparr>h_keyLRU := c1\<rparr>, Inr k)
      | (c1, None) \<Rightarrow>
          (case hi_keys x pub of
             Inl err \<Rightarrow> (h\<lparr>h_keyLRU := c1\<rparr>, Inl err)
           | Inr k \<Rightarrow>
               (h\<lparr>h_keyLRU := lru_Set c1 pub k (int (length pub + length (pk_PublicKey k)) + 64) (hi_set_time x)\<rparr>, Inr k)))"

definition h_drop :: "Handler \<Rightarrow> string \<Rightarrow> Handler" where
  "h_drop h reason = h\<lparr>h_pipe := pl_drop (h_pipe h) reason\<rparr>"

text \<open>\<open>int(retry.Seconds() + 0.5)\<close>.\<close>

definition retry_secs :: "http_lib \<Rightarrow> int option \<Rightarrow> int" where
  "retry_secs lib retry = (case retry of None \<Rightarrow> hl_int_of_inf lib | Some ns \<Rightarrow> (ns + 500000000) div 1000000000)"

definition probe_EventID :: "byte list \<Rightarrow> string" where
  "probe_EventID body = fst (unmarshal (dec_struct [(''event_id'', dec_string)]) (bytes_str body) [])"

text \<open>Reading the body and submitting it, for a request that may proceed.\<close>

definition accept_body :: "http_lib \<Rightarrow> byte \<Rightarrow> Handler \<Rightarrow> int \<Rightarrow> HttpRequest \<Rightarrow> append_res \<Rightarrow> Handler \<times> HttpResponse \<times> (byte \<times> byte list) option" where
  "accept_body lib kind h projectID r res =
     (case readBody lib (h_lim h) r of
        Inl (BodyMalformed reason) \<Rightarrow> (h_drop h DropMalformed, jsonError [] 400 reason, None)
      | Inl BodyTooLarge \<Rightarrow> (h_drop h DropTooLarge, jsonError [] 413 ''payload too large'', None)
      | Inr body \<Rightarrow>
          (case Submit (h_pipe h) kind projectID body res of
             (p1, Some ErrOverloaded, app) \<Rightarrow>
               (h\<lparr>h_pipe := p1\<rparr>, jsonError [(''Retry-After'', ''30''), (''X-Sentry-Rate-Limits'', ''30::organization'')] 429 ''over quota, retry later'', app)
           | (p1, Some ErrAppend, app) \<Rightarrow> (h\<lparr>h_pipe := p1\<rparr>, jsonError [] 500 ''ingest failure'', app)
           | (p1, None, app) \<Rightarrow>
               (h\<lparr>h_pipe := p1\<rparr>, writeJSON [] 200 (JObj [(''id'', JStr (if kind = recEventJSON then probe_EventID body else []))]), app)))"

definition handle :: "http_lib \<Rightarrow> byte \<Rightarrow> Handler \<Rightarrow> HttpRequest \<Rightarrow> http_io \<Rightarrow> Handler \<times> HttpResponse \<times> (byte \<times> byte list) option" where
  "handle lib kind h r x =
     (case parseInt64 (rq_ProjectID r) of
        None \<Rightarrow> (h, jsonError [] 404 ''unknown project'', None)
      | Some projectID \<Rightarrow>
          let pub = sentryAuthKey r in
          if pub = [] then (h_drop h DropAuth, jsonError [] 401 ''missing sentry_key'', None)
          else
            (case lookupKey h x pub of
               (h1, Inl err) \<Rightarrow> (h_drop h1 DropAuth, jsonError [] 403 ''invalid sentry_key for project'', None)
             | (h1, Inr key) \<Rightarrow>
                 if pk_ProjectID key \<noteq> projectID then (h_drop h1 DropAuth, jsonError [] 403 ''invalid sentry_key for project'', None)
                 else
                   (case Allow (h_limiter h1) projectID (hi_bucket_time x) (hi_allow_time x) of
                      (l2, ok, retry) \<Rightarrow>
                        if \<not> ok then
                          let secs = int_str (retry_secs lib retry) in
                          (h_drop (h1\<lparr>h_limiter := l2\<rparr>) DropOverloaded,
                           jsonError [(''Retry-After'', secs), (''X-Sentry-Rate-Limits'', secs @ ''::project'')] 429 ''project over quota'', None)
                        else accept_body lib kind (h1\<lparr>h_limiter := l2\<rparr>) projectID r (hi_append x))))"

text \<open>The two routes; a pattern that ends in a slash matches everything below it.\<close>

definition route :: "string \<Rightarrow> string list \<Rightarrow> (byte \<times> string) option" where
  "route meth parts =
     (case parts of
        a # pid # ep # _ # _ \<Rightarrow>
          if meth = ''POST'' \<and> a = ''api'' \<and> pid \<noteq> [] then
            if ep = ''envelope'' then Some (recEnvelope, pid) else if ep = ''store'' then Some (recEventJSON, pid) else None
          else None
      | _ \<Rightarrow> None)"

section \<open>Properties\<close>

text \<open>The drop counter of one reason moves, the others do not.\<close>

lemma DropCount_drop: "DropCount (pl_drop p reason) r = DropCount p r + (if r = reason then 1 else 0)"
  by (simp add: pl_drop_def DropCount_def map_of_map_put split: option.split)

lemma lookupKey_pipe: "lookupKey h x pub = (h1, res) \<Longrightarrow> h_pipe h1 = h_pipe h \<and> h_lim h1 = h_lim h \<and> h_limiter h1 = h_limiter h"
  by (auto simp: lookupKey_def split: prod.splits option.splits sum.splits)

lemma Submit_drops:
  "Submit p kind pid body res = (p', err, app) \<Longrightarrow> DropCount p' r = DropCount p r + (if err = Some ErrOverloaded \<and> r = DropOverloaded then 1 else 0)"
  by (auto simp: Submit_def Let_def DropCount_drop split: if_splits append_res.splits) (auto simp: DropCount_def)

definition drop_reason :: "nat \<Rightarrow> string option" where
  "drop_reason status =
     (if status = 401 \<or> status = 403 then Some DropAuth else if status = 429 then Some DropOverloaded
      else if status = 400 then Some DropMalformed else if status = 413 then Some DropTooLarge else None)"

definition counted :: "Handler \<Rightarrow> Handler \<times> HttpResponse \<times> (byte \<times> byte list) option \<Rightarrow> bool" where
  "counted h res \<longleftrightarrow> (case res of (h', resp, app) \<Rightarrow>
     (\<forall>reason. DropCount (h_pipe h') reason = DropCount (h_pipe h) reason + (if drop_reason (rs_Status resp) = Some reason then 1 else 0)) \<and>
     rs_Status resp \<in> {200, 400, 401, 403, 404, 413, 429, 500})"

lemma status_simps [simp]: "rs_Status (jsonError hs s m) = s" "rs_Status (writeJSON hs s v) = s"
  by (simp_all add: jsonError_def writeJSON_def)

lemma drop_reason_simps [simp]:
  "drop_reason 200 = None" "drop_reason 400 = Some DropMalformed" "drop_reason 401 = Some DropAuth" "drop_reason 403 = Some DropAuth"
  "drop_reason 404 = None" "drop_reason 413 = Some DropTooLarge" "drop_reason 429 = Some DropOverloaded" "drop_reason 500 = None"
  by (simp_all add: drop_reason_def)

lemma counted_drop: "h_pipe h1 = h_pipe h \<Longrightarrow> drop_reason s = Some reason \<Longrightarrow> s \<in> {400, 401, 403, 413, 429} \<Longrightarrow> counted h (h_drop h1 reason, jsonError hs s m, app)"
  by (auto simp: counted_def h_drop_def DropCount_drop)

lemma accept_body_counted:
  assumes "h_pipe h1 = h_pipe h"
  shows "counted h (accept_body lib kind h1 pid r res)"
proof (cases "readBody lib (h_lim h1) r")
  case (Inl e)
  then show ?thesis by (cases e) (simp_all add: accept_body_def counted_drop assms)
next
  case (Inr body)
  obtain p' err app where s: "Submit (h_pipe h1) kind pid body res = (p', err, app)" by (cases "Submit (h_pipe h1) kind pid body res") auto
  note d = Submit_drops [OF s]
  show ?thesis
  proof (cases err)
    case None
    with Inr s d assms show ?thesis by (simp add: accept_body_def counted_def)
  next
    case (Some e)
    with Inr s d assms show ?thesis by (cases e) (auto simp: accept_body_def counted_def)
  qed
qed

text \<open>
  Every rejected request is counted once, under the reason its status tells: 401 and 403 under \<open>auth\<close>, 429 under
  \<open>overloaded\<close>, 400 under \<open>malformed\<close>, 413 under \<open>too_large\<close>; no other counter moves, and a request that is accepted, names no
  project, or meets a failing log moves none. The status is always one of these, 404, 500 or 200.
\<close>
theorem rejections_counted: "counted h (handle lib kind h r x)"
proof (cases "parseInt64 (rq_ProjectID r)")
  case None
  then show ?thesis by (simp add: handle_def counted_def)
next
  case (Some pid)
  obtain h1 res where l: "lookupKey h x (sentryAuthKey r) = (h1, res)" by (cases "lookupKey h x (sentryAuthKey r)")
  obtain l2 ok retry where al: "Allow (h_limiter h1) pid (hi_bucket_time x) (hi_allow_time x) = (l2, ok, retry)"
    by (cases "Allow (h_limiter h1) pid (hi_bucket_time x) (hi_allow_time x)") auto
  from lookupKey_pipe [OF l] have p: "h_pipe h1 = h_pipe h" by simp
  show ?thesis
  proof (cases res)
    case (Inl e)
    with Some l p show ?thesis by (simp add: handle_def Let_def counted_drop)
  next
    case (Inr key)
    with Some l p al show ?thesis by (simp add: handle_def Let_def counted_drop accept_body_counted)
  qed
qed

subsection \<open>Accepted requests\<close>

lemma readBody_bounded:
  assumes "readBody lib lm r = Inr body"
  shows "int (length body) \<le> MaxEnvelopeBytes lm"
  using assms by (auto simp: readBody_def Let_def split: sum.splits prod.splits stream_end.splits if_splits)

lemma readBody_plain:
  assumes "readBody lib lm r = Inr body" and "hl_ToLower lib (rq_Encoding r) \<in> {[], ''identity''}" and "0 < MaxEnvelopeBytes lm"
  shows "body = rq_Body r"
  using assms by (auto simp: readBody_def open_body_def Let_def MaxBytesReader_def read_limited_def split: if_splits stream_end.splits)

lemma accept_body_ok:
  assumes "accept_body lib kind h pid r res = (h', resp, app)" and "rs_Status resp = 200"
  obtains body n where "readBody lib (h_lim h) r = Inr body" and "res = Appended n" and "app = Some (kind, submit_record kind pid body)"
    and "pl_lag (h_pipe h) \<le> MaxLag (pl_opts (h_pipe h))"
proof -
  from assms obtain body where b: "readBody lib (h_lim h) r = Inr body"
    by (auto simp: accept_body_def split: sum.splits body_err.splits)
  from assms b have "snd (Submit (h_pipe h) kind pid body res) = (None, app)"
    by (auto simp: accept_body_def split: prod.splits option.splits submit_err.splits)
  then show thesis using that [OF b] by (auto simp: Submit_def Let_def split: if_splits append_res.splits)
qed

lemma handle_ok:
  assumes "handle lib kind h r x = (h', resp, app)" and "rs_Status resp = 200"
  obtains pid h1 key l2 retry where "parseInt64 (rq_ProjectID r) = Some pid" and "sentryAuthKey r \<noteq> []" and "lookupKey h x (sentryAuthKey r) = (h1, Inr key)"
    and "pk_ProjectID key = pid" and "Allow (h_limiter h) pid (hi_bucket_time x) (hi_allow_time x) = (l2, True, retry)"
    and "accept_body lib kind (h1\<lparr>h_limiter := l2\<rparr>) pid r (hi_append x) = (h', resp, app)" and "h_lim h1 = h_lim h"
proof -
  from assms obtain pid where p: "parseInt64 (rq_ProjectID r) = Some pid" by (auto simp: handle_def split: option.splits)
  obtain h1 res where l: "lookupKey h x (sentryAuthKey r) = (h1, res)" by (cases "lookupKey h x (sentryAuthKey r)")
  from assms p l obtain key where k: "res = Inr key" "pk_ProjectID key = pid" "sentryAuthKey r \<noteq> []"
    by (auto simp: handle_def Let_def split: sum.splits if_splits)
  obtain l2 ok retry where al: "Allow (h_limiter h1) pid (hi_bucket_time x) (hi_allow_time x) = (l2, ok, retry)"
    by (cases "Allow (h_limiter h1) pid (hi_bucket_time x) (hi_allow_time x)") auto
  from assms p l k al have "ok" "accept_body lib kind (h1\<lparr>h_limiter := l2\<rparr>) pid r (hi_append x) = (h', resp, app)"
    by (auto simp: handle_def Let_def split: if_splits)
  with that p l k al lookupKey_pipe [OF l] show thesis by auto
qed

text \<open>
  C6. An acknowledged request is in the log under the right project: the status is 200 only if the path names a project, the
  project's bucket had a token, the body (after decompression) is within the limit, and the log has appended the record that
  carries this kind, this project and exactly this body; an uncompressed body is the one that was sent.
\<close>
theorem acknowledged_is_appended:
  assumes "handle lib kind h r x = (h', resp, app)" and "rs_Status resp = 200"
  shows "\<exists>pid body n. parseInt64 (rq_ProjectID r) = Some pid \<and> fst (snd (Allow (h_limiter h) pid (hi_bucket_time x) (hi_allow_time x))) \<and>
    readBody lib (h_lim h) r = Inr body \<and> int (length body) \<le> MaxEnvelopeBytes (h_lim h) \<and>
    (hl_ToLower lib (rq_Encoding r) \<in> {[], ''identity''} \<and> 0 < MaxEnvelopeBytes (h_lim h) \<longrightarrow> body = rq_Body r) \<and>
    hi_append x = Appended n \<and> app = Some (kind, submit_record kind pid body)"
proof -
  from handle_ok [OF assms] obtain pid h1 key l2 retry where h: "parseInt64 (rq_ProjectID r) = Some pid"
    "Allow (h_limiter h) pid (hi_bucket_time x) (hi_allow_time x) = (l2, True, retry)"
    "accept_body lib kind (h1\<lparr>h_limiter := l2\<rparr>) pid r (hi_append x) = (h', resp, app)" "h_lim h1 = h_lim h" by metis
  from accept_body_ok [OF h(3) assms(2)] obtain body n where b: "readBody lib (h_lim (h1\<lparr>h_limiter := l2\<rparr>)) r = Inr body" "hi_append x = Appended n"
    "app = Some (kind, submit_record kind pid body)" by metis
  then have "readBody lib (h_lim h) r = Inr body" using h(4) by simp
  with b h readBody_bounded [OF this] readBody_plain [OF this] show ?thesis by (intro exI [of _ pid] exI [of _ body] exI [of _ n]) simp
qed

subsection \<open>Revoked keys\<close>

text \<open>Requests handled one after another, each with what the outside world answers to it.\<close>

fun handle_run :: "http_lib \<Rightarrow> Handler \<Rightarrow> (byte \<times> HttpRequest \<times> http_io) list \<Rightarrow> Handler" where
  "handle_run lib h [] = h"
| "handle_run lib h ((kind, r, x) # rs) = handle_run lib (fst (handle lib kind h r x)) rs"

definition answered :: "http_io set \<Rightarrow> int \<Rightarrow> string \<Rightarrow> ProjectKey \<Rightarrow> bool" where
  "answered X t k v \<longleftrightarrow> (\<exists>x \<in> X. hi_set_time x = t \<and> hi_keys x k = Inr v)"

definition keys_inv :: "http_io set \<Rightarrow> Handler \<Rightarrow> bool" where
  "keys_inv X h \<longleftrightarrow> lru_inv (h_keyLRU h) \<and> ttl (h_keyLRU h) = 60000000000 \<and> coherent lru_look (ttl (h_keyLRU h)) (answered X) (h_keyLRU h)"

lemma coherent_mono: "X \<subseteq> Y \<Longrightarrow> coherent look t (answered X) c \<Longrightarrow> coherent look t (answered Y) c"
  unfolding coherent_def answered_def by blast

lemma lookupKey_inv:
  assumes "keys_inv X h" and "lookupKey h x pub = (h1, res)"
  shows "keys_inv (insert x X) h1"
    and "res = Inr key \<Longrightarrow> hi_keys x pub = Inr key \<or> (\<exists>x0 \<in> X. hi_keys x0 pub = Inr key \<and> hi_get_time x \<le> hi_set_time x0 + 60000000000)"
proof -
  let ?c = "h_keyLRU h"
  have inv: "lru_inv ?c" "ttl ?c = 60000000000" and co: "coherent lru_look (ttl ?c) (answered X) ?c" using assms(1) by (auto simp: keys_inv_def)
  obtain c1 o1 where g: "lru_Get ?c pub (hi_get_time x) = (c1, o1)" by (cases "lru_Get ?c pub (hi_get_time x)")
  note i1 = lru.get_inv [OF inv(1) g]
  have co1: "coherent lru_look (ttl c1) (answered (insert x X)) c1"
    using lru.get_coherent [OF inv(1) co g] i1 by (auto intro: coherent_mono [of X])
  show "keys_inv (insert x X) h1"
  proof (cases "o1 = None \<and> (\<exists>k. hi_keys x pub = Inr k)")
    case True
    then obtain k where k: "o1 = None" "hi_keys x pub = Inr k" by blast
    then have "answered (insert x X) (hi_set_time x) pub k" by (auto simp: answered_def)
    from lru.set_coherent [OF i1 [THEN conjunct1] co1 this] have "coherent lru_look 60000000000 (answered (insert x X)) (lru_Set c1 pub k b (hi_set_time x))" for b
      using i1 inv by simp
    moreover have "lru_inv (lru_Set c1 pub k b t)" "ttl (lru_Set c1 pub k b t) = 60000000000" for b t
      using lru.set_inv [OF i1 [THEN conjunct1]] i1 inv by simp_all
    ultimately show ?thesis using assms(2) g k by (auto simp: lookupKey_def keys_inv_def)
  next
    case False
    with assms(2) g i1 co1 inv show ?thesis by (auto simp: lookupKey_def keys_inv_def split: option.splits sum.splits)
  qed
  assume "res = Inr key"
  then show "hi_keys x pub = Inr key \<or> (\<exists>x0 \<in> X. hi_keys x0 pub = Inr key \<and> hi_get_time x \<le> hi_set_time x0 + 60000000000)"
  proof (cases o1)
    case None
    with assms(2) g \<open>res = Inr key\<close> show ?thesis by (auto simp: lookupKey_def split: sum.splits)
  next
    case (Some k)
    with assms(2) g \<open>res = Inr key\<close> have "lru_Get ?c pub (hi_get_time x) = (c1, Some key)" by (auto simp: lookupKey_def)
    from lru.hit_recent [OF inv(1) co this] inv(2) show ?thesis by (auto simp: answered_def)
  qed
qed

lemma accept_body_cache: "h_keyLRU (fst (accept_body lib kind h pid r res)) = h_keyLRU h"
  by (auto simp: accept_body_def h_drop_def split: sum.split body_err.split prod.split option.split submit_err.split)

lemma keys_inv_cache: "h_keyLRU h' = h_keyLRU h \<Longrightarrow> keys_inv X h' = keys_inv X h"
  by (simp add: keys_inv_def)

lemma keys_inv_mono: "keys_inv X h \<Longrightarrow> keys_inv (insert x X) h"
  unfolding keys_inv_def by (blast intro: coherent_mono)

lemma handle_cache:
  "h_keyLRU (fst (handle lib kind h r x)) = h_keyLRU h \<or>
   h_keyLRU (fst (handle lib kind h r x)) = h_keyLRU (fst (lookupKey h x (sentryAuthKey r)))"
  by (auto simp: handle_def Let_def h_drop_def accept_body_cache split: option.split prod.split sum.split)

lemma handle_keys_inv:
  assumes "keys_inv X h"
  shows "keys_inv (insert x X) (fst (handle lib kind h r x))"
  using handle_cache [of lib kind h r x] lookupKey_inv(1) [OF assms, of x "sentryAuthKey r" "fst (lookupKey h x (sentryAuthKey r))"]
  by (metis prod.collapse keys_inv_cache keys_inv_mono assms)

lemma handle_run_keys_inv: "keys_inv X h \<Longrightarrow> keys_inv (X \<union> (\<lambda>(kind, r, x). x) ` set rs) (handle_run lib h rs)"
proof (induction lib h rs arbitrary: X rule: handle_run.induct)
  case (2 lib h kind r x rs)
  from "2.IH" [OF handle_keys_inv [OF "2.prems"]] show ?case by simp
qed simp

lemma NewHandler_keys_inv: "keys_inv {} (NewHandler pipe lm)"
  by (simp add: keys_inv_def NewHandler_def lru_New_inv coherent_def lru_look_def) (simp add: lru_New_def)

text \<open>
  C36. The key cache delays a revocation by at most a minute. After any earlier requests, a request that is accepted carries a key which
  belongs to the project of its path and which the key store itself confirmed: during this request, or during an earlier
  one at most 60 seconds before (from storing the answer to looking it up).
\<close>
theorem accepted_key_is_recent:
  assumes "handle lib kind (handle_run lib (NewHandler pipe lm) rs) r x = (h', resp, app)" and "rs_Status resp = 200"
  shows "\<exists>pid key. parseInt64 (rq_ProjectID r) = Some pid \<and> pk_ProjectID key = pid \<and>
    (hi_keys x (sentryAuthKey r) = Inr key \<or>
     (\<exists>(kind0, r0, x0) \<in> set rs. hi_keys x0 (sentryAuthKey r) = Inr key \<and> hi_get_time x \<le> hi_set_time x0 + 60 * 1000000000))"
proof -
  from handle_ok [OF assms] obtain pid h1 key where p: "parseInt64 (rq_ProjectID r) = Some pid" "pk_ProjectID key = pid"
    and l: "lookupKey (handle_run lib (NewHandler pipe lm) rs) x (sentryAuthKey r) = (h1, Inr key)" by metis
  have "keys_inv ((\<lambda>(kind, r, x). x) ` set rs) (handle_run lib (NewHandler pipe lm) rs)"
    using handle_run_keys_inv [OF NewHandler_keys_inv, of rs lib] by simp
  from lookupKey_inv(2) [OF this l refl] p show ?thesis by (fastforce simp: image_iff split_beta)
qed

subsection \<open>An example\<close>

definition plain_lib :: http_lib where
  "plain_lib = \<lparr>hl_ToLower = to_lower, hl_gzip = (\<lambda>s. None), hl_zlib = (\<lambda>s. None), hl_zstd = (\<lambda>n s. None), hl_int_of_inf = 0\<rparr>"

definition sample_req :: HttpRequest where
  "sample_req = \<lparr>rq_ProjectID = ''7'', rq_SentryAuth = ''Sentry sentry_version=7, sentry_key=ab'', rq_QueryKey = [], rq_BasicUser = None,
     rq_Encoding = [], rq_Body = [1, 2], rq_BodyOK = True\<rparr>"

definition sample_key :: ProjectKey where
  "sample_key = \<lparr>pk_ID = 1, pk_ProjectID = 7, pk_OrgID = 1, pk_PublicKey = ''ab'', pk_Active = True\<rparr>"

definition sample_io :: http_io where
  "sample_io = \<lparr>hi_get_time = 0, hi_set_time = 1, hi_bucket_time = 2, hi_allow_time = 3,
     hi_keys = (\<lambda>k. if k = ''ab'' then Inr sample_key else Inl NotFound), hi_append = Appended 5\<rparr>"

definition sample_handler :: Handler where
  "sample_handler = NewHandler (NewPipeline False \<lparr>MaxLag = 0, AppendTimeout = 0, DedupeCap = 0, CommitEvery = 0\<rparr> \<lparr>MaxEnvelopeBytes = 0, MaxItems = 0, MaxItemBytes = 0\<rparr>)
     \<lparr>MaxEnvelopeBytes = 100, MaxItems = 0, MaxItemBytes = 0\<rparr>"

lemma handle_accepts:
  assumes "parseInt64 (rq_ProjectID r) = Some pid" and "sentryAuthKey r \<noteq> []" and "lookupKey h x (sentryAuthKey r) = (h1, Inr key)" and "pk_ProjectID key = pid"
    and "Allow (h_limiter h) pid (hi_bucket_time x) (hi_allow_time x) = (l2, True, retry)" and "readBody lib (h_lim h) r = Inr body"
    and "pl_lag (h_pipe h) \<le> MaxLag (pl_opts (h_pipe h))" and "hi_append x = Appended n"
  shows "rs_Status (fst (snd (handle lib kind h r x))) = 200 \<and> h_limiter (fst (handle lib kind h r x)) = l2 \<and>
    h_keyLRU (fst (handle lib kind h r x)) = h_keyLRU h1 \<and> h_lim (fst (handle lib kind h r x)) = h_lim h \<and>
    pl_lag (h_pipe (fst (handle lib kind h r x))) = pl_lag (h_pipe h) \<and> pl_opts (h_pipe (fst (handle lib kind h r x))) = pl_opts (h_pipe h)"
  using assms lookupKey_pipe [OF assms(3)] by (simp add: handle_def accept_body_def Submit_def Let_def)

lemma sample_facts:
  "sentryAuthKey sample_req = ''ab''" "parseInt64 (rq_ProjectID sample_req) = Some 7" "hl_ToLower plain_lib (rq_Encoding sample_req) = []"
  "rq_Body sample_req = [1, 2]"
  by code_simp+

lemma sample_body: "MaxEnvelopeBytes lm = 100 \<Longrightarrow> readBody plain_lib lm sample_req = Inr [1, 2]"
  by (simp add: readBody_def open_body_def plain_lib_def sample_req_def MaxBytesReader_def read_limited_def to_lower_def)

lemma sample_limits: "MaxEnvelopeBytes (h_lim sample_handler) = 100" "pl_lag (h_pipe sample_handler) = 0"
  by (simp_all add: sample_handler_def NewHandler_def lim_defaults_def NewPipeline_def Let_def)

definition sample_l1 :: limiter where
  "sample_l1 = (rl_New DefaultLimit 10000)\<lparr>buckets := [(7, \<lparr>tokens = 4999, last_time = 3\<rparr>)]\<rparr>"

lemma sample_allow1: "Allow (h_limiter sample_handler) 7 2 3 = (sample_l1, True, Some 0)"
  by (simp add: sample_handler_def NewHandler_def Allow_def rl_New_def DefaultLimit_def lim_for_def refill_def time_sub_def Let_def sample_l1_def)

lemma sample_allow2: "\<exists>l2. Allow sample_l1 7 2 3 = (l2, True, Some 0)"
  by (simp add: Allow_def rl_New_def DefaultLimit_def lim_for_def refill_def time_sub_def Let_def sample_l1_def)

definition sample_cache :: "ProjectKey lru" where
  "sample_cache = lru_Set (fst (lru_Get (lru_New (4 * 2 ^ 20) (60 * 1000000000)) ''ab'' 0)) ''ab'' sample_key 68 1"

lemma sample_lookup1: "\<exists>h1. lookupKey sample_handler sample_io ''ab'' = (h1, Inr sample_key) \<and> h_keyLRU h1 = sample_cache"
  by (simp add: lookupKey_def sample_handler_def NewHandler_def lru_Get_def lru_New_def sample_io_def sample_cache_def sample_key_def)

lemma sample_step1:
  "rs_Status (fst (snd (handle plain_lib recEnvelope sample_handler sample_req sample_io))) = 200 \<and>
   h_limiter (fst (handle plain_lib recEnvelope sample_handler sample_req sample_io)) = sample_l1 \<and>
   h_keyLRU (fst (handle plain_lib recEnvelope sample_handler sample_req sample_io)) = sample_cache \<and>
   MaxEnvelopeBytes (h_lim (fst (handle plain_lib recEnvelope sample_handler sample_req sample_io))) = 100 \<and>
   pl_lag (h_pipe (fst (handle plain_lib recEnvelope sample_handler sample_req sample_io))) = 0"
proof -
  obtain h1 where l: "lookupKey sample_handler sample_io (sentryAuthKey sample_req) = (h1, Inr sample_key)" "h_keyLRU h1 = sample_cache"
    using sample_lookup1 by (auto simp: sample_facts)
  have a: "Allow (h_limiter sample_handler) 7 (hi_bucket_time sample_io) (hi_allow_time sample_io) = (sample_l1, True, Some 0)"
    using sample_allow1 by (simp add: sample_io_def)
  have k: "pk_ProjectID sample_key = 7" "hi_append sample_io = Appended 5" by (simp_all add: sample_key_def sample_io_def)
  have n: "sentryAuthKey sample_req \<noteq> []" "pl_lag (h_pipe sample_handler) \<le> MaxLag (pl_opts (h_pipe sample_handler))"
    by (simp_all add: sample_facts sample_limits)
  from handle_accepts [OF sample_facts(2) n(1) l(1) k(1) a sample_body [OF sample_limits(1)] n(2) k(2), of recEnvelope] l(2) sample_limits
  show ?thesis by simp
qed

theorem acknowledged_is_appended_witness:
  "snd (snd (handle plain_lib recEnvelope sample_handler sample_req sample_io)) = Some (recEnvelope, submit_record recEnvelope 7 [1, 2])"
proof -
  obtain h' resp app where h: "handle plain_lib recEnvelope sample_handler sample_req sample_io = (h', resp, app)"
    by (cases "handle plain_lib recEnvelope sample_handler sample_req sample_io") auto
  with sample_step1 have s: "rs_Status resp = 200" by simp
  from acknowledged_is_appended [OF h s] h show ?thesis by (auto simp: sample_facts sample_limits)
qed

lemma sample_lookup2:
  "h_keyLRU h = sample_cache \<Longrightarrow> \<exists>h1. lookupKey h (sample_io\<lparr>hi_get_time := 9, hi_keys := (\<lambda>k. Inl NotFound)\<rparr>) ''ab'' = (h1, Inr sample_key)"
proof -
  assume c: "h_keyLRU h = sample_cache"
  have "lru_inv (fst (lru_Get (lru_New (4 * 2 ^ 20) (60 * 1000000000)) ''ab'' 0))"
    using lru_Get_inv [OF lru_New_inv prod.collapse [symmetric]] .
  then have "snd (lru_Get sample_cache ''ab'' 9) = Some sample_key" unfolding sample_cache_def
    by (subst Set_then_Get) (simp_all add: lru_Get_def lru_New_def)
  with c show ?thesis by (cases "lru_Get sample_cache ''ab'' 9") (simp add: lookupKey_def)
qed

theorem accepted_key_is_recent_witness:
  "rs_Status (fst (snd (handle plain_lib recEnvelope (handle_run plain_lib sample_handler [(recEnvelope, sample_req, sample_io)]) sample_req
      (sample_io\<lparr>hi_get_time := 9, hi_keys := (\<lambda>k. Inl NotFound)\<rparr>)))) = 200 \<and>
   (\<exists>key. pk_ProjectID key = 7 \<and> hi_keys sample_io ''ab'' = Inr key)"
proof -
  let ?h = "handle_run plain_lib sample_handler [(recEnvelope, sample_req, sample_io)]"
  let ?x = "sample_io\<lparr>hi_get_time := 9, hi_keys := (\<lambda>k. Inl NotFound)\<rparr>"
  have c: "h_keyLRU ?h = sample_cache" "h_limiter ?h = sample_l1" "MaxEnvelopeBytes (h_lim ?h) = 100" "pl_lag (h_pipe ?h) = 0" using sample_step1 by simp_all
  obtain h1 where l: "lookupKey ?h ?x (sentryAuthKey sample_req) = (h1, Inr sample_key)" using sample_lookup2 [OF c(1)] by (auto simp: sample_facts)
  obtain l2 where a: "Allow (h_limiter ?h) 7 (hi_bucket_time ?x) (hi_allow_time ?x) = (l2, True, Some 0)" using sample_allow2 c(2) by (auto simp: sample_io_def)
  have k: "pk_ProjectID sample_key = 7" "hi_append ?x = Appended 5" by (simp_all add: sample_key_def sample_io_def)
  have n: "sentryAuthKey sample_req \<noteq> []" "pl_lag (h_pipe ?h) \<le> MaxLag (pl_opts (h_pipe ?h))" using c(4) by (simp_all add: sample_facts)
  have ok: "rs_Status (fst (snd (handle plain_lib recEnvelope ?h sample_req ?x))) = 200"
    using handle_accepts [OF sample_facts(2) n(1) l k(1) a sample_body [OF c(3)] n(2) k(2)] by blast
  obtain h' resp app where h: "handle plain_lib recEnvelope ?h sample_req ?x = (h', resp, app)" by (cases "handle plain_lib recEnvelope ?h sample_req ?x") auto
  with ok have s: "rs_Status resp = 200" by simp
  from accepted_key_is_recent [OF h [unfolded sample_handler_def] s] ok show ?thesis by (auto simp: sample_facts)
qed

end
