(* ===== verification/Auth.thy ===== *)
theory Auth
  imports Go_Text
begin

unbundle bit_operations_syntax

text \<open>
  Authentication primitives: \<open>internal/auth/password.go\<close>. Argon2id is third-party code and a parameter (\<open>idkey\<close>); SHA-256,
  base64 and the scanning of the parameters are the standard library's and are written out. The random bytes are an argument.
  A password verifies against a stored hash exactly when Argon2id gives the stored key; tokens and session ids have the shape that the
  server checks.
\<close>

section \<open>Base64 without padding\<close>

definition raw64_char :: "nat \<Rightarrow> char" where
  "raw64_char n =
     (if n < 26 then char_of (65 + n) else if n < 52 then char_of (71 + n) else if n < 62 then char_of (n - 4)
      else if n = 62 then CHR ''+'' else CHR ''/'')"

definition raw64_val :: "char \<Rightarrow> nat option" where
  "raw64_val c =
     (let n = of_char c in
      if 65 \<le> n \<and> n \<le> 90 then Some (n - 65) else if 97 \<le> n \<and> n \<le> 122 then Some (n - 71) else if 48 \<le> n \<and> n \<le> 57 then Some (n + 4)
      else if n = 43 then Some 62 else if n = 47 then Some 63 else None)"

fun raw64_encode :: "byte list \<Rightarrow> string" where
  "raw64_encode [] = []"
| "raw64_encode [a] = [raw64_char (unat a div 4), raw64_char (unat a mod 4 * 16)]"
| "raw64_encode [a, b] = [raw64_char (unat a div 4), raw64_char (unat a mod 4 * 16 + unat b div 16), raw64_char (unat b mod 16 * 4)]"
| "raw64_encode (a # b # c # bs) =
     [raw64_char (unat a div 4), raw64_char (unat a mod 4 * 16 + unat b div 16), raw64_char (unat b mod 16 * 4 + unat c div 64), raw64_char (unat c mod 64)]
     @ raw64_encode bs"

text \<open>The sextets; a last group of two or three gives one or two bytes, of one is an error; spare bits are not looked at.\<close>

fun raw64_bytes :: "nat list \<Rightarrow> byte list option" where
  "raw64_bytes [] = Some []"
| "raw64_bytes [w] = None"
| "raw64_bytes [w, x] = Some [of_nat (w * 4 + x div 16)]"
| "raw64_bytes [w, x, y] = Some [of_nat (w * 4 + x div 16), of_nat (x mod 16 * 16 + y div 4)]"
| "raw64_bytes (w # x # y # z # vs) =
     map_option (\<lambda>bs. [of_nat (w * 4 + x div 16), of_nat (x mod 16 * 16 + y div 4), of_nat (y mod 4 * 64 + z)] @ bs) (raw64_bytes vs)"

text \<open>Line breaks are skipped.\<close>

definition raw64_decode :: "string \<Rightarrow> byte list option" where
  "raw64_decode s =
     (case those (map raw64_val (filter (\<lambda>c. of_char c \<noteq> (10 :: nat) \<and> of_char c \<noteq> (13 :: nat)) s)) of None \<Rightarrow> None | Some vs \<Rightarrow> raw64_bytes vs)"

lemma raw64_val_char [simp]: "n < 64 \<Longrightarrow> raw64_val (raw64_char n) = Some n"
  by (auto simp: raw64_char_def raw64_val_def Let_def)

lemma raw64_char_not_break [simp]: "n < 64 \<Longrightarrow> of_char (raw64_char n) \<noteq> (10 :: nat) \<and> of_char (raw64_char n) \<noteq> (13 :: nat)"
  by (auto simp: raw64_char_def)

lemma byte_bounds [simp]: "unat (a :: byte) div 4 < 64" "unat (a :: byte) div 16 < 16" "unat (a :: byte) div 64 < 4" "unat (a :: byte) < 256"
proof -
  have "unat a < 2 ^ LENGTH(8)" by (rule unsigned_less)
  then show "unat (a :: byte) div 4 < 64" "unat (a :: byte) div 16 < 16" "unat (a :: byte) div 64 < 4" "unat (a :: byte) < 256" by simp_all
qed

definition raw64_sextets :: "byte list \<Rightarrow> nat list" where
  "raw64_sextets bs = map (\<lambda>c. the (raw64_val c)) (raw64_encode bs)"

lemma raw64_encode_sextets: "raw64_encode bs = map raw64_char (raw64_sextets bs) \<and> (\<forall>v \<in> set (raw64_sextets bs). v < 64)"
  unfolding raw64_sextets_def
proof (induction bs rule: raw64_encode.induct)
  case (2 a)
  have "unat a mod 4 * 16 < 64" by simp
  then show ?case by simp
next
  case (3 a b)
  have "unat a mod 4 * 16 + unat b div 16 < 64" "unat b mod 16 * 4 < 64" using byte_bounds(2) [of b] mod_less_divisor [of 4 "unat a"] by linarith+
  then show ?case by simp
next
  case (4 a b c bs)
  have "unat a mod 4 * 16 + unat b div 16 < 64" "unat b mod 16 * 4 + unat c div 64 < 64"
    using byte_bounds(2) [of b] byte_bounds(3) [of c] mod_less_divisor [of 4 "unat a"] mod_less_divisor [of 16 "unat b"] by linarith+
  with 4 show ?case by simp
qed simp

lemma raw64_bytes_sextets: "raw64_bytes (raw64_sextets bs) = Some bs"
  unfolding raw64_sextets_def
proof (induction bs rule: raw64_encode.induct)
  case (2 a)
  have "unat a div 4 * 4 + unat a mod 4 * 16 div 16 = unat a" by simp
  then show ?case by (simp add: word_of_nat_eq_iff)
next
  case (3 a b)
  have x: "unat a mod 4 * 16 + unat b div 16 < 64" "unat b mod 16 * 4 < 64" using byte_bounds(2) [of b] mod_less_divisor [of 4 "unat a"] by linarith+
  have "unat a div 4 * 4 + (unat a mod 4 * 16 + unat b div 16) div 16 = unat a" "(unat a mod 4 * 16 + unat b div 16) mod 16 * 16 + unat b mod 16 * 4 div 4 = unat b"
    using byte_bounds(2) [of b] by simp_all
  with x show ?case by simp
next
  case (4 a b c bs)
  have x: "unat a mod 4 * 16 + unat b div 16 < 64" "unat b mod 16 * 4 + unat c div 64 < 64"
    using byte_bounds(2) [of b] byte_bounds(3) [of c] mod_less_divisor [of 4 "unat a"] mod_less_divisor [of 16 "unat b"] by linarith+
  have "unat a div 4 * 4 + (unat a mod 4 * 16 + unat b div 16) div 16 = unat a"
    "(unat a mod 4 * 16 + unat b div 16) mod 16 * 16 + (unat b mod 16 * 4 + unat c div 64) div 4 = unat b"
    "(unat b mod 16 * 4 + unat c div 64) mod 4 * 64 + unat c mod 64 = unat c"
    using byte_bounds(2) [of b] byte_bounds(3) [of c] by simp_all
  with x 4 show ?case by simp
qed simp

lemma those_map_Some: "(\<And>x. x \<in> set xs \<Longrightarrow> f x = Some (g x)) \<Longrightarrow> those (map f xs) = Some (map g xs)"
  by (induction xs) simp_all

lemma raw64_roundtrip: "raw64_decode (raw64_encode bs) = Some bs"
proof -
  have v: "v < 64" if "v \<in> set (raw64_sextets bs)" for v using raw64_encode_sextets that by blast
  then have "filter (\<lambda>c. of_char c \<noteq> (10 :: nat) \<and> of_char c \<noteq> (13 :: nat)) (raw64_encode bs) = map raw64_char (raw64_sextets bs)"
    using raw64_encode_sextets [of bs] by (auto simp: filter_id_conv)
  moreover have "those (map raw64_val (map raw64_char (raw64_sextets bs))) = Some (map id (raw64_sextets bs))"
    unfolding map_map by (rule those_map_Some) (use v in simp)
  ultimately show ?thesis by (simp add: raw64_decode_def raw64_bytes_sextets)
qed

lemma raw64_no_dollar: "CHR ''$'' \<notin> set (raw64_encode bs)"
proof -
  have "raw64_char v \<noteq> CHR ''$''" for v by (auto simp: raw64_char_def dest: arg_cong [of _ _ "of_char :: char \<Rightarrow> nat"])
  then show ?thesis using raw64_encode_sextets [of bs] by (metis imageE list.set_map)
qed

section \<open>SHA-256\<close>

definition sha_K :: "u32 list" where
  "sha_K =
     [0x428A2F98, 0x71374491, 0xB5C0FBCF, 0xE9B5DBA5, 0x3956C25B, 0x59F111F1, 0x923F82A4, 0xAB1C5ED5,
      0xD807AA98, 0x12835B01, 0x243185BE, 0x550C7DC3, 0x72BE5D74, 0x80DEB1FE, 0x9BDC06A7, 0xC19BF174,
      0xE49B69C1, 0xEFBE4786, 0x0FC19DC6, 0x240CA1CC, 0x2DE92C6F, 0x4A7484AA, 0x5CB0A9DC, 0x76F988DA,
      0x983E5152, 0xA831C66D, 0xB00327C8, 0xBF597FC7, 0xC6E00BF3, 0xD5A79147, 0x06CA6351, 0x14292967,
      0x27B70A85, 0x2E1B2138, 0x4D2C6DFC, 0x53380D13, 0x650A7354, 0x766A0ABB, 0x81C2C92E, 0x92722C85,
      0xA2BFE8A1, 0xA81A664B, 0xC24B8B70, 0xC76C51A3, 0xD192E819, 0xD6990624, 0xF40E3585, 0x106AA070,
      0x19A4C116, 0x1E376C08, 0x2748774C, 0x34B0BCB5, 0x391C0CB3, 0x4ED8AA4A, 0x5B9CCA4F, 0x682E6FF3,
      0x748F82EE, 0x78A5636F, 0x84C87814, 0x8CC70208, 0x90BEFFFA, 0xA4506CEB, 0xBEF9A3F7, 0xC67178F2]"

definition sha_H0 :: "u32 list" where
  "sha_H0 = [0x6A09E667, 0xBB67AE85, 0x3C6EF372, 0xA54FF53A, 0x510E527F, 0x9B05688C, 0x1F83D9AB, 0x5BE0CD19]"

definition rotr :: "nat \<Rightarrow> u32 \<Rightarrow> u32" where
  "rotr n x = drop_bit n x OR push_bit (32 - n) x"

definition sha_word :: "byte list \<Rightarrow> u32" where
  "sha_word bs = foldl (\<lambda>acc b. push_bit 8 acc OR ucast b) 0 bs"

definition sha_bytes :: "nat \<Rightarrow> nat \<Rightarrow> byte list" where
  "sha_bytes n x = rev (map (\<lambda>i. of_nat (x div 256 ^ i mod 256)) [0..<n])"

definition sha_pad :: "byte list \<Rightarrow> byte list" where
  "sha_pad m = m @ [0x80] @ replicate (nat ((55 - int (length m)) mod 64)) 0 @ sha_bytes 8 (8 * length m)"

fun sha_chunks :: "nat \<Rightarrow> nat \<Rightarrow> 'a list \<Rightarrow> 'a list list" where
  "sha_chunks 0 n xs = []"
| "sha_chunks (Suc k) n xs = (if xs = [] then [] else take n xs # sha_chunks k n (drop n xs))"

text \<open>The message schedule, newest word first.\<close>

fun sha_extend :: "nat \<Rightarrow> u32 list \<Rightarrow> u32 list" where
  "sha_extend 0 ws = ws"
| "sha_extend (Suc k) ws =
     (let a = ws ! 14; b = ws ! 1;
          s0 = (rotr 7 a XOR rotr 18 a) XOR drop_bit 3 a;
          s1 = (rotr 17 b XOR rotr 19 b) XOR drop_bit 10 b
      in sha_extend k ((ws ! 15 + s0 + ws ! 6 + s1) # ws))"

fun sha_round :: "u32 list \<Rightarrow> u32 \<times> u32 \<Rightarrow> u32 list" where
  "sha_round [a, b, c, d, e, f, g, h] (k, w) =
     (let s1 = (rotr 6 e XOR rotr 11 e) XOR rotr 25 e;
          ch = (e AND f) XOR (NOT e AND g);
          t1 = h + s1 + ch + k + w;
          s0 = (rotr 2 a XOR rotr 13 a) XOR rotr 22 a;
          maj = ((a AND b) XOR (a AND c)) XOR (b AND c)
      in [t1 + (s0 + maj), a, b, c, d + t1, e, f, g])"
| "sha_round st kw = st"

definition sha_block :: "u32 list \<Rightarrow> byte list \<Rightarrow> u32 list" where
  "sha_block hs blk =
     map2 (+) hs (foldl sha_round hs (zip sha_K (rev (sha_extend 48 (rev (map sha_word (sha_chunks 16 4 blk)))))))"

definition sha256 :: "byte list \<Rightarrow> byte list" where
  "sha256 m =
     (let p = sha_pad m in concat (map (\<lambda>w. sha_bytes 4 (unat w)) (foldl sha_block sha_H0 (sha_chunks (length p) 64 p))))"

lemma length_sha_round: "length st = 8 \<Longrightarrow> length (sha_round st kw) = 8"
  by (cases "(st, kw)" rule: sha_round.cases) (auto simp: Let_def)

lemma length_sha_rounds: "length st = 8 \<Longrightarrow> length (foldl sha_round st kws) = 8"
  by (induction kws arbitrary: st) (simp_all add: length_sha_round)

lemma length_sha256: "length (sha256 m) = 32"
proof -
  have "length (foldl sha_block hs bl) = 8" if "length hs = 8" for hs bl
    using that by (induction bl arbitrary: hs) (simp_all add: sha_block_def length_sha_rounds)
  then have "length (foldl sha_block sha_H0 bl) = 8" for bl by (simp add: sha_H0_def)
  then show ?thesis by (simp add: sha256_def Let_def length_concat comp_def sha_bytes_def sum_list_triv)
qed

section \<open>Tokens and session ids\<close>

definition TokenPrefix :: string where "TokenPrefix = ''leser_pat_''"

definition HashToken :: "string \<Rightarrow> string" where
  "HashToken token = hex_encode (sha256 (str_bytes token))"

text \<open>\<open>rnd\<close> is what \<open>rand.Read\<close> fills in, or \<open>None\<close> when it fails.\<close>

definition NewToken :: "byte list option \<Rightarrow> (string \<times> string) option" where
  "NewToken rnd = (case rnd of None \<Rightarrow> None | Some raw \<Rightarrow> let tok = TokenPrefix @ hex_encode raw in Some (tok, HashToken tok))"

definition ValidateTokenShape :: "string \<Rightarrow> bool" where
  "ValidateTokenShape token \<longleftrightarrow> prefix TokenPrefix token \<and> length token = length TokenPrefix + 64"

definition NewSessionID :: "byte list option \<Rightarrow> string option" where
  "NewSessionID rnd = map_option hex_encode rnd"

section \<open>Passwords\<close>

type_synonym idkey = "byte list \<Rightarrow> byte list \<Rightarrow> nat \<Rightarrow> nat \<Rightarrow> nat \<Rightarrow> nat \<Rightarrow> byte list"

definition argonTime :: nat where "argonTime = 3"
definition argonMemory :: nat where "argonMemory = 64 * 1024"
definition argonThreads :: nat where "argonThreads = 2"
definition argonKeyLen :: nat where "argonKeyLen = 32"
definition argonSaltLen :: nat where "argonSaltLen = 16"

definition HashPassword :: "idkey \<Rightarrow> byte list option \<Rightarrow> string \<Rightarrow> string option" where
  "HashPassword idk rnd password =
     (case rnd of
        None \<Rightarrow> None
      | Some salt \<Rightarrow>
          let key = idk (str_bytes password) salt argonTime argonMemory argonThreads argonKeyLen
          in Some (''$argon2id$v=19$m='' @ dec_str argonMemory @ '',t='' @ dec_str argonTime @ '',p='' @ dec_str argonThreads @ ''$'' @
                   raw64_encode salt @ ''$'' @ raw64_encode key))"

text \<open>
  One \<open>%d\<close> of \<open>fmt.Sscanf\<close> into an unsigned integer of \<open>bits\<close> bits: leading spaces (a line break is an error), at least one digit,
  the value in range.
\<close>

definition scan_spaces :: "string \<Rightarrow> string option" where
  "scan_spaces s = (let t = trim_left s in if CHR 0x0A \<in> set (take (length s - length t) s) then None else Some t)"

definition scan_uint :: "nat \<Rightarrow> string \<Rightarrow> (nat \<times> string) option" where
  "scan_uint bits s =
     (case scan_spaces s of
        None \<Rightarrow> None
      | Some s1 \<Rightarrow>
          let ds = takeWhile is_digit s1 in
          if ds = [] \<or> 2 ^ bits \<le> dec_val ds then None else Some (dec_val ds, dropWhile is_digit s1))"

definition scan_lit :: "string \<Rightarrow> string \<Rightarrow> string option" where
  "scan_lit w s = (if prefix w s then Some (drop (length w) s) else None)"

definition scan_params :: "string \<Rightarrow> (nat \<times> nat \<times> nat) option" where
  "scan_params s =
     Option.bind (scan_lit ''m='' s) (\<lambda>s1. Option.bind (scan_uint 32 s1) (\<lambda>(m, s2).
     Option.bind (scan_lit '',t='' s2) (\<lambda>s3. Option.bind (scan_uint 32 s3) (\<lambda>(t, s4).
     Option.bind (scan_lit '',p='' s4) (\<lambda>s5. Option.bind (scan_uint 8 s5) (\<lambda>(p, s6). Some (m, t, p)))))))"

definition VerifyPassword :: "idkey \<Rightarrow> string \<Rightarrow> string \<Rightarrow> bool" where
  "VerifyPassword idk password phc =
     (let parts = split_on ''$'' phc in
      if length parts \<noteq> 6 \<or> parts ! 1 \<noteq> ''argon2id'' then False
      else case scan_params (parts ! 3) of
        None \<Rightarrow> False
      | Some (m, t, p) \<Rightarrow>
          (case raw64_decode (parts ! 4) of
             None \<Rightarrow> False
           | Some salt \<Rightarrow>
               (case raw64_decode (parts ! 5) of
                  None \<Rightarrow> False
                | Some want \<Rightarrow> idk (str_bytes password) salt t m p (length want) = want)))"

text \<open>The parameters that \<open>HashPassword\<close> prints are read back.\<close>

lemma digit_chars: "digit_char 2 = CHR ''2''" "digit_char 3 = CHR ''3''" "digit_char 5 = CHR ''5''" "digit_char 6 = CHR ''6''"
  by code_simp+

lemma own_params: "''m='' @ dec_str argonMemory @ '',t='' @ dec_str argonTime @ '',p='' @ dec_str argonThreads = ''m=65536,t=3,p=2''"
  by (simp add: argonMemory_def argonTime_def argonThreads_def dec_str.simps digit_chars)

lemma is_digit_cases: "is_digit c \<Longrightarrow> c \<in> set ''0123456789''"
proof -
  assume "is_digit c"
  then have "48 \<le> (of_char c :: nat)" "(of_char c :: nat) \<le> 57" by (simp_all add: is_digit_def)
  then have "of_char c \<in> {48, 49, 50, 51, 52, 53, 54, 55, 56, 57 :: nat}" unfolding insert_iff empty_iff by presburger
  then have "char_of (of_char c :: nat) \<in> char_of ` {48, 49, 50, 51, 52, 53, 54, 55, 56, 57 :: nat}" by (rule imageI)
  also have "char_of ` {48, 49, 50, 51, 52, 53, 54, 55, 56, 57 :: nat} = set ''0123456789''" by code_simp
  finally show ?thesis by simp
qed

lemma trim_left_digit: "is_digit c \<Longrightarrow> trim_left (c # s) = c # s"
proof -
  assume "is_digit c"
  have "list_all (\<lambda>c. let b = of_char c :: byte in \<not> ascii_space b \<and> b \<noteq> 0xC2 \<and> b \<noteq> 0xE1 \<and> b \<noteq> 0xE2 \<and> b \<noteq> 0xE3) ''0123456789''" by code_simp
  from this [unfolded list_all_iff Let_def] is_digit_cases [OF \<open>is_digit c\<close>]
  have "\<not> ascii_space (of_char c) \<and> (of_char c :: byte) \<noteq> 0xC2 \<and> (of_char c :: byte) \<noteq> 0xE1 \<and> (of_char c :: byte) \<noteq> 0xE2 \<and> (of_char c :: byte) \<noteq> 0xE3"
    by (rule bspec)
  then have "space_len (str_bytes (c # s)) = 0" by (simp add: str_bytes_def split: list.split)
  then show ?thesis by (subst trim_left.simps) simp
qed

lemma scan_uint_digits:
  assumes "is_digit d" and "list_all is_digit ds" and "dec_val (d # ds) < 2 ^ bits" and "r = [] \<or> \<not> is_digit (hd r)"
  shows "scan_uint bits (d # ds @ r) = Some (dec_val (d # ds), r)"
proof -
  have "takeWhile is_digit r = []" "dropWhile is_digit r = r" using assms(4) by (cases r; simp)+
  then have "takeWhile is_digit (d # ds @ r) = d # ds" "dropWhile is_digit (d # ds @ r) = r"
    using assms(1,2) by (simp_all add: list_all_iff takeWhile_append2 dropWhile_append2)
  then show ?thesis using assms(1,3) by (simp add: scan_uint_def scan_spaces_def trim_left_digit Let_def)
qed

lemma scan_params_own: "scan_params ''m=65536,t=3,p=2'' = Some (argonMemory, argonTime, argonThreads)"
proof -
  have d: "is_digit CHR ''2''" "is_digit CHR ''3''" "is_digit CHR ''5''" "is_digit CHR ''6''" "\<not> is_digit CHR '',''" by (simp_all add: is_digit_def)
  have v: "dec_val ''65536'' = 65536" "dec_val ''3'' = 3" "dec_val ''2'' = 2" by (simp_all add: dec_val_def digit_val_def)
  have "scan_uint 32 ''65536,t=3,p=2'' = Some (65536, '',t=3,p=2'')" using scan_uint_digits [of "CHR ''6''" "''5536''" 32 "'',t=3,p=2''"] d v by simp
  moreover have "scan_uint 32 ''3,p=2'' = Some (3, '',p=2'')" using scan_uint_digits [of "CHR ''3''" "[]" 32 "'',p=2''"] d v by simp
  moreover have "scan_uint 8 ''2'' = Some (2, [])" using scan_uint_digits [of "CHR ''2''" "[]" 8 "[]"] d v by simp
  ultimately show ?thesis by (simp add: scan_params_def scan_lit_def argonMemory_def argonTime_def argonThreads_def)
qed

lemma split_on_char:
  assumes "c \<notin> set a"
  shows "split_on [c] (a @ c # r) = a # split_on [c] r" and "split_on [c] a = [a]"
proof -
  have "str_index (a @ c # r) [c] = Some (length a)" using assms by (induction a) simp_all
  then show "split_on [c] (a @ c # r) = a # split_on [c] r" by (subst split_on.simps) simp
  have "str_index a [c] = None" using assms by (induction a) simp_all
  then show "split_on [c] a = [a]" by (subst split_on.simps) simp
qed

lemma split_phc:
  assumes "CHR ''$'' \<notin> set ps" and "CHR ''$'' \<notin> set a" and "CHR ''$'' \<notin> set b"
  shows "split_on ''$'' (''$argon2id$v=19$'' @ ps @ ''$'' @ a @ ''$'' @ b) = [[], ''argon2id'', ''v=19'', ps, a, b]"
  using assms split_on_char [of "CHR ''$''" "[]"] split_on_char [of "CHR ''$''" "''argon2id''"] split_on_char [of "CHR ''$''" "''v=19''"]
    split_on_char [of "CHR ''$''" ps] split_on_char [of "CHR ''$''" a] split_on_char [of "CHR ''$''" b]
  by simp

lemma verify_own:
  assumes "\<And>pw salt t m p n. length (idk pw salt t m p n) = n"
    and "HashPassword idk (Some salt) pw = Some phc"
  shows "VerifyPassword idk pw' phc \<longleftrightarrow>
    idk (str_bytes pw') salt argonTime argonMemory argonThreads argonKeyLen = idk (str_bytes pw) salt argonTime argonMemory argonThreads argonKeyLen"
proof -
  let ?key = "\<lambda>pw. idk (str_bytes pw) salt argonTime argonMemory argonThreads argonKeyLen"
  have "phc = ''$argon2id$v=19$'' @ (''m='' @ dec_str argonMemory @ '',t='' @ dec_str argonTime @ '',p='' @ dec_str argonThreads) @ ''$'' @
      raw64_encode salt @ ''$'' @ raw64_encode (?key pw)"
    using assms(2) by (simp add: HashPassword_def Let_def)
  then have phc: "phc = ''$argon2id$v=19$'' @ ''m=65536,t=3,p=2'' @ ''$'' @ raw64_encode salt @ ''$'' @ raw64_encode (?key pw)" unfolding own_params .
  have "split_on ''$'' phc = [[], ''argon2id'', ''v=19'', ''m=65536,t=3,p=2'', raw64_encode salt, raw64_encode (?key pw)]"
    unfolding phc by (rule split_phc) (simp_all add: raw64_no_dollar)
  then show ?thesis unfolding VerifyPassword_def Let_def by (simp add: scan_params_own raw64_roundtrip assms(1))
qed

text \<open>
  Verification is exact: against the stored hash of a password, another password verifies if and only if Argon2id maps both, with the
  stored salt and parameters, to the same key; in particular the password itself verifies. Salt and key survive being
  printed into the hash, and the parameters are read back as they were used.
\<close>
theorem VerifyPassword_exact:
  assumes "\<And>pw salt t m p n. length (idk pw salt t m p n) = n"
    and "HashPassword idk (Some salt) pw = Some phc"
  shows "VerifyPassword idk pw' phc \<longleftrightarrow>
    idk (str_bytes pw') salt argonTime argonMemory argonThreads argonKeyLen = idk (str_bytes pw) salt argonTime argonMemory argonThreads argonKeyLen"
  using verify_own [OF assms] .

theorem VerifyPassword_exact_witness:
  "\<exists>phc. HashPassword (\<lambda>pw salt t m p n. take n (pw @ replicate n 0)) (Some [1, 2, 3]) ''pw'' = Some phc \<and>
     VerifyPassword (\<lambda>pw salt t m p n. take n (pw @ replicate n 0)) ''pw'' phc \<and>
     \<not> VerifyPassword (\<lambda>pw salt t m p n. take n (pw @ replicate n 0)) ''qw'' phc"
proof -
  let ?idk = "\<lambda>(pw :: byte list) (salt :: byte list) (t :: nat) (m :: nat) (p :: nat) n. take n (pw @ replicate n (0 :: byte))"
  obtain phc where h: "HashPassword ?idk (Some [1, 2, 3]) ''pw'' = Some phc" by (simp add: HashPassword_def Let_def)
  have len: "length (?idk pw salt t m p n) = n" for pw salt t m p n by simp
  note v = VerifyPassword_exact [of ?idk, OF len h]
  have "?idk (str_bytes ''qw'') [1, 2, 3] argonTime argonMemory argonThreads argonKeyLen \<noteq> ?idk (str_bytes ''pw'') [1, 2, 3] argonTime argonMemory argonThreads argonKeyLen"
    by (simp add: argonKeyLen_def str_bytes_def)
  with h v [of "''pw''"] v [of "''qw''"] show ?thesis by blast
qed

text \<open>
  A new token has the shape that \<open>ValidateTokenShape\<close> demands, is stored under the hash by which it is looked up, and different random
  bytes give different tokens.
\<close>
theorem NewToken_shape:
  assumes "length raw = 32" and "NewToken (Some raw) = Some (tok, h)"
  shows "ValidateTokenShape tok \<and> h = HashToken tok \<and> length h = 64 \<and> (\<forall>raw' h'. NewToken (Some raw') = Some (tok, h') \<longrightarrow> raw' = raw)"
proof -
  have hex: "hex_encode r1 = hex_encode r2 \<Longrightarrow> r1 = r2" for r1 r2 by (rule hex_encode_inj)
  from assms show ?thesis
    by (auto simp: NewToken_def Let_def ValidateTokenShape_def HashToken_def length_hex_encode length_sha256 dest!: hex)
qed


end
