(* ===== verification/Api.thy ===== *)
theory Api
  imports Authz Search Json Metadata Auth
begin

text \<open>
  The REST API: \<open>internal/api/api.go\<close>. Every route of the table, the dispatcher that authenticates, authorises and routes
  to the owning node, and every handler, as steps on the metadata database. A request body is its bytes and whether the client
  delivered all of them; what the clock, the random source and the database do during a request is the record \<open>api_env\<close>. The
  functions that \<open>cmd/leser\<close> wires in (statistics, events, status) are fields of the API, as in the code. A response keeps the value
  that is encoded as JSON.
\<close>

section \<open>Requests, responses, environment\<close>

definition SessionCookie :: string where "SessionCookie = ''leser_session''"

definition SessionTTL :: int where "SessionTTL = 7 * 24 * 3600 * 1000000000"

text \<open>\<open>aq_Cookie\<close> is the value of the cookie named \<open>SessionCookie\<close>, if the request has one; path values are empty where the pattern has none.\<close>

record ApiRequest =
  aq_Authorization :: string
  aq_Cookie :: "string option"
  aq_project :: string
  aq_issue :: string
  aq_rule :: string
  aq_token :: string
  aq_query :: "string \<Rightarrow> string"
  aq_body :: "byte list"
  aq_body_ok :: bool
  aq_RemoteAddr :: string
  aq_UserAgent :: string
  aq_TLS :: bool

datatype api_body =
    Fields "(string \<times> json) list"
  | DetailIssue issue_err
  | DetailMeta meta_err
  | DetailSearch search_err
  | BProjects "(ProjectInfo \<times> string) list"
  | BIssues "Issue list"
  | BIssue Issue
  | BRules "Rule list"
  | BAudit "AuditEntry list"
  | BAny json

record set_cookie =
  ck_Value :: string
  ck_MaxAge :: int
  ck_HttpOnly :: bool
  ck_Secure :: bool
  ck_SameSiteLax :: bool

record ApiResponse =
  ar_Status :: nat
  ar_Body :: api_body
  ar_Cookie :: "set_cookie option"
  ar_Node :: string

definition respond :: "nat \<Rightarrow> api_body \<Rightarrow> ApiResponse" where
  "respond status v = \<lparr>ar_Status = status, ar_Body = v, ar_Cookie = None, ar_Node = []\<rparr>"

definition writeErr :: "nat \<Rightarrow> string \<Rightarrow> ApiResponse" where
  "writeErr status msg = respond status (Fields [(''detail'', JStr msg)])"

record api_env =
  en_sql :: sql_env
  en_order :: "issue_table \<Rightarrow> issue_table"
  en_idk :: idkey
  en_auth_ok :: bool
  en_proj_ok :: bool
  en_read_ok :: bool
  en_write :: tx_fate
  en_audit :: tx_fate
  en_rand :: "byte list option"
  en_auth_now :: int
  en_now :: int
  en_audit_now :: int
  en_url_ok :: "string \<Rightarrow> bool"

record API =
  api_StatusFn :: json
  api_ConfigFn :: json
  api_StatsFn :: "(int \<Rightarrow> int \<Rightarrow> int \<Rightarrow> int \<Rightarrow> json option) option"
  api_EventsFn :: "(int \<Rightarrow> string \<Rightarrow> int \<Rightarrow> json option) option"
  api_DSNFor :: "(string \<Rightarrow> int \<Rightarrow> string) option"
  api_FingerprintsFn :: "(int \<Rightarrow> string \<Rightarrow> string \<Rightarrow> string \<Rightarrow> string list option) option"
  api_Locator :: "(int \<Rightarrow> string \<times> bool) option"
  api_NodeID :: string

definition api_New :: "json \<Rightarrow> json \<Rightarrow> API" where
  "api_New statusFn configFn =
     \<lparr>api_StatusFn = statusFn, api_ConfigFn = configFn, api_StatsFn = None, api_EventsFn = None, api_DSNFor = None,
      api_FingerprintsFn = None, api_Locator = None, api_NodeID = []\<rparr>"

text \<open>\<open>v, _ := strconv.ParseInt(s, 10, 64)\<close>: zero on a syntax error, the nearest bound when out of range.\<close>

definition parseInt_or :: "string \<Rightarrow> int" where
  "parseInt_or s =
     (let neg = (s \<noteq> [] \<and> hd s = CHR ''-'');
          ds = (if s \<noteq> [] \<and> (hd s = CHR ''-'' \<or> hd s = CHR ''+'') then List.tl s else s);
          v = (if neg then - int (dec_val ds) else int (dec_val ds))
      in if ds \<noteq> [] \<and> list_all is_digit ds then max (- (2 ^ 63)) (min (2 ^ 63 - 1) v) else 0)"

text \<open>
  \<open>json.NewDecoder(http.MaxBytesReader(w, r.Body, n)).Decode\<close>: the first value of the body; what follows it is not read, but a scalar ends only
  at the next byte or at a proper end.
\<close>

definition json_decode :: "'a dec \<Rightarrow> 'a \<Rightarrow> nat \<Rightarrow> ApiRequest \<Rightarrow> 'a option" where
  "json_decode f zero n r =
     (let s = bytes_str (take n (aq_body r)); ended = (length (aq_body r) \<le> n \<and> aq_body_ok r) in
      case p_value (2 * length s + 2) maxNestingDepth s of
        None \<Rightarrow> None
      | Some (j, rest) \<Rightarrow>
          if rest = [] \<and> \<not> ended \<and> (case j of JObj _ \<Rightarrow> False | JArr _ \<Rightarrow> False | _ \<Rightarrow> True) then None
          else case f j zero of (v, ok) \<Rightarrow> if ok then Some v else None)"

definition dec_int64 :: "int dec" where
  "dec_int64 j old =
     (case j of JNum s \<Rightarrow> (case parseInt64 s of Some n \<Rightarrow> (n, True) | None \<Rightarrow> (old, False)) | JNull \<Rightarrow> (old, True) | _ \<Rightarrow> (old, False))"

section \<open>Authentication\<close>

text \<open>The permissions as the strings that tokens carry; a string that names none grants none.\<close>

fun perm_name :: "Permission \<Rightarrow> string" where
  "perm_name EventRead = ''event:read''"
| "perm_name EventAdmin = ''event:admin''"
| "perm_name IssueRead = ''issue:read''"
| "perm_name IssueWrite = ''issue:write''"
| "perm_name ProjectRead = ''project:read''"
| "perm_name ProjectWrite = ''project:write''"
| "perm_name ProjectAdmin = ''project:admin''"
| "perm_name MemberRead = ''member:read''"
| "perm_name MemberWrite = ''member:write''"
| "perm_name TeamWrite = ''team:write''"
| "perm_name OrgRead = ''org:read''"
| "perm_name OrgWrite = ''org:write''"
| "perm_name AlertsWrite = ''alerts:write''"
| "perm_name TokenAdmin = ''token:admin''"
| "perm_name AuditRead = ''audit:read''"
| "perm_name OpsRead = ''ops:read''"

definition perms_named :: "string list \<Rightarrow> Permission list" where
  "perms_named ss = concat (map (\<lambda>s. filter (\<lambda>p. perm_name p = s) AllPermissions) ss)"

definition contextFor :: "api_env \<Rightarrow> meta_db \<Rightarrow> User \<Rightarrow> AuthContext" where
  "contextFor en db u = NewAuthContext (us_ID u) (us_OrgID u) (us_Role u) [] (Some (\<lambda>projectID. ProjectInOrg (en_proj_ok en) db (us_OrgID u) projectID))"

definition bearer :: "ApiRequest \<Rightarrow> string option" where
  "bearer r = (if prefix ''Bearer '' (aq_Authorization r) then Some (drop 7 (aq_Authorization r)) else None)"

definition authenticate :: "api_env \<Rightarrow> meta_db \<Rightarrow> ApiRequest \<Rightarrow> AuthContext option" where
  "authenticate en db r =
     (case bearer r of
        Some tok \<Rightarrow>
          if \<not> ValidateTokenShape tok then None
          else
            (case TokenByHash (en_auth_ok en) db (HashToken tok) (en_auth_now en) of
               Inl _ \<Rightarrow> None
             | Inr (t, u) \<Rightarrow>
                 let actx = contextFor en db u
                 in Some (if 0 < length (tk_Permissions t) then Restrict actx (perms_named (tk_Permissions t)) else actx))
      | None \<Rightarrow>
          (case aq_Cookie r of
             None \<Rightarrow> None
           | Some v \<Rightarrow>
               if v = [] then None
               else (case SessionUser (en_auth_ok en) db v (en_auth_now en) of Inl _ \<Rightarrow> None | Inr u \<Rightarrow> Some (contextFor en db u))))"

section \<open>Handlers\<close>

definition last_colon :: "string \<Rightarrow> nat option" where
  "last_colon s = (let k = length (takeWhile (\<lambda>c. c \<noteq> CHR '':'') (rev s)) in if k < length s then Some (length s - k - 1) else None)"

definition clientIP :: "ApiRequest \<Rightarrow> string" where
  "clientIP r =
     (case last_colon (aq_RemoteAddr r) of
        Some i \<Rightarrow> if 0 < i then take i (aq_RemoteAddr r) else aq_RemoteAddr r
      | None \<Rightarrow> aq_RemoteAddr r)"

text \<open>A failed audit write is only logged.\<close>

definition api_audit :: "api_env \<Rightarrow> ApiRequest \<Rightarrow> int \<Rightarrow> int \<Rightarrow> string \<Rightarrow> string \<Rightarrow> string \<Rightarrow> meta_db \<Rightarrow> meta_db" where
  "api_audit en r orgID actorID action target detail db =
     fst (Audit (en_audit en)
       \<lparr>ae_OrgID = orgID, ae_ActorID = actorID, ae_Action = action, ae_Target = target, ae_Detail = detail, ae_IP = clientIP r,
        ae_UserAgent = aq_UserAgent r, ae_At = 0\<rparr> (en_audit_now en) db)"

record login_req =
  lr_Email :: string
  lr_Password :: string

definition dec_login :: "login_req dec" where
  "dec_login = dec_struct [(''email'', at_field lr_Email lr_Email_update dec_string), (''password'', at_field lr_Password lr_Password_update dec_string)]"

definition dummy_hash :: string where
  "dummy_hash = ''$argon2id$v=19$m=65536,t=3,p=2$AAAAAAAAAAAAAAAAAAAAAA$AAAAAAAAAAAAAAAAAAAAAAAAAAAAAAAAAAAAAAAAAAA''"

type_synonym api_step = "API \<Rightarrow> api_env \<Rightarrow> AuthContext option \<Rightarrow> ApiRequest \<Rightarrow> meta_db \<Rightarrow> meta_db \<times> ApiResponse"

definition handleLogin :: api_step where
  "handleLogin a en actx r db =
     (case json_decode dec_login \<lparr>lr_Email = [], lr_Password = []\<rparr> 4096 r of
        None \<Rightarrow> (db, writeErr 400 ''bad request body'')
      | Some req \<Rightarrow>
          let found = UserByEmail (en_sql en) (en_read_ok en) db (lr_Email req);
              hash = (case found of Inr u \<Rightarrow> us_PasswordHash u | Inl _ \<Rightarrow> dummy_hash)
          in (case (VerifyPassword (en_idk en) (lr_Password req) hash, found) of
                (True, Inr u) \<Rightarrow>
                  (case NewSessionID (en_rand en) of
                     None \<Rightarrow> (db, writeErr 500 ''session'')
                   | Some sid \<Rightarrow>
                       (case CreateSession (en_write en) sid (us_ID u) SessionTTL (en_now en) db of
                          (db1, Inl _) \<Rightarrow> (db1, writeErr 500 ''session'')
                        | (db1, Inr _) \<Rightarrow>
                            (api_audit en r (us_OrgID u) (us_ID u) ''login.success'' (us_Email u) [] db1,
                             (respond 200 (Fields [(''email'', JStr (us_Email u)), (''role'', JStr (us_Role u))]))
                               \<lparr>ar_Cookie := Some \<lparr>ck_Value = sid, ck_MaxAge = 7 * 24 * 3600, ck_HttpOnly = True, ck_Secure = aq_TLS r, ck_SameSiteLax = True\<rparr>\<rparr>)))
              | _ \<Rightarrow> (api_audit en r 0 0 ''login.failed'' (lr_Email req) [] db, writeErr 401 ''invalid credentials'')))"

definition handleLogout :: api_step where
  "handleLogout a en actx r db =
     (let db1 = (case aq_Cookie r of Some v \<Rightarrow> if v \<noteq> [] then fst (RevokeSession (en_write en) v db) else db | None \<Rightarrow> db)
      in (db1, (respond 200 (Fields [(''status'', JStr ''ok'')]))
                 \<lparr>ar_Cookie := Some \<lparr>ck_Value = [], ck_MaxAge = -1, ck_HttpOnly = True, ck_Secure = False, ck_SameSiteLax = False\<rparr>\<rparr>))"

text \<open>The handlers below run with a context; \<open>None\<close> would be a nil dereference and is not reached.\<close>

definition with_ctx :: "AuthContext option \<Rightarrow> meta_db \<Rightarrow> (AuthContext \<Rightarrow> meta_db \<times> ApiResponse) \<Rightarrow> meta_db \<times> ApiResponse" where
  "with_ctx actx db f = (case actx of None \<Rightarrow> (db, writeErr 500 []) | Some c \<Rightarrow> f c)"

definition handleMe :: api_step where
  "handleMe a en actx r db =
     with_ctx actx db (\<lambda>c. (db, respond 200 (Fields [(''user_id'', JNum (int_str (UserID c))), (''org_id'', JNum (int_str (ctx_OrgID c))), (''role'', JStr (Role c))])))"

definition handleProjects :: api_step where
  "handleProjects a en actx r db =
     with_ctx actx db (\<lambda>c.
       case ListProjects (en_read_ok en) db of
         Inl _ \<Rightarrow> (db, writeErr 500 ''list projects'')
       | Inr ps \<Rightarrow>
           (db, respond 200 (BProjects (map (\<lambda>p. (p, case api_DSNFor a of Some f \<Rightarrow> f (pi_PublicKey p) (pj_ID (pi_Project p)) | None \<Rightarrow> []))
                  (filter (\<lambda>p. pj_OrgID (pi_Project p) = ctx_OrgID c) ps)))))"

definition handleStats :: api_step where
  "handleStats a en actx r db =
     (case api_StatsFn a of
        None \<Rightarrow> (db, writeErr 501 ''stats not wired'')
      | Some statsFn \<Rightarrow>
          let pid = parseInt_or (aq_project r);
              tmin = parseInt_or (aq_query r ''since''); tmax = parseInt_or (aq_query r ''until''); bucket = parseInt_or (aq_query r ''bucket'');
              tmin1 = (if tmin = 0 then en_now en - 24 * 3600 * 1000000000 else tmin)
          in (case statsFn pid tmin1 tmax bucket of None \<Rightarrow> (db, writeErr 500 ''aggregate'') | Some st \<Rightarrow> (db, respond 200 (BAny st))))"

text \<open>The filter that \<open>?status=\<close> and \<open>?query=\<close> ask for.\<close>

definition list_filter :: "API \<Rightarrow> int \<Rightarrow> ApiRequest \<Rightarrow> ApiResponse + IssueFilter" where
  "list_filter a pid r =
     (let f = \<lparr>fl_Status = aq_query r ''status'', fl_Level = [], fl_TitleLike = [], fl_Fingerprint = [], fl_Fingerprints = None\<rparr> in
      if aq_query r ''query'' = [] then Inr f
      else
        (case search_Parse (aq_query r ''query'') of
           Inl err \<Rightarrow> Inl (respond 400 (DetailSearch err))
         | Inr parsed \<Rightarrow>
             let f1 = f\<lparr>fl_Status := (if f_Status parsed \<noteq> [] then f_Status parsed else fl_Status f), fl_Level := f_Level parsed,
                        fl_TitleLike := f_Text parsed, fl_Fingerprint := f_Fingerprint parsed\<rparr>
             in if \<not> NeedsEventLookup parsed then Inr f1
                else
                  (case api_FingerprintsFn a of
                     None \<Rightarrow> Inl (writeErr 501 ''event-backed search not wired'')
                   | Some fpsFn \<Rightarrow>
                       (case fpsFn pid (f_Release parsed) (f_Environment parsed) (f_UserID parsed) of
                          None \<Rightarrow> Inl (writeErr 500 ''event search'')
                        | Some fps \<Rightarrow> Inr (f1\<lparr>fl_Fingerprints := Some fps\<rparr>)))))"

definition handleIssueList :: api_step where
  "handleIssueList a en actx r db =
     (let pid = parseInt_or (aq_project r); limit = parseInt_or (aq_query r ''limit'') in
      case list_filter a pid r of
        Inl resp \<Rightarrow> (db, resp)
      | Inr f \<Rightarrow>
          if \<not> en_read_ok en then (db, writeErr 500 ''list issues'')
          else (db, respond 200 (BIssues (ListIssuesFiltered (en_order en) (db_issues db) pid f limit))))"

definition get_issue :: "api_env \<Rightarrow> meta_db \<Rightarrow> ApiRequest \<Rightarrow> ApiResponse + Issue" where
  "get_issue en db r =
     (if \<not> en_read_ok en then Inl (writeErr 500 ''get issue'')
      else case GetIssue (db_issues db) (parseInt_or (aq_project r)) (parseInt_or (aq_issue r)) of
        Inl _ \<Rightarrow> Inl (writeErr 404 ''not found'')
      | Inr iss \<Rightarrow> Inr iss)"

definition handleIssueGet :: api_step where
  "handleIssueGet a en actx r db =
     (case get_issue en db r of Inl resp \<Rightarrow> (db, resp) | Inr iss \<Rightarrow> (db, respond 200 (BIssue iss)))"

definition handleIssueEvents :: api_step where
  "handleIssueEvents a en actx r db =
     (case api_EventsFn a of
        None \<Rightarrow> (db, writeErr 501 ''events not wired'')
      | Some eventsFn \<Rightarrow>
          (case get_issue en db r of
             Inl resp \<Rightarrow> (db, resp)
           | Inr iss \<Rightarrow>
               let limit = parseInt_or (aq_query r ''limit''); n = (if limit \<le> 0 \<or> 50 < limit then 5 else limit)
               in (case eventsFn (parseInt_or (aq_project r)) (Fingerprint iss) n of
                     None \<Rightarrow> (db, writeErr 500 ''events'')
                   | Some evs \<Rightarrow> (db, respond 200 (BAny evs)))))"

text \<open>The end of a handler that changed an issue: \<open>ErrNotFound\<close> is 404, another error \<open>other\<close>, success is audited.\<close>

definition finish_issue ::
  "api_env \<Rightarrow> AuthContext \<Rightarrow> ApiRequest \<Rightarrow> string \<times> string \<times> string \<Rightarrow> string \<Rightarrow> (issue_err \<Rightarrow> ApiResponse) \<Rightarrow> meta_db \<times> (issue_err + unit) \<Rightarrow> meta_db \<times> ApiResponse" where
  "finish_issue en c r entry status other res =
     (case res of
        (db1, Inl err) \<Rightarrow> (db1, if err = ErrNotFound then writeErr 404 ''not found'' else other err)
      | (db1, Inr _) \<Rightarrow>
          (case entry of (action, target, detail) \<Rightarrow>
             (api_audit en r (ctx_OrgID c) (UserID c) action target detail db1, respond 200 (Fields [(''status'', JStr status)]))))"

definition dec_status :: "string dec" where
  "dec_status = dec_struct [(''status'', dec_string)]"

definition handleIssueStatus :: api_step where
  "handleIssueStatus a en actx r db =
     with_ctx actx db (\<lambda>c.
       let pid = parseInt_or (aq_project r); iid = parseInt_or (aq_issue r) in
       case json_decode dec_status [] 1024 r of
         None \<Rightarrow> (db, writeErr 400 ''bad request body'')
       | Some status \<Rightarrow>
           finish_issue en c r (''issue.status'', int_str iid, status) status (\<lambda>err. respond 400 (DetailIssue err))
             (db_Issue (en_write en) (\<lambda>t ok. SetIssueStatus t ok pid iid status) db))"

record merge_req =
  mr_TargetID :: int
  mr_Sources :: "int slice"

definition dec_merge :: "merge_req dec" where
  "dec_merge =
     dec_struct [(''target_id'', at_field mr_TargetID mr_TargetID_update dec_int64),
       (''source_ids'', at_field mr_Sources mr_Sources_update (dec_slice dec_int64 0))]"

definition handleIssueMerge :: api_step where
  "handleIssueMerge a en actx r db =
     with_ctx actx db (\<lambda>c.
       let pid = parseInt_or (aq_project r) in
       case json_decode dec_merge \<lparr>mr_TargetID = 0, mr_Sources = (0, [])\<rparr> (64 * 1024) r of
         None \<Rightarrow> (db, writeErr 400 ''target_id and source_ids required'')
       | Some req \<Rightarrow>
           let sources = elems (mr_Sources req) in
           if length sources = 0 then (db, writeErr 400 ''target_id and source_ids required'')
           else if 100 < length sources then (db, writeErr 400 ''too many sources (max 100)'')
           else finish_issue en c r (''issue.merge'', int_str (mr_TargetID req), []) ''merged'' (\<lambda>err. respond 400 (DetailIssue err))
                  (db_Issue (en_write en) (\<lambda>t ok. MergeIssues t ok pid (mr_TargetID req) sources) db))"

definition handleIssueSplit :: api_step where
  "handleIssueSplit a en actx r db =
     with_ctx actx db (\<lambda>c.
       let pid = parseInt_or (aq_project r); iid = parseInt_or (aq_issue r) in
       finish_issue en c r (''issue.split'', int_str iid, []) ''split'' (\<lambda>err. writeErr 500 ''split'')
         (db_Issue (en_write en) (\<lambda>t ok. SplitIssue t ok pid iid) db))"

definition handleAlertList :: api_step where
  "handleAlertList a en actx r db =
     (case ListAlertRules (en_read_ok en) db (parseInt_or (aq_project r)) of
        Inl _ \<Rightarrow> (db, writeErr 500 ''list alerts'')
      | Inr rules \<Rightarrow> (db, respond 200 (BRules rules)))"

record alert_req =
  al_Name :: string
  al_Condition :: string
  al_Threshold :: int
  al_WebhookURL :: string

definition dec_alert :: "alert_req dec" where
  "dec_alert =
     dec_struct [(''name'', at_field al_Name al_Name_update dec_string), (''condition'', at_field al_Condition al_Condition_update dec_string),
       (''threshold'', at_field al_Threshold al_Threshold_update dec_int64), (''webhook_url'', at_field al_WebhookURL al_WebhookURL_update dec_string)]"

definition handleAlertCreate :: api_step where
  "handleAlertCreate a en actx r db =
     with_ctx actx db (\<lambda>c.
       case json_decode dec_alert \<lparr>al_Name = [], al_Condition = [], al_Threshold = 0, al_WebhookURL = []\<rparr> 8192 r of
         None \<Rightarrow> (db, writeErr 400 ''bad request body'')
       | Some req \<Rightarrow>
           (case CreateAlertRule (en_sql en) (en_write en)
                   \<lparr>r_ID = 0, r_OrgID = ctx_OrgID c, r_ProjectID = parseInt_or (aq_project r), r_Name = al_Name req, r_Condition = al_Condition req,
                    r_Threshold = al_Threshold req, r_WebhookURL = al_WebhookURL req, r_Enabled = True\<rparr> db of
              (db1, Inl err) \<Rightarrow> (db1, respond 400 (DetailMeta err))
            | (db1, Inr i) \<Rightarrow>
                (api_audit en r (ctx_OrgID c) (UserID c) ''alert.create'' (al_Name req) (al_Condition req) db1, respond 200 (Fields [(''id'', JNum (int_str i))]))))"

text \<open>The end of a handler that deleted something.\<close>

definition finish_meta ::
  "api_env \<Rightarrow> AuthContext \<Rightarrow> ApiRequest \<Rightarrow> string \<times> string \<Rightarrow> string \<Rightarrow> string \<Rightarrow> meta_db \<times> (meta_err + unit) \<Rightarrow> meta_db \<times> ApiResponse" where
  "finish_meta en c r entry status failure res =
     (case res of
        (db1, Inl err) \<Rightarrow> (db1, if err = NotFound then writeErr 404 ''not found'' else writeErr 500 failure)
      | (db1, Inr _) \<Rightarrow>
          (case entry of (action, target) \<Rightarrow>
             (api_audit en r (ctx_OrgID c) (UserID c) action target [] db1, respond 200 (Fields [(''status'', JStr status)]))))"

definition handleAlertDelete :: api_step where
  "handleAlertDelete a en actx r db =
     with_ctx actx db (\<lambda>c.
       let pid = parseInt_or (aq_project r); rid = parseInt_or (aq_rule r) in
       finish_meta en c r (''alert.delete'', int_str rid) ''deleted'' ''delete alert'' (DeleteAlertRule (en_write en) pid rid db))"

definition handleOpsStatus :: api_step where
  "handleOpsStatus a en actx r db = (db, respond 200 (BAny (api_StatusFn a)))"

definition handleOpsConfig :: api_step where
  "handleOpsConfig a en actx r db = (db, respond 200 (BAny (api_ConfigFn a)))"

definition handleAudit :: api_step where
  "handleAudit a en actx r db =
     with_ctx actx db (\<lambda>c.
       case AuditList (en_sql en) (en_read_ok en) db (ctx_OrgID c) (parseInt_or (aq_query r ''limit'')) of
         Inl _ \<Rightarrow> (db, writeErr 500 ''audit'')
       | Inr entries \<Rightarrow> (db, respond 200 (BAudit entries)))"

record token_req =
  tq_Name :: string
  tq_Permissions :: "string slice"
  tq_ExpiresDays :: int

definition dec_token :: "token_req dec" where
  "dec_token =
     dec_struct [(''name'', at_field tq_Name tq_Name_update dec_string), (''permissions'', at_field tq_Permissions tq_Permissions_update (dec_slice dec_string [])),
       (''expires_days'', at_field tq_ExpiresDays tq_ExpiresDays_update dec_int64)]"

text \<open>\<open>time.Duration(days) * 24 * time.Hour\<close> wraps around at 64 bits.\<close>

definition token_expiry :: "int \<Rightarrow> int \<Rightarrow> int" where
  "token_expiry now days =
     (if 0 < days then sint (word_of_int (now + sint (word_of_int (days * 24 * 3600000000000) :: u64)) :: u64) else 0)"

definition handleTokenCreate :: api_step where
  "handleTokenCreate a en actx r db =
     with_ctx actx db (\<lambda>c.
       case json_decode dec_token \<lparr>tq_Name = [], tq_Permissions = (0, []), tq_ExpiresDays = 0\<rparr> 4096 r of
         None \<Rightarrow> (db, writeErr 400 ''name required'')
       | Some req \<Rightarrow>
           if tq_Name req = [] then (db, writeErr 400 ''name required'')
           else
             (case NewToken (en_rand en) of
                None \<Rightarrow> (db, writeErr 500 ''token'')
              | Some (plain, hash) \<Rightarrow>
                  (case CreateToken (en_sql en) (en_write en)
                          \<lparr>tk_ID = 0, tk_OrgID = ctx_OrgID c, tk_UserID = UserID c, tk_Name = tq_Name req, tk_Permissions = elems (tq_Permissions req),
                           tk_ExpiresAt = token_expiry (en_now en) (tq_ExpiresDays req)\<rparr> hash db of
                     (db1, Inl _) \<Rightarrow> (db1, writeErr 500 ''token'')
                   | (db1, Inr i) \<Rightarrow>
                       (api_audit en r (ctx_OrgID c) (UserID c) ''token.create'' (tq_Name req) [] db1,
                        respond 200 (Fields [(''id'', JNum (int_str i)), (''token'', JStr plain)])))))"

definition handleTokenRevoke :: api_step where
  "handleTokenRevoke a en actx r db =
     with_ctx actx db (\<lambda>c.
       let tid = parseInt_or (aq_token r) in
       finish_meta en c r (''token.revoke'', int_str tid) ''revoked'' ''revoke'' (RevokeToken (en_write en) (ctx_OrgID c) tid db))"

section \<open>Routes and dispatch\<close>

record Route =
  rt_Method :: string
  rt_Path :: string
  rt_Perm :: "Permission option"
  rt_Public :: bool
  rt_Project :: bool
  rt_Handle :: api_step

definition public :: "string \<Rightarrow> string \<Rightarrow> api_step \<Rightarrow> Route" where
  "public m p h = \<lparr>rt_Method = m, rt_Path = p, rt_Perm = None, rt_Public = True, rt_Project = False, rt_Handle = h\<rparr>"

definition guarded :: "string \<Rightarrow> string \<Rightarrow> Permission \<Rightarrow> bool \<Rightarrow> api_step \<Rightarrow> Route" where
  "guarded m p q proj h = \<lparr>rt_Method = m, rt_Path = p, rt_Perm = Some q, rt_Public = False, rt_Project = proj, rt_Handle = h\<rparr>"

definition Routes :: "Route list" where
  "Routes =
     [public ''POST'' ''/api/0/login'' handleLogin,
      public ''POST'' ''/api/0/logout'' handleLogout,
      guarded ''GET'' ''/api/0/me'' OrgRead False handleMe,
      guarded ''GET'' ''/api/0/projects'' ProjectRead False handleProjects,
      guarded ''GET'' ''/api/0/projects/{project_id}/stats'' IssueRead True handleStats,
      guarded ''GET'' ''/api/0/projects/{project_id}/issues'' IssueRead True handleIssueList,
      guarded ''GET'' ''/api/0/projects/{project_id}/issues/{issue_id}'' IssueRead True handleIssueGet,
      guarded ''GET'' ''/api/0/projects/{project_id}/issues/{issue_id}/events'' EventRead True handleIssueEvents,
      guarded ''PUT'' ''/api/0/projects/{project_id}/issues/{issue_id}/status'' IssueWrite True handleIssueStatus,
      guarded ''POST'' ''/api/0/projects/{project_id}/issues/merge'' IssueWrite True handleIssueMerge,
      guarded ''POST'' ''/api/0/projects/{project_id}/issues/{issue_id}/split'' IssueWrite True handleIssueSplit,
      guarded ''GET'' ''/api/0/projects/{project_id}/alerts'' AlertsWrite True handleAlertList,
      guarded ''POST'' ''/api/0/projects/{project_id}/alerts'' AlertsWrite True handleAlertCreate,
      guarded ''DELETE'' ''/api/0/projects/{project_id}/alerts/{rule_id}'' AlertsWrite True handleAlertDelete,
      guarded ''GET'' ''/api/0/ops/status'' OpsRead False handleOpsStatus,
      guarded ''GET'' ''/api/0/ops/config'' OpsRead False handleOpsConfig,
      guarded ''GET'' ''/api/0/audit'' AuditRead False handleAudit,
      guarded ''POST'' ''/api/0/tokens'' TokenAdmin False handleTokenCreate,
      guarded ''DELETE'' ''/api/0/tokens/{token_id}'' TokenAdmin False handleTokenRevoke]"

text \<open>
  A request is answered here, or sent on to the node at an address. What the reverse proxy sends
  (\<open>httputil.NewSingleHostReverseProxy\<close>) is the request as it came: method, path, query, body and the headers read here,
  the credentials and the user agent among them; whether it travels over TLS is a matter of the address. The node that receives it
  sees the sender as the remote end (\<open>arrive\<close>). Addresses name a host and a port, without a path of their own.
\<close>

datatype api_out = Served meta_db ApiResponse | Proxied string ApiRequest

definition forward :: "string \<Rightarrow> ApiRequest \<Rightarrow> ApiRequest" where
  "forward addr r = r\<lparr>aq_TLS := (to_lower (take 6 addr) = ''https:'')\<rparr>"

definition arrive :: "string \<Rightarrow> ApiRequest \<Rightarrow> ApiRequest" where
  "arrive peer r = r\<lparr>aq_RemoteAddr := peer\<rparr>"

definition api_proxy :: "api_env \<Rightarrow> string \<Rightarrow> ApiRequest \<Rightarrow> meta_db \<Rightarrow> api_out" where
  "api_proxy en addr r db = (if en_url_ok en addr then Proxied addr (forward addr r) else Served db (writeErr 502 ''invalid owner address''))"

definition serve_local :: "API \<Rightarrow> api_env \<Rightarrow> Route \<Rightarrow> AuthContext option \<Rightarrow> ApiRequest \<Rightarrow> meta_db \<Rightarrow> api_out" where
  "serve_local a en rt actx r db = (case rt_Handle rt a en actx r db of (db', resp) \<Rightarrow> Served db' (resp\<lparr>ar_Node := api_NodeID a\<rparr>))"

definition dispatch :: "API \<Rightarrow> api_env \<Rightarrow> Route \<Rightarrow> ApiRequest \<Rightarrow> meta_db \<Rightarrow> api_out" where
  "dispatch a en rt r db =
     (if rt_Public rt then serve_local a en rt None r db
      else
        (case authenticate en db r of
           None \<Rightarrow> Served db (writeErr 401 ''authentication required'')
         | Some actx \<Rightarrow>
             if (case rt_Perm rt of None \<Rightarrow> True | Some q \<Rightarrow> \<not> Can (Some actx) q) then Served db (writeErr 403 ''permission denied'')
             else if rt_Project rt then
               (case parseInt64 (aq_project r) of
                  None \<Rightarrow> Served db (writeErr 404 ''not found'')
                | Some pid \<Rightarrow>
                    if \<not> CanProject (Some actx) (the (rt_Perm rt)) pid then Served db (writeErr 404 ''not found'')
                    else
                      (case api_Locator a of
                         None \<Rightarrow> serve_local a en rt (Some actx) r db
                       | Some locate \<Rightarrow>
                           (case locate pid of
                              (addr, True) \<Rightarrow> api_proxy en addr r db
                            | (addr, False) \<Rightarrow> serve_local a en rt (Some actx) r db)))
             else serve_local a en rt (Some actx) r db))"

text \<open>
  A request and, if it is sent on, the answer that comes back: \<open>net\<close> gives the node that listens at an address and mounts the
  API, with its own clock, randomness and outcomes, and the address it sees the sender under. Its response is passed on as it is; where
  nothing answers the proxy writes an empty 502. The nodes share one metadata store.
\<close>

definition proxy_round :: "(string \<Rightarrow> (API \<times> api_env \<times> string) option) \<Rightarrow> API \<Rightarrow> api_env \<Rightarrow> Route \<Rightarrow> ApiRequest \<Rightarrow> meta_db \<Rightarrow> api_out" where
  "proxy_round net a en rt r db =
     (case dispatch a en rt r db of
        Served db' resp \<Rightarrow> Served db' resp
      | Proxied addr q \<Rightarrow>
          (case net addr of
             None \<Rightarrow> Served db (respond 502 (Fields []))
           | Some (b, en', peer) \<Rightarrow> dispatch b en' rt (arrive peer q) db))"

definition api_Register :: "API \<Rightarrow> (string \<times> (api_env \<Rightarrow> ApiRequest \<Rightarrow> meta_db \<Rightarrow> api_out)) list" where
  "api_Register a = map (\<lambda>rt. (rt_Method rt @ '' '' @ rt_Path rt, \<lambda>en r db. dispatch a en rt r db)) Routes"

end
