(* ===== verification/Api_Props.thy ===== *)
theory Api_Props
  imports Api Metadata_Props
begin

text \<open>
  What the API guarantees: a guarded route does nothing without an authenticated caller who has the route's permission (and, on a project
  route, the project); whatever a caller does, the rows of other organisations do not change and are not shown; a login gives a session
  that lives until it expires or is revoked; every change is in the audit log.
\<close>

section \<open>Deny by default\<close>

lemma parseInt_or_Some: "parseInt64 s = Some v \<Longrightarrow> parseInt_or s = v"
  unfolding parseInt64_def parseInt_or_def Let_def by (auto simp: max_def min_def split: if_splits)

lemma fold_insert_set: "set (fold List.insert xs ys) = set xs \<union> set ys"
  by (induction xs arbitrary: ys) auto

lemma contextFor_simps [simp]:
  "UserID (contextFor en db u) = us_ID u" "ctx_OrgID (contextFor en db u) = us_OrgID u"
  "set (perms (contextFor en db u)) = set (RolePermissions (us_Role u))"
  "projectOK (contextFor en db u) = Some (\<lambda>pid. ProjectInOrg (en_proj_ok en) db (us_OrgID u) pid)"
  by (simp_all add: contextFor_def NewAuthContext_def fold_insert_set)

lemma restrict_fold: "set (fold (\<lambda>p pm. if p \<in> S then List.insert p pm else pm) ps acc) = set acc \<union> (set ps \<inter> S)"
  by (induction ps arbitrary: acc) auto

lemma Restrict_simps [simp]:
  "UserID (Restrict c ps) = UserID c" "ctx_OrgID (Restrict c ps) = ctx_OrgID c" "set (perms (Restrict c ps)) = set ps \<inter> set (perms c)"
  "projectOK (Restrict c ps) = projectOK c"
  by (simp_all add: Restrict_def restrict_fold)

text \<open>An authenticated caller is a user of the database, with no more than the permissions of the user's role.\<close>

definition acts_for :: "api_env \<Rightarrow> meta_db \<Rightarrow> AuthContext \<Rightarrow> bool" where
  "acts_for en db c \<longleftrightarrow> (\<exists>u \<in> set (db_users db). UserID c = us_ID u \<and> ctx_OrgID c = us_OrgID u \<and> set (perms c) \<subseteq> set (RolePermissions (us_Role u)) \<and>
     projectOK c = Some (\<lambda>pid. ProjectInOrg (en_proj_ok en) db (us_OrgID u) pid))"

lemma SessionUser_in:
  assumes "SessionUser ok db sid now = Inr u"
  shows "u \<in> set (db_users db)"
proof -
  let ?rows = "concat (map (\<lambda>s. filter (\<lambda>u. us_ID u = ss_UserID s) (db_users db))
    (filter (\<lambda>s. ss_ID s = sid \<and> \<not> ss_Revoked s \<and> now < ss_ExpiresAt s) (db_sessions db)))"
  from assms obtain us where "?rows = u # us" unfolding SessionUser_def by (simp split: if_splits list.splits)
  then have "u \<in> set ?rows" by (metis list.set_intros(1))
  then show ?thesis by auto
qed

lemma TokenByHash_in:
  assumes "TokenByHash ok db h now = Inr (t, u)"
  shows "u \<in> set (db_users db)"
proof -
  let ?rows = "concat (map (\<lambda>t. map (\<lambda>u. (t, u)) (filter (\<lambda>u. us_ID u = tr_UserID t) (db_users db)))
    (filter (\<lambda>t. tr_Hash t = h \<and> \<not> tr_Revoked t \<and> (tr_ExpiresAt t = 0 \<or> now < tr_ExpiresAt t)) (db_tokens db)))"
  from assms obtain x us where "?rows = (x, u) # us" unfolding TokenByHash_def by (simp split: if_splits list.splits prod.splits)
  then have "(x, u) \<in> set ?rows" by (metis list.set_intros(1))
  then show ?thesis by auto
qed

lemma authenticate_acts_for:
  assumes "authenticate en db r = Some c"
  shows "acts_for en db c"
proof -
  have "\<exists>u. u \<in> set (db_users db) \<and> (c = contextFor en db u \<or> (\<exists>ps. c = Restrict (contextFor en db u) ps))"
  proof (cases "bearer r")
    case None
    with assms show ?thesis by (auto simp: authenticate_def split: option.splits if_splits sum.splits dest!: SessionUser_in)
  next
    case (Some tok)
    with assms obtain t u where "TokenByHash (en_auth_ok en) db (HashToken tok) (en_auth_now en) = Inr (t, u)"
      "c = (if 0 < length (tk_Permissions t) then Restrict (contextFor en db u) (perms_named (tk_Permissions t)) else contextFor en db u)"
      by (auto simp: authenticate_def Let_def split: if_splits sum.splits)
    then show ?thesis by (metis TokenByHash_in)
  qed
  then obtain u where u: "u \<in> set (db_users db)" "c = contextFor en db u \<or> (\<exists>ps. c = Restrict (contextFor en db u) ps)" by blast
  then show ?thesis unfolding acts_for_def by (intro bexI [of _ u]) auto
qed

lemma Routes_guarded: "rt \<in> set Routes \<Longrightarrow> \<not> rt_Public rt \<Longrightarrow> \<exists>q. rt_Perm rt = Some q"
  by (auto simp: Routes_def public_def guarded_def)

text \<open>What the dispatcher has established when it serves or forwards a guarded request.\<close>

definition authorised :: "api_env \<Rightarrow> meta_db \<Rightarrow> Route \<Rightarrow> ApiRequest \<Rightarrow> AuthContext \<Rightarrow> bool" where
  "authorised en db rt r c \<longleftrightarrow> authenticate en db r = Some c \<and> acts_for en db c \<and> (\<exists>q. rt_Perm rt = Some q \<and> q \<in> set (perms c)) \<and>
     (rt_Project rt \<longrightarrow> (\<exists>pid. parseInt64 (aq_project r) = Some pid \<and> ProjectInOrg (en_proj_ok en) db (ctx_OrgID c) pid))"

lemma dispatch_cases:
  assumes "\<not> rt_Public rt"
  obtains (denied) st msg where "dispatch a en rt r db = Served db (writeErr st msg)" and "st \<in> {401, 403, 404}"
    | (forwarded) c addr where "authorised en db rt r c" and "dispatch a en rt r db = api_proxy en addr r db"
    | (served) c where "authorised en db rt r c" and "dispatch a en rt r db = serve_local a en rt (Some c) r db"
proof (cases "authenticate en db r")
  case None
  then show thesis using denied assms by (simp add: dispatch_def)
next
  case (Some c)
  note c = Some authenticate_acts_for [OF Some]
  show thesis
  proof (cases "\<exists>q. rt_Perm rt = Some q \<and> q \<in> set (perms c)")
    case False
    then have "case rt_Perm rt of None \<Rightarrow> True | Some q \<Rightarrow> \<not> Can (Some c) q" by (simp add: Can_def split: option.split)
    then show thesis using denied [of 403 "''permission denied''"] assms c by (simp add: dispatch_def)
  next
    case True
    then obtain q where q: "rt_Perm rt = Some q" "q \<in> set (perms c)" by blast
    show thesis
    proof (cases "rt_Project rt")
      case False
      then show thesis using served [of c] assms c q by (simp add: dispatch_def Can_def authorised_def)
    next
      case True
      show thesis
      proof (cases "parseInt64 (aq_project r)")
        case None
        then show thesis using denied assms c q True by (simp add: dispatch_def Can_def)
      next
        case (Some pid)
        show thesis
        proof (cases "CanProject (Some c) q pid")
          case False
          then show thesis using denied assms c q True Some by (simp add: dispatch_def Can_def)
        next
          case can: True
          then have ok: "authorised en db rt r c" using c q Some by (auto simp: authorised_def acts_for_def CanProject_def Can_def)
          have d: "dispatch a en rt r db = (case api_Locator a of None \<Rightarrow> serve_local a en rt (Some c) r db
              | Some locate \<Rightarrow> (case locate pid of (addr, True) \<Rightarrow> api_proxy en addr r db | (addr, False) \<Rightarrow> serve_local a en rt (Some c) r db))"
            using assms c q True Some can by (simp add: dispatch_def Can_def)
          show thesis
          proof (cases "api_Locator a")
            case None
            then show thesis using served [OF ok] d by simp
          next
            case (Some locate)
            obtain addr rem where "locate pid = (addr, rem)" by (cases "locate pid")
            then show thesis using served [OF ok] forwarded [OF ok] d Some by (cases rem) auto
          qed
        qed
      qed
    qed
  qed
qed

section \<open>Tenants\<close>

text \<open>The database without what belongs to organisation \<open>og\<close> with projects \<open>P\<close>; and that a response shows nothing else.\<close>

definition foreign :: "int \<Rightarrow> int set \<Rightarrow> meta_db \<Rightarrow> meta_db" where
  "foreign og P db =
     db\<lparr>db_issues := filter (\<lambda>i. ProjectID i \<notin> P) (db_issues db), db_rules := filter (\<lambda>r. r_ProjectID r \<notin> P) (db_rules db),
        db_tokens := filter (\<lambda>t. tr_OrgID t \<noteq> og) (db_tokens db), db_audit := filter (\<lambda>e. ae_OrgID e \<noteq> og) (db_audit db)\<rparr>"

fun shown :: "int \<Rightarrow> int set \<Rightarrow> api_body \<Rightarrow> bool" where
  "shown og P (BProjects ps) = (\<forall>p \<in> set ps. pj_OrgID (pi_Project (fst p)) = og)"
| "shown og P (BIssues is) = (\<forall>i \<in> set is. ProjectID i \<in> P)"
| "shown og P (BIssue i) = (ProjectID i \<in> P)"
| "shown og P (BRules rs) = (\<forall>r \<in> set rs. r_ProjectID r \<in> P)"
| "shown og P (BAudit es) = (\<forall>e \<in> set es. ae_OrgID e = og)"
| "shown og P _ = True"

definition isolated :: "int \<Rightarrow> int set \<Rightarrow> meta_db \<Rightarrow> meta_db \<times> ApiResponse \<Rightarrow> bool" where
  "isolated og P db out \<longleftrightarrow> foreign og P (fst out) = foreign og P db \<and> shown og P (ar_Body (snd out))"

lemma shown_simps [simp]: "ar_Body (writeErr st msg) = Fields [(''detail'', JStr msg)]" "ar_Body (respond st v) = v"
  by (simp_all add: writeErr_def respond_def)

lemma foreign_audit [simp]: "foreign og P (api_audit en r og uid act tgt det db) = foreign og P db"
  by (simp add: api_audit_def Audit_def Let_def db_Write_total foreign_def)

lemma foreign_write:
  assumes "\<And>db' x. fn db = Inr (db', x) \<Longrightarrow> foreign og P db' = foreign og P db"
  shows "foreign og P (fst (db_Write ft fn db)) = foreign og P db"
  by (rule db_Write_keeps [where P = "\<lambda>d. foreign og P d = foreign og P db"]) (use assms in auto)

lemma foreign_issue:
  assumes "\<And>b. filter (\<lambda>i. ProjectID i \<notin> P) (fst (f (db_issues db) b)) = filter (\<lambda>i. ProjectID i \<notin> P) (db_issues db)"
  shows "foreign og P (fst (db_Issue ft f db)) = foreign og P db"
  using assms by (simp add: db_Issue_fst foreign_def)

lemma filter_update_where:
  assumes "\<And>r. r \<in> set t \<Longrightarrow> Q r \<Longrightarrow> ProjectID r \<in> P" and "\<And>r. ProjectID (f r) = ProjectID r"
  shows "filter (\<lambda>i. ProjectID i \<notin> P) (update_where Q f t) = filter (\<lambda>i. ProjectID i \<notin> P) t"
  using assms(1) by (induction t) (simp_all add: update_where_def assms(2))

lemma status_foreign: "pid \<in> P \<Longrightarrow> filter (\<lambda>i. ProjectID i \<notin> P) (fst (SetIssueStatus t b pid i st)) = filter (\<lambda>i. ProjectID i \<notin> P) t"
  by (auto simp: SetIssueStatus_def Let_def intro!: filter_update_where)

lemma split_foreign: "pid \<in> P \<Longrightarrow> filter (\<lambda>i. ProjectID i \<notin> P) (fst (SplitIssue t b pid i)) = filter (\<lambda>i. ProjectID i \<notin> P) t"
  by (auto simp: SplitIssue_def Let_def intro!: filter_update_where)

text \<open>A merge adds to the target by its id alone; ids are unique and the target is in the project.\<close>

lemma merge_one_foreign:
  assumes "distinct (map ID t)" and "merge_target pid tgt t" and "pid \<in> P"
  shows "filter (\<lambda>i. ProjectID i \<notin> P) (merge_one pid tgt src cnt t) = filter (\<lambda>i. ProjectID i \<notin> P) t"
proof -
  obtain x where x: "x \<in> set t" "ID x = tgt" "ProjectID x = pid" using assms(2) by (auto simp: merge_target_def)
  have tgt: "ProjectID r = pid" if "r \<in> set t" "ID r = tgt" for r
    using that x assms(1) by (metis distinct_map inj_onD)
  have "map (merge_row pid tgt src cnt) (filter (\<lambda>i. ProjectID i \<notin> P) t) = filter (\<lambda>i. ProjectID i \<notin> P) t"
    by (rule map_idI) (use assms(3) tgt in \<open>auto simp: merge_row_def\<close>)
  then show ?thesis by (simp add: merge_one_map filter_map comp_def)
qed

lemma merge_loop_foreign:
  "merge_loop pid tgt srcs t = Inr t' \<Longrightarrow> distinct (map ID t) \<Longrightarrow> merge_target pid tgt t \<Longrightarrow> pid \<in> P \<Longrightarrow>
   filter (\<lambda>i. ProjectID i \<notin> P) t' = filter (\<lambda>i. ProjectID i \<notin> P) t"
proof (induction srcs arbitrary: t)
  case (Cons s srcs)
  from Cons.prems(1) obtain n where n: "s \<noteq> tgt" "merge_loop pid tgt srcs (merge_one pid tgt s n t) = Inr t'" by (auto split: if_splits option.splits)
  have "map ID (merge_one pid tgt s n t) = map ID t" by (simp add: merge_one_map)
  with Cons.IH [OF n(2) _ merge_one_target [OF Cons.prems(3) n(1)] Cons.prems(4)] Cons.prems(2) merge_one_foreign [OF Cons.prems(2-4)]
  show ?case by simp
qed simp

lemma merge_foreign:
  assumes "issues_inv t" and "pid \<in> P"
  shows "filter (\<lambda>i. ProjectID i \<notin> P) (fst (MergeIssues t b pid tgt srcs)) = filter (\<lambda>i. ProjectID i \<notin> P) t"
proof -
  have "filter (\<lambda>i. ProjectID i \<notin> P) t' = filter (\<lambda>i. ProjectID i \<notin> P) t"
    if "list_ex (\<lambda>r. ID r = tgt \<and> ProjectID r = pid \<and> MergedInto r = None) t" "merge_loop pid tgt srcs t = Inr t'" for t'
    by (rule merge_loop_foreign [OF that(2)]) (use that(1) assms in \<open>auto simp: issues_inv_def merge_target_def list_ex_iff\<close>)
  then show ?thesis by (simp add: MergeIssues_def split: sum.split)
qed

lemma finish_issue_isolated:
  assumes "ctx_OrgID c = og" and "foreign og P (fst res) = foreign og P db" and "\<And>e. shown og P (ar_Body (other e))"
  shows "isolated og P db (finish_issue en c r entry status other res)"
  using assms by (cases res; cases entry) (auto simp: finish_issue_def isolated_def split: sum.split)

lemma finish_meta_isolated:
  assumes "ctx_OrgID c = og" and "foreign og P (fst res) = foreign og P db"
  shows "isolated og P db (finish_meta en c r entry status failure res)"
  using assms by (cases res; cases entry) (auto simp: finish_meta_def isolated_def split: sum.split)

text \<open>The SQL engine of a request behaves: fresh ids, and \<open>ORDER BY\<close> returns the rows it was given.\<close>

definition env_sql_ok :: "api_env \<Rightarrow> bool" where
  "env_sql_ok en \<longleftrightarrow> sql_ok (en_sql en) \<and> (\<forall>t. mset (en_order en t) = mset t)"

lemma order_set: "env_sql_ok en \<Longrightarrow> set (en_order en t) = set t"
  unfolding env_sql_ok_def by (metis set_mset_mset)

lemma by_time_set: "env_sql_ok en \<Longrightarrow> set (sq_by_time (en_sql en) es) = set es"
  unfolding env_sql_ok_def sql_ok_def by (metis set_mset_mset)

lemma list_filter_shown: "list_filter a pid r = Inl resp \<Longrightarrow> shown og P (ar_Body resp)"
  by (auto simp: list_filter_def Let_def split: if_splits sum.splits option.splits)

lemma list_issues_shown:
  "env_sql_ok en \<Longrightarrow> pid \<in> P \<Longrightarrow> i \<in> set (ListIssuesFiltered (en_order en) t pid f n) \<Longrightarrow> ProjectID i \<in> P"
  by (auto simp: ListIssuesFiltered_def Let_def order_set row_matches_def dest!: in_set_takeD split: if_splits)

lemma get_issue_shown:
  "get_issue en db r = Inl resp \<Longrightarrow> shown og P (ar_Body resp)"
  "get_issue en db r = Inr iss \<Longrightarrow> ProjectID iss = parseInt_or (aq_project r)"
  by (auto simp: get_issue_def GetIssue_def find_Some_iff split: if_splits sum.splits option.splits)

lemma CreateAlertRule_foreign:
  assumes "r_ProjectID q \<in> P"
  shows "foreign og P (fst (CreateAlertRule E ft q db)) = foreign og P db"
proof -
  have "foreign og P (fst (db_Write ft (insert_rule E q) db)) = foreign og P db"
    by (rule foreign_write) (use assms in \<open>auto simp: insert_rule_def Let_def foreign_def split: if_splits\<close>)
  then show ?thesis by (simp add: CreateAlertRule_def)
qed

lemma DeleteAlertRule_foreign:
  assumes "pid \<in> P"
  shows "foreign og P (fst (DeleteAlertRule ft pid rid db)) = foreign og P db"
proof -
  have f: "filter (\<lambda>r. r_ProjectID r \<notin> P) (filter (\<lambda>r. r_ID r = rid \<longrightarrow> r_ProjectID r \<noteq> pid) rs) = filter (\<lambda>r. r_ProjectID r \<notin> P) rs" for rs
    using assms by (induction rs) auto
  show ?thesis unfolding DeleteAlertRule_def Let_def by (rule foreign_write) (auto simp: foreign_def f simp del: filter_filter split: if_splits)
qed

lemma CreateToken_foreign:
  assumes "tk_OrgID t = og"
  shows "foreign og P (fst (CreateToken E ft t h db)) = foreign og P db"
  unfolding CreateToken_def by (rule foreign_write) (use assms in \<open>auto simp: insert_token_def Let_def foreign_def split: if_splits\<close>)

lemma RevokeToken_foreign: "foreign og P (fst (RevokeToken ft og tid db)) = foreign og P db"
proof -
  have f: "filter (\<lambda>t. tr_OrgID t \<noteq> og) (map (\<lambda>t. if tr_ID t = tid \<and> tr_OrgID t = og then t\<lparr>tr_Revoked := True\<rparr> else t) ts) = filter (\<lambda>t. tr_OrgID t \<noteq> og) ts" for ts
    by (induction ts) auto
  show ?thesis unfolding RevokeToken_def Let_def by (rule foreign_write) (auto simp: foreign_def f split: if_splits)
qed

lemma unchanged_isolated: "shown og P (ar_Body resp) \<Longrightarrow> isolated og P db (db, resp)"
  by (simp add: isolated_def)

lemmas isolated_intros = unchanged_isolated finish_issue_isolated finish_meta_isolated foreign_issue
lemmas write_foreign = CreateAlertRule_foreign DeleteAlertRule_foreign CreateToken_foreign RevokeToken_foreign status_foreign split_foreign merge_foreign

text \<open>Handlers of a project route, for a project of the caller.\<close>

lemma project_readers:
  assumes "env_sql_ok en" and "parseInt_or (aq_project r) \<in> P"
  shows "isolated og P db (handleStats a en c r db)" and "isolated og P db (handleIssueList a en c r db)"
    and "isolated og P db (handleIssueGet a en c r db)" and "isolated og P db (handleIssueEvents a en c r db)"
    and "isolated og P db (handleAlertList a en c r db)"
  using assms list_issues_shown [OF assms] get_issue_shown(2)
  by (auto simp: handleStats_def handleIssueList_def handleIssueGet_def handleIssueEvents_def handleAlertList_def ListAlertRules_def Let_def
      intro!: unchanged_isolated split: option.split sum.split elim: list_filter_shown get_issue_shown(1) dest!: in_set_takeD)

lemma project_writers:
  assumes "meta_inv db" and "ctx_OrgID c = og" and "parseInt_or (aq_project r) \<in> P"
  shows "isolated og P db (handleIssueStatus a en (Some c) r db)" and "isolated og P db (handleIssueMerge a en (Some c) r db)"
    and "isolated og P db (handleIssueSplit a en (Some c) r db)" and "isolated og P db (handleAlertDelete a en (Some c) r db)"
  using assms meta_inv_issues [OF assms(1)]
  by (auto simp: handleIssueStatus_def handleIssueMerge_def handleIssueSplit_def handleAlertDelete_def with_ctx_def Let_def write_foreign
      intro!: isolated_intros split: option.split)

lemma handleAlertCreate_isolated:
  assumes "ctx_OrgID c = og" and "parseInt_or (aq_project r) \<in> P"
  shows "isolated og P db (handleAlertCreate a en (Some c) r db)"
proof (cases "json_decode dec_alert \<lparr>al_Name = [], al_Condition = [], al_Threshold = 0, al_WebhookURL = []\<rparr> 8192 r")
  case None
  then show ?thesis by (simp add: handleAlertCreate_def with_ctx_def unchanged_isolated)
next
  case (Some req)
  let ?q = "\<lparr>r_ID = 0, r_OrgID = ctx_OrgID c, r_ProjectID = parseInt_or (aq_project r), r_Name = al_Name req, r_Condition = al_Condition req,
    r_Threshold = al_Threshold req, r_WebhookURL = al_WebhookURL req, r_Enabled = True\<rparr>"
  obtain db1 res where cr: "CreateAlertRule (en_sql en) (en_write en) ?q db = (db1, res)" by (cases "CreateAlertRule (en_sql en) (en_write en) ?q db")
  have "foreign og P db1 = foreign og P db" using CreateAlertRule_foreign [of ?q P og "en_sql en" "en_write en" db] assms(2) by (simp add: cr)
  then show ?thesis using Some cr assms(1) by (cases res) (simp_all add: handleAlertCreate_def with_ctx_def isolated_def)
qed

text \<open>Handlers of the other guarded routes.\<close>

lemma handleTokenCreate_isolated:
  assumes "ctx_OrgID c = og"
  shows "isolated og P db (handleTokenCreate a en (Some c) r db)"
proof -
  have "isolated og P db (case CreateToken E ft t h db of (db1, Inl _) \<Rightarrow> (db1, writeErr 500 m)
     | (db1, Inr i) \<Rightarrow> (api_audit en r og uid act tgt det db1, respond 200 (Fields (fs i))))" if "tk_OrgID t = og" for E ft t h m uid act tgt det fs
    using CreateToken_foreign [OF that, of P E ft h db] by (cases "CreateToken E ft t h db") (auto simp: isolated_def split: sum.split)
  then show ?thesis using assms by (auto simp: handleTokenCreate_def with_ctx_def unchanged_isolated split: option.split prod.split)
qed

lemma org_handlers:
  assumes "env_sql_ok en" and "ctx_OrgID c = og"
  shows "isolated og P db (handleMe a en (Some c) r db)" and "isolated og P db (handleProjects a en (Some c) r db)"
    and "isolated og P db (handleOpsStatus a en (Some c) r db)" and "isolated og P db (handleOpsConfig a en (Some c) r db)"
    and "isolated og P db (handleAudit a en (Some c) r db)" and "isolated og P db (handleTokenRevoke a en (Some c) r db)"
  using assms
  by (auto simp: handleMe_def handleProjects_def handleOpsStatus_def handleOpsConfig_def handleAudit_def AuditList_def handleTokenRevoke_def with_ctx_def Let_def
      write_foreign by_time_set intro!: isolated_intros split: sum.split dest!: in_set_takeD)

definition projects_of :: "int \<Rightarrow> meta_db \<Rightarrow> int set" where
  "projects_of og db = pj_ID ` set (filter (\<lambda>p. pj_OrgID p = og) (db_projects db))"

lemma ProjectInOrg_project: "ProjectInOrg ok db og pid \<Longrightarrow> pid \<in> projects_of og db"
  by (auto simp: ProjectInOrg_def projects_of_def filter_empty_conv)

lemma served_isolated:
  assumes "env_sql_ok en" and "meta_inv db" and "rt \<in> set Routes" and "\<not> rt_Public rt" and "authorised en db rt r c"
  shows "isolated (ctx_OrgID c) (projects_of (ctx_OrgID c) db) db (rt_Handle rt a en (Some c) r db)"
proof (cases "rt_Project rt")
  case True
  with assms(5) have p: "parseInt_or (aq_project r) \<in> projects_of (ctx_OrgID c) db"
    by (auto simp: authorised_def dest!: parseInt_or_Some ProjectInOrg_project)
  note h = project_readers [OF assms(1) p] project_writers [OF assms(2) refl p] handleAlertCreate_isolated [OF refl p]
  have "rt_Handle rt \<in> {handleStats, handleIssueList, handleIssueGet, handleIssueEvents, handleIssueStatus, handleIssueMerge, handleIssueSplit,
      handleAlertList, handleAlertCreate, handleAlertDelete}"
    using assms(3) True by (auto simp: Routes_def public_def guarded_def)
  with h show ?thesis by auto
next
  case False
  have "rt_Handle rt \<in> {handleMe, handleProjects, handleOpsStatus, handleOpsConfig, handleAudit, handleTokenCreate, handleTokenRevoke}"
    using assms(3,4) False by (auto simp: Routes_def public_def guarded_def)
  with org_handlers [OF assms(1) refl] handleTokenCreate_isolated [OF refl] show ?thesis by auto
qed

text \<open>
  C5. Deny by default and isolation of tenants. A guarded route either answers 401, 403 or 404 and changes nothing; or the caller is a user of
  the database who has the route's permission through the user's role and, on a project route, asks for a project of the user's organisation.
  In that case, too, whatever the route does here leaves every row of other organisations as it was (issues, alert rules, tokens, audit entries, and the
  tables no handler writes), and the projects, issues, rules and audit entries of the response are the caller's.
\<close>
theorem tenants_are_isolated:
  assumes "env_sql_ok en" and "meta_inv db" and "rt \<in> set Routes" and "\<not> rt_Public rt"
  shows "(\<exists>st msg. dispatch a en rt r db = Served db (writeErr st msg) \<and> st \<in> {401, 403, 404}) \<or>
    (\<exists>c. authorised en db rt r c \<and>
       (\<forall>db' resp. dispatch a en rt r db = Served db' resp \<longrightarrow> isolated (ctx_OrgID c) (projects_of (ctx_OrgID c) db) db (db', resp)))"
proof (cases rule: dispatch_cases [OF assms(4), where a = a and en = en and r = r and db = db])
  case (1 st msg)
  then show ?thesis by blast
next
  case (2 c addr)
  then show ?thesis by (intro disjI2 exI [of _ c]) (auto simp: api_proxy_def unchanged_isolated)
next
  case (3 c)
  from served_isolated [OF assms 3(1), of a] 3 show ?thesis
    by (intro disjI2 exI [of _ c]) (auto simp: serve_local_def isolated_def split: prod.splits)
qed

section \<open>Sessions\<close>

lemma CreateSession_ok:
  assumes "CreateSession ft sid uid ttl now db = (db1, Inr x)"
  shows "insert_session sid uid (now + ttl) db = Inr (db1, ())"
  using assms by (auto simp: CreateSession_def db_Write_def execTx_def split: if_splits sum.splits)

lemma handleLogin_ok:
  assumes "handleLogin a en c r db = (db', resp)" and "ar_Status resp = 200"
  obtains req u sid db1 where "json_decode dec_login \<lparr>lr_Email = [], lr_Password = []\<rparr> 4096 r = Some req"
    and "UserByEmail (en_sql en) (en_read_ok en) db (lr_Email req) = Inr u" and "VerifyPassword (en_idk en) (lr_Password req) (us_PasswordHash u)"
    and "NewSessionID (en_rand en) = Some sid" and "CreateSession (en_write en) sid (us_ID u) SessionTTL (en_now en) db = (db1, Inr ())"
    and "db' = api_audit en r (us_OrgID u) (us_ID u) ''login.success'' (us_Email u) [] db1" and "map_option ck_Value (ar_Cookie resp) = Some sid"
proof -
  have ne: "ar_Status (writeErr n m) = n" for n m by (simp add: writeErr_def respond_def)
  obtain req where req: "json_decode dec_login \<lparr>lr_Email = [], lr_Password = []\<rparr> 4096 r = Some req"
    using assms by (cases "json_decode dec_login \<lparr>lr_Email = [], lr_Password = []\<rparr> 4096 r") (auto simp: handleLogin_def ne)
  obtain u where u: "UserByEmail (en_sql en) (en_read_ok en) db (lr_Email req) = Inr u"
    using assms req by (cases "UserByEmail (en_sql en) (en_read_ok en) db (lr_Email req)") (auto simp: handleLogin_def Let_def ne split: bool.splits)
  have v: "VerifyPassword (en_idk en) (lr_Password req) (us_PasswordHash u)"
    by (rule ccontr) (use assms req u in \<open>auto simp: handleLogin_def Let_def ne\<close>)
  obtain sid where sid: "NewSessionID (en_rand en) = Some sid"
    using assms req u v by (cases "NewSessionID (en_rand en)") (auto simp: handleLogin_def Let_def ne)
  obtain db1 res where cr: "CreateSession (en_write en) sid (us_ID u) SessionTTL (en_now en) db = (db1, res)"
    by (cases "CreateSession (en_write en) sid (us_ID u) SessionTTL (en_now en) db")
  with assms req u v sid that show thesis by (cases res) (auto simp: handleLogin_def Let_def ne)
qed

lemma session_is_audit: "session_is s u db \<Longrightarrow> session_is s u (api_audit en r og uid act tgt det db)"
  by (simp add: api_audit_def Audit_def Let_def db_Write_total session_is_def)

lemma audit_keeps_inv: "meta_inv (api_audit en r og uid act tgt det db) = meta_inv db"
  by (simp add: api_audit_def Audit_def Let_def db_Write_total audit_inv)

lemma bearer_None: "bearer r = None \<Longrightarrow> aq_Cookie r = Some sid \<Longrightarrow> sid \<noteq> [] \<Longrightarrow>
  authenticate en db r = (case SessionUser (en_auth_ok en) db sid (en_auth_now en) of Inl _ \<Rightarrow> None | Inr u \<Rightarrow> Some (contextFor en db u))"
  by (simp add: authenticate_def)

text \<open>
  C9. Logging in. A login is answered with 200 only if the e-mail address belongs to a user whose stored hash verifies the password; the cookie it
  sets then names a session that is good for a week: after any further operations on the database, a request with that cookie is authenticated as that
  user, with the user's role, until the week is over or a revocation of the session (a logout) or of the user's sessions was executed, and
  from then on not at all.
\<close>
theorem login_opens_session:
  assumes "sql_ok (en_sql en)" and "meta_inv db" and "handleLogin a en c r db = (db', resp)" and "ar_Status resp = 200"
    and "\<And>raw. en_rand en = Some raw \<Longrightarrow> length raw = 32"
  shows "\<exists>req u sid. json_decode dec_login \<lparr>lr_Email = [], lr_Password = []\<rparr> 4096 r = Some req \<and>
    UserByEmail (en_sql en) True db (lr_Email req) = Inr u \<and> VerifyPassword (en_idk en) (lr_Password req) (us_PasswordHash u) \<and>
    map_option ck_Value (ar_Cookie resp) = Some sid \<and>
    (\<forall>ops en' r'. bearer r' = None \<and> aq_Cookie r' = Some sid \<and> en_auth_ok en' \<longrightarrow>
       authenticate en' (meta_run (en_sql en) ops db') r' =
         (if en_auth_now en' < en_now en + SessionTTL \<and> \<not> list_ex (revokes sid (us_ID u)) ops
          then Some (contextFor en' (meta_run (en_sql en) ops db') u) else None))"
proof -
  from handleLogin_ok [OF assms(3,4)] obtain req u sid db1 where h: "json_decode dec_login \<lparr>lr_Email = [], lr_Password = []\<rparr> 4096 r = Some req"
    "UserByEmail (en_sql en) (en_read_ok en) db (lr_Email req) = Inr u" "VerifyPassword (en_idk en) (lr_Password req) (us_PasswordHash u)"
    "NewSessionID (en_rand en) = Some sid" "CreateSession (en_write en) sid (us_ID u) SessionTTL (en_now en) db = (db1, Inr ())"
    "db' = api_audit en r (us_OrgID u) (us_ID u) ''login.success'' (us_Email u) [] db1" "map_option ck_Value (ar_Cookie resp) = Some sid" by metis
  have ue: "UserByEmail (en_sql en) True db (lr_Email req) = Inr u" and u: "u \<in> set (db_users db)"
    using h(2) by (auto simp: UserByEmail_def find_Some_iff split: if_splits option.splits)
  have sid: "sid \<noteq> []" using h(4) assms(5) length_hex_encode by (auto simp: NewSessionID_def) (metis length_0_conv mult_is_0 numeral_eq_iff zero_neq_numeral list.size(3))
  define s where "s = \<lparr>ss_ID = sid, ss_UserID = us_ID u, ss_ExpiresAt = en_now en + SessionTTL, ss_Revoked = False\<rparr>"
  note ins = CreateSession_ok [OF h(5)]
  have "session_is s u db1" using ins u by (auto simp: insert_session_def session_is_def s_def split: if_splits)
  then have s: "session_is s u db'" unfolding h(6) by (rule session_is_audit)
  have inv: "meta_inv db'" unfolding h(6) audit_keeps_inv by (rule insert_session_inv [OF assms(2) ins])
  have "authenticate en' (meta_run (en_sql en) ops db') r' =
      (if en_auth_now en' < en_now en + SessionTTL \<and> \<not> list_ex (revokes sid (us_ID u)) ops then Some (contextFor en' (meta_run (en_sql en) ops db') u) else None)"
    if "bearer r' = None" "aq_Cookie r' = Some sid" "en_auth_ok en'" for ops en' r'
  proof -
    from SessionUser_is [OF meta_run_inv [OF assms(1) inv] session_run [OF s], where now = "en_auth_now en'"]
    show ?thesis unfolding bearer_None [OF that(1,2) sid] using that(3) by (simp add: s_def)
  qed
  with h ue show ?thesis by blast
qed

section \<open>The audit log\<close>

definition audited :: "api_env \<Rightarrow> AuthContext \<Rightarrow> meta_db \<Rightarrow> meta_db \<times> ApiResponse \<Rightarrow> bool" where
  "audited en c db out \<longleftrightarrow>
     (if ar_Status (snd out) = 200 \<and> executes (en_audit en)
      then (\<exists>e. db_audit (fst out) = db_audit db @ [e] \<and> ae_ActorID e = UserID c \<and> ae_OrgID e = ctx_OrgID c)
      else db_audit (fst out) = db_audit db)"

lemma api_status_simps [simp]: "ar_Status (writeErr st msg) = st" "ar_Status (respond st v) = st"
  by (simp_all add: writeErr_def respond_def)

lemma audit_grows:
  "db_audit (api_audit en r og uid act tgt det db) = (if executes (en_audit en)
     then db_audit db @ [\<lparr>ae_OrgID = og, ae_ActorID = uid, ae_Action = act, ae_Target = tgt, ae_Detail = det, ae_IP = clientIP r,
       ae_UserAgent = aq_UserAgent r, ae_At = en_audit_now en\<rparr>] else db_audit db)"
  by (simp add: api_audit_def Audit_def Let_def db_Write_total)

lemma audit_kept:
  "db_audit (fst (db_Issue ft f db)) = db_audit db"
  "db_audit (fst (CreateAlertRule E ft q db)) = db_audit db"
  "db_audit (fst (DeleteAlertRule ft pid rid db)) = db_audit db"
  "db_audit (fst (CreateToken E ft t h db)) = db_audit db"
  "db_audit (fst (RevokeToken ft og tid db)) = db_audit db"
proof -
  have w: "db_audit (fst (db_Write ft fn db)) = db_audit db" if "\<And>db' x. fn db = Inr (db', x) \<Longrightarrow> db_audit db' = db_audit db" for fn :: "meta_db \<Rightarrow> meta_err + (meta_db \<times> int)"
    by (rule db_Write_keeps [where P = "\<lambda>d. db_audit d = db_audit db"]) (use that in auto)
  have w1: "db_audit (fst (db_Write ft fn db)) = db_audit db" if "\<And>db' x. fn db = Inr (db', x) \<Longrightarrow> db_audit db' = db_audit db" for fn :: "meta_db \<Rightarrow> meta_err + (meta_db \<times> unit)"
    by (rule db_Write_keeps [where P = "\<lambda>d. db_audit d = db_audit db"]) (use that in auto)
  have "db_audit (fst (db_Write ft (insert_rule E q) db)) = db_audit db" by (rule w) (auto simp: insert_rule_def Let_def split: if_splits)
  then show "db_audit (fst (CreateAlertRule E ft q db)) = db_audit db" by (simp add: CreateAlertRule_def)
  show "db_audit (fst (DeleteAlertRule ft pid rid db)) = db_audit db" unfolding DeleteAlertRule_def Let_def by (rule w1) (auto split: if_splits)
  show "db_audit (fst (CreateToken E ft t h db)) = db_audit db" unfolding CreateToken_def by (rule w) (auto simp: insert_token_def Let_def split: if_splits)
  show "db_audit (fst (RevokeToken ft og tid db)) = db_audit db" unfolding RevokeToken_def Let_def by (rule w1) (auto split: if_splits)
qed (simp add: db_Issue_fst)

lemma unchanged_audited: "ar_Status resp \<noteq> 200 \<Longrightarrow> audited en c db (db, resp)"
  by (simp add: audited_def)

lemma finish_issue_audited:
  assumes "db_audit (fst res) = db_audit db" and "\<And>e. ar_Status (other e) \<noteq> 200"
  shows "audited en c db (finish_issue en c r entry status other res)"
  using assms by (cases res; cases entry; cases "snd res") (auto simp: finish_issue_def audited_def audit_grows)

lemma finish_meta_audited:
  assumes "db_audit (fst res) = db_audit db"
  shows "audited en c db (finish_meta en c r entry status failure res)"
  using assms by (cases res; cases entry; cases "snd res") (auto simp: finish_meta_def audited_def audit_grows)

lemma create_audited:
  assumes "db_audit db1 = db_audit db" and "\<And>e. ar_Status (bad e) \<noteq> 200"
  shows "audited en c db (case res of Inl e \<Rightarrow> (db1, bad e) | Inr i \<Rightarrow> (api_audit en r (ctx_OrgID c) (UserID c) act tgt det db1, respond 200 (good i)))"
  using assms by (cases res) (auto simp: audited_def audit_grows)

lemma create_kept:
  "CreateAlertRule E ft q db = (db1, res) \<Longrightarrow> db_audit db1 = db_audit db"
  "CreateToken E ft t h db = (db1, res) \<Longrightarrow> db_audit db1 = db_audit db"
  using audit_kept(2) [of E ft q db] audit_kept(4) [of E ft t h db] by simp_all

lemma writers_audited:
  "audited en c db (handleIssueStatus a en (Some c) r db)" "audited en c db (handleIssueMerge a en (Some c) r db)"
  "audited en c db (handleIssueSplit a en (Some c) r db)" "audited en c db (handleAlertDelete a en (Some c) r db)"
  "audited en c db (handleTokenRevoke a en (Some c) r db)" "audited en c db (handleAlertCreate a en (Some c) r db)"
  "audited en c db (handleTokenCreate a en (Some c) r db)"
  by (auto simp: handleIssueStatus_def handleIssueMerge_def handleIssueSplit_def handleAlertDelete_def handleTokenRevoke_def handleAlertCreate_def
      handleTokenCreate_def with_ctx_def Let_def audit_kept intro!: unchanged_audited finish_issue_audited finish_meta_audited create_audited
      elim: create_kept split: option.split prod.split)

lemma readers_unchanged:
  "fst (handleMe a en c r db) = db" "fst (handleProjects a en c r db) = db" "fst (handleStats a en c r db) = db" "fst (handleIssueList a en c r db) = db"
  "fst (handleIssueGet a en c r db) = db" "fst (handleIssueEvents a en c r db) = db" "fst (handleAlertList a en c r db) = db"
  "fst (handleOpsStatus a en c r db) = db" "fst (handleOpsConfig a en c r db) = db" "fst (handleAudit a en c r db) = db"
  by (auto simp: handleMe_def handleProjects_def handleStats_def handleIssueList_def handleIssueGet_def handleIssueEvents_def handleAlertList_def
      handleOpsStatus_def handleOpsConfig_def handleAudit_def with_ctx_def Let_def split: option.split sum.split)

text \<open>
  C10. Reads change nothing, and changes are on record: served on a \<open>GET\<close> route, a guarded request leaves the database alone; on any other guarded route, if
  it is answered with 200 and the audit write is executed, the log has grown by exactly one entry, which names the caller and the
  caller's organisation, and in every other case the log has not changed. No entry is ever altered or removed.
\<close>
theorem changes_are_audited:
  assumes "rt \<in> set Routes" and "\<not> rt_Public rt" and "dispatch a en rt r db = Served db' resp"
  shows "if rt_Method rt = ''GET'' then db' = db
    else db_audit db' = db_audit db \<and> \<not> (ar_Status resp = 200 \<and> executes (en_audit en)) \<or>
      (\<exists>c e. authorised en db rt r c \<and> ar_Status resp = 200 \<and> executes (en_audit en) \<and> db_audit db' = db_audit db @ [e] \<and>
         ae_ActorID e = UserID c \<and> ae_OrgID e = ctx_OrgID c)"
proof (cases rule: dispatch_cases [OF assms(2), where a = a and en = en and r = r and db = db])
  case (1 st msg)
  with assms(3) show ?thesis by auto
next
  case (2 c addr)
  with assms(3) show ?thesis by (auto simp: api_proxy_def split: if_splits)
next
  case (3 c)
  with assms(3) have d: "db' = fst (rt_Handle rt a en (Some c) r db)" "ar_Status resp = ar_Status (snd (rt_Handle rt a en (Some c) r db))"
    by (auto simp: serve_local_def split: prod.splits)
  show ?thesis
  proof (cases "rt_Method rt = ''GET''")
    case True
    with assms(1) have "fst (rt_Handle rt a en (Some c) r db) = db" by (auto simp: Routes_def public_def guarded_def readers_unchanged)
    with True d show ?thesis by simp
  next
    case False
    with assms(1,2) have "audited en c db (rt_Handle rt a en (Some c) r db)" by (auto simp: Routes_def public_def guarded_def writers_audited)
    with False d 3(1) show ?thesis by (auto simp: audited_def split: if_splits)
  qed
qed

section \<open>Examples\<close>

definition sample_api :: API where
  "sample_api = api_New JNull JNull"

definition toy_idk :: idkey where
  "toy_idk = (\<lambda>pw salt t m p n. take n (pw @ replicate n 0))"

definition sample_en :: api_env where
  "sample_en = \<lparr>en_sql = std_sql, en_order = (\<lambda>t. t), en_idk = toy_idk, en_auth_ok = True, en_proj_ok = True, en_read_ok = True, en_write = Runs,
     en_audit = Runs, en_rand = Some (replicate 32 7), en_auth_now = 60, en_now = 61, en_audit_now = 62, en_url_ok = (\<lambda>_. True)\<rparr>"

definition sample_areq :: "string \<Rightarrow> ApiRequest" where
  "sample_areq body = \<lparr>aq_Authorization = [], aq_Cookie = Some ''s1'', aq_project = ''1'', aq_issue = ''1'', aq_rule = [], aq_token = [],
     aq_query = (\<lambda>_. []), aq_body = str_bytes body, aq_body_ok = True, aq_RemoteAddr = ''10.0.0.1:99'', aq_UserAgent = ''ua'', aq_TLS = False\<rparr>"

lemma sample_en_ok: "env_sql_ok sample_en"
  by (simp add: env_sql_ok_def sample_en_def std_sql_ok)

definition quoted :: "string \<Rightarrow> string" where
  "quoted s = [CHR 0x22] @ s @ [CHR 0x22]"

definition sample_fields :: "(string \<times> string) list \<Rightarrow> string" where
  "sample_fields kvs = ''{'' @ join_comma (map (\<lambda>(k, v). quoted k @ '':'' @ quoted v) kvs) @ ''}''"

definition out_status :: "api_out \<Rightarrow> nat" where
  "out_status x = (case x of Served d resp \<Rightarrow> ar_Status resp | Proxied _ _ \<Rightarrow> 0)"

lemma sample_list: "out_status (dispatch sample_api sample_en (Routes ! 5) (sample_areq []) sample_db) = 200"
  by code_simp

theorem tenants_are_isolated_witness: "\<exists>c. authorised sample_en sample_db (Routes ! 5) (sample_areq []) c"
proof -
  have rt: "Routes ! 5 \<in> set Routes" by (rule nth_mem) (simp add: Routes_def)
  have np: "\<not> rt_Public (Routes ! 5)" by (simp add: Routes_def guarded_def)
  from tenants_are_isolated [OF sample_en_ok sample_db_inv rt np, of sample_api "sample_areq []"] sample_list show ?thesis
    by (auto simp: out_status_def)
qed

definition alert_body :: string where
  "alert_body = sample_fields [(''name'', ''n''), (''condition'', ''new_issue''), (''webhook_url'', ''u'')]"

lemma sample_alert: "out_status (dispatch sample_api sample_en (Routes ! 12) (sample_areq alert_body) sample_db) = 200"
  by code_simp

theorem changes_are_audited_witness:
  "\<exists>db' resp e. dispatch sample_api sample_en (Routes ! 12) (sample_areq alert_body) sample_db = Served db' resp \<and> db_audit db' = [e]"
proof -
  have rt: "Routes ! 12 \<in> set Routes" by (rule nth_mem) (simp add: Routes_def)
  have np: "\<not> rt_Public (Routes ! 12)" "rt_Method (Routes ! 12) = ''POST''" by (simp_all add: Routes_def guarded_def)
  obtain db' resp where d: "dispatch sample_api sample_en (Routes ! 12) (sample_areq alert_body) sample_db = Served db' resp" "ar_Status resp = 200"
    using sample_alert by (auto simp: out_status_def split: api_out.splits)
  from changes_are_audited [OF rt np(1) d(1)] d(2) np(2) have "\<exists>e. db_audit db' = db_audit sample_db @ [e]" by (auto simp: sample_en_def executes_def)
  with d(1) show ?thesis by (auto simp: sample_db_def empty_db_def)
qed

definition sample_user :: User where
  "sample_user = \<lparr>us_ID = 1, us_OrgID = 1, us_Email = ''ann@x.io'', us_PasswordHash = the (HashPassword toy_idk (Some [1]) ''pw''), us_Role = ''owner''\<rparr>"

definition login_db :: meta_db where
  "login_db = sample_db\<lparr>db_users := [sample_user], db_sessions := []\<rparr>"

lemma login_db_inv: "meta_inv login_db"
  using sample_db_inv by (simp add: meta_inv_defs id_sets sample_db_def login_db_def sample_user_def)

definition login_body :: string where
  "login_body = sample_fields [(''email'', ''ann@x.io''), (''password'', ''pw'')]"

lemma sample_login_req:
  "json_decode dec_login \<lparr>lr_Email = [], lr_Password = []\<rparr> 4096 (sample_areq login_body) = Some \<lparr>lr_Email = ''ann@x.io'', lr_Password = ''pw''\<rparr>"
  by code_simp

lemma sample_mail: "to_lower (trim_space ''ann@x.io'') = ''ann@x.io''"
  by code_simp

lemma sample_verify: "VerifyPassword toy_idk ''pw'' (us_PasswordHash sample_user)"
proof -
  obtain phc where h: "HashPassword toy_idk (Some [1]) ''pw'' = Some phc" by (simp add: HashPassword_def Let_def)
  have len: "length (toy_idk pw salt t m p n) = n" for pw salt t m p n by (simp add: toy_idk_def)
  from verify_own [of toy_idk, OF len h] h show ?thesis by (simp add: sample_user_def)
qed

lemma sample_login: "\<exists>db' resp. handleLogin sample_api sample_en None (sample_areq login_body) login_db = (db', resp) \<and> ar_Status resp = 200"
proof -
  have u: "UserByEmail (en_sql sample_en) (en_read_ok sample_en) login_db ''ann@x.io'' = Inr sample_user"
    by (simp add: UserByEmail_def sample_en_def std_sql_def login_db_def sample_user_def sample_mail)
  have c: "\<exists>db1. CreateSession (en_write sample_en) sid 1 SessionTTL (en_now sample_en) login_db = (db1, Inr ())" for sid
    by (simp add: CreateSession_def sample_en_def db_Write_Runs insert_session_def login_db_def sample_user_def)
  have i: "us_ID sample_user = 1" by (simp add: sample_user_def)
  have s: "\<exists>sid. NewSessionID (en_rand sample_en) = Some sid" by (simp add: NewSessionID_def sample_en_def)
  have k: "en_idk sample_en = toy_idk" by (simp add: sample_en_def)
  from s obtain sid where "NewSessionID (en_rand sample_en) = Some sid" by blast
  with c [of sid] show ?thesis by (auto simp: handleLogin_def sample_login_req Let_def u sample_verify k i)
qed

theorem login_opens_session_witness:
  "\<exists>db' resp sid. handleLogin sample_api sample_en None (sample_areq login_body) login_db = (db', resp) \<and>
     authenticate sample_en (meta_run std_sql [Op_RevokeSession Runs sid] db') ((sample_areq [])\<lparr>aq_Cookie := Some sid\<rparr>) = None \<and>
     authenticate sample_en db' ((sample_areq [])\<lparr>aq_Cookie := Some sid\<rparr>) = Some (contextFor sample_en db' sample_user)"
proof -
  obtain db' resp where l: "handleLogin sample_api sample_en None (sample_areq login_body) login_db = (db', resp)" "ar_Status resp = 200"
    using sample_login by blast
  have sql: "sql_ok (en_sql sample_en)" by (simp add: sample_en_def std_sql_ok)
  have rnd: "en_rand sample_en = Some raw \<Longrightarrow> length raw = 32" for raw by (auto simp: sample_en_def)
  have b: "bearer ((sample_areq [])\<lparr>aq_Cookie := Some sid\<rparr>) = None" for sid by (simp add: bearer_def sample_areq_def)
  have e: "en_auth_ok sample_en" "en_sql sample_en = std_sql" "en_auth_now sample_en < en_now sample_en + SessionTTL" by (simp_all add: sample_en_def SessionTTL_def)
  have u: "UserByEmail (en_sql sample_en) True login_db ''ann@x.io'' = Inr sample_user"
    by (simp add: UserByEmail_def sample_en_def std_sql_def login_db_def sample_user_def sample_mail)
  from login_opens_session [OF sql login_db_inv l rnd] obtain sid where
    a: "\<forall>ops en' r'. bearer r' = None \<and> aq_Cookie r' = Some sid \<and> en_auth_ok en' \<longrightarrow> authenticate en' (meta_run (en_sql sample_en) ops db') r' =
         (if en_auth_now en' < en_now sample_en + SessionTTL \<and> \<not> list_ex (revokes sid (us_ID sample_user)) ops
          then Some (contextFor en' (meta_run (en_sql sample_en) ops db') sample_user) else None)"
    by (auto simp: sample_login_req u)
  show ?thesis
    using l(1) a [rule_format, of "(sample_areq [])\<lparr>aq_Cookie := Some sid\<rparr>" sample_en "[Op_RevokeSession Runs sid]"]
      a [rule_format, of "(sample_areq [])\<lparr>aq_Cookie := Some sid\<rparr>" sample_en "[]"] b e
    by (intro exI [of _ db'] exI [of _ resp] exI [of _ sid]) (simp add: meta_run_def executes_def)
qed

end
