(* ===== verification/Api_Limits.thy ===== *)
theory Api_Limits
  imports Api_Props
begin

text \<open>
  Two places where the API does less than its comments promise: a caller whose token carries a subset of the user's permissions can create a token
  that carries all of them, and an organisation's projects are not listed once two hundred projects of any organisation come before them.
\<close>

section \<open>Tokens made by narrowed tokens\<close>

lemma handleTokenCreate_ok:
  assumes "handleTokenCreate a en (Some c) r db = (db', resp)" and "ar_Status resp = 200"
  obtains req raw tok h i db1 where "json_decode dec_token \<lparr>tq_Name = [], tq_Permissions = (0, []), tq_ExpiresDays = 0\<rparr> 4096 r = Some req"
    and "en_rand en = Some raw" and "NewToken (Some raw) = Some (tok, h)"
    and "CreateToken (en_sql en) (en_write en)
      \<lparr>tk_ID = 0, tk_OrgID = ctx_OrgID c, tk_UserID = UserID c, tk_Name = tq_Name req, tk_Permissions = elems (tq_Permissions req),
       tk_ExpiresAt = token_expiry (en_now en) (tq_ExpiresDays req)\<rparr> h db = (db1, Inr i)"
    and "db' = api_audit en r (ctx_OrgID c) (UserID c) ''token.create'' (tq_Name req) [] db1"
    and "ar_Body resp = Fields [(''id'', JNum (int_str i)), (''token'', JStr tok)]"
proof -
  obtain req where req: "json_decode dec_token \<lparr>tq_Name = [], tq_Permissions = (0, []), tq_ExpiresDays = 0\<rparr> 4096 r = Some req" "tq_Name req \<noteq> []"
    using assms by (cases "json_decode dec_token \<lparr>tq_Name = [], tq_Permissions = (0, []), tq_ExpiresDays = 0\<rparr> 4096 r")
      (auto simp: handleTokenCreate_def with_ctx_def split: if_splits)
  obtain tok h where nt: "NewToken (en_rand en) = Some (tok, h)"
    using assms req by (cases "NewToken (en_rand en)") (auto simp: handleTokenCreate_def with_ctx_def)
  then obtain raw where raw: "en_rand en = Some raw" "NewToken (Some raw) = Some (tok, h)" by (cases "en_rand en") (auto simp: NewToken_def)
  let ?t = "\<lparr>tk_ID = 0, tk_OrgID = ctx_OrgID c, tk_UserID = UserID c, tk_Name = tq_Name req, tk_Permissions = elems (tq_Permissions req),
       tk_ExpiresAt = token_expiry (en_now en) (tq_ExpiresDays req)\<rparr>"
  obtain db1 res where cr: "CreateToken (en_sql en) (en_write en) ?t h db = (db1, res)" by (cases "CreateToken (en_sql en) (en_write en) ?t h db")
  with assms req nt obtain i where i: "res = Inr i" by (cases res) (auto simp: handleTokenCreate_def with_ctx_def)
  show thesis
    by (rule that [OF req(1) raw cr [unfolded i]]) (use assms req nt cr i in \<open>auto simp: handleTokenCreate_def with_ctx_def\<close>)
qed

lemma CreateToken_Runs: "CreateToken E ft t h db = (db1, Inr i) \<Longrightarrow> CreateToken E Runs t h db = (db1, Inr i)"
  by (auto simp: CreateToken_def db_Write_def execTx_def split: if_splits sum.splits)

lemma NewToken_valid: "length raw = 32 \<Longrightarrow> NewToken (Some raw) = Some (tok, h) \<Longrightarrow> ValidateTokenShape tok \<and> h = HashToken tok"
  by (auto simp: NewToken_def Let_def ValidateTokenShape_def length_hex_encode)

lemma TokenByHash_audit: "TokenByHash ok (api_audit en r og uid act tgt det db) h now = TokenByHash ok db h now"
  by (simp add: TokenByHash_def api_audit_def Audit_def Let_def db_Write_total)

lemma UserByID_in: "meta_inv db \<Longrightarrow> u \<in> set (db_users db) \<Longrightarrow> UserByID True db (us_ID u) = Inr u"
  using find_distinct [of us_ID "db_users db" u "\<lambda>x. us_ID x = us_ID u"] by (simp add: UserByID_def meta_inv_def accounts_ok_def)

text \<open>
  C40. A narrowed context does not stay narrow. Let a caller act for a user with any subset of the user's permissions, and let the caller create a
  token, naming no permissions and no expiry. The token that is returned authenticates as the user with all permissions of the user's role, however few the
  caller had: the handler stores the request's permission list without intersecting it with the caller's.
\<close>
theorem narrowed_token_mints_full_token:
  assumes "sql_ok (en_sql en)" and "meta_inv db" and "u \<in> set (db_users db)" and "c = Restrict (contextFor en db u) ps"
    and "handleTokenCreate a en (Some c) r db = (db', resp)" and "ar_Status resp = 200"
    and "json_decode dec_token \<lparr>tq_Name = [], tq_Permissions = (0, []), tq_ExpiresDays = 0\<rparr> 4096 r = Some req"
    and "elems (tq_Permissions req) = []" and "tq_ExpiresDays req \<le> 0" and "en_rand en = Some raw" and "length raw = 32"
  shows "\<exists>i tok. ar_Body resp = Fields [(''id'', i), (''token'', JStr tok)] \<and>
    (\<forall>en' r'. bearer r' = Some tok \<and> en_auth_ok en' \<longrightarrow> authenticate en' db' r' = Some (contextFor en' db' u))"
proof -
  obtain req' raw' tok h i db1 where q: "json_decode dec_token \<lparr>tq_Name = [], tq_Permissions = (0, []), tq_ExpiresDays = 0\<rparr> 4096 r = Some req'" "en_rand en = Some raw'"
    and t: "NewToken (Some raw') = Some (tok, h)"
    "CreateToken (en_sql en) (en_write en) \<lparr>tk_ID = 0, tk_OrgID = ctx_OrgID c, tk_UserID = UserID c, tk_Name = tq_Name req', tk_Permissions = elems (tq_Permissions req'),
       tk_ExpiresAt = token_expiry (en_now en) (tq_ExpiresDays req')\<rparr> h db = (db1, Inr i)"
    "db' = api_audit en r (ctx_OrgID c) (UserID c) ''token.create'' (tq_Name req') [] db1"
    "ar_Body resp = Fields [(''id'', JNum (int_str i)), (''token'', JStr tok)]"
    by (rule handleTokenCreate_ok [OF assms(5,6)])
  have req: "req' = req" "raw' = raw" using q assms(7,10) by simp_all
  let ?t = "\<lparr>tk_ID = 0, tk_OrgID = us_OrgID u, tk_UserID = us_ID u, tk_Name = tq_Name req, tk_Permissions = [], tk_ExpiresAt = 0\<rparr>"
  have cr: "CreateToken (en_sql en) Runs ?t h db = (db1, Inr i)"
    using CreateToken_Runs [OF t(2)] assms(4,8,9) req by (simp add: token_expiry_def)
  have uid: "UserByID True db (tk_UserID ?t) = Inr u" using UserByID_in [OF assms(2,3)] by simp
  have "TokenByHash True db1 h now = Inr (?t\<lparr>tk_ID := i\<rparr>, u)" for now
    using token_back [OF assms(1,2) uid cr, of now] by simp
  then have "TokenByHash True db' h now = Inr (?t\<lparr>tk_ID := i\<rparr>, u)" for now unfolding t(3) TokenByHash_audit .
  then have "authenticate en' db' r' = Some (contextFor en' db' u)" if "bearer r' = Some tok" "en_auth_ok en'" for en' r'
    using that NewToken_valid [OF assms(11) t(1) [unfolded req]] by (simp add: authenticate_def)
  with t(4) show ?thesis by blast
qed

definition narrow_ctx :: AuthContext where
  "narrow_ctx = Restrict (contextFor sample_en login_db sample_user) [TokenAdmin]"

lemma sample_token_req:
  "json_decode dec_token \<lparr>tq_Name = [], tq_Permissions = (0, []), tq_ExpiresDays = 0\<rparr> 4096 (sample_areq (sample_fields [(''name'', ''x'')])) =
   Some \<lparr>tq_Name = ''x'', tq_Permissions = (0, []), tq_ExpiresDays = 0\<rparr>"
  by code_simp

lemma sample_mint:
  "\<exists>db' resp. handleTokenCreate sample_api sample_en (Some narrow_ctx) (sample_areq (sample_fields [(''name'', ''x'')])) login_db = (db', resp) \<and> ar_Status resp = 200"
proof -
  have c: "ctx_OrgID narrow_ctx = 1" "UserID narrow_ctx = 1" by (simp_all add: narrow_ctx_def sample_user_def)
  have k: "\<exists>db1 i. CreateToken (en_sql sample_en) (en_write sample_en) \<lparr>tk_ID = 0, tk_OrgID = 1, tk_UserID = 1, tk_Name = n, tk_Permissions = ps, tk_ExpiresAt = x\<rparr> h login_db = (db1, Inr i)" for n ps x h
    by (simp add: CreateToken_def sample_en_def db_Write_Runs insert_token_def login_db_def sample_db_def empty_db_def sample_user_def Let_def)
  have n: "\<exists>tok h. NewToken (en_rand sample_en) = Some (tok, h)" by (simp add: NewToken_def sample_en_def Let_def)
  then obtain tok h where "NewToken (en_rand sample_en) = Some (tok, h)" by blast
  with k [of "''x''" "elems (0, [])" "token_expiry (en_now sample_en) 0" h] show ?thesis
    by (auto simp: handleTokenCreate_def with_ctx_def sample_token_req c)
qed

theorem narrowed_token_mints_full_token_witness:
  "\<exists>db' tok. \<not> Can (Some narrow_ctx) EventRead \<and>
     authenticate sample_en db' ((sample_areq [])\<lparr>aq_Authorization := ''Bearer '' @ tok\<rparr>) = Some (contextFor sample_en db' sample_user) \<and>
     Can (Some (contextFor sample_en db' sample_user)) EventRead"
proof -
  obtain db' resp where m: "handleTokenCreate sample_api sample_en (Some narrow_ctx) (sample_areq (sample_fields [(''name'', ''x'')])) login_db = (db', resp)" "ar_Status resp = 200"
    using sample_mint by blast
  have sql: "sql_ok (en_sql sample_en)" by (simp add: sample_en_def std_sql_ok)
  have u: "sample_user \<in> set (db_users login_db)" by (simp add: login_db_def)
  have rnd: "en_rand sample_en = Some (replicate 32 7)" "length (replicate 32 (7 :: byte)) = 32" by (simp_all add: sample_en_def)
  have q: "elems (tq_Permissions \<lparr>tq_Name = ''x'', tq_Permissions = (0, []), tq_ExpiresDays = 0\<rparr>) = []" "tq_ExpiresDays \<lparr>tq_Name = ''x'', tq_Permissions = (0, []), tq_ExpiresDays = 0\<rparr> \<le> 0"
    by (simp_all add: elems_def)
  from narrowed_token_mints_full_token [OF sql login_db_inv u narrow_ctx_def m sample_token_req q rnd] obtain tok where
    t: "\<forall>en' r'. bearer r' = Some tok \<and> en_auth_ok en' \<longrightarrow> authenticate en' db' r' = Some (contextFor en' db' sample_user)" by blast
  have "authenticate sample_en db' ((sample_areq [])\<lparr>aq_Authorization := ''Bearer '' @ tok\<rparr>) = Some (contextFor sample_en db' sample_user)"
    by (rule t [rule_format]) (simp add: bearer_def sample_en_def)
  moreover have "\<not> Can (Some narrow_ctx) EventRead" by (simp add: Can_def narrow_ctx_def)
  moreover have "Can (Some (contextFor sample_en db' sample_user)) EventRead"
    by (simp add: Can_def sample_user_def RolePermissions_def builtinRoles_def role_names)
  ultimately show ?thesis by blast
qed

section \<open>The project list\<close>

definition crowded_db :: meta_db where
  "crowded_db = empty_db\<lparr>db_orgs := [\<lparr>og_ID = 1, og_Slug = ''a'', og_Name = ''A''\<rparr>, \<lparr>og_ID = 2, og_Slug = ''b'', og_Name = ''B''\<rparr>],
     db_projects := map (\<lambda>i. \<lparr>pj_ID = int i, pj_OrgID = 1, pj_Slug = dec_str i, pj_Name = [], pj_Platform = []\<rparr>) [1..<201] @
       [\<lparr>pj_ID = 201, pj_OrgID = 2, pj_Slug = ''x'', pj_Name = [], pj_Platform = []\<rparr>]\<rparr>"

lemma crowded_inv: "meta_inv crowded_db"
proof -
  have "inj_on (\<lambda>i. (1 :: int, dec_str i)) S" for S by (auto simp: inj_on_def dest: dec_str_inj)
  then show ?thesis
    by (auto simp: crowded_db_def meta_inv_defs id_sets empty_db_def issues_inv_def one_hop_def comp_def distinct_map inj_on_def)
qed

lemma crowded_first: "take 200 (sort_key pj_ID (db_projects crowded_db)) = map (\<lambda>i. \<lparr>pj_ID = int i, pj_OrgID = 1, pj_Slug = dec_str i, pj_Name = [], pj_Platform = []\<rparr>) [1..<201]"
proof -
  let ?xs = "map (\<lambda>i. \<lparr>pj_ID = int i, pj_OrgID = 1, pj_Slug = dec_str i, pj_Name = [], pj_Platform = []\<rparr>) [1..<201]"
  have "sorted (map int [1..<201])" by (simp add: sorted_map)
  then have "sorted (map pj_ID (db_projects crowded_db))" by (auto simp: crowded_db_def comp_def sorted_append)
  then have "sort_key pj_ID (db_projects crowded_db) = db_projects crowded_db" by (rule sort_key_id_if_sorted)
  then show ?thesis by (simp add: crowded_db_def)
qed

text \<open>
  The project list reads the first two hundred projects of all organisations and keeps the caller's: in a consistent database there can be an
  organisation with a project for which the list is empty.
\<close>
theorem project_list_can_hide_projects:
  "meta_inv crowded_db \<and> projects_of 2 crowded_db = {201} \<and>
   handleProjects a (en\<lparr>en_read_ok := True\<rparr>) (Some (c\<lparr>ctx_OrgID := 2\<rparr>)) r crowded_db = (crowded_db, respond 200 (BProjects []))"
proof -
  have "projects_of 2 crowded_db = {201}" by (auto simp: projects_of_def crowded_db_def)
  moreover have "handleProjects a (en\<lparr>en_read_ok := True\<rparr>) (Some (c\<lparr>ctx_OrgID := 2\<rparr>)) r crowded_db = (crowded_db, respond 200 (BProjects []))"
    by (simp add: handleProjects_def with_ctx_def ListProjects_def crowded_first comp_def filter_map del: take_map)
  ultimately show ?thesis using crowded_inv by blast
qed

end
