(* ===== verification/Service.thy ===== *)
theory Service
  imports Ingest_Http
begin

text \<open>
  The frame around the components: configuration (\<open>internal/config/config.go\<close>), log levels and trace ids (\<open>internal/logging/logging.go\<close>), build
  metadata (\<open>internal/buildinfo/buildinfo.go\<close>), the HTTP server with its health endpoints and middleware (\<open>internal/server/server.go\<close>), and the
  command-line router (\<open>cmd/leser/router.go\<close>). Files, the environment, the Go build information and random bytes are arguments.
\<close>

section \<open>Configuration\<close>

record Config =
  cf_ListenAddr :: string
  cf_DataDir :: string
  cf_LogLevel :: string
  cf_PublicURL :: string
  cf_SecretKey :: string

definition config_Default :: Config where
  "config_Default = \<lparr>cf_ListenAddr = '':8080'', cf_DataDir = ''./data'', cf_LogLevel = ''info'', cf_PublicURL = ''http://localhost:8080'', cf_SecretKey = []\<rparr>"

definition dec_Config :: "Config dec" where
  "dec_Config =
     dec_struct [(''listen_addr'', at_field cf_ListenAddr cf_ListenAddr_update dec_string), (''data_dir'', at_field cf_DataDir cf_DataDir_update dec_string),
       (''log_level'', at_field cf_LogLevel cf_LogLevel_update dec_string), (''public_url'', at_field cf_PublicURL cf_PublicURL_update dec_string),
       (''secret_key'', at_field cf_SecretKey cf_SecretKey_update dec_string)]"

datatype config_err = ReadFailed string | ParseFailed string | EmptyListen | EmptyDataDir | BadLogLevel string

text \<open>\<open>fsys\<close> is what \<open>os.ReadFile\<close> returns.\<close>

definition applyFile :: "(string \<Rightarrow> byte list option) \<Rightarrow> string \<Rightarrow> Config \<Rightarrow> config_err + Config" where
  "applyFile fsys path c =
     (case fsys path of
        None \<Rightarrow> Inl (ReadFailed path)
      | Some b \<Rightarrow> (case unmarshal dec_Config (bytes_str b) c of (c1, ok) \<Rightarrow> if ok then Inr c1 else Inl (ParseFailed path)))"

definition env_or :: "(string \<Rightarrow> string option) \<Rightarrow> string \<Rightarrow> string \<Rightarrow> string" where
  "env_or lookup key old = (case lookup key of Some v \<Rightarrow> v | None \<Rightarrow> old)"

definition applyEnv :: "(string \<Rightarrow> string option) \<Rightarrow> Config \<Rightarrow> Config" where
  "applyEnv lookup c =
     (let c1 = c\<lparr>cf_ListenAddr := env_or lookup ''LESER_LISTEN'' (cf_ListenAddr c)\<rparr>;
          c2 = c1\<lparr>cf_DataDir := env_or lookup ''LESER_DATA_DIR'' (cf_DataDir c1)\<rparr>;
          c3 = c2\<lparr>cf_LogLevel := env_or lookup ''LESER_LOG_LEVEL'' (cf_LogLevel c2)\<rparr>;
          c4 = c3\<lparr>cf_PublicURL := env_or lookup ''LESER_PUBLIC_URL'' (cf_PublicURL c3)\<rparr>
      in c4\<lparr>cf_SecretKey := env_or lookup ''LESER_SECRET_KEY'' (cf_SecretKey c4)\<rparr>)"

definition config_Load :: "(string \<Rightarrow> byte list option) \<Rightarrow> (string \<Rightarrow> string option) \<Rightarrow> string \<Rightarrow> config_err + Config" where
  "config_Load fsys lookup path =
     (case (if path \<noteq> [] then applyFile fsys path config_Default else Inr config_Default) of
        Inl err \<Rightarrow> Inl err
      | Inr c \<Rightarrow> Inr (applyEnv lookup c))"

definition redact :: "string \<Rightarrow> string" where
  "redact v = (if v = [] then [] else ''***redacted***'')"

definition Effective :: "Config \<Rightarrow> (string \<times> string) list" where
  "Effective c =
     [(''listen_addr'', cf_ListenAddr c), (''data_dir'', cf_DataDir c), (''log_level'', cf_LogLevel c), (''public_url'', cf_PublicURL c),
      (''secret_key'', redact (cf_SecretKey c))]"

definition config_Validate :: "Config \<Rightarrow> config_err option" where
  "config_Validate c =
     (if trim_space (cf_ListenAddr c) = [] then Some EmptyListen
      else if trim_space (cf_DataDir c) = [] then Some EmptyDataDir
      else if cf_LogLevel c \<in> {''debug'', ''info'', ''warn'', ''error''} then None
      else Some (BadLogLevel (cf_LogLevel c)))"

section \<open>Logging\<close>

datatype slog_level = LevelDebug | LevelInfo | LevelWarn | LevelError

definition ParseLevel :: "(string \<Rightarrow> string) \<Rightarrow> string \<Rightarrow> slog_level" where
  "ParseLevel toLower s =
     (let l = toLower (trim_space s) in
      if l = ''debug'' then LevelDebug else if l = ''warn'' \<or> l = ''warning'' then LevelWarn
      else if l = ''error'' then LevelError else LevelInfo)"

text \<open>The trace id a context carries.\<close>

type_synonym trace_ctx = "string option"

definition WithTrace :: "trace_ctx \<Rightarrow> string \<Rightarrow> trace_ctx" where
  "WithTrace ctx i = Some i"

definition TraceID :: "trace_ctx \<Rightarrow> string" where
  "TraceID ctx = (case ctx of Some v \<Rightarrow> v | None \<Rightarrow> [])"

section \<open>Build metadata\<close>

record build_info =
  bi_Version :: string
  bi_Commit :: string
  bi_Date :: string
  bi_GoVersion :: string

text \<open>The toolchain's record: the Go version and the settings in order; the last \<open>vcs.revision\<close> wins.\<close>

definition buildinfo_Get :: "string \<Rightarrow> string \<Rightarrow> string \<Rightarrow> (string \<times> (string \<times> string) list) option \<Rightarrow> build_info" where
  "buildinfo_Get version rev0 date rd =
     (let i = \<lparr>bi_Version = version, bi_Commit = rev0, bi_Date = date, bi_GoVersion = []\<rparr> in
      case rd of
        None \<Rightarrow> i
      | Some (gov, settings) \<Rightarrow>
          let i1 = i\<lparr>bi_GoVersion := gov\<rparr> in
          if rev0 = ''unknown'' then foldl (\<lambda>i s. if fst s = ''vcs.revision'' then i\<lparr>bi_Commit := snd s\<rparr> else i) i1 settings else i1)"

section \<open>The HTTP server\<close>

record Server =
  sv_ready :: bool
  sv_ui :: bool

definition server_New :: "bool \<Rightarrow> Server" where
  "server_New ui = \<lparr>sv_ready = False, sv_ui = ui\<rparr>"

definition SetReady :: "bool \<Rightarrow> Server \<Rightarrow> Server" where
  "SetReady v s = s\<lparr>sv_ready := v\<rparr>"

text \<open>
  A handler runs with the trace of its context and the headers set so far; it returns a response, or panics, leaving the headers it set.
\<close>

type_synonym headers = "(string \<times> string) list"
type_synonym http_handler = "trace_ctx \<Rightarrow> headers \<Rightarrow> headers + HttpResponse"

definition handleHealthz :: "Server \<Rightarrow> http_handler" where
  "handleHealthz s ctx hs = Inr (writeJSON hs 200 (JObj [(''status'', JStr ''ok'')]))"

definition handleReadyz :: "Server \<Rightarrow> http_handler" where
  "handleReadyz s ctx hs =
     (if \<not> sv_ready s then Inr (writeJSON hs 503 (JObj [(''status'', JStr ''not_ready'')]))
      else Inr (writeJSON hs 200 (JObj [(''status'', JStr ''ready'')])))"

definition info_json :: "build_info \<Rightarrow> json" where
  "info_json i =
     JObj ([(''version'', JStr (bi_Version i)), (''commit'', JStr (bi_Commit i))] @ (if bi_Date i = [] then [] else [(''date'', JStr (bi_Date i))]) @
           [(''go_version'', JStr (bi_GoVersion i))])"

definition handleVersion :: "build_info \<Rightarrow> http_handler" where
  "handleVersion i ctx hs = Inr (writeJSON hs 200 (info_json i))"

text \<open>The mux: the three endpoints, what the mounts registered, and the UI for any other \<open>GET\<close> where there is one.\<close>

definition server_mux ::
  "Server \<Rightarrow> build_info \<Rightarrow> http_handler \<Rightarrow> (string \<Rightarrow> string \<Rightarrow> http_handler option) \<Rightarrow> string \<Rightarrow> string \<Rightarrow> http_handler option" where
  "server_mux s info ui mounted meth path =
     (if meth = ''GET'' \<and> path = ''/healthz'' then Some (handleHealthz s)
      else if meth = ''GET'' \<and> path = ''/readyz'' then Some (handleReadyz s)
      else if meth = ''GET'' \<and> path = ''/version'' then Some (handleVersion info)
      else case mounted meth path of
        Some h \<Rightarrow> Some h
      | None \<Rightarrow> if sv_ui s \<and> meth = ''GET'' then Some ui else None)"

definition newTraceID :: "byte list \<Rightarrow> string" where
  "newTraceID rnd = hex_encode rnd"

definition mw_trace :: "byte list \<Rightarrow> http_handler \<Rightarrow> http_handler" where
  "mw_trace rnd nxt ctx hs = (let i = newTraceID rnd in nxt (WithTrace ctx i) (map_put ''X-Trace-Id'' i hs))"

definition mw_recover :: "http_handler \<Rightarrow> trace_ctx \<Rightarrow> headers \<Rightarrow> HttpResponse" where
  "mw_recover nxt ctx hs =
     (case nxt ctx hs of
        Inr resp \<Rightarrow> resp
      | Inl hs' \<Rightarrow> writeJSON hs' 500 (JObj [(''error'', JStr ''internal''), (''trace_id'', JStr (TraceID ctx))]))"

text \<open>One request: \<open>s.recover(s.trace(mux))\<close>, starting from a context without a trace.\<close>

definition serve_request :: "byte list \<Rightarrow> http_handler \<Rightarrow> HttpResponse" where
  "serve_request rnd h = mw_recover (mw_trace rnd h) None []"

section \<open>The command line\<close>

record 'w cli_command =
  cm_Name :: string
  cm_Summary :: string
  cm_Run :: "string list \<Rightarrow> 'w"

record 'w cli_router =
  ro_name :: string
  ro_cmds :: "'w cli_command list"

text \<open>\<open>None\<close> is the panic on a duplicate name.\<close>

definition ro_Register :: "'w cli_router \<Rightarrow> 'w cli_command \<Rightarrow> 'w cli_router option" where
  "ro_Register r c = (if cm_Name c \<in> set (map cm_Name (ro_cmds r)) then None else Some (r\<lparr>ro_cmds := ro_cmds r @ [c]\<rparr>))"

text \<open>What a dispatch does: run a command, or print the usage (after an error line for an unknown one) and exit with a code.\<close>

datatype 'w dispatched = Ran 'w | Printed "string option" int

definition ro_Dispatch :: "'w cli_router \<Rightarrow> string list \<Rightarrow> 'w dispatched" where
  "ro_Dispatch r args =
     (case args of
        [] \<Rightarrow> Printed None 2
      | name # rest \<Rightarrow>
          if name = ''-h'' \<or> name = ''--help'' \<or> name = ''help'' then Printed None 0
          else case find (\<lambda>c. cm_Name c = name) (ro_cmds r) of
            None \<Rightarrow> Printed (Some name) 2
          | Some c \<Rightarrow> Ran (cm_Run c rest))"

section \<open>Properties\<close>

text \<open>
  Precedence: a field of the loaded configuration is the environment's value where the variable is set, otherwise what the file (if one was given) decodes to on top of
  the defaults.
\<close>

lemma config_layers:
  assumes "config_Load fsys lookup path = Inr c"
  shows "\<exists>f. (if path = [] then f = config_Default else applyFile fsys path config_Default = Inr f) \<and>
    cf_ListenAddr c = env_or lookup ''LESER_LISTEN'' (cf_ListenAddr f) \<and> cf_DataDir c = env_or lookup ''LESER_DATA_DIR'' (cf_DataDir f) \<and>
    cf_LogLevel c = env_or lookup ''LESER_LOG_LEVEL'' (cf_LogLevel f) \<and> cf_PublicURL c = env_or lookup ''LESER_PUBLIC_URL'' (cf_PublicURL f) \<and>
    cf_SecretKey c = env_or lookup ''LESER_SECRET_KEY'' (cf_SecretKey f)"
  using assms by (auto simp: config_Load_def applyEnv_def Let_def split: if_splits sum.splits)

text \<open>The shown configuration does not depend on the secret, only on whether there is one.\<close>

lemma Effective_hides_secret:
  assumes "(cf_SecretKey c = []) = (k = [])"
  shows "Effective (c\<lparr>cf_SecretKey := k\<rparr>) = Effective c"
  using assms by (simp add: Effective_def redact_def)

text \<open>
  A panic in a handler is answered with status 500, and the response header carries the request's trace id; but the body, which is meant to repeat
  it, always says that the trace id is empty: the outer middleware looks for it in a context to which only the inner one
  adds it.
\<close>
theorem panic_trace_id_is_empty:
  assumes "h (Some (hex_encode rnd)) [(''X-Trace-Id'', hex_encode rnd)] = Inl hs"
  shows "rs_Status (serve_request rnd h) = 500 \<and> rs_JSON (serve_request rnd h) = JObj [(''error'', JStr ''internal''), (''trace_id'', JStr [])]"
  using assms by (simp add: serve_request_def mw_recover_def mw_trace_def WithTrace_def newTraceID_def TraceID_def writeJSON_def)

theorem panic_trace_id_is_empty_witness: "rs_JSON (serve_request [171] (\<lambda>ctx hs. Inl hs)) = JObj [(''error'', JStr ''internal''), (''trace_id'', JStr [])]"
  using panic_trace_id_is_empty [of "\<lambda>ctx hs. Inl hs" "[171]" "[(''X-Trace-Id'', hex_encode [171])]"] by simp

end
