(* ===== verification/Node.thy ===== *)
theory Node
  imports Api_Props Eventstore_Aggregate Pipeline Service
begin

text \<open>
  The binary: \<open>cmd/leser/main.go\<close>. The issue sink that connects the pipeline to the issue table and the alert engine, the functions that connect the
  API to the event store, the roles a process can take, the first-boot administrator, and the commands that create users and tokens. Flags
  are the values the \<open>flag\<close> package parsed; the boot that puts these parts together is in \<open>Boot\<close>, the other commands are in \<open>Cli\<close>.
\<close>

section \<open>The issue sink\<close>

text \<open>The cache of the organisations of projects, and the alert engine if there is one.\<close>

record issueSink =
  sk_m :: "(int \<times> int) list"
  sk_engine :: "engine option"

datatype sink_err = SinkMeta meta_err | SinkIssue issue_err

record sink_env =
  sn_sql :: sql_env
  sn_org_ok :: bool
  sn_rules_ok :: bool
  sn_write :: tx_fate
  sn_clock :: "nat \<Rightarrow> int"

definition sink_org :: "sink_env \<Rightarrow> issueSink \<Rightarrow> meta_db \<Rightarrow> int \<Rightarrow> issueSink \<times> (meta_err + int)" where
  "sink_org sn s db pid =
     (case map_of (sk_m s) pid of
        Some orgID \<Rightarrow> (s, Inr orgID)
      | None \<Rightarrow>
          (case ProjectOrg (sn_org_ok sn) db pid of
             Inl err \<Rightarrow> (s, Inl err)
           | Inr orgID \<Rightarrow> (s\<lparr>sk_m := map_put pid orgID (sk_m s)\<rparr>, Inr orgID)))"

definition sink_upsert :: "int \<Rightarrow> IssueHit \<Rightarrow> IssueUpsert" where
  "sink_upsert orgID u =
     \<lparr>u_OrgID = orgID, u_ProjectID = hit_ProjectID u, u_Fingerprint = hit_Fingerprint u, u_Basis = hit_Basis u, u_Title = hit_Title u,
      u_Level = hit_Level u, u_SeenAt = hit_SeenAt u\<rparr>"

definition sink_activity :: "int \<Rightarrow> IssueHit \<Rightarrow> IssueOutcome \<Rightarrow> IssueActivity" where
  "sink_activity orgID u out =
     \<lparr>a_OrgID = orgID, a_ProjectID = hit_ProjectID u, a_IssueID = o_ID out, a_Title = hit_Title u, a_Level = hit_Level u, a_Status = o_Status out,
      a_TimesSeen = o_TimesSeen out, a_IsNew = o_IsNew out, a_Regressed = o_Regressed out\<rparr>"

definition sink_UpsertIssue :: "sink_env \<Rightarrow> issueSink \<Rightarrow> IssueHit \<Rightarrow> meta_db \<Rightarrow> meta_db \<times> issueSink \<times> (sink_err + int)" where
  "sink_UpsertIssue sn s u db =
     (case sink_org sn s db (hit_ProjectID u) of
        (s1, Inl err) \<Rightarrow> (db, s1, Inl (SinkMeta err))
      | (s1, Inr orgID) \<Rightarrow>
          (case db_UpsertIssue (sn_sql sn) (sn_write sn) (sink_upsert orgID u) db of
             (db1, Inl err) \<Rightarrow> (db1, s1, Inl (SinkIssue err))
           | (db1, Inr out) \<Rightarrow>
               let rules = (case EnabledRules (sn_sql sn) (sn_rules_ok sn) db1 (hit_ProjectID u) of Inr rs \<Rightarrow> Some rs | Inl _ \<Rightarrow> None);
                   e1 = map_option (\<lambda>e. Evaluate e (sink_activity orgID u out) rules (sn_clock sn)) (sk_engine s1)
               in (db1, s1\<lparr>sk_engine := e1\<rparr>, Inr (o_ID out))))"

section \<open>The API's view of the event store\<close>

definition no_query :: "int \<Rightarrow> Query" where
  "no_query pid = \<lparr>q_ProjectID = pid, q_TimeMin = 0, q_TimeMax = 0, q_Level = [], q_Fingerprint = [], q_Release = [], q_Environment = [], q_UserID = [], q_Limit = 0\<rparr>"

text \<open>The bound of 500 in the callback has no effect: both branches return \<open>nil\<close>.\<close>

definition add_fingerprint :: "Event \<Rightarrow> string list \<Rightarrow> es_err + string list" where
  "add_fingerprint e fps =
     (let fps1 = (if ev_Fingerprint e \<in> set fps then fps else fps @ [ev_Fingerprint e]) in
      if 500 \<le> length fps1 then Inr fps1 else Inr fps1)"

definition FingerprintsFn :: "es_env \<Rightarrow> es_disk \<Rightarrow> Store \<Rightarrow> int \<Rightarrow> string \<Rightarrow> string \<Rightarrow> string \<Rightarrow> Store \<times> (es_err + string list)" where
  "FingerprintsFn E disk st projectID release environment userID =
     Scan E disk st ((no_query projectID)\<lparr>q_Release := release, q_Environment := environment, q_UserID := userID, q_Limit := 5000\<rparr>) add_fingerprint []"

definition StatsFn :: "es_env \<Rightarrow> (HLL \<Rightarrow> nat) \<Rightarrow> es_disk \<Rightarrow> Store \<Rightarrow> int \<Rightarrow> int \<Rightarrow> int \<Rightarrow> int \<Rightarrow> es_err + Stats" where
  "StatsFn E estimate disk st projectID tmin tmax bucket = Aggregate E estimate disk st ((no_query projectID)\<lparr>q_TimeMin := tmin, q_TimeMax := tmax\<rparr>) bucket 10"

record apiEvent =
  ap_EventID :: string
  ap_Timestamp :: int
  ap_Level :: string
  ap_Release :: string
  ap_Environment :: string
  ap_UserID :: string
  ap_Message :: string
  ap_Payload :: "byte list"

definition to_apiEvent :: "Event \<Rightarrow> apiEvent" where
  "to_apiEvent e =
     \<lparr>ap_EventID = ev_EventID e, ap_Timestamp = ev_Timestamp e, ap_Level = ev_Level e, ap_Release = ev_Release e, ap_Environment = ev_Environment e,
      ap_UserID = ev_UserID e, ap_Message = ev_Message e, ap_Payload = ev_Payload e\<rparr>"

definition EventsFn :: "es_env \<Rightarrow> es_disk \<Rightarrow> Store \<Rightarrow> int \<Rightarrow> string \<Rightarrow> int \<Rightarrow> Store \<times> (es_err + apiEvent list)" where
  "EventsFn E disk st projectID fingerprint limit =
     Scan E disk st ((no_query projectID)\<lparr>q_Fingerprint := fingerprint, q_Limit := limit\<rparr>) (\<lambda>e out. Inr (out @ [to_apiEvent e])) []"

section \<open>Boot\<close>

text \<open>Which of ingest, worker and query a role runs; \<open>None\<close> is the usage error.\<close>

definition serve_roles :: "string \<Rightarrow> (bool \<times> bool \<times> bool) option" where
  "serve_roles role =
     (if role = ''all'' then Some (True, True, True)
      else if role = ''ingest'' then Some (True, False, False)
      else if role = ''worker'' then Some (False, True, False)
      else if role = ''query'' then Some (False, False, True)
      else None)"

text \<open>\<open>url.Parse\<close> as scheme and host; \<open>None\<close> is an error.\<close>

definition dsnFor :: "(string \<Rightarrow> (string \<times> string) option) \<Rightarrow> string \<Rightarrow> string \<Rightarrow> int \<Rightarrow> string" where
  "dsnFor parse_url publicURL publicKey projectID =
     (case parse_url publicURL of
        Some (scheme, host) \<Rightarrow>
          if host = [] then ''http://'' @ publicKey @ ''@localhost:8080/'' @ int_str projectID
          else scheme @ ''://'' @ publicKey @ ''@'' @ host @ ''/'' @ int_str projectID
      | None \<Rightarrow> ''http://'' @ publicKey @ ''@localhost:8080/'' @ int_str projectID)"

definition pw_chars :: string where
  "pw_chars = ''abcdefghijkmnpqrstuvwxyzABCDEFGHJKLMNPQRSTUVWXYZ23456789''"

definition randomPassword :: "byte list option \<Rightarrow> string option" where
  "randomPassword rnd = map_option (map (\<lambda>b. pw_chars ! (unat b mod length pw_chars))) rnd"

text \<open>What one step of a command meets: the engine, the fates of its writes, random bytes.\<close>

record cli_env =
  cl_sql :: sql_env
  cl_idk :: idkey
  cl_open :: bool
  cl_read_ok :: bool
  cl_boot :: tx_fate
  cl_write :: tx_fate
  cl_audit :: tx_fate
  cl_key_rnd :: "byte list"
  cl_pw_rnd :: "byte list option"
  cl_salt_rnd :: "byte list option"
  cl_tok_rnd :: "byte list option"
  cl_now :: int

text \<open>The first administrator, where a process serves logins: the password it prints, or an exit.\<close>

definition first_admin :: "cli_env \<Rightarrow> int \<Rightarrow> meta_db \<Rightarrow> meta_db \<times> (int + string option)" where
  "first_admin ce orgID db =
     (case CountUsers (cl_read_ok ce) db of
        Inr 0 \<Rightarrow>
          (case randomPassword (cl_pw_rnd ce) of
             None \<Rightarrow> (db, Inl 1)
           | Some pw \<Rightarrow>
               (case HashPassword (cl_idk ce) (cl_salt_rnd ce) pw of
                  None \<Rightarrow> (db, Inl 1)
                | Some hash \<Rightarrow>
                    (case CreateUser (cl_sql ce) (cl_write ce) orgID ''admin@leser.local'' hash RoleOwner db of
                       (db1, Inl _) \<Rightarrow> (db1, Inr None)
                     | (db1, Inr _) \<Rightarrow> (db1, Inr (Some pw)))))
      | _ \<Rightarrow> (db, Inr None))"

record user_flags =
  uf_email :: string
  uf_password :: string
  uf_role :: string

text \<open>The exit code and, on success, the id and the password printed.\<close>

definition cmdUser :: "cli_env \<Rightarrow> user_flags \<Rightarrow> meta_db \<Rightarrow> meta_db \<times> int \<times> (int \<times> string) option" where
  "cmdUser ce fl db =
     (if uf_email fl = [] then (db, 2, None)
      else if RolePermissions (uf_role fl) = [] then (db, 2, None)
      else
        (case (if uf_password fl = [] then randomPassword (cl_pw_rnd ce) else Some (uf_password fl)) of
           None \<Rightarrow> (db, 1, None)
         | Some pw \<Rightarrow>
             if \<not> cl_open ce then (db, 1, None)
             else
               (case Bootstrap (cl_sql ce) (cl_boot ce) (cl_key_rnd ce) ''Default'' ''my-app'' db of
                  (db1, Inl _) \<Rightarrow> (db1, 1, None)
                | (db1, Inr (proj, _)) \<Rightarrow>
                    (case HashPassword (cl_idk ce) (cl_salt_rnd ce) pw of
                       None \<Rightarrow> (db1, 1, None)
                     | Some hash \<Rightarrow>
                         (case CreateUser (cl_sql ce) (cl_write ce) (pj_OrgID proj) (uf_email fl) hash (uf_role fl) db1 of
                            (db2, Inl _) \<Rightarrow> (db2, 1, None)
                          | (db2, Inr i) \<Rightarrow>
                              (fst (Audit (cl_audit ce) \<lparr>ae_OrgID = pj_OrgID proj, ae_ActorID = 0, ae_Action = ''user.create'', ae_Target = uf_email fl,
                                 ae_Detail = uf_role fl, ae_IP = [], ae_UserAgent = [], ae_At = 0\<rparr> (cl_now ce) db2), 0, Some (i, pw)))))))"

record token_flags =
  tf_email :: string
  tf_name :: string
  tf_perms :: string
  tf_expDays :: int

definition cmdToken :: "cli_env \<Rightarrow> token_flags \<Rightarrow> meta_db \<Rightarrow> meta_db \<times> int \<times> (int \<times> string) option" where
  "cmdToken ce fl db =
     (if tf_email fl = [] \<or> tf_name fl = [] then (db, 2, None)
      else if \<not> cl_open ce then (db, 1, None)
      else
        (case UserByEmail (cl_sql ce) (cl_read_ok ce) db (tf_email fl) of
           Inl _ \<Rightarrow> (db, 1, None)
         | Inr u \<Rightarrow>
             (case NewToken (cl_tok_rnd ce) of
                None \<Rightarrow> (db, 1, None)
              | Some (plain, hash) \<Rightarrow>
                  (case CreateToken (cl_sql ce) (cl_write ce)
                          \<lparr>tk_ID = 0, tk_OrgID = us_OrgID u, tk_UserID = us_ID u, tk_Name = tf_name fl,
                           tk_Permissions = (if tf_perms fl \<noteq> [] then split_on '','' (tf_perms fl) else []), tk_ExpiresAt = token_expiry (cl_now ce) (tf_expDays fl)\<rparr> hash db of
                     (db1, Inl _) \<Rightarrow> (db1, 1, None)
                   | (db1, Inr i) \<Rightarrow>
                       (fst (Audit (cl_audit ce) \<lparr>ae_OrgID = us_OrgID u, ae_ActorID = us_ID u, ae_Action = ''token.create'', ae_Target = tf_name fl,
                          ae_Detail = ''cli'', ae_IP = [], ae_UserAgent = [], ae_At = 0\<rparr> (cl_now ce) db1), 0, Some (i, plain))))))"

end
