(* ===== verification/Node_Props.thy ===== *)
theory Node_Props
  imports Node
begin

text \<open>
  Properties of the composed node: every issue belongs to the organisation that owns its project, whatever hits and administrative operations are
  interleaved; searching and showing events through the API is exact; and a user created on the command line can log in.
\<close>

section \<open>Issues and their owners\<close>

definition has_project :: "meta_db \<Rightarrow> int \<times> int \<Rightarrow> bool" where
  "has_project db x \<longleftrightarrow> (\<exists>p \<in> set (db_projects db). pj_OrgID p = fst x \<and> pj_ID p = snd x)"

definition owner_inv :: "meta_db \<Rightarrow> issueSink \<Rightarrow> bool" where
  "owner_inv db s \<longleftrightarrow> (\<forall>x \<in> set (tenants_of (db_issues db)). has_project db x) \<and> (\<forall>(pid, og) \<in> set (sk_m s). has_project db (og, pid))"

fun is_upsert :: "meta_op \<Rightarrow> bool" where
  "is_upsert (Op_UpsertIssue ft u) = True"
| "is_upsert _ = False"

text \<open>What the other operations keep: the projects there are, and the owners of the issues.\<close>

definition kept :: "meta_db \<Rightarrow> meta_db \<Rightarrow> bool" where
  "kept db db' \<longleftrightarrow> set (db_projects db) \<subseteq> set (db_projects db') \<and> tenants_of (db_issues db') = tenants_of (db_issues db)"

lemma write_kept:
  assumes "\<And>db' x. fn db = Inr (db', x) \<Longrightarrow> kept db db'"
  shows "kept db (fst (db_Write ft fn db))"
  by (rule db_Write_keeps [where P = "kept db"]) (use assms in \<open>auto simp: kept_def\<close>)

lemma insert_kept:
  "insert_org E slug name db = Inr (db', i) \<Longrightarrow> kept db db'"
  "insert_project E og slug name plat db = Inr (db', i) \<Longrightarrow> kept db db'"
  "insert_key E pid og pub db = Inr (db', i) \<Longrightarrow> kept db db'"
  "insert_user E og email hash role db = Inr (db', i) \<Longrightarrow> kept db db'"
  "insert_session sid uid ex db = Inr (db', n) \<Longrightarrow> kept db db'"
  "insert_token E og uid name hash ps ex db = Inr (db', i) \<Longrightarrow> kept db db'"
  "insert_rule E r db = Inr (db', i) \<Longrightarrow> kept db db'"
  by (auto simp: insert_org_def insert_project_def insert_key_def insert_user_def insert_session_def insert_token_def insert_rule_def Let_def kept_def
      split: if_splits)

lemma kept_trans: "kept a b \<Longrightarrow> kept b c \<Longrightarrow> kept a c"
  by (auto simp: kept_def)

lemma kept_refl [simp]: "kept a a"
  by (simp add: kept_def)

lemma insert_limits_kept: "insert_limits st db = Inr (db', n) \<Longrightarrow> kept db db'"
  by (induction st db rule: insert_limits.induct) (auto simp: kept_def split: if_splits)

lemma boot_kept:
  "boot_org E name db = Inr (db', og) \<Longrightarrow> kept db db'" "boot_project E og pn db = Inr (db', p) \<Longrightarrow> kept db db'" "boot_key E rnd pid og db = Inr (db', k) \<Longrightarrow> kept db db'"
  by (auto simp: boot_org_def boot_project_def boot_key_def split: option.splits sum.splits dest: insert_kept)

lemma Bootstrap_kept: "kept db (fst (Bootstrap E ft rnd oname pname db))"
  unfolding Bootstrap_def
  by (rule write_kept) (auto split: sum.splits prod.splits dest!: boot_kept intro: kept_trans)

lemma CreateProject_kept: "kept db (fst (CreateProject E ft rnd og name plat db))"
  unfolding CreateProject_def by (rule write_kept) (auto split: sum.splits prod.splits dest!: insert_kept intro: kept_trans)

lemma unchanged_kept: "db_projects db' = db_projects db \<Longrightarrow> db_issues db' = db_issues db \<Longrightarrow> kept db db'"
  by (simp add: kept_def)

lemma meta_apply_kept:
  assumes "\<not> is_upsert op"
  shows "kept db (meta_apply E op db)"
proof (cases op)
  case (Op_RateLimitSave ft st)
  have "kept db (fst (RateLimitSave ft st db))" unfolding RateLimitSave_def
    by (rule write_kept) (auto dest!: insert_limits_kept simp: kept_def)
  with Op_RateLimitSave show ?thesis by simp
next
  case (Op_CreateUser ft og email hash role)
  have "kept db (fst (db_Write ft (insert_user E og e hash role) db))" for e by (rule write_kept) (rule insert_kept)
  with Op_CreateUser show ?thesis by (simp add: CreateUser_def Let_def)
next
  case (Op_CreateAlertRule ft r)
  have "kept db (fst (db_Write ft (insert_rule E r) db))" by (rule write_kept) (rule insert_kept)
  with Op_CreateAlertRule show ?thesis by (simp add: CreateAlertRule_def)
next
  case (Op_UpsertIssue ft u)
  with assms show ?thesis by simp
qed (auto simp: Bootstrap_kept CreateProject_kept CreateOrg_def CreateSession_def RevokeSession_def RevokeUserSessions_def CreateToken_def RevokeToken_def Audit_def
     DeleteAlertRule_def Let_def db_Issue_fst intro!: write_kept intro: unchanged_kept dest: insert_kept split: if_splits, auto simp: kept_def)

text \<open>Hits from the pipeline, interleaved with other operations on the database.\<close>

datatype node_op = Hit sink_env IssueHit | Admin sql_env meta_op

fun node_step :: "meta_db \<times> issueSink \<Rightarrow> node_op \<Rightarrow> meta_db \<times> issueSink" where
  "node_step (db, s) (Hit sn u) = (case sink_UpsertIssue sn s u db of (db', s', _) \<Rightarrow> (db', s'))"
| "node_step (db, s) (Admin E op) = (if is_upsert op then (db, s) else (meta_apply E op db, s))"

lemma has_project_mono: "has_project db x \<Longrightarrow> set (db_projects db) \<subseteq> set (db_projects db') \<Longrightarrow> has_project db' x"
  by (auto simp: has_project_def)

lemma admin_owner: "owner_inv db s \<Longrightarrow> \<not> is_upsert op \<Longrightarrow> owner_inv (meta_apply E op db) s"
  using meta_apply_kept [of op db E] unfolding owner_inv_def kept_def by (auto intro: has_project_mono)

lemma sink_org_owner:
  assumes "owner_inv db s" and "sink_org sn s db pid = (s1, res)"
  shows "owner_inv db s1" and "res = Inr og \<Longrightarrow> has_project db (og, pid)"
proof -
  have new: "has_project db (o1, pid)" if "ProjectOrg b db pid = Inr o1" for b o1
    using that by (auto simp: ProjectOrg_def has_project_def find_Some_iff split: if_splits option.splits)
  have put: "x \<in> set (map_put pid o1 m) \<Longrightarrow> x = (pid, o1) \<or> x \<in> set m" for x o1 and m :: "(int \<times> int) list"
    by (induction pid o1 m rule: map_put.induct) (auto split: if_splits)
  have keep: "owner_inv db (s\<lparr>sk_m := map_put pid o1 (sk_m s)\<rparr>)" if "has_project db (o1, pid)" for o1
    using that assms(1) unfolding owner_inv_def by (auto dest!: put)
  show "owner_inv db s1"
  proof (cases "map_of (sk_m s) pid")
    case None
    show ?thesis
    proof (cases "ProjectOrg (sn_org_ok sn) db pid")
      case (Inl e)
      with None assms show ?thesis by (simp add: sink_org_def)
    next
      case (Inr o1)
      with None assms(2) keep [OF new [OF Inr]] show ?thesis by (auto simp: sink_org_def)
    qed
  qed (use assms in \<open>simp add: sink_org_def\<close>)
  show "res = Inr og \<Longrightarrow> has_project db (og, pid)"
    using assms new by (auto simp: sink_org_def owner_inv_def split: option.splits sum.splits dest!: map_of_SomeD)
qed

lemma upsert_owner:
  assumes "owner_inv db s" and "has_project db (u_OrgID u, u_ProjectID u)"
  shows "owner_inv (fst (db_UpsertIssue E ft u db)) s"
proof -
  obtain b where b: "fst (db_UpsertIssue E ft u db) = db\<lparr>db_issues := fst (UpsertIssue (db_issues db) b (sq_new_id E (map ID (db_issues db))) u)\<rparr>"
    by (simp add: db_UpsertIssue_def Let_def db_Issue_fst)
  have "has_project db x" if "x \<in> set (tenants_of (fst (UpsertIssue (db_issues db) b (sq_new_id E (map ID (db_issues db))) u)))" for x
    using upsert_tenants [OF that] assms by (auto simp: owner_inv_def)
  with assms(1) show ?thesis unfolding b by (auto simp: owner_inv_def has_project_def)
qed

lemma hit_owner:
  assumes "owner_inv db s" and "sink_UpsertIssue sn s u db = (db', s', res)"
  shows "owner_inv db' s'"
proof -
  obtain s1 r1 where o: "sink_org sn s db (hit_ProjectID u) = (s1, r1)" by (cases "sink_org sn s db (hit_ProjectID u)")
  note inv = sink_org_owner [OF assms(1) o]
  show ?thesis
  proof (cases r1)
    case (Inl e)
    with assms(2) o inv show ?thesis by (simp add: sink_UpsertIssue_def)
  next
    case (Inr og)
    obtain db1 r2 where up: "db_UpsertIssue (sn_sql sn) (sn_write sn) (sink_upsert og u) db = (db1, r2)"
      by (cases "db_UpsertIssue (sn_sql sn) (sn_write sn) (sink_upsert og u) db")
    have "has_project db (u_OrgID (sink_upsert og u), u_ProjectID (sink_upsert og u))" using inv(2) [OF Inr] by (simp add: sink_upsert_def)
    from upsert_owner [OF inv(1) this, of "sn_sql sn" "sn_write sn"] have "owner_inv db1 s1" by (simp add: up)
    moreover have "db' = db1" "sk_m s' = sk_m s1" using assms(2) o Inr up by (auto simp: sink_UpsertIssue_def Let_def split: sum.splits)
    ultimately show ?thesis by (simp add: owner_inv_def)
  qed
qed

lemma node_owner: "owner_inv db s \<Longrightarrow> foldl node_step (db, s) ops = (db', s') \<Longrightarrow> owner_inv db' s'"
proof (induction ops arbitrary: db s)
  case (Cons op ops)
  obtain db1 s1 where st: "node_step (db, s) op = (db1, s1)" by (cases "node_step (db, s) op")
  have "owner_inv db1 s1"
    using Cons.prems(1) st by (cases op) (auto split: prod.splits if_splits intro: hit_owner admin_owner)
  from Cons.IH [OF this] Cons.prems(2) st show ?case by simp
qed simp

text \<open>
  C11. Every issue belongs to the organisation that owns its project. Whatever hits the pipeline delivers, for whatever project numbers, and whatever other operations
  run in between, the organisation stored with an issue is the one of its project: a hit for a project that does not exist creates nothing, and the
  sink's cache of owners never goes stale.
\<close>
theorem issues_have_their_owner:
  assumes "foldl node_step (empty_db, \<lparr>sk_m = [], sk_engine = e\<rparr>) ops = (db, s)"
  shows "\<forall>i \<in> set (db_issues db). \<exists>p \<in> set (db_projects db). pj_ID p = ProjectID i \<and> pj_OrgID p = OrgID i"
proof -
  have "owner_inv empty_db \<lparr>sk_m = [], sk_engine = e\<rparr>" by (simp add: owner_inv_def empty_db_def tenants_of_def)
  from node_owner [OF this assms] show ?thesis by (fastforce simp: owner_inv_def tenants_of_def has_project_def)
qed

definition sample_sn :: sink_env where
  "sample_sn = \<lparr>sn_sql = std_sql, sn_org_ok = True, sn_rules_ok = True, sn_write = Runs, sn_clock = (\<lambda>_. 0)\<rparr>"

definition sample_hits :: "node_op list" where
  "sample_hits = [Admin std_sql (Op_Bootstrap Runs [1] ''Org'' ''Web''),
     Hit sample_sn \<lparr>hit_OrgID = 0, hit_ProjectID = 1, hit_Fingerprint = ''f'', hit_Basis = ''b'', hit_Title = ''t'', hit_Level = ''error'', hit_SeenAt = 5\<rparr>,
     Hit sample_sn \<lparr>hit_OrgID = 0, hit_ProjectID = 9, hit_Fingerprint = ''f'', hit_Basis = ''b'', hit_Title = ''t'', hit_Level = ''error'', hit_SeenAt = 6\<rparr>]"

lemma sample_hits_run:
  "map (\<lambda>i. (ID i, OrgID i, ProjectID i)) (db_issues (fst (foldl node_step (empty_db, \<lparr>sk_m = [], sk_engine = None\<rparr>) sample_hits))) = [(1, 1, 1)]"
  by code_simp

theorem issues_have_their_owner_witness:
  "\<exists>p \<in> set (db_projects (fst (foldl node_step (empty_db, \<lparr>sk_m = [], sk_engine = None\<rparr>) sample_hits))). pj_ID p = 1 \<and> pj_OrgID p = 1"
proof -
  obtain db s where r: "foldl node_step (empty_db, \<lparr>sk_m = [], sk_engine = None\<rparr>) sample_hits = (db, s)"
    by (cases "foldl node_step (empty_db, \<lparr>sk_m = [], sk_engine = None\<rparr>) sample_hits")
  with sample_hits_run obtain i where "i \<in> set (db_issues db)" "OrgID i = 1" "ProjectID i = 1" by auto
  with issues_have_their_owner [OF r] r show ?thesis by fastforce
qed

section \<open>Events through the API\<close>

lemma feed_total: "feed (\<lambda>e acc. Inr (g e acc)) es acc = Inr (fold g es acc)"
  by (induction es arbitrary: acc) simp_all

lemma fold_add_new: "distinct fps \<Longrightarrow> distinct (fold (\<lambda>e fps. if f e \<in> set fps then fps else fps @ [f e]) es fps) \<and>
    set (fold (\<lambda>e fps. if f e \<in> set fps then fps else fps @ [f e]) es fps) = set fps \<union> f ` set es"
proof (induction es arbitrary: fps)
  case (Cons e es)
  from Cons.IH [of "if f e \<in> set fps then fps else fps @ [f e]"] Cons.prems show ?case by auto
qed simp

lemma fold_append_map: "fold (\<lambda>e out. out @ [f e]) es acc = acc @ map f es"
  by (induction es arbitrary: acc) simp_all

text \<open>
  The event-backed part of a search, and the events of an issue. On a well-formed store, for a project, the fingerprints found for a release,
  environment and user are exactly those of the first five thousand matching events in scan order, each once; and the events shown for
  a fingerprint are exactly the first \<open>limit\<close> ones in scan order, unchanged.
\<close>
theorem event_lookups_exact:
  assumes "env_ok E" and "store_ok disk st" and "pid \<noteq> 0" and "0 < limit"
  shows "(\<exists>fps. snd (FingerprintsFn E disk st pid rel env uid) = Inr fps \<and> distinct fps \<and>
      set fps = ev_Fingerprint ` set (take 5000 (filter (\<lambda>e. ev_ProjectID e = pid \<and> (rel = [] \<or> ev_Release e = rel) \<and> (env = [] \<or> ev_Environment e = env) \<and>
        (uid = [] \<or> ev_UserID e = uid)) (all_rows disk st)))) \<and>
    snd (EventsFn E disk st pid fp limit) =
      Inr (map to_apiEvent (take (nat limit) (filter (\<lambda>e. ev_ProjectID e = pid \<and> (fp = [] \<or> ev_Fingerprint e = fp)) (all_rows disk st))))"
proof -
  have add: "add_fingerprint = (\<lambda>e fps. Inr (if ev_Fingerprint e \<in> set fps then fps else fps @ [ev_Fingerprint e]))"
    by (intro ext) (simp add: add_fingerprint_def Let_def)
  let ?q = "(no_query pid)\<lparr>q_Release := rel, q_Environment := env, q_UserID := uid, q_Limit := 5000\<rparr>"
  have m: "q_match ?q = (\<lambda>e. ev_ProjectID e = pid \<and> (rel = [] \<or> ev_Release e = rel) \<and> (env = [] \<or> ev_Environment e = env) \<and> (uid = [] \<or> ev_UserID e = uid))"
    by (intro ext) (auto simp: q_match_def no_query_def)
  have l: "scan_limit st ?q = 5000" "q_ProjectID ?q \<noteq> 0" using assms(3) by (simp_all add: scan_limit_def no_query_def)
  have F: "snd (FingerprintsFn E disk st pid rel env uid) =
      Inr (fold (\<lambda>e fps. if ev_Fingerprint e \<in> set fps then fps else fps @ [ev_Fingerprint e]) (take 5000 (filter (q_match ?q) (all_rows disk st))) [])"
    unfolding FingerprintsFn_def Scan_feed [OF assms(1,2) l(2)] l(1) unfolding add feed_total ..
  let ?q2 = "(no_query pid)\<lparr>q_Fingerprint := fp, q_Limit := limit\<rparr>"
  have m2: "q_match ?q2 = (\<lambda>e. ev_ProjectID e = pid \<and> (fp = [] \<or> ev_Fingerprint e = fp))" by (intro ext) (auto simp: q_match_def no_query_def)
  have l2: "scan_limit st ?q2 = nat limit" "q_ProjectID ?q2 \<noteq> 0" using assms(3,4) by (simp_all add: scan_limit_def no_query_def)
  have "snd (EventsFn E disk st pid fp limit) = Inr (map to_apiEvent (take (nat limit) (filter (q_match ?q2) (all_rows disk st))))"
    unfolding EventsFn_def Scan_feed [OF assms(1,2) l2(2)] l2(1) feed_total fold_append_map by simp
  then show ?thesis using F fold_add_new [of "[]" ev_Fingerprint "take 5000 (filter (q_match ?q) (all_rows disk st))"] unfolding m m2 by auto
qed

theorem event_lookups_exact_witness:
  "snd (EventsFn std_env [] sample_store 7 [] 3) = Inr [to_apiEvent (sample_event 7 5 ''u'')]"
proof -
  have "store_ok [] sample_store" by (simp add: store_ok_def sample_store_def)
  from event_lookups_exact [OF std_env_ok this, of 7 3] show ?thesis
    by (simp add: all_rows_def sample_store_def sample_event_def)
qed

section \<open>Users made on the command line\<close>

lemma write_success:
  assumes "db_Write ft fn db = (db', Inr x)"
  shows "fn db = Inr (db', x)"
  using assms by (auto simp: db_Write_def execTx_def split: if_splits sum.splits prod.splits)

lemma find_snoc: "find P xs = None \<Longrightarrow> find P (xs @ [v]) = (if P v then Some v else None)"
  by (induction xs) (auto split: if_splits)

lemma CreateUser_finds:
  assumes "CreateUser E ft og email hash role db = (db', Inr i)"
  shows "UserByEmail E True db' email = Inr \<lparr>us_ID = i, us_OrgID = og, us_Email = sq_ToLower E (trim_space email), us_PasswordHash = hash, us_Role = role\<rparr>"
proof -
  let ?em = "sq_ToLower E (trim_space email)"
  have "insert_user E og ?em hash role db = Inr (db', i)"
    using assms write_success [of ft "insert_user E og ?em hash role" db db' i] by (auto simp: CreateUser_def Let_def split: if_splits)
  then have new: "?em \<notin> us_Email ` set (db_users db)"
    and ap: "db_users db' = db_users db @ [\<lparr>us_ID = i, us_OrgID = og, us_Email = ?em, us_PasswordHash = hash, us_Role = role\<rparr>]"
    by (auto simp: insert_user_def Let_def split: if_splits)
  have "find (\<lambda>u. us_Email u = ?em) (db_users db) = None" using new unfolding find_None_iff by (metis imageI)
  then have "find (\<lambda>u. us_Email u = ?em) (db_users db @ [v]) = (if us_Email v = ?em then Some v else None)" for v by (simp add: find_snoc)
  then show ?thesis by (simp add: UserByEmail_def ap)
qed

lemma UserByEmail_audit: "UserByEmail E True (fst (Audit ft e now db)) email = UserByEmail E True db email"
  by (simp add: Audit_def UserByEmail_def db_Write_def execTx_def Let_def)

lemma cmdUser_done:
  assumes "cmdUser ce fl db = (db', 0, Some (i, pw))"
  obtains db1 proj k hash db2 e where "Bootstrap (cl_sql ce) (cl_boot ce) (cl_key_rnd ce) ''Default'' ''my-app'' db = (db1, Inr (proj, k))"
    and "HashPassword (cl_idk ce) (cl_salt_rnd ce) pw = Some hash"
    and "CreateUser (cl_sql ce) (cl_write ce) (pj_OrgID proj) (uf_email fl) hash (uf_role fl) db1 = (db2, Inr i)"
    and "db' = fst (Audit (cl_audit ce) e (cl_now ce) db2)"
    and "uf_password fl = [] \<or> pw = uf_password fl" and "RolePermissions (uf_role fl) \<noteq> []"
  using assms unfolding cmdUser_def by (auto split: if_splits option.splits sum.splits prod.splits)

text \<open>
  A user made on the command line can log in. When the command exits with success it has printed a password, the one given or a fresh one;
  looking the address up finds the account it made, with the role asked for, and checking a password against the stored hash succeeds for the
  printed one and for no other that \<open>argon2id\<close> tells apart from it.
\<close>
theorem created_user_can_log_in:
  assumes "\<And>pw salt t m p n. length (cl_idk ce pw salt t m p n) = n" and "cl_salt_rnd ce = Some salt"
    and "cmdUser ce fl db = (db', 0, Some (i, pw))"
  shows "\<exists>u. UserByEmail (cl_sql ce) True db' (uf_email fl) = Inr u \<and> us_ID u = i \<and> us_Role u = uf_role fl \<and> RolePermissions (us_Role u) \<noteq> [] \<and>
    (uf_password fl \<noteq> [] \<longrightarrow> pw = uf_password fl) \<and>
    (\<forall>pw'. VerifyPassword (cl_idk ce) pw' (us_PasswordHash u) \<longleftrightarrow>
      cl_idk ce (str_bytes pw') salt argonTime argonMemory argonThreads argonKeyLen = cl_idk ce (str_bytes pw) salt argonTime argonMemory argonThreads argonKeyLen)"
proof -
  obtain db1 proj k hash db2 e where "Bootstrap (cl_sql ce) (cl_boot ce) (cl_key_rnd ce) ''Default'' ''my-app'' db = (db1, Inr (proj, k))"
    and h: "HashPassword (cl_idk ce) (cl_salt_rnd ce) pw = Some hash"
    and cu: "CreateUser (cl_sql ce) (cl_write ce) (pj_OrgID proj) (uf_email fl) hash (uf_role fl) db1 = (db2, Inr i)"
    and db': "db' = fst (Audit (cl_audit ce) e (cl_now ce) db2)"
    and pw: "uf_password fl = [] \<or> pw = uf_password fl" and role: "RolePermissions (uf_role fl) \<noteq> []"
    using assms(3) by (rule cmdUser_done)
  have "UserByEmail (cl_sql ce) True db' (uf_email fl) = UserByEmail (cl_sql ce) True db2 (uf_email fl)" unfolding db' by (rule UserByEmail_audit)
  with CreateUser_finds [OF cu] verify_own [OF assms(1) h [unfolded assms(2)]] pw role show ?thesis by auto
qed

definition sample_ce :: cli_env where
  "sample_ce = \<lparr>cl_sql = std_sql, cl_idk = (\<lambda>pw salt t m p n. take n (pw @ replicate n 0)), cl_open = True, cl_read_ok = True, cl_boot = Runs, cl_write = Runs,
     cl_audit = Runs, cl_key_rnd = [1], cl_pw_rnd = None, cl_salt_rnd = Some [1, 2, 3], cl_tok_rnd = None, cl_now = 9\<rparr>"

definition sample_fl :: user_flags where
  "sample_fl = \<lparr>uf_email = ''a@b'', uf_password = ''secret'', uf_role = ''admin''\<rparr>"

lemma sample_user_done: "\<exists>db'. cmdUser sample_ce sample_fl empty_db = (db', 0, Some (1, ''secret''))"
proof -
  obtain db1 proj k where b: "Bootstrap std_sql Runs [1] ''Default'' ''my-app'' empty_db = (db1, Inr (proj, k))"
    and db1: "db_users db1 = []" "pj_OrgID proj \<in> og_ID ` set (db_orgs db1)"
  proof -
    have "(case Bootstrap std_sql Runs [1] ''Default'' ''my-app'' empty_db of (db1, Inl _) \<Rightarrow> False
      | (db1, Inr (proj, k)) \<Rightarrow> db_users db1 = [] \<and> pj_OrgID proj \<in> og_ID ` set (db_orgs db1))" by code_simp
    with that show thesis by (auto split: prod.splits sum.splits)
  qed
  obtain hash where h: "HashPassword (cl_idk sample_ce) (Some [1, 2, 3]) ''secret'' = Some hash" and ne: "hash \<noteq> []"
    by (simp add: HashPassword_def Let_def)
  have em: "sq_ToLower std_sql (trim_space ''a@b'') = ''a@b''" "sq_new_id std_sql [] = 1" by code_simp+
  have role: "RolePermissions ''admin'' \<noteq> []" by code_simp
  have "\<exists>db2. CreateUser std_sql Runs (pj_OrgID proj) ''a@b'' hash ''admin'' db1 = (db2, Inr 1)"
    using db1 ne em by (simp add: CreateUser_def Let_def db_Write_def execTx_def insert_user_def)
  with b h role show ?thesis by (auto simp: cmdUser_def sample_ce_def sample_fl_def)
qed

theorem created_user_can_log_in_witness:
  "\<exists>db' u. cmdUser sample_ce sample_fl empty_db = (db', 0, Some (1, ''secret'')) \<and> UserByEmail std_sql True db' ''a@b'' = Inr u \<and>
     VerifyPassword (cl_idk sample_ce) ''secret'' (us_PasswordHash u)"
proof -
  obtain db' where r: "cmdUser sample_ce sample_fl empty_db = (db', 0, Some (1, ''secret''))" using sample_user_done by blast
  have "length (cl_idk sample_ce pw salt t m p n) = n" for pw salt t m p n by (simp add: sample_ce_def)
  from created_user_can_log_in [OF this _ r, of "[1, 2, 3]"] r show ?thesis by (auto simp: sample_ce_def sample_fl_def)
qed

end
