(* ===== verification/End_To_End.thy ===== *)
theory End_To_End
  imports Node_Props Pipeline_Run
begin

text \<open>
  What is needed to compose the endpoint, the log, the pipeline, the store and the API: the files of a log determine its entries, so that the
  record the writer acknowledged is the one the consumer reads.
\<close>

section \<open>The files determine the log\<close>

lemma enc_entries_inj:
  assumes "list_all (entry_fits mx) es" and "list_all (entry_fits mx) es'" and "mx < 2 ^ 32"
    and "enc_entries es = enc_entries es'" and "length es = length es'"
  shows "es = es'"
proof -
  let ?f = "enc_entries es" and ?n = "length (enc_entries es)"
  have "fst (scan_records ?f ?n mx 0 0) = number_entries 0 es @ fst (scan_records ?f ?n mx ?n (length es))"
    using scan_records_enc [of "[]" 0 mx es ?n "[]" 0] assms(1,3) by (simp add: Let_def)
  moreover have "fst (scan_records ?f ?n mx 0 0) = number_entries 0 es' @ fst (scan_records ?f ?n mx ?n (length es'))"
    using scan_records_enc [of "[]" 0 mx es' ?n "[]" 0] assms(2-4) by (simp add: Let_def)
  ultimately have n: "number_entries 0 es = number_entries 0 es'" using assms(5) by (simp add: append_eq_append_conv)
  show ?thesis
  proof (rule nth_equalityI)
    fix i
    assume i: "i < length es"
    with n assms(5) have "entry_record (0 + i) (es ! i) = entry_record (0 + i) (es' ! i)" by (metis number_entries_nth)
    then show "es ! i = es' ! i" by (cases "es ! i", cases "es' ! i") (simp add: entry_record_def)
  qed (rule assms(5))
qed

lemma seg_holds_unique:
  assumes "seg_holds d mx s es" and "seg_holds d mx s es'" and "mx < 2 ^ 32"
  shows "es = es'"
proof (rule enc_entries_inj [OF _ _ assms(3)])
  show "list_all (entry_fits mx) es" "list_all (entry_fits mx) es'" "length es = length es'" using assms(1,2) by (simp_all add: seg_holds_def)
  have p: "prefix (segment_header (seg_base s) @ enc_entries es) (seg_file d s)" "prefix (segment_header (seg_base s) @ enc_entries es') (seg_file d s)"
    "length (enc_entries es) = length (enc_entries es')" using assms(1,2) by (simp_all add: seg_holds_def)
  then have "segment_header (seg_base s) @ enc_entries es = segment_header (seg_base s) @ enc_entries es'"
    unfolding prefix_def by (metis append_eq_append_conv length_append)
  then show "enc_entries es = enc_entries es'" by simp
qed

lemma log_inv_unique:
  assumes "log_inv l ess" and "log_inv l ess'"
  shows "ess = ess'"
proof -
  have a: "list_all2 (seg_holds (dir l) (mxr l)) (segs l) ess" "list_all2 (seg_holds (dir l) (mxr l)) (segs l) ess'" and m: "mxr l < 2 ^ 32"
    using assms by (simp_all add: log_inv_def)
  show ?thesis
  proof (rule nth_equalityI)
    show "length ess = length ess'" using a by (metis list_all2_lengthD)
    fix i
    assume "i < length ess"
    with a seg_holds_unique [OF _ _ m] show "ess ! i = ess' ! i" by (metis list_all2_lengthD list_all2_nthD2)
  qed
qed

section \<open>From the acknowledgement to the stored row\<close>

lemma parseInt64_range: "parseInt64 s = Some v \<Longrightarrow> - (2 ^ 63) \<le> v \<and> v < 2 ^ 63"
  by (auto simp: parseInt64_def Let_def split: if_splits)

lemma acknowledged_payload:
  assumes "handle hl kind h r x = (h', resp, app)" and "rs_Status resp = 200"
  obtains pid body n where "parseInt64 (rq_ProjectID r) = Some pid" and "app = Some (kind, submit_record kind pid body)" and "hi_append x = Appended n"
    and "rec_project (submit_record kind pid body) = pid" and "readBody hl (h_lim h) r = Inr body"
proof -
  from handle_ok [OF assms] obtain pid h1 l2 where h: "parseInt64 (rq_ProjectID r) = Some pid"
    "accept_body hl kind (h1\<lparr>h_limiter := l2\<rparr>) pid r (hi_append x) = (h', resp, app)" "h_lim h1 = h_lim h" by metis
  from accept_body_ok [OF h(2) assms(2)] obtain body n where "hi_append x = Appended n" "app = Some (kind, submit_record kind pid body)"
    "readBody hl (h_lim (h1\<lparr>h_limiter := l2\<rparr>)) r = Inr body" by metis
  with h(1,3) parseInt64_range [OF h(1)] submit_record_parts(4) that show thesis by simp
qed

lemma acknowledged_read:
  assumes "wal_run opts l A" and "Policy opts \<noteq> SyncInterval" and "nat (MaxRecordBytes opts) < 2 ^ 32" and "(off, (ts, k, payload)) \<in> A" and "log_inv l ess"
  shows "OldestOffset l \<le> off" and "payload_at l ess off = payload"
proof -
  from wal_run_inv [OF assms(1-3)] obtain ess1 where e: "log_inv l ess1" and k: "keeps_all l ess1 A" by (auto simp: durable_def)
  have "ess1 = ess" by (rule log_inv_unique [OF e assms(5)])
  with k assms(4) have b: "OldestOffset l \<le> off" "off - OldestOffset l < length (concat ess)" "concat ess ! (off - OldestOffset l) = (ts, k, payload)"
    by (auto simp: keeps_all_def)
  then show "OldestOffset l \<le> off" "payload_at l ess off = payload"
    by (simp_all add: payload_at_def log_records_def number_entries_nth entry_record_def)
qed

lemma committed_stored:
  assumes "env_ok E" and "lib_ok lib" and "pipeline_life E lib lims (turn_ready E lib) (process_ready lib) l ess s" and "ConsumerOffset (rn_cd s) ConsumerName [] = ([], Inr (Some c))"
    and "OldestOffset l \<le> off" and "off < c"
  shows "log_inv l ess" and "disk_valid (pr_disk (rn_proc s))" and "record_stored lib (lim_defaults lims) (set (disk_rows (pr_disk (rn_proc s)))) (payload_at l ess off)"
proof -
  have i: "run_inv lib (lim_defaults lims) l ess s" by (rule pipeline_life_inv [OF assms(1-3)])
  then show "log_inv l ess" "disk_valid (pr_disk (rn_proc s))" by (simp_all add: run_inv_def log_sound_def proc_sound_def store_sound_def)
  show "record_stored lib (lim_defaults lims) (set (disk_rows (pr_disk (rn_proc s)))) (payload_at l ess off)"
    using i offset_sound_ConsumerOffset(2) [OF _ _ assms(4)] assms(5,6) by (auto simp: run_inv_def log_sound_def stored_below_def)
qed

text \<open>
  The rows a lookup of a project's events with a fingerprint has to choose from (all of the project's without one). A stored event is
  shown by the lookups without a fingerprint and with its own, if their limit admits all those rows.
\<close>

definition lookup_rows :: "es_disk \<Rightarrow> Store \<Rightarrow> int \<Rightarrow> string \<Rightarrow> Event list" where
  "lookup_rows disk st pid fp = filter (\<lambda>e. ev_ProjectID e = pid \<and> (fp = [] \<or> ev_Fingerprint e = fp)) (all_rows disk st)"

lemma lookup_shows:
  assumes "env_ok E" and "store_ok disk st" and "pid \<noteq> 0" and "e \<in> set (lookup_rows disk st pid fp)" and "int (length (lookup_rows disk st pid fp)) \<le> limit"
  shows "\<exists>out. snd (EventsFn E disk st pid fp limit) = Inr out \<and> to_apiEvent e \<in> set out"
proof -
  have "0 < length (lookup_rows disk st pid fp)" using assms(4) by (cases "lookup_rows disk st pid fp") auto
  then have "0 < limit" using assms(5) by linarith
  from event_lookups_exact [OF assms(1-3) this, of _ _ _ fp] assms(4,5) show ?thesis by (auto simp flip: lookup_rows_def)
qed

lemma stored_is_shown:
  assumes "env_ok E" and "disk_valid disk" and "stored (set (disk_rows disk)) pid eid body" and "pid \<noteq> 0"
  shows "\<exists>st e. es_Open o1 disk = Inr st \<and> e \<in> set (all_rows disk st) \<and> ev_ProjectID e = pid \<and> ev_EventID e = eid \<and> (eid = [] \<longrightarrow> ev_Payload e = body) \<and>
    (\<forall>fp limit. fp \<in> {[], ev_Fingerprint e} \<longrightarrow> int (length (lookup_rows disk st pid fp)) \<le> limit \<longrightarrow>
       (\<exists>out. snd (EventsFn E disk st pid fp limit) = Inr out \<and> to_apiEvent e \<in> set out))"
proof -
  obtain st where st: "es_Open o1 disk = Inr st" "store_ok disk st" "all_rows disk st = disk_rows disk" using es_Open_rows [OF assms(2), of o1] by blast
  obtain e where e: "e \<in> set (all_rows disk st)" "ev_ProjectID e = pid" "ev_EventID e = eid" "eid = [] \<longrightarrow> ev_Payload e = body"
    using assms(3) st(3) by (auto simp: stored_def)
  have "e \<in> set (lookup_rows disk st pid fp)" if "fp \<in> {[], ev_Fingerprint e}" for fp using e(1,2) that by (auto simp: lookup_rows_def)
  with lookup_shows [OF assms(1) st(2) assms(4)] st(1) e show ?thesis by blast
qed

section \<open>A sample request\<close>

definition shown_key :: ProjectKey where
  "shown_key = sample_key\<lparr>pk_ProjectID := 3\<rparr>"

definition shown_req :: HttpRequest where
  "shown_req = sample_req\<lparr>rq_ProjectID := ''3'', rq_Body := sample_body\<rparr>"

definition shown_io :: http_io where
  "shown_io = sample_io\<lparr>hi_keys := (\<lambda>k. Inr shown_key), hi_append := Appended 0\<rparr>"

lemma shown_handled: "\<exists>h' resp. handle plain_lib recEventJSON sample_handler shown_req shown_io = (h', resp, Some (recEventJSON, sample_payload)) \<and> rs_Status resp = 200"
proof -
  have f: "sentryAuthKey shown_req = ''ab''" "parseInt64 (rq_ProjectID shown_req) = Some 3" by code_simp+
  have "length sample_body \<le> 100" unfolding sample_body_def by code_simp
  then have b: "readBody plain_lib (h_lim sample_handler) shown_req = Inr sample_body"
    by (simp add: readBody_def open_body_def plain_lib_def shown_req_def sample_req_def MaxBytesReader_def read_limited_def to_lower_def sample_limits)
  obtain h1 where l: "lookupKey sample_handler shown_io (sentryAuthKey shown_req) = (h1, Inr shown_key)"
    by (simp add: f lookupKey_def sample_handler_def NewHandler_def lru_Get_def lru_New_def shown_io_def sample_io_def)
  obtain l2 where a: "Allow (h_limiter sample_handler) 3 (hi_bucket_time shown_io) (hi_allow_time shown_io) = (l2, True, Some 0)"
    by (simp add: shown_io_def sample_io_def sample_handler_def NewHandler_def Allow_def rl_New_def DefaultLimit_def lim_for_def refill_def time_sub_def Let_def)
  have k: "pk_ProjectID shown_key = 3" "hi_append shown_io = Appended 0" by (simp_all add: shown_key_def shown_io_def)
  have n: "sentryAuthKey shown_req \<noteq> []" "pl_lag (h_pipe sample_handler) \<le> MaxLag (pl_opts (h_pipe sample_handler))"
    by (simp_all add: f sample_limits)
  obtain h' resp app where h: "handle plain_lib recEventJSON sample_handler shown_req shown_io = (h', resp, app)"
    by (cases "handle plain_lib recEventJSON sample_handler shown_req shown_io") auto
  have s: "rs_Status resp = 200" using handle_accepts [OF f(2) n(1) l k(1) a b n(2) k(2), of recEventJSON] h by simp
  from acknowledged_payload [OF h s] f(2) b have "app = Some (recEventJSON, submit_record recEventJSON 3 sample_body)" by (metis option.inject sum.inject(2))
  then show ?thesis using h s by (simp add: sample_payload_def)
qed

end
