(* ===== verification/Partition.thy ===== *)
theory Partition
  imports Eventstore Json
begin

text \<open>
  The names of partitions and segments in \<open>internal/eventstore/store.go\<close> as text, with the calendar that \<open>time.Format\<close> and
  \<open>time.ParseInLocation\<close> use for the layout \<open>2006010215\<close> in UTC. Elsewhere a segment's path is a structured value; the round trip below is
  what entitles to that: the text of a path parses back to the project and the hour it was made from.
\<close>

section \<open>The calendar\<close>

definition leap :: "int \<Rightarrow> bool" where
  "leap y \<longleftrightarrow> y mod 4 = 0 \<and> (y mod 100 \<noteq> 0 \<or> y mod 400 = 0)"

definition year_len :: "int \<Rightarrow> int" where
  "year_len y = (if leap y then 366 else 365)"

definition month_len :: "int \<Rightarrow> nat \<Rightarrow> int" where
  "month_len y m = (if m = 2 then if leap y then 29 else 28 else if m \<in> {4, 6, 9, 11} then 30 else 31)"

text \<open>Days since the first of January 1970 of the first day of a year, and since the first day of the year of the first of a month.\<close>

definition year_start :: "int \<Rightarrow> int" where
  "year_start y = 365 * (y - 1970) + ((y - 1) div 4 - (y - 1) div 100 + (y - 1) div 400 - 477)"

definition month_start :: "int \<Rightarrow> nat \<Rightarrow> int" where
  "month_start y m = sum_list (map (month_len y) [1..<m])"

text \<open>From a day to its date.\<close>

function year_from :: "int \<Rightarrow> int \<Rightarrow> int \<times> int" where
  "year_from y d =
     (if d < 0 then year_from (y - 1) (d + year_len (y - 1))
      else if year_len y \<le> d then year_from (y + 1) (d - year_len y)
      else (y, d))"
  by auto
termination
  by (relation "measure (\<lambda>(y, d). if d < 0 then nat (- d) + 400 else nat d)") (auto simp: year_len_def split: if_splits)

fun month_from :: "int \<Rightarrow> nat \<Rightarrow> int \<Rightarrow> nat \<Rightarrow> nat \<times> int" where
  "month_from y m d 0 = (m, d)"
| "month_from y m d (Suc k) = (if d < month_len y m then (m, d) else month_from y (m + 1) (d - month_len y m) k)"

definition civil :: "int \<Rightarrow> int \<times> nat \<times> int" where
  "civil z = (case year_from 1970 z of (y, d) \<Rightarrow> case month_from y 1 d 11 of (m, e) \<Rightarrow> (y, m, e + 1))"

definition days_of :: "int \<Rightarrow> nat \<Rightarrow> int \<Rightarrow> int" where
  "days_of y m d = year_start y + month_start y m + d - 1"

declare year_from.simps [simp del]

lemma year_start_Suc: "year_start (y + 1) = year_start y + year_len y"
proof -
  have a: "y div k - (y - 1) div k = (if y mod k = 0 then 1 else 0)" if "0 < k" for k :: int
  proof (cases "y mod k = 0")
    case True
    then obtain q where q: "y = k * q" by (metis dvd_def mod_0_imp_dvd)
    have "(k * q - 1) div k = q - 1" using that by (intro int_div_pos_eq [where r = "k - 1"]) (simp_all add: algebra_simps)
    then show ?thesis using that by (simp add: q)
  next
    case False
    define q r where "q = y div k" and "r = y mod k"
    have "0 \<le> r" "r \<noteq> 0" "r < k" using False that by (simp_all add: r_def)
    then have "y = k * q + r" "0 < r" "r < k" by (simp_all add: q_def r_def)
    then have "(y - 1) div k = q" using that by (intro int_div_pos_eq [where r = "r - 1"]) simp_all
    with False show ?thesis by (simp add: q_def)
  qed
  have m: "y mod 400 = 0 \<Longrightarrow> y mod 100 = 0" "y mod 100 = 0 \<Longrightarrow> y mod 4 = 0"
    using mod_mod_cancel [of 100 400 y] mod_mod_cancel [of 4 100 y] by auto
  have "year_start (y + 1) - year_start y = 365 + ((y div 4 - (y - 1) div 4) - (y div 100 - (y - 1) div 100) + (y div 400 - (y - 1) div 400))"
    by (simp add: year_start_def)
  also have "\<dots> = 365 + ((if y mod 4 = 0 then 1 else 0) - (if y mod 100 = 0 then 1 else 0) + (if y mod 400 = 0 then 1 else 0))"
    using a [of 4, simplified] a [of 100, simplified] a [of 400, simplified] by (simp only:)
  also have "\<dots> = year_len y" using m by (cases "y mod 4 = 0"; cases "y mod 100 = 0"; cases "y mod 400 = 0") (simp_all add: year_len_def leap_def)
  finally show ?thesis by simp
qed

lemma year_start_1970: "year_start 1970 = 0"
  by (simp add: year_start_def)

lemma year_from_inv: "year_from y d = (y1, d1) \<Longrightarrow> year_start y1 + d1 = year_start y + d \<and> 0 \<le> d1 \<and> d1 < year_len y1"
proof (induction y d rule: year_from.induct)
  case (1 y d)
  show ?case
  proof (cases "d < 0")
    case True
    with 1(3) have "year_from (y - 1) (d + year_len (y - 1)) = (y1, d1)" by (simp add: year_from.simps [of y d])
    from 1(1) [OF True this] year_start_Suc [of "y - 1"] show ?thesis by simp
  next
    case False
    show ?thesis
    proof (cases "year_len y \<le> d")
      case True
      with 1(3) False have "year_from (y + 1) (d - year_len y) = (y1, d1)" by (simp add: year_from.simps [of y d])
      from 1(2) [OF False True this] year_start_Suc [of y] show ?thesis by simp
    next
      case f: False
      with 1(3) False show ?thesis by (simp add: year_from.simps [of y d])
    qed
  qed
qed

lemma month_start_Suc: "1 \<le> m \<Longrightarrow> month_start y (m + 1) = month_start y m + month_len y m"
  by (simp add: month_start_def)

lemma month_start_13: "month_start y 13 = year_len y"
  by (simp add: month_start_def year_len_def month_len_def upt_rec)

lemma month_from_inv:
  "month_from y m d k = (m1, e) \<Longrightarrow> 1 \<le> m \<Longrightarrow> m + k = 12 \<Longrightarrow> 0 \<le> d \<Longrightarrow> month_start y m + d < year_len y \<Longrightarrow>
   month_start y m1 + e = month_start y m + d \<and> 1 \<le> m1 \<and> m1 \<le> 12 \<and> 0 \<le> e \<and> e < month_len y m1"
proof (induction y m d k rule: month_from.induct)
  case (1 y m d)
  then show ?case using month_start_13 [of y] month_start_Suc [of 12 y] by simp
next
  case (2 y m d k)
  show ?case
  proof (cases "d < month_len y m")
    case False
    with 2 month_start_Suc [OF 2(3), of y] show ?thesis by simp
  qed (use 2 in simp)
qed

lemma civil_inv:
  assumes "civil z = (y, m, d)"
  shows "days_of y m d = z \<and> 1 \<le> m \<and> m \<le> 12 \<and> 1 \<le> d \<and> d \<le> month_len y m \<and> 0 \<le> month_start y m + d - 1 \<and> month_start y m + d - 1 < 366"
proof -
  obtain y1 d1 where y: "year_from 1970 z = (y1, d1)" by fastforce
  obtain m1 e where m: "month_from y1 1 d1 11 = (m1, e)" by fastforce
  note yi = year_from_inv [OF y]
  have "month_start y1 1 = 0" by (simp add: month_start_def)
  then have "month_start y1 m1 + e = d1 \<and> 1 \<le> m1 \<and> m1 \<le> 12 \<and> 0 \<le> e \<and> e < month_len y1 m1"
    using month_from_inv [OF m] yi by simp
  moreover have "d1 < 366" using yi by (simp add: year_len_def split: if_splits)
  ultimately show ?thesis using assms y m yi by (auto simp: civil_def days_of_def year_start_1970)
qed

section \<open>Names\<close>

definition dayNanos :: int where "dayNanos = 24 * hourNanos"

definition hour_text :: "int \<Rightarrow> string" where
  "hour_text hr =
     (case civil (hr div dayNanos) of (y, m, d) \<Rightarrow>
        pad_dec 4 (nat y) @ pad_dec 2 m @ pad_dec 2 (nat d) @ pad_dec 2 (nat (hr mod dayNanos div hourNanos)))"

definition partitionDir :: "int \<Rightarrow> int \<Rightarrow> string" where
  "partitionDir project hr = ''p'' @ int_str project @ ''/'' @ hour_text hr"

fun hex_nat :: "nat \<Rightarrow> string" where
  "hex_nat n = (if n < 16 then [hex_digit n] else hex_nat (n div 16) @ [hex_digit (n mod 16)])"

declare hex_nat.simps [simp del]

definition pad0 :: "nat \<Rightarrow> string \<Rightarrow> string" where
  "pad0 w s = replicate (w - length s) (CHR ''0'') @ s"

text \<open>\<open>%0wx\<close> of an integer; a sign counts towards the width.\<close>

definition hex_int :: "nat \<Rightarrow> int \<Rightarrow> string" where
  "hex_int w n = (if n < 0 then ''-'' @ pad0 (w - 1) (hex_nat (nat (- n))) else pad0 w (hex_nat (nat n)))"

definition segment_name :: "int \<Rightarrow> nat \<Rightarrow> string" where
  "segment_name mn n = hex_int 16 mn @ ''-'' @ pad_dec 6 n @ ''.parquet''"

definition path_text :: "seg_path \<Rightarrow> string" where
  "path_text p = (case p of SegPath project hr mn n \<Rightarrow> partitionDir project hr @ ''/'' @ segment_name mn n | OtherFile s \<Rightarrow> s)"

section \<open>Parsing\<close>

text \<open>The two digits of a fixed field, and one or two digits.\<close>

definition getnum2 :: "string \<Rightarrow> (nat \<times> string) option" where
  "getnum2 s = (case s of a # b # r \<Rightarrow> if is_digit a \<and> is_digit b then Some (dec_val [a, b], r) else None | _ \<Rightarrow> None)"

definition getnum1 :: "string \<Rightarrow> (nat \<times> string) option" where
  "getnum1 s =
     (case s of
        [] \<Rightarrow> None
      | a # r \<Rightarrow>
          if \<not> is_digit a then None
          else case r of b # r' \<Rightarrow> if is_digit b then Some (dec_val [a, b], r') else Some (dec_val [a], r) | [] \<Rightarrow> Some (dec_val [a], r))"

definition wrap64 :: "int \<Rightarrow> int" where
  "wrap64 v = (v + 2 ^ 63) mod 2 ^ 64 - 2 ^ 63"

text \<open>\<open>ParseInLocation("2006010215", s, UTC)\<close> followed by \<open>UnixNano\<close>, which wraps outside its range.\<close>

definition parse_hour :: "string \<Rightarrow> int option" where
  "parse_hour s =
     (if length s < 4 \<or> \<not> list_all is_digit (take 4 s) then None
      else let y = int (dec_val (take 4 s)) in
        case getnum2 (drop 4 s) of
          None \<Rightarrow> None
        | Some (m, s1) \<Rightarrow>
            if m = 0 \<or> 12 < m then None
            else (case getnum2 s1 of
                None \<Rightarrow> None
              | Some (d, s2) \<Rightarrow>
                  (case getnum1 s2 of
                     None \<Rightarrow> None
                   | Some (h, s3) \<Rightarrow>
                       if 24 \<le> h \<or> s3 \<noteq> [] \<or> d = 0 \<or> month_len y m < int d then None
                       else Some (wrap64 (days_of y m (int d) * dayNanos + int h * hourNanos)))))"

definition parsePartition_text :: "string \<Rightarrow> (int \<times> int) option" where
  "parsePartition_text rel =
     (let parts = split_on ''/'' rel in
      if length parts < 2 \<or> \<not> prefix ''p'' (parts ! 0) then None
      else case parseInt64 (drop 1 (parts ! 0)) of
        None \<Rightarrow> None
      | Some proj \<Rightarrow> (case parse_hour (parts ! 1) of None \<Rightarrow> None | Some hr \<Rightarrow> Some (proj, hr)))"

section \<open>The round trip\<close>

lemma getnum2_pad: "n < 100 \<Longrightarrow> getnum2 (pad_dec 2 n @ r) = Some (n, r)"
proof -
  assume "n < 100"
  then have l: "length (pad_dec 2 n) = 2" by (intro pad_dec_props(4)) simp_all
  then obtain a b where s: "pad_dec 2 n = [a, b]" by (auto simp: length_Suc_conv eval_nat_numeral)
  with pad_dec_props(1,2) [of 2 n] show ?thesis by (simp add: getnum2_def)
qed

lemma getnum1_pad: "n < 100 \<Longrightarrow> getnum1 (pad_dec 2 n) = Some (n, [])"
proof -
  assume "n < 100"
  then have l: "length (pad_dec 2 n) = 2" by (intro pad_dec_props(4)) simp_all
  then obtain a b where s: "pad_dec 2 n = [a, b]" by (auto simp: length_Suc_conv eval_nat_numeral)
  with pad_dec_props(1,2) [of 2 n] show ?thesis by (simp add: getnum1_def)
qed

lemma year_bounds:
  assumes "year_start y + d = z" and "0 \<le> d" and "d < 366" and "- 200000 \<le> z" and "z \<le> 200000"
  shows "0 \<le> y \<and> y < 10000"
proof (rule ccontr)
  assume n: "\<not> (0 \<le> y \<and> y < 10000)"
  define a b c where "a = (y - 1) div 4" and "b = (y - 1) div 100" and "c = (y - 1) div 400"
  have z: "365 * (y - 1970) + (a - b + c - 477) + d = z" using assms(1) by (simp add: year_start_def a_def b_def c_def)
  from n consider "y < 0" | "10000 \<le> y" by linarith
  then show False
  proof cases
    case 1
    then have "a \<le> b" "c < 0" using zdiv_mono2_neg [of "y - 1" 4 100] by (simp_all add: a_def b_def c_def div_neg_pos_less0)
    moreover have "365 * (y - 1970) \<le> - 719415" using 1 by simp
    ultimately show False using z assms(2-5) by linarith
  next
    case 2
    then have "b \<le> a" "0 \<le> c" using zdiv_mono2 [of "y - 1" 4 100] by (simp_all add: a_def b_def c_def pos_imp_zdiv_nonneg_iff)
    moreover have "2930950 \<le> 365 * (y - 1970)" using 2 by simp
    ultimately show False using z assms(2-5) by linarith
  qed
qed

lemma wrap64_id: "- (2 ^ 63) \<le> v \<Longrightarrow> v < 2 ^ 63 \<Longrightarrow> wrap64 v = v"
  by (simp add: wrap64_def)

lemma parse_hour_text:
  assumes "hourNanos dvd hr" and "- (2 ^ 63) \<le> hr" and "hr < 2 ^ 63"
  shows "parse_hour (hour_text hr) = Some hr"
proof -
  obtain y m d where c: "civil (hr div dayNanos) = (y, m, d)" by (metis prod_cases3)
  note ci = civil_inv [OF c]
  have "year_start y + (month_start y m + d - 1) = hr div dayNanos" using ci by (simp add: days_of_def)
  moreover have "- 200000 \<le> hr div dayNanos" "hr div dayNanos \<le> 200000" using assms(2,3) by (simp_all add: dayNanos_def hourNanos_def)
  moreover have "0 \<le> month_start y m + d - 1" "month_start y m + d - 1 < 366" using ci by simp_all
  ultimately have y: "0 \<le> y" "y < 10000" using year_bounds by blast+
  let ?h = "hr mod dayNanos div hourNanos"
  have hm: "0 \<le> hr mod dayNanos" "hr mod dayNanos < 24 * hourNanos" by (simp_all add: dayNanos_def hourNanos_def)
  have h: "0 \<le> ?h" "?h < 24" using hm by (simp_all add: hourNanos_def)
  have "hourNanos dvd hr mod dayNanos" using assms(1) by (simp add: dayNanos_def dvd_mod)
  then have "?h * hourNanos = hr mod dayNanos" by simp
  then have hr: "hr div dayNanos * dayNanos + ?h * hourNanos = hr" by simp
  have dm: "d \<le> 31" using ci by (auto simp: month_len_def split: if_splits)
  have l4: "length (pad_dec 4 (nat y)) = 4" using y by (intro pad_dec_props(4)) simp_all
  show ?thesis
    using ci y h dm l4 hr wrap64_id [OF assms(2,3)] pad_dec_props(1,2) [of 4 "nat y"] getnum2_pad [of m] getnum2_pad [of "nat d"] getnum1_pad [of "nat ?h"]
    by (simp add: parse_hour_def hour_text_def c Let_def)
qed

lemma str_index_char: "c \<notin> set p \<Longrightarrow> str_index (p @ c # r) [c] = Some (length p)" "c \<notin> set p \<Longrightarrow> str_index p [c] = None"
  by (induction p) simp_all

lemma split_on_first: "c \<notin> set p \<Longrightarrow> split_on [c] (p @ c # r) = p # split_on [c] r"
  by (subst split_on.simps) (simp add: str_index_char)

lemma split_on_nonempty: "split_on sep s \<noteq> []"
  by (subst split_on.simps) (simp split: option.split)

lemma pad_dec_no_slash: "CHR ''/'' \<notin> set (pad_dec w n)"
  using pad_dec_props(1) [of w n] by (auto simp: list_all_iff is_digit_def)

lemma int_str_no_slash: "CHR ''/'' \<notin> set (int_str n)"
  using int_str_chars [of "CHR ''/''" n] by (auto simp: is_digit_def)

text \<open>
  C29. A partition's name leads back to the partition. For every project id and every whole hour in the range of 64-bit timestamps, the path under which a segment is
  written has the suffix that opening looks for, and parses to the project and the hour it was made from, as the structured paths of the model do.
\<close>
theorem partition_roundtrip:
  assumes "- (2 ^ 63) \<le> project" and "project < 2 ^ 63" and "hourNanos dvd hr" and "- (2 ^ 63) \<le> hr" and "hr < 2 ^ 63"
  shows "parsePartition_text (path_text (SegPath project hr mn n)) = parsePartition (SegPath project hr mn n) \<and> suffix ''.parquet'' (path_text (SegPath project hr mn n))"
proof -
  have h: "CHR ''/'' \<notin> set (hour_text hr)" by (simp add: hour_text_def pad_dec_no_slash split: prod.split)
  have p: "CHR ''/'' \<notin> set (''p'' @ int_str project)" by (simp add: int_str_no_slash)
  have "path_text (SegPath project hr mn n) = (''p'' @ int_str project) @ CHR ''/'' # hour_text hr @ CHR ''/'' # segment_name mn n"
    by (simp add: path_text_def partitionDir_def)
  then have "split_on ''/'' (path_text (SegPath project hr mn n)) = (''p'' @ int_str project) # hour_text hr # split_on ''/'' (segment_name mn n)"
    by (simp only: split_on_first [OF p] split_on_first [OF h])
  then have "parsePartition_text (path_text (SegPath project hr mn n)) = Some (project, hr)"
    using parseInt64_int_str [OF assms(1,2)] parse_hour_text [OF assms(3-5)] split_on_nonempty [of "''/''" "segment_name mn n"]
    by (simp add: parsePartition_text_def)
  moreover have "path_text (SegPath project hr mn n) = (partitionDir project hr @ ''/'' @ hex_int 16 mn @ ''-'' @ pad_dec 6 n) @ ''.parquet''"
    by (simp add: path_text_def segment_name_def)
  then have "suffix ''.parquet'' (path_text (SegPath project hr mn n))" by (rule suffixI)
  ultimately show ?thesis by (simp add: parsePartition_def)
qed

theorem partition_roundtrip_witness:
  "parsePartition_text (path_text (SegPath 7 (473352 * hourNanos) 5 1)) = Some (7, 473352 * hourNanos)"
  using partition_roundtrip [of 7 "473352 * hourNanos" 5 1] by (simp add: hourNanos_def parsePartition_def)

end
