(* ===== verification/Cli.thy ===== *)
theory Cli
  imports Node_Props Pipeline_Store Partition
begin

text \<open>
  The remaining commands of \<open>cmd/leser/main.go\<close>: \<open>send-test-event\<close>, \<open>version\<close>, \<open>config show\<close> and the command table. The \<open>flag\<close> package and
  \<open>url.Parse\<close> are parameters; what is printed is the value that is printed. The main result follows the test event from the command line into the
  store: what the command sends is what the endpoint and the pipeline expect.
\<close>

section \<open>The test event\<close>

text \<open>\<open>%032x\<close> of the clock; a sign counts towards the width.\<close>

definition test_event_id :: "int \<Rightarrow> string" where
  "test_event_id now = (if now < 0 then ''-'' @ pad0 31 (hex_nat (nat (- now))) else pad0 32 (hex_nat (nat now)))"

text \<open>\<open>%q\<close> of an id, whose characters need no escaping.\<close>

definition quoted_id :: "string \<Rightarrow> string" where
  "quoted_id s = CHR 0x22 # s @ [CHR 0x22]"

definition test_event :: "string \<Rightarrow> string" where
  \<open>test_event eventID =
     ''{"event_id":'' @ quoted_id eventID @
     '',"level":"error","message":"leser test event","exception":{"values":[{"type":"TestError","value":"pipeline verification"}]}}''\<close>

definition test_body :: "string \<Rightarrow> string" where
  \<open>test_body eventID =
     ''{"event_id":'' @ quoted_id eventID @ ''}'' @ [CHR 0x0A] @
     ''{"type":"event","length":'' @ int_str (int (length (test_event eventID))) @ ''}'' @ [CHR 0x0A] @ test_event eventID @ [CHR 0x0A]\<close>

record dsn_url =
  du_Scheme :: string
  du_Host :: string
  du_User :: "string option"
  du_Path :: string

record test_request =
  tr_URL :: string
  tr_SentryAuth :: string
  tr_ContentType :: string
  tr_Body :: string

definition test_request_for :: "dsn_url \<Rightarrow> string \<Rightarrow> string \<Rightarrow> test_request" where
  "test_request_for u key eventID =
     \<lparr>tr_URL = du_Scheme u @ ''://'' @ du_Host u @ ''/api/'' @ drop 1 (du_Path u) @ ''/envelope/'',
      tr_SentryAuth = ''Sentry sentry_key='' @ key @ '', sentry_version=7'', tr_ContentType = ''application/x-sentry-envelope'', tr_Body = test_body eventID\<rparr>"

text \<open>The exit code and the request that was sent. \<open>send\<close> answers with a status, or not at all.\<close>

definition cmdSendTestEvent ::
  "(string \<Rightarrow> dsn_url option) \<Rightarrow> (string \<Rightarrow> bool) \<Rightarrow> (test_request \<Rightarrow> nat option) \<Rightarrow> int \<Rightarrow> string \<Rightarrow> int \<times> test_request option" where
  "cmdSendTestEvent parse_url new_ok send now dsn =
     (if dsn = [] then (2, None)
      else
        (case parse_url dsn of
           None \<Rightarrow> (2, None)
         | Some u \<Rightarrow>
             (case du_User u of
                None \<Rightarrow> (2, None)
              | Some key \<Rightarrow>
                  if length (du_Path u) < 2 then (2, None)
                  else
                    let req = test_request_for u key (test_event_id now) in
                    if \<not> new_ok (tr_URL req) then (1, None)
                    else (case send req of None \<Rightarrow> (1, Some req) | Some status \<Rightarrow> if status \<noteq> 200 then (1, Some req) else (0, Some req)))))"

section \<open>Version and configuration\<close>

text \<open>The exit code of \<open>emitJSON\<close>: maps of strings and structs of strings always encode.\<close>

definition emitJSON :: "json option \<Rightarrow> int" where
  "emitJSON v = (case v of None \<Rightarrow> 1 | Some _ \<Rightarrow> 0)"

definition cmdVersion :: "(string list \<Rightarrow> bool option) \<Rightarrow> build_info \<Rightarrow> string list \<Rightarrow> int \<times> string" where
  "cmdVersion flags info args =
     (case flags args of
        None \<Rightarrow> (2, [])
      | Some asJSON \<Rightarrow>
          if asJSON then (emitJSON (Some (info_json info)), print_json (info_json info))
          else (0, ''leser '' @ bi_Version info @ '' (commit '' @ bi_Commit info @ '', '' @ bi_GoVersion info @ '')''))"

text \<open>The result lists what is printed, key by key in the order of the source; \<open>config show\<close> takes the path of a file.\<close>

definition cmdConfig :: "(string list \<Rightarrow> (string \<times> bool) option) \<Rightarrow> (string \<Rightarrow> byte list option) \<Rightarrow> (string \<Rightarrow> string option) \<Rightarrow> string list \<Rightarrow> int \<times> (string \<times> string) list" where
  "cmdConfig flags fsys lookup args =
     (case args of
        [] \<Rightarrow> (2, [])
      | sub # rest \<Rightarrow>
          if sub \<noteq> ''show'' then (2, [])
          else
            (case flags rest of
               None \<Rightarrow> (2, [])
             | Some (cfgPath, asJSON) \<Rightarrow>
                 (case config_Load fsys lookup cfgPath of
                    Inl _ \<Rightarrow> (1, [])
                  | Inr cfg \<Rightarrow>
                      let eff = Effective cfg in
                      if asJSON then (emitJSON (Some (JObj (map (\<lambda>(k, v). (k, JStr v)) eff))), eff)
                      else (0, List.map_filter (\<lambda>k. map_option (\<lambda>v. (k, v)) (map_of eff k))
                              [''listen_addr'', ''data_dir'', ''log_level'', ''public_url'', ''secret_key'']))))"

section \<open>The command table\<close>

definition newRouter :: "(string \<Rightarrow> string list \<Rightarrow> 'w) \<Rightarrow> 'w cli_router option" where
  "newRouter runs =
     fold (\<lambda>(name, summary) r. Option.bind r (\<lambda>r. ro_Register r \<lparr>cm_Name = name, cm_Summary = summary, cm_Run = runs name\<rparr>))
       [(''serve'', ''Boot the server (self-migrate, serve API + UI)''), (''config'', ''Inspect configuration (config show --effective)''),
        (''version'', ''Print build metadata''), (''send-test-event'', ''Send a test event through a DSN to verify the pipeline''),
        (''user'', ''Manage users (user create --email --password --role)''), (''token'', ''Manage API tokens (token create --email --name)'')]
       (Some \<lparr>ro_name = ''leser'', ro_cmds = []\<rparr>)"

definition leser_run :: "(string \<Rightarrow> string list \<Rightarrow> 'w) \<Rightarrow> string list \<Rightarrow> 'w dispatched option" where
  "leser_run runs args = map_option (\<lambda>r. ro_Dispatch r args) (newRouter runs)"

lemma leser_run_total: "leser_run runs args \<noteq> None"
  by (simp add: leser_run_def newRouter_def ro_Register_def)

text \<open>The usage text; \<open>%-*s\<close> pads on the right.\<close>

fun str_le :: "string \<Rightarrow> string \<Rightarrow> bool" where
  "str_le [] t = True"
| "str_le (c # s) [] = False"
| "str_le (c # s) (d # t) = ((of_char c :: nat) < of_char d \<or> c = d \<and> str_le s t)"

fun insert_cmd :: "'w cli_command \<Rightarrow> 'w cli_command list \<Rightarrow> 'w cli_command list" where
  "insert_cmd c [] = [c]"
| "insert_cmd c (d # ds) = (if str_le (cm_Name c) (cm_Name d) then c # d # ds else d # insert_cmd c ds)"

definition usage_line :: "nat \<Rightarrow> string \<Rightarrow> string \<Rightarrow> string" where
  "usage_line width name summary = ''  '' @ name @ replicate (width - length name) (CHR '' '') @ ''  '' @ summary @ [CHR 0x0A]"

definition usage_head :: "string \<Rightarrow> string" where
  "usage_head name = name @ '' '' @ [CHR 0xE2, CHR 0x80, CHR 0x94] @ '' open-source error tracking & observability'' @ [CHR 0x0A, CHR 0x0A] @
     ''Usage: '' @ name @ '' <command> [flags]'' @ [CHR 0x0A, CHR 0x0A] @ ''Commands:'' @ [CHR 0x0A]"

definition ro_Usage :: "'w cli_router \<Rightarrow> string" where
  "ro_Usage r =
     (let cmds = foldr insert_cmd (ro_cmds r) [];
          width = foldl (\<lambda>w c. if w < length (cm_Name c) then length (cm_Name c) else w) 0 cmds
      in usage_head (ro_name r) @
         concat (map (\<lambda>c. usage_line width (cm_Name c) (cm_Summary c)) cmds) @ usage_line width ''help'' ''Show this help'')"

lemma set_insert_cmd [simp]: "set (insert_cmd c cs) = insert c (set cs)"
  by (induction c cs rule: insert_cmd.induct) auto

text \<open>Whatever commands are registered, the usage has the line of each of them and of \<open>help\<close>.\<close>

lemma usage_lists_commands:
  assumes "c \<in> set (ro_cmds r)"
  shows "\<exists>w. sublist (usage_line w (cm_Name c) (cm_Summary c)) (ro_Usage r) \<and> sublist (usage_line w ''help'' ''Show this help'') (ro_Usage r)"
proof -
  have "c \<in> set (foldr insert_cmd cs [])" if "c \<in> set cs" for cs using that by (induction cs) auto
  with assms obtain ys zs where cs: "foldr insert_cmd (ro_cmds r) [] = ys @ c # zs" by (meson split_list)
  obtain pre w where u: "ro_Usage r = pre @ concat (map (\<lambda>c. usage_line w (cm_Name c) (cm_Summary c)) (foldr insert_cmd (ro_cmds r) [])) @ usage_line w ''help'' ''Show this help''"
    by (simp add: ro_Usage_def Let_def)
  let ?l = "\<lambda>c. usage_line w (cm_Name c) (cm_Summary c)"
  have "ro_Usage r = (pre @ concat (map ?l ys)) @ ?l c @ (concat (map ?l zs) @ usage_line w ''help'' ''Show this help'')" by (simp add: u cs)
  moreover have "ro_Usage r = (pre @ concat (map ?l (foldr insert_cmd (ro_cmds r) []))) @ usage_line w ''help'' ''Show this help'' @ []" by (simp add: u)
  ultimately show ?thesis unfolding sublist_def by blast
qed

section \<open>What the command sends\<close>

definition id_char :: "char \<Rightarrow> bool" where
  "id_char c \<longleftrightarrow> (let n = (of_char c :: nat) in n = 45 \<or> 48 \<le> n \<and> n \<le> 57 \<or> 97 \<le> n \<and> n \<le> 102)"

lemma hex_digit_plain: "n < 16 \<Longrightarrow> id_char (hex_digit n)"
  by (auto simp: id_char_def hex_digit_def Let_def)

lemma hex_nat_plain: "list_all id_char (hex_nat n)"
proof (induction n rule: hex_nat.induct)
  case (1 n)
  then show ?case by (subst hex_nat.simps) (simp add: hex_digit_plain)
qed

lemma test_event_id_chars: "list_all id_char (test_event_id now)"
proof -
  have "id_char (CHR ''0'')" "id_char (CHR ''-'')" by (simp_all add: id_char_def)
  moreover from this have "list_all id_char (pad0 w (hex_nat n))" for w n using hex_nat_plain [of n] by (auto simp: list_all_iff pad0_def)
  ultimately show ?thesis by (simp add: test_event_id_def)
qed

lemma id_char_plain:
  assumes "id_char c"
  shows "(of_char c :: nat) < 128" and "print_char c = [c]"
  using assms by (auto simp: id_char_def print_char_def Let_def)

lemma print_id: "list_all id_char s \<Longrightarrow> print_str s = quoted_id s"
proof -
  assume "list_all id_char s"
  then have "concat (map print_char s) = s" by (induction s) (simp_all add: id_char_plain(2))
  then show ?thesis by (simp add: print_str_def quoted_id_def)
qed

lemma ascii_id: "list_all id_char s \<Longrightarrow> ascii s"
  by (auto simp: ascii_def list_all_iff dest: id_char_plain(1))

definition test_event_json :: "string \<Rightarrow> json" where
  "test_event_json eid = JObj [(''event_id'', JStr eid), (''level'', JStr ''error''), (''message'', JStr ''leser test event''),
     (''exception'', JObj [(''values'', JArr [JObj [(''type'', JStr ''TestError''), (''value'', JStr ''pipeline verification'')]])])]"

lemma test_event_printed: "list_all id_char eid \<Longrightarrow> test_event eid = print_json (test_event_json eid)"
proof -
  assume p: "list_all id_char eid"
  have q: "print_str ''event_id'' = CHR 0x22 # ''event_id'' @ [CHR 0x22]" "print_str ''level'' = CHR 0x22 # ''level'' @ [CHR 0x22]"
    "print_str ''error'' = CHR 0x22 # ''error'' @ [CHR 0x22]" "print_str ''message'' = CHR 0x22 # ''message'' @ [CHR 0x22]"
    "print_str ''leser test event'' = CHR 0x22 # ''leser test event'' @ [CHR 0x22]" "print_str ''exception'' = CHR 0x22 # ''exception'' @ [CHR 0x22]"
    "print_str ''values'' = CHR 0x22 # ''values'' @ [CHR 0x22]" "print_str ''type'' = CHR 0x22 # ''type'' @ [CHR 0x22]"
    "print_str ''TestError'' = CHR 0x22 # ''TestError'' @ [CHR 0x22]" "print_str ''value'' = CHR 0x22 # ''value'' @ [CHR 0x22]"
    "print_str ''pipeline verification'' = CHR 0x22 # ''pipeline verification'' @ [CHR 0x22]" by (simp_all add: print_str_def print_char_def)
  show ?thesis by (simp add: test_event_def test_event_json_def print_id [OF p] q)
qed

lemma hex_nat_length: "n < 16 ^ Suc k \<Longrightarrow> length (hex_nat n) \<le> Suc k"
proof (induction k arbitrary: n)
  case 0
  then show ?case by (simp add: hex_nat.simps [of n])
next
  case (Suc k)
  have "n div 16 < 16 ^ Suc k" using Suc.prems by (simp add: less_mult_imp_div_less)
  with Suc.IH [OF this] show ?case by (subst hex_nat.simps) simp
qed

lemma test_event_id_length:
  assumes "- (2 ^ 63) \<le> now" and "now < 2 ^ 63"
  shows "length (test_event_id now) = 32"
proof -
  have "length (hex_nat n) \<le> 16" if "n \<le> 2 ^ 63" for n using hex_nat_length [of n 15] that by simp
  moreover have "nat (- now) \<le> 2 ^ 63" "nat now \<le> 2 ^ 63" using assms by (simp_all add: nat_le_iff)
  ultimately have "length (hex_nat (nat (- now))) \<le> 16" "length (hex_nat (nat now)) \<le> 16" by blast+
  then show ?thesis by (simp add: test_event_id_def pad0_def)
qed

lemma length_test_event: "length (test_event eid) = length eid + 138"
  by (simp add: test_event_def quoted_id_def)

section \<open>What the server makes of it\<close>

lemma headed_parses:
  assumes "unmarshal dec_EnvelopeHeader hline no_header = (hdr, True)" and "CHR 0x0A \<notin> set hline" and "list_all (renderable (lim_defaults lm)) its"
    and "int (length its) \<le> MaxItems (lim_defaults lm)" and "int (length (str_line hline @ concat (map render_item its))) \<le> MaxEnvelopeBytes (lim_defaults lm)"
  shows "Parse (str_line hline @ concat (map render_item its)) lm = Inr \<lparr>env_Header = hdr, env_Items = its\<rparr>"
proof -
  let ?l = "lim_defaults lm" and ?its = "concat (map render_item its)"
  have "int (length hline) < MaxEnvelopeBytes ?l" using assms(5) by (simp add: str_line_def)
  from str_line_line [OF assms(2) this] have "ref_line (MaxEnvelopeBytes ?l) (str_line hline @ ?its) = (str_bytes hline, None, ?its)" .
  moreover have "ref_items ?l hdr [] ?its = Inr \<lparr>env_Header = hdr, env_Items = [] @ its\<rparr>"
    using assms(3-5) by (intro ref_items_rendered) (auto simp: lim_defaults_def Let_def)
  ultimately show ?thesis using Parse_sim [OF assms(5)] assms(1) by (simp add: ref_Parse_def Let_def)
qed

definition test_item :: "string \<Rightarrow> Item" where
  "test_item eid = \<lparr>it_Header = \<lparr>ih_Type = ''event'', ih_Length = Some (int (length (test_event eid)))\<rparr>, it_Payload = str_bytes (test_event eid)\<rparr>"

lemma test_body_rendered:
  assumes "list_all id_char eid"
  shows "str_bytes (test_body eid) = str_line (print_json (JObj [(''event_id'', JStr eid)])) @ concat (map render_item [test_item eid])"
proof -
  have q: "print_str ''event_id'' = CHR 0x22 # ''event_id'' @ [CHR 0x22]" "print_str ''type'' = CHR 0x22 # ''type'' @ [CHR 0x22]"
    "print_str ''event'' = CHR 0x22 # ''event'' @ [CHR 0x22]" "print_str ''length'' = CHR 0x22 # ''length'' @ [CHR 0x22]" by (simp_all add: print_str_def print_char_def)
  have h: "print_json (JObj [(''event_id'', JStr eid)]) = CHR ''{'' # (CHR 0x22 # ''event_id'' @ [CHR 0x22]) @ CHR '':'' # quoted_id eid @ ''}''"
    by (simp add: print_id [OF assms] q)
  have i: "print_json (item_json (it_Header (test_item eid))) = CHR ''{'' # (CHR 0x22 # ''type'' @ [CHR 0x22]) @ CHR '':'' # (CHR 0x22 # ''event'' @ [CHR 0x22]) @ CHR '','' #
      (CHR 0x22 # ''length'' @ [CHR 0x22]) @ CHR '':'' # int_str (int (length (test_event eid))) @ ''}''"
    by (simp add: item_json_def test_item_def q)
  have b: "test_body eid = print_json (JObj [(''event_id'', JStr eid)]) @ [CHR 0x0A] @ print_json (item_json (it_Header (test_item eid))) @ [CHR 0x0A] @ test_event eid @ [CHR 0x0A]"
    unfolding h i by (simp add: test_body_def)
  show ?thesis unfolding b by (simp add: str_bytes_def newline_def str_line_def render_item_def test_item_def del: print_json.simps)
qed

lemma test_event_extracted:
  assumes "list_all id_char eid"
  shows "\<exists>ev. ExtractEvent lib (str_bytes (test_event eid)) now = Some ev \<and> ex_EventID ev = lib_ToLower lib (filter (\<lambda>c. c \<noteq> CHR ''-'') eid) \<and>
    ex_Timestamp ev = now \<and> ex_Level ev = ''error'' \<and> ex_Message ev = ''TestError: pipeline verification''"
proof -
  let ?exc = "JObj [(''values'', JArr [JObj [(''type'', JStr ''TestError''), (''value'', JStr ''pipeline verification'')]])]"
  let ?se = "zero_event\<lparr>se_EventID := eid, se_Level := ''error'', se_Message := ''leser test event'', se_Exception := Some ?exc\<rparr>"
  have "printable maxNestingDepth (test_event_json eid)" using ascii_id [OF assms] by (simp add: test_event_json_def maxNestingDepth_def ascii_def)
  from json_parse_print [OF this] have "unmarshal dec_event (test_event eid) zero_event = dec_event (test_event_json eid) zero_event"
    by (simp add: unmarshal_def test_event_printed [OF assms])
  also have "\<dots> = (?se, True)"
    by (simp add: test_event_json_def dec_event_def dec_struct_def at_field_def dec_string_def dec_raw_def to_upper_char_def zero_event_def)
  finally have u: "unmarshal dec_event (test_event eid) zero_event = (?se, True)" .
  have x: "parseExceptions (Some ?exc) = [zero_exc\<lparr>sx_Type := ''TestError'', sx_Value := ''pipeline verification''\<rparr>]"
    by (simp add: parseExceptions_def dec_struct_def dec_slice_def dec_exc_def at_field_def dec_string_def to_upper_char_def elems_def zero_exc_def)
  have z: "se_Timestamp zero_event = None" by (simp add: zero_event_def)
  show ?thesis by (simp add: ExtractEvent_def u Let_def x z parseSentryTime_def joinNonEmpty_def)
qed

definition default_limits :: Limits where
  "default_limits = \<lparr>MaxEnvelopeBytes = 0, MaxItems = 0, MaxItemBytes = 0\<rparr>"

lemma test_body_parses:
  assumes "list_all id_char eid" and "length eid = 32"
  shows "Parse (str_bytes (test_body eid)) default_limits = Inr \<lparr>env_Header = no_header\<lparr>eh_EventID := eid\<rparr>, env_Items = [test_item eid]\<rparr>"
  unfolding test_body_rendered [OF assms(1)]
proof (rule headed_parses)
  let ?h = "print_json (JObj [(''event_id'', JStr eid)])"
  have "printable maxNestingDepth (JObj [(''event_id'', JStr eid)])" using ascii_id [OF assms(1)] by (simp add: maxNestingDepth_def ascii_def)
  from json_parse_print [OF this] show "unmarshal dec_EnvelopeHeader ?h no_header = (no_header\<lparr>eh_EventID := eid\<rparr>, True)"
    by (simp add: unmarshal_def dec_EnvelopeHeader_def dec_struct_def at_field_def dec_string_def to_upper_char_def no_header_def del: print_json.simps)
  show "CHR 0x0A \<notin> set ?h" using print_str_no_newline by auto
  have n: "length (test_event eid) = 170" by (simp add: length_test_event assms(2))
  then show "list_all (renderable (lim_defaults default_limits)) [test_item eid]"
    by (simp add: renderable_def item_ok_def test_item_def default_limits_def lim_defaults_def acceptedTypes_def Let_def)
  show "int (length [test_item eid]) \<le> MaxItems (lim_defaults default_limits)" by (simp add: default_limits_def lim_defaults_def Let_def)
  have "length (test_body eid) \<le> 1000" using n assms(2) by (simp add: test_body_def quoted_id_def int_str_def dec_str.simps)
  then show "int (length (str_line ?h @ concat (map render_item [test_item eid]))) \<le> MaxEnvelopeBytes (lim_defaults default_limits)"
    unfolding test_body_rendered [OF assms(1), symmetric] by (simp add: default_limits_def lim_defaults_def Let_def)
qed

text \<open>Nothing to trim where all characters are visible ASCII ones.\<close>

definition visible :: "char \<Rightarrow> bool" where
  "visible c \<longleftrightarrow> 32 < (of_char c :: nat) \<and> (of_char c :: nat) < 127"

lemma visible_no_space:
  assumes "visible c"
  shows "space_len (str_bytes (c # s)) = 0"
proof -
  obtain b where c: "(of_char c :: byte) = b" and "unat b = of_char c" by (cases c) (simp add: of_char_def)
  then have u: "32 < unat b" "unat b < 127" using assms by (simp_all add: visible_def)
  then have n: "b \<noteq> 32" "b \<noteq> 0xC2" "b \<noteq> 0xE1" "b \<noteq> 0xE2" "b \<noteq> 0xE3" by auto
  have "\<not> b \<le> 13" using u(1) by (simp add: word_le_nat_alt)
  with n have "\<not> ascii_space b" by (simp add: ascii_space_def)
  with n show ?thesis by (simp add: str_bytes_def c split: list.splits)
qed

lemma trim_visible:
  assumes "list_all visible s"
  shows "trim_space s = s"
proof (cases "s = []")
  case True
  then show ?thesis by (simp add: trim_space_def trim_left.simps trim_right.simps [of "[]"] space_end_def)
next
  case False
  have tail: "t = [] \<or> space_len (str_bytes t) = 0" if "set t \<subseteq> set s" for t
    using that assms visible_no_space by (cases t) (auto simp: list_all_iff)
  have l: "trim_left s = s" using tail [of s] by (simp add: trim_left.simps)
  have "space_len (str_bytes [last s]) = 0" using tail [of "[last s]"] False by simp
  moreover have "space_len (str_bytes (drop n s)) = 0" if "n < length s" for n using tail [of "drop n s"] that set_drop_subset [of n s] by auto
  ultimately have "space_end s = 0" using False by (simp add: space_end_def)
  then show ?thesis by (simp add: trim_space_def l trim_right.simps [of s])
qed

lemma id_char_visible: "id_char c \<Longrightarrow> visible c \<and> c \<noteq> CHR '',''"
  by (auto simp: id_char_def visible_def Let_def)

lemma test_auth_key:
  assumes "list_all id_char key"
  shows "auth_parts (split_on '','' (trim_prefix ''Sentry '' (''Sentry sentry_key='' @ key @ '', sentry_version=7''))) = Some key"
proof -
  have v: "list_all visible key" "CHR '','' \<notin> set key" using assms id_char_visible by (auto simp: list_all_iff)
  have "split_on '','' ((''sentry_key='' @ key) @ CHR '','' # '' sentry_version=7'') = (''sentry_key='' @ key) # split_on '','' '' sentry_version=7''"
    by (rule split_on_char(1)) (use v(2) in simp)
  moreover have "trim_space (''sentry_key='' @ key) = ''sentry_key='' @ key" by (rule trim_visible) (use v(1) in \<open>simp add: visible_def\<close>)
  ultimately show ?thesis using trim_visible [OF v(1)] by (simp add: trim_prefix_def split_eq_def)
qed

text \<open>
  C17. A test event arrives as one. Whatever request the command sends, it goes to the project of the DSN with the key of the DSN; and the record that the
  endpoint submits for its body, under the limits the server uses, is processed to exactly one event and no malformed item: the event
  has the id of the command, level error and the message of the test error.
\<close>
theorem test_event_understood:
  assumes "cmdSendTestEvent parse_url new_ok send now dsn = (code, Some req)" and "parse_url dsn = Some u" and "du_User u = Some key"
    and "list_all id_char key" and "- (2 ^ 63) \<le> now" and "now < 2 ^ 63" and "rq_SentryAuth r = tr_SentryAuth req"
  shows "sentryAuthKey r = key \<and> tr_URL req = du_Scheme u @ ''://'' @ du_Host u @ ''/api/'' @ drop 1 (du_Path u) @ ''/envelope/'' \<and>
    (\<exists>ev. pending_events lib default_limits clk (submit_record recEnvelope pid (str_bytes (tr_Body req))) = ([(ev, str_bytes (test_event (test_event_id now)))], 0) \<and>
       (lib_ToLower lib (filter (\<lambda>c. c \<noteq> CHR ''-'') (test_event_id now)) \<noteq> [] \<longrightarrow>
          ex_EventID ev = lib_ToLower lib (filter (\<lambda>c. c \<noteq> CHR ''-'') (test_event_id now))) \<and>
       ex_Level ev = ''error'' \<and> ex_Message ev = ''TestError: pipeline verification'')"
proof -
  let ?e = "test_event_id now"
  have req: "req = test_request_for u key ?e" using assms(1-3) by (auto simp: cmdSendTestEvent_def Let_def split: if_splits option.splits)
  note e = test_event_id_chars [of now] test_event_id_length [OF assms(5,6)]
  have key: "sentryAuthKey r = key" using assms(7) test_auth_key [OF assms(4)] by (simp add: sentryAuthKey_def req test_request_for_def)
  obtain ev where ev: "ExtractEvent lib (str_bytes (test_event ?e)) (clk 0) = Some ev" "ex_EventID ev = lib_ToLower lib (filter (\<lambda>c. c \<noteq> CHR ''-'') ?e)"
    "ex_Level ev = ''error''" "ex_Message ev = ''TestError: pipeline verification''" using test_event_extracted [OF e(1), of lib "clk 0"] by blast
  have "pending_events lib default_limits clk (submit_record recEnvelope pid (str_bytes (test_body ?e))) =
      item_events lib ?e clk 0 [test_item ?e]"
    unfolding pending_events_def Let_def submit_record_parts by (simp add: test_body_parses [OF e])
  then show ?thesis using key ev by (simp add: req test_request_for_def test_item_def Let_def)
qed

definition sample_dsn :: dsn_url where
  "sample_dsn = \<lparr>du_Scheme = ''http'', du_Host = ''h'', du_User = Some ''ab'', du_Path = ''/7''\<rparr>"

theorem test_event_understood_witness:
  "\<exists>req. cmdSendTestEvent (\<lambda>_. Some sample_dsn) (\<lambda>_. True) (\<lambda>_. Some 200) 5 ''x'' = (0, Some req) \<and> sentryAuthKey (sample_req\<lparr>rq_SentryAuth := tr_SentryAuth req\<rparr>) = ''ab'' \<and>
     tr_URL req = ''http://h/api/7/envelope/''"
proof -
  let ?req = "test_request_for sample_dsn ''ab'' (test_event_id 5)"
  have c: "cmdSendTestEvent (\<lambda>_. Some sample_dsn) (\<lambda>_. True) (\<lambda>_. Some 200) 5 ''x'' = (0, Some ?req)" by (simp add: cmdSendTestEvent_def sample_dsn_def Let_def)
  have k: "list_all id_char ''ab''" by (simp add: id_char_def)
  from test_event_understood [OF c _ _ k, of sample_dsn "sample_req\<lparr>rq_SentryAuth := tr_SentryAuth ?req\<rparr>"] c
  show ?thesis by (simp add: sample_dsn_def)
qed

end
