(* ===== verification/Gossip.thy ===== *)
theory Gossip
  imports Api_Props Cluster
begin

text \<open>
  The rest of \<open>internal/cluster/membership.go\<close>: what a node announces, joining, the refresh loop beside concurrent lookups, and leaving. The
  gossip library is a parameter: whether it starts, whether the configured peers answered, and the metadata of its members at each tick.
  The second part states the interface \<open>api.Locator\<close> as a locale, proves what the API's dispatcher makes of it, and interprets it on the membership.
\<close>

section \<open>Announcements\<close>

text \<open>
  \<open>json.Marshal\<close> of a string, on ASCII text: besides quotes, backslashes and control characters it escapes the three characters
  that are special in HTML.
\<close>

definition html_special :: "char \<Rightarrow> bool" where
  "html_special c \<longleftrightarrow> c = CHR ''<'' \<or> c = CHR ''>'' \<or> c = CHR ''&''"

definition marshal_char :: "char \<Rightarrow> string" where
  "marshal_char c =
     (if html_special c then [CHR 0x5C, CHR ''u'', CHR ''0'', CHR ''0'', hex_digit (of_char c div 16), hex_digit (of_char c mod 16)] else print_char c)"

definition marshal_str :: "string \<Rightarrow> string" where
  "marshal_str s = CHR 0x22 # concat (map marshal_char s) @ [CHR 0x22]"

definition node_json :: "NodeInfo \<Rightarrow> string" where
  \<open>node_json i = ''{"node_id":'' @ marshal_str (NodeID i) @ '',"api_addr":'' @ marshal_str (APIAddr i) @ ''}''\<close>

definition dec_NodeInfo :: "NodeInfo dec" where
  "dec_NodeInfo = dec_struct [(''node_id'', at_field NodeID NodeID_update dec_string), (''api_addr'', at_field APIAddr APIAddr_update dec_string)]"

text \<open>The metadata of one member as \<open>refreshRing\<close> decodes it.\<close>

definition member_info :: "byte list \<Rightarrow> NodeInfo option" where
  "member_info mt = (case unmarshal dec_NodeInfo (bytes_str mt) \<lparr>NodeID = [], APIAddr = []\<rparr> of (info, ok) \<Rightarrow> if ok then Some info else None)"

definition NodeMeta :: "byte list \<Rightarrow> nat \<Rightarrow> byte list" where
  "NodeMeta mt n = (if n < length mt then take n mt else mt)"

section \<open>Joining, refreshing, leaving\<close>

record ClusterConfig =
  gc_Self :: NodeInfo
  gc_BindAddr :: string
  gc_BindPort :: int
  gc_Join :: "string list"
  gc_RingRefresh :: int

text \<open>
  A membership beside its refresh loop. \<open>gs_next\<close> is the metadata of a refresh that has already replaced the ring and not yet the map: the two are
  replaced one after the other, and lookups run in between.
\<close>

record gossip =
  gs_m :: Membership
  gs_next :: "(string \<times> NodeInfo) list option"
  gs_joinErr :: bool
  gs_interval :: int
  gs_quit :: bool

definition ring_refresh :: "int \<Rightarrow> int" where
  "ring_refresh d = (if d \<le> 0 then 500 * 1000000 else d)"

text \<open>\<open>None\<close>: the library did not start. \<open>peers_failed\<close> is what joining the configured peers reports; it is kept and is not fatal.\<close>

definition gossip_Join :: "(ringEntry list \<Rightarrow> ringEntry list) \<Rightarrow> bool \<Rightarrow> bool \<Rightarrow> byte list list \<Rightarrow> ClusterConfig \<Rightarrow> gossip option" where
  "gossip_Join sort_slice started peers_failed members cfg =
     (if \<not> started then None
      else Some \<lparr>gs_m = refreshRing sort_slice \<lparr>ring = NewRing, self = gc_Self cfg, meta = []\<rparr> (map member_info members), gs_next = None,
                 gs_joinErr = (gc_Join cfg \<noteq> [] \<and> peers_failed), gs_interval = ring_refresh (gc_RingRefresh cfg), gs_quit = False\<rparr>)"

datatype gossip_step = Tick "byte list list" | Publish | Quit

fun gossip_do :: "(ringEntry list \<Rightarrow> ringEntry list) \<Rightarrow> gossip \<Rightarrow> gossip_step \<Rightarrow> gossip" where
  "gossip_do sort_slice g (Tick members) =
     (if gs_quit g \<or> gs_next g \<noteq> None then g
      else case collect_members (map member_info members) [] [] of
        (ids, mt) \<Rightarrow> g\<lparr>gs_m := (gs_m g)\<lparr>ring := SetNodes sort_slice ids\<rparr>, gs_next := Some mt\<rparr>)"
| "gossip_do sort_slice g Publish = (case gs_next g of None \<Rightarrow> g | Some mt \<Rightarrow> g\<lparr>gs_m := (gs_m g)\<lparr>meta := mt\<rparr>, gs_next := None\<rparr>)"
| "gossip_do sort_slice g Quit = g\<lparr>gs_quit := True\<rparr>"

definition gossip_Members :: "gossip \<Rightarrow> NodeInfo set" where
  "gossip_Members g = ran (map_of (meta (gs_m g)))"

definition gossip_Self :: "gossip \<Rightarrow> NodeInfo" where
  "gossip_Self g = self (gs_m g)"

definition JoinWarning :: "gossip \<Rightarrow> bool" where
  "JoinWarning g = gs_joinErr g"

text \<open>Leaving stops the loop, then announces the departure and shuts down; the result is whether an error is reported, and whether it came to the shutdown.\<close>

definition gossip_Leave :: "bool \<Rightarrow> bool \<Rightarrow> gossip \<Rightarrow> gossip \<times> bool \<times> bool" where
  "gossip_Leave leave_ok shutdown_ok g = (let g1 = g\<lparr>gs_quit := True\<rparr> in if \<not> leave_ok then (g1, True, False) else (g1, \<not> shutdown_ok, True))"

text \<open>A lookup reads the ring first and the map of the announcements later.\<close>

definition owner_node :: "gossip \<Rightarrow> int \<Rightarrow> string option" where
  "owner_node g pid =
     (case OwnerFor (ring (gs_m g)) (project_key pid) of None \<Rightarrow> None | Some nodeID \<Rightarrow> if nodeID = NodeID (self (gs_m g)) then None else Some nodeID)"

definition owner_addr :: "gossip \<Rightarrow> string option \<Rightarrow> string \<times> bool" where
  "owner_addr g nd =
     (case nd of None \<Rightarrow> ([], False)
      | Some nodeID \<Rightarrow> (case map_of (meta (gs_m g)) nodeID of None \<Rightarrow> ([], False) | Some info \<Rightarrow> (APIAddr info, True)))"

lemma OwnerAddr_split: "OwnerAddr (gs_m g) pid = owner_addr g (owner_node g pid)"
  by (simp add: OwnerAddr_def owner_node_def owner_addr_def split: option.splits)

section \<open>What is announced is understood\<close>

lemma marshal_print: "list_all (\<lambda>c. \<not> html_special c) s \<Longrightarrow> marshal_str s = print_str s"
proof -
  assume "list_all (\<lambda>c. \<not> html_special c) s"
  then have "map marshal_char s = map print_char s" by (induction s) (simp_all add: marshal_char_def)
  then show ?thesis by (simp only: marshal_str_def print_str_def)
qed

definition announceable :: "NodeInfo \<Rightarrow> bool" where
  "announceable i \<longleftrightarrow> NodeID i \<noteq> [] \<and> ascii (NodeID i) \<and> ascii (APIAddr i) \<and> list_all (\<lambda>c. \<not> html_special c) (NodeID i @ APIAddr i)"

lemma member_info_announced:
  assumes "announceable i" and "length (node_json i) \<le> n"
  shows "member_info (NodeMeta (str_bytes (node_json i)) n) = Some i"
proof -
  let ?j = "JObj [(''node_id'', JStr (NodeID i)), (''api_addr'', JStr (APIAddr i))]"
  have q: "print_str ''node_id'' = CHR 0x22 # ''node_id'' @ [CHR 0x22]" "print_str ''api_addr'' = CHR 0x22 # ''api_addr'' @ [CHR 0x22]"
    by (simp_all add: print_str_def print_char_def)
  have j: "node_json i = print_json ?j" using assms(1) by (simp add: node_json_def announceable_def marshal_print q)
  have "printable maxNestingDepth ?j" using assms(1) by (simp add: announceable_def maxNestingDepth_def ascii_def)
  from json_parse_print [OF this] have "unmarshal dec_NodeInfo (node_json i) \<lparr>NodeID = [], APIAddr = []\<rparr> = (i, True)"
    unfolding j by (simp add: unmarshal_def dec_NodeInfo_def dec_struct_def at_field_def dec_string_def to_upper_char_def del: print_json.simps)
  moreover have "NodeMeta (str_bytes (node_json i)) n = str_bytes (node_json i)" using assms(2) by (simp add: NodeMeta_def str_bytes_def)
  ultimately show ?thesis by (simp add: member_info_def)
qed

section \<open>Lookups beside the refresh loop\<close>

text \<open>Every announcement in the map, and in the map that is about to replace it, came from a member the library has shown.\<close>

definition shown_in :: "byte list list list \<Rightarrow> (string \<times> NodeInfo) list \<Rightarrow> bool" where
  "shown_in views mt \<longleftrightarrow> (\<forall>(n, i) \<in> set mt. n = NodeID i \<and> (\<exists>ms \<in> set views. \<exists>b \<in> set ms. member_info b = Some i))"

definition gossip_inv :: "NodeInfo \<Rightarrow> byte list list list \<Rightarrow> gossip \<Rightarrow> bool" where
  "gossip_inv me views g \<longleftrightarrow> self (gs_m g) = me \<and> shown_in views (meta (gs_m g)) \<and> (\<forall>mt. gs_next g = Some mt \<longrightarrow> shown_in views mt)"

fun views_of :: "gossip_step list \<Rightarrow> byte list list list" where
  "views_of [] = []"
| "views_of (Tick ms # xs) = ms # views_of xs"
| "views_of (_ # xs) = views_of xs"

lemma shown_in_mono: "shown_in V mt \<Longrightarrow> set V \<subseteq> set W \<Longrightarrow> shown_in W mt"
  unfolding shown_in_def by blast

lemma shown_in_collect:
  assumes "collect_members (map member_info ms) [] [] = (ids, mt)" and "ms \<in> set V"
  shows "shown_in V mt"
  using collect_members_meta [OF assms(1)] assms(2) by (fastforce simp: shown_in_def)

lemma gossip_do_inv:
  assumes "gossip_inv me V g"
  shows "gossip_inv me (V @ views_of [x]) (gossip_do srt g x)"
proof (cases x)
  case (Tick ms)
  obtain ids mt where c: "collect_members (map member_info ms) [] [] = (ids, mt)" by fastforce
  have "shown_in (V @ [ms]) mt" by (rule shown_in_collect [OF c]) simp
  then show ?thesis using assms Tick c shown_in_mono [of V _ "V @ [ms]"] by (auto simp: gossip_inv_def)
next
  case Publish
  then show ?thesis using assms by (auto simp: gossip_inv_def split: option.splits)
qed (use assms in \<open>simp add: gossip_inv_def\<close>)

lemma gossip_run_inv: "gossip_inv me V g \<Longrightarrow> gossip_inv me (V @ views_of xs) (foldl (gossip_do srt) g xs)"
proof (induction xs arbitrary: g V)
  case (Cons x xs)
  have "views_of (x # xs) = views_of [x] @ views_of xs" by (cases x) simp_all
  with Cons.IH [OF gossip_do_inv [OF Cons.prems, of x srt]] show ?case by simp
qed simp

lemma gossip_Join_inv: "gossip_Join srt st pf ms cfg = Some g \<Longrightarrow> gossip_inv (gc_Self cfg) [ms] g"
proof -
  assume j: "gossip_Join srt st pf ms cfg = Some g"
  obtain ids mt where c: "collect_members (map member_info ms) [] [] = (ids, mt)" by fastforce
  have "shown_in [ms] mt" by (rule shown_in_collect [OF c]) simp
  with j c show ?thesis by (auto simp: gossip_Join_def gossip_inv_def refreshRing_def split: if_splits)
qed

text \<open>
  Requests go to announced nodes only. In every interleaving of the refresh loop with a lookup, which reads the ring at one moment and the
  announcements at a later one, an address that is returned was announced by a member other than the node itself, and it is that member's own
  address; the member was in a list that the gossip library had shown by then. So a node never proxies to itself, however stale its view is.
\<close>
theorem proxies_to_announced:
  assumes "gossip_Join srt started failed ms cfg = Some g0" and "g1 = foldl (gossip_do srt) g0 xs" and "g2 = foldl (gossip_do srt) g1 ys"
    and "owner_addr g2 (owner_node g1 pid) = (addr, True)"
  shows "\<exists>view b i. view \<in> set (ms # views_of (xs @ ys)) \<and> b \<in> set view \<and> member_info b = Some i \<and> NodeID i \<noteq> NodeID (gc_Self cfg) \<and> owner_node g1 pid = Some (NodeID i) \<and> addr = APIAddr i"
proof -
  have i1: "gossip_inv (gc_Self cfg) ([ms] @ views_of xs) g1" unfolding assms(2) by (rule gossip_run_inv [OF gossip_Join_inv [OF assms(1)]])
  have i2: "gossip_inv (gc_Self cfg) (([ms] @ views_of xs) @ views_of ys) g2" unfolding assms(3) by (rule gossip_run_inv [OF i1])
  have v: "views_of (xs @ ys) = views_of xs @ views_of ys" by (induction xs rule: views_of.induct) simp_all
  obtain n info where n: "owner_node g1 pid = Some n" "map_of (meta (gs_m g2)) n = Some info" "addr = APIAddr info"
    using assms(4) by (auto simp: owner_addr_def split: option.splits)
  have "n \<noteq> NodeID (gc_Self cfg)" using n(1) i1 by (auto simp: owner_node_def gossip_inv_def split: option.splits if_splits)
  moreover have "(n, info) \<in> set (meta (gs_m g2))" using n(2) by (rule map_of_SomeD)
  then have "n = NodeID info" "\<exists>view \<in> set (ms # views_of (xs @ ys)). \<exists>b \<in> set view. member_info b = Some info"
    using i2 v by (auto simp: gossip_inv_def shown_in_def)
  ultimately show ?thesis using n by blast
qed

definition gossip_cfg :: ClusterConfig where
  "gossip_cfg = \<lparr>gc_Self = \<lparr>NodeID = ''a'', APIAddr = ''http://a''\<rparr>, gc_BindAddr = ''0.0.0.0'', gc_BindPort = 7946, gc_Join = [], gc_RingRefresh = 0\<rparr>"

definition other_node :: NodeInfo where
  "other_node = \<lparr>NodeID = ''b'', APIAddr = ''http://b''\<rparr>"

definition other_meta :: "byte list" where
  "other_meta = NodeMeta (str_bytes (node_json other_node)) 512"

lemma other_meta_info: "member_info other_meta = Some other_node"
  unfolding other_meta_def
  by (rule member_info_announced) (simp_all add: announceable_def other_node_def ascii_def html_special_def node_json_def marshal_str_def marshal_char_def print_char_def)

theorem proxies_to_announced_witness:
  "\<exists>g0. gossip_Join (sort_key re_hash) True False [other_meta] gossip_cfg = Some g0 \<and> owner_addr g0 (owner_node g0 7) = (''http://b'', True) \<and>
     (\<exists>b. b \<in> set [other_meta] \<and> member_info b = Some other_node)"
proof -
  obtain g0 where g: "gossip_Join (sort_key re_hash) True False [other_meta] gossip_cfg = Some g0" by (simp add: gossip_Join_def)
  have c: "collect_members [member_info other_meta] [] [] = ([''b''], [(''b'', other_node)])" by (simp add: other_meta_info other_node_def)
  obtain n where n: "OwnerFor (SetNodes (sort_key re_hash) [''b'']) (project_key 7) = Some n" "n \<in> set [''b'']"
    by (rule OwnerFor_SetNodes [OF sorts_sort_key, of "[''b'']"]) auto
  have a: "owner_addr g0 (owner_node g0 7) = (''http://b'', True)"
    using g n by (auto simp: gossip_Join_def refreshRing_def c owner_addr_def owner_node_def gossip_cfg_def other_node_def)
  from proxies_to_announced [OF g, of g0 "[]" g0 "[]" 7 "''http://b''"] a g show ?thesis by (auto simp: other_meta_info)
qed

section \<open>The locator\<close>

text \<open>
  What the API relies on when it asks who owns a project: when two nodes agree on the members, a node to which the one sends a request keeps it.
\<close>

lemma authenticate_arrives: "authenticate en db (arrive peer (forward addr r)) = authenticate en db r"
  by (simp add: authenticate_def bearer_def arrive_def forward_def)

locale locator =
  fixes locate :: "'m \<Rightarrow> int \<Rightarrow> string \<times> bool"
    and addr_of :: "'m \<Rightarrow> string"
    and agree :: "'m \<Rightarrow> 'm \<Rightarrow> bool"
  assumes target_keeps: "agree m m' \<Longrightarrow> locate m pid = (addr, True) \<Longrightarrow> addr_of m' = addr \<Longrightarrow> snd (locate m' pid) = False"
begin

lemma proxied_then_served:
  assumes "agree m m'" and "dispatch (a\<lparr>api_Locator := Some (locate m)\<rparr>) en rt r db = Proxied addr q" and "addr_of m' = addr"
  shows "q = forward addr r \<and> (\<exists>d resp. dispatch (b\<lparr>api_Locator := Some (locate m')\<rparr>) en' rt (arrive peer q) db = Served d resp) \<and>
    (authenticate en' db r = authenticate en db r \<longrightarrow>
       dispatch (b\<lparr>api_Locator := Some (locate m')\<rparr>) en' rt (arrive peer q) db =
       serve_local (b\<lparr>api_Locator := Some (locate m')\<rparr>) en' rt (authenticate en db r) (arrive peer q) db)"
proof -
  have sl: "serve_local a en rt c r db \<noteq> Proxied x y" "\<exists>d resp. serve_local a en rt c r db = Served d resp" for a c x y en r
    by (simp_all add: serve_local_def split: prod.splits)
  from assms(2) sl(1) obtain actx where p: "\<not> rt_Public rt" "authenticate en db r = Some actx" by (auto simp: dispatch_def split: if_splits option.splits)
  with assms(2) sl(1) have c: "\<not> (case rt_Perm rt of None \<Rightarrow> True | Some q \<Rightarrow> \<not> Can (Some actx) q)" "rt_Project rt" by (auto simp: dispatch_def split: if_splits)
  with p assms(2) sl(1) obtain pid where q: "parseInt64 (aq_project r) = Some pid" "CanProject (Some actx) (the (rt_Perm rt)) pid"
    by (auto simp: dispatch_def split: if_splits option.splits)
  with p c assms(2) sl(1) have l: "locate m pid = (addr, True)" "q = forward addr r"
    by (cases "locate m pid"; cases "snd (locate m pid)"; auto simp: dispatch_def api_proxy_def split: if_splits)+
  from target_keeps [OF assms(1) l(1) assms(3)] obtain x where k: "locate m' pid = (x, False)" by (metis prod.collapse)
  have f: "aq_project (arrive peer q) = aq_project r" by (simp add: l(2) arrive_def forward_def)
  have "\<exists>d resp. dispatch (b\<lparr>api_Locator := Some (locate m')\<rparr>) en' rt (arrive peer q) db = Served d resp"
    using p(1) c(2) q(1) k sl(2) by (auto simp: dispatch_def f split: option.splits)
  moreover have "authenticate en' db (arrive peer q) = authenticate en' db r" by (simp add: l(2) authenticate_arrives)
  then have "dispatch (b\<lparr>api_Locator := Some (locate m')\<rparr>) en' rt (arrive peer q) db =
      serve_local (b\<lparr>api_Locator := Some (locate m')\<rparr>) en' rt (authenticate en db r) (arrive peer q) db"
    if "authenticate en' db r = authenticate en db r" using that p c q k by (simp add: dispatch_def f)
  ultimately show ?thesis using l(2) by blast
qed

end

text \<open>
  Two nodes agree when their rings were refreshed from the same members, in which the second one announces itself, no two nodes share a position on the
  ring, and no two share an address.
\<close>

definition nodes_agree :: "Membership \<Rightarrow> Membership \<Rightarrow> bool" where
  "nodes_agree m m' \<longleftrightarrow> (\<exists>f g m0 m0' members. sorts f \<and> sorts g \<and> m = refreshRing f m0 members \<and> m' = refreshRing g m0' members \<and>
     no_collision (set (fst (collect_members members [] []))) \<and> Some (self m') \<in> set members \<and>
     (\<forall>i j. Some i \<in> set members \<and> Some j \<in> set members \<and> APIAddr i = APIAddr j \<longrightarrow> NodeID i = NodeID j))"

interpretation ring_locator: locator OwnerAddr "\<lambda>m. APIAddr (self m)" nodes_agree
proof unfold_locales
  fix m m' pid addr
  assume "nodes_agree m m'" and o: "OwnerAddr m pid = (addr, True)" and a: "APIAddr (self m') = addr"
  then obtain f g m0 m0' members where h: "sorts f" "sorts g" "m = refreshRing f m0 members" "m' = refreshRing g m0' members"
    "no_collision (set (fst (collect_members members [] [])))" "Some (self m') \<in> set members"
    and u: "\<And>i j. Some i \<in> set members \<Longrightarrow> Some j \<in> set members \<Longrightarrow> APIAddr i = APIAddr j \<Longrightarrow> NodeID i = NodeID j"
    unfolding nodes_agree_def by blast
  from no_proxy_loop [OF h(1-5) o] obtain info where i: "Some info \<in> set members" "addr = APIAddr info"
    "NodeID (self m') = NodeID info \<longrightarrow> OwnerAddr m' pid = ([], False)" by blast
  from u [OF h(6) i(1)] a i(2,3) show "snd (OwnerAddr m' pid) = False" by simp
qed


lemma dispatch_remote:
  assumes "rt_Project rt" and "parseInt64 (aq_project r) = Some pid" and "f pid = (x, True)" and "g pid = (x, True)" and "\<not> rt_Public rt"
  shows "dispatch (a\<lparr>api_Locator := Some f\<rparr>) en rt r db = dispatch (a\<lparr>api_Locator := Some g\<rparr>) en rt r db"
  using assms by (simp add: dispatch_def split: option.splits)

definition proxied_to :: "api_out \<Rightarrow> string" where
  "proxied_to x = (case x of Served d resp \<Rightarrow> [] | Proxied addr q \<Rightarrow> addr)"

lemma sample_proxied: "proxied_to (dispatch (sample_api\<lparr>api_Locator := Some (\<lambda>_. (''http://b'', True))\<rparr>) sample_en (Routes ! 5) (sample_areq []) sample_db) = ''http://b''"
  by code_simp


end
