(* ===== verification/Node_Alerts.thy ===== *)
theory Node_Alerts
  imports Node_Props
begin

text \<open>
  The alert engine beside the metadata store. The engine asks an interface for the rules of a project (\<open>RuleSource\<close> of \<open>internal/alerts\<close>); the interface is
  a locale, which the metadata store implements. Over all interleavings of hits, table changes and workers, alerts stay within their tenant.
\<close>

section \<open>Rule sources\<close>

lemma eval_rule_adds:
  assumes "n \<in> set (queue (eval_rule e act r now))"
  shows "n \<in> set (queue e) \<or> n_act n = act \<and> n_rule n = r \<and> rule_matches r act"
proof (cases "rule_matches r act \<and> snd (cooldownOK e (r_ID r) (a_IssueID act) now)")
  case True
  with assms show ?thesis by (auto simp: eval_rule_fire enqueue_def split: if_splits)
next
  case False
  with assms show ?thesis by (simp add: eval_rule_skip)
qed

lemma eval_rules_adds:
  "n \<in> set (queue (eval_rules e act rs clk)) \<Longrightarrow> n \<in> set (queue e) \<or> n_act n = act \<and> n_rule n \<in> set rs \<and> rule_matches (n_rule n) act"
  by (induction e act rs clk rule: eval_rules.induct) (auto dest: eval_rule_adds)

text \<open>What the engine relies on when it asks for the rules of a project: it gets enabled rules of that project.\<close>

locale rule_source =
  fixes answer :: "'d \<Rightarrow> int \<Rightarrow> Rule list option"
    and good :: "'d \<Rightarrow> bool"
  assumes own_rules: "good d \<Longrightarrow> answer d pid = Some rs \<Longrightarrow> r \<in> set rs \<Longrightarrow> r_ProjectID r = pid \<and> r_Enabled r"
begin

lemma evaluate_adds:
  assumes "good d" and "n \<in> set (queue (Evaluate e act (answer d (a_ProjectID act)) clk))"
  shows "n \<in> set (queue e) \<or> n_act n = act \<and> r_ProjectID (n_rule n) = a_ProjectID act \<and> r_Enabled (n_rule n) \<and> rule_matches (n_rule n) act"
  using assms own_rules eval_rules_adds by (fastforce simp: Evaluate_def split: option.splits)

end

definition db_rules_for :: "sql_env \<times> bool \<times> meta_db \<Rightarrow> int \<Rightarrow> Rule list option" where
  "db_rules_for d pid = (case d of (E, ok, db) \<Rightarrow> case EnabledRules E ok db pid of Inr rs \<Rightarrow> Some rs | Inl _ \<Rightarrow> None)"

interpretation db_rule_source: rule_source db_rules_for "\<lambda>d. sql_ok (fst d)"
proof unfold_locales
  fix d pid rs r
  assume "sql_ok (fst d)" and "db_rules_for d pid = Some rs" and r: "r \<in> set rs"
  then obtain E ok db where s: "sql_ok E" "EnabledRules E ok db pid = Inr rs" by (cases d) (auto simp: db_rules_for_def split: sum.splits)
  let ?own = "filter (\<lambda>r. r_ProjectID r = pid \<and> r_Enabled r) (db_rules db)"
  have "rs = take 100 (sq_any_order E ?own)" using s(2) by (auto simp: EnabledRules_def split: if_splits)
  with r have "r \<in> set (sq_any_order E ?own)" by (auto dest: in_set_takeD)
  moreover have "set (sq_any_order E ?own) = set ?own" using s(1) by (metis sql_ok_def set_mset_mset)
  ultimately show "r_ProjectID r = pid \<and> r_Enabled r" by auto
qed

section \<open>Alerts stay with their tenant\<close>

text \<open>The node with the alert workers: a worker takes the oldest notification of the queue, to post it to the webhook of its rule.\<close>

datatype alert_op = Node node_op | Take

fun alert_step :: "meta_db \<times> issueSink \<times> notification list \<Rightarrow> alert_op \<Rightarrow> meta_db \<times> issueSink \<times> notification list" where
  "alert_step (db, s, fl) (Node op) = (case node_step (db, s) op of (db', s') \<Rightarrow> (db', s', fl))"
| "alert_step (db, s, fl) Take =
     (case sk_engine s of
        None \<Rightarrow> (db, s, fl)
      | Some e \<Rightarrow> (case queue e of [] \<Rightarrow> (db, s, fl) | n # q \<Rightarrow> (db, s\<lparr>sk_engine := Some (e\<lparr>queue := q\<rparr>)\<rparr>, n # fl)))"

definition sound_env :: "alert_op \<Rightarrow> bool" where
  "sound_env x = (case x of Node (Hit sn u) \<Rightarrow> sql_ok (sn_sql sn) | _ \<Rightarrow> True)"

definition own_alert :: "meta_db \<Rightarrow> notification \<Rightarrow> bool" where
  "own_alert db n \<longleftrightarrow> r_ProjectID (n_rule n) = a_ProjectID (n_act n) \<and> r_Enabled (n_rule n) \<and> rule_matches (n_rule n) (n_act n) \<and>
     has_project db (a_OrgID (n_act n), a_ProjectID (n_act n))"

definition queued :: "issueSink \<Rightarrow> notification set" where
  "queued s = (case sk_engine s of None \<Rightarrow> {} | Some e \<Rightarrow> set (queue e))"

definition alert_inv :: "meta_db \<times> issueSink \<times> notification list \<Rightarrow> bool" where
  "alert_inv x = (case x of (db, s, fl) \<Rightarrow> owner_inv db s \<and> (\<forall>n \<in> queued s \<union> set fl. own_alert db n))"

lemma own_alert_mono: "own_alert db n \<Longrightarrow> set (db_projects db) \<subseteq> set (db_projects db') \<Longrightarrow> own_alert db' n"
  unfolding own_alert_def using has_project_mono by blast

lemma db_UpsertIssue_projects: "db_projects (fst (db_UpsertIssue E ft u db)) = db_projects db"
  by (simp add: db_UpsertIssue_def Let_def db_Issue_fst)

lemma hit_projects:
  assumes "sink_UpsertIssue sn s u db = (db', s', res)"
  shows "db_projects db' = db_projects db"
  using assms db_UpsertIssue_projects by (auto simp: sink_UpsertIssue_def Let_def split: sum.splits prod.splits) (metis fst_conv)+

lemma hit_alerts:
  assumes "owner_inv db s" and "sql_ok (sn_sql sn)" and "sink_UpsertIssue sn s u db = (db', s', res)" and "n \<in> queued s'"
  shows "n \<in> queued s \<or> own_alert db n"
proof -
  obtain s1 r1 where o: "sink_org sn s db (hit_ProjectID u) = (s1, r1)" by (cases "sink_org sn s db (hit_ProjectID u)")
  have e1: "sk_engine s1 = sk_engine s" using o by (auto simp: sink_org_def split: option.splits sum.splits)
  show "n \<in> queued s \<or> own_alert db n"
  proof (cases r1)
    case (Inl e)
    with assms(3,4) o e1 show ?thesis by (auto simp: sink_UpsertIssue_def queued_def)
  next
    case (Inr og)
    have hp: "has_project db (og, hit_ProjectID u)" using sink_org_owner(2) [OF assms(1) o Inr] .
    obtain db1 r2 where up: "db_UpsertIssue (sn_sql sn) (sn_write sn) (sink_upsert og u) db = (db1, r2)"
      by (cases "db_UpsertIssue (sn_sql sn) (sn_write sn) (sink_upsert og u) db")
    show ?thesis
    proof (cases r2)
      case (Inl e)
      with assms(3,4) o Inr up e1 show ?thesis by (auto simp: sink_UpsertIssue_def queued_def)
    next
      case (Inr out)
      let ?act = "sink_activity og u out" and ?d = "(sn_sql sn, sn_rules_ok sn, db1)"
      have "sk_engine s' = map_option (\<lambda>e. Evaluate e ?act (db_rules_for ?d (a_ProjectID ?act)) (sn_clock sn)) (sk_engine s)"
        using assms(3) o \<open>r1 = Inr og\<close> up Inr e1 by (auto simp: sink_UpsertIssue_def Let_def db_rules_for_def sink_activity_def)
      with assms(4) obtain e where e: "sk_engine s = Some e" "n \<in> set (queue (Evaluate e ?act (db_rules_for ?d (a_ProjectID ?act)) (sn_clock sn)))"
        by (auto simp: queued_def split: option.splits)
      have act: "a_OrgID ?act = og" "a_ProjectID ?act = hit_ProjectID u" by (simp_all add: sink_activity_def)
      from db_rule_source.evaluate_adds [OF _ e(2)] assms(2) e(1) hp act show ?thesis by (auto simp: queued_def own_alert_def)
    qed
  qed
qed

lemma alert_step_inv:
  assumes "alert_inv x" and "sound_env op"
  shows "alert_inv (alert_step x op)"
proof -
  obtain db s fl where x: "x = (db, s, fl)" by (cases x)
  have i: "owner_inv db s" and q: "\<And>n. n \<in> queued s \<union> set fl \<Longrightarrow> own_alert db n" using assms(1) by (auto simp: alert_inv_def x)
  show ?thesis
  proof (cases op)
    case Take
    then show ?thesis using i q by (auto simp: x alert_inv_def queued_def owner_inv_def split: option.splits list.splits)
  next
    case (Node nop)
    show ?thesis
    proof (cases nop)
      case (Hit sn u)
      obtain db' s' res where h: "sink_UpsertIssue sn s u db = (db', s', res)" by (metis prod_cases3)
      have so: "sql_ok (sn_sql sn)" using assms(2) Node Hit by (simp add: sound_env_def)
      have "own_alert db' n" if "n \<in> queued s' \<union> set fl" for n
        using that q hit_alerts [OF i so h] hit_projects [OF h] own_alert_mono by (metis Un_iff subset_refl)
      with hit_owner [OF i h] show ?thesis by (simp add: x Node Hit h alert_inv_def)
    next
      case (Admin E mop)
      have "own_alert (meta_apply E mop db) n" if "\<not> is_upsert mop" "own_alert db n" for n
        using meta_apply_kept [OF that(1)] own_alert_mono [OF that(2)] by (auto simp: kept_def)
      then show ?thesis using i q admin_owner [OF i] Node Admin by (auto simp: x alert_inv_def)
    qed
  qed
qed

lemma alert_run_inv: "alert_inv x \<Longrightarrow> list_all sound_env ops \<Longrightarrow> alert_inv (foldl alert_step x ops)"
  by (induction ops arbitrary: x) (simp_all add: alert_step_inv)

text \<open>
  C12. Alerts stay with their tenant. However issues are hit and the tables changed, and however the workers take notifications off the queue,
  every notification that is queued or was taken reports activity of the project its rule belongs to, the rule was enabled and its condition met,
  and the organisation named in it is the one that owns the project: no webhook of one tenant is told of the issues of another.
\<close>
theorem alerts_stay_with_tenant:
  assumes "list_all sound_env ops" and "foldl alert_step (empty_db, \<lparr>sk_m = [], sk_engine = Some (alerts_New opts)\<rparr>, []) ops = (db, s, taken)"
    and "n \<in> queued s \<union> set taken"
  shows "r_ProjectID (n_rule n) = a_ProjectID (n_act n) \<and> r_Enabled (n_rule n) \<and> rule_matches (n_rule n) (n_act n) \<and>
    (\<exists>p \<in> set (db_projects db). pj_ID p = a_ProjectID (n_act n) \<and> pj_OrgID p = a_OrgID (n_act n))"
proof -
  have "alert_inv (empty_db, \<lparr>sk_m = [], sk_engine = Some (alerts_New opts)\<rparr>, [])"
    by (simp add: alert_inv_def owner_inv_def empty_db_def tenants_of_def queued_def alerts_New_def)
  from alert_run_inv [OF this assms(1)] assms(2,3) show ?thesis by (auto simp: alert_inv_def own_alert_def has_project_def)
qed

definition sample_boot :: "meta_op list" where
  "sample_boot = [Op_Bootstrap Runs [1] ''Org'' ''Web'',
     Op_CreateAlertRule Runs \<lparr>r_ID = 0, r_OrgID = 1, r_ProjectID = 1, r_Name = ''n'', r_Condition = CondNewIssue, r_Threshold = 0,
       r_WebhookURL = ''u'', r_Enabled = True\<rparr>]"

definition sample_alert_hit :: IssueHit where
  "sample_alert_hit = \<lparr>hit_OrgID = 0, hit_ProjectID = 1, hit_Fingerprint = ''f'', hit_Basis = ''b'', hit_Title = ''t'', hit_Level = ''error'', hit_SeenAt = 5\<rparr>"

definition sample_alert_ops :: "alert_op list" where
  "sample_alert_ops = map (\<lambda>op. Node (Admin std_sql op)) sample_boot @ [Node (Hit sample_sn sample_alert_hit), Take]"

definition sample_boot_db :: meta_db where
  "sample_boot_db = foldl (\<lambda>db op. meta_apply std_sql op db) empty_db sample_boot"

lemma sample_boot_rule:
  "ProjectOrg True sample_boot_db 1 = Inr 1"
  "map_sum id o_IsNew (snd (db_UpsertIssue std_sql Runs (sink_upsert 1 sample_alert_hit) sample_boot_db)) = Inr True"
  "map_sum id (map (\<lambda>r. (r_Condition r, r_WebhookURL r)))
     (EnabledRules std_sql True (fst (db_UpsertIssue std_sql Runs (sink_upsert 1 sample_alert_hit) sample_boot_db)) 1) = Inr [(CondNewIssue, ''u'')]"
  by code_simp+

lemma first_alert:
  "a_IsNew act \<Longrightarrow> r_Condition r = CondNewIssue \<Longrightarrow> queue (Evaluate (alerts_New sample_alert_opts) act (Some [r]) clk) = [\<lparr>n_rule = r, n_act = act\<rparr>]"
  by (simp add: Evaluate_def eval_rule_def rule_matches_def cooldownOK_def enqueue_def alerts_New_def alert_defaults_def sample_alert_opts_def Let_def)

lemma sample_alert_run:
  "map (\<lambda>n. (a_OrgID (n_act n), a_ProjectID (n_act n), r_WebhookURL (n_rule n)))
     (snd (snd (foldl alert_step (empty_db, \<lparr>sk_m = [], sk_engine = Some (alerts_New sample_alert_opts)\<rparr>, []) sample_alert_ops))) = [(1, 1, ''u'')]"
proof -
  let ?s = "\<lparr>sk_m = [], sk_engine = Some (alerts_New sample_alert_opts)\<rparr>"
  have boot: "foldl alert_step (empty_db, ?s, []) (map (\<lambda>op. Node (Admin std_sql op)) sample_boot) = (sample_boot_db, ?s, [])"
    by (simp add: sample_boot_db_def sample_boot_def)
  obtain db1 out where up: "db_UpsertIssue std_sql Runs (sink_upsert 1 sample_alert_hit) sample_boot_db = (db1, Inr out)" "o_IsNew out"
  proof -
    obtain db1 res where "db_UpsertIssue std_sql Runs (sink_upsert 1 sample_alert_hit) sample_boot_db = (db1, res)"
      by (cases "db_UpsertIssue std_sql Runs (sink_upsert 1 sample_alert_hit) sample_boot_db")
    then show ?thesis using sample_boot_rule(2) that by (cases res) auto
  qed
  obtain r where r: "EnabledRules std_sql True db1 1 = Inr [r]" "r_Condition r = CondNewIssue" "r_WebhookURL r = ''u''"
    using sample_boot_rule(3) up(1) by (cases "EnabledRules std_sql True db1 1") auto
  let ?act = "sink_activity 1 sample_alert_hit out"
  have pid: "hit_ProjectID sample_alert_hit = 1" by (simp add: sample_alert_hit_def)
  have hit: "sink_UpsertIssue sample_sn ?s sample_alert_hit sample_boot_db =
      (db1, \<lparr>sk_m = map_put 1 1 [], sk_engine = Some (Evaluate (alerts_New sample_alert_opts) ?act (Some [r]) (\<lambda>_. 0))\<rparr>, Inr (o_ID out))"
    by (simp add: sink_UpsertIssue_def sink_org_def sample_sn_def sample_boot_rule(1) pid up(1) r(1) Let_def)
  have act: "a_IsNew ?act" "a_OrgID ?act = 1" "a_ProjectID ?act = 1" using up(2) pid by (simp_all add: sink_activity_def)
  show ?thesis unfolding sample_alert_ops_def foldl_append boot by (simp add: hit first_alert [OF act(1) r(2)] act r(3))
qed

lemma sample_alert_sound: "list_all sound_env sample_alert_ops"
  by (simp add: sample_alert_ops_def sample_boot_def sound_env_def sample_sn_def std_sql_ok)

theorem alerts_stay_with_tenant_witness:
  "\<exists>db s n. foldl alert_step (empty_db, \<lparr>sk_m = [], sk_engine = Some (alerts_New sample_alert_opts)\<rparr>, []) sample_alert_ops = (db, s, [n]) \<and>
     r_WebhookURL (n_rule n) = ''u'' \<and> r_ProjectID (n_rule n) = 1 \<and> (\<exists>p \<in> set (db_projects db). pj_ID p = 1 \<and> pj_OrgID p = 1)"
proof -
  obtain db s t where r: "foldl alert_step (empty_db, \<lparr>sk_m = [], sk_engine = Some (alerts_New sample_alert_opts)\<rparr>, []) sample_alert_ops = (db, s, t)"
    by (metis prod_cases3)
  with sample_alert_run obtain n where n: "t = [n]" "a_OrgID (n_act n) = 1" "a_ProjectID (n_act n) = 1" "r_WebhookURL (n_rule n) = ''u''" by auto
  with alerts_stay_with_tenant [OF sample_alert_sound r, of n] r show ?thesis by auto
qed

end
