(* ===== verification/Boot.thy ===== *)
theory Boot
  imports Node_Props Ingest_Http Gossip
begin

text \<open>
  The boot of a process, \<open>cmdServe\<close> of \<open>cmd/leser/main.go\<close>: flags over configuration, what is opened in which order and in which role, the
  first administrator, what is mounted, the periodic tasks with their ticks, the banner, and the deferred closing on every way out. Opening a file or a
  socket may fail; the outcomes are part of the environment. What runs between boot and exit is in the other theories.
\<close>

section \<open>Flags and configuration\<close>

text \<open>The values after \<open>fs.Parse\<close>; the three overrides are \<open>None\<close> unless they were set explicitly.\<close>

record serve_flags =
  sf_config :: string
  sf_listen :: "string option"
  sf_dataDir :: "string option"
  sf_logLevel :: "string option"
  sf_role :: string
  sf_clusterNodeID :: string
  sf_clusterAPIAddr :: string
  sf_clusterBind :: string
  sf_clusterPort :: int
  sf_clusterJoin :: string

definition no_serve_flags :: serve_flags where
  "no_serve_flags = \<lparr>sf_config = [], sf_listen = None, sf_dataDir = None, sf_logLevel = None, sf_role = ''all'', sf_clusterNodeID = [],
     sf_clusterAPIAddr = [], sf_clusterBind = ''0.0.0.0'', sf_clusterPort = 7946, sf_clusterJoin = []\<rparr>"

definition or_set :: "'a option \<Rightarrow> 'a \<Rightarrow> 'a" where
  "or_set o1 d = (case o1 of None \<Rightarrow> d | Some v \<Rightarrow> v)"

definition overlay_flags :: "serve_flags \<Rightarrow> Config \<Rightarrow> Config" where
  "overlay_flags fl cfg =
     cfg\<lparr>cf_ListenAddr := or_set (sf_listen fl) (cf_ListenAddr cfg), cf_DataDir := or_set (sf_dataDir fl) (cf_DataDir cfg),
         cf_LogLevel := or_set (sf_logLevel fl) (cf_LogLevel cfg)\<rparr>"

definition serve_config :: "(string \<Rightarrow> byte list option) \<Rightarrow> (string \<Rightarrow> string option) \<Rightarrow> serve_flags \<Rightarrow> config_err + Config" where
  "serve_config fsys lookup fl =
     (case config_Load fsys lookup (sf_config fl) of
        Inl err \<Rightarrow> Inl err
      | Inr c \<Rightarrow> let cfg = overlay_flags fl c in (case config_Validate cfg of Some err \<Rightarrow> Inl err | None \<Rightarrow> Inr cfg))"

section \<open>The environment of a boot\<close>

record boot_env =
  bt_fsys :: "string \<Rightarrow> byte list option"
  bt_lookup :: "string \<Rightarrow> string option"
  bt_mkdir :: bool
  bt_cli :: cli_env
  bt_dir :: wal_dir
  bt_synced :: "string \<Rightarrow> nat"
  bt_wal_io :: io
  bt_events :: es_disk
  bt_sort :: "ringEntry list \<Rightarrow> ringEntry list"
  bt_started :: bool
  bt_peers_failed :: bool
  bt_members :: "byte list list"
  bt_limits_ok :: bool
  bt_now :: int
  bt_url :: "string \<Rightarrow> (string \<times> string) option"

section \<open>The parts of a node\<close>

text \<open>Go's zero options.\<close>

definition zero_wal :: wal_opts where
  "zero_wal = \<lparr>SegmentBytes = 0, MaxRecordBytes = 0, MaxBatchBytes = 0, MaxPending = 0, Policy = SyncBatched, BatchWindow = 0, ReadOnly = False, RefreshInterval = 0\<rparr>"

definition serve_wal_opts :: "bool \<Rightarrow> wal_opts" where
  "serve_wal_opts doIngest = (if \<not> doIngest then zero_wal\<lparr>ReadOnly := True\<rparr> else zero_wal)"

definition zero_limits :: Limits where
  "zero_limits = \<lparr>MaxEnvelopeBytes = 0, MaxItems = 0, MaxItemBytes = 0\<rparr>"

definition serve_sink :: "bool \<Rightarrow> issueSink option" where
  "serve_sink doWorker =
     (if doWorker
      then Some \<lparr>sk_m = [], sk_engine = Some (alerts_New \<lparr>Workers = 0, QueueDepth = 0, Cooldown = 0, MaxAttempts = 0, BreakerFails = 0, BreakerReset = 0, HTTPTimeout = 0\<rparr>)\<rparr>
      else None)"

definition serve_pipe :: "bool \<Rightarrow> pipeline" where
  "serve_pipe doWorker = NewPipeline (serve_sink doWorker \<noteq> None) \<lparr>MaxLag = 0, AppendTimeout = 0, DedupeCap = 0, CommitEvery = 0\<rparr> zero_limits"

text \<open>The store, where events are consumed or served; no error, and no store, where neither is done.\<close>

definition serve_store :: "bool \<Rightarrow> bool \<Rightarrow> es_disk \<Rightarrow> es_err + Store option" where
  "serve_store doWorker doQuery disk =
     (if doWorker \<or> doQuery
      then map_sum id Some (es_Open \<lparr>FlushRows = 0, MaxBufferRows = 0, FlushAge = 0, QueryLimitDefault = 0\<rparr> disk)
      else Inr None)"

definition cluster_cfg :: "serve_flags \<Rightarrow> ClusterConfig" where
  "cluster_cfg fl =
     \<lparr>gc_Self = \<lparr>NodeID = sf_clusterNodeID fl, APIAddr = sf_clusterAPIAddr fl\<rparr>, gc_BindAddr = sf_clusterBind fl, gc_BindPort = sf_clusterPort fl,
      gc_Join = (if sf_clusterJoin fl \<noteq> [] then split_on '','' (sf_clusterJoin fl) else []), gc_RingRefresh = 0\<rparr>"

text \<open>The outer option is the error of joining, the inner one says whether the node is clustered.\<close>

definition serve_join :: "boot_env \<Rightarrow> serve_flags \<Rightarrow> gossip option option" where
  "serve_join be fl =
     (if sf_clusterNodeID fl = [] then Some None
      else map_option Some (gossip_Join (bt_sort be) (bt_started be) (bt_peers_failed be) (bt_members be) (cluster_cfg fl)))"

text \<open>The API of a node at a moment at which the pipeline's status and the functions over the store are the given ones.\<close>

definition serve_api ::
  "(string \<Rightarrow> (string \<times> string) option) \<Rightarrow> serve_flags \<Rightarrow> Config \<Rightarrow> gossip option \<Rightarrow> json \<Rightarrow> (int \<Rightarrow> string \<Rightarrow> string \<Rightarrow> string \<Rightarrow> string list option) \<Rightarrow>
   (int \<Rightarrow> int \<Rightarrow> int \<Rightarrow> int \<Rightarrow> json option) \<Rightarrow> (int \<Rightarrow> string \<Rightarrow> int \<Rightarrow> json option) \<Rightarrow> API" where
  "serve_api url fl cfg membership status fingerprints stats events =
     (let a0 = api_New status (JObj (map (\<lambda>(k, v). (k, JStr v)) (Effective cfg)));
          a1 = (case membership of
                  None \<Rightarrow> a0
                | Some g \<Rightarrow> a0\<lparr>api_Locator := Some (\<lambda>pid. owner_addr g (owner_node g pid)), api_NodeID := sf_clusterNodeID fl\<rparr>)
      in a1\<lparr>api_DSNFor := Some (dsnFor url (cf_PublicURL cfg)), api_FingerprintsFn := Some fingerprints, api_StatsFn := Some stats, api_EventsFn := Some events\<rparr>)"

text \<open>The limiter's last checkpoint, where one can be read.\<close>

definition restore_limits :: "bool \<Rightarrow> int \<Rightarrow> meta_db \<Rightarrow> Handler \<Rightarrow> Handler" where
  "restore_limits ok now db h =
     (if ok \<and> RateLimitLoad db \<noteq> [] then h\<lparr>h_limiter := Restore (h_limiter h) (RateLimitLoad db) now\<rparr> else h)"

datatype serve_mount = MountIngest | MountAPI

datatype serve_task = TaskPipeline | TaskEngine | TaskLimits | TaskLag | TaskRefresh

definition serve_mounts :: "bool \<Rightarrow> bool \<Rightarrow> serve_mount list" where
  "serve_mounts doIngest doQuery = (if doIngest then [MountIngest] else []) @ (if doQuery then [MountAPI] else [])"

definition serve_tasks :: "bool \<Rightarrow> bool \<Rightarrow> bool \<Rightarrow> serve_task list" where
  "serve_tasks doIngest doWorker doQuery =
     (if doWorker then [TaskPipeline, TaskEngine] else []) @ (if doIngest then [TaskLimits] else []) @
     (if doIngest \<and> \<not> doWorker then [TaskLag] else []) @ (if doQuery \<and> \<not> doWorker then [TaskRefresh] else [])"

definition nl :: string where "nl = [CHR 0x0A]"

definition serve_banner :: "string \<Rightarrow> bool \<Rightarrow> bool \<Rightarrow> Project \<Rightarrow> string \<Rightarrow> string \<Rightarrow> string option \<Rightarrow> string" where
  "serve_banner role doIngest doQuery proj dsn publicURL adminPw =
     nl @ ''  leser is up (role='' @ role @ '').'' @ nl @ nl @ ''  Project:  '' @ pj_Name proj @ '' (id '' @ int_str (pj_ID proj) @ '')'' @ nl @
     (if doIngest then ''  DSN:      '' @ dsn @ nl else []) @
     (if doQuery then ''  UI:       '' @ publicURL @ nl else []) @
     (case adminPw of None \<Rightarrow> [] | Some pw \<Rightarrow> ''  Admin:    admin@leser.local / '' @ pw @ ''   (shown once '' @ [CHR 0xE2, CHR 0x80, CHR 0x94] @ '' change it)'' @ nl)"

section \<open>The boot\<close>

text \<open>What has been deferred, the latest first.\<close>

datatype resource = ResMeta | ResWal | ResCluster | ResSignals

record serving =
  nd_cfg :: Config
  nd_proj :: Project
  nd_key :: ProjectKey
  nd_wal :: wal_log
  nd_store :: "Store option"
  nd_sink :: "issueSink option"
  nd_pipe :: pipeline
  nd_handler :: "Handler option"
  nd_gossip :: "gossip option"
  nd_mounts :: "serve_mount list"
  nd_server :: Server
  nd_tasks :: "serve_task list"
  nd_banner :: string

text \<open>The database and the files of the log afterwards, what was deferred with the log and the membership as they are then, and an exit code or the running node.\<close>

record boot_out =
  bo_db :: meta_db
  bo_dir :: wal_dir
  bo_deferred :: "resource list"
  bo_wal :: "wal_log option"
  bo_gossip :: "gossip option"
  bo_result :: "int + serving"

definition boot_fail :: "meta_db \<Rightarrow> wal_dir \<Rightarrow> resource list \<Rightarrow> wal_log option \<Rightarrow> int \<Rightarrow> boot_out" where
  "boot_fail db d ds w code = \<lparr>bo_db = db, bo_dir = d, bo_deferred = ds, bo_wal = w, bo_gossip = None, bo_result = Inl code\<rparr>"

text \<open>From the pipeline on: mounting, joining, tasks and the banner.\<close>

definition serve_up ::
  "boot_env \<Rightarrow> serve_flags \<Rightarrow> bool \<times> bool \<times> bool \<Rightarrow> Config \<Rightarrow> Project \<Rightarrow> ProjectKey \<Rightarrow> wal_dir \<Rightarrow> wal_log \<Rightarrow> Store option \<Rightarrow> string option \<Rightarrow> meta_db \<Rightarrow> boot_out" where
  "serve_up be fl roles cfg proj key d w store adminPw db =
     (case roles of (doIngest, doWorker, doQuery) \<Rightarrow>
        case serve_join be fl of
          None \<Rightarrow> boot_fail db d [ResWal, ResMeta] (Some w) 1
        | Some membership \<Rightarrow>
            let pipe = serve_pipe doWorker;
                dsn = dsnFor (bt_url be) (cf_PublicURL cfg) (pk_PublicKey key) (pj_ID proj)
            in \<lparr>bo_db = db, bo_dir = d, bo_deferred = [ResSignals] @ (if membership = None then [] else [ResCluster]) @ [ResWal, ResMeta], bo_wal = Some w,
                bo_gossip = membership,
                bo_result = Inr \<lparr>nd_cfg = cfg, nd_proj = proj, nd_key = key, nd_wal = w, nd_store = store, nd_sink = serve_sink doWorker, nd_pipe = pipe,
                  nd_handler = (if doIngest then Some (restore_limits (bt_limits_ok be) (bt_now be) db (NewHandler pipe zero_limits)) else None),
                  nd_gossip = membership, nd_mounts = serve_mounts doIngest doQuery, nd_server = SetReady True (server_New doQuery),
                  nd_tasks = serve_tasks doIngest doWorker doQuery,
                  nd_banner = serve_banner (sf_role fl) doIngest doQuery proj dsn (cf_PublicURL cfg) adminPw\<rparr>\<rparr>)"

text \<open>The log, the store and the first administrator.\<close>

definition serve_open :: "boot_env \<Rightarrow> serve_flags \<Rightarrow> bool \<times> bool \<times> bool \<Rightarrow> Config \<Rightarrow> Project \<Rightarrow> ProjectKey \<Rightarrow> meta_db \<Rightarrow> boot_out" where
  "serve_open be fl roles cfg proj key db =
     (case roles of (doIngest, doWorker, doQuery) \<Rightarrow>
        case wal_Open (serve_wal_opts doIngest) (bt_dir be) (bt_synced be) (bt_wal_io be) of
          (d1, _, Inl err) \<Rightarrow> boot_fail db d1 [ResMeta] None 1
        | (d1, _, Inr w) \<Rightarrow>
            (case serve_store doWorker doQuery (bt_events be) of
               Inl err \<Rightarrow> boot_fail db d1 [ResWal, ResMeta] (Some w) 1
             | Inr store \<Rightarrow>
                 (case (if doQuery then first_admin (bt_cli be) (pj_OrgID proj) db else (db, Inr None)) of
                    (db1, Inl code) \<Rightarrow> boot_fail db1 d1 [ResWal, ResMeta] (Some w) code
                  | (db1, Inr adminPw) \<Rightarrow> serve_up be fl roles cfg proj key d1 w store adminPw db1)))"

definition serve_boot :: "boot_env \<Rightarrow> serve_flags option \<Rightarrow> meta_db \<Rightarrow> boot_out" where
  "serve_boot be flags db =
     (case flags of
        None \<Rightarrow> boot_fail db (bt_dir be) [] None 2
      | Some fl \<Rightarrow>
          if sf_clusterNodeID fl \<noteq> [] \<and> sf_clusterAPIAddr fl = [] then boot_fail db (bt_dir be) [] None 2
          else case serve_roles (sf_role fl) of
            None \<Rightarrow> boot_fail db (bt_dir be) [] None 2
          | Some roles \<Rightarrow>
              (case serve_config (bt_fsys be) (bt_lookup be) fl of
                 Inl err \<Rightarrow> boot_fail db (bt_dir be) [] None 1
               | Inr cfg \<Rightarrow>
                   if \<not> bt_mkdir be then boot_fail db (bt_dir be) [] None 1
                   else if \<not> cl_open (bt_cli be) then boot_fail db (bt_dir be) [] None 1
                   else case Bootstrap (cl_sql (bt_cli be)) (cl_boot (bt_cli be)) (cl_key_rnd (bt_cli be)) ''Default'' ''my-app'' db of
                     (db1, Inl err) \<Rightarrow> boot_fail db1 (bt_dir be) [ResMeta] None 1
                   | (db1, Inr (proj, key)) \<Rightarrow> serve_open be fl roles cfg proj key db1))"

section \<open>Ticks\<close>

definition limits_tick :: "tx_fate \<Rightarrow> Handler \<Rightarrow> meta_db \<Rightarrow> meta_db" where
  "limits_tick ft h db = fst (RateLimitSave ft (Snapshot (h_limiter h)) db)"

definition lag_tick :: "pipeline \<Rightarrow> wal_log \<Rightarrow> wal_dir \<Rightarrow> io \<Rightarrow> pipeline" where
  "lag_tick p l offsets io = RefreshLagFromWAL p l offsets ConsumerName io"

definition refresh_tick :: "es_env \<Rightarrow> Store \<Rightarrow> es_disk \<Rightarrow> Store" where
  "refresh_tick E st disk = fst (es_Refresh E st disk)"

section \<open>Exit\<close>

text \<open>How serving ends: listening failed, or the context was cancelled by a signal or by a pipeline that gave up, and then the server drained or not.\<close>

datatype serve_end = ListenFailed | Cancelled bool

definition ListenAndServe :: "serve_end \<Rightarrow> bool" where
  "ListenAndServe x = (case x of ListenFailed \<Rightarrow> False | Cancelled drained \<Rightarrow> drained)"

definition serve_exit :: "serve_end \<Rightarrow> int" where
  "serve_exit x = (if \<not> ListenAndServe x then 1 else 0)"

text \<open>The deferred calls run in order; the result has the log and the membership afterwards and what was closed.\<close>

record close_env =
  ce_io :: io
  ce_leave :: bool
  ce_shutdown :: bool

fun run_deferred :: "close_env \<Rightarrow> resource list \<Rightarrow> wal_log option \<times> gossip option \<times> resource list \<Rightarrow> wal_log option \<times> gossip option \<times> resource list" where
  "run_deferred ce [] x = x"
| "run_deferred ce (r # ds) (w, g, done1) =
     run_deferred ce ds
       (if r = ResWal then map_option (\<lambda>l. fst (wal_Close l (ce_io ce))) w else w,
        if r = ResCluster then map_option (\<lambda>g. fst (gossip_Leave (ce_leave ce) (ce_shutdown ce) g)) g else g,
        done1 @ [r])"

text \<open>
  A whole life of the process. Between boot and exit the node turns into another one; \<open>life\<close> gives the database, the log and the membership at the end of serving
  and how it ended.
\<close>

definition cmdServe ::
  "boot_env \<Rightarrow> close_env \<Rightarrow> (serving \<Rightarrow> meta_db \<Rightarrow> meta_db \<times> wal_log \<times> gossip option \<times> serve_end) \<Rightarrow> serve_flags option \<Rightarrow> meta_db \<Rightarrow>
   meta_db \<times> wal_log option \<times> gossip option \<times> resource list \<times> int" where
  "cmdServe be ce life flags db =
     (let b = serve_boot be flags db in
      case bo_result b of
        Inl code \<Rightarrow> (case run_deferred ce (bo_deferred b) (bo_wal b, bo_gossip b, []) of (w, g, cl) \<Rightarrow> (bo_db b, w, g, cl, code))
      | Inr nd \<Rightarrow>
          (case life nd (bo_db b) of (db1, w1, g1, e) \<Rightarrow>
             case run_deferred ce (bo_deferred b) (Some w1, g1, []) of (w, g, cl) \<Rightarrow> (db1, w, g, cl, serve_exit e)))"

section \<open>The API of a node\<close>

text \<open>A clustered node asks its membership for owners and names itself in its answers; a node alone serves everything, and the view of its configuration hides the secret.\<close>

lemma serve_api_wiring:
  "api_Locator (serve_api url fl cfg (Some g) st fp sf ev) = Some (OwnerAddr (gs_m g))" "api_NodeID (serve_api url fl cfg (Some g) st fp sf ev) = sf_clusterNodeID fl"
  "api_Locator (serve_api url fl cfg None st fp sf ev) = None"
  "api_ConfigFn (serve_api url fl cfg g1 st fp sf ev) = api_ConfigFn (serve_api url fl (cfg\<lparr>cf_SecretKey := redact (cf_SecretKey cfg)\<rparr>) g1 st fp sf ev)"
  by (simp_all add: serve_api_def api_New_def OwnerAddr_split fun_eq_iff Effective_def redact_def Let_def split: option.split)

section \<open>Closing\<close>

lemma run_deferred_closes: "snd (snd (run_deferred ce ds (w, g, cl))) = cl @ ds"
  by (induction ds arbitrary: w g cl) simp_all

lemma boot_fail_simps [simp]:
  "bo_db (boot_fail db d ds w c) = db" "bo_dir (boot_fail db d ds w c) = d" "bo_deferred (boot_fail db d ds w c) = ds" "bo_wal (boot_fail db d ds w c) = w"
  "bo_gossip (boot_fail db d ds w c) = None" "bo_result (boot_fail db d ds w c) = Inl c"
  by (simp_all add: boot_fail_def)

text \<open>How a boot comes to its end: it failed before the metadata store was open, with it open, with the log open too, or it serves.\<close>

definition out_ok :: "boot_out \<Rightarrow> bool" where
  "out_ok b \<longleftrightarrow> (bo_deferred b \<in> {[], [ResMeta]} \<and> bo_wal b = None \<or> (\<exists>ds w. bo_deferred b = ds @ [ResWal, ResMeta] \<and> bo_wal b = Some w)) \<and>
     (ResCluster \<in> set (bo_deferred b) \<longleftrightarrow> bo_gossip b \<noteq> None) \<and> distinct (bo_deferred b)"

lemma serve_up_ok: "out_ok (serve_up be fl roles cfg proj key d w store pw db)"
  by (auto simp: serve_up_def out_ok_def Let_def split: prod.splits option.splits)

lemma serve_open_ok: "out_ok (serve_open be fl roles cfg proj key db)"
  by (auto simp: serve_open_def serve_up_ok split: prod.splits sum.splits) (simp_all add: out_ok_def)

lemma serve_boot_ok: "out_ok (serve_boot be fl db)"
  by (auto simp: serve_boot_def serve_open_ok split: option.splits sum.splits prod.splits) (simp_all add: out_ok_def)

text \<open>Every way out of the process closes exactly what was opened, the last first: the membership is left before the log is closed, the database last.\<close>

lemma cmdServe_releases:
  assumes "cmdServe be ce life flags db = (db', w, g, released, code)"
  shows "released = bo_deferred (serve_boot be flags db)" and "out_ok (serve_boot be flags db)"
proof -
  show "released = bo_deferred (serve_boot be flags db)"
    using assms run_deferred_closes [of ce "bo_deferred (serve_boot be flags db)"]
    by (auto simp: cmdServe_def Let_def split: sum.splits prod.splits) (metis append_Nil snd_conv)+
qed (rule serve_boot_ok)

section \<open>Only the ingesting role writes the log\<close>

lemma Refresh_frame: "Refresh l io = (l', io', e) \<Longrightarrow> lopts l' = lopts l \<and> dir l' = dir l"
  by (auto simp: Refresh_def Let_def split: prod.splits io_res.splits if_splits option.splits)

lemma wal_Open_readonly:
  assumes "ReadOnly opt" and "wal_Open opt d sy io = (d1, io1, res)"
  shows "d1 = d \<and> (\<forall>w. res = Inr w \<longrightarrow> ReadOnly (lopts w) \<and> dir w = d)"
proof -
  have "ReadOnly (wal_defaults opt)" using assms(1) by (simp add: wal_defaults_def Let_def)
  then show ?thesis
    using assms(2) by (auto simp: wal_Open_def Let_def split: prod.splits io_res.splits option.splits dest!: Refresh_frame)
qed

lemma serve_up_frame: "bo_dir (serve_up be fl roles cfg proj key d w store pw db) = d" "bo_wal (serve_up be fl roles cfg proj key d w store pw db) = Some w"
  "bo_db (serve_up be fl roles cfg proj key d w store pw db) = db"
  by (simp_all add: serve_up_def Let_def split: prod.splits option.splits)

lemma serve_open_readonly:
  assumes "b = serve_open be fl (False, doWorker, doQuery) cfg proj key db"
  shows "bo_dir b = bt_dir be \<and> (\<forall>w. bo_wal b = Some w \<longrightarrow> ReadOnly (lopts w) \<and> dir w = bt_dir be)"
proof -
  obtain d1 io1 res where o: "wal_Open (serve_wal_opts False) (bt_dir be) (bt_synced be) (bt_wal_io be) = (d1, io1, res)" by (metis prod_cases3)
  have "ReadOnly (serve_wal_opts False)" by (simp add: serve_wal_opts_def)
  from wal_Open_readonly [OF this o] o show ?thesis
    unfolding assms serve_open_def by (auto simp: serve_up_frame split: sum.splits prod.splits)
qed

lemma serve_boot_cases:
  obtains (early) db1 ds c where "serve_boot be (Some fl) db = boot_fail db1 (bt_dir be) ds None c"
  | (opened) roles cfg db1 proj key where "serve_roles (sf_role fl) = Some roles"
      "Bootstrap (cl_sql (bt_cli be)) (cl_boot (bt_cli be)) (cl_key_rnd (bt_cli be)) ''Default'' ''my-app'' db = (db1, Inr (proj, key))"
      "serve_boot be (Some fl) db = serve_open be fl roles cfg proj key db1"
proof (cases "\<exists>db1 ds c. serve_boot be (Some fl) db = boot_fail db1 (bt_dir be) ds None c")
  case False
  then obtain roles cfg where r: "serve_roles (sf_role fl) = Some roles" "serve_config (bt_fsys be) (bt_lookup be) fl = Inr cfg" "bt_mkdir be" "cl_open (bt_cli be)"
    "\<not> (sf_clusterNodeID fl \<noteq> [] \<and> sf_clusterAPIAddr fl = [])"
    by (simp add: serve_boot_def split: if_splits option.splits sum.splits) blast+
  obtain db1 res where b: "Bootstrap (cl_sql (bt_cli be)) (cl_boot (bt_cli be)) (cl_key_rnd (bt_cli be)) ''Default'' ''my-app'' db = (db1, res)" by fastforce
  with False r obtain proj key where "res = Inr (proj, key)" by (cases res) (auto simp: serve_boot_def)
  with opened [of roles db1 proj key cfg] r b show ?thesis by (simp add: serve_boot_def)
qed (use early in blast)

lemma serve_open_serves:
  assumes "bo_result (serve_open be fl (doIngest, doWorker, doQuery) cfg proj key db) = Inr nd"
  obtains db1 pw where "bo_db (serve_open be fl (doIngest, doWorker, doQuery) cfg proj key db) = db1"
    "(if doQuery then first_admin (bt_cli be) (pj_OrgID proj) db else (db, Inr None)) = (db1, Inr pw)"
    "nd_key nd = key" "nd_proj nd = proj" "nd_mounts nd = serve_mounts doIngest doQuery" "nd_tasks nd = serve_tasks doIngest doWorker doQuery"
    "nd_handler nd = (if doIngest then Some (restore_limits (bt_limits_ok be) (bt_now be) db1 (NewHandler (serve_pipe doWorker) zero_limits)) else None)"
    "nd_gossip nd = bo_gossip (serve_open be fl (doIngest, doWorker, doQuery) cfg proj key db)"
    "serve_join be fl = Some (nd_gossip nd)"
    "nd_banner nd = serve_banner (sf_role fl) doIngest doQuery proj (dsnFor (bt_url be) (cf_PublicURL cfg) (pk_PublicKey key) (pj_ID proj)) (cf_PublicURL cfg) pw"
proof -
  obtain d1 io1 res where o: "wal_Open (serve_wal_opts doIngest) (bt_dir be) (bt_synced be) (bt_wal_io be) = (d1, io1, res)" by (metis prod_cases3)
  obtain w where w: "res = Inr w" using assms o by (cases res) (simp_all add: serve_open_def)
  obtain store where st: "serve_store doWorker doQuery (bt_events be) = Inr store"
    using assms o w by (cases "serve_store doWorker doQuery (bt_events be)") (simp_all add: serve_open_def)
  obtain db1 ar where ad: "(if doQuery then first_admin (bt_cli be) (pj_OrgID proj) db else (db, Inr None)) = (db1, ar)" by fastforce
  obtain pw where pw: "ar = Inr pw" using assms o w st ad by (cases ar) (simp_all add: serve_open_def)
  obtain g where g: "serve_join be fl = Some g" using assms o w st ad pw by (cases "serve_join be fl") (simp_all add: serve_open_def serve_up_def)
  show ?thesis using assms o w st ad pw g by (intro that [of db1 pw]) (auto simp: serve_open_def serve_up_def Let_def)
qed

text \<open>
  C13. Only the ingesting role writes the log. A process in a role that does not ingest leaves the files of the log as they are, on every
  way through its boot; the log it holds is attached read-only, refuses every append, and closing it at exit does not touch the files either.
  It mounts no ingest endpoint and runs no checkpoints of quotas.
\<close>
theorem only_ingest_writes_log:
  assumes "serve_roles (sf_role fl) = Some (False, doWorker, doQuery)" and "b = serve_boot be (Some fl) db"
  shows "bo_dir b = bt_dir be \<and>
    (\<forall>w. bo_wal b = Some w \<longrightarrow> dir w = bt_dir be \<and> append_check w payload = Some ErrReadOnly \<and> dir (fst (wal_Close w io)) = bt_dir be) \<and>
    (\<forall>nd. bo_result b = Inr nd \<longrightarrow> MountIngest \<notin> set (nd_mounts nd) \<and> nd_handler nd = None \<and> TaskLimits \<notin> set (nd_tasks nd))"
proof -
  have "bo_dir b = bt_dir be \<and> (\<forall>w. bo_wal b = Some w \<longrightarrow> ReadOnly (lopts w) \<and> dir w = bt_dir be) \<and>
      (\<forall>nd. bo_result b = Inr nd \<longrightarrow> MountIngest \<notin> set (nd_mounts nd) \<and> nd_handler nd = None \<and> TaskLimits \<notin> set (nd_tasks nd))"
  proof (cases rule: serve_boot_cases [of be fl db])
    case early
    with assms(2) show ?thesis by simp
  next
    case (opened roles cfg db1 proj key)
    with assms have b: "b = serve_open be fl (False, doWorker, doQuery) cfg proj key db1" by simp
    have "MountIngest \<notin> set (nd_mounts nd) \<and> nd_handler nd = None \<and> TaskLimits \<notin> set (nd_tasks nd)" if "bo_result b = Inr nd" for nd
      using that unfolding b by (rule serve_open_serves) (simp add: serve_mounts_def serve_tasks_def)
    with serve_open_readonly [OF b] show ?thesis by blast
  qed
  moreover have "append_check w payload = Some ErrReadOnly \<and> dir (fst (wal_Close w io)) = dir w" if "ReadOnly (lopts w)" for w
    using that by (simp add: append_check_def wal_Close_def)
  ultimately show ?thesis by metis
qed

text \<open>A clustered process that does not serve queries joins the ring, and so owns projects, without an API to which their requests could be proxied.\<close>

lemma ring_member_without_api:
  assumes "serve_roles (sf_role fl) = Some (doIngest, doWorker, False)" and "sf_clusterNodeID fl \<noteq> []" and "bo_result (serve_boot be (Some fl) db) = Inr nd"
  shows "nd_gossip nd \<noteq> None \<and> MountAPI \<notin> set (nd_mounts nd)"
proof (cases rule: serve_boot_cases [of be fl db])
  case early
  with assms(3) show ?thesis by simp
next
  case (opened roles cfg db1 proj key)
  with assms have "bo_result (serve_open be fl (doIngest, doWorker, False) cfg proj key db1) = Inr nd" by simp
  then obtain "nd_mounts nd = serve_mounts doIngest False" "serve_join be fl = Some (nd_gossip nd)" by (rule serve_open_serves)
  then show ?thesis using assms(2) by (cases "nd_gossip nd") (auto simp: serve_join_def serve_mounts_def)
qed

section \<open>The printed DSN works\<close>

lemma db_Write_Inr: "db_Write ft fn db = (db1, Inr x) \<Longrightarrow> fn db = Inr (db1, x)"
  by (auto simp: db_Write_def execTx_def split: if_splits sum.splits prod.splits)

lemma first_admin_frame:
  "first_admin ce og db = (db1, r) \<Longrightarrow> db_keys db1 = db_keys db \<and> db_projects db1 = db_projects db \<and> db_limits db1 = db_limits db"
  by (auto simp: first_admin_def CreateUser_def db_Write_def execTx_def insert_user_def Let_def split: sum.splits nat.splits option.splits if_splits prod.splits)

lemma admin_frame:
  "(if q then first_admin ce og db else (db, Inr None)) = (db1, r) \<Longrightarrow> db_keys db1 = db_keys db \<and> db_projects db1 = db_projects db \<and> db_limits db1 = db_limits db"
  using first_admin_frame by (cases q) auto

lemma Bootstrap_steps:
  assumes "Bootstrap E ft rnd oname pname db = (db1, Inr (proj, key))"
  obtains a b og where "boot_org E oname db = Inr (a, og)" "boot_project E og pname a = Inr (b, proj)" "boot_key E rnd (pj_ID proj) og b = Inr (db1, key)"
  using db_Write_Inr [OF assms [unfolded Bootstrap_def]] by (auto split: sum.splits)

lemma Bootstrap_key:
  assumes "Bootstrap E ft rnd oname pname db = (db1, Inr (proj, key))"
  shows "key \<in> set (db_keys db1) \<and> pk_Active key \<and> pk_ProjectID key = pj_ID proj \<and> db_limits db1 = db_limits db"
proof -
  obtain a b og where s: "boot_org E oname db = Inr (a, og)" "boot_project E og pname a = Inr (b, proj)" "boot_key E rnd (pj_ID proj) og b = Inr (db1, key)"
    by (rule Bootstrap_steps [OF assms])
  have "db_limits a = db_limits db" using s(1) by (auto simp: boot_org_def insert_org_def Let_def split: option.splits if_splits)
  moreover have "db_limits b = db_limits a" using s(2) by (auto simp: boot_project_def insert_project_def Let_def split: option.splits sum.splits if_splits)
  moreover have "db_limits db1 = db_limits b" using s(3) by (auto simp: boot_key_def insert_key_def Let_def split: option.splits sum.splits if_splits)
  moreover have "key \<in> set (filter (\<lambda>k. pk_ProjectID k = pj_ID proj \<and> pk_Active k) (db_keys db1))" using boot_key_found [OF s(3)] by (intro first_by_Some) blast
  ultimately show ?thesis by simp
qed

lemma LookupKey_found:
  assumes "meta_inv db" and "key \<in> set (db_keys db)" and "pk_Active key"
  shows "LookupKey True db (pk_PublicKey key) = Inr key"
proof -
  have "distinct (map pk_PublicKey (db_keys db))" using assms(1) by (simp add: meta_inv_def keys_ok_def)
  from find_distinct [OF this assms(2), of "\<lambda>k. pk_PublicKey k = pk_PublicKey key \<and> pk_Active k"] assms(3) show ?thesis by (simp add: LookupKey_def)
qed

lemma LookupKey_cong: "db_keys db1 = db_keys db2 \<Longrightarrow> LookupKey ok db1 = LookupKey ok db2"
  by (simp add: LookupKey_def fun_eq_iff)

lemma fresh_Allow:
  assumes "t0 \<le> now"
  shows "\<exists>l2. Allow (rl_New DefaultLimit 10000) pid t0 now = (l2, True, Some 0)"
proof -
  have "0 \<le> time_sub now t0" using assms by (simp add: time_sub_def)
  then have "0 \<le> (of_int (time_sub now t0) / 1000000000 * 1000 :: rat)" by (intro mult_nonneg_nonneg divide_nonneg_nonneg) simp_all
  then show ?thesis by (simp add: Allow_def rl_New_def DefaultLimit_def lim_for_def refill_def Let_def)
qed

lemma fresh_lookupKey:
  assumes "hi_keys x pub = Inr key"
  shows "\<exists>h1. lookupKey (NewHandler p lm) x pub = (h1, Inr key)"
  using assms by (simp add: lookupKey_def NewHandler_def lru_Get_def lru_New_def)

lemma banner_dsn: "\<exists>pre suf. serve_banner role True q proj dsn url pw = pre @ dsn @ suf"
proof -
  obtain a c where "serve_banner role True q proj dsn url pw = a @ (''  DSN:      '' @ dsn @ nl) @ c"
    unfolding serve_banner_def if_True by (metis append_assoc)
  then have "serve_banner role True q proj dsn url pw = (a @ ''  DSN:      '') @ dsn @ nl @ c" by simp
  then show ?thesis by blast
qed

text \<open>
  C14. The first event. On a consistent database without checkpoints of quotas, be it new or used, a process that ingests prints a DSN whose key is
  an active one of the project it prints; and a request with this key for this project, the first one the process gets, with a body within the limits
  and a log that takes it, is answered with 200 and appended for the project.
\<close>
theorem printed_dsn_is_accepted:
  assumes "sql_ok (cl_sql (bt_cli be))" and "meta_inv db" and "db_limits db = []" and "b = serve_boot be (Some fl) db" and "bo_result b = Inr nd" and "nd_handler nd = Some h"
    and "sentryAuthKey r = pk_PublicKey (nd_key nd)" and "pk_PublicKey (nd_key nd) \<noteq> []" and "parseInt64 (rq_ProjectID r) = Some (pj_ID (nd_proj nd))"
    and "hi_keys x = LookupKey True (bo_db b)" and "hi_bucket_time x \<le> hi_allow_time x" and "readBody lib (h_lim h) r = Inr body" and "hi_append x = Appended off"
  shows "rs_Status (fst (snd (handle lib kind h r x))) = 200 \<and> LookupKey True (bo_db b) (pk_PublicKey (nd_key nd)) = Inr (nd_key nd) \<and>
    (\<exists>pre suf url. nd_banner nd = pre @ dsnFor (bt_url be) url (pk_PublicKey (nd_key nd)) (pj_ID (nd_proj nd)) @ suf)"
proof (cases rule: serve_boot_cases [of be fl db])
  case early
  with assms(4,5) show ?thesis by simp
next
  case (opened roles cfg db1 proj key)
  obtain i w q where ro: "roles = (i, w, q)" by (cases roles)
  have "bo_result (serve_open be fl (i, w, q) cfg proj key db1) = Inr nd" using assms(4,5) opened(3) ro by simp
  then obtain db2 pw where n: "bo_db b = db2" "(if q then first_admin (bt_cli be) (pj_OrgID proj) db1 else (db1, Inr None)) = (db2, Inr pw)"
    "nd_key nd = key" "nd_proj nd = proj"
    "nd_handler nd = (if i then Some (restore_limits (bt_limits_ok be) (bt_now be) db2 (NewHandler (serve_pipe w) zero_limits)) else None)"
    "nd_banner nd = serve_banner (sf_role fl) i q proj (dsnFor (bt_url be) (cf_PublicURL cfg) (pk_PublicKey key) (pj_ID proj)) (cf_PublicURL cfg) pw"
    by (rule serve_open_serves) (use assms(4) opened(3) ro in simp)
  have fr: "db_keys db2 = db_keys db1" "db_limits db2 = db_limits db1" using admin_frame [OF n(2)] by simp_all
  note k = Bootstrap_key [OF opened(2)]
  have "meta_inv db1" using Bootstrap_inv [OF assms(1,2)] opened(2) by (metis fst_conv)
  from LookupKey_found [OF this] k have lk: "LookupKey True db2 (pk_PublicKey key) = Inr key" using LookupKey_cong [OF fr(1)] by simp
  have i: "i" "h = NewHandler (serve_pipe w) zero_limits"
    using assms(3,6) n(5) k fr(2) by (auto simp: restore_limits_def RateLimitLoad_def split: if_splits)
  obtain l2 where al: "Allow (h_limiter h) (pj_ID proj) (hi_bucket_time x) (hi_allow_time x) = (l2, True, Some 0)"
    using fresh_Allow [OF assms(11)] i(2) by (auto simp: NewHandler_def)
  obtain h1 where lu: "lookupKey h x (sentryAuthKey r) = (h1, Inr key)"
    using fresh_lookupKey [of x "sentryAuthKey r" key "serve_pipe w" zero_limits] assms(7,10) lk n(1,3) i(2) by auto
  have lag: "pl_lag (h_pipe h) \<le> MaxLag (pl_opts (h_pipe h))" by (simp add: i(2) NewHandler_def serve_pipe_def NewPipeline_def)
  have "rs_Status (fst (snd (handle lib kind h r x))) = 200"
    using handle_accepts [OF assms(9) _ lu _ _ assms(12) lag assms(13)] assms(7,8) k al n(3,4) by simp
  moreover have "\<exists>pre suf. nd_banner nd = pre @ dsnFor (bt_url be) (cf_PublicURL cfg) (pk_PublicKey key) (pj_ID proj) @ suf"
    using banner_dsn i(1) n(6) by simp
  ultimately show ?thesis using lk n(1,3,4) by blast
qed

section \<open>Quotas survive a restart\<close>

definition limiter_ok :: "limiter \<Rightarrow> bool" where
  "limiter_ok l \<longleftrightarrow> distinct (map fst (buckets l)) \<and> length (buckets l) \<le> max_projects l \<and> max_projects l = 10000"

lemma Allow_ok: "limiter_ok l \<Longrightarrow> Allow l pid t0 now = (l', r) \<Longrightarrow> limiter_ok l'"
  using Allow_inv [of l pid t0 now]
  by (auto simp: limiter_ok_def rl_inv_def Allow_def Let_def distinct_map_put split: option.splits if_splits)

lemma accept_body_limiter: "h_limiter (fst (accept_body lib kind h pid r res)) = h_limiter h"
  by (auto simp: accept_body_def h_drop_def split: sum.splits body_err.splits prod.splits option.splits submit_err.splits)

lemma handle_limiter_ok:
  assumes "limiter_ok (h_limiter h)"
  shows "limiter_ok (h_limiter (fst (handle lib kind h r x)))"
proof -
  obtain h1 res where l: "lookupKey h x (sentryAuthKey r) = (h1, res)" by fastforce
  have h1: "limiter_ok (h_limiter h1)" using lookupKey_pipe [OF l] assms by simp
  have "limiter_ok l2" if "Allow (h_limiter h1) pid t0 now = (l2, ok, w)" for pid t0 now l2 ok w using Allow_ok [OF h1 that] .
  with l h1 assms show ?thesis
    by (auto simp: handle_def Let_def h_drop_def accept_body_limiter split: option.splits sum.splits prod.splits if_splits)
qed

lemma handle_run_ok: "limiter_ok (h_limiter h) \<Longrightarrow> limiter_ok (h_limiter (handle_run lib h reqs))"
  by (induction reqs arbitrary: h) (auto simp: handle_limiter_ok)

lemma restore_loop_ok: "distinct (map fst b) \<Longrightarrow> distinct (map fst (restore_loop mx now st b))"
  by (induction mx now st b rule: restore_loop.induct) (simp_all add: distinct_map_put)

lemma booted_ok: "limiter_ok (h_limiter (restore_limits ok now db (NewHandler p lm)))"
  by (simp add: restore_limits_def limiter_ok_def NewHandler_def rl_New_def Restore_def restore_loop_ok restore_loop_length)

lemma insert_limits_distinct:
  "distinct (map fst (db_limits db @ st)) \<Longrightarrow> insert_limits st db = Inr (db\<lparr>db_limits := db_limits db @ st\<rparr>, ())"
  by (induction st db rule: insert_limits.induct) auto

lemma fold_put_distinct: "distinct (map fst (acc @ st)) \<Longrightarrow> fold (\<lambda>(k, t). map_put k t) st acc = acc @ st"
  by (induction st arbitrary: acc) (auto simp: map_put_new map_of_eq_None_iff)

lemma restore_loop_all:
  "distinct (map fst b @ map fst st) \<Longrightarrow> length b + length st \<le> mx \<Longrightarrow>
   restore_loop mx now st b = b @ map (\<lambda>(k, t). (k, \<lparr>tokens = t, last_time = now\<rparr>)) st"
  by (induction mx now st b rule: restore_loop.induct) (auto simp: map_put_new map_of_eq_None_iff)

lemma checkpoint_roundtrip:
  assumes "limiter_ok (h_limiter h)" and "db_limits db1 = db_limits (limits_tick Runs h db)"
  shows "buckets (h_limiter (restore_limits True now db1 (NewHandler p lm))) =
    map (\<lambda>(k, bk). (k, \<lparr>tokens = tokens bk, last_time = now\<rparr>)) (buckets (h_limiter h))"
proof -
  let ?st = "Snapshot (h_limiter h)"
  have st: "map fst ?st = map fst (buckets (h_limiter h))" "length ?st \<le> 10000" using assms(1) by (auto simp: Snapshot_def limiter_ok_def)
  have d: "distinct (map fst ?st)" unfolding st using assms(1) by (simp add: limiter_ok_def)
  have "db_limits db1 = ?st" using assms(2) d insert_limits_distinct [of "db\<lparr>db_limits := []\<rparr>" ?st] by (simp add: limits_tick_def RateLimitSave_def db_Write_Runs)
  then have load: "RateLimitLoad db1 = ?st" using d fold_put_distinct [of "[]" ?st] by (simp add: RateLimitLoad_def)
  show ?thesis
  proof (cases "?st = []")
    case True
    then show ?thesis by (simp add: restore_limits_def load NewHandler_def rl_New_def Snapshot_def)
  next
    case False
    with restore_loop_all [of "[]" ?st 10000 now] d st(2) show ?thesis
      by (simp add: restore_limits_def load NewHandler_def rl_New_def Restore_def Snapshot_def case_prod_unfold comp_def)
  qed
qed

text \<open>
  C15. Quotas survive a restart. Whatever requests a process has served since it booted, if a checkpoint of its limiter is written and the process is started again
  on that database, every project has exactly the tokens it had at the checkpoint, and no project gets a new bucket: only the time since is not
  credited, because the restored buckets start at the time of the restart.
\<close>
theorem limits_survive_restart:
  assumes "bo_result (serve_boot be0 (Some fl0) db0) = Inr nd0" and "nd_handler nd0 = Some h0" and "h = handle_run lib h0 reqs"
    and "b = serve_boot be (Some fl) (limits_tick Runs h db)" and "bo_result b = Inr nd" and "nd_handler nd = Some h'" and "bt_limits_ok be"
  shows "map_of (buckets (h_limiter h')) pid = map_option (\<lambda>bk. \<lparr>tokens = tokens bk, last_time = bt_now be\<rparr>) (map_of (buckets (h_limiter h)) pid)"
proof -
  have "limiter_ok (h_limiter h0)"
  proof (cases rule: serve_boot_cases [of be0 fl0 db0])
    case early
    with assms(1) show ?thesis by simp
  next
    case (opened roles cfg db1 proj key)
    obtain i w q where ro: "roles = (i, w, q)" by (cases roles)
    have "bo_result (serve_open be0 fl0 (i, w, q) cfg proj key db1) = Inr nd0" using assms(1) opened(3) ro by simp
    then show ?thesis by (rule serve_open_serves) (use assms(2) booted_ok in \<open>auto split: if_splits\<close>)
  qed
  then have ok: "limiter_ok (h_limiter h)" unfolding assms(3) by (rule handle_run_ok)
  obtain p db2 where h': "h' = restore_limits True (bt_now be) db2 (NewHandler p zero_limits)" "db_limits db2 = db_limits (limits_tick Runs h db)"
  proof (cases rule: serve_boot_cases [of be fl "limits_tick Runs h db"])
    case early
    with assms(4,5) show ?thesis by simp
  next
    case (opened roles cfg db1 proj key)
    obtain i w q where ro: "roles = (i, w, q)" by (cases roles)
    have "bo_result (serve_open be fl (i, w, q) cfg proj key db1) = Inr nd" using assms(4,5) opened(3) ro by simp
    then obtain db2 pw where "(if q then first_admin (bt_cli be) (pj_OrgID proj) db1 else (db1, Inr None)) = (db2, Inr pw)"
      "nd_handler nd = (if i then Some (restore_limits (bt_limits_ok be) (bt_now be) db2 (NewHandler (serve_pipe w) zero_limits)) else None)"
      by (rule serve_open_serves)
    moreover from this have "db_limits db2 = db_limits (limits_tick Runs h db)" using admin_frame Bootstrap_key [OF opened(2)] by metis
    ultimately show ?thesis using that [of db2 "serve_pipe w"] assms(6,7) by (simp split: if_splits)
  qed
  have "buckets (h_limiter h') = map (\<lambda>(k, bk). (k, \<lparr>tokens = tokens bk, last_time = bt_now be\<rparr>)) (buckets (h_limiter h))"
    unfolding h'(1) by (rule checkpoint_roundtrip [OF ok h'(2)])
  then show ?thesis by (simp only: map_of_map comp_apply)
qed

section \<open>Sample boots\<close>

definition boot_sample :: boot_env where
  "boot_sample = \<lparr>bt_fsys = (\<lambda>_. None), bt_lookup = (\<lambda>_. None), bt_mkdir = True, bt_cli = sample_ce\<lparr>cl_key_rnd := [0xAB]\<rparr>, bt_dir = [],
     bt_synced = (\<lambda>_. 0), bt_wal_io = [], bt_events = [], bt_sort = id, bt_started = True, bt_peers_failed = False, bt_members = [], bt_limits_ok = True,
     bt_now = 9, bt_url = (\<lambda>_. None)\<rparr>"

definition boot_flags :: "string \<Rightarrow> serve_flags" where
  "boot_flags role = no_serve_flags\<lparr>sf_role := role\<rparr>"

definition boot_db :: meta_db where
  "boot_db = fst (Bootstrap std_sql Runs [0xAB] ''Default'' ''my-app'' empty_db)"

definition boot_proj :: Project where
  "boot_proj = \<lparr>pj_ID = 1, pj_OrgID = 1, pj_Slug = ''my-app'', pj_Name = ''my-app'', pj_Platform = []\<rparr>"

definition boot_key1 :: ProjectKey where
  "boot_key1 = \<lparr>pk_ID = 1, pk_ProjectID = 1, pk_OrgID = 1, pk_PublicKey = ''ab'', pk_Active = True\<rparr>"

lemma boot_db_made: "Bootstrap std_sql Runs [0xAB] ''Default'' ''my-app'' empty_db = (boot_db, Inr (boot_proj, boot_key1))"
proof -
  have "snd (Bootstrap std_sql Runs [0xAB] ''Default'' ''my-app'' empty_db) = Inr (boot_proj, boot_key1)" by code_simp
  then show ?thesis by (simp add: boot_db_def prod_eq_iff)
qed

lemma boot_flags_simps [simp]: "sf_role (boot_flags role) = role" "sf_clusterNodeID (boot_flags role) = []" "sf_clusterAPIAddr (boot_flags role) = []"
  by (simp_all add: boot_flags_def no_serve_flags_def)

lemma boot_config: "\<exists>cfg. serve_config (\<lambda>_. None) (\<lambda>_. None) (boot_flags role) = Inr cfg"
proof -
  have "config_Validate config_Default = None" by code_simp
  then show ?thesis
    by (simp add: serve_config_def config_Load_def applyEnv_def env_or_def overlay_flags_def or_set_def boot_flags_def no_serve_flags_def Let_def)
qed

lemma boot_sample_simps [simp]:
  "bt_fsys boot_sample = (\<lambda>_. None)" "bt_lookup boot_sample = (\<lambda>_. None)" "bt_mkdir boot_sample" "bt_dir boot_sample = []" "bt_wal_io boot_sample = []"
  "bt_limits_ok boot_sample" "bt_now boot_sample = 9" "cl_sql (bt_cli boot_sample) = std_sql" "cl_boot (bt_cli boot_sample) = Runs"
  "cl_key_rnd (bt_cli boot_sample) = [0xAB]" "cl_open (bt_cli boot_sample)" "bt_events boot_sample = []"
  by (simp_all add: boot_sample_def sample_ce_def)

lemma boot_sample_opens:
  assumes "serve_roles role = Some roles" and "Bootstrap std_sql Runs [0xAB] ''Default'' ''my-app'' db = (db1, Inr (proj, key))"
  shows "\<exists>cfg. serve_boot boot_sample (Some (boot_flags role)) db = serve_open boot_sample (boot_flags role) roles cfg proj key db1"
  using boot_config [of role] assms by (auto simp: serve_boot_def)

lemma ingest_wal_opens: "\<exists>d io w. wal_Open (serve_wal_opts True) [] sy [] = (d, io, Inr w)"
  by (simp add: wal_Open_def serve_wal_opts_def zero_wal_def wal_defaults_def load_def listSegments_def fresh_log_def createSegment_def Let_def)

lemma worker_wal_opens: "\<exists>d io w. wal_Open (serve_wal_opts False) [] sy [] = (d, io, Inr w)"
  by (simp add: wal_Open_def serve_wal_opts_def zero_wal_def wal_defaults_def Refresh_def listSegments_def Let_def)

lemma boot_ingests:
  assumes "Bootstrap std_sql Runs [0xAB] ''Default'' ''my-app'' db = (db1, Inr (proj, key))" and "b = serve_boot boot_sample (Some (boot_flags ''ingest'')) db"
  shows "\<exists>nd. bo_result b = Inr nd \<and> bo_db b = db1 \<and> nd_key nd = key \<and> nd_proj nd = proj \<and>
    nd_handler nd = Some (restore_limits True 9 db1 (NewHandler (serve_pipe False) zero_limits))"
proof -
  obtain cfg where s: "b = serve_open boot_sample (boot_flags ''ingest'') (True, False, False) cfg proj key db1"
    using boot_sample_opens [OF _ assms(1), of "''ingest''" "(True, False, False)"] assms(2) by (auto simp: serve_roles_def)
  obtain d io w where w: "wal_Open (serve_wal_opts True) [] (bt_synced boot_sample) [] = (d, io, Inr w)" using ingest_wal_opens by blast
  show ?thesis unfolding s by (simp add: serve_open_def w serve_store_def serve_up_def serve_join_def Let_def)
qed

theorem only_ingest_writes_log_witness:
  "\<exists>w. bo_wal (serve_boot boot_sample (Some (boot_flags ''worker'')) empty_db) = Some w \<and> append_check w [1] = Some ErrReadOnly"
proof -
  obtain cfg where s: "serve_boot boot_sample (Some (boot_flags ''worker'')) empty_db = serve_open boot_sample (boot_flags ''worker'') (False, True, False) cfg boot_proj boot_key1 boot_db"
    using boot_sample_opens [OF _ boot_db_made, of "''worker''" "(False, True, False)"] by (auto simp: serve_roles_def)
  obtain d io w where w: "wal_Open (serve_wal_opts False) [] (bt_synced boot_sample) [] = (d, io, Inr w)" using worker_wal_opens by blast
  have "bo_wal (serve_boot boot_sample (Some (boot_flags ''worker'')) empty_db) = Some w"
    unfolding s by (simp add: serve_open_def w serve_store_def es_Open_def serve_up_frame)
  moreover have "serve_roles (sf_role (boot_flags ''worker'')) = Some (False, True, False)" by (simp add: serve_roles_def)
  ultimately show ?thesis using only_ingest_writes_log [OF _ refl, of "boot_flags ''worker''" True False boot_sample empty_db "[1]" "[]"] by auto
qed

definition boot_req :: HttpRequest where
  "boot_req = sample_req\<lparr>rq_ProjectID := ''1''\<rparr>"

lemma boot_req_facts: "sentryAuthKey boot_req = ''ab''" "parseInt64 (rq_ProjectID boot_req) = Some 1"
  by code_simp+

lemma boot_req_body: "readBody plain_lib (lim_defaults zero_limits) boot_req = Inr [1, 2]"
  by (simp add: readBody_def open_body_def plain_lib_def boot_req_def sample_req_def MaxBytesReader_def read_limited_def to_lower_def lim_defaults_def zero_limits_def Let_def)

theorem printed_dsn_is_accepted_witness:
  "\<exists>nd h. bo_result (serve_boot boot_sample (Some (boot_flags ''ingest'')) empty_db) = Inr nd \<and> nd_handler nd = Some h \<and>
     rs_Status (fst (snd (handle plain_lib recEnvelope h boot_req
       (sample_io\<lparr>hi_keys := LookupKey True (bo_db (serve_boot boot_sample (Some (boot_flags ''ingest'')) empty_db))\<rparr>)))) = 200"
proof -
  let ?b = "serve_boot boot_sample (Some (boot_flags ''ingest'')) empty_db"
  let ?x = "sample_io\<lparr>hi_keys := LookupKey True (bo_db ?b)\<rparr>"
  obtain nd where nd: "bo_result ?b = Inr nd" "nd_key nd = boot_key1" "nd_proj nd = boot_proj" "nd_handler nd = Some (restore_limits True 9 boot_db (NewHandler (serve_pipe False) zero_limits))"
    using boot_ingests [OF boot_db_made refl] by blast
  let ?h = "restore_limits True 9 boot_db (NewHandler (serve_pipe False) zero_limits)"
  have lim: "h_lim ?h = lim_defaults zero_limits" by (simp add: restore_limits_def NewHandler_def)
  have k: "sentryAuthKey boot_req = pk_PublicKey (nd_key nd)" "pk_PublicKey (nd_key nd) \<noteq> []" "parseInt64 (rq_ProjectID boot_req) = Some (pj_ID (nd_proj nd))"
    using nd(2,3) boot_req_facts by (simp_all add: boot_key1_def boot_proj_def)
  have x: "hi_keys ?x = LookupKey True (bo_db ?b)" "hi_bucket_time ?x \<le> hi_allow_time ?x" "hi_append ?x = Appended 5" by (simp_all add: sample_io_def)
  have e: "db_limits empty_db = []" "sql_ok (cl_sql (bt_cli boot_sample))" by (simp_all add: empty_db_def std_sql_ok)
  have body: "readBody plain_lib (h_lim ?h) boot_req = Inr [1, 2]" unfolding lim by (rule boot_req_body)
  from printed_dsn_is_accepted [OF e(2) empty_db_inv e(1) refl nd(1,4) k x(1,2) body x(3), of recEnvelope] nd(1,4) show ?thesis by blast
qed

lemma Bootstrap_again:
  assumes "Bootstrap E Runs rnd oname pname db = (db1, Inr (proj, key))"
  shows "Bootstrap E Runs rnd' oname' pname' (db1\<lparr>db_limits := ls\<rparr>) = (db1\<lparr>db_limits := ls\<rparr>, Inr (proj, key))"
proof -
  obtain a b og where s: "boot_org E oname db = Inr (a, og)" "boot_project E og pname a = Inr (b, proj)" "boot_key E rnd (pj_ID proj) og b = Inr (db1, key)"
    by (rule Bootstrap_steps [OF assms])
  from boot_key_found [OF s(3)] boot_project_found [OF s(2)] boot_org_found [OF s(1)] show ?thesis
    by (auto simp: Bootstrap_def db_Write_Runs boot_org_def boot_project_def boot_key_def)
qed

theorem limits_survive_restart_witness:
  "\<exists>nd h. bo_result (serve_boot boot_sample (Some (boot_flags ''ingest'')) (limits_tick Runs h boot_db)) = Inr nd \<and>
     map_option (\<lambda>h'. map_of (buckets (h_limiter h')) 1) (nd_handler nd) = Some (Some \<lparr>tokens = 4999, last_time = 9\<rparr>)"
proof -
  let ?bz = "serve_boot boot_sample (Some (boot_flags ''ingest'')) empty_db"
  obtain nd0 where nd0: "bo_result ?bz = Inr nd0" "nd_handler nd0 = Some (restore_limits True 9 boot_db (NewHandler (serve_pipe False) zero_limits))"
    using boot_ingests [OF boot_db_made refl] by blast
  let ?hz = "restore_limits True 9 boot_db (NewHandler (serve_pipe False) zero_limits)"
  let ?x = "sample_io\<lparr>hi_keys := LookupKey True boot_db\<rparr>"
  let ?h = "handle_run plain_lib ?hz [(recEnvelope, boot_req, ?x)]"
  have "db_limits boot_db = []" using Bootstrap_key [OF boot_db_made] by (simp add: empty_db_def)
  then have h0: "?hz = NewHandler (serve_pipe False) zero_limits" by (simp add: restore_limits_def RateLimitLoad_def)
  have "meta_inv boot_db" using Bootstrap_inv [OF std_sql_ok empty_db_inv] by (simp add: boot_db_def)
  then have "LookupKey True boot_db ''ab'' = Inr boot_key1" using LookupKey_found [of boot_db boot_key1] Bootstrap_key [OF boot_db_made] by (simp add: boot_key1_def)
  then obtain h1 where lu: "lookupKey ?hz ?x (sentryAuthKey boot_req) = (h1, Inr boot_key1)"
    using fresh_lookupKey [of ?x "''ab''" boot_key1] unfolding h0 boot_req_facts by auto
  have al: "Allow (h_limiter ?hz) 1 (hi_bucket_time ?x) (hi_allow_time ?x) = ((rl_New DefaultLimit 10000)\<lparr>buckets := [(1, \<lparr>tokens = 4999, last_time = 3\<rparr>)]\<rparr>, True, Some 0)"
    unfolding h0 by (simp add: NewHandler_def sample_io_def Allow_def rl_New_def DefaultLimit_def lim_for_def refill_def time_sub_def Let_def)
  have ne: "sentryAuthKey boot_req \<noteq> []" and pk: "pk_ProjectID boot_key1 = 1" and ap: "hi_append ?x = Appended 5"
    by (simp_all add: boot_req_facts boot_key1_def sample_io_def)
  have body: "readBody plain_lib (h_lim ?hz) boot_req = Inr [1, 2]" using boot_req_body by (simp add: restore_limits_def NewHandler_def)
  have lag: "pl_lag (h_pipe ?hz) \<le> MaxLag (pl_opts (h_pipe ?hz))" by (simp add: restore_limits_def NewHandler_def serve_pipe_def NewPipeline_def)
  have lm: "h_limiter ?h = (rl_New DefaultLimit 10000)\<lparr>buckets := [(1, \<lparr>tokens = 4999, last_time = 3\<rparr>)]\<rparr>"
    using handle_accepts [OF boot_req_facts(2) ne lu pk al body lag ap, of recEnvelope] by simp
  from lm have tk: "map_of (buckets (h_limiter ?h)) 1 = Some \<lparr>tokens = 4999, last_time = 3\<rparr>" by simp
  let ?db = "limits_tick Runs ?h boot_db" and ?b = "serve_boot boot_sample (Some (boot_flags ''ingest'')) (limits_tick Runs ?h boot_db)"
  have "?db = boot_db\<lparr>db_limits := [(1, 4999)]\<rparr>"
    using lm by (simp add: limits_tick_def Snapshot_def RateLimitSave_def db_Write_Runs)
  then have "Bootstrap std_sql Runs [0xAB] ''Default'' ''my-app'' ?db = (?db, Inr (boot_proj, boot_key1))" using Bootstrap_again [OF boot_db_made] by metis
  from boot_ingests [OF this refl] obtain nd h' where nd: "bo_result ?b = Inr nd" "nd_handler nd = Some h'" by metis
  from limits_survive_restart [OF nd0 refl refl nd] tk nd show ?thesis by auto
qed

end
