(* ===== verification/Bench.thy ===== *)
theory Bench
  imports Complex_Main "HOL-Library.Multiset" Wal_Segment Go_Text
begin

text \<open>
  The measuring programs beside the server. \<open>bench/walbench/main.go\<close>: framing, and the loop that writes and syncs records in each mode through a buffered
  writer; \<open>bench/loadgen/main.go\<close>: the events it posts, the counters, the percentiles and the gates. Clocks, random numbers, latencies and the results of
  system calls are inputs; rates that are only printed are left out.
\<close>

section \<open>Framing\<close>

definition frame :: "u64 \<Rightarrow> byte \<Rightarrow> byte list \<Rightarrow> byte list" where
  "frame ts typ1 payload =
     (let body = put_le 8 ts @ [typ1] @ payload
      in put_le 4 (of_nat (4 + length body) :: u32) @ put_le 4 (crc32c body) @ body)"

text \<open>The frame is the record of the log except for its length field, which counts the four bytes of the checksum too.\<close>

lemma frame_is_record:
  "drop 4 (frame ts ty p) = drop 4 (appendRecord ts ty p)" "length (frame ts ty p) = length (appendRecord ts ty p)"
  "(get_le (take 4 (frame ts ty p)) :: u32) = get_le (take 4 (appendRecord ts ty p)) + 4"
  by (simp_all add: frame_def appendRecord_def record_body_def bodyFixedLen_def Let_def)

section \<open>The buffered writer and the file\<close>

record bench_file =
  bf_buf :: "byte list"
  bf_data :: "byte list"
  bf_synced :: nat
  bf_io :: io

definition bench_buf :: nat where "bench_buf = 2 ^ 20"

text \<open>\<open>None\<close> is an error, on which the run is given up.\<close>

definition bf_write :: "byte list \<Rightarrow> bench_file \<Rightarrow> bench_file option" where
  "bf_write p b = (case io_next (bf_io b) of (Done, io1) \<Rightarrow> Some (b\<lparr>bf_data := bf_data b @ p, bf_io := io1\<rparr>) | (Fail _, _) \<Rightarrow> None)"

definition bf_Flush :: "bench_file \<Rightarrow> bench_file option" where
  "bf_Flush b = (if bf_buf b = [] then Some b else map_option (\<lambda>b1. b1\<lparr>bf_buf := []\<rparr>) (bf_write (bf_buf b) b))"

lemma bf_Flush_buf: "bf_Flush b = Some b1 \<Longrightarrow> bf_buf b1 = []"
  by (auto simp: bf_Flush_def split: if_splits)

function bf_Write :: "byte list \<Rightarrow> bench_file \<Rightarrow> bench_file option" where
  "bf_Write p b =
     (let avail = bench_buf - length (bf_buf b) in
      if length p \<le> avail then Some (b\<lparr>bf_buf := bf_buf b @ p\<rparr>)
      else if bf_buf b = [] then bf_write p b
      else case bf_Flush (b\<lparr>bf_buf := bf_buf b @ take avail p\<rparr>) of None \<Rightarrow> None | Some b1 \<Rightarrow> bf_Write (drop avail p) b1)"
  by auto
termination
  by (relation "measure (\<lambda>(p, b). 2 * length p + (if bf_buf b = [] then 0 else 1))") (auto dest: bf_Flush_buf)

declare bf_Write.simps [simp del]

section \<open>A run\<close>

record bench_mode =
  bm_fsyncEvery :: nat
  bm_batchWindow :: int
  bm_fullFsync :: bool

text \<open>\<open>fullFsync\<close> and \<open>Sync\<close> differ in how far the drive flushes; for the file both end with its bytes durable or with an error.\<close>

definition bf_sync :: "bool \<Rightarrow> bench_file \<Rightarrow> bench_file option" where
  "bf_sync full b = (case io_next (bf_io b) of (Done, io1) \<Rightarrow> Some (b\<lparr>bf_synced := length (bf_data b), bf_io := io1\<rparr>) | (Fail _, _) \<Rightarrow> None)"

definition doSync :: "bench_mode \<Rightarrow> bench_file \<Rightarrow> bench_file option" where
  "doSync m b = Option.bind (bf_Flush b) (bf_sync (bm_fullFsync m))"

text \<open>The clock readings of one turn: the timestamp of the record, the time when the window is checked, the time after the sync.\<close>

record bench_clock =
  bc_ts :: u64
  bc_check :: int
  bc_after :: int

definition sync_turn :: "bench_mode \<Rightarrow> nat \<Rightarrow> bench_clock \<Rightarrow> bench_file \<times> int \<Rightarrow> (bench_file \<times> int) option" where
  "sync_turn m i c x =
     (case x of (b, lastBatch) \<Rightarrow>
        if 0 < bm_batchWindow m then
          (if bm_batchWindow m \<le> bc_check c - lastBatch then map_option (\<lambda>b. (b, bc_after c)) (doSync m b) else Some (b, lastBatch))
        else if bm_fsyncEvery m = 1 then map_option (\<lambda>b. (b, lastBatch)) (doSync m b)
        else if 1 < bm_fsyncEvery m \<and> (i + 1) mod bm_fsyncEvery m = 0 then map_option (\<lambda>b. (b, lastBatch)) (doSync m b)
        else Some (b, lastBatch))"

fun run_records :: "bench_mode \<Rightarrow> byte list \<Rightarrow> nat \<Rightarrow> bench_clock list \<Rightarrow> bench_file \<times> int \<Rightarrow> nat \<Rightarrow> ((bench_file \<times> int) \<times> nat) option" where
  "run_records m payload i [] x totalBytes = Some (x, totalBytes)"
| "run_records m payload i (c # cs) x totalBytes =
     (let rec1 = frame (bc_ts c) 1 payload in
      case bf_Write rec1 (fst x) of
        None \<Rightarrow> None
      | Some b \<Rightarrow>
          (case sync_turn m i c (b, snd x) of
             None \<Rightarrow> None
           | Some x1 \<Rightarrow> run_records m payload (i + 1) cs x1 (totalBytes + length rec1)))"

definition bench_payload :: "nat \<Rightarrow> byte list" where
  "bench_payload sz = map of_nat [0..<sz]"

text \<open>One turn per element of \<open>cs\<close>; the result is the file and the bytes counted.\<close>

definition runMode :: "bench_mode \<Rightarrow> nat \<Rightarrow> int \<Rightarrow> bench_clock list \<Rightarrow> io \<Rightarrow> (bench_file \<times> nat) option" where
  "runMode m payloadSize start cs io =
     (case io_next io of
        (Fail _, _) \<Rightarrow> None
      | (Done, io1) \<Rightarrow>
          (case run_records m (bench_payload payloadSize) 0 cs (\<lparr>bf_buf = [], bf_data = [], bf_synced = 0, bf_io = io1\<rparr>, start) 0 of
             None \<Rightarrow> None
           | Some ((b, _), n) \<Rightarrow> map_option (\<lambda>b. (b, n)) (doSync m b)))"

definition bench_modes :: "bench_mode list" where
  "bench_modes =
     map (\<lambda>(e, w, f). \<lparr>bm_fsyncEvery = e, bm_batchWindow = w, bm_fullFsync = f\<rparr>)
       [(0, 0, False), (0, 2 * 10 ^ 6, False), (1000, 0, False), (1, 0, False), (1, 0, True), (0, 2 * 10 ^ 6, True)]"

text \<open>The number of records a mode is measured with.\<close>

definition bench_n :: "bench_mode \<Rightarrow> nat" where
  "bench_n m = (if bm_fsyncEvery m = 1 then 3000 else 200000)"

section \<open>What a run writes\<close>

definition bf_all :: "bench_file \<Rightarrow> byte list" where "bf_all b = bf_data b @ bf_buf b"

lemma bf_Flush_all: "bf_Flush b = Some b1 \<Longrightarrow> bf_all b1 = bf_all b"
  by (auto simp: bf_Flush_def bf_write_def bf_all_def split: if_splits prod.splits io_res.splits)

lemma bf_Write_all: "bf_Write p b = Some b1 \<Longrightarrow> bf_all b1 = bf_all b @ p"
proof (induction p b rule: bf_Write.induct)
  case (1 p b)
  let ?a = "bench_buf - length (bf_buf b)" and ?b = "b\<lparr>bf_buf := bf_buf b @ take (bench_buf - length (bf_buf b)) p\<rparr>"
  show ?case
  proof (cases "length p \<le> ?a \<or> bf_buf b = []")
    case True
    then show ?thesis using 1(2) by (auto simp: bf_Write.simps [of p b] bf_all_def bf_write_def Let_def split: if_splits prod.splits io_res.splits)
  next
    case False
    then obtain b2 where f: "bf_Flush ?b = Some b2" "bf_Write (drop ?a p) b2 = Some b1" using 1(2) by (auto simp: bf_Write.simps [of p b] Let_def split: option.splits)
    have "bf_all b2 = bf_all b @ take ?a p" using bf_Flush_all [OF f(1)] by (simp add: bf_all_def)
    with 1(1) [OF refl _ _ f] False show ?thesis by simp
  qed
qed

lemma doSync_all:
  assumes "doSync m b = Some b1"
  shows "bf_all b1 = bf_all b \<and> bf_buf b1 = [] \<and> bf_synced b1 = length (bf_data b1)"
proof -
  obtain b2 where f: "bf_Flush b = Some b2" "bf_sync (bm_fullFsync m) b2 = Some b1" using assms by (auto simp: doSync_def bind_eq_Some_conv)
  obtain io1 where "b1 = b2\<lparr>bf_synced := length (bf_data b2), bf_io := io1\<rparr>" using f(2) by (cases "io_next (bf_io b2)") (auto simp: bf_sync_def split: io_res.splits)
  with bf_Flush_buf [OF f(1)] bf_Flush_all [OF f(1)] show ?thesis by (simp add: bf_all_def)
qed

lemma sync_turn_all: "sync_turn m i c (b, t) = Some (b1, t1) \<Longrightarrow> bf_all b1 = bf_all b"
  by (auto simp: sync_turn_def dest!: doSync_all split: if_splits)

lemma run_records_all:
  "run_records m p i cs (b, t) n = Some ((b1, t1), n1) \<Longrightarrow>
   bf_all b1 = bf_all b @ concat (map (\<lambda>c. frame (bc_ts c) 1 p) cs) \<and> n1 = n + length (concat (map (\<lambda>c. frame (bc_ts c) 1 p) cs))"
proof (induction cs arbitrary: i b t n)
  case (Cons c cs)
  obtain b2 where w: "bf_Write (frame (bc_ts c) 1 p) b = Some b2" using Cons.prems by (auto simp: Let_def split: option.splits)
  with Cons.prems obtain b3 t3 where s: "sync_turn m i c (b2, t) = Some (b3, t3)" by (auto simp: Let_def split: option.splits)
  have "run_records m p (i + 1) cs (b3, t3) (n + length (frame (bc_ts c) 1 p)) = Some ((b1, t1), n1)" using Cons.prems w s by (simp add: Let_def)
  from Cons.IH [OF this] sync_turn_all [OF s] bf_Write_all [OF w] show ?case by simp
qed simp

text \<open>
  What is measured is durable writing: in every mode and under all timings, a run that succeeds leaves a file with exactly the frames of all records, in
  order, all of it synced, and the bytes it counts are the bytes of the file.
\<close>
theorem runMode_durable:
  assumes "runMode m sz start cs io = Some (b, n)"
  shows "bf_data b = concat (map (\<lambda>c. frame (bc_ts c) 1 (bench_payload sz)) cs) \<and> bf_synced b = length (bf_data b) \<and> n = length (bf_data b)"
proof -
  obtain io1 b1 t1 where r: "run_records m (bench_payload sz) 0 cs (\<lparr>bf_buf = [], bf_data = [], bf_synced = 0, bf_io = io1\<rparr>, start) 0 = Some ((b1, t1), n)" "doSync m b1 = Some b"
    using assms by (auto simp: runMode_def split: prod.splits io_res.splits option.splits)
  from run_records_all [OF r(1)] doSync_all [OF r(2)] show ?thesis by (auto simp: bf_all_def)
qed

theorem runMode_durable_witness:
  "\<exists>b n. runMode \<lparr>bm_fsyncEvery = 1, bm_batchWindow = 0, bm_fullFsync = False\<rparr> 2 0 [\<lparr>bc_ts = 5, bc_check = 0, bc_after = 0\<rparr>] [] = Some (b, n) \<and>
     bf_data b = frame 5 1 [0, 1]"
proof -
  let ?m = "\<lparr>bm_fsyncEvery = 1, bm_batchWindow = 0, bm_fullFsync = False\<rparr>" and ?f = "frame 5 1 (bench_payload 2)"
  let ?b = "\<lparr>bf_buf = [], bf_data = ?f, bf_synced = length ?f, bf_io = []\<rparr>"
  have f: "length ?f \<le> bench_buf" "?f \<noteq> []" by (simp_all add: frame_def bench_payload_def bench_buf_def Let_def)
  have w: "bf_Write ?f \<lparr>bf_buf = [], bf_data = [], bf_synced = 0, bf_io = []\<rparr> = Some \<lparr>bf_buf = ?f, bf_data = [], bf_synced = 0, bf_io = []\<rparr>"
    using f(1) by (simp add: bf_Write.simps)
  have d: "doSync ?m \<lparr>bf_buf = ?f, bf_data = [], bf_synced = 0, bf_io = []\<rparr> = Some ?b" "doSync ?m ?b = Some ?b"
    using f(2) by (simp_all add: doSync_def bf_Flush_def bf_write_def bf_sync_def)
  have r: "runMode ?m 2 0 [\<lparr>bc_ts = 5, bc_check = 0, bc_after = 0\<rparr>] [] = Some (?b, length ?f)"
    using w d by (simp add: runMode_def sync_turn_def Let_def)
  have "bench_payload 2 = [0, 1]" by (simp add: bench_payload_def upt_rec)
  with runMode_durable [OF r] r show ?thesis by (intro exI conjI) auto
qed

section \<open>The load generator\<close>

record load_counts =
  lc_accepted :: nat
  lc_shed :: nat
  lc_failed :: nat
  lc_lats :: "int list"
  lc_kinds :: "(string \<times> nat) list"

definition no_counts :: load_counts where
  "no_counts = \<lparr>lc_accepted = 0, lc_shed = 0, lc_failed = 0, lc_lats = [], lc_kinds = []\<rparr>"

definition add_kind :: "string \<Rightarrow> (string \<times> nat) list \<Rightarrow> (string \<times> nat) list" where
  "add_kind key kinds = map_put key (case map_of kinds key of None \<Rightarrow> 1 | Some n \<Rightarrow> n + 1) kinds"

text \<open>The \<open>n\<close>-th event and its envelope; \<open>v\<close> is the random number. An id has no character that \<open>%q\<close> escapes.\<close>

definition load_id :: "nat \<Rightarrow> string" where
  "load_id n = ''l'' @ replicate (31 - length (dec_str n)) (CHR ''0'') @ dec_str n"

definition lg_quoted :: "string \<Rightarrow> string" where
  "lg_quoted s = [CHR 0x22] @ s @ [CHR 0x22]"

definition load_event :: "string \<Rightarrow> nat \<Rightarrow> string" where
  "load_event i v =
     ''{'' @ lg_quoted ''event_id'' @ '':'' @ lg_quoted i @ '','' @ lg_quoted ''message'' @ '':'' @ lg_quoted ''load'' @ '','' @ lg_quoted ''exception'' @ '':{'' @ lg_quoted ''values'' @ '':[{'' @
     lg_quoted ''type'' @ '':'' @ lg_quoted ''LoadErr'' @ '','' @ lg_quoted ''value'' @ '':'' @ lg_quoted (''v'' @ dec_str v) @ ''}]}}''"

definition load_body :: "string \<Rightarrow> string \<Rightarrow> string" where
  "load_body i event =
     ''{'' @ lg_quoted ''event_id'' @ '':'' @ lg_quoted i @ ''}'' @ [CHR 0x0A] @
     ''{'' @ lg_quoted ''type'' @ '':'' @ lg_quoted ''event'' @ '','' @ lg_quoted ''length'' @ '':'' @ dec_str (length event) @ ''}'' @ [CHR 0x0A] @ event @ [CHR 0x0A]"

text \<open>No two events of a run have the same id, so that the server's duplicate filter drops none.\<close>

lemma load_id_inj: "load_id m = load_id n \<Longrightarrow> m = n"
  by (metis append_same_eq dec_val_dec_str dec_val_zeros load_id_def same_append_eq)

text \<open>The text of a transport error, or the status of an answer, and the latency.\<close>

definition count_answer :: "load_counts \<Rightarrow> (string + nat) \<times> int \<Rightarrow> load_counts" where
  "count_answer k x =
     (case x of
        (Inl err, lat) \<Rightarrow>
          k\<lparr>lc_failed := lc_failed k + 1,
            lc_kinds := (if length (lc_kinds k) < 5 then add_kind (''transport: '' @ take 80 err) (lc_kinds k) else lc_kinds k)\<rparr>
      | (Inr status, lat) \<Rightarrow>
          if status = 200 then k\<lparr>lc_accepted := lc_accepted k + 1, lc_lats := lc_lats k @ [lat]\<rparr>
          else if status = 429 then k\<lparr>lc_shed := lc_shed k + 1\<rparr>
          else k\<lparr>lc_failed := lc_failed k + 1, lc_kinds := add_kind (''http '' @ dec_str status) (lc_kinds k)\<rparr>)"

text \<open>\<open>lats[int(float64(len(lats)-1)*p)]\<close> of the sorted latencies, with the product taken exactly.\<close>

definition lg_pct :: "int list \<Rightarrow> rat \<Rightarrow> int" where
  "lg_pct lats p = (if lats = [] then 0 else lats ! nat \<lfloor>of_nat (length lats - 1) * p\<rfloor>)"

text \<open>The gates; \<open>rss\<close> are the two samples, and whether the program exits with success.\<close>

definition load_pass :: "load_counts \<Rightarrow> int \<Rightarrow> int \<Rightarrow> int \<times> int \<Rightarrow> bool" where
  "load_pass k maxP99 maxGrowth rss =
     (let bad1 = lc_accepted k div 100 < lc_failed k;
          bad2 = maxP99 < lg_pct (sort (lc_lats k)) (99 / 100);
          bad3 = (0 < fst rss \<and> maxGrowth < snd rss - fst rss);
          bad4 = (lc_accepted k = 0)
      in \<not> (bad1 \<or> bad2 \<or> bad3 \<or> bad4))"

lemma count_lats: "lc_accepted k = length (lc_lats k) \<Longrightarrow> lc_accepted (foldl count_answer k xs) = length (lc_lats (foldl count_answer k xs))"
  by (induction xs arbitrary: k) (auto simp: count_answer_def split: sum.splits)

lemma p99_index: "n \<noteq> 0 \<Longrightarrow> nat \<lfloor>of_nat (n - 1) * (99 / 100 :: rat)\<rfloor> = (99 * (n - 1)) div 100"
proof -
  have "\<lfloor>of_nat (n - 1) * (99 / 100 :: rat)\<rfloor> = \<lfloor>of_nat (99 * (n - 1)) / of_nat 100 :: rat\<rfloor>" by (simp add: mult.commute)
  also have "\<dots> = int (99 * (n - 1) div 100)" by (simp only: floor_divide_of_nat_eq)
  finally show ?thesis by simp
qed

text \<open>
  What a passed gate says: of \<open>n\<close> accepted requests, where there is at least one, at least \<open>99 (n - 1) / 100 + 1\<close> had a latency within the bound, and
  at most one failure happened per hundred of them.
\<close>
theorem load_pass_means:
  assumes "k = foldl count_answer no_counts answers" and "load_pass k maxP99 maxGrowth rss"
  shows "0 < lc_accepted k \<and> 100 * lc_failed k \<le> lc_accepted k \<and>
    99 * (lc_accepted k - 1) div 100 + 1 \<le> length (filter (\<lambda>l. l \<le> maxP99) (lc_lats k))"
proof -
  let ?s = "sort (lc_lats k)" and ?i = "99 * (lc_accepted k - 1) div 100"
  have n: "lc_accepted k = length (lc_lats k)" unfolding assms(1) by (rule count_lats) (simp add: no_counts_def)
  have g: "lc_failed k \<le> lc_accepted k div 100" "lg_pct ?s (99 / 100) \<le> maxP99" "0 < lc_accepted k" using assms(2) by (auto simp: load_pass_def Let_def)
  have i: "?i < length ?s" using g(3) unfolding length_sort n by linarith
  have "?s \<noteq> []" using g(3) n by (metis length_0_conv length_sort less_irrefl)
  then have "lg_pct ?s (99 / 100) = ?s ! ?i" using p99_index [of "length ?s"] unfolding n by (simp only: lg_pct_def if_False length_sort length_0_conv [symmetric]) simp
  with g(2) have "?s ! ?i \<le> maxP99" by simp
  moreover have "?s ! j \<le> ?s ! ?i" if "j \<le> ?i" for j using sorted_nth_mono [OF sorted_sort that i] .
  ultimately have "\<forall>l \<in> set (take (?i + 1) ?s). l \<le> maxP99" using i by (fastforce simp: in_set_conv_nth less_Suc_eq_le)
  then have "filter (\<lambda>l. l \<le> maxP99) (take (?i + 1) ?s) = take (?i + 1) ?s" by simp
  moreover have "filter (\<lambda>l. l \<le> maxP99) ?s = filter (\<lambda>l. l \<le> maxP99) (take (?i + 1) ?s) @ filter (\<lambda>l. l \<le> maxP99) (drop (?i + 1) ?s)"
    by (metis append_take_drop_id filter_append)
  ultimately have "length (filter (\<lambda>l. l \<le> maxP99) ?s) = length (take (?i + 1) ?s) + length (filter (\<lambda>l. l \<le> maxP99) (drop (?i + 1) ?s))"
    by (metis length_append)
  then have "?i + 1 \<le> length (filter (\<lambda>l. l \<le> maxP99) ?s)" using i by simp
  also have "\<dots> = length (filter (\<lambda>l. l \<le> maxP99) (lc_lats k))" by (metis mset_filter mset_sort size_mset)
  finally show ?thesis using g by simp
qed

theorem load_pass_means_witness:
  "load_pass (foldl count_answer no_counts [(Inr 200, 7), (Inr 429, 1)]) 9 5 (0, 0) \<and>
   length (filter (\<lambda>l. l \<le> 9) (lc_lats (foldl count_answer no_counts [(Inr 200, 7), (Inr 429, 1)]))) \<ge> 1"
proof -
  have "load_pass (foldl count_answer no_counts [(Inr 200, 7), (Inr 429, 1)]) 9 5 (0, 0)"
    by (simp add: load_pass_def count_answer_def lg_pct_def no_counts_def)
  from this load_pass_means [OF refl this] show ?thesis by simp
qed

end
